(* ===== verification/Nachos_Prelude.thy ===== *)
theory Nachos_Prelude
  imports Main "HOL-Library.Word" "HOL-Library.Signed_Division"
begin

text \<open>
  Shared ground of the development: the result type in which every C++ function of the
  kernel and of the machine emulation is modelled, checked array access, C integer
  division, little-endian byte encodings, and the lemma collections the components use.
\<close>

unbundle bit_operations_syntax

named_theorems nachos_defs \<open>definitions unfolded by the component proofs\<close>
named_theorems res_simps \<open>rewriting of results\<close>

subsection \<open>Machine types\<close>

type_synonym byte = "8 word"
type_synonym u16 = "16 word"
type_synonym u32 = "32 word"

subsection \<open>Results\<close>

text \<open>
  \<^item> \<open>AssertFail\<close>: an \<open>ASSERT\<close> of the source was false, so \<open>Abort()\<close> was called;
  \<^item> \<open>BadAccess\<close>: an array was indexed outside its bounds, or a null or dangling
    pointer was followed (undefined behaviour of the source);
  \<^item> \<open>Halted\<close>: \<open>Interrupt::Halt\<close> shut the machine down, nothing runs afterwards;
  \<^item> \<open>Diverges\<close>: a loop of the source was seen not to end.
\<close>

datatype err = AssertFail | BadAccess | Halted | Diverges

type_synonym 'a res = "err + 'a"

definition bindR :: "'a res \<Rightarrow> ('a \<Rightarrow> 'b res) \<Rightarrow> 'b res" where
  "bindR m f = (case m of Inl e \<Rightarrow> Inl e | Inr x \<Rightarrow> f x)"

definition assertR :: "bool \<Rightarrow> 'a res \<Rightarrow> 'a res" where
  "assertR b m = (if b then m else Inl AssertFail)"

definition mapR :: "('a \<Rightarrow> 'b) \<Rightarrow> 'a res \<Rightarrow> 'b res" where
  "mapR f m = bindR m (\<lambda>x. Inr (f x))"

lemma bindR_simps [simp, res_simps]:
  "bindR (Inl e) f = Inl e"
  "bindR (Inr x) f = f x"
  by (simp_all add: bindR_def)

lemma assertR_simps [simp, res_simps]:
  "assertR True m = m"
  "assertR False m = Inl AssertFail"
  by (simp_all add: assertR_def)

lemma mapR_simps [simp, res_simps]:
  "mapR f (Inl e) = Inl e"
  "mapR f (Inr x) = Inr (f x)"
  by (simp_all add: mapR_def)

lemma bindR_cong [fundef_cong]:
  "m = m' \<Longrightarrow> (\<And>x. m' = Inr x \<Longrightarrow> f x = g x) \<Longrightarrow> bindR m f = bindR m' g"
  by (cases m') auto

lemma assertR_cong [fundef_cong]:
  "b = b' \<Longrightarrow> (b' \<Longrightarrow> m = m') \<Longrightarrow> assertR b m = assertR b' m'"
  by (simp add: assertR_def)

lemma bindR_eq_Inr [res_simps]:
  "bindR m f = Inr y \<longleftrightarrow> (\<exists>x. m = Inr x \<and> f x = Inr y)"
  by (cases m) auto

lemma bindR_eq_Inl [res_simps]:
  "bindR m f = Inl e \<longleftrightarrow> m = Inl e \<or> (\<exists>x. m = Inr x \<and> f x = Inl e)"
  by (cases m) auto

lemma assertR_eq_Inr [res_simps]: "assertR b m = Inr y \<longleftrightarrow> b \<and> m = Inr y"
  by (simp add: assertR_def)

lemma assertR_eq_Inl [res_simps]:
  "assertR b m = Inl e \<longleftrightarrow> (\<not> b \<and> e = AssertFail) \<or> (b \<and> m = Inl e)"
  by (auto simp: assertR_def)

lemma bindR_assoc: "bindR (bindR m f) g = bindR m (\<lambda>x. bindR (f x) g)"
  by (cases m) auto

lemma assertR_True: "b \<Longrightarrow> assertR b m = m"
  by simp

subsection \<open>Checked array access\<close>

definition ixR :: "'a list \<Rightarrow> int \<Rightarrow> 'a res" where
  "ixR xs i = (if 0 \<le> i \<and> i < int (length xs) then Inr (xs ! nat i) else Inl BadAccess)"

definition updR :: "'a list \<Rightarrow> int \<Rightarrow> 'a \<Rightarrow> 'a list res" where
  "updR xs i v = (if 0 \<le> i \<and> i < int (length xs) then Inr (xs[nat i := v]) else Inl BadAccess)"

lemma ixR_ok [simp]: "0 \<le> i \<Longrightarrow> i < int (length xs) \<Longrightarrow> ixR xs i = Inr (xs ! nat i)"
  by (simp add: ixR_def)

lemma updR_ok [simp]: "0 \<le> i \<Longrightarrow> i < int (length xs) \<Longrightarrow> updR xs i v = Inr (xs[nat i := v])"
  by (simp add: updR_def)

lemma ixR_eq_Inr [res_simps]:
  "ixR xs i = Inr v \<longleftrightarrow> 0 \<le> i \<and> i < int (length xs) \<and> v = xs ! nat i"
  by (auto simp: ixR_def)

lemma updR_eq_Inr [res_simps]:
  "updR xs i v = Inr ys \<longleftrightarrow> 0 \<le> i \<and> i < int (length xs) \<and> ys = xs[nat i := v]"
  by (auto simp: updR_def)

subsection \<open>C integer division\<close>

text \<open>\<open>threads/utility.h\<close>: division truncates towards zero, as \<open>sdiv\<close> and \<open>smod\<close> do.\<close>

definition divRoundDown :: "int \<Rightarrow> int \<Rightarrow> int" where
  "divRoundDown n s = n sdiv s"

definition divRoundUp :: "int \<Rightarrow> int \<Rightarrow> int" where
  "divRoundUp n s = (n sdiv s) + (if n smod s > 0 then 1 else 0)"

lemma sdiv_nonneg: "0 \<le> a \<Longrightarrow> 0 < b \<Longrightarrow> a sdiv b = a div (b::int)"
  by (cases "a = 0") (auto simp: signed_divide_int_def)

lemma smod_nonneg: "0 \<le> a \<Longrightarrow> 0 < b \<Longrightarrow> a smod b = a mod (b::int)"
  by (cases "a = 0") (auto simp: signed_modulo_int_def)

lemma divRoundDown_nonneg: "0 \<le> n \<Longrightarrow> 0 < s \<Longrightarrow> divRoundDown n s = n div s"
  by (simp add: divRoundDown_def sdiv_nonneg)

lemma divRoundUp_nonneg:
  "0 \<le> n \<Longrightarrow> 0 < s \<Longrightarrow> divRoundUp n s = n div s + (if n mod s > 0 then 1 else 0)"
  by (simp add: divRoundUp_def sdiv_nonneg smod_nonneg)

lemma divRoundUp_covers:
  assumes "0 \<le> n" and "0 < s"
  shows "n \<le> divRoundUp n s * s" and "divRoundUp n s * s < n + s"
proof -
  obtain q r where q: "q = n div s" and r: "r = n mod s" and n: "n = q * s + r"
    by (metis div_mult_mod_eq)
  have m: "0 \<le> r" "r < s" using assms r by auto
  have up: "divRoundUp n s = q + (if r > 0 then 1 else 0)"
    using assms by (simp add: divRoundUp_nonneg q r)
  show "n \<le> divRoundUp n s * s" and "divRoundUp n s * s < n + s"
    unfolding up using m n by (auto simp: algebra_simps)
qed

lemma divRoundUp_ge0: "0 \<le> n \<Longrightarrow> 0 < s \<Longrightarrow> 0 \<le> divRoundUp n s"
  by (simp add: divRoundUp_nonneg pos_imp_zdiv_nonneg_iff)

lemma less_divRoundUp_iff:
  assumes "0 \<le> n" and "0 < s"
  shows "i < divRoundUp n s \<longleftrightarrow> i * s < n"
proof
  assume "i < divRoundUp n s"
  then have "i + 1 \<le> divRoundUp n s" by simp
  then have "(i + 1) * s \<le> divRoundUp n s * s" using assms by (simp add: mult_right_mono)
  with divRoundUp_covers(2)[OF assms] show "i * s < n" by (simp add: algebra_simps)
next
  assume "i * s < n"
  with divRoundUp_covers(1)[OF assms] have "i * s < divRoundUp n s * s" by simp
  with assms show "i < divRoundUp n s" by (simp add: mult_less_cancel_right)
qed

lemma div_less_divRoundUp:
  assumes "0 \<le> i" "i < n" "0 < s"
  shows "i div s < divRoundUp n s"
proof -
  have "i div s * s \<le> i" using assms by (simp add: minus_mod_eq_div_mult[symmetric])
  then show ?thesis using assms by (simp add: less_divRoundUp_iff)
qed

subsection \<open>Repeated allocation\<close>

text \<open>
  The loop \<open>for (i = 0; i < n; i++) a[i] = map->Find()\<close> that the file headers and the
  address spaces run, over whichever \<open>find\<close> operation they call.
\<close>

fun alloc_loop :: "('b \<Rightarrow> (int \<times> 'b) res) \<Rightarrow> nat \<Rightarrow> 'b \<Rightarrow> (int list \<times> 'b) res" where
  "alloc_loop fnd 0 b = Inr ([], b)"
| "alloc_loop fnd (Suc n) b =
     bindR (fnd b) (\<lambda>(i, b'). bindR (alloc_loop fnd n b') (\<lambda>(is, b''). Inr (i # is, b'')))"

subsection \<open>Lists\<close>

lemma nth_list_update_nat: "i < length xs \<Longrightarrow> xs[i := v] ! j = (if i = j then v else xs ! j)"
  by (simp add: nth_list_update)

lemma take_drop_overwrite_length:
  "p + length ys \<le> length xs \<Longrightarrow> length (take p xs @ ys @ drop (p + length ys) xs) = length xs"
  by simp

definition overwrite :: "'a list \<Rightarrow> nat \<Rightarrow> 'a list \<Rightarrow> 'a list" where
  "overwrite xs p ys = take p xs @ ys @ drop (p + length ys) xs"

lemma length_overwrite [simp]:
  "p + length ys \<le> length xs \<Longrightarrow> length (overwrite xs p ys) = length xs"
  by (simp add: overwrite_def)

lemma nth_overwrite:
  "p + length ys \<le> length xs \<Longrightarrow> i < length xs \<Longrightarrow>
   overwrite xs p ys ! i = (if p \<le> i \<and> i < p + length ys then ys ! (i - p) else xs ! i)"
  by (auto simp: overwrite_def nth_append)

lemma take_drop_overwrite:
  "p + length ys \<le> length xs \<Longrightarrow> take (length ys) (drop p (overwrite xs p ys)) = ys"
  by (simp add: overwrite_def)

lemma overwrite_Nil [simp]: "overwrite xs p [] = xs"
  by (simp add: overwrite_def)

subsection \<open>Little-endian bytes\<close>

text \<open>The layout of an \<open>unsigned int\<close> in the host's memory (\<open>HOST_x86_64\<close>).\<close>

definition word_bytes :: "u32 \<Rightarrow> byte list" where
  "word_bytes w = [ucast w, ucast (drop_bit 8 w), ucast (drop_bit 16 w), ucast (drop_bit 24 w)]"

definition bytes_word :: "byte list \<Rightarrow> u32" where
  "bytes_word bs = (case bs of [a, b, c, d] \<Rightarrow>
      ucast a OR push_bit 8 (ucast b) OR push_bit 16 (ucast c) OR push_bit 24 (ucast d)
    | _ \<Rightarrow> 0)"

lemma byte_bit_beyond [simp]: "8 \<le> n \<Longrightarrow> \<not> bit (a :: byte) n"
  by (auto dest: bit_imp_le_length)

lemma length_word_bytes [simp]: "length (word_bytes w) = 4"
  by (simp add: word_bytes_def)

lemma bytes_word_bytes [simp]: "bytes_word (word_bytes w) = w"
proof (rule bit_word_eqI)
  fix n assume n: "n < LENGTH(32)"
  consider "n < 8" | "8 \<le> n" "n < 16" | "16 \<le> n" "n < 24" | "24 \<le> n" by linarith
  then show "bit (bytes_word (word_bytes w)) n = bit w n"
    using n unfolding bytes_word_def word_bytes_def
    by cases (auto simp: bit_simps)
qed

lemma word_bytes_bytes: "length bs = 4 \<Longrightarrow> word_bytes (bytes_word bs) = bs"
proof -
  assume "length bs = 4"
  then obtain a b c d where bs: "bs = [a, b, c, d]"
    by (auto simp: numeral_eq_Suc length_Suc_conv)
  show ?thesis
    unfolding bs bytes_word_def word_bytes_def
    by (auto intro!: bit_word_eqI simp: bit_simps)
qed

end
