(* ===== verification/Nachos_List.thy ===== *)
theory Nachos_List
  imports Nachos_Prelude "HOL-Library.Multiset"
begin

text \<open>
  \<open>threads/list.h\<close>: the singly linked list with a \<open>first\<close> and a \<open>last\<close> pointer that the
  ready list, the semaphore queues, the pending interrupts and the mailboxes are made of.
  Each list owns a store of list elements; \<open>new\<close> takes the next unused address and
  \<open>delete\<close> removes the element from the store, so a dangling or null pointer shows up as
  \<open>BadAccess\<close>. Walks along \<open>next\<close> pointers are \<open>partial_function\<close>s: on a cyclic store they
  would not return, and the lemmas prove that they do on every list the operations build.
  The abstract value is the sequence of (key, item) pairs (\<open>List_rep\<close>).
\<close>

subsection \<open>The classes\<close>

record 'a ListElement =
  le_next :: "nat option"
  le_key :: int
  le_item :: 'a

record 'a List =
  lfirst :: "nat option"
  llast :: "nat option"
  lstore :: "nat \<Rightarrow> 'a ListElement option"
  lfresh :: nat

definition ListElement_new :: "'a \<Rightarrow> int \<Rightarrow> 'a List \<Rightarrow> nat \<times> 'a List" where
  "ListElement_new anItem sortKey l =
     (lfresh l,
      l\<lparr>lstore := (lstore l)(lfresh l \<mapsto> \<lparr>le_next = None, le_key = sortKey, le_item = anItem\<rparr>),
        lfresh := Suc (lfresh l)\<rparr>)"

definition List_new :: "'a List" where
  "List_new = \<lparr>lfirst = None, llast = None, lstore = Map.empty, lfresh = 0\<rparr>"

definition List_IsEmpty :: "'a List \<Rightarrow> bool" where
  "List_IsEmpty l = (if lfirst l = None then True else False)"

definition derefR :: "'a List \<Rightarrow> nat option \<Rightarrow> 'a ListElement res" where
  "derefR l p = (case p of None \<Rightarrow> Inl BadAccess
     | Some a \<Rightarrow> (case lstore l a of None \<Rightarrow> Inl BadAccess | Some e \<Rightarrow> Inr e))"

text \<open>\<open>p->next = q\<close>\<close>

definition set_next :: "'a List \<Rightarrow> nat option \<Rightarrow> nat option \<Rightarrow> 'a List res" where
  "set_next l p q = bindR (derefR l p)
     (\<lambda>e. Inr (l\<lparr>lstore := (lstore l)(the p \<mapsto> e\<lparr>le_next := q\<rparr>)\<rparr>))"

definition List_Append :: "'a List \<Rightarrow> 'a \<Rightarrow> 'a List res" where
  "List_Append l0 item =
     (let (element, l) = ListElement_new item 0 l0 in
      if List_IsEmpty l then Inr (l\<lparr>lfirst := Some element, llast := Some element\<rparr>)
      else bindR (set_next l (llast l) (Some element)) (\<lambda>l'. Inr (l'\<lparr>llast := Some element\<rparr>)))"

definition List_Prepend :: "'a List \<Rightarrow> 'a \<Rightarrow> 'a List res" where
  "List_Prepend l0 item =
     (let (element, l) = ListElement_new item 0 l0 in
      if List_IsEmpty l then Inr (l\<lparr>lfirst := Some element, llast := Some element\<rparr>)
      else bindR (set_next l (Some element) (lfirst l)) (\<lambda>l'. Inr (l'\<lparr>lfirst := Some element\<rparr>)))"

text \<open>
  The \<open>for\<close> loop of \<open>SortedInsert\<close>: look for the first element after \<open>ptr\<close> whose key is
  bigger, else link the element behind the last one.
\<close>

partial_function (option) SortedInsert_loop ::
    "'a List \<Rightarrow> nat \<Rightarrow> nat \<Rightarrow> int \<Rightarrow> 'a List res option" where
  "SortedInsert_loop l ptr element sortKey =
     (case derefR l (Some ptr) of Inl e \<Rightarrow> Some (Inl e)
      | Inr cur \<Rightarrow>
        (case le_next cur of
           None \<Rightarrow> Some (bindR (set_next l (llast l) (Some element))
                      (\<lambda>l'. Inr (l'\<lparr>llast := Some element\<rparr>)))
         | Some nxt \<Rightarrow>
           (case derefR l (Some nxt) of Inl e \<Rightarrow> Some (Inl e)
            | Inr nxtel \<Rightarrow>
              if sortKey < le_key nxtel then
                Some (bindR (set_next l (Some element) (Some nxt))
                  (\<lambda>l'. set_next l' (Some ptr) (Some element)))
              else SortedInsert_loop l nxt element sortKey)))"

definition List_SortedInsert :: "'a List \<Rightarrow> 'a \<Rightarrow> int \<Rightarrow> 'a List res option" where
  "List_SortedInsert l0 item sortKey =
     (let (element, l) = ListElement_new item sortKey l0 in
      case lfirst l of
        None \<Rightarrow> Some (Inr (l\<lparr>lfirst := Some element, llast := Some element\<rparr>))
      | Some f \<Rightarrow>
        (case derefR l (Some f) of Inl e \<Rightarrow> Some (Inl e)
         | Inr fe \<Rightarrow>
           if sortKey < le_key fe then
             Some (bindR (set_next l (Some element) (Some f))
               (\<lambda>l'. Inr (l'\<lparr>lfirst := Some element\<rparr>)))
           else SortedInsert_loop l f element sortKey))"

text \<open>
  \<open>SortedRemove(&key)\<close>. The item is \<open>None\<close> (the source's \<open>Item()\<close>, a null pointer) and
  \<open>*keyPtr\<close> is left alone when the list is empty.
\<close>

definition List_SortedRemove :: "'a List \<Rightarrow> (('a \<times> int) option \<times> 'a List) res" where
  "List_SortedRemove l =
     (case lfirst l of
        None \<Rightarrow> Inr (None, l)
      | Some a \<Rightarrow> bindR (derefR l (Some a)) (\<lambda>element.
          let l' = (if lfirst l = llast l then l\<lparr>lfirst := None, llast := None\<rparr>
                    else l\<lparr>lfirst := le_next element\<rparr>)
          in Inr (Some (le_item element, le_key element), l'\<lparr>lstore := (lstore l')(a := None)\<rparr>)))"

definition List_Remove :: "'a List \<Rightarrow> ('a option \<times> 'a List) res" where
  "List_Remove l = mapR (\<lambda>(r, l'). (map_option fst r, l')) (List_SortedRemove l)"

text \<open>\<open>Apply(func)\<close>, with the state \<open>func\<close> works on made explicit.\<close>

partial_function (option) Apply_loop ::
    "('a \<Rightarrow> 's \<Rightarrow> 's) \<Rightarrow> 'a List \<Rightarrow> nat option \<Rightarrow> 's \<Rightarrow> 's res option" where
  "Apply_loop func l p s =
     (case p of None \<Rightarrow> Some (Inr s)
      | Some a \<Rightarrow> (case derefR l (Some a) of Inl e \<Rightarrow> Some (Inl e)
                  | Inr el \<Rightarrow> Apply_loop func l (le_next el) (func (le_item el) s)))"

definition List_Apply :: "('a \<Rightarrow> 's \<Rightarrow> 's) \<Rightarrow> 'a List \<Rightarrow> 's \<Rightarrow> 's res option" where
  "List_Apply func l s = Apply_loop func l (lfirst l) s"

text \<open>The destructor: \<open>while (!IsEmpty()) Remove();\<close>\<close>

partial_function (option) List_delete :: "'a List \<Rightarrow> 'a List res option" where
  "List_delete l =
     (if \<not> List_IsEmpty l then
        (case List_Remove l of Inl e \<Rightarrow> Some (Inl e) | Inr (_, l') \<Rightarrow> List_delete l')
      else Some (Inr l))"

subsection \<open>The abstract value\<close>

text \<open>A path in the store from \<open>p\<close> to \<open>q\<close>: its nodes with their keys and items.\<close>

primrec seg :: "(nat \<Rightarrow> 'a ListElement option) \<Rightarrow> nat option \<Rightarrow> (nat \<times> int \<times> 'a) list
    \<Rightarrow> nat option \<Rightarrow> bool" where
  "seg h p [] q = (p = q)"
| "seg h p (n # ns) q = (p = Some (fst n) \<and>
     (\<exists>nx. h (fst n) = Some \<lparr>le_next = nx, le_key = fst (snd n), le_item = snd (snd n)\<rparr> \<and> seg h nx ns q))"

definition List_nodes :: "'a List \<Rightarrow> (nat \<times> int \<times> 'a) list \<Rightarrow> bool" where
  "List_nodes l ns \<longleftrightarrow> seg (lstore l) (lfirst l) ns None \<and> distinct (map fst ns)
     \<and> llast l = (if ns = [] then None else Some (fst (last ns)))
     \<and> dom (lstore l) = fst ` set ns \<and> list_all (\<lambda>n. fst n < lfresh l) ns"

definition List_rep :: "'a List \<Rightarrow> (int \<times> 'a) list \<Rightarrow> bool" where
  "List_rep l xs \<longleftrightarrow> (\<exists>ns. List_nodes l ns \<and> xs = map snd ns)"

text \<open>Insertion before the first bigger key, the specification of \<open>SortedInsert\<close>.\<close>

definition ins_key :: "int \<Rightarrow> 'a \<Rightarrow> (int \<times> 'a) list \<Rightarrow> (int \<times> 'a) list" where
  "ins_key k x xs = takeWhile (\<lambda>e. fst e \<le> k) xs @ (k, x) # dropWhile (\<lambda>e. fst e \<le> k) xs"

lemma seg_append [simp]:
  "seg h p (as @ bs) q \<longleftrightarrow> (\<exists>r. seg h p as r \<and> seg h r bs q)"
  by (induction as arbitrary: p) auto

lemma seg_fun_upd [simp]:
  "a \<notin> fst ` set ns \<Longrightarrow> seg (h(a := v)) p ns q = seg h p ns q"
  by (induction ns arbitrary: p) auto

lemma seg_if_upd [simp]:
  "a \<notin> fst ` set ns \<Longrightarrow> seg (\<lambda>b. if b = a then v else h b) p ns q = seg h p ns q"
  by (rule seg_fun_upd[unfolded fun_upd_def])

lemma seg_first: "seg h p ns None \<Longrightarrow> (p = None) = (ns = [])"
  by (cases ns) auto

lemma List_nodes_first: "List_nodes l ns \<Longrightarrow> (lfirst l = None) = (ns = [])"
  by (auto simp: List_nodes_def dest: seg_first)

lemma List_nodes_Nil: "List_nodes List_new []"
  by (simp add: List_nodes_def List_new_def)


lemma fresh_not_node: "List_nodes l ns \<Longrightarrow> lfresh l \<notin> fst ` set ns"
  by (auto simp: List_nodes_def list_all_iff)

lemma list_all_below_Suc [simp]:
  "list_all (\<lambda>n. fst n < m) ns \<Longrightarrow> list_all (\<lambda>n. fst n < Suc m) ns"
  by (auto simp: list_all_iff)

subsection \<open>Append, Prepend, Remove\<close>

lemma List_Append_nodes:
  assumes "List_nodes l ns"
  shows "\<exists>l'. List_Append l x = Inr l' \<and> List_nodes l' (ns @ [(lfresh l, 0, x)])"
proof (cases ns rule: rev_cases)
  case Nil
  with assms show ?thesis
    by (auto simp: List_Append_def ListElement_new_def List_IsEmpty_def List_nodes_def)
next
  case (snoc bs z)
  obtain za zk zx where z: "z = (za, zk, zx)" by (cases z)
  let ?a = "lfresh l"
  note fresh = fresh_not_node[OF assms]
  from assms snoc z have s: "seg (lstore l) (lfirst l) bs (Some za)"
      "lstore l za = Some \<lparr>le_next = None, le_key = zk, le_item = zx\<rparr>"
      "za \<notin> fst ` set bs" "distinct (map fst bs)" "llast l = Some za"
      "dom (lstore l) = insert za (fst ` set bs)" "list_all (\<lambda>n. fst n < ?a) ns"
    by (auto simp: List_nodes_def)
  have "lfirst l \<noteq> None" using List_nodes_first[OF assms] snoc by simp
  then have "List_Append l x = Inr (l\<lparr>llast := Some ?a, lfresh := Suc ?a,
      lstore := (lstore l)(?a \<mapsto> \<lparr>le_next = None, le_key = 0, le_item = x\<rparr>,
        za \<mapsto> \<lparr>le_next = Some ?a, le_key = zk, le_item = zx\<rparr>)\<rparr>)"
    using s fresh snoc z
    by (auto simp: List_Append_def ListElement_new_def List_IsEmpty_def set_next_def derefR_def)
  then show ?thesis using s fresh snoc z
    by (auto simp: List_nodes_def)
qed

lemma List_Prepend_nodes:
  assumes "List_nodes l ns"
  shows "\<exists>l'. List_Prepend l x = Inr l' \<and> List_nodes l' ((lfresh l, 0, x) # ns)"
proof -
  note fresh = fresh_not_node[OF assms]
  then have "List_Prepend l x = Inr (l\<lparr>lfirst := Some (lfresh l), lfresh := Suc (lfresh l),
      llast := (if ns = [] then Some (lfresh l) else llast l),
      lstore := (lstore l)(lfresh l \<mapsto> \<lparr>le_next = lfirst l, le_key = 0, le_item = x\<rparr>)\<rparr>)"
    using List_nodes_first[OF assms]
    by (auto simp: List_Prepend_def ListElement_new_def List_IsEmpty_def set_next_def derefR_def)
  then show ?thesis using assms fresh by (auto simp: List_nodes_def)
qed

lemma List_SortedRemove_Nil: "List_nodes l [] \<Longrightarrow> List_SortedRemove l = Inr (None, l)"
  by (auto simp: List_SortedRemove_def List_nodes_def)

lemma List_SortedRemove_Cons:
  assumes "List_nodes l ((a, k, x) # ns)"
  shows "\<exists>l'. List_SortedRemove l = Inr (Some (x, k), l') \<and> List_nodes l' ns"
proof -
  from assms obtain nx where s: "lfirst l = Some a"
      "lstore l a = Some \<lparr>le_next = nx, le_key = k, le_item = x\<rparr>" "seg (lstore l) nx ns None"
      "a \<notin> fst ` set ns" "dom (lstore l) = insert a (fst ` set ns)"
      "llast l = Some (if ns = [] then a else fst (last ns))"
    by (auto simp: List_nodes_def)
  have eq: "lfirst l = llast l \<longleftrightarrow> ns = []"
  proof
    assume e: "lfirst l = llast l"
    show "ns = []"
    proof (rule ccontr)
      assume n: "ns \<noteq> []"
      then have "fst (last ns) \<in> fst ` set ns" by simp
      moreover have "fst (last ns) = a" using e s n by simp
      ultimately show False using s by simp
    qed
  qed (use s in simp)
  have "seg ((lstore l)(a := None)) nx ns None" using s by simp
  then show ?thesis using assms s eq
    by (auto simp: List_SortedRemove_def derefR_def List_nodes_def Let_def)
qed

lemma List_nodes_cases:
  assumes "List_rep l xs"
  obtains (Nil) "xs = []" "List_nodes l []"
    | (Cons) a k x ns where "xs = (k, x) # map snd ns" "List_nodes l ((a, k, x) # ns)"
proof -
  from assms obtain ns where ns: "List_nodes l ns" "xs = map snd ns" by (auto simp: List_rep_def)
  show thesis
  proof (cases ns)
    case Nil
    with ns show ?thesis using that(1) by simp
  next
    case (Cons n ms)
    with ns show ?thesis using that(2)[of _ _ ms "fst n"] by (cases n) auto
  qed
qed

lemma List_new_rep: "List_rep List_new []"
  using List_nodes_Nil by (auto simp: List_rep_def)

lemma List_Append_rep:
  assumes "List_rep l xs"
  shows "\<exists>l'. List_Append l x = Inr l' \<and> List_rep l' (xs @ [(0, x)])"
  using assms List_Append_nodes by (fastforce simp: List_rep_def)

lemma List_Prepend_rep:
  assumes "List_rep l xs"
  shows "\<exists>l'. List_Prepend l x = Inr l' \<and> List_rep l' ((0, x) # xs)"
  using assms List_Prepend_nodes by (fastforce simp: List_rep_def)

lemma List_IsEmpty_rep: "List_rep l xs \<Longrightarrow> List_IsEmpty l = (xs = [])"
  by (auto simp: List_rep_def List_IsEmpty_def dest: List_nodes_first)

lemma List_SortedRemove_rep:
  assumes "List_rep l xs"
  shows "case xs of [] \<Rightarrow> List_SortedRemove l = Inr (None, l)
    | (k, x) # ys \<Rightarrow> \<exists>l'. List_SortedRemove l = Inr (Some (x, k), l') \<and> List_rep l' ys"
  using assms
proof (cases rule: List_nodes_cases)
  case Nil
  then show ?thesis by (simp add: List_SortedRemove_Nil)
next
  case (Cons a k x ns)
  then show ?thesis using List_SortedRemove_Cons[OF Cons(2)] by (auto simp: List_rep_def)
qed

lemma List_Remove_rep:
  assumes "List_rep l xs"
  shows "case xs of [] \<Rightarrow> List_Remove l = Inr (None, l)
    | (k, x) # ys \<Rightarrow> \<exists>l'. List_Remove l = Inr (Some x, l') \<and> List_rep l' ys"
  using List_SortedRemove_rep[OF assms] by (auto simp: List_Remove_def split: list.splits)


subsection \<open>SortedInsert\<close>

text \<open>
  The loop invariant: \<open>pre\<close> has been walked, \<open>ptr\<close> is reached, \<open>ns\<close> is still ahead, and
  the new element is in the store but linked nowhere.
\<close>

lemma SortedInsert_loop_nodes:
  assumes "seg h (lfirst l) pre (Some p)" "seg h (Some p) ((p, kp, xp) # ns) None"
    "lstore l = h(a \<mapsto> \<lparr>le_next = None, le_key = k, le_item = x\<rparr>)"
    "distinct (map fst (pre @ (p, kp, xp) # ns))" "a \<notin> fst ` set (pre @ (p, kp, xp) # ns)"
    "llast l = Some (fst (last ((p, kp, xp) # ns)))"
    "dom h = fst ` set (pre @ (p, kp, xp) # ns)" "list_all (\<lambda>n. fst n < lfresh l) (pre @ (p, kp, xp) # ns)" "a < lfresh l"
  shows "\<exists>l'. SortedInsert_loop l p a k = Some (Inr l') \<and> List_nodes l' (pre @ (p, kp, xp) #
      takeWhile (\<lambda>e. fst (snd e) \<le> k) ns @ (a, k, x) # dropWhile (\<lambda>e. fst (snd e) \<le> k) ns)"
  using assms
proof (induction ns arbitrary: pre p kp xp)
  case Nil
  then show ?case
    by (subst SortedInsert_loop.simps) (auto simp: derefR_def set_next_def List_nodes_def)
next
  case (Cons n ns)
  obtain q kq xq where n: "n = (q, kq, xq)" by (cases n)
  from Cons.prems n have st: "lstore l p = Some \<lparr>le_next = Some q, le_key = kp, le_item = xp\<rparr>"
      "\<exists>nx. lstore l q = Some \<lparr>le_next = nx, le_key = kq, le_item = xq\<rparr>"
    by auto
  show ?case
  proof (cases "k < kq")
    case True
    let ?h = "(lstore l)(a \<mapsto> \<lparr>le_next = Some q, le_key = k, le_item = x\<rparr>,
      p \<mapsto> \<lparr>le_next = Some a, le_key = kp, le_item = xp\<rparr>)"
    have na: "a \<noteq> p" "a \<noteq> q" "p \<noteq> q" "a \<notin> fst ` set ns" "p \<notin> fst ` set ns"
      "a \<notin> fst ` set pre" "p \<notin> fst ` set pre" using Cons.prems n by auto
    have "SortedInsert_loop l p a k = Some (Inr (l\<lparr>lstore := ?h\<rparr>))"
      using st True na Cons.prems(3)
      by (subst SortedInsert_loop.simps) (auto simp: derefR_def set_next_def)
    moreover have "List_nodes (l\<lparr>lstore := ?h\<rparr>) (pre @ (p, kp, xp) # (a, k, x) # n # ns)"
      unfolding List_nodes_def
    proof (intro conjI)
      show "seg (lstore (l\<lparr>lstore := ?h\<rparr>)) (lfirst (l\<lparr>lstore := ?h\<rparr>))
          (pre @ (p, kp, xp) # (a, k, x) # n # ns) None"
        using Cons.prems(1,2,3) n na by simp
    qed (use Cons.prems(3-) n na in auto)
    ultimately show ?thesis using True n by simp
  next
    case False
    have "\<exists>l'. SortedInsert_loop l q a k = Some (Inr l') \<and>
        List_nodes l' ((pre @ [(p, kp, xp)]) @ (q, kq, xq) #
          takeWhile (\<lambda>e. fst (snd e) \<le> k) ns @ (a, k, x) # dropWhile (\<lambda>e. fst (snd e) \<le> k) ns)"
      by (rule Cons.IH) (use Cons.prems n in auto)
    moreover have "SortedInsert_loop l p a k = SortedInsert_loop l q a k"
      using st False by (subst SortedInsert_loop.simps) (auto simp: derefR_def)
    ultimately show ?thesis using False n by simp
  qed
qed

lemma List_SortedInsert_nodes:
  assumes "List_nodes l ns"
  shows "\<exists>l'. List_SortedInsert l x k = Some (Inr l') \<and> List_nodes l'
      (takeWhile (\<lambda>e. fst (snd e) \<le> k) ns @ (lfresh l, k, x)
        # dropWhile (\<lambda>e. fst (snd e) \<le> k) ns)"
proof (cases ns)
  case Nil
  with assms show ?thesis
    by (auto simp: List_SortedInsert_def ListElement_new_def List_nodes_def)
next
  case (Cons n ms)
  obtain p kp xp where n: "n = (p, kp, xp)" by (cases n)
  note fresh = fresh_not_node[OF assms]
  let ?l = "snd (ListElement_new x k l)"
  from assms Cons n have f: "lfirst l = Some p"
      "\<exists>nx. lstore l p = Some \<lparr>le_next = nx, le_key = kp, le_item = xp\<rparr>" "p \<noteq> lfresh l"
    by (auto simp: List_nodes_def)
  show ?thesis
  proof (cases "k < kp")
    case True
    then show ?thesis using assms Cons n f fresh
      by (auto simp: List_SortedInsert_def ListElement_new_def derefR_def set_next_def List_nodes_def)
  next
    case False
    have "List_SortedInsert l x k = SortedInsert_loop ?l p (lfresh l) k"
      using False f by (auto simp: List_SortedInsert_def ListElement_new_def derefR_def)
    moreover have "\<exists>l'. SortedInsert_loop ?l p (lfresh l) k = Some (Inr l') \<and> List_nodes l' ([] @ (p, kp, xp) #
      takeWhile (\<lambda>e. fst (snd e) \<le> k) ms @ (lfresh l, k, x) # dropWhile (\<lambda>e. fst (snd e) \<le> k) ms)"
      by (rule SortedInsert_loop_nodes[where h = "lstore l"])
        (use assms Cons n f fresh in \<open>auto simp: List_nodes_def ListElement_new_def\<close>)
    ultimately show ?thesis using False Cons n by simp
  qed
qed

lemma map_snd_ins: "map snd (takeWhile (\<lambda>e. fst (snd e) \<le> k) ns @ (a, k, x)
      # dropWhile (\<lambda>e. fst (snd e) \<le> k) ns) = ins_key k x (map snd ns)"
  by (simp add: ins_key_def takeWhile_map dropWhile_map comp_def)

lemma List_SortedInsert_rep:
  assumes "List_rep l xs"
  shows "\<exists>l'. List_SortedInsert l x k = Some (Inr l') \<and> List_rep l' (ins_key k x xs)"
proof -
  from assms obtain ns where ns: "List_nodes l ns" "xs = map snd ns" by (auto simp: List_rep_def)
  with List_SortedInsert_nodes[OF ns(1), of x k] map_snd_ins show ?thesis
    unfolding List_rep_def by metis
qed

subsection \<open>Apply and the destructor\<close>

lemma Apply_loop_seg:
  "seg (lstore l) p ns None \<Longrightarrow>
   Apply_loop func l p s = Some (Inr (fold (\<lambda>e. func (snd (snd e))) ns s))"
proof (induction ns arbitrary: p s)
  case Nil
  then show ?case by (subst Apply_loop.simps) simp
next
  case (Cons n ns)
  then show ?case by (subst Apply_loop.simps) (auto simp: derefR_def)
qed

lemma List_Apply_rep: "List_rep l xs \<Longrightarrow> List_Apply func l s = Some (Inr (fold (\<lambda>e. func (snd e)) xs s))"
  by (auto simp: List_rep_def List_Apply_def List_nodes_def Apply_loop_seg fold_map comp_def)

lemma List_delete_rep:
  "List_rep l xs \<Longrightarrow> \<exists>l'. List_delete l = Some (Inr l') \<and> List_rep l' []"
proof (induction xs arbitrary: l)
  case Nil
  then show ?case by (subst List_delete.simps) (auto simp: List_IsEmpty_rep)
next
  case (Cons e xs)
  from List_Remove_rep[OF Cons.prems] obtain l' where l': "List_Remove l = Inr (Some (snd e), l')"
    "List_rep l' xs" by (auto split: prod.splits)
  from Cons.IH[OF l'(2)] show ?case using Cons.prems l'
    by (subst List_delete.simps) (simp add: List_IsEmpty_rep)
qed

subsection \<open>Sorted lists\<close>

abbreviation keys_sorted :: "(int \<times> 'a) list \<Rightarrow> bool" where
  "keys_sorted xs \<equiv> sorted (map fst xs)"

lemma set_ins_key [simp]: "set (ins_key k x xs) = insert (k, x) (set xs)"
  unfolding ins_key_def by (metis (no_types) Un_insert_right list.simps(15) set_append takeWhile_dropWhile_id)

lemma length_ins_key [simp]: "length (ins_key k x xs) = Suc (length xs)"
proof -
  have "length (takeWhile (\<lambda>e. fst e \<le> k) xs) + length (dropWhile (\<lambda>e. fst e \<le> k) xs) = length xs"
    by (metis length_append takeWhile_dropWhile_id)
  then show ?thesis by (simp add: ins_key_def)
qed

lemma ins_key_not_Nil [simp]: "ins_key k x xs \<noteq> []"
  by (simp add: ins_key_def)

lemma sorted_ins_key: "keys_sorted xs \<Longrightarrow> keys_sorted (ins_key k x xs)"
proof (induction xs)
  case Nil
  then show ?case by (simp add: ins_key_def)
next
  case (Cons e xs)
  then show ?case
    by (cases "fst e \<le> k") (auto simp: ins_key_def sorted_append dest: set_takeWhileD set_dropWhileD)
qed

lemma ins_key_filter_ne: "k' \<noteq> k \<Longrightarrow>
    filter (\<lambda>e. fst e = k') (ins_key k x xs) = filter (\<lambda>e. fst e = k') xs"
  unfolding ins_key_def by simp (metis filter_append takeWhile_dropWhile_id)

text \<open>Equal keys keep their order of arrival.\<close>

lemma ins_key_stable:
  assumes "keys_sorted xs"
  shows "filter (\<lambda>e. fst e = k) (ins_key k x xs) = filter (\<lambda>e. fst e = k) xs @ [(k, x)]"
  using assms
proof (induction xs)
  case Nil
  then show ?case by (simp add: ins_key_def)
next
  case (Cons e xs)
  show ?case
  proof (cases "fst e \<le> k")
    case True
    then show ?thesis using Cons by (simp add: ins_key_def)
  next
    case False
    then have "filter (\<lambda>e. fst e = k) (e # xs) = []"
      using Cons.prems by (force simp: filter_empty_conv)
    then show ?thesis using False by (simp add: ins_key_def)
  qed
qed

subsection \<open>The queue interface\<close>

text \<open>
  What the scheduler, the semaphores, the condition variables and the mailboxes rely on:
  first in, first out.
\<close>

locale fifo_queue =
  fixes rep :: "'q \<Rightarrow> 'a list \<Rightarrow> bool"
    and emp :: 'q
    and app :: "'q \<Rightarrow> 'a \<Rightarrow> 'q res"
    and rem :: "'q \<Rightarrow> ('a option \<times> 'q) res"
    and ise :: "'q \<Rightarrow> bool"
  assumes rep_emp: "rep emp []"
    and ise_ok: "rep q xs \<Longrightarrow> ise q = (xs = [])"
    and app_ok: "rep q xs \<Longrightarrow> \<exists>q'. app q x = Inr q' \<and> rep q' (xs @ [x])"
    and rem_Nil: "rep q [] \<Longrightarrow> rem q = Inr (None, q)"
    and rem_Cons: "rep q (x # xs) \<Longrightarrow> \<exists>q'. rem q = Inr (Some x, q') \<and> rep q' xs"
begin

lemma app_then_rem_order:
  assumes "rep q xs" "xs \<noteq> []" "app q x = Inr q'"
  shows "\<exists>q''. rem q' = Inr (Some (hd xs), q'') \<and> rep q'' (tl xs @ [x])"
proof -
  from app_ok[OF assms(1), of x] assms(3) have "rep q' (xs @ [x])" by auto
  moreover obtain y ys where "xs = y # ys" using assms(2) by (cases xs) auto
  ultimately show ?thesis using rem_Cons[of q' y "ys @ [x]"] by auto
qed

lemma rem_nonempty:
  assumes "rep q xs" "\<not> ise q"
  obtains x ys q' where "xs = x # ys" "rem q = Inr (Some x, q')" "rep q' ys"
  using assms ise_ok[OF assms(1)] rem_Cons by (cases xs) blast+

lemma app_rep: "rep q xs \<Longrightarrow> app q x = Inr q' \<Longrightarrow> rep q' (xs @ [x])"
  using app_ok[of q xs x] by auto

lemma app_then_rem_empty:
  assumes "rep q []" "app q x = Inr q'"
  shows "\<exists>q''. rem q' = Inr (Some x, q'') \<and> rep q'' []"
  using app_ok[OF assms(1), of x] assms(2) rem_Cons[of q' x "[]"] by auto

end

definition List_items :: "'a List \<Rightarrow> 'a list \<Rightarrow> bool" where
  "List_items l xs \<longleftrightarrow> List_rep l (map (Pair 0) xs)"

interpretation nachos_list: fifo_queue List_items List_new List_Append List_Remove List_IsEmpty
proof
  show "List_items List_new []" by (simp add: List_items_def List_new_rep)
next
  fix q :: "'a List" and xs
  assume "List_items q xs"
  then show "List_IsEmpty q = (xs = [])" using List_IsEmpty_rep by (fastforce simp: List_items_def)
next
  fix q :: "'a List" and xs x
  assume "List_items q xs"
  then show "\<exists>q'. List_Append q x = Inr q' \<and> List_items q' (xs @ [x])"
    using List_Append_rep by (fastforce simp: List_items_def)
next
  fix q :: "'a List"
  assume "List_items q []"
  then show "List_Remove q = Inr (None, q)"
    using List_Remove_rep[of q "[]"] by (simp add: List_items_def)
next
  fix q :: "'a List" and x xs
  assume "List_items q (x # xs)"
  then show "\<exists>q'. List_Remove q = Inr (Some x, q') \<and> List_items q' xs"
    using List_Remove_rep[of q "map (Pair 0) (x # xs)"] by (auto simp: List_items_def)
qed

subsection \<open>Properties\<close>

text \<open>C31: The linked list implements a sequence. Every operation on a well-formed list returns (the
  walks along the \<open>next\<close> pointers end and follow no null or dangling pointer), leaves a well-formed
  list and has the effect of its sequence counterpart: \<open>Append\<close> adds at the end, \<open>Prepend\<close> at the
  front, \<open>Remove\<close> takes the head or answers the null item on the empty list, \<open>Apply\<close> visits every
  item once from first to last, and the destructor leaves nothing allocated.\<close>

theorem List_implements_sequence:
  assumes "List_rep l xs"
  shows "List_IsEmpty l = (xs = [])
    \<and> (\<exists>l'. List_Append l x = Inr l' \<and> List_rep l' (xs @ [(0, x)]))
    \<and> (\<exists>l'. List_Prepend l x = Inr l' \<and> List_rep l' ((0, x) # xs))
    \<and> (case xs of [] \<Rightarrow> List_Remove l = Inr (None, l)
       | (k, y) # ys \<Rightarrow> \<exists>l'. List_Remove l = Inr (Some y, l') \<and> List_rep l' ys)
    \<and> List_Apply func l s = Some (Inr (fold (\<lambda>e. func (snd e)) xs s))
    \<and> (\<exists>l'. List_delete l = Some (Inr l') \<and> List_rep l' [] \<and> dom (lstore l') = {})"
proof -
  have "\<exists>l'. List_delete l = Some (Inr l') \<and> List_rep l' [] \<and> dom (lstore l') = {}"
    using List_delete_rep[OF assms] by (fastforce simp: List_rep_def List_nodes_def)
  then show ?thesis
    by (intro conjI List_IsEmpty_rep[OF assms] List_Append_rep[OF assms] List_Prepend_rep[OF assms]
      List_Remove_rep[OF assms] List_Apply_rep[OF assms])
qed

theorem List_implements_sequence_witness:
  "\<exists>l l'. List_Append List_new True = Inr l \<and> List_Remove l = Inr (Some True, l') \<and> List_IsEmpty l'"
proof -
  obtain l where l: "List_Append List_new True = Inr l" "List_rep l [(0, True)]"
    using List_implements_sequence[OF List_new_rep, of True "\<lambda>_ _. ()" "()"] by auto
  from List_implements_sequence[OF l(2), of True "\<lambda>_ _. ()" "()"] obtain l' where l': "List_Remove l = Inr (Some True, l')" "List_rep l' []"
    by auto
  with l List_implements_sequence[OF l'(2), of True "\<lambda>_ _. ()" "()"] show ?thesis by auto
qed

text \<open>\<open>SortedInsert\<close> is a stable insertion. On a well-formed list sorted by key the insertion
  loop ends, the new list is sorted, holds the old entries and the new one, puts the new entry
  behind every entry with the same key and leaves the order of the entries of each other key
  alone; \<open>SortedRemove\<close> then returns an entry with the least key.\<close>

lemma List_SortedInsert_stable:
  assumes "List_rep l xs" "keys_sorted xs"
  shows "\<exists>l' ys. List_SortedInsert l x k = Some (Inr l') \<and> List_rep l' ys \<and> keys_sorted ys
    \<and> mset ys = add_mset (k, x) (mset xs)
    \<and> filter (\<lambda>e. fst e = k) ys = filter (\<lambda>e. fst e = k) xs @ [(k, x)]
    \<and> (\<forall>k'. k' = k \<or> filter (\<lambda>e. fst e = k') ys = filter (\<lambda>e. fst e = k') xs)
    \<and> (\<exists>m y l''. List_SortedRemove l' = Inr (Some (y, m), l'') \<and> m = Min (fst ` set ys))"
proof -
  let ?ys = "ins_key k x xs"
  obtain l' where l': "List_SortedInsert l x k = Some (Inr l')" "List_rep l' ?ys"
    using List_SortedInsert_rep[OF assms(1)] by blast
  have s: "keys_sorted ?ys" by (rule sorted_ins_key[OF assms(2)])
  obtain m y zs where e: "?ys = (m, y) # zs" by (cases ?ys) auto
  have "m = Min (fst ` set ?ys)"
    using s unfolding e by (intro Min_eqI[symmetric]) auto
  moreover obtain l'' where "List_SortedRemove l' = Inr (Some (y, m), l'')"
    using List_SortedRemove_rep[OF l'(2)] unfolding e by auto
  ultimately have "\<exists>m y l''. List_SortedRemove l' = Inr (Some (y, m), l'')
      \<and> m = Min (fst ` set ?ys)" by blast
  moreover have "mset ?ys = add_mset (k, x) (mset xs)"
    unfolding ins_key_def by simp (metis mset_append takeWhile_dropWhile_id)
  moreover have "\<forall>k'. k' = k \<or> filter (\<lambda>e. fst e = k') ?ys = filter (\<lambda>e. fst e = k') xs"
    using ins_key_filter_ne[of _ k x xs] by auto
  ultimately show ?thesis
    using l' s ins_key_stable[OF assms(2), of k x]
    by - (rule exI[of _ l'], rule exI[of _ ?ys], (rule conjI, assumption)+, assumption)
qed

end
