(* ===== verification/Nachos_Interrupt.thy ===== *)
theory Nachos_Interrupt
  imports Nachos_List
begin

text \<open>
  \<open>machine/stats.h\<close>, \<open>machine/interrupt.cc\<close> and \<open>machine/timer.cc\<close>: simulated time, the
  list of pending interrupts and the timer device. The list of pending interrupts is the
  abstract value of the \<open>List\<close> of theory \<open>Nachos_List\<close> (its \<open>SortedInsert\<close> is \<open>ins_key\<close>,
  its \<open>SortedRemove\<close> takes the head). A handler with its argument is a token of type \<open>'h\<close>;
  what calling it does, what \<open>machine->DelayedLoad\<close> does and what \<open>currentThread->Yield\<close>
  does when it returns are the fields of the record \<open>Callbacks\<close>. The rest of the system
  is the component \<open>kern\<close>, of any type. Ticks are unbounded integers.
\<close>

subsection \<open>Statistics\<close>

record Statistics =
  totalTicks :: int
  idleTicks :: int
  systemTicks :: int
  userTicks :: int
  numDiskReads :: int
  numDiskWrites :: int
  numConsoleCharsRead :: int
  numConsoleCharsWritten :: int
  numPageFaults :: int
  numPacketsSent :: int
  numPacketsRecvd :: int
  numPageFaultException :: int

definition Statistics_new :: Statistics where
  "Statistics_new = \<lparr>totalTicks = 0, idleTicks = 0, systemTicks = 0, userTicks = 0,
     numDiskReads = 0, numDiskWrites = 0, numConsoleCharsRead = 0, numConsoleCharsWritten = 0,
     numPageFaults = 0, numPacketsSent = 0, numPacketsRecvd = 0, numPageFaultException = 0\<rparr>"

definition UserTick :: int where "UserTick = 1"
definition SystemTick :: int where "SystemTick = 10"
definition RotationTime :: int where "RotationTime = 500"
definition SeekTime :: int where "SeekTime = 500"
definition ConsoleTime :: int where "ConsoleTime = 100"
definition NetworkTime :: int where "NetworkTime = 100"
definition TimerTicks :: int where "TimerTicks = 100"

subsection \<open>The interrupt simulation\<close>

datatype IntStatus = IntOff | IntOn
datatype MachineStatus = IdleMode | SystemMode | UserMode
datatype IntType = TimerInt | DiskInt | ConsoleWriteInt | ConsoleReadInt
  | NetworkSendInt | NetworkRecvInt

record 'h PendingInterrupt =
  pi_handler :: 'h
  pi_when :: int
  pi_type :: IntType

record 'h Interrupt =
  level :: IntStatus
  pending :: "(int \<times> 'h PendingInterrupt) list"
  inHandler :: bool
  yieldOnReturn :: bool
  status :: MachineStatus

record ('h, 'k) Hw =
  intr :: "'h Interrupt"
  stats :: Statistics
  kern :: 'k

record ('h, 'k) Callbacks =
  cb_handler :: "'h \<Rightarrow> ('h, 'k) Hw \<Rightarrow> ('h, 'k) Hw res"
  cb_DelayedLoad :: "'k \<Rightarrow> 'k res"
  cb_Yield :: "('h, 'k) Hw \<Rightarrow> ('h, 'k) Hw res"

definition Interrupt_new :: "'h Interrupt" where
  "Interrupt_new = \<lparr>level = IntOff, pending = [], inHandler = False,
     yieldOnReturn = False, status = SystemMode\<rparr>"

definition upd_intr :: "('h Interrupt \<Rightarrow> 'h Interrupt) \<Rightarrow> ('h, 'k) Hw \<Rightarrow> ('h, 'k) Hw" where
  "upd_intr f s = s\<lparr>intr := f (intr s)\<rparr>"

definition Interrupt_getLevel :: "('h, 'k) Hw \<Rightarrow> IntStatus" where
  "Interrupt_getLevel s = level (intr s)"

definition Interrupt_getStatus :: "('h, 'k) Hw \<Rightarrow> MachineStatus" where
  "Interrupt_getStatus s = status (intr s)"

definition Interrupt_setStatus :: "MachineStatus \<Rightarrow> ('h, 'k) Hw \<Rightarrow> ('h, 'k) Hw" where
  "Interrupt_setStatus st = upd_intr (\<lambda>i. i\<lparr>status := st\<rparr>)"

definition Interrupt_YieldOnReturn :: "('h, 'k) Hw \<Rightarrow> ('h, 'k) Hw" where
  "Interrupt_YieldOnReturn = upd_intr (\<lambda>i. i\<lparr>yieldOnReturn := True\<rparr>)"

text \<open>\<open>ChangeLevel(old, now)\<close>: \<open>old\<close> is only printed.\<close>

definition Interrupt_ChangeLevel :: "IntStatus \<Rightarrow> ('h, 'k) Hw \<Rightarrow> ('h, 'k) Hw" where
  "Interrupt_ChangeLevel now = upd_intr (\<lambda>i. i\<lparr>level := now\<rparr>)"

definition Interrupt_Schedule ::
    "'h \<Rightarrow> int \<Rightarrow> IntType \<Rightarrow> ('h, 'k) Hw \<Rightarrow> ('h, 'k) Hw res" where
  "Interrupt_Schedule handler fromNow type s =
     (let when = totalTicks (stats s) + fromNow;
          toOccur = \<lparr>pi_handler = handler, pi_when = when, pi_type = type\<rparr>
      in assertR (fromNow > 0)
           (Inr (upd_intr (\<lambda>i. i\<lparr>pending := ins_key when toOccur (pending i)\<rparr>) s)))"

text \<open>The tail of \<open>CheckIfDue\<close>, once the interrupt is known to fire.\<close>

definition fire :: "('h, 'k) Callbacks \<Rightarrow> 'h PendingInterrupt \<Rightarrow> ('h, 'k) Hw \<Rightarrow> ('h, 'k) Hw res" where
  "fire cb toOccur s =
     (let old = status (intr s) in
      bindR (cb_DelayedLoad cb (kern s)) (\<lambda>k.
      bindR (cb_handler cb (pi_handler toOccur)
               (upd_intr (\<lambda>i. i\<lparr>inHandler := True, status := SystemMode\<rparr>) (s\<lparr>kern := k\<rparr>))) (\<lambda>s'.
      Inr (upd_intr (\<lambda>i. i\<lparr>status := old, inHandler := False\<rparr>) s'))))"

definition Interrupt_CheckIfDue ::
    "('h, 'k) Callbacks \<Rightarrow> bool \<Rightarrow> ('h, 'k) Hw \<Rightarrow> (bool \<times> ('h, 'k) Hw) res" where
  "Interrupt_CheckIfDue cb advanceClock s =
     assertR (level (intr s) = IntOff)
       (case pending (intr s) of
          [] \<Rightarrow> Inr (False, s)
        | (when, toOccur) # rest \<Rightarrow>
          (let s1 = upd_intr (\<lambda>i. i\<lparr>pending := rest\<rparr>) s;
               put_back = upd_intr (\<lambda>i. i\<lparr>pending := ins_key when toOccur (pending i)\<rparr>)
           in if \<not> advanceClock \<and> when > totalTicks (stats s1) then Inr (False, put_back s1)
              else
                let s2 = (if advanceClock \<and> when > totalTicks (stats s1)
                  then s1\<lparr>stats := (stats s1)\<lparr>
                         idleTicks := idleTicks (stats s1) + (when - totalTicks (stats s1)),
                         totalTicks := when\<rparr>\<rparr>
                  else s1)
                in if status (intr s2) = IdleMode \<and> pi_type toOccur = TimerInt \<and> pending (intr s2) = []
                   then Inr (False, put_back s2)
                   else mapR (Pair True) (fire cb toOccur s2)))"

text \<open>\<open>while (CheckIfDue(false)) ;\<close>\<close>

partial_function (option) CheckIfDue_loop ::
    "('h, 'k) Callbacks \<Rightarrow> ('h, 'k) Hw \<Rightarrow> ('h, 'k) Hw res option" where
  "CheckIfDue_loop cb s =
     (case Interrupt_CheckIfDue cb False s of
        Inl e \<Rightarrow> Some (Inl e)
      | Inr (b, s') \<Rightarrow> if b then CheckIfDue_loop cb s' else Some (Inr s'))"

definition advance_tick :: "('h, 'k) Hw \<Rightarrow> ('h, 'k) Hw" where
  "advance_tick s =
     (let st = stats s in
      if status (intr s) = SystemMode
      then s\<lparr>stats := st\<lparr>totalTicks := totalTicks st + SystemTick, systemTicks := systemTicks st + SystemTick\<rparr>\<rparr>
      else s\<lparr>stats := st\<lparr>totalTicks := totalTicks st + UserTick, userTicks := userTicks st + UserTick\<rparr>\<rparr>)"

definition Interrupt_OneTick ::
    "('h, 'k) Callbacks \<Rightarrow> ('h, 'k) Hw \<Rightarrow> ('h, 'k) Hw res option" where
  "Interrupt_OneTick cb s =
     (let old = status (intr s) in
      map_option (\<lambda>r. bindR r (\<lambda>s2.
        let s3 = Interrupt_ChangeLevel IntOn s2 in
        if yieldOnReturn (intr s3)
        then mapR (Interrupt_setStatus old)
               (cb_Yield cb (upd_intr (\<lambda>i. i\<lparr>yieldOnReturn := False, status := SystemMode\<rparr>) s3))
        else Inr s3))
      (CheckIfDue_loop cb (Interrupt_ChangeLevel IntOff (advance_tick s))))"

definition Interrupt_SetLevel ::
    "('h, 'k) Callbacks \<Rightarrow> IntStatus \<Rightarrow> ('h, 'k) Hw \<Rightarrow> (IntStatus \<times> ('h, 'k) Hw) res option" where
  "Interrupt_SetLevel cb now s =
     (let old = level (intr s) in
      if \<not> (now = IntOff \<or> inHandler (intr s) = False) then Some (Inl AssertFail)
      else if now = IntOn \<and> old = IntOff
           then map_option (mapR (Pair old)) (Interrupt_OneTick cb (Interrupt_ChangeLevel now s))
           else Some (Inr (old, Interrupt_ChangeLevel now s)))"

definition Interrupt_Enable ::
    "('h, 'k) Callbacks \<Rightarrow> ('h, 'k) Hw \<Rightarrow> ('h, 'k) Hw res option" where
  "Interrupt_Enable cb s = map_option (mapR snd) (Interrupt_SetLevel cb IntOn s)"

text \<open>\<open>Halt()\<close> prints the statistics and calls \<open>Cleanup()\<close>, which never returns.\<close>

definition Interrupt_Halt :: "'a res" where
  "Interrupt_Halt = Inl Halted"

definition Interrupt_Idle ::
    "('h, 'k) Callbacks \<Rightarrow> ('h, 'k) Hw \<Rightarrow> ('h, 'k) Hw res option" where
  "Interrupt_Idle cb s =
     (case Interrupt_CheckIfDue cb True (Interrupt_setStatus IdleMode s) of
        Inl e \<Rightarrow> Some (Inl e)
      | Inr (fired, s') \<Rightarrow>
        if fired then
          map_option (mapR (upd_intr (\<lambda>i. i\<lparr>yieldOnReturn := False, status := SystemMode\<rparr>)))
            (CheckIfDue_loop cb s')
        else Some Interrupt_Halt)"

subsection \<open>The timer device\<close>

record Timer =
  tm_randomize :: bool

text \<open>\<open>rnd\<close> is the value the host's \<open>Random()\<close> returned.\<close>

definition Timer_TimeOfNextInterrupt :: "Timer \<Rightarrow> nat \<Rightarrow> int" where
  "Timer_TimeOfNextInterrupt t rnd =
     (if tm_randomize t then 1 + (int rnd smod (TimerTicks * 2)) else TimerTicks)"

definition Timer_new :: "'h \<Rightarrow> bool \<Rightarrow> nat \<Rightarrow> ('h, 'k) Hw \<Rightarrow> (Timer \<times> ('h, 'k) Hw) res" where
  "Timer_new TimerHandler doRandom rnd s =
     (let t = \<lparr>tm_randomize = doRandom\<rparr>
      in mapR (Pair t) (Interrupt_Schedule TimerHandler (Timer_TimeOfNextInterrupt t rnd) TimerInt s))"

definition Timer_TimerExpired ::
    "'h \<Rightarrow> Timer \<Rightarrow> nat \<Rightarrow> (('h, 'k) Hw \<Rightarrow> ('h, 'k) Hw res) \<Rightarrow> ('h, 'k) Hw \<Rightarrow> ('h, 'k) Hw res" where
  "Timer_TimerExpired TimerHandler t rnd handler s =
     bindR (Interrupt_Schedule TimerHandler (Timer_TimeOfNextInterrupt t rnd) TimerInt s) handler"

text \<open>\<open>TimerInterruptHandler\<close> of \<open>threads/system.cc\<close>: the handler the kernel gives the timer.\<close>

definition TimerInterruptHandler :: "('h, 'k) Hw \<Rightarrow> ('h, 'k) Hw res" where
  "TimerInterruptHandler s =
     Inr (if Interrupt_getStatus s \<noteq> IdleMode then Interrupt_YieldOnReturn s else s)"

subsection \<open>Well-formed interrupt state\<close>

definition due :: "('h, 'k) Hw \<Rightarrow> (int \<times> 'h PendingInterrupt) list" where
  "due s = filter (\<lambda>e. fst e \<le> totalTicks (stats s)) (pending (intr s))"

definition Interrupt_ok :: "('h, 'k) Hw \<Rightarrow> bool" where
  "Interrupt_ok s \<longleftrightarrow> keys_sorted (pending (intr s))
     \<and> list_all (\<lambda>e. pi_when (snd e) = fst e) (pending (intr s))"

definition ticks_ok :: "Statistics \<Rightarrow> bool" where
  "ticks_ok st \<longleftrightarrow> totalTicks st = idleTicks st + systemTicks st + userTicks st"

text \<open>The clock fields, which handlers leave alone.\<close>

definition clock :: "Statistics \<Rightarrow> int \<times> int \<times> int \<times> int" where
  "clock st = (totalTicks st, idleTicks st, systemTicks st, userTicks st)"

lemma clock_eqD:
  assumes "clock st = clock st'"
  shows "totalTicks st = totalTicks st'" "ticks_ok st = ticks_ok st'"
  using assms by (auto simp: clock_def ticks_ok_def)

lemma list_all_ins_key [simp]: "list_all P (ins_key k x xs) \<longleftrightarrow> P (k, x) \<and> list_all P xs"
  by (auto simp: list_all_iff)

lemma ins_key_Cons_below: "keys_sorted ((k, x) # xs) \<Longrightarrow> k < k' \<Longrightarrow>
    ins_key k' y ((k, x) # xs) = (k, x) # ins_key k' y xs"
  by (simp add: ins_key_def)

lemma filter_ins_key_above: "m < k \<Longrightarrow>
    filter (\<lambda>e. fst e \<le> m) (ins_key k x xs) = filter (\<lambda>e. fst e \<le> m) xs"
  unfolding ins_key_def by simp (metis filter_append takeWhile_dropWhile_id)

lemma sorted_head_due:
  "keys_sorted (e # xs) \<Longrightarrow> m < fst e \<Longrightarrow> filter (\<lambda>e. fst e \<le> m) (e # xs) = []"
  by (auto simp: filter_empty_conv)

lemma ins_key_hd_back:
  assumes "keys_sorted ((k, x) # xs)" "list_all (\<lambda>e. k < fst e) xs"
  shows "ins_key k x xs = (k, x) # xs"
  using assms by (cases xs) (auto simp: ins_key_def)

lemma Interrupt_Schedule_ok:
  assumes "0 < fromNow" "Interrupt_ok s"
  shows "\<exists>s'. Interrupt_Schedule h fromNow type s = Inr s' \<and> Interrupt_ok s' \<and> due s' = due s
    \<and> stats s' = stats s \<and> kern s' = kern s \<and> level (intr s') = level (intr s)
    \<and> status (intr s') = status (intr s) \<and> inHandler (intr s') = inHandler (intr s)
    \<and> yieldOnReturn (intr s') = yieldOnReturn (intr s)
    \<and> pending (intr s') = ins_key (totalTicks (stats s) + fromNow)
        \<lparr>pi_handler = h, pi_when = totalTicks (stats s) + fromNow, pi_type = type\<rparr> (pending (intr s))"
  using assms
  by (simp add: Interrupt_Schedule_def Let_def upd_intr_def Interrupt_ok_def due_def
      sorted_ins_key filter_ins_key_above)

lemma Interrupt_Schedule_not_future:
  "fromNow \<le> 0 \<Longrightarrow> Interrupt_Schedule h fromNow type s = Inl AssertFail"
  by (simp add: Interrupt_Schedule_def Let_def)

lemma Timer_TimeOfNextInterrupt_range:
  "1 \<le> Timer_TimeOfNextInterrupt t rnd \<and> Timer_TimeOfNextInterrupt t rnd \<le> 200"
proof -
  have "0 \<le> int rnd mod 200" "int rnd mod 200 < 200" by auto
  then have "0 \<le> int rnd mod 200" "int rnd mod 200 \<le> 199" by linarith+
  then show ?thesis
    by (simp add: Timer_TimeOfNextInterrupt_def TimerTicks_def smod_nonneg)
qed

subsection \<open>What a handler does\<close>

text \<open>
  The specification of a device handler: \<open>eff\<close> gives what it does to the kernel and the statistics,
  and the delay and type of the interrupt it schedules for itself again, if it does; \<open>dl\<close> is the
  delayed load before every handler; \<open>asks\<close> says which handlers ask for a context switch.
\<close>

type_synonym ('h, 'k) effect = "'h \<Rightarrow> 'k \<times> Statistics \<Rightarrow> ('k \<times> Statistics) \<times> (int \<times> IntType) option"

definition reschedule :: "int \<Rightarrow> 'h \<Rightarrow> (int \<times> IntType) option \<Rightarrow> (int \<times> 'h PendingInterrupt) list
    \<Rightarrow> (int \<times> 'h PendingInterrupt) list" where
  "reschedule now h r q = (case r of None \<Rightarrow> q
     | Some (d, ty) \<Rightarrow> ins_key (now + d) \<lparr>pi_handler = h, pi_when = now + d, pi_type = ty\<rparr> q)"

definition set_pending :: "(int \<times> 'h PendingInterrupt) list \<Rightarrow> ('h, 'k) Hw \<Rightarrow> ('h, 'k) Hw" where
  "set_pending q = upd_intr (\<lambda>i. i\<lparr>pending := q\<rparr>)"

definition run_handler ::
    "('h, 'k) effect \<Rightarrow> ('k \<Rightarrow> 'k) \<Rightarrow> ('h \<Rightarrow> bool) \<Rightarrow> 'h \<Rightarrow> ('h, 'k) Hw \<Rightarrow> ('h, 'k) Hw" where
  "run_handler eff dl asks h s =
     (let ((k, st), r) = eff h (dl (kern s), stats s) in
      s\<lparr>kern := k, stats := st, intr := (intr s)\<lparr>
          pending := reschedule (totalTicks (stats s)) h r (pending (intr s)),
          yieldOnReturn := yieldOnReturn (intr s) \<or> asks h\<rparr>\<rparr>)"

text \<open>The interrupts \<open>es\<close> at the head of the list are taken off and their handlers run, in this order.\<close>

definition serve ::
    "('h, 'k) effect \<Rightarrow> ('k \<Rightarrow> 'k) \<Rightarrow> ('h \<Rightarrow> bool) \<Rightarrow> (int \<times> 'h PendingInterrupt) list \<Rightarrow> ('h, 'k) Hw \<Rightarrow> ('h, 'k) Hw" where
  "serve eff dl asks es s =
     fold (\<lambda>e. run_handler eff dl asks (pi_handler (snd e))) es (set_pending (drop (length es) (pending (intr s))) s)"

text \<open>
  A round that finds nothing to do takes the first interrupt off the list and inserts it again, which
  moves it behind the others of the same time.
\<close>

definition requeue :: "('h, 'k) Hw \<Rightarrow> ('h, 'k) Hw" where
  "requeue s = (case pending (intr s) of [] \<Rightarrow> s | (w, p) # rest \<Rightarrow> set_pending (ins_key w p rest) s)"

lemma run_handler_simps [simp]:
  "level (intr (run_handler eff dl asks h s)) = level (intr s)" "status (intr (run_handler eff dl asks h s)) = status (intr s)"
  "inHandler (intr (run_handler eff dl asks h s)) = inHandler (intr s)"
  by (simp_all add: run_handler_def split: prod.splits)

lemma set_pending_simps [simp]:
  "pending (intr (set_pending q s)) = q" "kern (set_pending q s) = kern s" "stats (set_pending q s) = stats s"
  "level (intr (set_pending q s)) = level (intr s)" "status (intr (set_pending q s)) = status (intr s)"
  "inHandler (intr (set_pending q s)) = inHandler (intr s)" "set_pending q (set_pending q' s) = set_pending q s"
  "set_pending (pending (intr s)) s = s" "yieldOnReturn (intr (set_pending q s)) = yieldOnReturn (intr s)"
  by (simp_all add: set_pending_def upd_intr_def)

lemma serve_Nil [simp]: "serve eff dl asks [] s = s"
  by (simp add: serve_def)

lemma drop_ins_key:
  "list_all (\<lambda>e. fst e \<le> k) es \<Longrightarrow> drop (length es) (ins_key k x (es @ q)) = ins_key k x q"
  by (induction es) (auto simp: ins_key_def)

lemma requeue_simps [simp]:
  "kern (requeue s) = kern s" "stats (requeue s) = stats s" "level (intr (requeue s)) = level (intr s)"
  "status (intr (requeue s)) = status (intr s)" "inHandler (intr (requeue s)) = inHandler (intr s)"
  "yieldOnReturn (intr (requeue s)) = yieldOnReturn (intr s)" "due s = [] \<Longrightarrow> due (requeue s) = []"
  "Interrupt_ok s \<Longrightarrow> Interrupt_ok (requeue s)"
  by (auto simp: requeue_def due_def Interrupt_ok_def filter_empty_conv sorted_ins_key split: list.splits prod.splits)

lemma level_simps [simp]:
  "intr (Interrupt_ChangeLevel l s) = (intr s)\<lparr>level := l\<rparr>" "stats (Interrupt_ChangeLevel l s) = stats s"
  "kern (Interrupt_ChangeLevel l s) = kern s" "due (Interrupt_ChangeLevel l s) = due s"
  "Interrupt_ok (Interrupt_ChangeLevel l s) = Interrupt_ok s"
  "Interrupt_ChangeLevel l (Interrupt_ChangeLevel l' s) = Interrupt_ChangeLevel l s"
  by (simp_all add: Interrupt_ChangeLevel_def upd_intr_def due_def Interrupt_ok_def)

lemma status_simps [simp]:
  "intr (Interrupt_setStatus l s) = (intr s)\<lparr>status := l\<rparr>" "stats (Interrupt_setStatus l s) = stats s"
  "kern (Interrupt_setStatus l s) = kern s" "due (Interrupt_setStatus l s) = due s"
  "Interrupt_ok (Interrupt_setStatus l s) = Interrupt_ok s"
  by (simp_all add: Interrupt_setStatus_def upd_intr_def due_def Interrupt_ok_def)

text \<open>The service does not depend on the level or the status of the machine.\<close>

lemma run_handler_level:
  "run_handler eff dl asks h (Interrupt_ChangeLevel l s) = Interrupt_ChangeLevel l (run_handler eff dl asks h s)"
  "run_handler eff dl asks h (Interrupt_setStatus m s) = Interrupt_setStatus m (run_handler eff dl asks h s)"
  by (simp_all add: run_handler_def Interrupt_ChangeLevel_def Interrupt_setStatus_def upd_intr_def split: prod.splits)

lemma requeue_level:
  "requeue (Interrupt_ChangeLevel l s) = Interrupt_ChangeLevel l (requeue s)"
  "requeue (Interrupt_setStatus m s) = Interrupt_setStatus m (requeue s)"
  by (simp_all add: requeue_def Interrupt_ChangeLevel_def Interrupt_setStatus_def set_pending_def upd_intr_def split: list.splits)

lemma set_pending_level:
  "set_pending q (Interrupt_ChangeLevel l s) = Interrupt_ChangeLevel l (set_pending q s)"
  "set_pending q (Interrupt_setStatus m s) = Interrupt_setStatus m (set_pending q s)"
  by (simp_all add: set_pending_def Interrupt_ChangeLevel_def Interrupt_setStatus_def upd_intr_def)

lemma serve_level:
  "serve eff dl asks es (Interrupt_ChangeLevel l s) = Interrupt_ChangeLevel l (serve eff dl asks es s)"
  "serve eff dl asks es (Interrupt_setStatus m s) = Interrupt_setStatus m (serve eff dl asks es s)"
proof -
  have "fold (\<lambda>e. run_handler eff dl asks (pi_handler (snd e))) es (Interrupt_ChangeLevel l t)
      = Interrupt_ChangeLevel l (fold (\<lambda>e. run_handler eff dl asks (pi_handler (snd e))) es t)"
    "fold (\<lambda>e. run_handler eff dl asks (pi_handler (snd e))) es (Interrupt_setStatus m t)
      = Interrupt_setStatus m (fold (\<lambda>e. run_handler eff dl asks (pi_handler (snd e))) es t)" for t
    by (induction es arbitrary: t) (simp_all add: run_handler_level)
  then show "serve eff dl asks es (Interrupt_ChangeLevel l s) = Interrupt_ChangeLevel l (serve eff dl asks es s)"
    "serve eff dl asks es (Interrupt_setStatus m s) = Interrupt_setStatus m (serve eff dl asks es s)"
    by (simp_all add: serve_def set_pending_level)
qed

text \<open>Waiting until a time that may have passed already, which only adds idle ticks.\<close>

definition idle_until :: "int \<Rightarrow> ('h, 'k) Hw \<Rightarrow> ('h, 'k) Hw" where
  "idle_until w s = s\<lparr>stats := (stats s)\<lparr>totalTicks := max w (totalTicks (stats s)),
     idleTicks := idleTicks (stats s) + (max w (totalTicks (stats s)) - totalTicks (stats s))\<rparr>\<rparr>"

subsection \<open>What the simulation relies on: the device handlers\<close>

text \<open>
  Every handler does what its specification says, and the specification keeps the invariant of the
  kernel, does not touch the clock, and schedules only in the future.
\<close>

locale interrupt_devices =
  fixes cb :: "('h, 'k) Callbacks"
    and kinv :: "'k \<Rightarrow> bool"
    and eff :: "('h, 'k) effect"
    and dl :: "'k \<Rightarrow> 'k"
    and asks :: "'h \<Rightarrow> bool"
  assumes handler_effect: "kinv (kern s) \<Longrightarrow> level (intr s) = IntOff \<Longrightarrow> inHandler (intr s) \<Longrightarrow>
      status (intr s) = SystemMode \<Longrightarrow> cb_handler cb h s = Inr (run_handler eff (\<lambda>k. k) asks h s)"
    and effect_ok: "kinv k \<Longrightarrow> eff h (k, st) = ((k', st'), r) \<Longrightarrow>
      kinv k' \<and> clock st' = clock st \<and> (case r of None \<Rightarrow> True | Some (d, ty) \<Rightarrow> 0 < d)"
    and delayed_load: "kinv k \<Longrightarrow> cb_DelayedLoad cb k = Inr (dl k) \<and> kinv (dl k)"
begin

definition ok :: "('h, 'k) Hw \<Rightarrow> bool" where
  "ok s \<longleftrightarrow> Interrupt_ok s \<and> kinv (kern s) \<and> level (intr s) = IntOff \<and> \<not> inHandler (intr s)"

lemma run_ok:
  assumes "ok s"
  shows "ok (run_handler eff dl asks h s)" "due (run_handler eff dl asks h s) = due s"
    "clock (stats (run_handler eff dl asks h s)) = clock (stats s)"
proof -
  obtain k st r where e: "eff h (dl (kern s), stats s) = ((k, st), r)" by (metis surj_pair)
  have "kinv (dl (kern s))" using assms delayed_load by (simp add: ok_def)
  note f = effect_ok[OF this e]
  have "Interrupt_ok (run_handler eff dl asks h s)" "due (run_handler eff dl asks h s) = due s"
    using assms f e clock_eqD(1)[of st "stats s"]
    by (auto simp: run_handler_def reschedule_def ok_def Interrupt_ok_def due_def sorted_ins_key filter_ins_key_above
        split: option.splits prod.splits)
  then show "ok (run_handler eff dl asks h s)" "due (run_handler eff dl asks h s) = due s"
    "clock (stats (run_handler eff dl asks h s)) = clock (stats s)"
    using assms f e by (simp_all add: ok_def run_handler_def)
qed

lemma fire_runs:
  assumes "ok s"
  shows "fire cb p s = Inr (run_handler eff dl asks (pi_handler p) s)"
proof -
  let ?s = "upd_intr (\<lambda>i. i\<lparr>inHandler := True, status := SystemMode\<rparr>) (s\<lparr>kern := dl (kern s)\<rparr>)"
  have k: "cb_DelayedLoad cb (kern s) = Inr (dl (kern s))" "kinv (dl (kern s))"
    using assms delayed_load by (auto simp: ok_def)
  then have "cb_handler cb (pi_handler p) ?s = Inr (run_handler eff (\<lambda>k. k) asks (pi_handler p) ?s)"
    using assms by (intro handler_effect) (simp_all add: ok_def upd_intr_def)
  moreover obtain k' st r where "eff (pi_handler p) (dl (kern s), stats s) = ((k', st), r)" by (metis surj_pair)
  ultimately show ?thesis using assms k
    by (simp add: fire_def Let_def run_handler_def upd_intr_def ok_def)
qed

lemma serve_Cons:
  assumes "ok s" "pending (intr s) = e # es @ q" "list_all (\<lambda>e. fst e \<le> totalTicks (stats s)) es"
  shows "serve eff dl asks (e # es) s = serve eff dl asks es (serve eff dl asks [e] s)"
proof -
  let ?h = "pi_handler (snd e)"
  obtain k st r where e: "eff ?h (dl (kern s), stats s) = ((k, st), r)" by (metis surj_pair)
  have "kinv (dl (kern s))" using assms(1) delayed_load by (simp add: ok_def)
  note f = effect_ok[OF this e]
  have "list_all (\<lambda>e. fst e \<le> totalTicks (stats s) + d) es" if "0 < d" for d
    using assms(3) that by (auto simp: list_all_iff)
  then have "drop (length es) (reschedule (totalTicks (stats s)) ?h r (es @ q)) = reschedule (totalTicks (stats s)) ?h r q"
    using f by (auto simp: reschedule_def drop_ins_key split: option.splits)
  then have "set_pending (drop (length es) (pending (intr (run_handler eff dl asks ?h (set_pending (es @ q) s)))))
      (run_handler eff dl asks ?h (set_pending (es @ q) s)) = run_handler eff dl asks ?h (set_pending q s)"
    using e by (simp add: run_handler_def set_pending_def upd_intr_def)
  then show ?thesis using assms(2) by (simp add: serve_def)
qed

text \<open>
  One round of the loop, in every mode: it stops when nothing is due, or, in idle mode, at a timer
  interrupt that is the only one pending; otherwise it serves the first interrupt.
\<close>

definition idle_timer :: "('h, 'k) Hw \<Rightarrow> bool" where
  "idle_timer s \<longleftrightarrow> status (intr s) = IdleMode \<and> map (pi_type \<circ> snd) (pending (intr s)) = [TimerInt]"

lemma CheckIfDue_round:
  assumes "ok s"
  shows "Interrupt_CheckIfDue cb False s =
    (if due s = [] \<or> idle_timer s then Inr (False, requeue s) else Inr (True, serve eff dl asks [hd (pending (intr s))] s))"
proof (cases "pending (intr s)")
  case Nil
  then show ?thesis using assms by (simp add: due_def Interrupt_CheckIfDue_def ok_def requeue_def)
next
  case (Cons e rest)
  obtain w p where e: "e = (w, p)" by (cases e)
  have sorted: "keys_sorted ((w, p) # rest)" using assms Cons e by (simp add: ok_def Interrupt_ok_def)
  have d: "due s = [] \<longleftrightarrow> totalTicks (stats s) < w"
    using sorted_head_due[OF sorted, of "totalTicks (stats s)"] Cons e by (auto simp: due_def)
  have "ok (set_pending rest s)" using assms Cons e by (simp add: ok_def Interrupt_ok_def)
  note f = fire_runs[OF this, of p]
  show ?thesis using assms Cons e d f
    by (auto simp: Interrupt_CheckIfDue_def ok_def requeue_def idle_timer_def serve_def set_pending_def upd_intr_def Let_def)
qed

lemma due_prefix:
  assumes "ok s"
  shows "\<exists>q. pending (intr s) = due s @ q"
proof -
  have "filter (\<lambda>e. fst e \<le> m) xs = takeWhile (\<lambda>e. fst e \<le> m) xs" if "keys_sorted xs" for m and xs :: "(int \<times> 'h PendingInterrupt) list"
    using that
  proof (induction xs)
    case (Cons e xs)
    then show ?case using sorted_head_due[of e xs m] by (cases "fst e \<le> m") auto
  qed simp
  then show ?thesis using assms unfolding ok_def Interrupt_ok_def due_def by (metis takeWhile_dropWhile_id)
qed

lemma serve_first:
  assumes "ok s" "due s \<noteq> []"
  defines "s1 \<equiv> serve eff dl asks [hd (pending (intr s))] s"
  shows "ok s1" "due s = hd (pending (intr s)) # due s1" "clock (stats s1) = clock (stats s)" "status (intr s1) = status (intr s)"
    "es = due s1 \<or> (\<exists>t. due s1 = es @ [t]) \<Longrightarrow>
       serve eff dl asks es s1 = serve eff dl asks (hd (pending (intr s)) # es) s"
proof -
  obtain q where q: "pending (intr s) = due s @ q" using due_prefix[OF assms(1)] by blast
  obtain e rest where e: "pending (intr s) = e # rest" "hd (pending (intr s)) = e" using q assms(2) by (cases "due s") auto
  have ok: "ok (set_pending rest s)" using assms(1) e by (simp add: ok_def Interrupt_ok_def)
  have s1: "s1 = run_handler eff dl asks (pi_handler (snd e)) (set_pending rest s)" by (simp add: s1_def e serve_def)
  have "e \<in> set (due s)" using q e assms(2) by (cases "due s") auto
  then have "fst e \<le> totalTicks (stats s)" by (simp add: due_def)
  then have "due s = e # due (set_pending rest s)" using e(1) by (simp add: due_def)
  then show d: "due s = hd (pending (intr s)) # due s1" unfolding s1 run_ok(2)[OF ok] e(2) .
  show "ok s1" "clock (stats s1) = clock (stats s)" "status (intr s1) = status (intr s)"
    using run_ok[OF ok] by (simp_all add: s1)
  assume "es = due s1 \<or> (\<exists>t. due s1 = es @ [t])"
  then obtain ys where ys: "due s1 = es @ ys" by auto
  have "list_all (\<lambda>e. fst e \<le> totalTicks (stats s)) (due s)" by (auto simp: due_def list_all_iff)
  then have "list_all (\<lambda>e. fst e \<le> totalTicks (stats s)) es" using d ys by simp
  then show "serve eff dl asks es s1 = serve eff dl asks (hd (pending (intr s)) # es) s"
    using serve_Cons[OF assms(1), of e es "ys @ q"] q d ys e(2) unfolding s1_def e(2)
    by (metis append_Cons append_assoc)
qed

text \<open>
  The loop ends, because every round takes one interrupt off the finite list of due ones. It has then
  served all of them in the order of the list, except that in idle mode a timer interrupt that is
  left alone stays.
\<close>

lemma CheckIfDue_loop_serves:
  assumes "ok s"
  shows "\<exists>es. CheckIfDue_loop cb s = Some (Inr (requeue (serve eff dl asks es s))) \<and> ok (serve eff dl asks es s)
    \<and> clock (stats (serve eff dl asks es s)) = clock (stats s) \<and> status (intr (serve eff dl asks es s)) = status (intr s)
    \<and> (es = due s \<and> due (serve eff dl asks es s) = [] \<or> idle_timer (serve eff dl asks es s)
        \<and> due s = es @ pending (intr (serve eff dl asks es s)))"
  using assms
proof (induction "length (due s)" arbitrary: s rule: less_induct)
  case less
  let ?stop = "due s = [] \<or> idle_timer s"
  show ?case
  proof (cases ?stop)
    case True
    then have "CheckIfDue_loop cb s = Some (Inr (requeue s))"
      by (subst CheckIfDue_loop.simps) (simp add: CheckIfDue_round[OF less.prems])
    moreover have "due s = [] \<or> idle_timer s \<and> due s = pending (intr s)"
    proof (cases "due s = []")
      case False
      with True obtain t where "pending (intr s) = [t]" "idle_timer s" by (auto simp: idle_timer_def)
      then show ?thesis using False by (auto simp: due_def split: if_splits)
    qed simp
    ultimately show ?thesis using less.prems by (intro exI[of _ "[]"]) auto
  next
    case False
    let ?s1 = "serve eff dl asks [hd (pending (intr s))] s"
    have ne: "due s \<noteq> []" using False by simp
    note f = serve_first[OF less.prems ne]
    have "length (due ?s1) < length (due s)" using f(2) by (metis length_Cons lessI)
    from less.hyps[OF this f(1)] obtain es where es: "CheckIfDue_loop cb ?s1 = Some (Inr (requeue (serve eff dl asks es ?s1)))"
      "ok (serve eff dl asks es ?s1)" "clock (stats (serve eff dl asks es ?s1)) = clock (stats ?s1)"
      "status (intr (serve eff dl asks es ?s1)) = status (intr ?s1)"
      "es = due ?s1 \<and> due (serve eff dl asks es ?s1) = [] \<or> idle_timer (serve eff dl asks es ?s1)
        \<and> due ?s1 = es @ pending (intr (serve eff dl asks es ?s1))" by blast
    have "es = due ?s1 \<or> (\<exists>t. due ?s1 = es @ [t])" using es(5) by (auto simp: idle_timer_def)
    note g = f(5)[OF this]
    have "CheckIfDue_loop cb s = CheckIfDue_loop cb ?s1"
      using False by (subst CheckIfDue_loop.simps) (simp add: CheckIfDue_round[OF less.prems])
    moreover have "hd (pending (intr s)) # es = due s \<and> due (serve eff dl asks es ?s1) = [] \<or> idle_timer (serve eff dl asks es ?s1)
        \<and> due s = (hd (pending (intr s)) # es) @ pending (intr (serve eff dl asks es ?s1))"
      using es(5) f(2) by (metis append_Cons)
    ultimately show ?thesis using es(1-4) f(3,4) unfolding g
      by (intro exI[of _ "hd (pending (intr s)) # es"] conjI) (simp_all only:)
  qed
qed

text \<open>
  \<open>OneTick\<close> advances the clock by one tick of the current mode and serves everything that is
  due; the only step left is the yield that a handler may have asked for.
\<close>

lemma OneTick_serves:
  assumes "Interrupt_ok s" "kinv (kern s)" "\<not> inHandler (intr s)" "status (intr s) \<noteq> IdleMode"
  defines "s0 \<equiv> advance_tick s"
  defines "s' \<equiv> Interrupt_ChangeLevel IntOn (requeue (serve eff dl asks (due s0) s0))"
  shows "Interrupt_OneTick cb s = Some (if yieldOnReturn (intr s')
        then mapR (Interrupt_setStatus (status (intr s)))
          (cb_Yield cb (upd_intr (\<lambda>i. i\<lparr>yieldOnReturn := False, status := SystemMode\<rparr>) s'))
        else Inr s')"
    "due s' = []" "Interrupt_ok s'" "kinv (kern s')" "clock (stats s') = clock (stats s0)"
proof -
  let ?s1 = "Interrupt_ChangeLevel IntOff s0"
  have s1: "ok ?s1" "status (intr ?s1) \<noteq> IdleMode" "due ?s1 = due s0" "stats ?s1 = stats s0"
    using assms(1-4) by (auto simp: s0_def ok_def Interrupt_ok_def due_def level_simps advance_tick_def Let_def)
  from CheckIfDue_loop_serves[OF s1(1)] s1(2,3) obtain "CheckIfDue_loop cb ?s1 = Some (Inr (requeue (serve eff dl asks (due s0) ?s1)))"
    "ok (serve eff dl asks (due s0) ?s1)" "clock (stats (serve eff dl asks (due s0) ?s1)) = clock (stats s0)"
    "due (serve eff dl asks (due s0) ?s1) = []"
    unfolding idle_timer_def s1(4) by (metis (no_types, lifting))
  note l = this[unfolded serve_level]
  have s': "Interrupt_ChangeLevel IntOn (requeue (Interrupt_ChangeLevel IntOff (serve eff dl asks (due s0) s0))) = s'"
    by (simp add: s'_def requeue_level level_simps)
  show "due s' = []" "Interrupt_ok s'" "kinv (kern s')" "clock (stats s') = clock (stats s0)"
    using l(2-4) requeue_simps(7,8)[of "serve eff dl asks (due s0) s0"]
    by (simp_all add: s'_def ok_def level_simps)
  show "Interrupt_OneTick cb s = Some (if yieldOnReturn (intr s')
        then mapR (Interrupt_setStatus (status (intr s)))
          (cb_Yield cb (upd_intr (\<lambda>i. i\<lparr>yieldOnReturn := False, status := SystemMode\<rparr>) s'))
        else Inr s')"
    unfolding Interrupt_OneTick_def Let_def s0_def[symmetric] l(1) option.map bindR_simps s' ..
qed

text \<open>\<open>Idle\<close> waits for the first interrupt, unless that is a timer interrupt with nothing behind it.\<close>

lemma Idle_serves:
  assumes "Interrupt_ok s" "kinv (kern s)" "\<not> inHandler (intr s)" "level (intr s) = IntOff" "pending (intr s) = e # rest"
    "\<not> (pi_type (snd e) = TimerInt \<and> rest = [])"
  defines "s0 \<equiv> idle_until (fst e) s"
  shows "\<exists>es s'. Interrupt_Idle cb s = Some (Inr (upd_intr (\<lambda>i. i\<lparr>yieldOnReturn := False, status := SystemMode\<rparr>) s'))
    \<and> s' = requeue (serve eff dl asks (e # es) s0)
    \<and> (e # es = due s0 \<and> due s' = [] \<or> map (pi_type \<circ> snd) (pending (intr s')) = [TimerInt] \<and> due s0 = e # es @ pending (intr s'))
    \<and> Interrupt_ok s' \<and> kinv (kern s') \<and> clock (stats s') = clock (stats s0)"
proof -
  let ?j = "Interrupt_setStatus IdleMode s0" and ?i = "Interrupt_setStatus IdleMode s"
  obtain w p where e: "e = (w, p)" by (cases e)
  have j: "?j = idle_until w ?i" "pending (intr ?j) = e # rest" "due ?j = due s0" "stats ?j = stats s0"
    using assms(5) by (simp_all add: s0_def e idle_until_def Interrupt_setStatus_def upd_intr_def due_def)
  have okj: "ok ?j" using assms(1-4) by (simp add: s0_def ok_def idle_until_def Interrupt_ok_def)
  have ne: "due ?j \<noteq> []" using j(2) by (auto simp: due_def s0_def idle_until_def e)
  let ?s1 = "serve eff dl asks [e] ?j"
  note f = serve_first[OF okj ne, unfolded j(2) list.sel(1)]
  have "ok (set_pending rest ?j)" using okj j(2) by (simp add: ok_def Interrupt_ok_def)
  then have r: "fire cb p (set_pending rest (idle_until w ?i)) = Inr ?s1"
    using fire_runs[of "set_pending rest ?j" p] j(1,2) e by (simp add: serve_def)
  have c: "set_pending rest (idle_until w ?i) = (if w > totalTicks (stats s)
      then (set_pending rest ?i)\<lparr>stats := (stats s)\<lparr>idleTicks := idleTicks (stats s) + (w - totalTicks (stats s)), totalTicks := w\<rparr>\<rparr>
      else set_pending rest ?i)"
    by (simp add: idle_until_def set_pending_def Interrupt_setStatus_def upd_intr_def)
  have check: "Interrupt_CheckIfDue cb True ?i = Inr (True, ?s1)"
    using assms(4-6) r unfolding c by (auto simp: Interrupt_CheckIfDue_def e set_pending_def upd_intr_def Let_def)
  from CheckIfDue_loop_serves[OF f(1)] obtain es where es: "CheckIfDue_loop cb ?s1 = Some (Inr (requeue (serve eff dl asks es ?s1)))"
    "ok (serve eff dl asks es ?s1)" "clock (stats (serve eff dl asks es ?s1)) = clock (stats ?s1)"
    "es = due ?s1 \<and> due (serve eff dl asks es ?s1) = [] \<or> idle_timer (serve eff dl asks es ?s1)
        \<and> due ?s1 = es @ pending (intr (serve eff dl asks es ?s1))" by blast
  have "es = due ?s1 \<or> (\<exists>t. due ?s1 = es @ [t])" using es(4) by (auto simp: idle_timer_def)
  note g = f(5)[OF this]
  let ?s' = "requeue (serve eff dl asks (e # es) ?j)"
  have "Interrupt_Idle cb s = Some (Inr (upd_intr (\<lambda>i. i\<lparr>yieldOnReturn := False, status := SystemMode\<rparr>) ?s'))"
    using check es(1) unfolding g by (simp add: Interrupt_Idle_def)
  moreover have "pending (intr (requeue t)) = pending (intr t)" if "idle_timer t" for t
    using that by (auto simp: idle_timer_def requeue_def ins_key_def split: list.splits)
  then have "e # es = due s0 \<and> due ?s' = [] \<or> map (pi_type \<circ> snd) (pending (intr ?s')) = [TimerInt] \<and> due s0 = e # es @ pending (intr ?s')"
    using es(4) f(2) unfolding g j(3) by (metis append_Cons idle_timer_def requeue_simps(7))
  moreover have "Interrupt_ok ?s'" "kinv (kern ?s')" "clock (stats ?s') = clock (stats s0)"
    using es(2,3) f(3) unfolding g j(4) by (simp_all add: ok_def)
  moreover have "upd_intr (\<lambda>i. i\<lparr>yieldOnReturn := False, status := SystemMode\<rparr>) (Interrupt_setStatus IdleMode t)
      = upd_intr (\<lambda>i. i\<lparr>yieldOnReturn := False, status := SystemMode\<rparr>) t" for t :: "('h, 'k) Hw"
    by (simp add: Interrupt_setStatus_def upd_intr_def)
  ultimately show ?thesis unfolding serve_level requeue_level
    by (intro exI[of _ es] exI[of _ "requeue (serve eff dl asks (e # es) s0)"] conjI) simp_all
qed

end

lemma Idle_halts:
  assumes "level (intr s) = IntOff" "pending (intr s) = [] \<or> map (pi_type \<circ> snd) (pending (intr s)) = [TimerInt]"
  shows "Interrupt_Idle cb s = Some (Inl Halted)"
  using assms by (auto simp: Interrupt_Idle_def Interrupt_CheckIfDue_def Interrupt_setStatus_def upd_intr_def
      Interrupt_Halt_def Let_def split: list.splits)

lemma advance_tick_clock:
  "totalTicks (stats (advance_tick s)) = totalTicks (stats s)
     + (if status (intr s) = SystemMode then 10 else 1)"
  "ticks_ok (stats (advance_tick s)) = ticks_ok (stats s)"
  by (auto simp: advance_tick_def Let_def SystemTick_def UserTick_def ticks_ok_def)

end
