(* ===== verification/Nachos_Disk.thy ===== *)
theory Nachos_Disk
  imports Nachos_Interrupt
begin

text \<open>
  \<open>machine/disk.cc\<close> and \<open>filesys/synchdisk.cc\<close>: the simulated disk, an asynchronous device
  backed by a UNIX file, and the synchronous layer on top of it. The UNIX file is the list of
  its bytes, magic number included; \<open>unix_Read\<close> and \<open>unix_WriteFile\<close> are \<open>Lseek\<close> followed by
  \<open>Read\<close> or \<open>WriteFile\<close> of \<open>machine/sysdep.cc\<close>. The synchronous layer runs on the interrupt
  simulation of theory \<open>Nachos_Interrupt\<close>: the thread that waits for the disk is the only
  one, so its \<open>Sleep\<close> is the loop over \<open>Interrupt::Idle\<close>, and the interrupt handler posts the
  semaphore it waits on. Times and positions are unbounded integers.
\<close>

subsection \<open>The disk\<close>

definition SectorSize :: int where "SectorSize = 128"
definition SectorsPerTrack :: int where "SectorsPerTrack = 32"
definition NumTracks :: int where "NumTracks = 32"
definition NumSectors :: int where "NumSectors = SectorsPerTrack * NumTracks"
definition MagicNumber :: u32 where "MagicNumber = 0x456789ab"
definition MagicSize :: int where "MagicSize = 4"
definition DiskSize :: int where "DiskSize = MagicSize + NumSectors * SectorSize"

record Disk =
  dk_file :: "byte list"
  dk_active :: bool
  lastSector :: int
  bufferInit :: int

definition unix_Read :: "byte list \<Rightarrow> int \<Rightarrow> int \<Rightarrow> byte list res" where
  "unix_Read f pos n = assertR (0 \<le> pos)
     (let got = take (nat n) (drop (nat pos) f) in assertR (int (length got) = n) (Inr got))"

text \<open>Writing behind the end of the file leaves a hole of zeros.\<close>

definition unix_WriteFile :: "byte list \<Rightarrow> int \<Rightarrow> byte list \<Rightarrow> byte list res" where
  "unix_WriteFile f pos bs = assertR (0 \<le> pos)
     (Inr (overwrite (f @ replicate (nat pos + length bs - length f) 0) (nat pos) bs))"

text \<open>\<open>existing\<close> is the contents of the UNIX file when it could be opened.\<close>

definition Disk_new :: "byte list option \<Rightarrow> Disk res" where
  "Disk_new existing =
     bindR (case existing of
         Some f \<Rightarrow> bindR (unix_Read f 0 MagicSize) (\<lambda>m. assertR (bytes_word m = MagicNumber) (Inr f))
       | None \<Rightarrow> bindR (unix_WriteFile [] 0 (word_bytes MagicNumber)) (\<lambda>f.
           unix_WriteFile f (DiskSize - 4) (word_bytes 0)))
       (\<lambda>f. Inr \<lparr>dk_file = f, dk_active = False, lastSector = 0, bufferInit = 0\<rparr>)"

definition Disk_TimeToSeek :: "Disk \<Rightarrow> int \<Rightarrow> int \<Rightarrow> int \<times> int" where
  "Disk_TimeToSeek d now newSector =
     (let newTrack = newSector sdiv SectorsPerTrack;
          oldTrack = lastSector d sdiv SectorsPerTrack;
          seek = \<bar>newTrack - oldTrack\<bar> * SeekTime;
          over = (now + seek) smod RotationTime
      in (seek, if over > 0 then RotationTime - over else 0))"

definition Disk_ModuloDiff :: "int \<Rightarrow> int \<Rightarrow> int" where
  "Disk_ModuloDiff to from =
     (let toOffset = to smod SectorsPerTrack; fromOffset = from smod SectorsPerTrack
      in ((toOffset - fromOffset) + SectorsPerTrack) smod SectorsPerTrack)"

definition Disk_ComputeLatency :: "Disk \<Rightarrow> int \<Rightarrow> int \<Rightarrow> bool \<Rightarrow> int" where
  "Disk_ComputeLatency d now newSector writing =
     (let (seek, rotation) = Disk_TimeToSeek d now newSector;
          timeAfter = now + seek + rotation
      in if \<not> writing \<and> seek = 0 \<and>
            (timeAfter - bufferInit d) sdiv RotationTime > Disk_ModuloDiff newSector (bufferInit d sdiv RotationTime)
         then RotationTime
         else seek + (rotation + Disk_ModuloDiff newSector (timeAfter sdiv RotationTime) * RotationTime) + RotationTime)"

definition Disk_UpdateLast :: "Disk \<Rightarrow> int \<Rightarrow> int \<Rightarrow> Disk" where
  "Disk_UpdateLast d now newSector =
     (let (seek, rotate) = Disk_TimeToSeek d now newSector
      in d\<lparr>bufferInit := (if seek \<noteq> 0 then now + seek + rotate else bufferInit d), lastSector := newSector\<rparr>)"

definition Disk_ReadRequest ::
    "'h \<Rightarrow> int \<Rightarrow> Disk \<Rightarrow> ('h, 'k) Hw \<Rightarrow> (byte list \<times> Disk \<times> ('h, 'k) Hw) res" where
  "Disk_ReadRequest DiskDone sectorNumber d s =
     (let now = totalTicks (stats s); ticks = Disk_ComputeLatency d now sectorNumber False in
      assertR (\<not> dk_active d) (
      assertR (sectorNumber \<ge> 0 \<and> sectorNumber < NumSectors) (
      bindR (unix_Read (dk_file d) (SectorSize * sectorNumber + MagicSize) SectorSize) (\<lambda>data.
      let d' = Disk_UpdateLast (d\<lparr>dk_active := True\<rparr>) now sectorNumber;
          s' = s\<lparr>stats := (stats s)\<lparr>numDiskReads := numDiskReads (stats s) + 1\<rparr>\<rparr>
      in mapR (\<lambda>s''. (data, d', s'')) (Interrupt_Schedule DiskDone ticks DiskInt s')))))"

definition Disk_WriteRequest ::
    "'h \<Rightarrow> int \<Rightarrow> byte list \<Rightarrow> Disk \<Rightarrow> ('h, 'k) Hw \<Rightarrow> (Disk \<times> ('h, 'k) Hw) res" where
  "Disk_WriteRequest DiskDone sectorNumber data d s =
     (let now = totalTicks (stats s); ticks = Disk_ComputeLatency d now sectorNumber True in
      assertR (\<not> dk_active d) (
      assertR (sectorNumber \<ge> 0 \<and> sectorNumber < NumSectors) (
      bindR (unix_WriteFile (dk_file d) (SectorSize * sectorNumber + MagicSize) data) (\<lambda>f.
      let d' = Disk_UpdateLast (d\<lparr>dk_file := f, dk_active := True\<rparr>) now sectorNumber;
          s' = s\<lparr>stats := (stats s)\<lparr>numDiskWrites := numDiskWrites (stats s) + 1\<rparr>\<rparr>
      in mapR (\<lambda>s''. (d', s'')) (Interrupt_Schedule DiskDone ticks DiskInt s')))))"

definition Disk_HandleInterrupt :: "Disk \<Rightarrow> Disk" where
  "Disk_HandleInterrupt d = d\<lparr>dk_active := False\<rparr>"

subsection \<open>The synchronous disk\<close>

text \<open>The value of the semaphore and, of the lock, the value of its semaphore and \<open>isHeld\<close>.\<close>

record SynchDisk =
  sd_semaphore :: int
  sd_lock :: int
  sd_isHeld :: bool
  sd_disk :: Disk

type_synonym DiskHw = "(unit, SynchDisk) Hw"

definition SynchDisk_new :: "byte list option \<Rightarrow> SynchDisk res" where
  "SynchDisk_new existing = mapR (\<lambda>d. \<lparr>sd_semaphore = 0, sd_lock = 1, sd_isHeld = False, sd_disk = d\<rparr>)
     (Disk_new existing)"

text \<open>
  \<open>DiskDone\<close>, \<open>HandleInterrupt\<close>, \<open>DiskRequestDone\<close>, \<open>RequestDone\<close>: the chain of calls behind the
  interrupt ends in \<open>semaphore->V()\<close>. Its two calls of \<open>SetLevel\<close> change nothing, because
  handlers run with interrupts off.
\<close>

definition SynchDisk_RequestDone :: "SynchDisk \<Rightarrow> SynchDisk" where
  "SynchDisk_RequestDone sd = sd\<lparr>sd_semaphore := sd_semaphore sd + 1\<rparr>"

definition DiskDone :: "DiskHw \<Rightarrow> DiskHw res" where
  "DiskDone s = Inr (s\<lparr>kern := SynchDisk_RequestDone
     ((kern s)\<lparr>sd_disk := Disk_HandleInterrupt (sd_disk (kern s))\<rparr>)\<rparr>)"

definition disk_callbacks :: "(unit, SynchDisk) Callbacks" where
  "disk_callbacks = \<lparr>cb_handler = (\<lambda>_. DiskDone), cb_DelayedLoad = Inr, cb_Yield = Inr\<rparr>"

text \<open>A call that does not return is reported as \<open>Diverges\<close>.\<close>

definition retR :: "'a res option \<Rightarrow> 'a res" where
  "retR r = (case r of None \<Rightarrow> Inl Diverges | Some x \<Rightarrow> x)"

text \<open>
  \<open>P\<close> and \<open>V\<close> of a semaphore whose value \<open>get\<close> reads and \<open>upd\<close> changes, called by the only
  thread: \<open>while (value == 0) Sleep()\<close> idles until the semaphore is posted.
\<close>

partial_function (option) P_loop :: "(SynchDisk \<Rightarrow> int) \<Rightarrow> DiskHw \<Rightarrow> DiskHw res option" where
  "P_loop get s =
     (if get (kern s) = 0 then
        (case Interrupt_Idle disk_callbacks s of
           None \<Rightarrow> None
         | Some (Inl e) \<Rightarrow> Some (Inl e)
         | Some (Inr s') \<Rightarrow> P_loop get s')
      else Some (Inr s))"

definition sem_P :: "(SynchDisk \<Rightarrow> int) \<Rightarrow> ((int \<Rightarrow> int) \<Rightarrow> SynchDisk \<Rightarrow> SynchDisk) \<Rightarrow> DiskHw \<Rightarrow> DiskHw res" where
  "sem_P get upd s =
     bindR (retR (Interrupt_SetLevel disk_callbacks IntOff s)) (\<lambda>(oldLevel, s1).
     bindR (retR (P_loop get s1)) (\<lambda>s2.
     mapR snd (retR (Interrupt_SetLevel disk_callbacks oldLevel
       (s2\<lparr>kern := upd (\<lambda>v. v - 1) (kern s2)\<rparr>)))))"

definition sem_V :: "((int \<Rightarrow> int) \<Rightarrow> SynchDisk \<Rightarrow> SynchDisk) \<Rightarrow> DiskHw \<Rightarrow> DiskHw res" where
  "sem_V upd s =
     bindR (retR (Interrupt_SetLevel disk_callbacks IntOff s)) (\<lambda>(oldLevel, s1).
     mapR snd (retR (Interrupt_SetLevel disk_callbacks oldLevel
       (s1\<lparr>kern := upd (\<lambda>v. v + 1) (kern s1)\<rparr>))))"

definition sd_Acquire :: "DiskHw \<Rightarrow> DiskHw res" where
  "sd_Acquire s = mapR (\<lambda>s'. s'\<lparr>kern := (kern s')\<lparr>sd_isHeld := True\<rparr>\<rparr>) (sem_P sd_lock sd_lock_update s)"

definition sd_Release :: "DiskHw \<Rightarrow> DiskHw res" where
  "sd_Release s = mapR (\<lambda>s'. s'\<lparr>kern := (kern s')\<lparr>sd_isHeld := False\<rparr>\<rparr>) (sem_V sd_lock_update s)"

definition SynchDisk_ReadSector :: "int \<Rightarrow> DiskHw \<Rightarrow> (byte list \<times> DiskHw) res" where
  "SynchDisk_ReadSector sectorNumber s =
     bindR (sd_Acquire s) (\<lambda>s1.
     bindR (Disk_ReadRequest () sectorNumber (sd_disk (kern s1)) s1) (\<lambda>(data, d, s2).
     bindR (sem_P sd_semaphore sd_semaphore_update (s2\<lparr>kern := (kern s2)\<lparr>sd_disk := d\<rparr>\<rparr>)) (\<lambda>s3.
     mapR (Pair data) (sd_Release s3))))"

definition SynchDisk_WriteSector :: "int \<Rightarrow> byte list \<Rightarrow> DiskHw \<Rightarrow> DiskHw res" where
  "SynchDisk_WriteSector sectorNumber data s =
     bindR (sd_Acquire s) (\<lambda>s1.
     bindR (Disk_WriteRequest () sectorNumber data (sd_disk (kern s1)) s1) (\<lambda>(d, s2).
     bindR (sem_P sd_semaphore sd_semaphore_update (s2\<lparr>kern := (kern s2)\<lparr>sd_disk := d\<rparr>\<rparr>)) (\<lambda>s3.
     sd_Release s3)))"

subsection \<open>Latency\<close>

lemmas disk_consts = SectorSize_def SectorsPerTrack_def NumTracks_def NumSectors_def MagicSize_def
  DiskSize_def SeekTime_def RotationTime_def

lemma ModuloDiff_eq:
  assumes "0 \<le> t" "0 \<le> f"
  shows "Disk_ModuloDiff t f = (t - f) mod 32"
proof -
  have "0 \<le> t mod 32 - f mod 32 + 32" using pos_mod_bound[of 32 f] pos_mod_sign[of 32 t] by linarith
  then have "Disk_ModuloDiff t f = (t mod 32 - f mod 32 + 32) mod 32"
    using assms by (simp add: Disk_ModuloDiff_def Let_def disk_consts smod_nonneg)
  also have "\<dots> = (t - f) mod 32" by (simp add: mod_diff_eq)
  finally show ?thesis .
qed

lemma TimeToSeek_ok:
  assumes "0 \<le> now" "0 \<le> new" "new < 1024" "0 \<le> lastSector d" "lastSector d < 1024"
    "Disk_TimeToSeek d now new = (seek, rot)"
  shows "seek = \<bar>new div 32 - lastSector d div 32\<bar> * 500" "0 \<le> seek" "seek \<le> 31 * 500"
    "0 \<le> rot" "rot < 500" "(now + seek + rot) mod 500 = 0"
proof -
  show seek: "seek = \<bar>new div 32 - lastSector d div 32\<bar> * 500"
    using assms by (simp add: Disk_TimeToSeek_def Let_def disk_consts sdiv_nonneg)
  have "0 \<le> new div 32" "new div 32 < 32" "0 \<le> lastSector d div 32" "lastSector d div 32 < 32" using assms by auto
  then have "\<bar>new div 32 - lastSector d div 32\<bar> \<le> 31" by linarith
  with seek show s: "0 \<le> seek" "seek \<le> 31 * 500" by auto
  define over where "over = (now + seek) mod 500"
  have o: "0 \<le> over" "over < 500" by (auto simp: over_def)
  have rot: "rot = (if over > 0 then 500 - over else 0)"
    using assms s seek by (auto simp: Disk_TimeToSeek_def Let_def disk_consts sdiv_nonneg smod_nonneg over_def)
  then show "0 \<le> rot" "rot < 500" using o by auto
  have "now + seek = (now + seek) div 500 * 500 + over" by (simp add: over_def)
  then have "now + seek + rot = ((now + seek) div 500 + (if over > 0 then 1 else 0)) * 500"
    using rot o by (cases "over > 0") (simp_all add: algebra_simps)
  then show "(now + seek + rot) mod 500 = 0" by simp
qed

lemma ComputeLatency_ok:
  fixes d :: Disk and now new :: int and writing :: bool
  assumes "0 \<le> now" "0 \<le> new" "new < 1024" "0 \<le> lastSector d" "lastSector d < 1024"
  defines "L \<equiv> Disk_ComputeLatency d now new writing"
  shows "500 \<le> L" "L < 32000"
    "writing \<or> new div 32 \<noteq> lastSector d div 32 \<Longrightarrow>
       (now + L) mod 500 = 0 \<and> ((now + L) div 500 - 1) mod 32 = new mod 32"
proof -
  obtain seek rot where sr: "Disk_TimeToSeek d now new = (seek, rot)" by fastforce
  note t = TimeToSeek_ok[OF assms(1-5) sr]
  define q where "q = (now + seek + rot) div 500"
  have q: "now + seek + rot = q * 500" using t(6) by (simp add: q_def minus_mod_eq_div_mult[symmetric])
  have "0 \<le> now + seek + rot" using assms(1) t(2,4) by linarith
  then have q0: "0 \<le> q" by (simp add: q_def pos_imp_zdiv_nonneg_iff)
  define md where "md = (new - q) mod 32"
  have md: "0 \<le> md" "md \<le> 31" using pos_mod_bound[of 32 "new - q"] by (auto simp: md_def)
  have full: "seek + (rot + Disk_ModuloDiff new ((now + seek + rot) sdiv RotationTime) * RotationTime) + RotationTime
      = seek + rot + md * 500 + 500"
    using q q0 assms(2) by (simp add: disk_consts sdiv_nonneg ModuloDiff_eq md_def)
  have L: "L = 500 \<or> L = seek + rot + md * 500 + 500"
    unfolding L_def Disk_ComputeLatency_def sr Let_def prod.case full by (auto simp: disk_consts)
  then show "500 \<le> L" "L < 32000" using t md by auto
  assume "writing \<or> new div 32 \<noteq> lastSector d div 32"
  then have "writing \<or> seek \<noteq> 0" using t(1) by auto
  then have "L = seek + rot + md * 500 + 500"
    unfolding L_def Disk_ComputeLatency_def sr Let_def prod.case full by (auto simp: disk_consts)
  then have n: "now + L = (q + md + 1) * 500" using q by simp
  have "(q + md) mod 32 = new mod 32" by (simp add: md_def mod_add_right_eq)
  then show "(now + L) mod 500 = 0 \<and> ((now + L) div 500 - 1) mod 32 = new mod 32" unfolding n by simp
qed

text \<open>Some rotation from \<open>b\<close> on and before \<open>q\<close> passes over the position of \<open>new\<close>.\<close>

lemma slot_between:
  fixes b q new :: int
  shows "(new - b) mod 32 < q - b \<longleftrightarrow> (\<exists>j. j mod 32 = new mod 32 \<and> b \<le> j \<and> j < q)"
proof
  assume "(new - b) mod 32 < q - b"
  moreover have "(b + (new - b) mod 32) mod 32 = new mod 32" by (simp add: mod_add_right_eq)
  ultimately show "\<exists>j. j mod 32 = new mod 32 \<and> b \<le> j \<and> j < q"
    by (intro exI[of _ "b + (new - b) mod 32"]) auto
next
  assume "\<exists>j. j mod 32 = new mod 32 \<and> b \<le> j \<and> j < q"
  then obtain j where j: "j mod 32 = new mod 32" "b \<le> j" "j < q" by blast
  have "(new - b) mod 32 = (j - b) mod 32" using j(1) by (metis mod_diff_left_eq)
  also have "\<dots> \<le> j - b" using j(2) by (simp add: zmod_le_nonneg_dividend)
  finally show "(new - b) mod 32 < q - b" using j(3) by simp
qed

lemma slot_least:
  fixes q new :: int
  shows "(q + (new - q) mod 32) mod 32 = new mod 32" "i mod 32 = new mod 32 \<Longrightarrow> q \<le> i \<Longrightarrow> q + (new - q) mod 32 \<le> i"
proof -
  show "(q + (new - q) mod 32) mod 32 = new mod 32" by (simp add: mod_add_right_eq)
  assume i: "i mod 32 = new mod 32" "q \<le> i"
  then have "(new - q) mod 32 < i + 1 - q" by (subst slot_between) (auto intro: exI[of _ i])
  then show "q + (new - q) mod 32 \<le> i" by simp
qed

lemma ComputeLatency_cases:
  fixes d :: Disk and now new :: int and writing :: bool
  assumes "0 \<le> now" "0 \<le> new" "new < 1024" "0 \<le> lastSector d" "lastSector d < 1024" "0 \<le> bufferInit d" "500 dvd bufferInit d"
  defines "L \<equiv> Disk_ComputeLatency d now new writing" and "seek \<equiv> \<bar>new div 32 - lastSector d div 32\<bar> * 500"
  shows "if \<not> writing \<and> seek = 0 \<and> (\<exists>j. j mod 32 = new mod 32 \<and> bufferInit d \<le> j * 500 \<and> j * 500 < now)
    then L = 500
    else \<exists>j. now + L = (j + 1) * 500 \<and> j mod 32 = new mod 32 \<and> now + seek \<le> j * 500
      \<and> (\<forall>i. i mod 32 = new mod 32 \<and> now + seek \<le> i * 500 \<longrightarrow> j \<le> i)"
proof -
  obtain rot where sr: "Disk_TimeToSeek d now new = (seek, rot)"
    using TimeToSeek_ok(1)[OF assms(1-5)] unfolding seek_def by (metis surj_pair)
  note t = TimeToSeek_ok[OF assms(1-5) sr]
  obtain q where q: "now + seek + rot = q * 500" using t(6) by (metis mod_0_imp_dvd dvdE mult.commute)
  obtain b where b: "bufferInit d = b * 500" "0 \<le> b" using assms(6,7) by (metis dvdE mult.commute zero_le_mult_iff not_numeral_le_zero)
  have q0: "0 \<le> q" using q assms(1) t(2,4) by linarith
  have after: "now + seek \<le> i * 500 \<longleftrightarrow> q \<le> i" for i using q t(4,5) by linarith
  have sd: "(q * 500 - b * 500) sdiv 500 > (new - b) mod 32 \<longleftrightarrow> (new - b) mod 32 < q - b"
  proof (cases "b \<le> q")
    case True
    then have "(q * 500 - b * 500) sdiv 500 = q - b" by (subst sdiv_nonneg) auto
    then show ?thesis by simp
  next
    case False
    then have "(q * 500 - b * 500) sdiv 500 \<le> 0" by (simp add: signed_divide_int_def sgn_if)
    then show ?thesis using False pos_mod_sign[of 32 "new - b"] by linarith
  qed
  let ?j = "q + (new - q) mod 32"
  have "L = (if \<not> writing \<and> seek = 0 \<and> (new - b) mod 32 < q - b then 500 else seek + (rot + (new - q) mod 32 * 500) + 500)"
    using q0 b assms(2) sd unfolding L_def Disk_ComputeLatency_def sr Let_def prod.case q
    by (simp add: disk_consts sdiv_nonneg ModuloDiff_eq)
  with q have L: "L = (if \<not> writing \<and> seek = 0 \<and> (new - b) mod 32 < q - b then 500 else (?j + 1) * 500 - now)"
    by simp
  have buf: "(new - b) mod 32 < q - b \<longleftrightarrow> (\<exists>j. j mod 32 = new mod 32 \<and> bufferInit d \<le> j * 500 \<and> j * 500 < now)" if "seek = 0"
  proof -
    have "j < q \<longleftrightarrow> j * 500 < now" for j using after[of j] that by linarith
    then show ?thesis unfolding slot_between b(1) by simp
  qed
  show ?thesis
  proof (cases "\<not> writing \<and> seek = 0 \<and> (new - b) mod 32 < q - b")
    case True
    then show ?thesis using L buf by simp
  next
    case False
    then have "now + L = (?j + 1) * 500" using L by auto
    then have "\<exists>j. now + L = (j + 1) * 500 \<and> j mod 32 = new mod 32 \<and> now + seek \<le> j * 500
      \<and> (\<forall>i. i mod 32 = new mod 32 \<and> now + seek \<le> i * 500 \<longrightarrow> j \<le> i)"
      unfolding after using slot_least(1)[of q new] slot_least(2)[of _ new q] by (intro exI[of _ ?j]) simp
    then show ?thesis using False buf by argo
  qed
qed

lemma UpdateLast_buffer:
  assumes "0 \<le> now" "0 \<le> new" "new < 1024" "0 \<le> lastSector d" "lastSector d < 1024" "0 \<le> bufferInit d" "500 dvd bufferInit d"
  shows "0 \<le> bufferInit (Disk_UpdateLast d now new) \<and> 500 dvd bufferInit (Disk_UpdateLast d now new)"
proof -
  obtain seek rot where sr: "Disk_TimeToSeek d now new = (seek, rot)" by fastforce
  note t = TimeToSeek_ok[OF assms(1-5) sr]
  have "0 \<le> now + seek + rot" "500 dvd now + seek + rot" using t(2,4,6) assms(1) by (auto intro: mod_0_imp_dvd)
  then show ?thesis using assms(6,7) by (auto simp add: Disk_UpdateLast_def sr)
qed

subsection \<open>The disk image\<close>

definition disk_sector :: "Disk \<Rightarrow> int \<Rightarrow> byte list" where
  "disk_sector d i = take 128 (drop (nat (128 * i + 4)) (dk_file d))"

definition Disk_ok :: "Disk \<Rightarrow> bool" where
  "Disk_ok d \<longleftrightarrow> int (length (dk_file d)) = DiskSize \<and> 0 \<le> lastSector d \<and> lastSector d < NumSectors"

lemma DiskSize_eq: "DiskSize = 131076"
  by (simp add: disk_consts)

lemma length_disk_sector: "Disk_ok d \<Longrightarrow> 0 \<le> i \<Longrightarrow> i < 1024 \<Longrightarrow> length (disk_sector d i) = 128"
  by (simp add: disk_sector_def Disk_ok_def DiskSize_eq)

lemma unix_Read_sector:
  assumes "Disk_ok d" "0 \<le> i" "i < 1024"
  shows "unix_Read (dk_file d) (SectorSize * i + MagicSize) SectorSize = Inr (disk_sector d i)"
  using assms length_disk_sector[OF assms]
  by (simp add: unix_Read_def disk_consts disk_sector_def Let_def)

lemma drop_overwrite_other:
  assumes "p + length ys \<le> length xs" "q + n \<le> p \<or> p + length ys \<le> q"
  shows "take n (drop q (overwrite xs p ys)) = take n (drop q xs)"
  using assms
  by (intro nth_equalityI) (auto simp: nth_overwrite)

lemma unix_WriteFile_sector:
  assumes "Disk_ok d" "0 \<le> i" "i < 1024" "length data = 128"
    "unix_WriteFile (dk_file d) (SectorSize * i + MagicSize) data = Inr f"
  shows "Disk_ok (d\<lparr>dk_file := f\<rparr>)" "disk_sector (d\<lparr>dk_file := f\<rparr>) i = data"
    "0 \<le> j \<Longrightarrow> j \<noteq> i \<Longrightarrow> disk_sector (d\<lparr>dk_file := f\<rparr>) j = disk_sector d j"
proof -
  let ?p = "nat (128 * i + 4)"
  have len: "?p + length data \<le> length (dk_file d)" using assms by (simp add: Disk_ok_def DiskSize_eq)
  have f: "f = overwrite (dk_file d) ?p data"
    using assms len by (simp add: unix_WriteFile_def disk_consts)
  show "Disk_ok (d\<lparr>dk_file := f\<rparr>)" using assms len by (simp add: f Disk_ok_def)
  show "disk_sector (d\<lparr>dk_file := f\<rparr>) i = data"
    using take_drop_overwrite[OF len] assms(4) by (simp add: f disk_sector_def)
  assume "0 \<le> j" "j \<noteq> i"
  then have "nat (128 * j + 4) + 128 \<le> ?p \<or> ?p + length data \<le> nat (128 * j + 4)"
    using assms(2,4) by linarith
  from drop_overwrite_other[OF len this] show "disk_sector (d\<lparr>dk_file := f\<rparr>) j = disk_sector d j"
    by (simp add: f disk_sector_def)
qed

lemma unix_WriteFile_total: "0 \<le> p \<Longrightarrow> \<exists>f'. unix_WriteFile f p data = Inr f'"
  by (simp add: unix_WriteFile_def)

lemma Disk_UpdateLast_simps [simp]:
  "dk_file (Disk_UpdateLast d now i) = dk_file d" "dk_active (Disk_UpdateLast d now i) = dk_active d"
  "lastSector (Disk_UpdateLast d now i) = i" "disk_sector (Disk_UpdateLast d now i) = disk_sector d"
  by (auto simp: Disk_UpdateLast_def Let_def disk_sector_def fun_eq_iff split: prod.splits)

subsection \<open>Waiting for the disk\<close>

text \<open>Nothing is pending, no handler runs, and interrupts are at the given level.\<close>

definition quiet :: "IntStatus \<Rightarrow> DiskHw \<Rightarrow> bool" where
  "quiet lv s \<longleftrightarrow> pending (intr s) = [] \<and> level (intr s) = lv \<and> status (intr s) = SystemMode
     \<and> \<not> inHandler (intr s) \<and> \<not> yieldOnReturn (intr s) \<and> 0 \<le> totalTicks (stats s)"

lemma SetLevel_off:
  assumes "\<not> inHandler (intr s)"
  shows "Interrupt_SetLevel cb IntOff s = Some (Inr (level (intr s), Interrupt_ChangeLevel IntOff s))"
  by (simp add: Interrupt_SetLevel_def Let_def)

lemma CheckIfDue_loop_empty:
  "pending (intr s) = [] \<Longrightarrow> level (intr s) = IntOff \<Longrightarrow> CheckIfDue_loop cb s = Some (Inr s)"
  by (subst CheckIfDue_loop.simps) (simp add: Interrupt_CheckIfDue_def)

lemma SetLevel_on:
  assumes "quiet IntOff s"
  shows "\<exists>s'. Interrupt_SetLevel cb IntOn s = Some (Inr (IntOff, s')) \<and> quiet IntOn s' \<and> kern s' = kern s"
  using assms
  by (simp add: Interrupt_SetLevel_def Let_def quiet_def Interrupt_OneTick_def CheckIfDue_loop_empty
      Interrupt_ChangeLevel_def upd_intr_def advance_tick_def SystemTick_def)

lemma sem_V_ok:
  assumes "quiet IntOn s"
  shows "\<exists>s'. sem_V upd s = Inr s' \<and> quiet IntOn s' \<and> kern s' = upd (\<lambda>v. v + 1) (kern s)"
proof -
  let ?s1 = "Interrupt_ChangeLevel IntOff s"
  have "quiet IntOff (?s1\<lparr>kern := upd (\<lambda>v. v + 1) (kern ?s1)\<rparr>)" "kern ?s1 = kern s"
    using assms by (auto simp: quiet_def Interrupt_ChangeLevel_def upd_intr_def)
  with SetLevel_on[of "?s1\<lparr>kern := upd (\<lambda>v. v + 1) (kern ?s1)\<rparr>" disk_callbacks] assms show ?thesis
    by (auto simp: sem_V_def SetLevel_off quiet_def retR_def)
qed

lemma sem_P_ok:
  assumes "quiet IntOn s" "get (kern s) \<noteq> 0"
  shows "\<exists>s'. sem_P get upd s = Inr s' \<and> quiet IntOn s' \<and> kern s' = upd (\<lambda>v. v - 1) (kern s)"
proof -
  let ?s1 = "Interrupt_ChangeLevel IntOff s"
  have q: "quiet IntOff (?s1\<lparr>kern := upd (\<lambda>v. v - 1) (kern ?s1)\<rparr>)" "kern ?s1 = kern s"
    using assms by (auto simp: quiet_def Interrupt_ChangeLevel_def upd_intr_def)
  have "P_loop get ?s1 = Some (Inr ?s1)" using assms q(2) by (subst P_loop.simps) simp
  with SetLevel_on[OF q(1), of disk_callbacks] assms q(2) show ?thesis
    by (auto simp: sem_P_def SetLevel_off quiet_def retR_def)
qed

lemma Idle_disk:
  assumes "pending (intr s) = [(w, p)]" "pi_type p = DiskInt" "level (intr s) = IntOff"
    "0 \<le> totalTicks (stats s)"
  shows "\<exists>s'. Interrupt_Idle disk_callbacks s = Some (Inr s') \<and> quiet IntOff s'
    \<and> kern s' = SynchDisk_RequestDone ((kern s)\<lparr>sd_disk := Disk_HandleInterrupt (sd_disk (kern s))\<rparr>)"
  using assms
  by (auto simp: Interrupt_Idle_def Interrupt_CheckIfDue_def Interrupt_setStatus_def upd_intr_def fire_def
      disk_callbacks_def DiskDone_def CheckIfDue_loop_empty quiet_def Let_def)

text \<open>The waiting thread gets exactly the post of the handler.\<close>

lemma sem_P_disk:
  assumes "quiet IntOn (upd_intr (\<lambda>i. i\<lparr>pending := []\<rparr>) s)" "pending (intr s) = [(w, p)]" "pi_type p = DiskInt"
    "sd_semaphore (kern s) = 0"
  shows "\<exists>s'. sem_P sd_semaphore sd_semaphore_update s = Inr s' \<and> quiet IntOn s'
    \<and> kern s' = (kern s)\<lparr>sd_disk := Disk_HandleInterrupt (sd_disk (kern s))\<rparr>"
proof -
  let ?s1 = "Interrupt_ChangeLevel IntOff s"
  have s1: "pending (intr ?s1) = [(w, p)]" "level (intr ?s1) = IntOff" "0 \<le> totalTicks (stats ?s1)" "kern ?s1 = kern s"
      "level (intr s) = IntOn" "\<not> inHandler (intr s)"
    using assms by (auto simp: quiet_def Interrupt_ChangeLevel_def upd_intr_def)
  from Idle_disk[OF s1(1) assms(3) s1(2,3)] obtain s2 where s2: "Interrupt_Idle disk_callbacks ?s1 = Some (Inr s2)"
      "quiet IntOff s2"
      "kern s2 = SynchDisk_RequestDone ((kern s)\<lparr>sd_disk := Disk_HandleInterrupt (sd_disk (kern s))\<rparr>)"
    by (auto simp: s1(4))
  have "sd_semaphore (kern s2) = 1" using s2(3) assms(4) by (simp add: SynchDisk_RequestDone_def)
  then have "P_loop sd_semaphore s2 = Some (Inr s2)" by (subst P_loop.simps) simp
  then have pl: "P_loop sd_semaphore ?s1 = Some (Inr s2)"
    using s2(1) s1(4) assms(4) by (subst P_loop.simps) simp
  let ?s3 = "s2\<lparr>kern := sd_semaphore_update (\<lambda>v. v - 1) (kern s2)\<rparr>"
  have "quiet IntOff ?s3" using s2(2) by (simp add: quiet_def)
  from SetLevel_on[OF this, of disk_callbacks] obtain s4 where
    s4: "Interrupt_SetLevel disk_callbacks IntOn ?s3 = Some (Inr (IntOff, s4))" "quiet IntOn s4" "kern s4 = kern ?s3"
    by blast
  have "kern ?s3 = (kern s)\<lparr>sd_disk := Disk_HandleInterrupt (sd_disk (kern s))\<rparr>"
    using s2(3) by (simp add: SynchDisk_RequestDone_def)
  with s4 pl s1 show ?thesis by (auto simp: sem_P_def SetLevel_off retR_def)
qed

subsection \<open>Synchronous access\<close>

definition SD_ok :: "DiskHw \<Rightarrow> bool" where
  "SD_ok s \<longleftrightarrow> quiet IntOn s \<and> sd_semaphore (kern s) = 0 \<and> sd_lock (kern s) = 1 \<and> \<not> sd_isHeld (kern s)
     \<and> Disk_ok (sd_disk (kern s)) \<and> \<not> dk_active (sd_disk (kern s))"

definition sectors :: "DiskHw \<Rightarrow> int \<Rightarrow> byte list" where
  "sectors s = disk_sector (sd_disk (kern s))"

lemma sd_Acquire_ok:
  assumes "quiet IntOn s" "sd_lock (kern s) = 1"
  shows "\<exists>s'. sd_Acquire s = Inr s' \<and> quiet IntOn s' \<and> kern s' = (kern s)\<lparr>sd_lock := 0, sd_isHeld := True\<rparr>"
proof -
  have "sd_lock (kern s) \<noteq> 0" using assms(2) by simp
  from sem_P_ok[OF assms(1), of sd_lock, OF this, where upd = sd_lock_update] assms(2) show ?thesis
    by (auto simp: sd_Acquire_def quiet_def)
qed

lemma sd_Release_ok:
  assumes "quiet IntOn s"
  shows "\<exists>s'. sd_Release s = Inr s' \<and> quiet IntOn s'
    \<and> kern s' = (kern s)\<lparr>sd_lock := sd_lock (kern s) + 1, sd_isHeld := False\<rparr>"
  using sem_V_ok[OF assms, of sd_lock_update] by (auto simp: sd_Release_def quiet_def)

text \<open>The common tail of both operations: the request is scheduled, the thread waits and releases.\<close>

lemma wait_and_release:
  assumes "quiet IntOn s" "0 < t" "sd_semaphore (kern s) = 0" "sd_lock (kern s) = 0"
    "Interrupt_Schedule () t DiskInt (s\<lparr>stats := st\<rparr>) = Inr s2" "totalTicks st = totalTicks (stats s)"
  shows "\<exists>s3 s4. sem_P sd_semaphore sd_semaphore_update (s2\<lparr>kern := (kern s2)\<lparr>sd_disk := d\<rparr>\<rparr>) = Inr s3
    \<and> sd_Release s3 = Inr s4 \<and> quiet IntOn s4
    \<and> kern s4 = (kern s)\<lparr>sd_disk := Disk_HandleInterrupt d, sd_lock := 1, sd_isHeld := False\<rparr>"
proof -
  let ?s = "s2\<lparr>kern := (kern s2)\<lparr>sd_disk := d\<rparr>\<rparr>"
  have "\<exists>w p. pending (intr ?s) = [(w, p)] \<and> pi_type p = DiskInt" "kern s2 = kern s"
      "quiet IntOn (upd_intr (\<lambda>i. i\<lparr>pending := []\<rparr>) ?s)"
    using assms by (auto simp: Interrupt_Schedule_def Let_def quiet_def upd_intr_def ins_key_def)
  then obtain w p where "pending (intr ?s) = [(w, p)]" "pi_type p = DiskInt"
    "quiet IntOn (upd_intr (\<lambda>i. i\<lparr>pending := []\<rparr>) ?s)" and k: "kern s2 = kern s" by blast
  with sem_P_disk[of ?s w p] assms(3) obtain s3 where
    s3: "sem_P sd_semaphore sd_semaphore_update ?s = Inr s3" "quiet IntOn s3"
      "kern s3 = (kern s)\<lparr>sd_disk := Disk_HandleInterrupt d\<rparr>" by auto
  from sd_Release_ok[OF s3(2)] s3 assms(4) show ?thesis by auto
qed

lemma SynchDisk_ReadSector_ok:
  assumes "SD_ok s" "0 \<le> i" "i < NumSectors"
  shows "\<exists>s'. SynchDisk_ReadSector i s = Inr (sectors s i, s') \<and> SD_ok s' \<and> sectors s' = sectors s"
proof -
  let ?d = "sd_disk (kern s)"
  have ok: "quiet IntOn s" "Disk_ok ?d" "\<not> dk_active ?d" "sd_semaphore (kern s) = 0" "sd_lock (kern s) = 1"
    using assms by (simp_all add: SD_ok_def)
  obtain s1 where s1: "sd_Acquire s = Inr s1" "quiet IntOn s1" "kern s1 = (kern s)\<lparr>sd_lock := 0, sd_isHeld := True\<rparr>"
    using sd_Acquire_ok[OF ok(1,5)] by blast
  define now where "now = totalTicks (stats s1)"
  define t where "t = Disk_ComputeLatency ?d now i False"
  let ?st = "(stats s1)\<lparr>numDiskReads := numDiskReads (stats s1) + 1\<rparr>"
  have i: "i < 1024" using assms(3) by (simp add: disk_consts)
  have t: "0 < t" using ComputeLatency_ok(1)[of now i ?d False] s1(2) ok(2) assms(2) i
    by (simp add: t_def now_def quiet_def Disk_ok_def disk_consts)
  then obtain s2 where s2: "Interrupt_Schedule () t DiskInt (s1\<lparr>stats := ?st\<rparr>) = Inr s2"
    by (simp add: Interrupt_Schedule_def Let_def)
  let ?d' = "Disk_UpdateLast (?d\<lparr>dk_active := True\<rparr>) now i"
  have rq: "Disk_ReadRequest () i (sd_disk (kern s1)) s1 = Inr (disk_sector ?d i, ?d', s2)"
    using s1(3) ok assms(2,3) s2 unix_Read_sector[OF ok(2) assms(2) i]
    by (simp add: Disk_ReadRequest_def Let_def flip: now_def t_def)
  from wait_and_release[OF s1(2) t _ _ s2, of ?d'] s1(3) ok(4) obtain s3 s4 where
    s4: "sem_P sd_semaphore sd_semaphore_update (s2\<lparr>kern := (kern s2)\<lparr>sd_disk := ?d'\<rparr>\<rparr>) = Inr s3"
      "sd_Release s3 = Inr s4" "quiet IntOn s4"
      "kern s4 = (kern s)\<lparr>sd_disk := Disk_HandleInterrupt ?d', sd_lock := 1, sd_isHeld := False\<rparr>"
    by (auto simp: ok)
  have "SynchDisk_ReadSector i s = Inr (sectors s i, s4)"
    using s1(1) rq s4 by (simp add: SynchDisk_ReadSector_def sectors_def)
  moreover have "SD_ok s4" "sectors s4 = sectors s"
    using s4(3,4) ok assms(2,3)
    by (auto simp: SD_ok_def Disk_HandleInterrupt_def Disk_ok_def sectors_def disk_sector_def fun_eq_iff)
  ultimately show ?thesis by blast
qed

lemma SynchDisk_WriteSector_ok:
  assumes "SD_ok s" "0 \<le> i" "i < NumSectors" "length data = 128"
  shows "\<exists>s'. SynchDisk_WriteSector i data s = Inr s' \<and> SD_ok s'
    \<and> (\<forall>j \<ge> 0. sectors s' j = (if j = i then data else sectors s j))"
proof -
  let ?d = "sd_disk (kern s)"
  have ok: "quiet IntOn s" "Disk_ok ?d" "\<not> dk_active ?d" "sd_semaphore (kern s) = 0" "sd_lock (kern s) = 1"
    using assms by (simp_all add: SD_ok_def)
  obtain s1 where s1: "sd_Acquire s = Inr s1" "quiet IntOn s1" "kern s1 = (kern s)\<lparr>sd_lock := 0, sd_isHeld := True\<rparr>"
    using sd_Acquire_ok[OF ok(1,5)] by blast
  define now where "now = totalTicks (stats s1)"
  define t where "t = Disk_ComputeLatency ?d now i True"
  let ?st = "(stats s1)\<lparr>numDiskWrites := numDiskWrites (stats s1) + 1\<rparr>"
  have i: "i < 1024" using assms(3) by (simp add: disk_consts)
  have t: "0 < t" using ComputeLatency_ok(1)[of now i ?d True] s1(2) ok(2) assms(2) i
    by (simp add: t_def now_def quiet_def Disk_ok_def disk_consts)
  then obtain s2 where s2: "Interrupt_Schedule () t DiskInt (s1\<lparr>stats := ?st\<rparr>) = Inr s2"
    by (simp add: Interrupt_Schedule_def Let_def)
  obtain f where f: "unix_WriteFile (dk_file ?d) (SectorSize * i + MagicSize) data = Inr f"
    using unix_WriteFile_total[of "SectorSize * i + MagicSize"] assms(2) by (auto simp: disk_consts)
  note w = unix_WriteFile_sector[OF ok(2) assms(2) i assms(4) f]
  let ?d' = "Disk_UpdateLast (?d\<lparr>dk_file := f, dk_active := True\<rparr>) now i"
  have rq: "Disk_WriteRequest () i data (sd_disk (kern s1)) s1 = Inr (?d', s2)"
    using s1(3) ok assms(2,3) s2 f by (simp add: Disk_WriteRequest_def Let_def flip: now_def t_def)
  from wait_and_release[OF s1(2) t _ _ s2, of ?d'] s1(3) ok(4) obtain s3 s4 where
    s4: "sem_P sd_semaphore sd_semaphore_update (s2\<lparr>kern := (kern s2)\<lparr>sd_disk := ?d'\<rparr>\<rparr>) = Inr s3"
      "sd_Release s3 = Inr s4" "quiet IntOn s4"
      "kern s4 = (kern s)\<lparr>sd_disk := Disk_HandleInterrupt ?d', sd_lock := 1, sd_isHeld := False\<rparr>"
    by (auto simp: ok)
  have "SynchDisk_WriteSector i data s = Inr s4"
    using s1(1) rq s4 by (simp add: SynchDisk_WriteSector_def)
  moreover have "sectors s4 = disk_sector (?d\<lparr>dk_file := f\<rparr>)"
    using s4(4) by (simp add: sectors_def Disk_HandleInterrupt_def disk_sector_def fun_eq_iff)
  moreover have "SD_ok s4"
    using s4(3,4) ok assms(2,3) w(1) by (auto simp: SD_ok_def Disk_HandleInterrupt_def Disk_ok_def)
  ultimately show ?thesis using w(2,3) by (auto simp: sectors_def)
qed

lemma length_sectors: "SD_ok s \<Longrightarrow> 0 \<le> i \<Longrightarrow> i < NumSectors \<Longrightarrow> length (sectors s i) = 128"
  by (simp add: sectors_def SD_ok_def length_disk_sector disk_consts)

subsection \<open>The interface to the file system\<close>

text \<open>
  What the file system relies on: sectors are read and written as wholes, a write changes
  its own sector only. The two loops below run over any such device.
\<close>

fun read_sectors :: "(int \<Rightarrow> 's \<Rightarrow> (byte list \<times> 's) res) \<Rightarrow> int list \<Rightarrow> 's \<Rightarrow> (byte list \<times> 's) res" where
  "read_sectors rd [] s = Inr ([], s)"
| "read_sectors rd (i # is) s =
     bindR (rd i s) (\<lambda>(data, s'). bindR (read_sectors rd is s') (\<lambda>(rest, s''). Inr (data @ rest, s'')))"

fun write_sectors :: "(int \<Rightarrow> byte list \<Rightarrow> 's \<Rightarrow> 's res) \<Rightarrow> int list \<Rightarrow> byte list \<Rightarrow> 's \<Rightarrow> 's res" where
  "write_sectors wr [] buf s = Inr s"
| "write_sectors wr (i # is) buf s =
     bindR (wr i (take 128 buf) s) (write_sectors wr is (drop 128 buf))"

locale sector_device =
  fixes rd :: "int \<Rightarrow> 's \<Rightarrow> (byte list \<times> 's) res"
    and wr :: "int \<Rightarrow> byte list \<Rightarrow> 's \<Rightarrow> 's res"
    and inv :: "'s \<Rightarrow> bool"
    and sec :: "'s \<Rightarrow> int \<Rightarrow> byte list"
  assumes rd_ok: "inv s \<Longrightarrow> 0 \<le> i \<Longrightarrow> i < NumSectors \<Longrightarrow>
      \<exists>s'. rd i s = Inr (sec s i, s') \<and> inv s' \<and> sec s' = sec s"
    and wr_ok: "inv s \<Longrightarrow> 0 \<le> i \<Longrightarrow> i < NumSectors \<Longrightarrow> length data = 128 \<Longrightarrow>
      \<exists>s'. wr i data s = Inr s' \<and> inv s' \<and> (\<forall>j \<ge> 0. sec s' j = (if j = i then data else sec s j))"
    and sec_length: "inv s \<Longrightarrow> 0 \<le> i \<Longrightarrow> i < NumSectors \<Longrightarrow> length (sec s i) = 128"
begin

lemma read_sectors_ok:
  assumes "inv s" "\<forall>i \<in> set is. 0 \<le> i \<and> i < NumSectors"
  shows "\<exists>s'. read_sectors rd is s = Inr (concat (map (sec s) is), s') \<and> inv s' \<and> sec s' = sec s"
  using assms
proof (induction "is" arbitrary: s)
  case (Cons i "is")
  from rd_ok[OF Cons.prems(1), of i] Cons.prems(2) obtain s1 where
    s1: "rd i s = Inr (sec s i, s1)" "inv s1" "sec s1 = sec s" by auto
  from Cons.IH[OF s1(2)] Cons.prems(2) s1(3) obtain s2 where
    "read_sectors rd is s1 = Inr (concat (map (sec s) is), s2)" "inv s2" "sec s2 = sec s" by auto
  with s1 show ?case by simp
qed simp

lemma write_sectors_ok:
  assumes "inv s" "\<forall>i \<in> set is. 0 \<le> i \<and> i < NumSectors" "distinct is" "length buf = 128 * length is"
  shows "\<exists>s'. write_sectors wr is buf s = Inr s' \<and> inv s' \<and> concat (map (sec s') is) = buf
    \<and> (\<forall>j \<ge> 0. j \<notin> set is \<longrightarrow> sec s' j = sec s j)"
  using assms
proof (induction "is" arbitrary: s buf)
  case (Cons i "is")
  have i: "0 \<le> i" "i < NumSectors" and len: "length (take 128 buf) = 128" "length (drop 128 buf) = 128 * length is"
    using Cons.prems by auto
  from wr_ok[OF Cons.prems(1) i len(1)] obtain s1 where
    s1: "wr i (take 128 buf) s = Inr s1" "inv s1" "\<forall>j \<ge> 0. sec s1 j = (if j = i then take 128 buf else sec s j)"
    by auto
  from Cons.IH[OF s1(2) _ _ len(2)] Cons.prems(2,3) obtain s2 where
    s2: "write_sectors wr is (drop 128 buf) s1 = Inr s2" "inv s2" "concat (map (sec s2) is) = drop 128 buf"
      "\<forall>j \<ge> 0. j \<notin> set is \<longrightarrow> sec s2 j = sec s1 j"
    by auto
  have "sec s2 i = take 128 buf" using s2(4) s1(3) i(1) Cons.prems(3) by simp
  then show ?case using s1 s2 by (auto simp: append_take_drop_id)
qed simp

end

interpretation synch_disk: sector_device SynchDisk_ReadSector SynchDisk_WriteSector SD_ok sectors
  using SynchDisk_ReadSector_ok SynchDisk_WriteSector_ok length_sectors by unfold_locales auto

subsection \<open>Properties\<close>

text \<open>C19: Disk latency, exactly. The disk passes one sector position per rotation time: during the
  rotation \<open>j\<close>, which begins at time \<open>j * RotationTime\<close>, the position \<open>j mod SectorsPerTrack\<close> of every track
  is under the head. A read on the current track whose position began to pass since the track
  buffer was started takes one rotation time. Every other request (every write, and every
  request that seeks) is completed at the end of the first rotation over its sector that
  begins after the seek. In all cases the latency lies between one and 64 rotation times, and the start
  of the track buffer, which \<open>UpdateLast\<close> sets, stays at the beginning of a rotation.\<close>

theorem ComputeLatency_exact:
  fixes d :: Disk and now new :: int and writing :: bool
  assumes "0 \<le> now" "0 \<le> new" "new < NumSectors" "Disk_ok d" "0 \<le> bufferInit d" "RotationTime dvd bufferInit d"
  defines "L \<equiv> Disk_ComputeLatency d now new writing"
    and "over \<equiv> (\<lambda>j. j mod SectorsPerTrack = new mod SectorsPerTrack)"
    and "seek \<equiv> \<bar>new div SectorsPerTrack - lastSector d div SectorsPerTrack\<bar> * SeekTime"
  shows "RotationTime \<le> L \<and> L < 64 * RotationTime
    \<and> (if \<not> writing \<and> seek = 0 \<and> (\<exists>j. over j \<and> bufferInit d \<le> j * RotationTime \<and> j * RotationTime < now)
       then L = RotationTime
       else \<exists>j. now + L = (j + 1) * RotationTime \<and> over j \<and> now + seek \<le> j * RotationTime
          \<and> (\<forall>i. over i \<and> now + seek \<le> i * RotationTime \<longrightarrow> j \<le> i))
    \<and> 0 \<le> bufferInit (Disk_UpdateLast d now new) \<and> RotationTime dvd bufferInit (Disk_UpdateLast d now new)"
proof -
  have a: "0 \<le> now" "0 \<le> new" "new < 1024" "0 \<le> lastSector d" "lastSector d < 1024" "0 \<le> bufferInit d" "500 dvd bufferInit d"
    using assms(1-6) by (auto simp: Disk_ok_def disk_consts)
  have c: "RotationTime = 500" "SeekTime = 500" "SectorsPerTrack = 32" by (simp_all add: disk_consts)
  show ?thesis unfolding L_def over_def seek_def c
    by (intro conjI ComputeLatency_cases[OF a] UpdateLast_buffer[OF a, THEN conjunct1] UpdateLast_buffer[OF a, THEN conjunct2])
      (use ComputeLatency_ok[OF a(1-5), of writing] in simp_all)
qed

definition demo_disk :: Disk where
  "demo_disk = \<lparr>dk_file = replicate 131076 0, dk_active = False, lastSector = 40, bufferInit = 0\<rparr>"

lemma demo_disk_ok: "Disk_ok demo_disk"
  by (simp add: Disk_ok_def demo_disk_def disk_consts)

theorem ComputeLatency_exact_witness:
  "Disk_ComputeLatency demo_disk 6234 40 False = RotationTime
   \<and> (\<exists>j. 6234 + Disk_ComputeLatency demo_disk 6234 40 True = (j + 1) * RotationTime \<and> j mod SectorsPerTrack = 8)"
proof (rule conjI)
  have d: "0 \<le> bufferInit demo_disk" "RotationTime dvd bufferInit demo_disk" "40 < NumSectors"
    by (simp_all add: demo_disk_def disk_consts)
  have t: "\<bar>40 div SectorsPerTrack - lastSector demo_disk div SectorsPerTrack\<bar> * SeekTime = 0" "40 mod SectorsPerTrack = 8"
    by (simp_all add: demo_disk_def disk_consts)
  note e = ComputeLatency_exact[OF _ _ d(3) demo_disk_ok d(1,2), of 6234, unfolded t]
  have "\<exists>j. j mod SectorsPerTrack = 8 \<and> bufferInit demo_disk \<le> j * RotationTime \<and> j * RotationTime < 6234"
    by (rule exI[of _ 8]) (simp add: demo_disk_def disk_consts)
  then show "Disk_ComputeLatency demo_disk 6234 40 False = RotationTime" using e[of False] by simp
  show "\<exists>j. 6234 + Disk_ComputeLatency demo_disk 6234 40 True = (j + 1) * RotationTime \<and> j mod SectorsPerTrack = 8"
    using e[of True] by auto
qed

text \<open>C18: The synchronous disk. On an idle disk, \<open>ReadSector\<close> and \<open>WriteSector\<close> of any existing
  sector return (the disk interrupt wakes the waiting caller), leave the disk idle with its
  lock free, and implement an array of 1024 sectors: a read returns the stored sector and
  changes none, a write replaces exactly its sector. A sector number out of range fails the
  \<open>ASSERT\<close> of the request.\<close>

theorem SynchDisk_is_sector_array:
  assumes "SD_ok s" "length data = 128"
  shows "if 0 \<le> i \<and> i < NumSectors
    then (\<exists>s'. SynchDisk_ReadSector i s = Inr (sectors s i, s') \<and> SD_ok s' \<and> sectors s' = sectors s)
      \<and> (\<exists>s'. SynchDisk_WriteSector i data s = Inr s' \<and> SD_ok s'
           \<and> (\<forall>j \<ge> 0. sectors s' j = (if j = i then data else sectors s j)))
    else SynchDisk_ReadSector i s = Inl AssertFail \<and> SynchDisk_WriteSector i data s = Inl AssertFail"
proof (cases "0 \<le> i \<and> i < NumSectors")
  case True
  then show ?thesis
    using SynchDisk_ReadSector_ok[OF assms(1), of i] SynchDisk_WriteSector_ok[OF assms(1) _ _ assms(2), of i] by simp
next
  case False
  obtain s1 where "sd_Acquire s = Inr s1" "sd_disk (kern s1) = sd_disk (kern s)"
    using sd_Acquire_ok[of s] assms(1) by (auto simp: SD_ok_def)
  moreover have "\<not> (i \<ge> 0 \<and> i < NumSectors)" "\<not> dk_active (sd_disk (kern s))" using False assms(1) by (auto simp: SD_ok_def)
  ultimately have "SynchDisk_ReadSector i s = Inl AssertFail" "SynchDisk_WriteSector i data s = Inl AssertFail"
    by (simp_all only: SynchDisk_ReadSector_def SynchDisk_WriteSector_def Disk_ReadRequest_def Disk_WriteRequest_def
        Let_def bindR_simps assertR_simps not_False_eq_True)
  then show ?thesis using False by simp
qed

definition demo_synchdisk :: DiskHw where
  "demo_synchdisk = \<lparr>intr = Interrupt_new\<lparr>level := IntOn\<rparr>, stats = Statistics_new,
     kern = \<lparr>sd_semaphore = 0, sd_lock = 1, sd_isHeld = False, sd_disk = demo_disk\<rparr>\<rparr>"

lemma demo_synchdisk_ok: "SD_ok demo_synchdisk"
  using demo_disk_ok
  by (simp add: SD_ok_def demo_synchdisk_def quiet_def Interrupt_new_def Statistics_new_def demo_disk_def)

theorem SynchDisk_is_sector_array_witness:
  "\<exists>s' s''. SynchDisk_WriteSector 9 (replicate 128 42) demo_synchdisk = Inr s'
     \<and> SynchDisk_ReadSector 9 s' = Inr (replicate 128 42, s'')"
proof -
  obtain s' where s': "SynchDisk_WriteSector 9 (replicate 128 42) demo_synchdisk = Inr s'" "SD_ok s'"
      "sectors s' 9 = replicate 128 42"
    using SynchDisk_is_sector_array[OF demo_synchdisk_ok, of "replicate 128 42" 9] by (auto simp: disk_consts)
  then show ?thesis
    using SynchDisk_is_sector_array[OF s'(2), of "replicate 128 42" 9] by (auto simp: disk_consts)
qed

end
