(* ===== verification/Nachos_Machine.thy ===== *)
theory Nachos_Machine
  imports Nachos_Disk
begin

text \<open>
  \<open>machine/machine.cc\<close> and \<open>machine/translate.cc\<close>: the registers, the physical memory and
  the translation of virtual addresses through a linear page table or a software-loaded
  TLB. Registers are 32-bit words; \<open>sint\<close> reads them as the \<open>int\<close> of the source, whose
  arithmetic wraps on the host. \<open>pageTable\<close> is a pointer: the tables themselves live in
  \<open>tables\<close>, since address spaces and the machine share them.

  The kernel the machine traps into is the record \<open>Kernel\<close>: \<open>k_VM\<close> is the build flag
  \<open>VM\<close>, and the other fields are \<open>invertedPageTable->updatePage(page, false)\<close>,
  \<open>interrupt->setStatus\<close> and \<open>ExceptionHandler\<close>. The kernel's own state is of any type \<open>'k\<close>.
\<close>

subsection \<open>Data\<close>

definition PageSize :: int where "PageSize = SectorSize"
definition NumPhysPages :: int where "NumPhysPages = 32"
definition MemorySize :: int where "MemorySize = NumPhysPages * PageSize"
definition TLBSize :: int where "TLBSize = 4"

datatype ExceptionType = NoException | SyscallException | PageFaultException
  | ReadOnlyException | BusErrorException | AddressErrorException | OverflowException
  | IllegalInstrException | NumExceptionTypes

definition StackReg :: nat where "StackReg = 29"
definition RetAddrReg :: nat where "RetAddrReg = 31"
definition NumGPRegs :: nat where "NumGPRegs = 32"
definition HiReg :: nat where "HiReg = 32"
definition LoReg :: nat where "LoReg = 33"
definition PCReg :: nat where "PCReg = 34"
definition NextPCReg :: nat where "NextPCReg = 35"
definition PrevPCReg :: nat where "PrevPCReg = 36"
definition LoadReg :: nat where "LoadReg = 37"
definition LoadValueReg :: nat where "LoadValueReg = 38"
definition BadVAddrReg :: nat where "BadVAddrReg = 39"
definition NumTotalRegs :: nat where "NumTotalRegs = 40"

lemmas reg_defs = StackReg_def RetAddrReg_def NumGPRegs_def HiReg_def LoReg_def PCReg_def
  NextPCReg_def PrevPCReg_def LoadReg_def LoadValueReg_def BadVAddrReg_def NumTotalRegs_def

lemmas mem_defs = SectorSize_def PageSize_def NumPhysPages_def MemorySize_def TLBSize_def

record TranslationEntry =
  virtualPage :: int
  physicalPage :: int
  valid :: bool
  readOnly :: bool
  use :: bool
  dirty :: bool

record Machine =
  mainMemory :: "byte list"
  registers :: "u32 list"
  tlb :: "TranslationEntry list option"
  pageTable :: "nat option"
  pageTableSize :: u32
  tables :: "nat \<Rightarrow> TranslationEntry list option"
  singleStep :: bool

record 'k Kernel =
  k_VM :: bool
  k_updatePage :: "int \<Rightarrow> 'k \<Rightarrow> 'k res"
  k_setStatus :: "MachineStatus \<Rightarrow> 'k \<Rightarrow> 'k"
  k_ExceptionHandler :: "ExceptionType \<Rightarrow> Machine \<Rightarrow> 'k \<Rightarrow> (Machine \<times> 'k) res"

subsection \<open>Construction and registers\<close>

text \<open>
  The constructor. \<open>new TranslationEntry[TLBSize]\<close> leaves every field but \<open>valid\<close>
  uninitialised: \<open>heap\<close> is what the allocation returned.
\<close>

definition Machine_new :: "bool \<Rightarrow> TranslationEntry list \<Rightarrow> bool \<Rightarrow> Machine" where
  "Machine_new USE_TLB heap debug = \<lparr>
     mainMemory = replicate (nat MemorySize) 0,
     registers = replicate NumTotalRegs 0,
     tlb = (if USE_TLB then Some (map (\<lambda>e. e\<lparr>valid := False\<rparr>) (take (nat TLBSize) heap)) else None),
     pageTable = None, pageTableSize = 0, tables = Map.empty, singleStep = debug\<rparr>"

definition CheckEndian :: bool where
  "CheckEndian \<longleftrightarrow> bytes_word [1, 2, 3, 4] = 0x04030201"

definition Machine_ReadRegister :: "Machine \<Rightarrow> int \<Rightarrow> u32 res" where
  "Machine_ReadRegister m num =
     assertR (num \<ge> 0 \<and> num < int NumTotalRegs) (ixR (registers m) num)"

definition Machine_WriteRegister :: "int \<Rightarrow> u32 \<Rightarrow> Machine \<Rightarrow> Machine res" where
  "Machine_WriteRegister num value m =
     assertR (num \<ge> 0 \<and> num < int NumTotalRegs)
       (mapR (\<lambda>rs. m\<lparr>registers := rs\<rparr>) (updR (registers m) num value))"

text \<open>
  A register access of the simulator itself, \<open>registers[i]\<close> with a constant or a 5-bit
  field as the index.
\<close>

definition reg :: "Machine \<Rightarrow> nat \<Rightarrow> u32" where
  "reg m i = registers m ! i"

definition set_reg :: "nat \<Rightarrow> u32 \<Rightarrow> Machine \<Rightarrow> Machine" where
  "set_reg i v m = m\<lparr>registers := (registers m)[i := v]\<rparr>"

definition Machine_DelayedLoad :: "u32 \<Rightarrow> u32 \<Rightarrow> Machine \<Rightarrow> Machine res" where
  "Machine_DelayedLoad nextReg nextValue m =
     bindR (updR (registers m) (sint (reg m LoadReg)) (reg m LoadValueReg)) (\<lambda>rs.
     Inr (set_reg 0 0 (set_reg LoadValueReg nextValue (set_reg LoadReg nextReg
            (m\<lparr>registers := rs\<rparr>)))))"

definition Machine_RaiseException ::
    "'k Kernel \<Rightarrow> ExceptionType \<Rightarrow> u32 \<Rightarrow> Machine \<Rightarrow> 'k \<Rightarrow> (Machine \<times> 'k) res" where
  "Machine_RaiseException K which badVAddr m k =
     bindR (Machine_DelayedLoad 0 0 (set_reg BadVAddrReg badVAddr m)) (\<lambda>m1.
     bindR (k_ExceptionHandler K which m1 (k_setStatus K SystemMode k)) (\<lambda>(m2, k2).
     Inr (m2, k_setStatus K UserMode k2)))"

subsection \<open>Translation\<close>

definition WordToHost :: "u32 \<Rightarrow> u32" where "WordToHost word = word"
definition ShortToHost :: "u16 \<Rightarrow> u16" where "ShortToHost shortword = shortword"
definition WordToMachine :: "u32 \<Rightarrow> u32" where "WordToMachine word = WordToHost word"
definition ShortToMachine :: "u16 \<Rightarrow> u16" where "ShortToMachine shortword = ShortToHost shortword"

text \<open>The index of the first valid TLB entry for \<open>vpn\<close>: the \<open>for\<close> loop with its \<open>break\<close>.\<close>

fun tlb_find :: "TranslationEntry list \<Rightarrow> int \<Rightarrow> nat \<Rightarrow> nat option" where
  "tlb_find [] vpn i = None"
| "tlb_find (e # es) vpn i =
     (if valid e \<and> virtualPage e = vpn then Some i else tlb_find es vpn (Suc i))"

text \<open>Where the entry of a translation was found, so that its bits can be set.\<close>

datatype EntryRef = InTable nat nat | InTLB nat

definition entry_at :: "Machine \<Rightarrow> EntryRef \<Rightarrow> TranslationEntry" where
  "entry_at m r = (case r of InTable t i \<Rightarrow> the (tables m t) ! i | InTLB i \<Rightarrow> the (tlb m) ! i)"

definition set_entry :: "EntryRef \<Rightarrow> TranslationEntry \<Rightarrow> Machine \<Rightarrow> Machine" where
  "set_entry r e m = (case r of
     InTable t i \<Rightarrow> m\<lparr>tables := (tables m)(t \<mapsto> (the (tables m t))[i := e])\<rparr>
   | InTLB i \<Rightarrow> m\<lparr>tlb := Some ((the (tlb m))[i := e])\<rparr>)"

text \<open>
  The lookup part of \<open>Translate\<close>: either an exception or the entry. In the VM build a TLB
  hit is reported to the inverted page table.
\<close>

definition find_entry ::
    "'k Kernel \<Rightarrow> u32 \<Rightarrow> Machine \<Rightarrow> 'k \<Rightarrow> ((ExceptionType + EntryRef) \<times> 'k) res" where
  "find_entry K vpn m k =
     (case tlb m of
        None \<Rightarrow>
          if vpn \<ge> pageTableSize m then Inr (Inl AddressErrorException, k)
          else (case pageTable m of None \<Rightarrow> Inl BadAccess | Some t \<Rightarrow>
            (case tables m t of None \<Rightarrow> Inl BadAccess | Some pt \<Rightarrow>
              bindR (ixR pt (uint vpn)) (\<lambda>e.
                if \<not> valid e then Inr (Inl PageFaultException, k)
                else Inr (Inr (InTable t (unat vpn)), k))))
      | Some es \<Rightarrow>
          (case tlb_find (take (nat TLBSize) es) (uint vpn) 0 of
             None \<Rightarrow> Inr (Inl PageFaultException, k)
           | Some i \<Rightarrow>
             if k_VM K then mapR (Pair (Inr (InTLB i))) (k_updatePage K (physicalPage (es ! i)) k)
             else Inr (Inr (InTLB i), k)))"

text \<open>
  \<open>Translate\<close> returns the exception and the value of \<open>*physAddr\<close>, which starts as \<open>pa\<close> and
  is only assigned when the translation succeeds.
\<close>

definition Machine_Translate ::
    "'k Kernel \<Rightarrow> u32 \<Rightarrow> int \<Rightarrow> int \<Rightarrow> bool \<Rightarrow> Machine \<Rightarrow> 'k
     \<Rightarrow> (ExceptionType \<times> int \<times> Machine \<times> 'k) res" where
  "Machine_Translate K virtAddr pa sz writing m k =
     (if (sz = 4 \<and> virtAddr AND 3 \<noteq> 0) \<or> (sz = 2 \<and> virtAddr AND 1 \<noteq> 0)
      then Inr (AddressErrorException, pa, m, k)
      else
        assertR (tlb m = None \<or> pageTable m = None)
       (assertR (tlb m \<noteq> None \<or> pageTable m \<noteq> None)
       (let vpn = virtAddr div word_of_int PageSize;
            offset = virtAddr mod word_of_int PageSize
        in bindR (find_entry K vpn m k) (\<lambda>(r, k').
           case r of
             Inl exn \<Rightarrow> Inr (exn, pa, m, k')
           | Inr ref \<Rightarrow>
             (let entry = entry_at m ref in
              if readOnly entry \<and> writing then Inr (ReadOnlyException, pa, m, k')
              else
                let pageFrame = uint (word_of_int (physicalPage entry) :: u32) in
                if pageFrame \<ge> NumPhysPages then Inr (BusErrorException, pa, m, k')
                else
                  let m' = set_entry ref (entry\<lparr>use := True, dirty := (writing \<or> dirty entry)\<rparr>) m;
                      physAddr = pageFrame * PageSize + uint offset
                  in assertR (physAddr \<ge> 0 \<and> physAddr + sz \<le> MemorySize)
                       (Inr (NoException, physAddr, m', k')))))))"

subsection \<open>Reading and writing virtual memory\<close>

text \<open>\<open>sz\<close> bytes of physical memory as the \<open>int\<close> the source reads: a \<open>char\<close> is signed.\<close>

definition load_phys :: "byte list \<Rightarrow> int \<Rightarrow> int \<Rightarrow> u32 res" where
  "load_phys mem pa sz =
     (if sz = 1 then mapR (\<lambda>b. scast b) (ixR mem pa)
      else if sz = 2 then
        bindR (ixR mem pa) (\<lambda>a. bindR (ixR mem (pa + 1)) (\<lambda>b.
          Inr (ucast (ShortToHost (ucast a OR push_bit 8 (ucast b))))))
      else if sz = 4 then
        bindR (ixR mem pa) (\<lambda>a. bindR (ixR mem (pa + 1)) (\<lambda>b.
        bindR (ixR mem (pa + 2)) (\<lambda>c. bindR (ixR mem (pa + 3)) (\<lambda>d.
          Inr (WordToHost (bytes_word [a, b, c, d]))))))
      else Inl AssertFail)"

definition store_phys :: "byte list \<Rightarrow> int \<Rightarrow> int \<Rightarrow> u32 \<Rightarrow> byte list res" where
  "store_phys mem pa sz value =
     (if sz = 1 then updR mem pa (ucast (value AND 0xff))
      else if sz = 2 then
        (let h = ShortToMachine (ucast (value AND 0xffff)) in
         bindR (updR mem pa (ucast h)) (\<lambda>mem1. updR mem1 (pa + 1) (ucast (drop_bit 8 h))))
      else if sz = 4 then
        (let w = WordToMachine value in
         bindR (updR mem pa (ucast w)) (\<lambda>mem1.
         bindR (updR mem1 (pa + 1) (ucast (drop_bit 8 w))) (\<lambda>mem2.
         bindR (updR mem2 (pa + 2) (ucast (drop_bit 16 w))) (\<lambda>mem3.
         updR mem3 (pa + 3) (ucast (drop_bit 24 w))))))
      else Inl AssertFail)"

text \<open>
  The common opening of \<open>ReadMem\<close> and \<open>WriteMem\<close>: translate; on an exception trap, and in
  the VM build translate once more (as a write, in \<open>ReadMem\<close> too). \<open>None\<close> stands for
  \<open>return false\<close>.
\<close>

definition translate_or_trap ::
    "'k Kernel \<Rightarrow> u32 \<Rightarrow> int \<Rightarrow> bool \<Rightarrow> Machine \<Rightarrow> 'k \<Rightarrow> (int option \<times> Machine \<times> 'k) res" where
  "translate_or_trap K addr sz writing m k =
     bindR (Machine_Translate K addr 0 sz writing m k) (\<lambda>(exn, pa, m1, k1).
       if exn = NoException then Inr (Some pa, m1, k1)
       else bindR (Machine_RaiseException K exn addr m1 k1) (\<lambda>(m2, k2).
         if k_VM K then
           bindR (Machine_Translate K addr pa sz True m2 k2) (\<lambda>(exn', pa', m3, k3).
             Inr (if exn' \<noteq> NoException then None else Some pa', m3, k3))
         else Inr (None, m2, k2)))"

text \<open>\<open>ReadMem\<close>: \<open>Some v\<close> is \<open>true\<close> with \<open>*value = v\<close>, \<open>None\<close> is \<open>false\<close>.\<close>

definition Machine_ReadMem ::
    "'k Kernel \<Rightarrow> u32 \<Rightarrow> int \<Rightarrow> Machine \<Rightarrow> 'k \<Rightarrow> (u32 option \<times> Machine \<times> 'k) res" where
  "Machine_ReadMem K addr sz m k =
     bindR (translate_or_trap K addr sz False m k) (\<lambda>(r, m1, k1).
       case r of None \<Rightarrow> Inr (None, m1, k1)
       | Some pa \<Rightarrow> bindR (load_phys (mainMemory m1) pa sz) (\<lambda>v. Inr (Some v, m1, k1)))"

definition Machine_WriteMem ::
    "'k Kernel \<Rightarrow> u32 \<Rightarrow> int \<Rightarrow> u32 \<Rightarrow> Machine \<Rightarrow> 'k \<Rightarrow> (bool \<times> Machine \<times> 'k) res" where
  "Machine_WriteMem K addr sz value m k =
     bindR (translate_or_trap K addr sz True m k) (\<lambda>(r, m1, k1).
       case r of None \<Rightarrow> Inr (False, m1, k1)
       | Some pa \<Rightarrow> bindR (store_phys (mainMemory m1) pa sz value) (\<lambda>mem.
           Inr (True, m1\<lparr>mainMemory := mem\<rparr>, k1)))"

subsection \<open>Words as addresses\<close>

lemma uint_and_3: "uint (v AND 3 :: u32) = uint v mod 4"
proof -
  have "v AND 3 = take_bit 2 v" by (simp add: take_bit_eq_mask mask_eq_exp_minus_1)
  then show ?thesis by (simp add: take_bit_eq_mod uint_mod)
qed

lemma uint_and_1: "uint (v AND 1 :: u32) = uint v mod 2"
proof -
  have "v AND 1 = take_bit 1 v" by (simp add: take_bit_eq_mask mask_eq_exp_minus_1)
  then show ?thesis by (simp add: take_bit_eq_mod uint_mod)
qed

lemma aligned_iff:
  "v AND 3 = (0 :: u32) \<longleftrightarrow> uint v mod 4 = 0" "v AND 1 = (0 :: u32) \<longleftrightarrow> uint v mod 2 = 0"
  by (metis uint_and_3 uint_0_iff, metis uint_and_1 uint_0_iff)

lemma uint_vpn: "uint (v div word_of_int PageSize :: u32) = uint v div 128"
  "uint (v mod word_of_int PageSize :: u32) = uint v mod 128"
  by (simp_all add: mem_defs uint_div uint_mod)

text \<open>An aligned access of 1, 2 or 4 bytes does not leave its page.\<close>

lemma aligned_in_page:
  assumes "sz \<in> {1, 2, 4}" "\<not> ((sz = 4 \<and> v AND 3 \<noteq> 0) \<or> (sz = 2 \<and> v AND 1 \<noteq> (0 :: u32)))"
  shows "uint v mod 128 + sz \<le> 128"
proof -
  obtain x where x: "x = uint v mod 128" by simp
  have "x mod 4 = uint v mod 4" "x mod 2 = uint v mod 2" by (simp_all add: x mod_mod_cancel)
  moreover have "0 \<le> x" "x < 128" by (simp_all add: x)
  moreover have "sz = 1 \<or> sz = 2 \<and> uint v mod 2 = 0 \<or> sz = 4 \<and> uint v mod 4 = 0"
    using assms by (auto simp: aligned_iff)
  moreover have "y < 128 \<Longrightarrow> y mod 2 = 0 \<Longrightarrow> y + 2 \<le> 128" "y < 128 \<Longrightarrow> y mod 4 = 0 \<Longrightarrow> y + 4 \<le> 128"
    for y :: int by presburger+
  ultimately show ?thesis unfolding x[symmetric] by auto
qed

subsection \<open>Translation is safe\<close>

definition Machine_ok :: "Machine \<Rightarrow> bool" where
  "Machine_ok m \<longleftrightarrow> length (mainMemory m) = 4096 \<and> length (registers m) = 40 \<and>
     (case tlb m of
        None \<Rightarrow> (case pageTable m of None \<Rightarrow> False
          | Some t \<Rightarrow> (case tables m t of None \<Rightarrow> False | Some pt \<Rightarrow> unat (pageTableSize m) \<le> length pt))
      | Some es \<Rightarrow> length es = 4 \<and> pageTable m = None)"

text \<open>The report of a TLB hit returns.\<close>

definition upd_ok :: "'k Kernel \<Rightarrow> bool" where
  "upd_ok K \<longleftrightarrow> (k_VM K \<longrightarrow> (\<forall>p k. \<exists>k'. k_updatePage K p k = Inr k'))"

lemma Machine_ok_one: "Machine_ok m \<Longrightarrow> tlb m = None \<longleftrightarrow> pageTable m \<noteq> None"
  by (auto simp: Machine_ok_def split: option.splits)

lemma uint_less_length: "uint v < int n \<longleftrightarrow> unat v < n"
  unfolding uint_nat of_nat_less_iff by (rule refl)

definition ref_ok :: "Machine \<Rightarrow> EntryRef \<Rightarrow> bool" where
  "ref_ok m r = (case r of
     InTable t i \<Rightarrow> tlb m = None \<and> pageTable m = Some t \<and> (\<exists>pt. tables m t = Some pt \<and> i < length pt)
   | InTLB i \<Rightarrow> \<exists>es. tlb m = Some es \<and> i < length es)"

lemma tlb_find_Some:
  "tlb_find es vpn j = Some i \<Longrightarrow>
   j \<le> i \<and> i - j < length es \<and> valid (es ! (i - j)) \<and> virtualPage (es ! (i - j)) = vpn"
proof (induction es arbitrary: j)
  case (Cons e es)
  show ?case
  proof (cases "valid e \<and> virtualPage e = vpn")
    case False
    with Cons.prems have "tlb_find es vpn (Suc j) = Some i" by (simp split: if_splits)
    from Cons.IH[OF this] have IH: "Suc j \<le> i" "i - Suc j < length es"
      "valid (es ! (i - Suc j))" "virtualPage (es ! (i - Suc j)) = vpn" by auto
    then have "i - j = Suc (i - Suc j)" by simp
    then show ?thesis using IH by simp
  qed (use Cons in auto)
qed simp

lemma tlb_find_update:
  "tlb_find es vpn j = Some i \<Longrightarrow> valid e \<Longrightarrow> virtualPage e = vpn \<Longrightarrow>
   tlb_find (es[i - j := e]) vpn j = Some i"
proof (induction es arbitrary: j)
  case (Cons d es)
  show ?case
  proof (cases "valid d \<and> virtualPage d = vpn")
    case False
    with Cons.prems have f: "tlb_find es vpn (Suc j) = Some i" by (simp split: if_splits)
    then have "Suc j \<le> i" using tlb_find_Some by blast
    then obtain n where n: "i - j = Suc n" "i - Suc j = n" by (metis Suc_diff_le diff_Suc_Suc)
    from Cons.IH[OF f Cons.prems(2,3)] n False show ?thesis by auto
  qed (use Cons in auto)
qed simp

lemma find_entry_ok:
  assumes "Machine_ok m" "upd_ok K"
  shows "\<exists>r k'. find_entry K vpn m k = Inr (r, k') \<and>
    (case r of Inl exn \<Rightarrow> exn \<in> {AddressErrorException, PageFaultException}
     | Inr ref \<Rightarrow> ref_ok m ref \<and> valid (entry_at m ref))"
proof (cases "tlb m")
  case None
  then obtain t pt where t: "pageTable m = Some t" "tables m t = Some pt" "unat (pageTableSize m) \<le> length pt"
    using assms by (auto simp: Machine_ok_def split: option.splits)
  have b: "unat vpn < length pt" if "vpn < pageTableSize m"
    using that t(3) by (simp add: word_less_nat_alt)
  show ?thesis
  proof (cases "pageTableSize m \<le> vpn")
    case False
    then have "unat vpn < length pt" using b by simp
    then show ?thesis using t None False
      by (auto simp: find_entry_def ref_ok_def entry_at_def uint_less_length)
  qed (simp add: find_entry_def None)
next
  case (Some es)
  with assms have len: "length es = 4" by (simp add: Machine_ok_def)
  show ?thesis
  proof (cases "tlb_find es (uint vpn) 0")
    case (Some i)
    obtain k1 where "k_VM K \<Longrightarrow> k_updatePage K (physicalPage (es ! i)) k = Inr k1"
      using assms(2) by (auto simp: upd_ok_def)
    then show ?thesis using Some \<open>tlb m = Some es\<close> len tlb_find_Some[OF Some]
      by (auto simp: find_entry_def mem_defs ref_ok_def entry_at_def)
  qed (use Some len in \<open>simp add: find_entry_def mem_defs\<close>)
qed

lemma Machine_Translate_ok:
  assumes "Machine_ok m" "upd_ok K" "sz \<in> {1, 2, 4}"
  shows "\<exists>exn pa' m' k'. Machine_Translate K v pa sz w m k = Inr (exn, pa', m', k') \<and>
    (if exn \<noteq> NoException then m' = m \<and> pa' = pa
     else \<exists>ref. find_entry K (v div word_of_int PageSize) m k = Inr (Inr ref, k')
       \<and> ref_ok m ref \<and> valid (entry_at m ref) \<and> \<not> (readOnly (entry_at m ref) \<and> w)
       \<and> uint (word_of_int (physicalPage (entry_at m ref)) :: u32) < 32
       \<and> pa' = uint (word_of_int (physicalPage (entry_at m ref)) :: u32) * 128 + uint v mod 128
       \<and> 0 \<le> pa' \<and> pa' + sz \<le> 4096
       \<and> m' = set_entry ref ((entry_at m ref)\<lparr>use := True, dirty := (w \<or> dirty (entry_at m ref))\<rparr>) m)"
proof (cases "(sz = 4 \<and> v AND 3 \<noteq> 0) \<or> (sz = 2 \<and> v AND 1 \<noteq> 0)")
  case True
  then show ?thesis by (simp add: Machine_Translate_def)
next
  case False
  have one: "tlb m = None \<or> pageTable m = None" "tlb m \<noteq> None \<or> pageTable m \<noteq> None"
    using assms(1) by (auto simp: Machine_ok_def split: option.splits)
  from find_entry_ok[OF assms(1,2)] obtain r k' where
    r: "find_entry K (v div word_of_int PageSize) m k = Inr (r, k')"
      "case r of Inl exn \<Rightarrow> exn \<in> {AddressErrorException, PageFaultException}
        | Inr ref \<Rightarrow> ref_ok m ref \<and> valid (entry_at m ref)" by blast
  show ?thesis
  proof (cases r)
    case (Inl exn)
    then show ?thesis using False one r by (auto simp: Machine_Translate_def)
  next
    case (Inr ref)
    let ?f = "uint (word_of_int (physicalPage (entry_at m ref)) :: u32)"
    have "0 \<le> ?f" "uint v mod 128 + sz \<le> 128" "0 \<le> uint v mod 128"
      using aligned_in_page[OF assms(3) False] by auto
    moreover have "?f < 32 \<Longrightarrow> ?f * 128 \<le> 31 * 128" by simp
    ultimately have b: "?f < 32 \<Longrightarrow> 0 \<le> ?f * 128 + uint v mod 128 \<and> ?f * 128 + uint v mod 128 + sz \<le> 4096"
      by linarith
    show ?thesis
    proof (cases "readOnly (entry_at m ref) \<and> w \<or> \<not> ?f < 32")
      case True
      then show ?thesis using False one r(1) Inr
        by (auto simp: Machine_Translate_def Let_def NumPhysPages_def)
    next
      case ok: False
      have "Machine_Translate K v pa sz w m k = Inr (NoException, ?f * 128 + uint v mod 128,
          set_entry ref ((entry_at m ref)\<lparr>use := True, dirty := (w \<or> dirty (entry_at m ref))\<rparr>) m, k')"
        using ok False one r(1) Inr b unfolding Machine_Translate_def Let_def uint_vpn
        by (simp add: mem_defs del: bindR_simps)
           (simp add: mem_defs)
      then show ?thesis using ok r Inr b by (auto simp: uint_vpn)
    qed
  qed
qed

lemma set_entry_simps [simp]:
  "mainMemory (set_entry r e m) = mainMemory m" "registers (set_entry r e m) = registers m"
  "pageTable (set_entry r e m) = pageTable m" "pageTableSize (set_entry r e m) = pageTableSize m"
  "singleStep (set_entry r e m) = singleStep m"
  by (cases r; simp add: set_entry_def)+

lemma entry_at_set_entry [simp]: "ref_ok m r \<Longrightarrow> entry_at (set_entry r e m) r = e"
  by (cases r) (auto simp: ref_ok_def entry_at_def set_entry_def)

lemma ref_ok_set_entry [simp]: "ref_ok m r \<Longrightarrow> ref_ok (set_entry r e m) r"
  by (cases r) (auto simp: ref_ok_def set_entry_def)

lemma Machine_ok_set_entry [simp]: "Machine_ok m \<Longrightarrow> ref_ok m r \<Longrightarrow> Machine_ok (set_entry r e m)"
  by (cases r) (auto simp: Machine_ok_def ref_ok_def set_entry_def split: option.splits)

lemma find_entry_again:
  assumes "Machine_ok m" "upd_ok K" "find_entry K vpn m k = Inr (Inr ref, k')"
    and "valid e" "virtualPage e = virtualPage (entry_at m ref)"
  shows "\<exists>k''. find_entry K vpn ((set_entry ref e m)\<lparr>mainMemory := mem\<rparr>) k2 = Inr (Inr ref, k'')"
proof (cases "tlb m")
  case None
  then show ?thesis using assms
    by (auto simp: find_entry_def set_entry_def res_simps uint_less_length
        split: option.splits if_splits)
next
  case (Some es)
  with assms have len: "length es = 4" by (simp add: Machine_ok_def)
  from Some assms(3) len obtain i where i: "ref = InTLB i" "tlb_find es (uint vpn) 0 = Some i"
    by (auto simp: find_entry_def mem_defs mapR_def res_simps split: option.splits if_splits)
  from tlb_find_Some[OF i(2)] Some i assms have "virtualPage e = uint vpn"
    by (auto simp: entry_at_def)
  from tlb_find_update[OF i(2) assms(4) this] have "tlb_find (es[i := e]) (uint vpn) 0 = Some i"
    by simp
  moreover obtain k1 where "k_VM K \<Longrightarrow> k_updatePage K (physicalPage (es[i := e] ! i)) k2 = Inr k1"
    using assms(2) by (auto simp: upd_ok_def)
  ultimately show ?thesis using Some len i
    by (auto simp: find_entry_def set_entry_def mem_defs)
qed

text \<open>A translation that succeeded for a write succeeds again, with the same result.\<close>

lemma Machine_Translate_again:
  assumes "Machine_ok m" "upd_ok K" "sz \<in> {1, 2, 4}"
    and "Machine_Translate K v pa sz w m k = Inr (NoException, p, m', k')" "w' \<longrightarrow> w"
  shows "\<exists>m'' k''. Machine_Translate K v pa2 sz w' (m'\<lparr>mainMemory := mem\<rparr>) k2
      = Inr (NoException, p, m'', k'') \<and> mainMemory m'' = mem \<and> registers m'' = registers m"
proof -
  from Machine_Translate_ok[OF assms(1-3), of v pa w k] assms(4) obtain ref where
    ref: "find_entry K (v div word_of_int PageSize) m k = Inr (Inr ref, k')" "ref_ok m ref"
      "valid (entry_at m ref)" "\<not> (readOnly (entry_at m ref) \<and> w)"
      "uint (word_of_int (physicalPage (entry_at m ref)) :: u32) < 32"
      "p = uint (word_of_int (physicalPage (entry_at m ref)) :: u32) * 128 + uint v mod 128"
      "0 \<le> p" "p + sz \<le> 4096"
    and m': "m' = set_entry ref ((entry_at m ref)\<lparr>use := True, dirty := (w \<or> dirty (entry_at m ref))\<rparr>) m"
    by auto
  have al: "\<not> ((sz = 4 \<and> v AND 3 \<noteq> 0) \<or> (sz = 2 \<and> v AND 1 \<noteq> 0))"
  proof
    assume "(sz = 4 \<and> v AND 3 \<noteq> 0) \<or> (sz = 2 \<and> v AND 1 \<noteq> 0)"
    then have "Machine_Translate K v pa sz w m k = Inr (AddressErrorException, pa, m, k)"
      by (simp add: Machine_Translate_def)
    with assms(4) show False by simp
  qed
  from find_entry_again[OF assms(1,2) ref(1)] ref(3) m' obtain k'' where
    f: "find_entry K (v div word_of_int PageSize) (m'\<lparr>mainMemory := mem\<rparr>) k2 = Inr (Inr ref, k'')"
    by fastforce
  have e: "entry_at (m'\<lparr>mainMemory := mem\<rparr>) ref = (entry_at m ref)\<lparr>use := True, dirty := (w \<or> dirty (entry_at m ref))\<rparr>"
    using ref(2) by (cases ref) (auto simp: m' entry_at_def set_entry_def ref_ok_def)
  have one: "tlb m' = None \<or> pageTable m' = None" "tlb m' \<noteq> None \<or> pageTable m' \<noteq> None"
    using Machine_ok_one[OF Machine_ok_set_entry[OF assms(1) ref(2)]] by (auto simp: m')
  show ?thesis
    using al f e one ref(4-) assms(5) unfolding Machine_Translate_def Let_def uint_vpn
    by (auto simp: mem_defs m' uint_vpn)
qed

subsection \<open>Memory\<close>

lemma byte_mask: "ucast (v AND 0xFF) = (ucast (v :: u32) :: byte)"
  and half_mask: "ucast (v AND 0xFFFF) = (ucast (v :: u32) :: u16)"
proof -
  have "v AND 0xFF = take_bit 8 v" "v AND 0xFFFF = take_bit 16 v"
    by (simp_all add: take_bit_eq_mask mask_eq_exp_minus_1)
  then show "ucast (v AND 0xFF) = (ucast v :: byte)" "ucast (v AND 0xFFFF) = (ucast v :: u16)"
    by (auto intro!: bit_word_eqI simp: bit_simps simp del: take_bit_word_beyond_length_eq)
qed

lemma half_bytes:
  "ucast (ucast h :: byte) OR push_bit 8 (ucast (ucast (drop_bit 8 h) :: byte)) = (h :: u16)"
  by (rule bit_word_eqI) (auto simp: bit_simps)

lemma load_store_phys_nat:
  assumes "n + nat sz \<le> length mem" "sz \<in> {1, 2, 4}"
  shows "\<exists>bs. length bs = nat sz \<and> store_phys mem (int n) sz v = Inr (overwrite mem n bs)
    \<and> load_phys (overwrite mem n bs) (int n) sz = Inr (if sz = 1 then scast (ucast v :: byte)
        else if sz = 2 then ucast (ucast v :: u16) else v)"
proof -
  have up: "updR mem (int i) b = Inr (mem[i := b])" if "i < length mem" for mem :: "byte list" and i b
    using that by simp
  have ow: "overwrite mem n (b # bs) = overwrite (mem[n := b]) (Suc n) bs"
    if "n < length mem" for mem :: "byte list" and n b bs
    using that by (simp add: overwrite_def take_Suc_conv_app_nth upd_conv_take_nth_drop add.commute)
  have ix: "ixR (overwrite mem n bs) (int (n + i)) = Inr (bs ! i)"
    if "i < length bs" "n + length bs \<le> length mem" for mem bs :: "byte list" and n i
    using that by (simp add: nth_overwrite flip: of_nat_add)
  consider "sz = 1" | "sz = 2" | "sz = 4" using assms(2) by auto
  then show ?thesis
  proof cases
    case 1
    then show ?thesis using assms ix[of 0 "[ucast v]" n mem]
      by (intro exI[of _ "[ucast v]"]) (simp add: store_phys_def load_phys_def byte_mask ow up)
  next
    case 2
    let ?bs = "[ucast (ucast v :: u16), ucast (drop_bit 8 (ucast v :: u16))]"
    show ?thesis using assms 2 ix[of 0 ?bs n mem] ix[of 1 ?bs n mem] half_bytes[of "ucast v"] up[of "Suc n"]
      by (intro exI[of _ ?bs])
        (simp add: store_phys_def load_phys_def half_mask ow ShortToMachine_def ShortToHost_def
          Let_def add.commute)
  next
    case 3
    have w: "bytes_word (word_bytes v) = v" by simp
    show ?thesis using assms 3 w ix[of 0 "word_bytes v" n mem] ix[of 1 "word_bytes v" n mem]
        ix[of 2 "word_bytes v" n mem] ix[of 3 "word_bytes v" n mem]
      by (intro exI[of _ "word_bytes v"])
        (simp add: store_phys_def load_phys_def ow WordToMachine_def WordToHost_def word_bytes_def
          Let_def nat_add_distrib numeral_eq_Suc)
  qed
qed

lemma translate_or_trap_noVM:
  assumes "\<not> k_VM K" "translate_or_trap K v sz w m k = Inr (Some p, m', k')"
  shows "Machine_Translate K v 0 sz w m k = Inr (NoException, p, m', k')"
  using assms by (auto simp: translate_or_trap_def res_simps split: prod.splits if_splits)

lemma upd_ok_noVM [simp]: "\<not> k_VM K \<Longrightarrow> upd_ok K"
  by (simp add: upd_ok_def)

lemma Machine_WriteMem_noVM:
  assumes "Machine_ok m" "\<not> k_VM K" "sz \<in> {1, 2, 4}"
    "Machine_WriteMem K v sz x m k = Inr (True, m', k')"
  shows "\<exists>p m1 bs. Machine_Translate K v 0 sz True m k = Inr (NoException, int p, m1, k')
     \<and> m' = m1\<lparr>mainMemory := overwrite (mainMemory m) p bs\<rparr> \<and> length bs = nat sz \<and> p + nat sz \<le> 4096
     \<and> mainMemory m1 = mainMemory m
     \<and> load_phys (mainMemory m') (int p) sz = Inr (if sz = 1 then scast (ucast x :: byte)
        else if sz = 2 then ucast (ucast x :: u16) else x)"
proof -
  from assms(4) obtain p m1 mem where p: "translate_or_trap K v sz True m k = Inr (Some p, m1, k')"
      "store_phys (mainMemory m1) p sz x = Inr mem" "m' = m1\<lparr>mainMemory := mem\<rparr>"
    by (auto simp: Machine_WriteMem_def res_simps split: prod.splits option.splits)
  note tr = translate_or_trap_noVM[OF assms(2) p(1)]
  from Machine_Translate_ok[OF assms(1) upd_ok_noVM[OF assms(2)] assms(3), of v 0 True k] tr
  have pb: "0 \<le> p" "p + sz \<le> 4096" and mm: "mainMemory m1 = mainMemory m" by auto
  obtain n where n: "p = int n" using pb(1) by (metis nat_0_le)
  have len: "n + nat sz \<le> length (mainMemory m)" using pb n assms(1,3) by (auto simp: Machine_ok_def)
  from load_store_phys_nat[OF len assms(3), of x] p n mm obtain bs where
    "length bs = nat sz" "mem = overwrite (mainMemory m) n bs"
    "load_phys mem (int n) sz = Inr (if sz = 1 then scast (ucast x :: byte)
        else if sz = 2 then ucast (ucast x :: u16) else x)" by auto
  then show ?thesis using tr n p mm len assms(1) by (auto simp: Machine_ok_def)
qed

subsection \<open>Properties\<close>

text \<open>C3: Address translation is safe. On a well-formed machine (one translation scheme, a page
  table at least as long as \<open>pageTableSize\<close> or a TLB of four entries), an access of 1, 2 or 4
  bytes never trips the final \<open>ASSERT\<close> of \<open>Translate\<close> nor reads outside a table. When it
  succeeds, the physical address is the frame of a valid entry with the page offset kept, the
  whole access lies in physical memory, and a write is never let through a read-only entry;
  when it raises an exception the machine is unchanged.\<close>

theorem Translate_safe:
  assumes "Machine_ok m" "upd_ok K" "sz \<in> {1, 2, 4}"
  shows "\<exists>exn pa' m' k'. Machine_Translate K v pa sz w m k = Inr (exn, pa', m', k') \<and>
    (exn \<noteq> NoException \<longrightarrow> m' = m \<and> pa' = pa) \<and>
    (exn = NoException \<longrightarrow> (\<exists>ref. ref_ok m ref \<and> valid (entry_at m ref)
       \<and> (w \<longrightarrow> \<not> readOnly (entry_at m ref))
       \<and> pa' div 128 = uint (word_of_int (physicalPage (entry_at m ref)) :: u32)
       \<and> pa' mod 128 = uint v mod 128 \<and> 0 \<le> pa' \<and> pa' + sz \<le> MemorySize
       \<and> Machine_ok m' \<and> use (entry_at m' ref) \<and> (w \<longrightarrow> dirty (entry_at m' ref))))"
proof -
  from Machine_Translate_ok[OF assms, of v pa w k] obtain exn pa' m' k' where
    tr: "Machine_Translate K v pa sz w m k = Inr (exn, pa', m', k')" and
    c: "if exn \<noteq> NoException then m' = m \<and> pa' = pa
     else \<exists>ref. find_entry K (v div word_of_int PageSize) m k = Inr (Inr ref, k')
       \<and> ref_ok m ref \<and> valid (entry_at m ref) \<and> \<not> (readOnly (entry_at m ref) \<and> w)
       \<and> uint (word_of_int (physicalPage (entry_at m ref)) :: u32) < 32
       \<and> pa' = uint (word_of_int (physicalPage (entry_at m ref)) :: u32) * 128 + uint v mod 128
       \<and> 0 \<le> pa' \<and> pa' + sz \<le> 4096
       \<and> m' = set_entry ref ((entry_at m ref)\<lparr>use := True, dirty := (w \<or> dirty (entry_at m ref))\<rparr>) m"
    by blast
  show ?thesis
  proof (cases "exn = NoException")
    case True
    with c obtain ref where ref: "ref_ok m ref" "valid (entry_at m ref)" "\<not> (readOnly (entry_at m ref) \<and> w)"
       "pa' = uint (word_of_int (physicalPage (entry_at m ref)) :: u32) * 128 + uint v mod 128"
       "0 \<le> pa'" "pa' + sz \<le> 4096"
       "m' = set_entry ref ((entry_at m ref)\<lparr>use := True, dirty := (w \<or> dirty (entry_at m ref))\<rparr>) m"
      by auto
    show ?thesis using tr True ref assms(1)
      by (intro exI[of _ exn] exI[of _ pa'] exI[of _ m'] exI[of _ k'] conjI impI exI[of _ ref])
        (auto simp: mem_defs)
  qed (use tr c in auto)
qed

definition demo_machine :: Machine where
  "demo_machine = (Machine_new False [] False)\<lparr>
     tables := [0 \<mapsto> [\<lparr>virtualPage = 0, physicalPage = 5, valid = True, readOnly = False, use = False, dirty = False\<rparr>,
                      \<lparr>virtualPage = 1, physicalPage = 7, valid = True, readOnly = True, use = False, dirty = False\<rparr>]],
     pageTable := Some 0, pageTableSize := 2\<rparr>"

definition demo_kernel :: "unit Kernel" where
  "demo_kernel = \<lparr>k_VM = False, k_updatePage = (\<lambda>p k. Inr k), k_setStatus = (\<lambda>s k. k),
     k_ExceptionHandler = (\<lambda>e m k. Inl AssertFail)\<rparr>"

lemma demo_machine_ok: "Machine_ok demo_machine" "upd_ok demo_kernel" "\<not> k_VM demo_kernel"
  by (simp_all add: Machine_ok_def demo_machine_def Machine_new_def mem_defs reg_defs upd_ok_def
      demo_kernel_def)

theorem Translate_safe_witness:
  "\<exists>exn pa' m' k'. Machine_Translate demo_kernel 132 0 4 False demo_machine () = Inr (exn, pa', m', k') \<and>
    (exn \<noteq> NoException \<longrightarrow> m' = demo_machine \<and> pa' = 0) \<and>
    (exn = NoException \<longrightarrow> (\<exists>ref. ref_ok demo_machine ref \<and> valid (entry_at demo_machine ref)
       \<and> (False \<longrightarrow> \<not> readOnly (entry_at demo_machine ref))
       \<and> pa' div 128 = uint (word_of_int (physicalPage (entry_at demo_machine ref)) :: u32)
       \<and> pa' mod 128 = uint (132 :: u32) mod 128 \<and> 0 \<le> pa' \<and> pa' + 4 \<le> MemorySize
       \<and> Machine_ok m' \<and> use (entry_at m' ref) \<and> (False \<longrightarrow> dirty (entry_at m' ref))))"
  by (rule Translate_safe[OF demo_machine_ok(1,2)]) simp

text \<open>C5: Reading back what was written. In the builds without virtual memory, when \<open>WriteMem\<close>
  of 1, 2 or 4 bytes returns true, a \<open>ReadMem\<close> of the same address and size returns true
  without trapping and yields the value written, cut to its size; a single byte comes back
  sign-extended, because \<open>mainMemory\<close> is an array of \<open>char\<close>.\<close>

theorem ReadMem_after_WriteMem:
  assumes "Machine_ok m" "\<not> k_VM K" "sz \<in> {1, 2, 4}"
    "Machine_WriteMem K v sz x m k = Inr (True, m', k')"
  shows "\<exists>m'' k''. Machine_ReadMem K v sz m' k' = Inr (Some (if sz = 1 then scast (ucast x :: byte)
      else if sz = 2 then ucast (ucast x :: u16) else x), m'', k'') \<and> mainMemory m'' = mainMemory m'"
proof -
  from Machine_WriteMem_noVM[OF assms] obtain p m1 bs where
    p: "Machine_Translate K v 0 sz True m k = Inr (NoException, int p, m1, k')"
      "m' = m1\<lparr>mainMemory := overwrite (mainMemory m) p bs\<rparr>"
      "load_phys (mainMemory m') (int p) sz = Inr (if sz = 1 then scast (ucast x :: byte)
        else if sz = 2 then ucast (ucast x :: u16) else x)" by blast
  from Machine_Translate_again[OF assms(1) upd_ok_noVM[OF assms(2)] assms(3) p(1), where w' = False]
  obtain m'' k'' where "Machine_Translate K v 0 sz False m' k' = Inr (NoException, int p, m'', k'')"
    "mainMemory m'' = mainMemory m'" unfolding p(2) by fastforce
  then show ?thesis using p(3) by (auto simp: Machine_ReadMem_def translate_or_trap_def)
qed

theorem ReadMem_after_WriteMem_witness:
  "\<exists>m' k'. Machine_WriteMem demo_kernel 4 4 0xCAFE demo_machine () = Inr (True, m', k')
    \<and> (\<exists>m'' k''. Machine_ReadMem demo_kernel 4 4 m' k' = Inr (Some 0xCAFE, m'', k''))"
proof -
  have "\<exists>m'. Machine_WriteMem demo_kernel 4 4 0xCAFE demo_machine () = Inr (True, m', ())"
    by (simp add: Machine_WriteMem_def translate_or_trap_def Machine_Translate_def find_entry_def
        demo_machine_def demo_kernel_def Machine_new_def mem_defs entry_at_def set_entry_def
        store_phys_def updR_def Let_def)
  then obtain m' where w: "Machine_WriteMem demo_kernel 4 4 0xCAFE demo_machine () = Inr (True, m', ())" ..
  from ReadMem_after_WriteMem[OF demo_machine_ok(1,3) _ w] show ?thesis using w by auto
qed

text \<open>C4: Memory isolation. In the builds without virtual memory a successful \<open>WriteMem\<close>
  through a linear page table changes no byte of physical memory outside the frames that the
  valid, writable entries of that table name; in particular address spaces whose tables name
  disjoint frames cannot write into each other.\<close>

theorem WriteMem_isolated:
  assumes "Machine_ok m" "\<not> k_VM K" "sz \<in> {1, 2, 4}" "tlb m = None" "pageTable m = Some t"
    "tables m t = Some pt" "Machine_WriteMem K v sz x m k = Inr (True, m', k')"
    and "i < 4096" "\<forall>e \<in> set pt. valid e \<and> \<not> readOnly e \<longrightarrow>
      uint (word_of_int (physicalPage e) :: u32) \<noteq> int i div 128"
  shows "mainMemory m' ! i = mainMemory m ! i"
proof -
  from Machine_WriteMem_noVM[OF assms(1-3,7)] obtain p m1 bs where
    p: "Machine_Translate K v 0 sz True m k = Inr (NoException, int p, m1, k')"
      "m' = m1\<lparr>mainMemory := overwrite (mainMemory m) p bs\<rparr>" "length bs = nat sz" "p + nat sz \<le> 4096"
    by blast
  from Machine_Translate_ok[OF assms(1) upd_ok_noVM[OF assms(2)] assms(3), of v 0 True k] p(1)
  obtain ref where ref: "ref_ok m ref" "valid (entry_at m ref)" "\<not> readOnly (entry_at m ref)"
     "int p = uint (word_of_int (physicalPage (entry_at m ref)) :: u32) * 128 + uint v mod 128"
    by auto
  have al: "\<not> ((sz = 4 \<and> v AND 3 \<noteq> 0) \<or> (sz = 2 \<and> v AND 1 \<noteq> 0))"
    using p(1) by (rule contrapos_pn) (simp add: Machine_Translate_def)
  have "entry_at m ref \<in> set pt" using ref(1) assms(4-6)
    by (cases ref) (auto simp: ref_ok_def entry_at_def)
  then have ne: "uint (word_of_int (physicalPage (entry_at m ref)) :: u32) \<noteq> int i div 128"
    using assms(9) ref(2,3) by blast
  have "uint v mod 128 + sz \<le> 128" "0 \<le> uint v mod 128" using aligned_in_page[OF assms(3) al] by simp_all
  then have "\<not> (p \<le> i \<and> i < p + nat sz)" using ne ref(4) assms(3) by auto
  then show ?thesis using p assms(1,8) by (auto simp: nth_overwrite Machine_ok_def)
qed

theorem WriteMem_isolated_witness:
  "\<exists>m' k'. Machine_WriteMem demo_kernel 4 4 0xCAFE demo_machine () = Inr (True, m', k')
    \<and> mainMemory m' ! 3000 = mainMemory demo_machine ! 3000"
proof -
  have "\<exists>m'. Machine_WriteMem demo_kernel 4 4 0xCAFE demo_machine () = Inr (True, m', ())"
    by (simp add: Machine_WriteMem_def translate_or_trap_def Machine_Translate_def find_entry_def
        demo_machine_def demo_kernel_def Machine_new_def mem_defs entry_at_def set_entry_def
        store_phys_def updR_def Let_def)
  then obtain m' where w: "Machine_WriteMem demo_kernel 4 4 0xCAFE demo_machine () = Inr (True, m', ())" ..
  have "mainMemory m' ! 3000 = mainMemory demo_machine ! 3000"
    by (rule WriteMem_isolated[OF demo_machine_ok(1,3) _ _ _ _ w,
          where t = 0 and pt = "the (tables demo_machine 0)"]) (simp_all add: demo_machine_def Machine_new_def)
  then show ?thesis using w by blast
qed

end
