(* ===== verification/Nachos_Mipssim.thy ===== *)
theory Nachos_Mipssim
  imports Nachos_Machine
begin

text \<open>
  \<open>machine/mipssim.h\<close> and \<open>machine/mipssim.cc\<close>: decoding and executing one MIPS instruction.
  The \<open>switch\<close> of \<open>OneInstruction\<close> is split by groups of opcodes, in the order of the source;
  each group returns either \<open>Next\<close> (the \<open>break\<close> that leads to the common tail, with the
  values of \<open>pcAfter\<close>, \<open>nextLoadReg\<close> and \<open>nextLoadValue\<close>) or \<open>Return\<close> (an early \<open>return\<close>
  after a trap). Printing for the debug flag \<open>m\<close> is left out. Signed arithmetic wraps, and
  the quotient of the smallest integer by -1, which stops the host process, is \<open>BadAccess\<close>.
\<close>

subsection \<open>Decoding\<close>

datatype OpCode =
  OP_ADD | OP_ADDI | OP_ADDIU | OP_ADDU | OP_AND | OP_ANDI | OP_BEQ | OP_BGEZ | OP_BGEZAL |
  OP_BGTZ | OP_BLEZ | OP_BLTZ | OP_BLTZAL | OP_BNE | OP_DIV | OP_DIVU | OP_J | OP_JAL |
  OP_JALR | OP_JR | OP_LB | OP_LBU | OP_LH | OP_LHU | OP_LUI | OP_LW | OP_LWL | OP_LWR |
  OP_MFHI | OP_MFLO | OP_MTHI | OP_MTLO | OP_MULT | OP_MULTU | OP_NOR | OP_OR | OP_ORI |
  OP_RFE | OP_SB | OP_SH | OP_SLL | OP_SLLV | OP_SLT | OP_SLTI | OP_SLTIU | OP_SLTU | OP_SRA
  | OP_SRAV | OP_SRL | OP_SRLV | OP_SUB | OP_SUBU | OP_SW | OP_SWL | OP_SWR | OP_XOR |
  OP_XORI | OP_SYSCALL | OP_UNIMP | OP_RES | SPECIAL | BCOND

datatype Format = IFMT | JFMT | RFMT

record Instruction =
  ivalue :: u32
  opCode :: OpCode
  rs :: nat
  rt :: nat
  rd :: nat
  extra :: u32

definition opTable :: "(OpCode \<times> Format) list" where
  "opTable = [
    (SPECIAL, RFMT), (BCOND, IFMT), (OP_J, JFMT), (OP_JAL, JFMT),
    (OP_BEQ, IFMT), (OP_BNE, IFMT), (OP_BLEZ, IFMT), (OP_BGTZ, IFMT),
    (OP_ADDI, IFMT), (OP_ADDIU, IFMT), (OP_SLTI, IFMT), (OP_SLTIU, IFMT),
    (OP_ANDI, IFMT), (OP_ORI, IFMT), (OP_XORI, IFMT), (OP_LUI, IFMT),
    (OP_UNIMP, IFMT), (OP_UNIMP, IFMT), (OP_UNIMP, IFMT), (OP_UNIMP, IFMT),
    (OP_RES, IFMT), (OP_RES, IFMT), (OP_RES, IFMT), (OP_RES, IFMT),
    (OP_RES, IFMT), (OP_RES, IFMT), (OP_RES, IFMT), (OP_RES, IFMT),
    (OP_RES, IFMT), (OP_RES, IFMT), (OP_RES, IFMT), (OP_RES, IFMT),
    (OP_LB, IFMT), (OP_LH, IFMT), (OP_LWL, IFMT), (OP_LW, IFMT),
    (OP_LBU, IFMT), (OP_LHU, IFMT), (OP_LWR, IFMT), (OP_RES, IFMT),
    (OP_SB, IFMT), (OP_SH, IFMT), (OP_SWL, IFMT), (OP_SW, IFMT),
    (OP_RES, IFMT), (OP_RES, IFMT), (OP_SWR, IFMT), (OP_RES, IFMT),
    (OP_UNIMP, IFMT), (OP_UNIMP, IFMT), (OP_UNIMP, IFMT), (OP_UNIMP, IFMT),
    (OP_RES, IFMT), (OP_RES, IFMT), (OP_RES, IFMT), (OP_RES, IFMT),
    (OP_UNIMP, IFMT), (OP_UNIMP, IFMT), (OP_UNIMP, IFMT), (OP_UNIMP, IFMT),
    (OP_RES, IFMT), (OP_RES, IFMT), (OP_RES, IFMT), (OP_RES, IFMT)]"

definition specialTable :: "OpCode list" where
  "specialTable = [
    OP_SLL, OP_RES, OP_SRL, OP_SRA, OP_SLLV, OP_RES, OP_SRLV, OP_SRAV,
    OP_JR, OP_JALR, OP_RES, OP_RES, OP_SYSCALL, OP_UNIMP, OP_RES, OP_RES,
    OP_MFHI, OP_MTHI, OP_MFLO, OP_MTLO, OP_RES, OP_RES, OP_RES, OP_RES,
    OP_MULT, OP_MULTU, OP_DIV, OP_DIVU, OP_RES, OP_RES, OP_RES, OP_RES,
    OP_ADD, OP_ADDU, OP_SUB, OP_SUBU, OP_AND, OP_OR, OP_XOR, OP_NOR,
    OP_RES, OP_RES, OP_SLT, OP_SLTU, OP_RES, OP_RES, OP_RES, OP_RES,
    OP_RES, OP_RES, OP_RES, OP_RES, OP_RES, OP_RES, OP_RES, OP_RES,
    OP_RES, OP_RES, OP_RES, OP_RES, OP_RES, OP_RES, OP_RES, OP_RES]"

definition SIGN_BIT :: u32 where "SIGN_BIT = 0x80000000"
definition R31 :: nat where "R31 = 31"

definition IndexToAddr :: "u32 \<Rightarrow> u32" where
  "IndexToAddr x = push_bit 2 x"

definition Instruction_Decode :: "u32 \<Rightarrow> Instruction" where
  "Instruction_Decode v =
     (let rs' = unat (drop_bit 21 v AND 0x1f);
          rt' = unat (drop_bit 16 v AND 0x1f);
          rd' = unat (drop_bit 11 v AND 0x1f);
          (op, fmt) = opTable ! unat (drop_bit 26 v AND 0x3f);
          ext = (if fmt = IFMT then
                   (let x = v AND 0xffff in if x AND 0x8000 \<noteq> 0 then x OR 0xffff0000 else x)
                 else if fmt = RFMT then drop_bit 6 v AND 0x1f
                 else v AND 0x3ffffff);
          op' = (if op = SPECIAL then specialTable ! unat (v AND 0x3f)
                 else if op = BCOND then
                   (let i = v AND 0x1f0000 in
                    if i = 0 then OP_BLTZ
                    else if i = 0x10000 then OP_BGEZ
                    else if i = 0x100000 then OP_BLTZAL
                    else if i = 0x110000 then OP_BGEZAL
                    else OP_UNIMP)
                 else op)
      in \<lparr>ivalue = v, opCode = op', rs = rs', rt = rt', rd = rd', extra = ext\<rparr>)"

subsection \<open>Multiplication\<close>

text \<open>
  The loop of \<open>Mult\<close>: \<open>n\<close> rounds are left. \<open>a\<close> is an \<open>int\<close>, so \<open>a >>= 1\<close> shifts its sign in.
\<close>

fun Mult_loop :: "nat \<Rightarrow> u32 \<Rightarrow> u32 \<Rightarrow> u32 \<Rightarrow> u32 \<Rightarrow> u32 \<Rightarrow> u32 \<times> u32" where
  "Mult_loop 0 a bHi bLo hi lo = (hi, lo)"
| "Mult_loop (Suc n) a bHi bLo hi lo =
     (let lo' = lo + bLo;
          hi' = (if lo' < bLo then hi + 1 else hi) + bHi;
          (hi2, lo2) = (if a AND 1 \<noteq> 0 then (hi', lo') else (hi, lo))
      in if a AND 1 \<noteq> 0 \<and> a AND 0xfffffffe = 0 then (hi2, lo2)
         else Mult_loop n (signed_drop_bit 1 a)
                (if bLo AND 0x80000000 \<noteq> 0 then push_bit 1 bHi OR 1 else push_bit 1 bHi)
                (push_bit 1 bLo) hi2 lo2)"

text \<open>\<open>Mult\<close> returns \<open>(*hiPtr, *loPtr)\<close>.\<close>

definition Mult :: "u32 \<Rightarrow> u32 \<Rightarrow> bool \<Rightarrow> u32 \<times> u32" where
  "Mult a0 b0 signedArith =
     (if a0 = 0 \<or> b0 = 0 then (0, 0)
      else
        let a = (if signedArith \<and> sint a0 < 0 then - a0 else a0);
            b = (if signedArith \<and> sint b0 < 0 then - b0 else b0);
            negative = (signedArith \<and> ((sint a0 < 0) \<noteq> (sint b0 < 0)));
            (hi, lo) = Mult_loop 32 a 0 b 0 0
        in if negative then
             (let hi1 = NOT hi; lo1 = NOT lo + 1 in (if lo1 = 0 then hi1 + 1 else hi1, lo1))
           else (hi, lo))"

subsection \<open>Execution\<close>

datatype 'k Exec =
    Next Machine 'k (pcAfter: u32) (nextLoadReg: u32) (nextLoadValue: u32)
  | Return Machine 'k

definition go :: "u32 \<Rightarrow> Machine \<Rightarrow> 'k \<Rightarrow> 'k Exec res" where
  "go pc m k = Inr (Next m k pc 0 0)"

definition trap :: "'k Kernel \<Rightarrow> ExceptionType \<Rightarrow> u32 \<Rightarrow> Machine \<Rightarrow> 'k \<Rightarrow> 'k Exec res" where
  "trap K which badVAddr m k =
     bindR (Machine_RaiseException K which badVAddr m k) (\<lambda>(m', k'). Inr (Return m' k'))"

definition exec_add_and :: "'k Kernel \<Rightarrow> Instruction \<Rightarrow> u32 \<Rightarrow> Machine \<Rightarrow> 'k \<Rightarrow> 'k Exec res" where
  "exec_add_and K i pc m k =
     (let a = reg m (rs i); b = reg m (rt i); x = extra i in
      case opCode i of
        OP_ADD \<Rightarrow>
          (let sum = a + b in
           if (a XOR b) AND SIGN_BIT = 0 \<and> (a XOR sum) AND SIGN_BIT \<noteq> 0
           then trap K OverflowException 0 m k
           else go pc (set_reg (rd i) sum m) k)
      | OP_ADDI \<Rightarrow>
          (let sum = a + x in
           if (a XOR x) AND SIGN_BIT = 0 \<and> (x XOR sum) AND SIGN_BIT \<noteq> 0
           then trap K OverflowException 0 m k
           else go pc (set_reg (rt i) sum m) k)
      | OP_ADDIU \<Rightarrow> go pc (set_reg (rt i) (a + x) m) k
      | OP_ADDU \<Rightarrow> go pc (set_reg (rd i) (a + b) m) k
      | OP_AND \<Rightarrow> go pc (set_reg (rd i) (a AND b) m) k
      | OP_ANDI \<Rightarrow> go pc (set_reg (rt i) (a AND (x AND 0xffff)) m) k
      | _ \<Rightarrow> Inl AssertFail)"

definition exec_branch :: "Instruction \<Rightarrow> u32 \<Rightarrow> Machine \<Rightarrow> 'k \<Rightarrow> 'k Exec res" where
  "exec_branch i pc m k =
     (let a = reg m (rs i); b = reg m (rt i);
          link = set_reg R31 (reg m NextPCReg + 4) m;
          target = reg m NextPCReg + IndexToAddr (extra i)
      in case opCode i of
        OP_BEQ \<Rightarrow> go (if a = b then target else pc) m k
      | OP_BGEZAL \<Rightarrow> go (if reg link (rs i) AND SIGN_BIT = 0 then target else pc) link k
      | OP_BGEZ \<Rightarrow> go (if a AND SIGN_BIT = 0 then target else pc) m k
      | OP_BGTZ \<Rightarrow> go (if sint a > 0 then target else pc) m k
      | OP_BLEZ \<Rightarrow> go (if sint a \<le> 0 then target else pc) m k
      | OP_BLTZAL \<Rightarrow> go (if reg link (rs i) AND SIGN_BIT \<noteq> 0 then target else pc) link k
      | OP_BLTZ \<Rightarrow> go (if a AND SIGN_BIT \<noteq> 0 then target else pc) m k
      | OP_BNE \<Rightarrow> go (if a \<noteq> b then target else pc) m k
      | _ \<Rightarrow> Inl AssertFail)"

definition exec_div :: "Instruction \<Rightarrow> u32 \<Rightarrow> Machine \<Rightarrow> 'k \<Rightarrow> 'k Exec res" where
  "exec_div i pc m k =
     (let a = reg m (rs i); b = reg m (rt i);
          hilo = (\<lambda>h l. set_reg HiReg h (set_reg LoReg l m))
      in case opCode i of
        OP_DIV \<Rightarrow>
          if b = 0 then go pc (hilo 0 0) k
          else if a = SIGN_BIT \<and> b = -1 then Inl BadAccess
          else go pc (hilo (word_of_int (sint a smod sint b)) (word_of_int (sint a sdiv sint b))) k
      | OP_DIVU \<Rightarrow>
          if b = 0 then go pc (hilo 0 0) k
          else go pc (hilo (a mod b) (a div b)) k
      | _ \<Rightarrow> Inl AssertFail)"

definition exec_jump :: "Instruction \<Rightarrow> u32 \<Rightarrow> Machine \<Rightarrow> 'k \<Rightarrow> 'k Exec res" where
  "exec_jump i pc m k =
     (let link = reg m NextPCReg + 4;
          target = (pc AND 0xf0000000) OR IndexToAddr (extra i)
      in case opCode i of
        OP_JAL \<Rightarrow> go target (set_reg R31 link m) k
      | OP_J \<Rightarrow> go target m k
      | OP_JALR \<Rightarrow> (let m' = set_reg (rd i) link m in go (reg m' (rs i)) m' k)
      | OP_JR \<Rightarrow> go (reg m (rs i)) m k
      | _ \<Rightarrow> Inl AssertFail)"

text \<open>\<open>if (!machine->ReadMem(addr, sz, &value)) return;\<close> and the same for \<open>WriteMem\<close>.\<close>

definition read_or_return :: "'k Kernel \<Rightarrow> u32 \<Rightarrow> int \<Rightarrow> Machine \<Rightarrow> 'k
    \<Rightarrow> (u32 \<Rightarrow> Machine \<Rightarrow> 'k \<Rightarrow> 'k Exec res) \<Rightarrow> 'k Exec res" where
  "read_or_return K addr sz m k cont =
     bindR (Machine_ReadMem K addr sz m k) (\<lambda>(r, m1, k1).
       case r of None \<Rightarrow> Inr (Return m1 k1) | Some v \<Rightarrow> cont v m1 k1)"

definition write_or_return :: "'k Kernel \<Rightarrow> u32 \<Rightarrow> int \<Rightarrow> u32 \<Rightarrow> u32 \<Rightarrow> Machine \<Rightarrow> 'k \<Rightarrow> 'k Exec res" where
  "write_or_return K addr sz v pc m k =
     bindR (Machine_WriteMem K addr sz v m k) (\<lambda>(r, m1, k1).
       if \<not> r then Inr (Return m1 k1) else go pc m1 k1)"

definition exec_load :: "'k Kernel \<Rightarrow> Instruction \<Rightarrow> u32 \<Rightarrow> Machine \<Rightarrow> 'k \<Rightarrow> 'k Exec res" where
  "exec_load K i pc m k =
     (let tmp = reg m (rs i) + extra i;
          delayed = (\<lambda>v m1 k1. Inr (Next m1 k1 pc (of_nat (rt i)) v));
          byte_load = read_or_return K tmp 1 m k (\<lambda>value.
            delayed (if value AND 0x80 \<noteq> 0 \<and> opCode i = OP_LB then value OR 0xffffff00 else value AND 0xff));
          half_load = (if tmp AND 1 \<noteq> 0 then trap K AddressErrorException tmp m k
            else read_or_return K tmp 2 m k (\<lambda>value.
              delayed (if value AND 0x8000 \<noteq> 0 \<and> opCode i = OP_LH then value OR 0xffff0000 else value AND 0xffff)))
      in case opCode i of
        OP_LB \<Rightarrow> byte_load
      | OP_LBU \<Rightarrow> byte_load
      | OP_LH \<Rightarrow> half_load
      | OP_LHU \<Rightarrow> half_load
      | OP_LUI \<Rightarrow> go pc (set_reg (rt i) (push_bit 16 (extra i)) m) k
      | OP_LW \<Rightarrow>
          if tmp AND 3 \<noteq> 0 then trap K AddressErrorException tmp m k
          else read_or_return K tmp 4 m k delayed
      | _ \<Rightarrow> Inl AssertFail)"

definition exec_lwl_lwr :: "'k Kernel \<Rightarrow> Instruction \<Rightarrow> u32 \<Rightarrow> Machine \<Rightarrow> 'k \<Rightarrow> 'k Exec res" where
  "exec_lwl_lwr K i pc m k =
     (let tmp = reg m (rs i) + extra i;
          cur = (\<lambda>m1. if reg m1 LoadReg = of_nat (rt i) then reg m1 LoadValueReg else reg m1 (rt i));
          delayed = (\<lambda>v m1 k1. Inr (Next m1 k1 pc (of_nat (rt i)) v))
      in assertR (tmp AND 3 = 0)
         (case opCode i of
            OP_LWL \<Rightarrow> read_or_return K tmp 4 m k (\<lambda>value m1 k1.
              delayed (if tmp AND 3 = 0 then value
                       else if tmp AND 3 = 1 then (cur m1 AND 0xff) OR push_bit 8 value
                       else if tmp AND 3 = 2 then (cur m1 AND 0xffff) OR push_bit 16 value
                       else (cur m1 AND 0xffffff) OR push_bit 24 value) m1 k1)
          | OP_LWR \<Rightarrow> read_or_return K tmp 4 m k (\<lambda>value m1 k1.
              delayed (if tmp AND 3 = 0 then (cur m1 AND 0xffffff00) OR (signed_drop_bit 24 value AND 0xff)
                       else if tmp AND 3 = 1 then (cur m1 AND 0xffff0000) OR (signed_drop_bit 16 value AND 0xffff)
                       else if tmp AND 3 = 2 then (cur m1 AND 0xff000000) OR (signed_drop_bit 8 value AND 0xffffff)
                       else value) m1 k1)
          | _ \<Rightarrow> Inl AssertFail))"

definition exec_hilo_or :: "Instruction \<Rightarrow> u32 \<Rightarrow> Machine \<Rightarrow> 'k \<Rightarrow> 'k Exec res" where
  "exec_hilo_or i pc m k =
     (let a = reg m (rs i); b = reg m (rt i);
          mul = (\<lambda>s. let (hi, lo) = Mult a b s in set_reg LoReg lo (set_reg HiReg hi m))
      in case opCode i of
        OP_MFHI \<Rightarrow> go pc (set_reg (rd i) (reg m HiReg) m) k
      | OP_MFLO \<Rightarrow> go pc (set_reg (rd i) (reg m LoReg) m) k
      | OP_MTHI \<Rightarrow> go pc (set_reg HiReg a m) k
      | OP_MTLO \<Rightarrow> go pc (set_reg LoReg a m) k
      | OP_MULT \<Rightarrow> go pc (mul True) k
      | OP_MULTU \<Rightarrow> go pc (mul False) k
      | OP_NOR \<Rightarrow> go pc (set_reg (rd i) (NOT (a OR b)) m) k
      | OP_OR \<Rightarrow> go pc (set_reg (rd i) (a OR a) m) k
      | OP_ORI \<Rightarrow> go pc (set_reg (rt i) (a OR (extra i AND 0xffff)) m) k
      | _ \<Rightarrow> Inl AssertFail)"

definition exec_store :: "'k Kernel \<Rightarrow> Instruction \<Rightarrow> u32 \<Rightarrow> Machine \<Rightarrow> 'k \<Rightarrow> 'k Exec res" where
  "exec_store K i pc m k =
     (let addr = reg m (rs i) + extra i; v = reg m (rt i)
      in case opCode i of
        OP_SB \<Rightarrow> write_or_return K addr 1 v pc m k
      | OP_SH \<Rightarrow> write_or_return K addr 2 v pc m k
      | OP_SW \<Rightarrow> write_or_return K addr 4 v pc m k
      | _ \<Rightarrow> Inl AssertFail)"

definition exec_shift_set :: "Instruction \<Rightarrow> u32 \<Rightarrow> Machine \<Rightarrow> 'k \<Rightarrow> 'k Exec res" where
  "exec_shift_set i pc m k =
     (let a = reg m (rs i); b = reg m (rt i); x = extra i;
          sh = unat x; shv = unat (a AND 0x1f)
      in case opCode i of
        OP_SLL \<Rightarrow> go pc (set_reg (rd i) (push_bit sh b) m) k
      | OP_SLLV \<Rightarrow> go pc (set_reg (rd i) (push_bit shv b) m) k
      | OP_SLT \<Rightarrow> go pc (set_reg (rd i) (if sint a < sint b then 1 else 0) m) k
      | OP_SLTI \<Rightarrow> go pc (set_reg (rt i) (if sint a < sint x then 1 else 0) m) k
      | OP_SLTIU \<Rightarrow> go pc (set_reg (rt i) (if a < x then 1 else 0) m) k
      | OP_SLTU \<Rightarrow> go pc (set_reg (rd i) (if a < b then 1 else 0) m) k
      | OP_SRA \<Rightarrow> go pc (set_reg (rd i) (signed_drop_bit sh b) m) k
      | OP_SRAV \<Rightarrow> go pc (set_reg (rd i) (signed_drop_bit shv b) m) k
      | OP_SRL \<Rightarrow> go pc (set_reg (rd i) (signed_drop_bit sh b) m) k
      | OP_SRLV \<Rightarrow> go pc (set_reg (rd i) (signed_drop_bit shv b) m) k
      | _ \<Rightarrow> Inl AssertFail)"

definition exec_sub_xor :: "'k Kernel \<Rightarrow> Instruction \<Rightarrow> u32 \<Rightarrow> Machine \<Rightarrow> 'k \<Rightarrow> 'k Exec res" where
  "exec_sub_xor K i pc m k =
     (let a = reg m (rs i); b = reg m (rt i)
      in case opCode i of
        OP_SUB \<Rightarrow>
          (let diff = a - b in
           if (a XOR b) AND SIGN_BIT \<noteq> 0 \<and> (a XOR diff) AND SIGN_BIT \<noteq> 0
           then trap K OverflowException 0 m k
           else go pc (set_reg (rd i) diff m) k)
      | OP_SUBU \<Rightarrow> go pc (set_reg (rd i) (a - b) m) k
      | OP_XOR \<Rightarrow> go pc (set_reg (rd i) (a XOR b) m) k
      | OP_XORI \<Rightarrow> go pc (set_reg (rt i) (a XOR (extra i AND 0xffff)) m) k
      | _ \<Rightarrow> Inl AssertFail)"

definition exec_swl_swr :: "'k Kernel \<Rightarrow> Instruction \<Rightarrow> u32 \<Rightarrow> Machine \<Rightarrow> 'k \<Rightarrow> 'k Exec res" where
  "exec_swl_swr K i pc m k =
     (let tmp = reg m (rs i) + extra i; addr = tmp AND NOT 3
      in assertR (tmp AND 3 = 0)
         (case opCode i of
            OP_SWL \<Rightarrow> read_or_return K addr 4 m k (\<lambda>value m1 k1.
              (let r = reg m1 (rt i) in
               write_or_return K addr 4
                 (if tmp AND 3 = 0 then r
                  else if tmp AND 3 = 1 then (value AND 0xff000000) OR (signed_drop_bit 8 r AND 0xffffff)
                  else if tmp AND 3 = 2 then (value AND 0xffff0000) OR (signed_drop_bit 16 r AND 0xffff)
                  else (value AND 0xffffff00) OR (signed_drop_bit 24 r AND 0xff)) pc m1 k1))
          | OP_SWR \<Rightarrow> read_or_return K addr 4 m k (\<lambda>value m1 k1.
              (let r = reg m1 (rt i) in
               write_or_return K addr 4
                 (if tmp AND 3 = 0 then (value AND 0xffffff) OR push_bit 24 r
                  else if tmp AND 3 = 1 then (value AND 0xffff) OR push_bit 16 r
                  else if tmp AND 3 = 2 then (value AND 0xff) OR push_bit 8 r
                  else r) pc m1 k1))
          | _ \<Rightarrow> Inl AssertFail))"

text \<open>The \<open>switch\<close>. \<open>OP_RFE\<close> has no case; \<open>SPECIAL\<close> and \<open>BCOND\<close> do not survive decoding.\<close>

datatype Group = G_add_and | G_branch | G_div | G_jump | G_load | G_lwl_lwr | G_hilo_or | G_store
  | G_shift_set | G_sub_xor | G_swl_swr | G_syscall | G_illegal | G_default

definition group_of :: "OpCode \<Rightarrow> Group" where
  "group_of op = (case op of
     OP_ADD \<Rightarrow> G_add_and | OP_ADDI \<Rightarrow> G_add_and | OP_ADDIU \<Rightarrow> G_add_and | OP_ADDU \<Rightarrow> G_add_and
   | OP_AND \<Rightarrow> G_add_and | OP_ANDI \<Rightarrow> G_add_and
   | OP_BEQ \<Rightarrow> G_branch | OP_BGEZAL \<Rightarrow> G_branch | OP_BGEZ \<Rightarrow> G_branch | OP_BGTZ \<Rightarrow> G_branch
   | OP_BLEZ \<Rightarrow> G_branch | OP_BLTZAL \<Rightarrow> G_branch | OP_BLTZ \<Rightarrow> G_branch | OP_BNE \<Rightarrow> G_branch
   | OP_DIV \<Rightarrow> G_div | OP_DIVU \<Rightarrow> G_div
   | OP_JAL \<Rightarrow> G_jump | OP_J \<Rightarrow> G_jump | OP_JALR \<Rightarrow> G_jump | OP_JR \<Rightarrow> G_jump
   | OP_LB \<Rightarrow> G_load | OP_LBU \<Rightarrow> G_load | OP_LH \<Rightarrow> G_load | OP_LHU \<Rightarrow> G_load | OP_LUI \<Rightarrow> G_load
   | OP_LW \<Rightarrow> G_load | OP_LWL \<Rightarrow> G_lwl_lwr | OP_LWR \<Rightarrow> G_lwl_lwr
   | OP_MFHI \<Rightarrow> G_hilo_or | OP_MFLO \<Rightarrow> G_hilo_or | OP_MTHI \<Rightarrow> G_hilo_or | OP_MTLO \<Rightarrow> G_hilo_or
   | OP_MULT \<Rightarrow> G_hilo_or | OP_MULTU \<Rightarrow> G_hilo_or | OP_NOR \<Rightarrow> G_hilo_or | OP_OR \<Rightarrow> G_hilo_or
   | OP_ORI \<Rightarrow> G_hilo_or
   | OP_SB \<Rightarrow> G_store | OP_SH \<Rightarrow> G_store | OP_SW \<Rightarrow> G_store
   | OP_SLL \<Rightarrow> G_shift_set | OP_SLLV \<Rightarrow> G_shift_set | OP_SLT \<Rightarrow> G_shift_set | OP_SLTI \<Rightarrow> G_shift_set
   | OP_SLTIU \<Rightarrow> G_shift_set | OP_SLTU \<Rightarrow> G_shift_set | OP_SRA \<Rightarrow> G_shift_set | OP_SRAV \<Rightarrow> G_shift_set
   | OP_SRL \<Rightarrow> G_shift_set | OP_SRLV \<Rightarrow> G_shift_set
   | OP_SUB \<Rightarrow> G_sub_xor | OP_SUBU \<Rightarrow> G_sub_xor | OP_XOR \<Rightarrow> G_sub_xor | OP_XORI \<Rightarrow> G_sub_xor
   | OP_SWL \<Rightarrow> G_swl_swr | OP_SWR \<Rightarrow> G_swl_swr
   | OP_SYSCALL \<Rightarrow> G_syscall | OP_RES \<Rightarrow> G_illegal | OP_UNIMP \<Rightarrow> G_illegal
   | _ \<Rightarrow> G_default)"

definition exec_switch :: "'k Kernel \<Rightarrow> Instruction \<Rightarrow> u32 \<Rightarrow> Machine \<Rightarrow> 'k \<Rightarrow> 'k Exec res" where
  "exec_switch K i pc m k =
     (case group_of (opCode i) of
        G_add_and \<Rightarrow> exec_add_and K i pc m k
      | G_branch \<Rightarrow> exec_branch i pc m k
      | G_div \<Rightarrow> exec_div i pc m k
      | G_jump \<Rightarrow> exec_jump i pc m k
      | G_load \<Rightarrow> exec_load K i pc m k
      | G_lwl_lwr \<Rightarrow> exec_lwl_lwr K i pc m k
      | G_hilo_or \<Rightarrow> exec_hilo_or i pc m k
      | G_store \<Rightarrow> exec_store K i pc m k
      | G_shift_set \<Rightarrow> exec_shift_set i pc m k
      | G_sub_xor \<Rightarrow> exec_sub_xor K i pc m k
      | G_swl_swr \<Rightarrow> exec_swl_swr K i pc m k
      | G_syscall \<Rightarrow> trap K SyscallException 0 m k
      | G_illegal \<Rightarrow> trap K IllegalInstrException 0 m k
      | G_default \<Rightarrow> Inl AssertFail)"

text \<open>The common tail: the delayed load and the program counters.\<close>

definition finish :: "'k Exec \<Rightarrow> (Machine \<times> 'k) res" where
  "finish e = (case e of
     Return m k \<Rightarrow> Inr (m, k)
   | Next m k pc nextReg nextVal \<Rightarrow>
       bindR (Machine_DelayedLoad nextReg nextVal m) (\<lambda>m1.
         let m2 = set_reg PrevPCReg (reg m1 PCReg) m1;
             m3 = set_reg PCReg (reg m2 NextPCReg) m2
         in Inr (set_reg NextPCReg pc m3, k)))"

definition Machine_OneInstruction :: "'k Kernel \<Rightarrow> Machine \<Rightarrow> 'k \<Rightarrow> (Machine \<times> 'k) res" where
  "Machine_OneInstruction K m k =
     bindR (Machine_ReadMem K (reg m PCReg) 4 m k) (\<lambda>(raw, m1, k1).
       case raw of
         None \<Rightarrow> Inr (m1, k1)
       | Some v \<Rightarrow>
           (let i = Instruction_Decode v; pc = reg m1 NextPCReg + 4
            in bindR (exec_switch K i pc m1 k1) finish))"

text \<open>
  \<open>Run()\<close> enters user mode and loops for ever; \<open>Machine_Run n\<close> is the state after \<open>n\<close> rounds,
  each one instruction and one tick of the clock (\<open>tick\<close> is \<open>interrupt->OneTick()\<close> and the
  call of the debugger).
\<close>

fun Run_loop :: "'k Kernel \<Rightarrow> (Machine \<Rightarrow> 'k \<Rightarrow> (Machine \<times> 'k) res) \<Rightarrow> nat \<Rightarrow> Machine \<Rightarrow> 'k
    \<Rightarrow> (Machine \<times> 'k) res" where
  "Run_loop K tick 0 m k = Inr (m, k)"
| "Run_loop K tick (Suc n) m k =
     bindR (Machine_OneInstruction K m k) (\<lambda>(m1, k1).
     bindR (tick m1 k1) (\<lambda>(m2, k2). Run_loop K tick n m2 k2))"

definition Machine_Run :: "'k Kernel \<Rightarrow> (Machine \<Rightarrow> 'k \<Rightarrow> (Machine \<times> 'k) res) \<Rightarrow> nat \<Rightarrow> Machine \<Rightarrow> 'k
    \<Rightarrow> (Machine \<times> 'k) res" where
  "Machine_Run K tick n m k = Run_loop K tick n m (k_setStatus K UserMode k)"

subsection \<open>The multiplication loop computes the product\<close>

definition W :: "u32 \<Rightarrow> u32 \<Rightarrow> 64 word" where
  "W hi lo = word_of_int (uint hi * 4294967296 + uint lo)"

lemma word64_eq_iff:
  "word_of_int x = (word_of_int y :: 64 word) \<longleftrightarrow> x mod 18446744073709551616 = y mod 18446744073709551616"
  by (simp add: word_of_int_eq_iff take_bit_eq_mod del: of_int_add of_int_mult)

lemma W_hi: "word_of_int ((x mod 4294967296) * 4294967296 + r) = (word_of_int (x * 4294967296 + r) :: 64 word)"
proof -
  have "(x mod 4294967296) * 4294967296 + r = x * 4294967296 + r + (- (x div 4294967296)) * 18446744073709551616"
    by (simp add: minus_div_mult_eq_mod[symmetric] algebra_simps)
  then show ?thesis unfolding word64_eq_iff by (simp only: mod_mult_self1)
qed

lemma uint_u32_range: "0 \<le> uint (v :: u32)" "uint (v :: u32) < 4294967296"
  using uint_bounded[of v] by simp_all

lemma mod_once: "0 \<le> s \<Longrightarrow> s < 2 * m \<Longrightarrow> s mod m = (if m \<le> s then s - m else s)" for s m :: int
  by (auto simp: mod_pos_pos_trivial) (metis add.commute diff_add_cancel diff_ge_0_iff_ge diff_less_eq
      mod_add_self2 mod_pos_pos_trivial mult_2)

lemma W_add:
  "W ((if lo + bLo < bLo then hi + 1 else hi) + bHi) (lo + bLo) = W hi lo + W bHi bLo"
proof -
  define s where "s = uint lo + uint bLo"
  note r = uint_u32_range[of lo] uint_u32_range[of bLo]
  have lo: "uint (lo + bLo) = s mod 4294967296" by (simp add: s_def uint_word_ariths)
  have m: "s mod 4294967296 = (if 4294967296 \<le> s then s - 4294967296 else s)"
    by (rule mod_once) (use r in \<open>auto simp: s_def\<close>)
  have lt: "lo + bLo < bLo \<longleftrightarrow> 4294967296 \<le> s"
    unfolding word_less_def lo m using r by (auto simp: s_def)
  have hi: "uint ((if lo + bLo < bLo then hi + 1 else hi) + bHi)
      = (uint hi + uint bHi + (if 4294967296 \<le> s then 1 else 0)) mod 4294967296"
    unfolding lt by (simp add: uint_word_ariths mod_simps algebra_simps)
  have "W ((if lo + bLo < bLo then hi + 1 else hi) + bHi) (lo + bLo)
      = word_of_int ((uint hi + uint bHi + (if 4294967296 \<le> s then 1 else 0)) * 4294967296 + s mod 4294967296)"
    unfolding W_def hi lo W_hi ..
  also have "(uint hi + uint bHi + (if 4294967296 \<le> s then 1 else 0)) * 4294967296 + s mod 4294967296
      = (uint hi * 4294967296 + uint lo) + (uint bHi * 4294967296 + uint bLo)"
    unfolding m by (simp add: s_def algebra_simps)
  finally show ?thesis by (simp add: W_def)
qed

lemma bit_31: "bit (uint v) 31 \<longleftrightarrow> 2147483648 \<le> uint (v :: u32)"
proof -
  have "bit (uint v) 31 \<longleftrightarrow> odd (uint v div 2147483648)" by (simp add: bit_iff_odd)
  also have "uint v div 2147483648 = (if 2147483648 \<le> uint v then 1 else 0)"
    using uint_u32_range[of v] by (auto simp: div_pos_pos_trivial div_pos_geq)
  finally show ?thesis by simp
qed

lemma top_bit: "v AND 0x80000000 \<noteq> 0 \<longleftrightarrow> 2147483648 \<le> uint (v :: u32)"
proof -
  have "v AND 0x80000000 = v AND push_bit 31 1" by simp
  then have "v AND 0x80000000 \<noteq> 0 \<longleftrightarrow> bit v 31" by (simp add: bit_iff_and_push_bit_not_eq_0)
  also have "\<dots> \<longleftrightarrow> bit (uint v) 31" by (simp add: bit_simps)
  finally show ?thesis by (simp only: bit_31)
qed

lemma sint_cases: "sint (v :: u32) = (if 2147483648 \<le> uint v then uint v - 4294967296 else uint v)"
proof -
  have "sint v = take_bit 32 (uint v) - 4294967296 * of_bool (bit (uint v) 31)"
    using signed_take_bit_eq_take_bit_minus[of 31 "uint v"] by (simp add: sint_uint)
  moreover have "take_bit 32 (uint v) = uint v"
    using uint_u32_range[of v] by (simp add: take_bit_int_eq_self_iff)
  ultimately show ?thesis unfolding bit_31 by simp
qed

lemma W_double:
  "W (if bLo AND 0x80000000 \<noteq> 0 then push_bit 1 bHi OR 1 else push_bit 1 bHi) (push_bit 1 bLo) = 2 * W bHi bLo"
proof -
  let ?c = "if 2147483648 \<le> uint bLo then 1 else 0 :: int"
  have hi: "uint (if bLo AND 0x80000000 \<noteq> 0 then push_bit 1 bHi OR 1 else push_bit 1 bHi)
      = (2 * uint bHi + ?c) mod 4294967296"
    unfolding top_bit
    by (simp add: or_one_eq uint_word_ariths push_bit_eq_mult mod_simps algebra_simps)
  have "(2 * uint bLo) mod 4294967296 = (if 4294967296 \<le> 2 * uint bLo then 2 * uint bLo - 4294967296 else 2 * uint bLo)"
    by (rule mod_once) (use uint_u32_range[of bLo] in auto)
  then have lo: "uint (push_bit 1 bLo) = 2 * uint bLo - ?c * 4294967296"
    by (simp add: uint_word_ariths push_bit_eq_mult mult.commute)
  have "W (if bLo AND 0x80000000 \<noteq> 0 then push_bit 1 bHi OR 1 else push_bit 1 bHi) (push_bit 1 bLo)
      = word_of_int ((2 * uint bHi + ?c) * 4294967296 + (2 * uint bLo - ?c * 4294967296))"
    unfolding W_def hi lo W_hi ..
  also have "(2 * uint bHi + ?c) * 4294967296 + (2 * uint bLo - ?c * 4294967296)
      = 2 * (uint bHi * 4294967296 + uint bLo)" by (simp add: algebra_simps)
  finally show ?thesis by (simp add: W_def)
qed

text \<open>The \<open>n\<close> bits of \<open>a\<close> that the remaining rounds look at.\<close>

lemma low_bits_Suc:
  assumes "n < 32"
  shows "take_bit (Suc n) (uint (a :: u32)) = (if a AND 1 \<noteq> 0 then 1 else 0)
           + 2 * take_bit n (uint (signed_drop_bit 1 a))"
proof -
  have "take_bit n (uint (signed_drop_bit 1 a)) = take_bit n (drop_bit 1 (uint a))"
    by (rule bit_eqI) (use assms in \<open>simp add: bit_take_bit_iff bit_uint_iff bit_signed_drop_bit_iff
        bit_drop_bit_eq, linarith\<close>)
  then have "take_bit n (uint (signed_drop_bit 1 a)) = take_bit n (uint a div 2)"
    by (simp add: drop_bit_eq_div)
  moreover have "a AND 1 \<noteq> 0 \<longleftrightarrow> odd (uint a)"
    unfolding aligned_iff by (simp add: even_iff_mod_2_eq_zero)
  ultimately show ?thesis by (simp add: take_bit_Suc odd_iff_mod_2_eq_one)
qed

lemma Mult_loop_W:
  "n \<le> 32 \<Longrightarrow> Mult_loop n a bHi bLo hi lo = (h, l) \<Longrightarrow>
   W h l = W hi lo + word_of_int (take_bit n (uint a)) * W bHi bLo"
proof (induction n arbitrary: a bHi bLo hi lo)
  case 0
  then show ?case by simp
next
  case (Suc n)
  let ?hi = "if a AND 1 \<noteq> 0 then (if lo + bLo < bLo then hi + 1 else hi) + bHi else hi"
  let ?lo = "if a AND 1 \<noteq> 0 then lo + bLo else lo"
  let ?t = "take_bit n (uint (signed_drop_bit 1 a))"
  have W1: "W ?hi ?lo = W hi lo + (if a AND 1 \<noteq> 0 then W bHi bLo else 0)"
    using W_add[of lo bLo hi bHi] by simp
  have tb: "take_bit (Suc n) (uint a) = (if a AND 1 \<noteq> 0 then 1 else 0) + 2 * ?t"
    using Suc.prems by (intro low_bits_Suc) simp
  show ?case
  proof (cases "a AND 1 \<noteq> 0 \<and> a AND 0xfffffffe = 0")
    case True
    then have "a = 1"
    proof -
      have "a = (a AND 1) OR (a AND 0xfffffffe)"
      proof -
        have e: "(0xfffffffe :: u32) = NOT 1" by simp
        show ?thesis unfolding e by (metis bit.conj_disj_distrib bit.disj_cancel_right bit.conj_one_right)
      qed
      then have "a = a AND 1" using True by simp
      then have "uint a = uint a mod 2" by (metis uint_and_1)
      moreover have "a \<noteq> 0" using True by auto
      ultimately have "uint a = 1" using uint_u32_range[of a] pos_mod_bound[of 2 "uint a"]
        by (metis int_one_le_iff_zero_less mod_pos_pos_trivial not_mod_2_eq_1_eq_0 order_le_less uint_0_iff zero_less_numeral)
      then show ?thesis by (metis uint_1 word_uint_eqI)
    qed
    then show ?thesis using Suc.prems W1 by (auto simp: take_bit_Suc Let_def)
  next
    case False
    then have "Mult_loop n (signed_drop_bit 1 a)
       (if bLo AND 0x80000000 \<noteq> 0 then push_bit 1 bHi OR 1 else push_bit 1 bHi) (push_bit 1 bLo) ?hi ?lo = (h, l)"
      using Suc.prems(2) by (simp add: Let_def split: if_splits)
    from Suc.IH[OF _ this] Suc.prems(1) show ?thesis
      unfolding W_double W1 tb by (simp add: algebra_simps)
  qed
qed


lemma uint_abs: "uint (if sint (a :: u32) < 0 then - a else a) = \<bar>sint a\<bar>"
  using uint_u32_range[of a] by (auto simp: sint_cases uint_word_ariths zmod_zminus1_eq_if)

lemma W_neg: "W (if NOT lo + 1 = 0 then NOT hi + 1 else NOT hi) (NOT lo + 1) = - W hi lo"
proof -
  have n: "NOT x = - x - 1" for x :: u32 by (simp add: not_eq_complement)
  have lo: "NOT lo + 1 = - lo" by (simp add: n)
  have hi: "uint (if NOT lo + 1 = 0 then NOT hi + 1 else NOT hi) = (- uint hi - (if lo = 0 then 0 else 1)) mod 4294967296"
    by (simp add: n uint_word_ariths mod_simps)
  have ul: "uint (- lo) = (if lo = 0 then 0 else 4294967296 - uint lo)"
    using uint_u32_range[of lo] by (auto simp: uint_word_ariths zmod_zminus1_eq_if uint_0_iff)
  have "W (if NOT lo + 1 = 0 then NOT hi + 1 else NOT hi) (NOT lo + 1)
      = word_of_int ((- uint hi - (if lo = 0 then 0 else 1)) * 4294967296 + (if lo = 0 then 0 else 4294967296 - uint lo))"
    unfolding W_def hi W_hi unfolding lo ul ..
  also have "(- uint hi - (if lo = 0 then 0 else 1)) * 4294967296 + (if lo = 0 then 0 else 4294967296 - uint lo)
      = - (uint hi * 4294967296 + uint lo)" by simp
  finally show ?thesis by (simp add: W_def)
qed

lemma Mult_W:
  "Mult a b sg = (h, l) \<Longrightarrow>
   W h l = word_of_int (if sg then sint a * sint b else uint a * uint b)"
proof (cases "a = 0 \<or> b = 0")
  case True
  moreover assume "Mult a b sg = (h, l)"
  ultimately show ?thesis by (auto simp: Mult_def W_def)
next
  case False
  assume M: "Mult a b sg = (h, l)"
  let ?a = "if sg \<and> sint a < 0 then - a else a"
  let ?b = "if sg \<and> sint b < 0 then - b else b"
  obtain hi lo where hl: "Mult_loop 32 ?a 0 ?b 0 0 = (hi, lo)" by (cases "Mult_loop 32 ?a 0 ?b 0 0")
  have "take_bit 32 (uint ?a) = uint ?a" using uint_u32_range[of ?a] by (simp add: take_bit_int_eq_self_iff)
  with Mult_loop_W[OF _ hl] have P: "W hi lo = word_of_int (uint ?a * uint ?b)" by (simp add: W_def)
  show ?thesis
  proof (cases sg)
    case s: False
    then show ?thesis using M hl P False by (simp add: Mult_def Let_def)
  next
    case True
    then have ab: "uint ?a * uint ?b = \<bar>sint a\<bar> * \<bar>sint b\<bar>" using uint_abs[of a] uint_abs[of b] by simp
    show ?thesis
    proof (cases "(sint a < 0) \<noteq> (sint b < 0)")
      case neg: True
      then have "h = (if NOT lo + 1 = 0 then NOT hi + 1 else NOT hi)" "l = NOT lo + 1"
        using M hl False True by (auto simp: Mult_def Let_def)
      then have "W h l = - W hi lo" by (simp only: W_neg)
      also have "\<dots> = word_of_int (- (\<bar>sint a\<bar> * \<bar>sint b\<bar>))" unfolding P ab by (simp only: of_int_minus)
      also have "- (\<bar>sint a\<bar> * \<bar>sint b\<bar>) = sint a * sint b" using neg by (auto simp: abs_if)
      finally show ?thesis using True by (simp only: if_True)
    next
      case pos: False
      then have "h = hi" "l = lo" using M hl False True by (auto simp: Mult_def Let_def)
      moreover have "\<bar>sint a\<bar> * \<bar>sint b\<bar> = sint a * sint b" using pos by (auto simp: abs_if)
      ultimately have "W h l = word_of_int (sint a * sint b)" using P unfolding ab by (simp only:)
      then show ?thesis using True by (simp only: if_True)
    qed
  qed
qed

lemma div_mod_unique: "x mod m = y mod m \<Longrightarrow> \<bar>x - y\<bar> < m \<Longrightarrow> x = (y :: int)"
  by (metis abs_of_nonneg abs_of_neg abs_ge_zero dvd_imp_le_int linorder_not_le mod_eq_dvd_iff
      right_minus_eq abs_le_D1 dvd_imp_le_int order_less_le_trans)

lemma Mult_unsigned_exact:
  "Mult a b False = (h, l) \<Longrightarrow> uint h * 2 ^ 32 + uint l = uint a * uint b"
proof -
  assume "Mult a b False = (h, l)"
  from Mult_W[OF this] have "(uint h * 4294967296 + uint l) mod 18446744073709551616
      = (uint a * uint b) mod 18446744073709551616" unfolding W_def word64_eq_iff by simp
  moreover have "uint h * 4294967296 \<le> 4294967295 * 4294967296" "uint a * uint b \<le> 4294967295 * 4294967295"
    "0 \<le> uint a * uint b" "0 \<le> uint h * 4294967296"
    using uint_u32_range[of h] mult_mono[of "uint a" 4294967295 "uint b" 4294967295]
      uint_u32_range[of a] uint_u32_range[of b] by auto
  ultimately show ?thesis using uint_u32_range[of l] by (simp add: mod_pos_pos_trivial)
qed

lemma Mult_signed_exact:
  "Mult a b True = (h, l) \<Longrightarrow> sint h * 2 ^ 32 + uint l = sint a * sint b"
proof -
  assume "Mult a b True = (h, l)"
  from Mult_W[OF this] have "(uint h * 4294967296 + uint l) mod 18446744073709551616
      = (sint a * sint b) mod 18446744073709551616" unfolding W_def word64_eq_iff by simp
  moreover have "(sint h * 4294967296 + uint l) mod 18446744073709551616
      = (uint h * 4294967296 + uint l) mod 18446744073709551616"
    unfolding sint_cases by (auto simp: mod_eq_dvd_iff algebra_simps)
  ultimately have e: "(sint h * 4294967296 + uint l) mod 18446744073709551616
      = (sint a * sint b) mod 18446744073709551616" by simp
  have r: "-2147483648 \<le> sint v" "sint v \<le> 2147483647" for v :: u32
    using uint_u32_range[of v] by (auto simp: sint_cases intro: order_trans[OF _ uint_u32_range(1)])
  have ab: "\<bar>sint v\<bar> \<le> 2147483648" for v :: u32 using r[of v] by auto
  have "\<bar>sint a * sint b\<bar> \<le> 2147483648 * 2147483648"
    unfolding abs_mult using ab[of a] ab[of b] by (intro mult_mono) auto
  moreover have "-2147483648 * 4294967296 \<le> sint h * 4294967296" "sint h * 4294967296 \<le> 2147483647 * 4294967296"
    using r[of h] by auto
  ultimately have "\<bar>(sint h * 4294967296 + uint l) - sint a * sint b\<bar> < 18446744073709551616"
    using uint_u32_range[of l] unfolding abs_less_iff abs_le_iff by linarith
  from div_mod_unique[OF e this] show ?thesis by simp
qed

subsection \<open>Overflow detection\<close>

lemma sign_iff: "v AND SIGN_BIT \<noteq> 0 \<longleftrightarrow> sint (v :: u32) < 0"
  unfolding SIGN_BIT_def top_bit sint_cases using uint_u32_range[of v] by auto

lemma sign_xor: "(a XOR b) AND SIGN_BIT \<noteq> 0 \<longleftrightarrow> (sint a < 0) \<noteq> (sint (b :: u32) < 0)"
proof -
  have b: "v AND SIGN_BIT \<noteq> 0 \<longleftrightarrow> bit v 31" for v :: u32
    using bit_iff_and_push_bit_not_eq_0[of v 31] by (simp add: SIGN_BIT_def)
  have "(a XOR b) AND SIGN_BIT \<noteq> 0 \<longleftrightarrow> (bit a 31 \<noteq> bit b 31)" unfolding b by (simp add: bit_simps)
  then show ?thesis unfolding b[symmetric] sign_iff .
qed

lemma sint_u32_range: "-2147483648 \<le> sint (v :: u32)" "sint (v :: u32) \<le> 2147483647"
  using uint_u32_range[of v] by (auto simp: sint_cases intro: order_trans[OF _ uint_u32_range(1)])

lemma sint_wrap: "sint (word_of_int x :: u32) =
    (let y = x mod 4294967296 in if 2147483648 \<le> y then y - 4294967296 else y)"
  by (simp add: sint_cases uint_word_of_int Let_def)

lemma wrap_sint:
  assumes "-4294967296 \<le> x" "x < 4294967296"
  shows "sint (word_of_int x :: u32) = (if x < -2147483648 then x + 4294967296
    else if 2147483647 < x then x - 4294967296 else x)"
proof (cases "0 \<le> x")
  case True
  then have "x mod 4294967296 = x" using assms by simp
  then show ?thesis using True by (simp add: sint_wrap Let_def)
next
  case False
  have "x mod 4294967296 = (x + 4294967296) mod 4294967296" by simp
  also have "\<dots> = x + 4294967296" using False assms by (intro mod_pos_pos_trivial) auto
  finally have "x mod 4294967296 = x + 4294967296" .
  then show ?thesis using False by (simp add: sint_wrap Let_def)
qed

lemma sint_add_sub:
  "sint (a + b :: u32) = (let x = sint a + sint b in if x < -2147483648 then x + 4294967296
    else if 2147483647 < x then x - 4294967296 else x)"
  "sint (a - b :: u32) = (let x = sint a - sint b in if x < -2147483648 then x + 4294967296
    else if 2147483647 < x then x - 4294967296 else x)"
proof -
  have e: "a + b = word_of_int (sint a + sint b)" "a - b = word_of_int (sint a - sint b)" by simp_all
  show "sint (a + b) = (let x = sint a + sint b in if x < -2147483648 then x + 4294967296
    else if 2147483647 < x then x - 4294967296 else x)" unfolding e(1)
    using sint_u32_range[of a] sint_u32_range[of b] by (subst wrap_sint) (auto simp: Let_def)
  show "sint (a - b) = (let x = sint a - sint b in if x < -2147483648 then x + 4294967296
    else if 2147483647 < x then x - 4294967296 else x)" unfolding e(2)
    using sint_u32_range[of a] sint_u32_range[of b] by (subst wrap_sint) (auto simp: Let_def)
qed

lemma add_overflow:
  "(a XOR b) AND SIGN_BIT = 0 \<and> (a XOR (a + b)) AND SIGN_BIT \<noteq> 0 \<longleftrightarrow>
   sint a + sint (b :: u32) \<notin> {-2147483648..2147483647}"
proof -
  have "(a XOR b) AND SIGN_BIT = 0 \<longleftrightarrow> (sint a < 0) = (sint b < 0)" using sign_xor[of a b] by blast
  then show ?thesis unfolding sign_xor sint_add_sub Let_def
    using sint_u32_range[of a] sint_u32_range[of b] by auto
qed

lemma sub_overflow:
  "(a XOR b) AND SIGN_BIT \<noteq> 0 \<and> (a XOR (a - b)) AND SIGN_BIT \<noteq> 0 \<longleftrightarrow>
   sint a - sint (b :: u32) \<notin> {-2147483648..2147483647}"
  unfolding sign_xor sint_add_sub Let_def using sint_u32_range[of a] sint_u32_range[of b] by auto

lemma find_entry_ref:
  assumes "Machine_ok m" "find_entry K vpn m k = Inr (Inr ref, k')"
  shows "ref_ok m ref"
proof (cases "tlb m")
  case None
  then show ?thesis using assms
    by (auto simp: find_entry_def ref_ok_def res_simps uint_less_length split: option.splits if_splits)
next
  case (Some es)
  then have len: "length es = 4" using assms by (simp add: Machine_ok_def)
  show ?thesis
  proof (cases "tlb_find es (uint vpn) 0")
    case None
    then show ?thesis using Some len assms by (simp add: find_entry_def mem_defs)
  next
    case i: (Some i)
    from tlb_find_Some[OF i] show ?thesis using Some len assms i
      by (auto simp: find_entry_def ref_ok_def mem_defs mapR_def res_simps split: if_splits)
  qed
qed

lemma Machine_Translate_state:
  assumes "Machine_Translate K v pa sz w m k = Inr (exn, pa', m', k')"
  shows "m' = m \<or> (\<exists>ref e k1. find_entry K (v div word_of_int PageSize) m k = Inr (Inr ref, k1)
    \<and> m' = set_entry ref e m)"
proof (cases "find_entry K (v div word_of_int PageSize) m k")
  case (Inl e)
  then show ?thesis using assms by (auto simp: Machine_Translate_def assertR_def split: if_splits)
next
  case (Inr rk)
  obtain r k1 where rk: "rk = (r, k1)" by (cases rk)
  show ?thesis
  proof (cases r)
    case (Inl e)
    then show ?thesis using assms Inr rk by (auto simp: Machine_Translate_def assertR_def split: if_splits)
  next
    case (Inr ref)
    then show ?thesis using assms \<open>find_entry K _ m k = Inr rk\<close> rk
      by (auto simp: Machine_Translate_def assertR_def Let_def split: if_splits)
  qed
qed

subsection \<open>The processor invariant\<close>

text \<open>
  The register file is whole, register 0 reads zero, and the pending delayed load targets a
  general register. \<open>cpu_mid\<close> is what holds between the \<open>switch\<close> and the common tail, where
  an instruction may just have written register 0.
\<close>

definition cpu_mid :: "Machine \<Rightarrow> bool" where
  "cpu_mid m \<longleftrightarrow> Machine_ok m \<and> uint (reg m LoadReg) < 32"

definition cpu_ok :: "Machine \<Rightarrow> bool" where
  "cpu_ok m \<longleftrightarrow> cpu_mid m \<and> reg m 0 = 0"

lemma Machine_ok_regs: "Machine_ok m \<Longrightarrow> length (registers m) = 40"
  by (simp add: Machine_ok_def)

lemma Machine_ok_set_reg [simp]: "Machine_ok (set_reg i v m) = Machine_ok m"
  by (simp add: Machine_ok_def set_reg_def cong: option.case_cong)

lemma reg_set_reg: "Machine_ok m \<Longrightarrow> i < 40 \<Longrightarrow> reg (set_reg i v m) j = (if i = j then v else reg m j)"
  by (simp add: reg_def set_reg_def Machine_ok_regs)

lemma cpu_mid_set_reg [simp]: "cpu_mid m \<Longrightarrow> i < 40 \<Longrightarrow> i \<noteq> LoadReg \<Longrightarrow> cpu_mid (set_reg i v m)"
  by (simp add: cpu_mid_def reg_set_reg)

lemma cpu_ok_mid: "cpu_ok m \<Longrightarrow> cpu_mid m"
  by (simp add: cpu_ok_def)

lemma and_1f: "unat (v AND 0x1f :: u32) < 32"
proof -
  have "v AND 0x1f = take_bit 5 v" by (simp add: take_bit_eq_mask mask_eq_exp_minus_1)
  then have "uint (v AND 0x1f) = uint v mod 32" by (simp add: take_bit_eq_mod uint_mod)
  then have "uint (v AND 0x1f) < int 32" by simp
  then show ?thesis by (simp only: uint_less_length)
qed

lemma Decode_fields:
  "rs (Instruction_Decode v) < 32" "rt (Instruction_Decode v) < 32" "rd (Instruction_Decode v) < 32"
  by (simp_all add: Instruction_Decode_def Let_def and_1f split: prod.splits)

lemma sint_small: "uint (v :: u32) < 32 \<Longrightarrow> sint v = uint v"
  by (simp add: sint_cases)

lemma DelayedLoad_ok:
  assumes "cpu_mid m" "uint r < 32"
  shows "\<exists>m'. Machine_DelayedLoad r v m = Inr m' \<and> cpu_ok m' \<and> reg m' LoadReg = r \<and> reg m' LoadValueReg = v
    \<and> (\<forall>j. j \<noteq> 0 \<and> j < 37 \<longrightarrow> reg m' j = (if int j = uint (reg m LoadReg) then reg m LoadValueReg else reg m j))"
proof -
  let ?l = "nat (uint (reg m LoadReg))"
  have l: "0 \<le> sint (reg m LoadReg)" "sint (reg m LoadReg) < int (length (registers m))"
    "nat (sint (reg m LoadReg)) = ?l" "?l < 32"
    using assms(1) uint_less_length[of "reg m LoadReg" 32]
    by (auto simp: cpu_mid_def sint_small Machine_ok_regs)
  let ?m = "set_reg ?l (reg m LoadValueReg) m"
  let ?m' = "set_reg 0 0 (set_reg LoadValueReg v (set_reg LoadReg r ?m))"
  have eq: "Machine_DelayedLoad r v m = Inr ?m'"
    using l by (simp add: Machine_DelayedLoad_def set_reg_def)
  have ok: "Machine_ok m" using assms(1) by (simp add: cpu_mid_def)
  have regs: "reg ?m' j = (if j = 0 then 0 else if j = LoadValueReg then v else if j = LoadReg then r
      else if j = ?l then reg m LoadValueReg else reg m j)" for j
    using l ok by (auto simp: reg_set_reg reg_defs)
  show ?thesis
  proof (intro exI conjI allI impI)
    show "cpu_ok ?m'" using ok regs[of LoadReg] regs[of 0] assms(2)
      by (simp add: cpu_ok_def cpu_mid_def reg_defs)
    show "reg ?m' LoadReg = r" "reg ?m' LoadValueReg = v" using regs by (simp_all add: reg_defs)
    fix j :: nat
    assume "j \<noteq> 0 \<and> j < 37"
    moreover have "int j = uint (reg m LoadReg) \<longleftrightarrow> j = ?l" by (metis int_nat_eq nat_int uint_ge_0)
    ultimately show "reg ?m' j = (if int j = uint (reg m LoadReg) then reg m LoadValueReg else reg m j)"
      using regs[of j] by (auto simp: reg_defs)
  qed (rule eq)
qed

subsection \<open>Decoding never leaves the switch\<close>

lemma opTable_groups: "list_all (\<lambda>(op, f). op = SPECIAL \<or> op = BCOND \<or> group_of op \<noteq> G_default) opTable"
  by (simp add: opTable_def group_of_def)

lemma specialTable_groups: "list_all (\<lambda>op. group_of op \<noteq> G_default) specialTable"
  by (simp add: specialTable_def group_of_def)

lemma and_3f: "unat (v AND 0x3f :: u32) < 64"
proof -
  have "v AND 0x3f = take_bit 6 v" by (simp add: take_bit_eq_mask mask_eq_exp_minus_1)
  then have "uint (v AND 0x3f) = uint v mod 64" by (simp add: take_bit_eq_mod uint_mod)
  then have "uint (v AND 0x3f) < int 64" by simp
  then show ?thesis by (simp only: uint_less_length)
qed

lemma table_lengths: "length opTable = 64" "length specialTable = 64"
  by (simp_all add: opTable_def specialTable_def)

lemma Decode_group: "group_of (opCode (Instruction_Decode v)) \<noteq> G_default"
proof -
  obtain op f where e: "opTable ! unat (drop_bit 26 v AND 0x3f) = (op, f)" by fastforce
  have "(op, f) \<in> set opTable" unfolding e[symmetric] by (rule nth_mem) (simp add: table_lengths and_3f)
  with opTable_groups have o: "op = SPECIAL \<or> op = BCOND \<or> group_of op \<noteq> G_default"
    by (auto simp: list_all_iff)
  have "specialTable ! unat (v AND 0x3f) \<in> set specialTable"
    by (rule nth_mem) (simp add: table_lengths and_3f)
  with specialTable_groups have s: "group_of (specialTable ! unat (v AND 0x3f)) \<noteq> G_default"
    by (auto simp: list_all_iff)
  have b: "group_of OP_BLTZ \<noteq> G_default" "group_of OP_BGEZ \<noteq> G_default" "group_of OP_BLTZAL \<noteq> G_default"
    "group_of OP_BGEZAL \<noteq> G_default" "group_of OP_UNIMP \<noteq> G_default" by (simp_all add: group_of_def)
  show ?thesis using o s b by (auto simp: Instruction_Decode_def e Let_def)
qed

subsection \<open>Instructions that stop the simulator\<close>

text \<open>The aborts exactly: an unaligned partial word, and the quotient that does not fit.\<close>

definition aborts :: "Instruction \<Rightarrow> Machine \<Rightarrow> err option" where
  "aborts i m = (if opCode i \<in> {OP_LWL, OP_LWR, OP_SWL, OP_SWR} \<and> (reg m (rs i) + extra i) AND 3 \<noteq> 0 then Some AssertFail
     else if opCode i = OP_DIV \<and> reg m (rs i) = SIGN_BIT \<and> reg m (rt i) = -1 then Some BadAccess else None)"

lemma exec_switch_aborts:
  assumes "aborts i m = Some er"
  shows "exec_switch K i pc m k = Inl er"
  using assms
  by (auto simp: aborts_def exec_switch_def group_of_def exec_lwl_lwr_def exec_swl_swr_def exec_div_def assertR_def Let_def
      split: if_splits)

subsection \<open>What the processor relies on: the kernel's exception handler\<close>

locale exception_kernel =
  fixes K :: "'k Kernel"
    and kinv :: "'k \<Rightarrow> bool"
  assumes handler_cpu: "cpu_ok m \<Longrightarrow> kinv k \<Longrightarrow> k_ExceptionHandler K e m k = Inr (m', k') \<Longrightarrow> cpu_ok m' \<and> kinv k'"
    and status_inv: "kinv k \<Longrightarrow> kinv (k_setStatus K st k)"
    and update_inv: "kinv k \<Longrightarrow> k_updatePage K p k = Inr k' \<Longrightarrow> kinv k'"
begin

definition ok :: "Machine \<Rightarrow> 'k \<Rightarrow> bool" where
  "ok m k \<longleftrightarrow> cpu_ok m \<and> kinv k"

definition mid :: "Machine \<Rightarrow> 'k \<Rightarrow> bool" where
  "mid m k \<longleftrightarrow> cpu_mid m \<and> kinv k"

lemma ok_mid: "ok m k \<Longrightarrow> mid m k"
  by (simp add: ok_def mid_def cpu_ok_def)

lemma mid_set_reg [simp]: "mid m k \<Longrightarrow> i < 40 \<Longrightarrow> i \<noteq> LoadReg \<Longrightarrow> mid (set_reg i v m) k"
  by (simp add: mid_def)

lemma RaiseException_cpu:
  assumes "mid m k" "Machine_RaiseException K e v m k = Inr (m', k')"
  shows "ok m' k'"
proof -
  have "cpu_mid (set_reg BadVAddrReg v m)" and k: "kinv (k_setStatus K SystemMode k)"
    using assms(1) status_inv by (simp_all add: mid_def reg_defs)
  from DelayedLoad_ok[OF this(1), of 0 0] obtain m1 where
    m1: "Machine_DelayedLoad 0 0 (set_reg BadVAddrReg v m) = Inr m1" "cpu_ok m1" by auto
  with assms(2) obtain k2 where "k_ExceptionHandler K e m1 (k_setStatus K SystemMode k) = Inr (m', k2)" "k' = k_setStatus K UserMode k2"
    by (auto simp: Machine_RaiseException_def res_simps)
  then show ?thesis using handler_cpu[OF m1(2) k] status_inv by (auto simp: ok_def)
qed

lemma find_entry_kinv: "kinv k \<Longrightarrow> find_entry K vpn m k = Inr (r, k') \<Longrightarrow> kinv k'"
  by (auto simp: find_entry_def res_simps mapR_def dest: update_inv split: option.splits if_splits)

lemma Translate_kinv:
  assumes "kinv k" "Machine_Translate K v pa sz w m k = Inr (exn, pa', m', k')"
  shows "kinv k'"
proof (cases "(sz = 4 \<and> v AND 3 \<noteq> 0) \<or> (sz = 2 \<and> v AND 1 \<noteq> 0)")
  case True
  then show ?thesis using assms by (simp add: Machine_Translate_def)
next
  case False
  with assms(2) obtain r k1 where r: "find_entry K (v div word_of_int PageSize) m k = Inr (r, k1)"
    unfolding Machine_Translate_def Let_def by (auto simp only: if_False assertR_eq_Inr bindR_eq_Inr split: prod.splits)
  then have "k' = k1" using False assms(2)
    by (cases r) (auto simp: Machine_Translate_def Let_def res_simps simp del: not_le split: if_splits)
  then show ?thesis using find_entry_kinv[OF assms(1) r] by simp
qed

lemma Translate_cpu:
  assumes "ok m k" "Machine_Translate K v pa sz w m k = Inr (exn, pa', m', k')"
  shows "ok m' k'"
proof -
  have "m' = m \<or> (\<exists>r e. ref_ok m r \<and> m' = set_entry r e m)"
    using Machine_Translate_state[OF assms(2)] assms(1) find_entry_ref[of m]
    unfolding ok_def mid_def cpu_ok_def cpu_mid_def by metis
  then show ?thesis using assms(1) Translate_kinv[OF _ assms(2)] by (auto simp: ok_def cpu_ok_def cpu_mid_def reg_def)
qed

lemma translate_or_trap_cpu:
  assumes "ok m k" "translate_or_trap K v sz w m k = Inr (r, m', k')"
  shows "ok m' k'"
proof -
  from assms(2) obtain exn pa m1 k1 where t: "Machine_Translate K v 0 sz w m k = Inr (exn, pa, m1, k1)"
    and c: "(if exn = NoException then Inr (Some pa, m1, k1)
       else bindR (Machine_RaiseException K exn v m1 k1) (\<lambda>(m2, k2).
         if k_VM K then
           bindR (Machine_Translate K v pa sz True m2 k2) (\<lambda>(exn', pa', m3, k3).
             Inr (if exn' \<noteq> NoException then None else Some pa', m3, k3))
         else Inr (None, m2, k2))) = Inr (r, m', k')"
    by (auto simp: translate_or_trap_def res_simps split: prod.splits)
  note ok1 = Translate_cpu[OF assms(1) t]
  show ?thesis
  proof (cases "exn = NoException")
    case False
    with c obtain m2 k2 where re: "Machine_RaiseException K exn v m1 k1 = Inr (m2, k2)"
      by (auto simp: res_simps)
    note ok2 = RaiseException_cpu[OF ok_mid[OF ok1] re]
    show ?thesis using False c re ok2 Translate_cpu[OF ok2] by (auto simp: res_simps split: if_splits)
  qed (use c ok1 in auto)
qed

lemma ReadMem_cpu:
  assumes "ok m k" "Machine_ReadMem K v sz m k = Inr (r, m', k')"
  shows "ok m' k'"
  using assms translate_or_trap_cpu[OF assms(1), where w = False]
  by (auto simp: Machine_ReadMem_def res_simps split: option.splits)

lemma store_phys_length: "store_phys mem pa sz x = Inr mem' \<Longrightarrow> length mem' = length mem"
  by (auto simp: store_phys_def res_simps Let_def split: if_splits)

lemma WriteMem_cpu:
  assumes "ok m k" "Machine_WriteMem K v sz x m k = Inr (r, m', k')"
  shows "ok m' k'"
proof -
  from assms(2) obtain q m1 where q: "translate_or_trap K v sz True m k = Inr (q, m1, k')"
    "m' = m1 \<or> (\<exists>mem. length mem = length (mainMemory m1) \<and> m' = m1\<lparr>mainMemory := mem\<rparr>)"
    by (fastforce simp: Machine_WriteMem_def res_simps split: option.splits dest!: store_phys_length)
  from translate_or_trap_cpu[OF assms(1) q(1)] q(2) show ?thesis
    by (auto simp: ok_def mid_def cpu_ok_def cpu_mid_def Machine_ok_def reg_def cong: option.case_cong)
qed

definition exec_post :: "'k Exec \<Rightarrow> bool" where
  "exec_post e = (case e of Return m k \<Rightarrow> ok m k | Next m k pc nr nv \<Rightarrow> mid m k \<and> uint nr < 32)"

lemma go_post: "go pc m k = Inr e \<Longrightarrow> mid m k \<Longrightarrow> exec_post e"
  by (auto simp: go_def exec_post_def)

lemma trap_post: "trap K ex v m k = Inr e \<Longrightarrow> mid m k \<Longrightarrow> exec_post e"
  using RaiseException_cpu by (auto simp: trap_def exec_post_def res_simps)

lemma read_post:
  assumes "read_or_return K v sz m k cont = Inr e" "ok m k"
    "\<And>x m1 k1. ok m1 k1 \<Longrightarrow> cont x m1 k1 = Inr e \<Longrightarrow> exec_post e"
  shows "exec_post e"
  using assms ReadMem_cpu[OF assms(2)]
  by (fastforce simp: read_or_return_def exec_post_def res_simps split: option.splits)

lemma write_post:
  assumes "write_or_return K v sz x pc m k = Inr e" "ok m k"
  shows "exec_post e"
  using assms WriteMem_cpu[OF assms(2)]
  by (auto simp: write_or_return_def exec_post_def go_def ok_mid res_simps split: if_splits)

lemma small_reg: "n < 32 \<Longrightarrow> uint (of_nat n :: u32) < 32"
  by (simp add: unsigned_of_nat take_bit_nat_eq_self)


definition fields_ok :: "Instruction \<Rightarrow> bool" where
  "fields_ok i \<longleftrightarrow> rs i < 32 \<and> rt i < 32 \<and> rd i < 32"

lemma set_field [simp]: "ok m k \<Longrightarrow> n < 32 \<Longrightarrow> mid (set_reg n v m) k"
  by (rule mid_set_reg) (auto simp: ok_mid reg_defs)

lemma set_special [simp]:
  "mid m k \<Longrightarrow> mid (set_reg HiReg v m) k" "mid m k \<Longrightarrow> mid (set_reg LoReg v m) k"
  by (auto simp: reg_defs)

lemma exec_add_and_post:
  "exec_add_and K i pc m k = Inr e \<Longrightarrow> ok m k \<Longrightarrow> fields_ok i \<Longrightarrow> exec_post e"
  unfolding exec_add_and_def Let_def fields_ok_def
  by (cases "opCode i"; simp split: if_splits; (elim go_post trap_post)?; simp add: ok_mid)

lemma exec_branch_post:
  "exec_branch i pc m k = Inr e \<Longrightarrow> ok m k \<Longrightarrow> exec_post e"
  unfolding exec_branch_def Let_def R31_def
  by (cases "opCode i"; simp; (elim go_post)?; simp add: ok_mid)

lemma exec_div_post:
  "exec_div i pc m k = Inr e \<Longrightarrow> ok m k \<Longrightarrow> exec_post e"
  unfolding exec_div_def Let_def
  by (cases "opCode i"; simp split: if_splits; (elim go_post)?; simp add: ok_mid)

lemma exec_jump_post:
  "exec_jump i pc m k = Inr e \<Longrightarrow> ok m k \<Longrightarrow> fields_ok i \<Longrightarrow> exec_post e"
  unfolding exec_jump_def Let_def R31_def fields_ok_def
  by (cases "opCode i"; simp; (elim go_post)?; simp add: ok_mid)

lemma exec_hilo_or_post:
  "exec_hilo_or i pc m k = Inr e \<Longrightarrow> ok m k \<Longrightarrow> fields_ok i \<Longrightarrow> exec_post e"
  unfolding exec_hilo_or_def Let_def fields_ok_def
  by (cases "opCode i"; simp split: prod.splits; (elim go_post)?; simp add: ok_mid)

lemma exec_shift_set_post:
  "exec_shift_set i pc m k = Inr e \<Longrightarrow> ok m k \<Longrightarrow> fields_ok i \<Longrightarrow> exec_post e"
  unfolding exec_shift_set_def Let_def fields_ok_def
  by (cases "opCode i"; simp; (elim go_post)?; simp add: ok_mid)

lemma exec_sub_xor_post:
  "exec_sub_xor K i pc m k = Inr e \<Longrightarrow> ok m k \<Longrightarrow> fields_ok i \<Longrightarrow> exec_post e"
  unfolding exec_sub_xor_def Let_def fields_ok_def
  by (cases "opCode i"; simp split: if_splits; (elim go_post trap_post)?; simp add: ok_mid)

lemma exec_store_post:
  "exec_store K i pc m k = Inr e \<Longrightarrow> ok m k \<Longrightarrow> exec_post e"
  unfolding exec_store_def Let_def
  by (cases "opCode i"; simp; (elim write_post)?; simp)

lemma exec_load_post:
  "exec_load K i pc m k = Inr e \<Longrightarrow> ok m k \<Longrightarrow> fields_ok i \<Longrightarrow> exec_post e"
  unfolding exec_load_def Let_def
  by (cases "opCode i"; simp split: if_splits;
      (erule read_post trap_post go_post)?;
      auto simp: exec_post_def ok_mid fields_ok_def small_reg)

lemma exec_lwl_lwr_post:
  "exec_lwl_lwr K i pc m k = Inr e \<Longrightarrow> ok m k \<Longrightarrow> fields_ok i \<Longrightarrow> exec_post e"
  unfolding exec_lwl_lwr_def Let_def assertR_def
  by (cases "opCode i"; simp split: if_splits; (erule read_post)?;
      auto simp: exec_post_def ok_mid fields_ok_def small_reg)

lemma exec_swl_swr_post:
  "exec_swl_swr K i pc m k = Inr e \<Longrightarrow> ok m k \<Longrightarrow> exec_post e"
  unfolding exec_swl_swr_def Let_def assertR_def
  by (cases "opCode i"; simp split: if_splits; (erule read_post)?;
      auto elim: write_post)

lemma exec_switch_post:
  assumes "exec_switch K i pc m k = Inr e" "ok m k" "fields_ok i"
  shows "exec_post e"
  using assms unfolding exec_switch_def
  by (cases "group_of (opCode i)"; simp only: Group.case;
      (elim exec_add_and_post exec_branch_post exec_div_post exec_jump_post exec_load_post
        exec_lwl_lwr_post exec_hilo_or_post exec_store_post exec_shift_set_post exec_sub_xor_post
        exec_swl_swr_post trap_post)?; simp add: ok_mid)

lemma finish_cpu:
  assumes "finish e = Inr (m', k')" "exec_post e"
  shows "ok m' k'"
proof (cases e)
  case (Return m k)
  then show ?thesis using assms by (simp add: finish_def exec_post_def)
next
  case (Next m k pc nr nv)
  with assms(2) DelayedLoad_ok[of m nr nv] obtain m1 where
    m1: "Machine_DelayedLoad nr nv m = Inr m1" "cpu_ok m1" "kinv k" by (auto simp: exec_post_def mid_def)
  then have ok: "Machine_ok m1" by (simp add: cpu_ok_def cpu_mid_def)
  have "k' = k" "m' = set_reg NextPCReg pc (set_reg PCReg (reg m1 NextPCReg) (set_reg PrevPCReg (reg m1 PCReg) m1))"
    using assms(1) Next m1 ok by (simp_all add: finish_def Let_def reg_set_reg reg_defs)
  then show ?thesis using m1(2,3) ok by (simp add: ok_def cpu_ok_def cpu_mid_def reg_set_reg reg_defs)
qed

lemma OneInstruction_cpu:
  assumes "ok m k" "Machine_OneInstruction K m k = Inr (m', k')"
  shows "ok m' k'"
proof -
  from assms(2) obtain raw m1 k1 where r: "Machine_ReadMem K (reg m PCReg) 4 m k = Inr (raw, m1, k1)"
    by (auto simp: Machine_OneInstruction_def res_simps)
  note ok1 = ReadMem_cpu[OF assms(1) r]
  show ?thesis
  proof (cases raw)
    case None
    then show ?thesis using assms(2) r ok1 by (simp add: Machine_OneInstruction_def)
  next
    case (Some v)
    then obtain e where e: "exec_switch K (Instruction_Decode v) (reg m1 NextPCReg + 4) m1 k1 = Inr e"
      "finish e = Inr (m', k')"
      using assms(2) r by (auto simp: Machine_OneInstruction_def Let_def res_simps)
    have "fields_ok (Instruction_Decode v)" by (simp add: fields_ok_def Decode_fields)
    from finish_cpu[OF e(2) exec_switch_post[OF e(1) ok1 this]] show ?thesis .
  qed
qed

definition handler_err :: "err \<Rightarrow> bool" where
  "handler_err er \<longleftrightarrow> (\<exists>e m k. k_ExceptionHandler K e m k = Inl er)"

lemma RaiseException_err:
  assumes "mid m k" "Machine_RaiseException K e v m k = Inl er"
  shows "handler_err er"
proof -
  have "cpu_mid (set_reg BadVAddrReg v m)" using assms(1) by (simp add: mid_def reg_defs)
  from DelayedLoad_ok[OF this, of 0 0] obtain m1 where
    "Machine_DelayedLoad 0 0 (set_reg BadVAddrReg v m) = Inr m1" by auto
  then show ?thesis using assms(2) unfolding handler_err_def
    by (auto simp: Machine_RaiseException_def res_simps)
qed

lemma translate_or_trap_err:
  assumes "ok m k" "upd_ok K" "sz \<in> {1, 2, 4}" "translate_or_trap K v sz w m k = Inl er"
  shows "handler_err er"
proof -
  have ok: "Machine_ok m" using assms(1) by (simp add: ok_def mid_def cpu_ok_def cpu_mid_def)
  from Machine_Translate_ok[OF ok assms(2,3)] obtain exn pa m1 k1 where
    t: "Machine_Translate K v 0 sz w m k = Inr (exn, pa, m1, k1)" by metis
  note ok1 = Translate_cpu[OF assms(1) t]
  show ?thesis
  proof (cases "Machine_RaiseException K exn v m1 k1")
    case (Inl e)
    then show ?thesis using assms(4) t RaiseException_err[OF ok_mid[OF ok1] Inl]
      by (auto simp: translate_or_trap_def split: if_splits)
  next
    case (Inr mk)
    obtain m2 k2 where mk: "mk = (m2, k2)" by (cases mk)
    with Inr have ok2: "ok m2 k2" using RaiseException_cpu[OF ok_mid[OF ok1]] by simp
    then have "Machine_ok m2" by (simp add: ok_def mid_def cpu_ok_def cpu_mid_def)
    from Machine_Translate_ok[OF this assms(2,3)] obtain r2 where
      "Machine_Translate K v pa sz True m2 k2 = Inr r2" by metis
    then show ?thesis using assms(4) t Inr mk
      by (auto simp: translate_or_trap_def split: if_splits prod.splits)
  qed
qed

lemma translate_or_trap_range:
  assumes "ok m k" "upd_ok K" "sz \<in> {1, 2, 4}" "translate_or_trap K v sz w m k = Inr (Some pa, m', k')"
  shows "0 \<le> pa \<and> pa + sz \<le> int (length (mainMemory m'))"
proof -
  have len: "length (mainMemory m') = 4096"
    using translate_or_trap_cpu[OF assms(1,4)] by (simp add: ok_def mid_def cpu_ok_def cpu_mid_def Machine_ok_def)
  have r: "0 \<le> p \<and> p + sz \<le> 4096" if "ok n j" "Machine_Translate K v q sz x n j = Inr (NoException, p, n', j')"
    for n q x j p n' j'
    using Machine_Translate_ok[of n K sz v q x j] that assms(2,3) by (auto simp: ok_def mid_def cpu_ok_def cpu_mid_def)
  from assms(4) obtain exn p1 m1 k1 where t: "Machine_Translate K v 0 sz w m k = Inr (exn, p1, m1, k1)"
    and c: "(if exn = NoException then Inr (Some p1, m1, k1)
       else bindR (Machine_RaiseException K exn v m1 k1) (\<lambda>(m2, k2).
         if k_VM K then
           bindR (Machine_Translate K v p1 sz True m2 k2) (\<lambda>(exn', pa', m3, k3).
             Inr (if exn' \<noteq> NoException then None else Some pa', m3, k3))
         else Inr (None, m2, k2))) = Inr (Some pa, m', k')"
    by (auto simp: translate_or_trap_def res_simps split: prod.splits)
  show ?thesis
  proof (cases "exn = NoException")
    case True
    then show ?thesis using c t r[OF assms(1)] len by auto
  next
    case False
    with c obtain m2 k2 where re: "Machine_RaiseException K exn v m1 k1 = Inr (m2, k2)"
      by (auto simp: res_simps)
    note ok2 = RaiseException_cpu[OF ok_mid[OF Translate_cpu[OF assms(1) t]] re]
    show ?thesis using False c re r[OF ok2] len by (auto simp: res_simps split: if_splits)
  qed
qed

lemma load_phys_ok: "0 \<le> pa \<Longrightarrow> pa + sz \<le> int (length mem) \<Longrightarrow> sz \<in> {1, 2, 4} \<Longrightarrow> \<exists>v. load_phys mem pa sz = Inr v"
  by (auto simp: load_phys_def)

lemma store_phys_ok: "0 \<le> pa \<Longrightarrow> pa + sz \<le> int (length mem) \<Longrightarrow> sz \<in> {1, 2, 4} \<Longrightarrow> \<exists>v. store_phys mem pa sz x = Inr v"
  by (auto simp: store_phys_def Let_def)

lemma ReadMem_err:
  assumes "ok m k" "upd_ok K" "sz \<in> {1, 2, 4}" "Machine_ReadMem K v sz m k = Inl er"
  shows "handler_err er"
proof (cases "translate_or_trap K v sz False m k")
  case (Inl e)
  then show ?thesis using assms(4) translate_or_trap_err[OF assms(1-3) Inl] by (simp add: Machine_ReadMem_def)
next
  case (Inr x)
  obtain r m1 k1 where x: "x = (r, m1, k1)" by (cases x)
  show ?thesis
  proof (cases r)
    case (Some pa)
    from translate_or_trap_range[OF assms(1-3)] Inr x Some
    have "0 \<le> pa" "pa + sz \<le> int (length (mainMemory m1))" by auto
    from load_phys_ok[OF this assms(3)] show ?thesis using assms(4) Inr x Some by (auto simp: Machine_ReadMem_def)
  qed (use assms(4) Inr x in \<open>simp add: Machine_ReadMem_def\<close>)
qed

lemma WriteMem_err:
  assumes "ok m k" "upd_ok K" "sz \<in> {1, 2, 4}" "Machine_WriteMem K v sz y m k = Inl er"
  shows "handler_err er"
proof (cases "translate_or_trap K v sz True m k")
  case (Inl e)
  then show ?thesis using assms(4) translate_or_trap_err[OF assms(1-3) Inl] by (simp add: Machine_WriteMem_def)
next
  case (Inr x)
  obtain r m1 k1 where x: "x = (r, m1, k1)" by (cases x)
  show ?thesis
  proof (cases r)
    case (Some pa)
    from translate_or_trap_range[OF assms(1-3)] Inr x Some
    have "0 \<le> pa" "pa + sz \<le> int (length (mainMemory m1))" by auto
    from store_phys_ok[OF this assms(3), of y] show ?thesis using assms(4) Inr x Some by (auto simp: Machine_WriteMem_def)
  qed (use assms(4) Inr x in \<open>simp add: Machine_WriteMem_def\<close>)
qed

lemma trap_err: "trap K ex v m k = Inl er \<Longrightarrow> mid m k \<Longrightarrow> handler_err er"
  using RaiseException_err by (auto simp: trap_def res_simps)

lemma read_err:
  assumes "read_or_return K v sz m k cont = Inl er" "ok m k" "upd_ok K" "sz \<in> {1, 2, 4}"
    "\<And>x m1 k1. ok m1 k1 \<Longrightarrow> cont x m1 k1 = Inl er \<Longrightarrow> handler_err er"
  shows "handler_err er"
  using assms(1,5) ReadMem_err[OF assms(2-4)] ReadMem_cpu[OF assms(2)]
  by (fastforce simp: read_or_return_def res_simps split: option.splits)

lemma write_err:
  assumes "write_or_return K v sz x pc m k = Inl er" "ok m k" "upd_ok K" "sz \<in> {1, 2, 4}"
  shows "handler_err er"
  using assms WriteMem_err[OF assms(2-4)]
  by (auto simp: write_or_return_def go_def res_simps split: if_splits)

lemma go_noerr [simp]: "go pc m k \<noteq> Inl er"
  by (simp add: go_def)

text \<open>The cases in which the simulator itself stops.\<close>

definition may_abort :: "Instruction \<Rightarrow> err \<Rightarrow> bool" where
  "may_abort i er \<longleftrightarrow> (opCode i \<in> {OP_LWL, OP_LWR, OP_SWL, OP_SWR} \<and> er = AssertFail)
     \<or> (opCode i = OP_DIV \<and> er = BadAccess)"

lemma plain_noerr:
  "group_of (opCode i) = G_branch \<Longrightarrow> exec_branch i pc m k \<noteq> Inl er"
  "group_of (opCode i) = G_jump \<Longrightarrow> exec_jump i pc m k \<noteq> Inl er"
  "group_of (opCode i) = G_hilo_or \<Longrightarrow> exec_hilo_or i pc m k \<noteq> Inl er"
  "group_of (opCode i) = G_shift_set \<Longrightarrow> exec_shift_set i pc m k \<noteq> Inl er"
  unfolding exec_branch_def exec_jump_def exec_hilo_or_def exec_shift_set_def Let_def
  by (cases "opCode i"; simp add: group_of_def split: prod.split)+

lemma exec_div_err:
  "exec_div i pc m k = Inl er \<Longrightarrow> group_of (opCode i) = G_div \<Longrightarrow> may_abort i er"
  unfolding exec_div_def Let_def may_abort_def
  by (cases "opCode i"; simp add: group_of_def split: if_splits)

lemma exec_trap_err:
  "exec_add_and K i pc m k = Inl er \<Longrightarrow> ok m k \<Longrightarrow> group_of (opCode i) = G_add_and \<Longrightarrow> handler_err er"
  "exec_sub_xor K i pc m k = Inl er \<Longrightarrow> ok m k \<Longrightarrow> group_of (opCode i) = G_sub_xor \<Longrightarrow> handler_err er"
  unfolding exec_add_and_def exec_sub_xor_def Let_def
  by (cases "opCode i"; simp add: group_of_def split: if_splits; (elim trap_err)?; simp add: ok_mid)+

lemma exec_mem_err:
  assumes "ok m k" "upd_ok K"
  shows "exec_load K i pc m k = Inl er \<Longrightarrow> group_of (opCode i) = G_load \<Longrightarrow> handler_err er"
    "exec_store K i pc m k = Inl er \<Longrightarrow> group_of (opCode i) = G_store \<Longrightarrow> handler_err er"
  unfolding exec_load_def exec_store_def Let_def
  by (cases "opCode i"; simp add: group_of_def split: if_splits;
      (elim trap_err read_err write_err)?; simp add: ok_mid assms)+

lemma write4_err: "write_or_return K v 4 x pc m k = Inl er \<Longrightarrow> ok m k \<Longrightarrow> upd_ok K \<Longrightarrow> handler_err er"
  by (rule write_err) auto

lemma exec_lwl_swl_err:
  assumes "ok m k" "upd_ok K"
  shows "exec_lwl_lwr K i pc m k = Inl er \<Longrightarrow> group_of (opCode i) = G_lwl_lwr \<Longrightarrow> handler_err er \<or> may_abort i er"
    "exec_swl_swr K i pc m k = Inl er \<Longrightarrow> group_of (opCode i) = G_swl_swr \<Longrightarrow> handler_err er \<or> may_abort i er"
  unfolding exec_lwl_lwr_def exec_swl_swr_def Let_def may_abort_def assertR_def
  by (cases "opCode i"; simp add: group_of_def split: if_splits; (rule disjI1)?;
      (elim read_err)?; (simp add: assms)?; (elim write4_err)?; (simp add: assms)?)+

lemma aligned_err:
  assumes "ok m k" "upd_ok K" "(reg m (rs i) + extra i) AND 3 = 0"
  shows "exec_lwl_lwr K i pc m k = Inl er \<Longrightarrow> group_of (opCode i) = G_lwl_lwr \<Longrightarrow> handler_err er"
    "exec_swl_swr K i pc m k = Inl er \<Longrightarrow> group_of (opCode i) = G_swl_swr \<Longrightarrow> handler_err er"
  unfolding exec_lwl_lwr_def exec_swl_swr_def Let_def assertR_def
  by (cases "opCode i"; simp add: group_of_def assms(3);
      (elim read_err)?; (simp add: assms)?; (elim write4_err)?; (simp add: assms)?)+

lemma exec_switch_err:
  assumes "exec_switch K i pc m k = Inl er" "ok m k" "upd_ok K" "group_of (opCode i) \<noteq> G_default"
  shows "handler_err er \<or> may_abort i er"
proof (cases "group_of (opCode i)")
  case G_add_and
  then show ?thesis using assms(1) exec_trap_err(1)[OF _ assms(2)] by (simp add: exec_switch_def)
next
  case G_branch
  then show ?thesis using assms(1) plain_noerr(1)[of i pc m k er] by (simp add: exec_switch_def)
next
  case G_div
  then show ?thesis using assms(1) exec_div_err[of i pc m k er] by (simp add: exec_switch_def)
next
  case G_jump
  then show ?thesis using assms(1) plain_noerr(2)[of i pc m k er] by (simp add: exec_switch_def)
next
  case G_load
  then show ?thesis using assms(1) exec_mem_err(1)[OF assms(2,3)] by (simp add: exec_switch_def)
next
  case G_lwl_lwr
  then show ?thesis using assms(1) exec_lwl_swl_err(1)[OF assms(2,3)] by (simp add: exec_switch_def)
next
  case G_hilo_or
  then show ?thesis using assms(1) plain_noerr(3)[of i pc m k er] by (simp add: exec_switch_def)
next
  case G_store
  then show ?thesis using assms(1) exec_mem_err(2)[OF assms(2,3)] by (simp add: exec_switch_def)
next
  case G_shift_set
  then show ?thesis using assms(1) plain_noerr(4)[of i pc m k er] by (simp add: exec_switch_def)
next
  case G_sub_xor
  then show ?thesis using assms(1) exec_trap_err(2)[OF _ assms(2)] by (simp add: exec_switch_def)
next
  case G_swl_swr
  then show ?thesis using assms(1) exec_lwl_swl_err(2)[OF assms(2,3)] by (simp add: exec_switch_def)
qed (use assms trap_err[OF _ ok_mid[OF assms(2)]] in \<open>auto simp: exec_switch_def\<close>)

lemma exec_switch_err_exact:
  assumes "exec_switch K i pc m k = Inl er" "ok m k" "upd_ok K" "group_of (opCode i) \<noteq> G_default" "aborts i m = None"
  shows "handler_err er"
proof (cases "may_abort i er")
  case True
  then consider "opCode i \<in> {OP_LWL, OP_LWR, OP_SWL, OP_SWR}" | "opCode i = OP_DIV" by (auto simp: may_abort_def)
  then show ?thesis
  proof cases
    case 1
    then have "(reg m (rs i) + extra i) AND 3 = 0" using assms(5) by (simp add: aborts_def split: if_splits)
    from aligned_err[OF assms(2,3) this] show ?thesis using 1 assms(1) by (auto simp: exec_switch_def group_of_def)
  next
    case 2
    then show ?thesis using assms(1,5)
      by (auto simp: aborts_def exec_switch_def group_of_def exec_div_def go_def Let_def split: if_splits)
  qed
qed (use exec_switch_err[OF assms(1-4)] in blast)

lemma finish_noerr: "exec_post e \<Longrightarrow> finish e \<noteq> Inl er"
proof (cases e)
  case (Next m k pc nr nv)
  moreover assume "exec_post e"
  ultimately show ?thesis using DelayedLoad_ok[of m nr nv] by (auto simp: finish_def exec_post_def mid_def Let_def)
qed (simp add: finish_def)

lemma OneInstruction_err:
  assumes "ok m k" "upd_ok K" "Machine_OneInstruction K m k = Inl er"
  shows "handler_err er \<or> (\<exists>v m1 k1. Machine_ReadMem K (reg m PCReg) 4 m k = Inr (Some v, m1, k1)
      \<and> may_abort (Instruction_Decode v) er)"
proof (cases "Machine_ReadMem K (reg m PCReg) 4 m k")
  case (Inl e)
  then show ?thesis using assms ReadMem_err[OF assms(1,2) _ Inl] by (simp add: Machine_OneInstruction_def)
next
  case (Inr x)
  obtain raw m1 k1 where x: "x = (raw, m1, k1)" by (cases x)
  show ?thesis
  proof (cases raw)
    case None
    then show ?thesis using assms(3) Inr x by (simp add: Machine_OneInstruction_def)
  next
    case (Some v)
    note ok1 = ReadMem_cpu[OF assms(1) Inr[unfolded x]]
    let ?i = "Instruction_Decode v"
    have f: "fields_ok ?i" by (simp add: fields_ok_def Decode_fields)
    have "exec_switch K ?i (reg m1 NextPCReg + 4) m1 k1 = Inl er"
      using assms(3) Inr x Some finish_noerr[OF exec_switch_post[OF _ ok1 f]]
      by (auto simp: Machine_OneInstruction_def Let_def res_simps)
    from exec_switch_err[OF this ok1 assms(2) Decode_group] Inr x Some show ?thesis by auto
  qed
qed

lemma Run_cpu:
  assumes "ok m k" "Run_loop K tick n m k = Inr (m', k')"
    and tick: "\<And>m k m' k'. ok m k \<Longrightarrow> tick m k = Inr (m', k') \<Longrightarrow> ok m' k'"
  shows "ok m' k'"
  using assms(1,2)
proof (induction n arbitrary: m k)
  case 0
  then show ?case by simp
next
  case (Suc n)
  then obtain m1 k1 m2 k2 where "Machine_OneInstruction K m k = Inr (m1, k1)" "tick m1 k1 = Inr (m2, k2)"
      and n: "Run_loop K tick n m2 k2 = Inr (m', k')"
    by (auto simp: res_simps)
  then have "ok m2 k2" using OneInstruction_cpu[OF Suc.prems(1)] tick by blast
  from Suc.IH[OF this n] show ?case .
qed

end

subsection \<open>Properties\<close>

text \<open>C6: Multiplication. The shift-and-add loop of \<open>Mult\<close>, with its early exit and its
  arithmetic shift of the \<open>int\<close> operand, leaves exactly the 64-bit product in the two result
  words, for unsigned operands and, with the sign fixed up afterwards, for signed ones,
  including the smallest integer.\<close>

theorem Mult_correct:
  "(case Mult a b False of (h, l) \<Rightarrow> uint h * 2 ^ 32 + uint l = uint a * uint b) \<and>
   (case Mult a b True of (h, l) \<Rightarrow> sint h * 2 ^ 32 + uint l = sint a * sint b)"
  by (auto dest: Mult_unsigned_exact Mult_signed_exact split: prod.split)

text \<open>Signed overflow. \<open>ADD\<close>, \<open>ADDI\<close> and \<open>SUB\<close> trap with \<open>OverflowException\<close> exactly when
  the mathematical result does not fit in 32 bits; otherwise the destination register
  receives the exact result and execution goes on.\<close>

lemma overflow_detected:
  "exec_add_and K (i\<lparr>opCode := OP_ADD\<rparr>) pc m k =
     (if sint (reg m (rs i)) + sint (reg m (rt i)) \<in> {-2147483648..2147483647}
      then Inr (Next (set_reg (rd i) (word_of_int (sint (reg m (rs i)) + sint (reg m (rt i)))) m) k pc 0 0)
      else trap K OverflowException 0 m k) \<and>
   exec_add_and K (i\<lparr>opCode := OP_ADDI\<rparr>) pc m k =
     (if sint (reg m (rs i)) + sint (extra i) \<in> {-2147483648..2147483647}
      then Inr (Next (set_reg (rt i) (word_of_int (sint (reg m (rs i)) + sint (extra i))) m) k pc 0 0)
      else trap K OverflowException 0 m k) \<and>
   exec_sub_xor K (i\<lparr>opCode := OP_SUB\<rparr>) pc m k =
     (if sint (reg m (rs i)) - sint (reg m (rt i)) \<in> {-2147483648..2147483647}
      then Inr (Next (set_reg (rd i) (word_of_int (sint (reg m (rs i)) - sint (reg m (rt i)))) m) k pc 0 0)
      else trap K OverflowException 0 m k)"
proof -
  have c: "(a XOR x) AND SIGN_BIT = 0 \<and> (x XOR (a + x)) AND SIGN_BIT \<noteq> 0 \<longleftrightarrow>
      sint a + sint x \<notin> {-2147483648..2147483647}" for a x :: u32
    using add_overflow[of x a] by (simp only: xor.commute add.commute)
  show ?thesis
    by (simp add: exec_add_and_def exec_sub_xor_def Let_def go_def add_overflow c sub_overflow
        del: atLeastAtMost_iff)
qed

text \<open>C27: Every instruction word executes. Take any word at all, any processor in order, and
  a kernel whose exception handler leaves the processor in order when it returns. Then the \<open>switch\<close> on
  the decoded word and the tail of \<open>OneInstruction\<close> return with the processor in order, or the exception handler
  of the kernel did not return; in particular \<open>default: ASSERT(false)\<close> is dead code. There are two exceptions, and in these the
  simulator always stops: a partial word load or store (\<open>LWL\<close>, \<open>LWR\<close>, \<open>SWL\<close>, \<open>SWR\<close>) at an address that is
  not a multiple of 4 fails its \<open>ASSERT\<close>, and a signed division of the smallest integer by -1 is not defined.\<close>

theorem instruction_total:
  assumes "cpu_ok m" "upd_ok K" "\<forall>e m k m' k'. cpu_ok m \<and> k_ExceptionHandler K e m k = Inr (m', k') \<longrightarrow> cpu_ok m'"
  shows "case aborts (Instruction_Decode v) m of
      Some er \<Rightarrow> exec_switch K (Instruction_Decode v) pc m k = Inl er
    | None \<Rightarrow> (case bindR (exec_switch K (Instruction_Decode v) pc m k) finish of
         Inr (m', k') \<Rightarrow> cpu_ok m'
       | Inl er \<Rightarrow> \<exists>e m1 k1. k_ExceptionHandler K e m1 k1 = Inl er)"
proof (cases "aborts (Instruction_Decode v) m")
  case None
  let ?i = "Instruction_Decode v"
  have K: "exception_kernel K (\<lambda>_. True)" by unfold_locales (use assms(3) in blast)+
  have ok: "exception_kernel.ok (\<lambda>_. True) m k" using assms(1) by (simp add: exception_kernel.ok_def[OF K])
  show ?thesis
  proof (cases "exec_switch K ?i pc m k")
    case (Inl er)
    from exception_kernel.exec_switch_err_exact[OF K Inl ok assms(2) Decode_group None] Inl None
    show ?thesis by (simp add: exception_kernel.handler_err_def[OF K])
  next
    case (Inr e)
    have "exception_kernel.fields_ok ?i" by (simp add: exception_kernel.fields_ok_def[OF K] Decode_fields)
    note p = exception_kernel.exec_switch_post[OF K Inr ok this]
    obtain m' k' where f: "finish e = Inr (m', k')"
      using exception_kernel.finish_noerr[OF K p] by (cases "finish e") auto
    show ?thesis using exception_kernel.finish_cpu[OF K f p] Inr f None by (simp add: exception_kernel.ok_def[OF K])
  qed
qed (simp add: exec_switch_aborts)

text \<open>C28: The load delay slot. The tail of an instruction that loads \<open>v\<close> into register \<open>r\<close> leaves
  every general register but the target of the previous load unchanged and advances the
  program counters through the branch delay slot; the loaded value shows up in \<open>r\<close> only
  when the next delayed load is performed, at the end of the next instruction or at a trap
  (and never in register 0).\<close>

theorem load_delay:
  assumes "cpu_ok m" "uint r < 32" "uint r2 < 32"
  shows "\<exists>m1 m2. finish (Next m k pc r v) = Inr (m1, k)
    \<and> (\<forall>j. 0 < j \<and> j < 32 \<and> int j \<noteq> uint (reg m LoadReg) \<longrightarrow> reg m1 j = reg m j)
    \<and> reg m1 PrevPCReg = reg m PCReg \<and> reg m1 PCReg = reg m NextPCReg \<and> reg m1 NextPCReg = pc
    \<and> Machine_DelayedLoad r2 v2 m1 = Inr m2 \<and> reg m2 (unat r) = (if r = 0 then 0 else v)"
proof -
  from DelayedLoad_ok[OF cpu_ok_mid[OF assms(1)] assms(2), of v] obtain m0 where
    m0: "Machine_DelayedLoad r v m = Inr m0" "cpu_ok m0" "reg m0 LoadReg = r" "reg m0 LoadValueReg = v"
      "\<And>j. j \<noteq> 0 \<Longrightarrow> j < 37 \<Longrightarrow> reg m0 j = (if int j = uint (reg m LoadReg) then reg m LoadValueReg else reg m j)"
    by blast
  have ok: "Machine_ok m0" using m0(2) by (simp add: cpu_ok_def cpu_mid_def)
  let ?m1 = "set_reg NextPCReg pc (set_reg PCReg (reg m0 NextPCReg) (set_reg PrevPCReg (reg m0 PCReg) m0))"
  have f: "finish (Next m k pc r v) = Inr (?m1, k)"
    using m0(1) ok by (simp add: finish_def Let_def reg_set_reg reg_defs)
  have ld: "uint (reg m LoadReg) < 32" using assms(1) by (simp add: cpu_ok_def cpu_mid_def)
  have pcs: "reg m0 PCReg = reg m PCReg" "reg m0 NextPCReg = reg m NextPCReg"
    using m0(5)[of PCReg] m0(5)[of NextPCReg] ld by (auto simp: reg_defs)
  have mid1: "cpu_mid ?m1" using m0(2,3) assms(2) ok by (simp add: cpu_ok_def cpu_mid_def reg_set_reg reg_defs)
  have l1: "reg ?m1 LoadReg = r" "reg ?m1 LoadValueReg = v" using m0(3,4) ok by (simp_all add: reg_set_reg reg_defs)
  from DelayedLoad_ok[OF mid1 assms(3), of v2] obtain m2 where
    m2: "Machine_DelayedLoad r2 v2 ?m1 = Inr m2" "cpu_ok m2"
      "\<And>j. j \<noteq> 0 \<Longrightarrow> j < 37 \<Longrightarrow> reg m2 j = (if int j = uint r then v else reg ?m1 j)"
    using l1 by auto
  have "unat r < 37" "unat r = 0 \<longleftrightarrow> r = 0" "int (unat r) = uint r"
    using assms(2) uint_less_length[of r 32] by (auto simp: unat_eq_zero)
  then have "reg m2 (unat r) = (if r = 0 then 0 else v)"
    using m2(2) m2(3)[of "unat r"] by (auto simp: cpu_ok_def)
  moreover have "\<forall>j. 0 < j \<and> j < 32 \<and> int j \<noteq> uint (reg m LoadReg) \<longrightarrow> reg ?m1 j = reg m j"
    using m0(5) ok by (auto simp: reg_set_reg reg_defs)
  moreover have "reg ?m1 PrevPCReg = reg m PCReg" "reg ?m1 PCReg = reg m NextPCReg" "reg ?m1 NextPCReg = pc"
    using pcs ok by (simp_all add: reg_set_reg reg_defs)
  ultimately show ?thesis using f m2(1) by blast
qed

definition demo_cpu :: Machine where
  "demo_cpu = demo_machine\<lparr>registers := (replicate 40 0)[NextPCReg := 4]\<rparr>"

lemma demo_cpu_ok: "cpu_ok demo_cpu"
  using demo_machine_ok(1)
  by (simp add: cpu_ok_def cpu_mid_def demo_cpu_def reg_def reg_defs Machine_ok_def cong: option.case_cong)

theorem load_delay_witness:
  "\<exists>m1 m2. finish (Next demo_cpu () 8 5 77) = Inr (m1, ())
    \<and> (\<forall>j. 0 < j \<and> j < 32 \<and> int j \<noteq> uint (reg demo_cpu LoadReg) \<longrightarrow> reg m1 j = reg demo_cpu j)
    \<and> reg m1 PrevPCReg = reg demo_cpu PCReg \<and> reg m1 PCReg = reg demo_cpu NextPCReg \<and> reg m1 NextPCReg = 8
    \<and> Machine_DelayedLoad 0 0 m1 = Inr m2 \<and> reg m2 (unat (5 :: u32)) = (if (5 :: u32) = 0 then 0 else 77)"
  by (rule load_delay[OF demo_cpu_ok]) simp_all

definition returning_kernel :: "unit Kernel" where
  "returning_kernel = demo_kernel\<lparr>k_ExceptionHandler := (\<lambda>e m k. Inr (m, k))\<rparr>"

theorem instruction_total_witness:
  "(\<exists>m' k'. bindR (exec_switch returning_kernel (Instruction_Decode 0x94220000) 8 demo_cpu ()) finish = Inr (m', k') \<and> cpu_ok m')
   \<and> exec_switch returning_kernel (Instruction_Decode 0x88220001) 8 demo_cpu () = Inl AssertFail"
proof -
  have d: "opCode (Instruction_Decode 0x94220000) = OP_LHU" "opCode (Instruction_Decode 0x88220001) = OP_LWL"
    "rs (Instruction_Decode 0x88220001) = 1" "extra (Instruction_Decode 0x88220001) = 1"
    by (simp_all add: Instruction_Decode_def opTable_def Let_def)
  have "reg demo_cpu 1 = 0" by (simp add: demo_cpu_def reg_def reg_defs)
  then have a: "aborts (Instruction_Decode 0x94220000) demo_cpu = None" "aborts (Instruction_Decode 0x88220001) demo_cpu = Some AssertFail"
    by (simp_all add: aborts_def d)
  have k: "upd_ok returning_kernel" "\<forall>e m k m' k'. cpu_ok m \<and> k_ExceptionHandler returning_kernel e m k = Inr (m', k') \<longrightarrow> cpu_ok m'"
    "k_ExceptionHandler returning_kernel e m1 k1 \<noteq> Inl er" for e m1 k1 er
    using demo_machine_ok(3) by (simp_all add: returning_kernel_def)
  show ?thesis
    using instruction_total[OF demo_cpu_ok k(1,2), of "0x94220000" 8 "()"] instruction_total[OF demo_cpu_ok k(1,2), of "0x88220001" 8 "()"]
    by (simp add: a k(3) split: sum.splits prod.splits)
qed

text \<open>
  Two instructions do not do what the MIPS manual (and the names of their opcodes) say:
  \<open>OR\<close> combines \<open>rs\<close> with itself, and \<open>SRL\<close> shifts the sign in.
\<close>

lemma OR_ignores_rt:
  "exec_hilo_or (i\<lparr>opCode := OP_OR\<rparr>) pc m k = go pc (set_reg (rd i) (reg m (rs i)) m) k"
  by (simp add: exec_hilo_or_def Let_def)

lemma SRL_is_arithmetic:
  "exec_shift_set (i\<lparr>opCode := OP_SRL\<rparr>) pc m k = exec_shift_set (i\<lparr>opCode := OP_SRA\<rparr>) pc m k"
  by (simp add: exec_shift_set_def Let_def)

end
