(* ===== verification/Nachos_Bitmap.thy ===== *)
theory Nachos_Bitmap
  imports Nachos_Prelude
begin

text \<open>
  \<open>userprog/bitmap.cc\<close>: an array of bits kept in an array of \<open>unsigned int\<close>. The record
  mirrors the class; every operation carries the \<open>ASSERT\<close> of its source. The abstract
  value of a bitmap is the set of marked positions (\<open>BitMap_marked\<close>), and the lemmas say
  what each operation does to that set. The interface the allocation clients rely on
  (file headers, address spaces, the swap area, the open file table) is the locale
  \<open>bit_allocator\<close>, interpreted on the operations of this theory.
\<close>

subsection \<open>The class\<close>

definition BitsInByte :: int where "BitsInByte = 8"
definition BitsInWord :: int where "BitsInWord = 32"

record BitMap =
  numBits :: int
  numWords :: int
  bm_map :: "u32 list"

definition bitMask :: "int \<Rightarrow> u32" where
  "bitMask which = push_bit (nat (which smod BitsInWord)) 1"

definition BitMap_Mark :: "BitMap \<Rightarrow> int \<Rightarrow> BitMap res" where
  "BitMap_Mark bm which =
     assertR (which \<ge> 0 \<and> which < numBits bm)
       (bindR (ixR (bm_map bm) (which sdiv BitsInWord)) (\<lambda>w.
        bindR (updR (bm_map bm) (which sdiv BitsInWord) (w OR bitMask which)) (\<lambda>ws.
        Inr (bm\<lparr>bm_map := ws\<rparr>))))"

definition BitMap_Clear :: "BitMap \<Rightarrow> int \<Rightarrow> BitMap res" where
  "BitMap_Clear bm which =
     assertR (which \<ge> 0 \<and> which < numBits bm)
       (bindR (ixR (bm_map bm) (which sdiv BitsInWord)) (\<lambda>w.
        bindR (updR (bm_map bm) (which sdiv BitsInWord) (w AND NOT (bitMask which))) (\<lambda>ws.
        Inr (bm\<lparr>bm_map := ws\<rparr>))))"

definition BitMap_Test :: "BitMap \<Rightarrow> int \<Rightarrow> bool res" where
  "BitMap_Test bm which =
     assertR (which \<ge> 0 \<and> which < numBits bm)
       (bindR (ixR (bm_map bm) (which sdiv BitsInWord)) (\<lambda>w.
        Inr (if w AND bitMask which \<noteq> 0 then True else False)))"

text \<open>\<open>for (int i = 0; i < numBits; i++) Clear(i);\<close>\<close>

function clear_from :: "BitMap \<Rightarrow> int \<Rightarrow> int \<Rightarrow> BitMap res" where
  "clear_from bm i n =
     (if i < n then bindR (BitMap_Clear bm i) (\<lambda>bm'. clear_from bm' (i + 1) n) else Inr bm)"
  by pat_completeness auto
termination
  by (relation "measure (\<lambda>(bm, i, n). nat (n - i))") auto

text \<open>
  The constructor. \<open>new unsigned int[numWords]\<close> does not initialise the words: \<open>heap\<close> is
  whatever the allocation returned.
\<close>

definition BitMap_new :: "u32 list \<Rightarrow> int \<Rightarrow> BitMap res" where
  "BitMap_new heap nitems =
     (let bm = \<lparr>numBits = nitems, numWords = divRoundUp nitems BitsInWord, bm_map = heap\<rparr>
      in clear_from bm 0 nitems)"

function Find_from :: "BitMap \<Rightarrow> int \<Rightarrow> (int \<times> BitMap) res" where
  "Find_from bm i =
     (if i < numBits bm then
        bindR (BitMap_Test bm i) (\<lambda>t.
          if \<not> t then bindR (BitMap_Mark bm i) (\<lambda>bm'. Inr (i, bm'))
          else Find_from bm (i + 1))
      else Inr (-1, bm))"
  by pat_completeness auto
termination
  by (relation "measure (\<lambda>(bm, i). nat (numBits bm - i))") auto

definition BitMap_Find :: "BitMap \<Rightarrow> (int \<times> BitMap) res" where
  "BitMap_Find bm = Find_from bm 0"

function NumClear_from :: "BitMap \<Rightarrow> int \<Rightarrow> int \<Rightarrow> int res" where
  "NumClear_from bm i count =
     (if i < numBits bm then
        bindR (BitMap_Test bm i) (\<lambda>t. NumClear_from bm (i + 1) (if \<not> t then count + 1 else count))
      else Inr count)"
  by pat_completeness auto
termination
  by (relation "measure (\<lambda>(bm, i, count). nat (numBits bm - i))") auto

definition BitMap_NumClear :: "BitMap \<Rightarrow> int res" where
  "BitMap_NumClear bm = NumClear_from bm 0 0"

declare clear_from.simps [simp del] Find_from.simps [simp del] NumClear_from.simps [simp del]

subsection \<open>The abstract value\<close>

definition bm_bit :: "BitMap \<Rightarrow> int \<Rightarrow> bool" where
  "bm_bit bm i = bit (bm_map bm ! nat (i div 32)) (nat (i mod 32))"

definition BitMap_marked :: "BitMap \<Rightarrow> int set" where
  "BitMap_marked bm = {i \<in> {0..<numBits bm}. bm_bit bm i}"

definition BitMap_ok :: "BitMap \<Rightarrow> bool" where
  "BitMap_ok bm \<longleftrightarrow> 0 \<le> numBits bm \<and> numWords bm = divRoundUp (numBits bm) BitsInWord
     \<and> int (length (bm_map bm)) = numWords bm"

lemma word_index_ok:
  assumes "BitMap_ok bm" "0 \<le> i" "i < numBits bm"
  shows "0 \<le> i div 32" "i div 32 < int (length (bm_map bm))"
  using assms div_less_divRoundUp[of i "numBits bm" 32]
  by (auto simp: BitMap_ok_def BitsInWord_def)

lemma bitMask_eq: "0 \<le> i \<Longrightarrow> bitMask i = push_bit (nat (i mod 32)) 1"
  by (simp add: bitMask_def BitsInWord_def smod_nonneg)

lemma word_index_eq: "0 \<le> i \<Longrightarrow> i sdiv BitsInWord = i div 32"
  by (simp add: BitsInWord_def sdiv_nonneg)

lemma same_bit_iff:
  assumes "0 \<le> i" "0 \<le> j"
  shows "nat (i div 32) = nat (j div 32) \<and> nat (i mod 32) = nat (j mod 32) \<longleftrightarrow> i = j"
proof
  assume "nat (i div 32) = nat (j div 32) \<and> nat (i mod 32) = nat (j mod 32)"
  then have "i div 32 = j div 32" "i mod 32 = j mod 32" 
    using assms by (simp_all add: eq_nat_nat_iff pos_imp_zdiv_nonneg_iff)
  then show "i = j" by (metis div_mult_mod_eq)
qed simp

lemma int_upto_Suc: "0 \<le> i \<Longrightarrow> {0..<i + 1} = insert i {0..<i :: int}"
  by auto

lemma int_from_Suc: "i < n \<Longrightarrow> {i..<n} = insert i {i + 1..<n :: int}"
  by auto

lemma nat_mod_32 [simp]: "nat (i mod 32) < 32"
  by (simp add: nat_less_iff)



subsection \<open>Each operation on the abstract value\<close>

lemma BitMap_Test_ok:
  assumes "BitMap_ok bm" "0 \<le> i" "i < numBits bm"
  shows "BitMap_Test bm i = Inr (i \<in> BitMap_marked bm)"
  using assms word_index_ok[OF assms]
  by (simp add: BitMap_Test_def word_index_eq bitMask_eq BitMap_marked_def bm_bit_def
      bit_iff_and_push_bit_not_eq_0)

lemma BitMap_upd_bit:
  assumes ok: "BitMap_ok bm" "0 \<le> i" "i < numBits bm"
    and j: "0 \<le> j" "j < numBits bm"
    and w: "\<And>k. k < 32 \<Longrightarrow> bit w k = (if k = nat (i mod 32) then v
                                     else bit (bm_map bm ! nat (i div 32)) k)"
  shows "bm_bit (bm\<lparr>bm_map := (bm_map bm)[nat (i div 32) := w]\<rparr>) j
         = (if j = i then v else bm_bit bm j)"
proof -
  have len: "nat (i div 32) < length (bm_map bm)"
    using word_index_ok[OF ok] by (simp add: nat_less_iff)
  show ?thesis
  proof (cases "nat (j div 32) = nat (i div 32)")
    case True
    then have "bm_bit (bm\<lparr>bm_map := (bm_map bm)[nat (i div 32) := w]\<rparr>) j = bit w (nat (j mod 32))"
      using len by (simp add: bm_bit_def)
    also have "\<dots> = (if nat (j mod 32) = nat (i mod 32) then v else bm_bit bm j)"
      using w[of "nat (j mod 32)"] True by (simp add: bm_bit_def)
    finally show ?thesis using same_bit_iff[OF j(1) ok(2)] True by auto
  next
    case False
    then show ?thesis by (auto simp: bm_bit_def)
  qed
qed

lemma BitMap_Mark_ok:
  assumes "BitMap_ok bm" "0 \<le> i" "i < numBits bm"
  shows "\<exists>bm'. BitMap_Mark bm i = Inr bm' \<and> BitMap_ok bm' \<and> numBits bm' = numBits bm
           \<and> BitMap_marked bm' = insert i (BitMap_marked bm)"
proof -
  let ?k = "nat (i div 32)"
  let ?w = "bm_map bm ! ?k OR push_bit (nat (i mod 32)) 1"
  let ?bm = "bm\<lparr>bm_map := (bm_map bm)[?k := ?w]\<rparr>"
  have "bit ?w k = (if k = nat (i mod 32) then True else bit (bm_map bm ! ?k) k)"
    if "k < 32" for k
    using that by (auto simp: bit_simps)
  from BitMap_upd_bit[OF assms _ _ this] have "BitMap_marked ?bm = insert i (BitMap_marked bm)"
    using assms by (auto simp: BitMap_marked_def)
  moreover have "BitMap_Mark bm i = Inr ?bm"
    using assms word_index_ok[OF assms]
    by (simp add: BitMap_Mark_def word_index_eq bitMask_eq)
  ultimately show ?thesis using assms by (auto simp: BitMap_ok_def)
qed

lemma BitMap_Clear_ok:
  assumes "BitMap_ok bm" "0 \<le> i" "i < numBits bm"
  shows "\<exists>bm'. BitMap_Clear bm i = Inr bm' \<and> BitMap_ok bm' \<and> numBits bm' = numBits bm
           \<and> BitMap_marked bm' = BitMap_marked bm - {i}"
proof -
  let ?k = "nat (i div 32)"
  let ?w = "bm_map bm ! ?k AND NOT (push_bit (nat (i mod 32)) 1)"
  let ?bm = "bm\<lparr>bm_map := (bm_map bm)[?k := ?w]\<rparr>"
  have "bit ?w k = (if k = nat (i mod 32) then False else bit (bm_map bm ! ?k) k)"
    if "k < 32" for k
    using that by (auto simp: bit_simps)
  from BitMap_upd_bit[OF assms _ _ this] have "BitMap_marked ?bm = BitMap_marked bm - {i}"
    using assms by (auto simp: BitMap_marked_def split: if_splits)
  moreover have "BitMap_Clear bm i = Inr ?bm"
    using assms word_index_ok[OF assms]
    by (simp add: BitMap_Clear_def word_index_eq bitMask_eq)
  ultimately show ?thesis using assms by (auto simp: BitMap_ok_def)
qed

lemma BitMap_out_of_range:
  assumes "i < 0 \<or> numBits bm \<le> i"
  shows "BitMap_Mark bm i = Inl AssertFail" and "BitMap_Clear bm i = Inl AssertFail"
    and "BitMap_Test bm i = Inl AssertFail"
  using assms by (auto simp: BitMap_Mark_def BitMap_Clear_def BitMap_Test_def assertR_def)

lemma BitMap_marked_range: "BitMap_marked bm \<subseteq> {0..<numBits bm}"
  by (auto simp: BitMap_marked_def)

lemma finite_BitMap_marked [simp]: "finite (BitMap_marked bm)"
  using BitMap_marked_range finite_subset by blast

lemma clear_from_ok:
  assumes "BitMap_ok bm" "0 \<le> i" "n = numBits bm"
  shows "\<exists>bm'. clear_from bm i n = Inr bm' \<and> BitMap_ok bm' \<and> numBits bm' = n
           \<and> BitMap_marked bm' = BitMap_marked bm \<inter> {0..<i}"
  using assms
proof (induction bm i n rule: clear_from.induct)
  case (1 bm i n)
  show ?case
  proof (cases "i < n")
    case True
    with BitMap_Clear_ok[of bm i] "1.prems" obtain bm1 where bm1: "BitMap_Clear bm i = Inr bm1"
        "BitMap_ok bm1" "numBits bm1 = numBits bm" "BitMap_marked bm1 = BitMap_marked bm - {i}"
      by auto
    with "1.IH"[OF True bm1(1)] "1.prems" obtain bm' where
      "clear_from bm1 (i + 1) n = Inr bm'" "BitMap_ok bm'" "numBits bm' = n"
      "BitMap_marked bm' = BitMap_marked bm1 \<inter> {0..<i + 1}" by auto
    moreover have "clear_from bm i n = clear_from bm1 (i + 1) n"
      using True bm1(1) by (simp add: clear_from.simps[of bm i n])
    moreover have "(BitMap_marked bm - {i}) \<inter> {0..<i + 1} = BitMap_marked bm \<inter> {0..<i}"
      by auto
    ultimately show ?thesis using bm1 by simp
  next
    case False
    then have "clear_from bm i n = Inr bm" by (simp add: clear_from.simps[of bm i n])
    moreover have "BitMap_marked bm \<inter> {0..<i} = BitMap_marked bm"
      using False "1.prems" BitMap_marked_range[of bm] by auto
    ultimately show ?thesis using "1.prems" by simp
  qed
qed

lemma BitMap_new_ok:
  assumes "0 \<le> n" "int (length heap) = divRoundUp n 32"
  shows "\<exists>bm. BitMap_new heap n = Inr bm \<and> BitMap_ok bm \<and> numBits bm = n \<and> BitMap_marked bm = {}"
proof -
  let ?bm = "\<lparr>numBits = n, numWords = divRoundUp n BitsInWord, bm_map = heap\<rparr>"
  have "BitMap_ok ?bm" using assms by (simp add: BitMap_ok_def BitsInWord_def)
  from clear_from_ok[OF this, of 0 n] show ?thesis by (simp add: BitMap_new_def)
qed

lemma Find_from_ok:
  assumes "BitMap_ok bm" "0 \<le> i" "i \<le> numBits bm" "{0..<i} \<subseteq> BitMap_marked bm"
  shows "if BitMap_marked bm = {0..<numBits bm} then Find_from bm i = Inr (-1, bm)
         else \<exists>k bm'. Find_from bm i = Inr (k, bm') \<and> k \<in> {0..<numBits bm} - BitMap_marked bm
           \<and> {0..<k} \<subseteq> BitMap_marked bm \<and> BitMap_ok bm' \<and> numBits bm' = numBits bm
           \<and> BitMap_marked bm' = insert k (BitMap_marked bm)"
  using assms
proof (induction bm i rule: Find_from.induct)
  case (1 bm i)
  note eq = Find_from.simps[of bm i]
  show ?case
  proof (cases "i < numBits bm")
    case True
    note T = BitMap_Test_ok[OF "1.prems"(1,2) True]
    show ?thesis
    proof (cases "i \<in> BitMap_marked bm")
      case marked: True
      then have "{0..<i + 1} \<subseteq> BitMap_marked bm" 
        using "1.prems" by (simp add: int_upto_Suc)
      moreover have "Find_from bm i = Find_from bm (i + 1)" using True marked by (simp add: eq T)
      ultimately show ?thesis using "1.IH"[OF True T] marked "1.prems" True
        by (simp split: if_splits)
    next
      case False
      moreover from False True "1.prems" have "BitMap_marked bm \<noteq> {0..<numBits bm}" by auto
      ultimately show ?thesis using True BitMap_Mark_ok[OF "1.prems"(1,2) True] "1.prems"
        by (auto simp: eq T)
    qed
  next
    case False
    then have "BitMap_marked bm = {0..<numBits bm}"
      using "1.prems" BitMap_marked_range[of bm] by auto
    then show ?thesis using False by (simp add: eq)
  qed
qed

lemmas BitMap_Find_ok = Find_from_ok[where i = 0, folded BitMap_Find_def, simplified]

lemma NumClear_from_ok:
  assumes "BitMap_ok bm" "0 \<le> i" "i \<le> numBits bm"
  shows "NumClear_from bm i c = Inr (c + int (card ({i..<numBits bm} - BitMap_marked bm)))"
  using assms
proof (induction bm i c rule: NumClear_from.induct)
  case (1 bm i c)
  note eq = NumClear_from.simps[of bm i c]
  show ?case
  proof (cases "i < numBits bm")
    case True
    note T = BitMap_Test_ok[OF "1.prems"(1,2) True]
    have split: "{i..<numBits bm} - BitMap_marked bm =
        (if i \<in> BitMap_marked bm then {i + 1..<numBits bm} - BitMap_marked bm
         else insert i ({i + 1..<numBits bm} - BitMap_marked bm))"
      using True by (simp add: int_from_Suc insert_Diff_if)
    show ?thesis using "1.IH"[OF True T] True "1.prems" by (auto simp: eq T split)
  next
    case False
    then have "NumClear_from bm i c = Inr c" by (simp add: eq)
    then show ?thesis using False "1.prems" by simp
  qed
qed

lemma BitMap_NumClear_ok:
  assumes "BitMap_ok bm"
  shows "BitMap_NumClear bm = Inr (numBits bm - int (card (BitMap_marked bm)))"
proof -
  have "BitMap_NumClear bm = Inr (int (card ({0..<numBits bm} - BitMap_marked bm)))"
    using assms NumClear_from_ok[of bm 0 0] by (simp add: BitMap_NumClear_def BitMap_ok_def)
  also have "card ({0..<numBits bm} - BitMap_marked bm)
      = card {0..<numBits bm} - card (BitMap_marked bm)"
    by (rule card_Diff_subset) (use BitMap_marked_range[of bm] in auto)
  finally show ?thesis
    using assms card_mono[OF _ BitMap_marked_range[of bm]] by (auto simp: BitMap_ok_def)
qed

subsection \<open>The allocator interface\<close>

text \<open>
  What the clients of a bitmap rely on: \<open>find\<close> hands out the least free position or says
  that there is none, \<open>clear\<close> gives one back, \<open>num_clear\<close> counts the free ones.
\<close>

locale bit_allocator =
  fixes invar :: "'b \<Rightarrow> bool"
    and cap :: "'b \<Rightarrow> int"
    and used :: "'b \<Rightarrow> int set"
    and fnd :: "'b \<Rightarrow> (int \<times> 'b) res"
    and clr :: "'b \<Rightarrow> int \<Rightarrow> 'b res"
    and num_clear :: "'b \<Rightarrow> int res"
  assumes used_range: "invar b \<Longrightarrow> used b \<subseteq> {0..<cap b}"
    and find_full: "invar b \<Longrightarrow> used b = {0..<cap b} \<Longrightarrow> fnd b = Inr (-1, b)"
    and find_free: "invar b \<Longrightarrow> used b \<noteq> {0..<cap b} \<Longrightarrow>
      \<exists>i b'. fnd b = Inr (i, b') \<and> i \<in> {0..<cap b} - used b \<and> {0..<i} \<subseteq> used b
        \<and> invar b' \<and> cap b' = cap b \<and> used b' = insert i (used b)"
    and clear_used: "invar b \<Longrightarrow> i \<in> used b \<Longrightarrow>
      \<exists>b'. clr b i = Inr b' \<and> invar b' \<and> cap b' = cap b \<and> used b' = used b - {i}"
    and num_clear_eq: "invar b \<Longrightarrow> num_clear b = Inr (cap b - int (card (used b)))"
begin

lemma finite_used: "invar b \<Longrightarrow> finite (used b)"
  using used_range finite_subset by blast

lemma card_used_le: "invar b \<Longrightarrow> int (card (used b)) \<le> cap b \<or> used b = {}"
  using card_mono[OF _ used_range] by (cases "0 \<le> cap b") (fastforce dest: used_range)+

lemma not_full: "invar b \<Longrightarrow> int (card (used b)) < cap b \<Longrightarrow> used b \<noteq> {0..<cap b}"
  by (auto split: if_splits)

text \<open>A position handed out and given back leaves the allocator as it was.\<close>

lemma find_then_clear:
  assumes "invar b" "used b \<noteq> {0..<cap b}" "fnd b = Inr (i, b')"
  shows "\<exists>b''. clr b' i = Inr b'' \<and> invar b'' \<and> used b'' = used b"
proof -
  from find_free[OF assms(1,2)] assms(3) have "invar b'" "i \<notin> used b" "used b' = insert i (used b)"
    by auto
  with clear_used[of b' i] show ?thesis by auto
qed

text \<open>
  As many positions as are free can be allocated in a row; they are distinct and none of
  them was in use.
\<close>

lemma alloc_loop_ok:
  assumes "invar b" "int n \<le> cap b - int (card (used b))"
  shows "\<exists>is b'. alloc_loop fnd n b = Inr (is, b') \<and> length is = n \<and> distinct is
     \<and> set is \<subseteq> {0..<cap b} - used b \<and> invar b' \<and> cap b' = cap b \<and> used b' = used b \<union> set is"
  using assms
proof (induction n arbitrary: b)
  case 0
  then show ?case by simp
next
  case (Suc n)
  then have "used b \<noteq> {0..<cap b}" by (intro not_full) auto
  from find_free[OF Suc.prems(1) this] obtain i b1 where i: "fnd b = Inr (i, b1)"
    "i \<in> {0..<cap b} - used b" "invar b1" "cap b1 = cap b" "used b1 = insert i (used b)"
    by auto
  have "card (used b1) = Suc (card (used b))"
    using i finite_used[OF Suc.prems(1)] by simp
  with Suc.prems i have "int n \<le> cap b1 - int (card (used b1))" by simp
  from Suc.IH[OF i(3) this] i show ?case by fastforce
qed

end

interpretation bitmap_alloc:
  bit_allocator BitMap_ok numBits BitMap_marked BitMap_Find BitMap_Clear BitMap_NumClear
proof
  fix b i
  assume ok: "BitMap_ok b"
  show "BitMap_marked b \<subseteq> {0..<numBits b}" by (rule BitMap_marked_range)
  show "BitMap_marked b = {0..<numBits b} \<Longrightarrow> BitMap_Find b = Inr (-1, b)"
    using BitMap_Find_ok[OF ok] ok by (simp add: BitMap_ok_def)
  show "BitMap_marked b \<noteq> {0..<numBits b} \<Longrightarrow>
      \<exists>i b'. BitMap_Find b = Inr (i, b') \<and> i \<in> {0..<numBits b} - BitMap_marked b
        \<and> {0..<i} \<subseteq> BitMap_marked b \<and> BitMap_ok b' \<and> numBits b' = numBits b
        \<and> BitMap_marked b' = insert i (BitMap_marked b)"
    using BitMap_Find_ok[OF ok] ok by (simp add: BitMap_ok_def)
  show "i \<in> BitMap_marked b \<Longrightarrow> \<exists>b'. BitMap_Clear b i = Inr b' \<and> BitMap_ok b'
      \<and> numBits b' = numBits b \<and> BitMap_marked b' = BitMap_marked b - {i}"
    using BitMap_Clear_ok[OF ok, of i] BitMap_marked_range[of b] by auto
  show "BitMap_NumClear b = Inr (numBits b - int (card (BitMap_marked b)))"
    by (rule BitMap_NumClear_ok[OF ok])
qed

subsection \<open>Properties\<close>

text \<open>The bitmap implements a set of bit numbers. On a well-formed bitmap, \<open>Test\<close> decides
  membership, \<open>Mark\<close> inserts and \<open>Clear\<close> deletes exactly the given bit, without disturbing the
  other bits of the shared word and keeping the bitmap well-formed; outside the range of the
  bitmap each of them fails its \<open>ASSERT\<close>.\<close>

lemma BitMap_implements_set:
  assumes "BitMap_ok bm"
  shows "if 0 \<le> i \<and> i < numBits bm
    then BitMap_Test bm i = Inr (i \<in> BitMap_marked bm)
      \<and> (\<exists>bm'. BitMap_Mark bm i = Inr bm' \<and> BitMap_ok bm' \<and> numBits bm' = numBits bm
           \<and> BitMap_marked bm' = insert i (BitMap_marked bm))
      \<and> (\<exists>bm'. BitMap_Clear bm i = Inr bm' \<and> BitMap_ok bm' \<and> numBits bm' = numBits bm
           \<and> BitMap_marked bm' = BitMap_marked bm - {i})
    else BitMap_Test bm i = Inl AssertFail \<and> BitMap_Mark bm i = Inl AssertFail \<and> BitMap_Clear bm i = Inl AssertFail"
  using BitMap_Test_ok[OF assms] BitMap_Mark_ok[OF assms] BitMap_Clear_ok[OF assms] BitMap_out_of_range[of i bm]
  by auto

definition demo_bitmap :: BitMap where
  "demo_bitmap = \<lparr>numBits = 40, numWords = 2, bm_map = [0, 0]\<rparr>"

lemma demo_bitmap_ok: "BitMap_ok demo_bitmap"
  by (simp add: BitMap_ok_def demo_bitmap_def BitsInWord_def divRoundUp_def)

text \<open>Allocation from a bitmap. \<open>NumClear\<close> counts the clear bits; \<open>Find\<close> returns -1 and
  changes nothing when there is none and otherwise marks and returns the least clear bit; and a
  loop of as many \<open>Find\<close> calls as there are clear bits (file headers and address spaces run it
  after checking \<open>NumClear\<close>) never meets -1 and hands out distinct bits, none of them in use.\<close>

lemma BitMap_allocation:
  assumes "BitMap_ok bm" "BitMap_NumClear bm = Inr c" "int n \<le> c"
  shows "c = numBits bm - int (card (BitMap_marked bm))
    \<and> (c = 0 \<longrightarrow> BitMap_Find bm = Inr (-1, bm))
    \<and> (0 < c \<longrightarrow> (\<exists>i bm'. BitMap_Find bm = Inr (i, bm') \<and> i \<in> {0..<numBits bm} - BitMap_marked bm
         \<and> {0..<i} \<subseteq> BitMap_marked bm \<and> BitMap_marked bm' = insert i (BitMap_marked bm)))
    \<and> (\<exists>is bm'. alloc_loop BitMap_Find n bm = Inr (is, bm') \<and> length is = n \<and> distinct is
         \<and> set is \<subseteq> {0..<numBits bm} - BitMap_marked bm
         \<and> BitMap_ok bm' \<and> BitMap_marked bm' = BitMap_marked bm \<union> set is)"
proof -
  have c: "c = numBits bm - int (card (BitMap_marked bm))"
    using assms(2) bitmap_alloc.num_clear_eq[OF assms(1)] by simp
  have full: "BitMap_marked bm = {0..<numBits bm}" if "c = 0"
  proof (rule card_subset_eq)
    show "card (BitMap_marked bm) = card {0..<numBits bm}" using that c assms(1) by (simp add: BitMap_ok_def)
  qed (auto simp: BitMap_marked_range)
  have free: "BitMap_marked bm \<noteq> {0..<numBits bm}" if "0 < c"
    using bitmap_alloc.not_full[OF assms(1)] that c by simp
  have f: "0 < c \<longrightarrow> (\<exists>i bm'. BitMap_Find bm = Inr (i, bm') \<and> i \<in> {0..<numBits bm} - BitMap_marked bm
         \<and> {0..<i} \<subseteq> BitMap_marked bm \<and> BitMap_marked bm' = insert i (BitMap_marked bm))"
    using bitmap_alloc.find_free[OF assms(1) free] by blast
  have "int n \<le> numBits bm - int (card (BitMap_marked bm))" using assms(3) c by simp
  from bitmap_alloc.alloc_loop_ok[OF assms(1) this] have a: "\<exists>is bm'. alloc_loop BitMap_Find n bm = Inr (is, bm')
      \<and> length is = n \<and> distinct is \<and> set is \<subseteq> {0..<numBits bm} - BitMap_marked bm
      \<and> BitMap_ok bm' \<and> BitMap_marked bm' = BitMap_marked bm \<union> set is" by blast
  show ?thesis using c full bitmap_alloc.find_full[OF assms(1)] f a by blast
qed

end
