(* ===== verification/Nachos_Files.thy ===== *)
theory Nachos_Files
  imports Nachos_Disk Nachos_Bitmap
begin

text \<open>
  \<open>filesys/filehdr.cc\<close> and \<open>filesys/openfile.cc\<close>: file headers, the tables that say which disk
  sectors hold a file, and open files, which read and write any byte range of a file through
  the synchronous disk of theory \<open>Nachos_Disk\<close>. A header is stored in one sector, as the
  little-endian image of its thirty-two integers. The contents of memory that \<open>new\<close> returned
  is an argument (\<open>junk\<close>, or the old value of a header), so nothing is assumed about it.
\<close>

subsection \<open>Arrays of integers as bytes\<close>

definition bytes_of :: "u32 list \<Rightarrow> byte list" where
  "bytes_of ws = concat (map word_bytes ws)"

fun words_of :: "byte list \<Rightarrow> u32 list" where
  "words_of (a # b # c # d # bs) = bytes_word [a, b, c, d] # words_of bs"
| "words_of bs = []"

definition ints_bytes :: "int list \<Rightarrow> byte list" where
  "ints_bytes xs = bytes_of (map word_of_int xs)"

definition bytes_ints :: "byte list \<Rightarrow> int list" where
  "bytes_ints bs = map sint (words_of bs)"

definition is_int :: "int \<Rightarrow> bool" where
  "is_int x \<longleftrightarrow> - 2147483648 \<le> x \<and> x \<le> 2147483647"

lemma length_bytes_of [simp]: "length (bytes_of ws) = 4 * length ws"
  by (induction ws) (simp_all add: bytes_of_def)

lemma words_of_bytes_of [simp]: "words_of (bytes_of ws @ rest) = ws @ words_of rest"
proof (induction ws)
  case (Cons w ws)
  have "bytes_word [ucast w, ucast (drop_bit 8 w), ucast (drop_bit 16 w), ucast (drop_bit 24 w)] = w"
    using bytes_word_bytes[of w] by (simp add: word_bytes_def)
  with Cons show ?case by (simp add: bytes_of_def word_bytes_def)
qed (simp add: bytes_of_def)

lemma bytes_of_words_of: "length bs mod 4 = 0 \<Longrightarrow> bytes_of (words_of bs) = bs"
proof (induction bs rule: words_of.induct)
  case (1 a b c d bs)
  then show ?case using word_bytes_bytes[of "[a, b, c, d]"] by (simp add: bytes_of_def)
qed (simp_all add: bytes_of_def)

lemma length_words_of: "length (words_of bs) = length bs div 4"
  by (induction bs rule: words_of.induct) simp_all

lemma sint_word_of_int_id: "is_int x \<Longrightarrow> sint (word_of_int x :: u32) = x"
  by (simp add: is_int_def sint_sbintrunc' signed_take_bit_int_eq_self)

lemma bytes_ints_bytes [simp]:
  "list_all is_int xs \<Longrightarrow> bytes_ints (ints_bytes xs @ rest) = xs @ bytes_ints rest"
  by (simp add: bytes_ints_def ints_bytes_def map_idI list_all_iff sint_word_of_int_id)

lemma length_ints_bytes [simp]: "length (ints_bytes xs) = 4 * length xs"
  by (simp add: ints_bytes_def)

subsection \<open>File headers\<close>

definition NumDirect :: int where "NumDirect = (SectorSize - 2 * 4) div 4"

record FileHeader =
  numBytes :: int
  numSectors :: int
  dataSectors :: "int list"

definition hdr_bytes :: "FileHeader \<Rightarrow> byte list" where
  "hdr_bytes h = ints_bytes ([numBytes h, numSectors h] @ dataSectors h)"

definition bytes_hdr :: "byte list \<Rightarrow> FileHeader" where
  "bytes_hdr bs = (let xs = bytes_ints bs in
     \<lparr>numBytes = xs ! 0, numSectors = xs ! 1, dataSectors = drop 2 xs\<rparr>)"

text \<open>The store into \<open>dataSectors[i]\<close> is out of bounds from the thirty-first sector on.\<close>

definition FileHeader_Allocate :: "FileHeader \<Rightarrow> BitMap \<Rightarrow> int \<Rightarrow> (bool \<times> FileHeader \<times> BitMap) res" where
  "FileHeader_Allocate h freeMap fileSize =
     (let h1 = h\<lparr>numBytes := fileSize, numSectors := divRoundUp fileSize SectorSize\<rparr> in
      bindR (BitMap_NumClear freeMap) (\<lambda>clear.
      if clear < numSectors h1 then Inr (False, h1, freeMap)
      else bindR (alloc_loop BitMap_Find (nat (numSectors h1)) freeMap) (\<lambda>(found, freeMap').
        if int (length found) \<le> NumDirect
        then Inr (True, h1\<lparr>dataSectors := overwrite (dataSectors h1) 0 found\<rparr>, freeMap')
        else Inl BadAccess)))"

function Deallocate_from :: "FileHeader \<Rightarrow> int \<Rightarrow> BitMap \<Rightarrow> BitMap res" where
  "Deallocate_from h i freeMap =
     (if i < numSectors h then
        bindR (ixR (dataSectors h) i) (\<lambda>sec.
        bindR (BitMap_Test freeMap sec) (\<lambda>marked.
        assertR marked (
        bindR (BitMap_Clear freeMap sec) (Deallocate_from h (i + 1)))))
      else Inr freeMap)"
  by pat_completeness auto
termination by (relation "measure (\<lambda>(h, i, _). nat (numSectors h - i))") auto

declare Deallocate_from.simps [simp del]

definition FileHeader_Deallocate :: "FileHeader \<Rightarrow> BitMap \<Rightarrow> BitMap res" where
  "FileHeader_Deallocate h freeMap = Deallocate_from h 0 freeMap"

definition FileHeader_FetchFrom :: "int \<Rightarrow> DiskHw \<Rightarrow> (FileHeader \<times> DiskHw) res" where
  "FileHeader_FetchFrom sector s = mapR (\<lambda>(bs, s'). (bytes_hdr bs, s')) (SynchDisk_ReadSector sector s)"

definition FileHeader_WriteBack :: "FileHeader \<Rightarrow> int \<Rightarrow> DiskHw \<Rightarrow> DiskHw res" where
  "FileHeader_WriteBack h sector s = SynchDisk_WriteSector sector (hdr_bytes h) s"

definition FileHeader_ByteToSector :: "FileHeader \<Rightarrow> int \<Rightarrow> int res" where
  "FileHeader_ByteToSector h offset = ixR (dataSectors h) (offset sdiv SectorSize)"

definition FileHeader_FileLength :: "FileHeader \<Rightarrow> int" where
  "FileHeader_FileLength h = numBytes h"

subsection \<open>Open files\<close>

record OpenFile =
  of_hdr :: FileHeader
  seekPosition :: int

definition OpenFile_new :: "int \<Rightarrow> DiskHw \<Rightarrow> (OpenFile \<times> DiskHw) res" where
  "OpenFile_new sector s = mapR (\<lambda>(h, s'). (\<lparr>of_hdr = h, seekPosition = 0\<rparr>, s')) (FileHeader_FetchFrom sector s)"

definition OpenFile_Seek :: "int \<Rightarrow> OpenFile \<Rightarrow> OpenFile" where
  "OpenFile_Seek position f = f\<lparr>seekPosition := position\<rparr>"

definition OpenFile_Length :: "OpenFile \<Rightarrow> int" where
  "OpenFile_Length f = FileHeader_FileLength (of_hdr f)"

text \<open>\<open>for (i = firstSector; i <= lastSector; i++) ReadSector(ByteToSector(i * SectorSize), ...)\<close>,
  \<open>n\<close> rounds from \<open>i\<close> on.\<close>

fun ReadAt_loop :: "FileHeader \<Rightarrow> nat \<Rightarrow> int \<Rightarrow> DiskHw \<Rightarrow> (byte list \<times> DiskHw) res" where
  "ReadAt_loop h 0 i s = Inr ([], s)"
| "ReadAt_loop h (Suc n) i s =
     bindR (FileHeader_ByteToSector h (i * SectorSize)) (\<lambda>sec.
     bindR (SynchDisk_ReadSector sec s) (\<lambda>(data, s').
     bindR (ReadAt_loop h n (i + 1) s') (\<lambda>(rest, s''). Inr (data @ rest, s''))))"

fun WriteAt_loop :: "FileHeader \<Rightarrow> nat \<Rightarrow> int \<Rightarrow> byte list \<Rightarrow> DiskHw \<Rightarrow> DiskHw res" where
  "WriteAt_loop h 0 i buf s = Inr s"
| "WriteAt_loop h (Suc n) i buf s =
     bindR (FileHeader_ByteToSector h (i * SectorSize)) (\<lambda>sec.
     bindR (SynchDisk_WriteSector sec (take 128 buf) s) (\<lambda>s'.
     WriteAt_loop h n (i + 1) (drop 128 buf) s'))"

text \<open>\<open>bcopy(&buf[off], into, n)\<close> and \<open>bcopy(from, &buf[off], n)\<close>\<close>

definition copy_out :: "byte list \<Rightarrow> int \<Rightarrow> int \<Rightarrow> byte list res" where
  "copy_out buf off n = (if 0 \<le> off \<and> off + n \<le> int (length buf) then Inr (take (nat n) (drop (nat off) buf))
     else Inl BadAccess)"

definition copy_in :: "byte list \<Rightarrow> byte list \<Rightarrow> int \<Rightarrow> int \<Rightarrow> byte list res" where
  "copy_in from buf off n = (if 0 \<le> off \<and> off + n \<le> int (length buf) \<and> n \<le> int (length from)
     then Inr (overwrite buf (nat off) (take (nat n) from)) else Inl BadAccess)"

text \<open>\<open>ReadAt\<close> yields the bytes it copied to \<open>into\<close>; its result is their number.\<close>

definition OpenFile_ReadAt :: "FileHeader \<Rightarrow> int \<Rightarrow> int \<Rightarrow> DiskHw \<Rightarrow> (byte list \<times> DiskHw) res" where
  "OpenFile_ReadAt h n position s =
     (let fileLength = FileHeader_FileLength h in
      if n \<le> 0 \<or> position \<ge> fileLength then Inr ([], s)
      else
        let n = (if position + n > fileLength then fileLength - position else n);
            firstSector = divRoundDown position SectorSize;
            lastSector = divRoundDown (position + n - 1) SectorSize;
            nSectors = 1 + lastSector - firstSector
        in bindR (ReadAt_loop h (nat nSectors) firstSector s) (\<lambda>(buf, s').
           bindR (copy_out buf (position - firstSector * SectorSize) n) (\<lambda>data. Inr (data, s'))))"

text \<open>\<open>if (partial) ReadAt(&buf[off], SectorSize, position)\<close>\<close>

definition fetch_part :: "bool \<Rightarrow> FileHeader \<Rightarrow> int \<Rightarrow> byte list \<Rightarrow> int \<Rightarrow> DiskHw \<Rightarrow> (byte list \<times> DiskHw) res" where
  "fetch_part partial h position buf off s =
     (if partial then
        bindR (OpenFile_ReadAt h SectorSize position s) (\<lambda>(data, s').
        bindR (copy_in data buf off (int (length data))) (\<lambda>buf'. Inr (buf', s')))
      else Inr (buf, s))"

definition OpenFile_WriteAt ::
    "(nat \<Rightarrow> byte) \<Rightarrow> FileHeader \<Rightarrow> byte list \<Rightarrow> int \<Rightarrow> int \<Rightarrow> DiskHw \<Rightarrow> (int \<times> DiskHw) res" where
  "OpenFile_WriteAt junk h from n position s =
     (let fileLength = FileHeader_FileLength h in
      if n \<le> 0 \<or> position \<ge> fileLength then Inr (0, s)
      else
        let n = (if position + n > fileLength then fileLength - position else n);
            firstSector = divRoundDown position SectorSize;
            lastSector = divRoundDown (position + n - 1) SectorSize;
            nSectors = 1 + lastSector - firstSector;
            buf = map junk [0..<nat (nSectors * SectorSize)];
            firstAligned = (position = firstSector * SectorSize);
            lastAligned = (position + n = (lastSector + 1) * SectorSize)
        in bindR (fetch_part (\<not> firstAligned) h (firstSector * SectorSize) buf 0 s) (\<lambda>(buf1, s1).
           bindR (fetch_part (\<not> lastAligned \<and> (firstSector \<noteq> lastSector \<or> firstAligned)) h (lastSector * SectorSize)
                   buf1 ((lastSector - firstSector) * SectorSize) s1) (\<lambda>(buf2, s2).
           bindR (copy_in from buf2 (position - firstSector * SectorSize) n) (\<lambda>buf3.
           bindR (WriteAt_loop h (nat nSectors) firstSector buf3 s2) (\<lambda>s3. Inr (n, s3))))))"

definition OpenFile_Read :: "OpenFile \<Rightarrow> int \<Rightarrow> DiskHw \<Rightarrow> (byte list \<times> OpenFile \<times> DiskHw) res" where
  "OpenFile_Read f n s =
     mapR (\<lambda>(data, s'). (data, f\<lparr>seekPosition := seekPosition f + int (length data)\<rparr>, s'))
       (OpenFile_ReadAt (of_hdr f) n (seekPosition f) s)"

definition OpenFile_Write ::
    "(nat \<Rightarrow> byte) \<Rightarrow> OpenFile \<Rightarrow> byte list \<Rightarrow> int \<Rightarrow> DiskHw \<Rightarrow> (int \<times> OpenFile \<times> DiskHw) res" where
  "OpenFile_Write junk f from n s =
     mapR (\<lambda>(result, s'). (result, f\<lparr>seekPosition := seekPosition f + result\<rparr>, s'))
       (OpenFile_WriteAt junk (of_hdr f) from n (seekPosition f) s)"

subsection \<open>Files as sequences of blocks\<close>

lemma length_concat_blocks:
  "\<forall>x \<in> set xs. length (f x) = b \<Longrightarrow> length (concat (map f xs)) = b * length xs"
  by (induction xs) auto

lemma concat_take_blocks:
  "\<forall>x \<in> set xs. length (f x) = b \<Longrightarrow> concat (map f (take k xs)) = take (b * k) (concat (map f xs))"
proof (induction xs arbitrary: k)
  case (Cons x xs)
  then show ?case by (cases k) simp_all
qed simp

lemma concat_drop_blocks:
  "\<forall>x \<in> set xs. length (f x) = b \<Longrightarrow> concat (map f (drop k xs)) = drop (b * k) (concat (map f xs))"
proof (induction xs arbitrary: k)
  case (Cons x xs)
  then show ?case by (cases k) simp_all
qed simp

lemma in_set_take_drop: "x \<in> set (take m (drop k xs)) \<Longrightarrow> x \<in> set xs"
  by (meson in_set_dropD in_set_takeD)

text \<open>Replacing \<open>m\<close> blocks from block \<open>k\<close> on replaces the bytes they hold.\<close>

lemma concat_blocks_overwrite:
  assumes "\<forall>x \<in> set xs. length (f x) = b" "\<forall>x \<in> set xs. length (g x) = b" "distinct xs" "k + m \<le> length xs"
    and "\<forall>x \<in> set xs - set (take m (drop k xs)). g x = f x"
  shows "concat (map g xs) = overwrite (concat (map f xs)) (b * k) (concat (map g (take m (drop k xs))))"
proof -
  let ?mid = "take m (drop k xs)"
  have xs: "xs = take k xs @ ?mid @ drop (k + m) xs"
    using append_take_drop_id[of k xs] append_take_drop_id[of m "drop k xs"] by (simp add: add.commute)
  have "distinct (take k xs @ ?mid @ drop (k + m) xs)" using assms(3) by (simp only: xs[symmetric])
  then have d: "set (take k xs) \<inter> set ?mid = {}" "set ?mid \<inter> set (drop (k + m) xs) = {}" by auto
  have "map g (take k xs) = map f (take k xs)" "map g (drop (k + m) xs) = map f (drop (k + m) xs)"
    using assms(5) d by (auto intro!: map_cong dest: in_set_takeD in_set_dropD)
  then have "concat (map g (take k xs @ ?mid @ drop (k + m) xs))
      = concat (map f (take k xs)) @ concat (map g ?mid) @ concat (map f (drop (k + m) xs))"
    by (simp only: map_append concat_append)
  then have "concat (map g xs) = concat (map f (take k xs)) @ concat (map g ?mid) @ concat (map f (drop (k + m) xs))"
    by (simp only: xs[symmetric])
  moreover have "length (concat (map g ?mid)) = b * m"
    using assms(2,4) by (subst length_concat_blocks[where b = b]) (auto dest: in_set_take_drop)
  ultimately show ?thesis
    using concat_take_blocks[OF assms(1)] concat_drop_blocks[OF assms(1)]
    by (simp add: overwrite_def algebra_simps)
qed

definition data_sectors :: "FileHeader \<Rightarrow> int list" where
  "data_sectors h = take (nat (numSectors h)) (dataSectors h)"

definition hdr_ok :: "FileHeader \<Rightarrow> bool" where
  "hdr_ok h \<longleftrightarrow> 0 \<le> numBytes h \<and> numSectors h = divRoundUp (numBytes h) SectorSize \<and> numSectors h \<le> NumDirect
     \<and> int (length (dataSectors h)) = NumDirect \<and> distinct (data_sectors h)
     \<and> (\<forall>i \<in> set (data_sectors h). 0 \<le> i \<and> i < NumSectors)"

definition blocks :: "FileHeader \<Rightarrow> DiskHw \<Rightarrow> byte list" where
  "blocks h s = concat (map (sectors s) (data_sectors h))"

definition contents :: "FileHeader \<Rightarrow> DiskHw \<Rightarrow> byte list" where
  "contents h s = take (nat (numBytes h)) (blocks h s)"

lemma NumDirect_eq: "NumDirect = 30"
  by (simp add: NumDirect_def SectorSize_def)

lemma length_data_sectors: "hdr_ok h \<Longrightarrow> length (data_sectors h) = nat (numSectors h)"
  by (auto simp: hdr_ok_def data_sectors_def min_def)

lemma hdr_ok_sectors: "hdr_ok h \<Longrightarrow> 0 \<le> numSectors h \<and> numBytes h \<le> 128 * numSectors h"
  using divRoundUp_ge0[of "numBytes h" 128] divRoundUp_covers(1)[of "numBytes h" 128]
  by (simp add: hdr_ok_def SectorSize_def)

lemma sectors_128:
  assumes "hdr_ok h" "SD_ok s"
  shows "\<forall>i \<in> set (data_sectors h). length (sectors s i) = 128"
  using assms length_sectors by (auto simp: hdr_ok_def)

lemma length_blocks: "hdr_ok h \<Longrightarrow> SD_ok s \<Longrightarrow> length (blocks h s) = 128 * nat (numSectors h)"
  unfolding blocks_def by (subst length_concat_blocks[OF sectors_128]) (simp_all add: length_data_sectors)

lemma length_contents: "hdr_ok h \<Longrightarrow> SD_ok s \<Longrightarrow> length (contents h s) = nat (numBytes h)"
  using hdr_ok_sectors[of h] by (simp add: contents_def length_blocks nat_le_iff)

lemma ByteToSector_ok:
  assumes "hdr_ok h" "k < nat (numSectors h)"
  shows "FileHeader_ByteToSector h (int k * SectorSize) = Inr (data_sectors h ! k)"
  using assms by (auto simp: FileHeader_ByteToSector_def SectorSize_def sdiv_nonneg hdr_ok_def data_sectors_def ixR_def)

lemma ReadAt_loop_sectors:
  assumes "hdr_ok h" "k + m \<le> nat (numSectors h)"
  shows "ReadAt_loop h m (int k) s = read_sectors SynchDisk_ReadSector (take m (drop k (data_sectors h))) s"
  using assms
proof (induction m arbitrary: k s)
  case (Suc m)
  have k: "k < length (data_sectors h)" using Suc.prems by (simp add: length_data_sectors)
  have "ReadAt_loop h m (int k + 1) s'
      = read_sectors SynchDisk_ReadSector (take m (drop (Suc k) (data_sectors h))) s'" for s'
    using Suc.IH[of "Suc k" s'] Suc.prems by (simp add: add.commute)
  then show ?case
    using ByteToSector_ok[of h k] Suc.prems Cons_nth_drop_Suc[OF k, symmetric] by simp
qed simp

lemma WriteAt_loop_sectors:
  assumes "hdr_ok h" "k + m \<le> nat (numSectors h)"
  shows "WriteAt_loop h m (int k) buf s = write_sectors SynchDisk_WriteSector (take m (drop k (data_sectors h))) buf s"
  using assms
proof (induction m arbitrary: k s buf)
  case (Suc m)
  have k: "k < length (data_sectors h)" using Suc.prems by (simp add: length_data_sectors)
  have "WriteAt_loop h m (int k + 1) buf' s'
      = write_sectors SynchDisk_WriteSector (take m (drop (Suc k) (data_sectors h))) buf' s'" for s' buf'
    using Suc.IH[of "Suc k" buf' s'] Suc.prems by (simp add: add.commute)
  then show ?case
    using ByteToSector_ok[of h k] Suc.prems Cons_nth_drop_Suc[OF k, symmetric]
    by (simp cong: bindR_cong)
qed simp

lemma ReadAt_loop_ok:
  assumes "hdr_ok h" "SD_ok s" "k + m \<le> nat (numSectors h)"
  shows "\<exists>s'. ReadAt_loop h m (int k) s = Inr (take (128 * m) (drop (128 * k) (blocks h s)), s')
    \<and> SD_ok s' \<and> sectors s' = sectors s"
proof -
  let ?is = "take m (drop k (data_sectors h))"
  have "\<forall>i \<in> set ?is. 0 \<le> i \<and> i < NumSectors"
    using assms(1) by (auto simp: hdr_ok_def dest: in_set_take_drop)
  moreover have "concat (map (sectors s) ?is) = take (128 * m) (drop (128 * k) (blocks h s))"
    using sectors_128[OF assms(1,2)]
    by (subst concat_take_blocks[where b = 128]) (auto simp: blocks_def concat_drop_blocks[where b = 128] dest: in_set_dropD)
  ultimately show ?thesis
    using synch_disk.read_sectors_ok[OF assms(2), of ?is] ReadAt_loop_sectors[OF assms(1,3)] by simp
qed

lemma WriteAt_loop_ok:
  assumes "hdr_ok h" "SD_ok s" "k + m \<le> nat (numSectors h)" "length buf = 128 * m"
  shows "\<exists>s'. WriteAt_loop h m (int k) buf s = Inr s' \<and> SD_ok s'
    \<and> blocks h s' = overwrite (blocks h s) (128 * k) buf
    \<and> (\<forall>j \<ge> 0. j \<notin> set (data_sectors h) \<longrightarrow> sectors s' j = sectors s j)"
proof -
  let ?is = "take m (drop k (data_sectors h))"
  have rng: "\<forall>i \<in> set (data_sectors h). 0 \<le> i \<and> i < NumSectors" "distinct (data_sectors h)"
    using assms(1) by (auto simp: hdr_ok_def)
  have len: "length ?is = m" using assms(1,3) by (simp add: length_data_sectors)
  obtain s' where s': "WriteAt_loop h m (int k) buf s = Inr s'" "SD_ok s'" "concat (map (sectors s') ?is) = buf"
      "\<forall>j \<ge> 0. j \<notin> set ?is \<longrightarrow> sectors s' j = sectors s j"
    using synch_disk.write_sectors_ok[OF assms(2), of ?is buf] rng len assms(4)
      WriteAt_loop_sectors[OF assms(1,3), of buf s] by (auto dest: in_set_take_drop)
  have "blocks h s' = overwrite (blocks h s) (128 * k) buf"
    unfolding blocks_def s'(3)[symmetric]
    by (rule concat_blocks_overwrite)
      (use sectors_128[OF assms(1)] assms s' rng in \<open>auto simp: length_data_sectors\<close>)
  moreover have "\<forall>j \<ge> 0. j \<notin> set (data_sectors h) \<longrightarrow> sectors s' j = sectors s j"
    using s'(4) by (auto dest: in_set_take_drop)
  ultimately show ?thesis using s' by blast
qed

subsection \<open>ReadAt and WriteAt\<close>

lemma last_sector_bound:
  assumes "hdr_ok h" "0 \<le> p" "p < numBytes h"
  shows "p div 128 < numSectors h"
  using div_less_divRoundUp[OF assms(2,3), of 128] assms(1) by (simp add: hdr_ok_def SectorSize_def)

lemma take_drop_window:
  fixes off n w b :: nat
  assumes "off + n \<le> w"
  shows "take n (drop off (take w (drop b xs))) = take n (drop (b + off) xs)"
proof -
  have "min n (w - off) = n" using assms by simp
  then show ?thesis by (simp add: drop_take add.commute)
qed

text \<open>
  The sectors a request covers, in natural numbers: byte \<open>P\<close> lies in sector \<open>k\<close>, the last of the
  \<open>N\<close> bytes in sector \<open>k + d\<close>.
\<close>

lemma request_span:
  assumes "hdr_ok h" "0 \<le> pos" "\<not> (n \<le> 0 \<or> pos \<ge> numBytes h)"
  obtains P N k d where "pos = int P" "(if pos + n > numBytes h then numBytes h - pos else n) = int N" "0 < N"
    "N = min (nat n) (nat (numBytes h) - P)" "P + N \<le> nat (numBytes h)"
    "divRoundDown pos SectorSize = int k" "divRoundDown (int P + int N - 1) SectorSize = int (k + d)"
    "k + Suc d \<le> nat (numSectors h)" "128 * k \<le> P" "P < 128 * k + 128"
    "128 * k + 128 * d < P + N" "P + N \<le> 128 * k + 128 * d + 128"
proof -
  define P where "P = nat pos"
  define N where "N = nat (min n (numBytes h - pos))"
  define k where "k = P div 128"
  define d where "d = (P + N - 1) div 128 - k"
  have P: "pos = int P" using assms(2) by (simp add: P_def)
  have N: "0 < N" "int N = min n (numBytes h - pos)" using assms(3) by (auto simp: N_def)
  have le: "k \<le> (P + N - 1) div 128" using N(1) unfolding k_def by (intro div_le_mono) simp
  have kd: "k + d = (P + N - 1) div 128" using le by (simp add: d_def)
  have dr: "divRoundDown pos SectorSize = int k" "divRoundDown (int P + int N - 1) SectorSize = int (k + d)"
    unfolding kd using P N(1) by (simp_all add: divRoundDown_nonneg SectorSize_def k_def of_nat_diff zdiv_int)
  define r where "r = (P + N - 1) mod 128"
  have "P + N - 1 = 128 * (k + d) + r" unfolding kd r_def by simp
  then have e: "P + N = 128 * k + 128 * d + r + 1" using N(1) by simp
  have m: "r < 128" by (simp add: r_def)
  have "int (P + N - 1) div 128 < numSectors h"
    using last_sector_bound[OF assms(1), of "int (P + N - 1)"] N P by (simp add: of_nat_diff)
  then have bound: "k + Suc d \<le> nat (numSectors h)" using kd by (simp add: zdiv_int[symmetric])
  have p: "128 * k \<le> P" "P < 128 * k + 128" by (simp_all add: k_def)
  have q: "128 * k + 128 * d < P + N" "P + N \<le> 128 * k + 128 * d + 128" using e m by simp_all
  show thesis
    by (rule that[OF P _ N(1) _ _ dr bound p q]) (use N P assms(2,3) in \<open>auto simp: N_def\<close>)
qed

lemma OpenFile_ReadAt_ok:
  assumes "hdr_ok h" "SD_ok s" "0 \<le> pos"
  shows "\<exists>s'. OpenFile_ReadAt h n pos s = Inr (take (nat n) (drop (nat pos) (contents h s)), s')
    \<and> SD_ok s' \<and> sectors s' = sectors s"
proof (cases "n \<le> 0 \<or> pos \<ge> numBytes h")
  case True
  then have "take (nat n) (drop (nat pos) (contents h s)) = []"
    using length_contents[OF assms(1,2)] by auto
  then show ?thesis using True assms by (simp add: OpenFile_ReadAt_def FileHeader_FileLength_def)
next
  case False
  obtain P N k d where sp: "pos = int P" "(if pos + n > numBytes h then numBytes h - pos else n) = int N" "0 < N"
    "N = min (nat n) (nat (numBytes h) - P)" "P + N \<le> nat (numBytes h)"
    "divRoundDown pos SectorSize = int k" "divRoundDown (int P + int N - 1) SectorSize = int (k + d)"
    "k + Suc d \<le> nat (numSectors h)" "128 * k \<le> P" "P + N \<le> 128 * k + 128 * d + 128"
    by (rule request_span[OF assms(1,3) False]) blast
  obtain s' where s': "ReadAt_loop h (Suc d) (int k) s
      = Inr (take (128 * Suc d) (drop (128 * k) (blocks h s)), s')" "SD_ok s'" "sectors s' = sectors s"
    using ReadAt_loop_ok[OF assms(1,2) sp(8)] by blast
  let ?buf = "take (128 * Suc d) (drop (128 * k) (blocks h s))"
  have off: "int P - int k * 128 = int (P - 128 * k)" and fits: "(P - 128 * k) + N \<le> 128 * Suc d"
    using sp(9,10) by (auto simp: of_nat_diff)
  have "length ?buf = 128 * Suc d" using sp(8) by (simp add: length_blocks[OF assms(1,2)])
  then have "copy_out ?buf (int P - int k * 128) (int N) = Inr (take N (drop (P - 128 * k) ?buf))"
    unfolding off copy_out_def using fits by auto
  also have "take N (drop (P - 128 * k) ?buf) = take N (drop P (blocks h s))"
    using take_drop_window[OF fits, of "128 * k" "blocks h s"] sp(9) by simp
  also have "\<dots> = take (nat n) (drop (nat pos) (contents h s))"
    using sp(1,4,5) by (auto simp: contents_def drop_take min_def)
  finally have co: "copy_out ?buf (int P - int k * 128) (int N) = Inr (take (nat n) (drop (nat pos) (contents h s)))" .
  have "nat (1 + int (k + d) - int k) = Suc d" by simp
  then show ?thesis using False s' co sp(1,2,6,7)
    by (simp only: OpenFile_ReadAt_def FileHeader_FileLength_def Let_def if_False) (simp add: SectorSize_def)
qed

text \<open>
  Read, modify, write: \<open>a\<close> is the first byte of the first sector, \<open>a + w\<close> that of the last one. The
  first and the last sector are fetched when they are only partly overwritten; what comes back
  is right up to the length \<open>F\<close> of the file, whatever the buffer held before.
\<close>

lemma rmw_correct:
  fixes a w P N F :: nat
  assumes "a \<le> P" "P < a + 128" "a + w < P + N" "P + N \<le> a + w + 128" "w = 0 \<or> 128 \<le> w" "P + N \<le> F" "F \<le> length C"
    "a + w + 128 \<le> length C" "length buf = w + 128" "length new = N"
  defines "b1 \<equiv> if P \<noteq> a then overwrite buf 0 (take 128 (drop a (take F C))) else buf"
  defines "b2 \<equiv> if P + N \<noteq> a + w + 128 \<and> (w \<noteq> 0 \<or> P = a) then overwrite b1 w (take 128 (drop (a + w) (take F C))) else b1"
  shows "take F (overwrite C a (overwrite b2 (P - a) new)) = overwrite (take F C) P new"
proof (rule nth_equalityI)
  have l1: "length b1 = w + 128" using assms(1-10) by (simp add: b1_def)
  have l2: "length b2 = w + 128" using assms(1-10) l1 by (simp add: b2_def)
  have l3: "length (overwrite b2 (P - a) new) = w + 128" using assms(1-10) l2 by simp
  have L: "length (overwrite C a (overwrite b2 (P - a) new)) = length C" using l3 assms(1-10) by simp
  show "length (take F (overwrite C a (overwrite b2 (P - a) new))) = length (overwrite (take F C) P new)"
    using assms(1-10) L by simp
  fix q assume "q < length (take F (overwrite C a (overwrite b2 (P - a) new)))"
  then have q: "q < F" "q < length C" using L assms(1-10) by simp_all
  have rhs: "overwrite (take F C) P new ! q = (if P \<le> q \<and> q < P + N then new ! (q - P) else C ! q)"
    using assms(1-10) q by (simp add: nth_overwrite)
  have n1: "b1 ! i = C ! (a + i)" if "P \<noteq> a" "i < 128" "a + i < F" for i
    using that assms(1-10) less_diff_conv[of i F a] by (simp add: b1_def nth_overwrite)
  have n2: "b2 ! i = C ! (a + i)" if "i < P - a \<or> P + N - a \<le> i" "i < w + 128" "a + i < F" for i
  proof (cases "P + N \<noteq> a + w + 128 \<and> (w \<noteq> 0 \<or> P = a)")
    case True
    show ?thesis
    proof (cases "w \<le> i")
      case True
      then have "i < w + min (F - (a + w)) 128" using that(2,3) by linarith
      then show ?thesis using True \<open>P + N \<noteq> a + w + 128 \<and> (w \<noteq> 0 \<or> P = a)\<close> that(2,3) assms(1-10) l1
        by (simp add: b2_def nth_overwrite)
    next
      case False
      then show ?thesis using \<open>P + N \<noteq> a + w + 128 \<and> (w \<noteq> 0 \<or> P = a)\<close> that assms(1-10) l1
        by (subst b2_def) (auto simp: nth_overwrite intro: n1)
    qed
  next
    case False
    then show ?thesis using that assms(1-5) by (subst b2_def) (auto intro!: n1)
  qed
  have n3: "overwrite b2 (P - a) new ! (q - a) = (if P \<le> q \<and> q < P + N then new ! (q - P) else C ! q)"
    if "a \<le> q" "q < a + w + 128"
    using that assms(1-10) l2 q n2[of "q - a"] by (subst nth_overwrite) auto
  show "take F (overwrite C a (overwrite b2 (P - a) new)) ! q = overwrite (take F C) P new ! q"
    unfolding rhs using q l3 assms(1-10) n3
    by (cases "a \<le> q \<and> q < a + w + 128") (auto simp: nth_overwrite)
qed

lemma copy_in_ok:
  assumes "off = int p" "n = int k" "p + k \<le> length buf" "k \<le> length from"
  shows "copy_in from buf off n = Inr (overwrite buf p (take k from))"
  using assms by (simp add: copy_in_def)

lemma fetch_part_ok:
  assumes "hdr_ok h" "SD_ok s" "p + 128 \<le> length buf" "pos = int q" "off = int p"
  shows "\<exists>s1. fetch_part c h pos buf off s
      = Inr (if c then overwrite buf p (take 128 (drop q (contents h s))) else buf, s1)
    \<and> SD_ok s1 \<and> sectors s1 = sectors s"
proof -
  obtain s1 where s1: "OpenFile_ReadAt h SectorSize (int q) s = Inr (take 128 (drop q (contents h s)), s1)"
      "SD_ok s1" "sectors s1 = sectors s"
    using OpenFile_ReadAt_ok[OF assms(1,2), of "int q" SectorSize] by (auto simp: SectorSize_def)
  define d where "d = take 128 (drop q (contents h s))"
  have "length d \<le> 128" by (simp add: d_def)
  then have "copy_in d buf (int p) (int (length d)) = Inr (overwrite buf p d)"
    using copy_in_ok[OF refl refl, of p "length d" buf d] assms(3) by simp
  then show ?thesis using s1 assms by (simp add: fetch_part_def d_def)
qed

lemma OpenFile_WriteAt_ok:
  assumes "hdr_ok h" "SD_ok s" "0 \<le> pos" "n \<le> int (length from)"
  shows "\<exists>s'. OpenFile_WriteAt junk h from n pos s = Inr (max 0 (min n (numBytes h - pos)), s') \<and> SD_ok s'
    \<and> contents h s' = overwrite (contents h s) (nat pos) (take (nat (min n (numBytes h - pos))) from)
    \<and> (\<forall>j \<ge> 0. j \<notin> set (data_sectors h) \<longrightarrow> sectors s' j = sectors s j)"
proof (cases "n \<le> 0 \<or> pos \<ge> numBytes h")
  case True
  then show ?thesis using assms by (auto simp: OpenFile_WriteAt_def FileHeader_FileLength_def)
next
  case False
  obtain P N k d where sp: "pos = int P" "(if pos + n > numBytes h then numBytes h - pos else n) = int N" "0 < N"
    "N = min (nat n) (nat (numBytes h) - P)" "P + N \<le> nat (numBytes h)"
    "divRoundDown pos SectorSize = int k" "divRoundDown (int P + int N - 1) SectorSize = int (k + d)"
    "k + Suc d \<le> nat (numSectors h)" "128 * k \<le> P" "P < 128 * k + 128"
    "128 * k + 128 * d < P + N" "P + N \<le> 128 * k + 128 * d + 128"
    by (rule request_span[OF assms(1,3) False]) blast
  define buf where "buf = map junk [0..<nat ((1 + int (k + d) - int k) * SectorSize)]"
  let ?b1 = "if P \<noteq> 128 * k then overwrite buf 0 (take 128 (drop (128 * k) (contents h s))) else buf"
  let ?b2 = "if P + N \<noteq> 128 * k + 128 * d + 128 \<and> (128 * d \<noteq> 0 \<or> P = 128 * k)
    then overwrite ?b1 (128 * d) (take 128 (drop (128 * k + 128 * d) (contents h s))) else ?b1"
  let ?b3 = "overwrite ?b2 (P - 128 * k) (take N from)"
  have Nfrom: "N \<le> length from" using sp(4) assms(4) by auto
  have l0: "length buf = 128 * d + 128" by (simp add: buf_def SectorSize_def nat_add_distrib)
  then have l1: "length ?b1 = 128 * d + 128" by simp
  then have l2: "length ?b2 = 128 * d + 128" by simp
  then have l3: "length ?b3 = 128 * Suc d" using Nfrom sp(9,12) by simp
  have e: "(pos = int k * SectorSize) = (P = 128 * k)"
      "(int P + int N = (int (k + d) + 1) * SectorSize) = (P + N = 128 * k + 128 * d + 128)"
      "(int k = int (k + d)) = (128 * d = 0)" "nat (1 + int (k + d) - int k) = Suc d"
    using sp(1) by (auto simp: SectorSize_def)
  obtain s1 where s1: "fetch_part (P \<noteq> 128 * k) h (int k * SectorSize) buf 0 s = Inr (?b1, s1)"
      "SD_ok s1" "sectors s1 = sectors s"
    using fetch_part_ok[OF assms(1,2), of 0 buf "int k * SectorSize" "128 * k" 0 "P \<noteq> 128 * k"] l0
    by (auto simp: SectorSize_def)
  then have cs1: "contents h s1 = contents h s" by (simp add: contents_def blocks_def)
  obtain s2 where s2: "fetch_part (P + N \<noteq> 128 * k + 128 * d + 128 \<and> (128 * d \<noteq> 0 \<or> P = 128 * k)) h
        (int (k + d) * SectorSize) ?b1 ((int (k + d) - int k) * SectorSize) s1 = Inr (?b2, s2)"
      "SD_ok s2" "sectors s2 = sectors s"
    using fetch_part_ok[OF assms(1) s1(2), of "128 * d" ?b1 "int (k + d) * SectorSize" "128 * k + 128 * d"
        "(int (k + d) - int k) * SectorSize" "P + N \<noteq> 128 * k + 128 * d + 128 \<and> (128 * d \<noteq> 0 \<or> P = 128 * k)"]
      l1 s1(3) unfolding cs1 by (auto simp: SectorSize_def)
  have ci: "copy_in from ?b2 (pos - int k * SectorSize) (int N) = Inr ?b3"
    by (rule copy_in_ok) (use sp(1,9,12) l2 Nfrom in \<open>auto simp: SectorSize_def of_nat_diff\<close>)
  obtain s3 where s3: "WriteAt_loop h (Suc d) (int k) ?b3 s2 = Inr s3" "SD_ok s3"
      "blocks h s3 = overwrite (blocks h s2) (128 * k) ?b3" "\<forall>j \<ge> 0. j \<notin> set (data_sectors h) \<longrightarrow> sectors s3 j = sectors s2 j"
    using WriteAt_loop_ok[OF assms(1) s2(2) sp(8) l3] by blast
  have run: "OpenFile_WriteAt junk h from n pos s = Inr (int N, s3)"
    unfolding OpenFile_WriteAt_def FileHeader_FileLength_def Let_def sp(2) sp(6) sp(7)[folded sp(1)] e(4) buf_def[symmetric]
    using False s1(1) s2(1) ci s3(1) e(1,2,3) sp(1) by simp
  have bl: "blocks h s2 = blocks h s" "length (blocks h s) = 128 * nat (numSectors h)"
      "nat (numBytes h) \<le> length (blocks h s)"
    using s2(3) length_blocks[OF assms(1,2)] hdr_ok_sectors[OF assms(1)] by (auto simp: blocks_def)
  have c: "contents h s3 = overwrite (contents h s) P (take N from)"
    unfolding contents_def s3(3) bl(1)
    by (rule rmw_correct) (use sp(5,9-12) bl Nfrom l0 mult_le_mono2[OF sp(8), of 128] in auto)
  have "int N = min n (numBytes h - pos)" using sp(2) by (auto split: if_splits)
  then have N: "max 0 (min n (numBytes h - pos)) = int N" "nat (min n (numBytes h - pos)) = N" using sp(3) by linarith+
  have P: "nat pos = P" using sp(1) by simp
  show ?thesis unfolding N P
    using run s3(2,4) c unfolding s2(3) by blast
qed

subsection \<open>Allocation of a file's sectors\<close>

lemma take_overwrite_0: "length ys \<le> length xs \<Longrightarrow> take (length ys) (overwrite xs 0 ys) = ys"
  by (simp add: overwrite_def)

lemma FileHeader_Allocate_ok:
  assumes "BitMap_ok fm" "numBits fm = NumSectors" "0 \<le> fsize" "int (length (dataSectors h)) = NumDirect"
    "divRoundUp fsize SectorSize \<le> NumSectors - int (card (BitMap_marked fm))" "divRoundUp fsize SectorSize \<le> NumDirect"
  shows "\<exists>h' fm'. FileHeader_Allocate h fm fsize = Inr (True, h', fm') \<and> hdr_ok h' \<and> numBytes h' = fsize
    \<and> set (data_sectors h') \<inter> BitMap_marked fm = {} \<and> BitMap_ok fm' \<and> numBits fm' = NumSectors
    \<and> BitMap_marked fm' = BitMap_marked fm \<union> set (data_sectors h')"
proof -
  define n where "n = divRoundUp fsize SectorSize"
  have n: "0 \<le> n" using divRoundUp_ge0[OF assms(3)] by (simp add: n_def SectorSize_def)
  have nc: "BitMap_NumClear fm = Inr (NumSectors - int (card (BitMap_marked fm)))"
    using bitmap_alloc.num_clear_eq[OF assms(1)] assms(2) by simp
  obtain found fm' where f: "alloc_loop BitMap_Find (nat n) fm = Inr (found, fm')" "length found = nat n"
      "distinct found" "set found \<subseteq> {0..<NumSectors} - BitMap_marked fm" "BitMap_ok fm'" "numBits fm' = NumSectors"
      "BitMap_marked fm' = BitMap_marked fm \<union> set found"
    using bitmap_alloc.alloc_loop_ok[OF assms(1), of "nat n"] assms(2,5) n by (auto simp: n_def)
  let ?h = "h\<lparr>numBytes := fsize, numSectors := n, dataSectors := overwrite (dataSectors h) 0 found\<rparr>"
  have l: "length found \<le> length (dataSectors h)" using f(2) assms(4,6) n by (simp add: n_def)
  then have ds: "data_sectors ?h = found" using take_overwrite_0[OF l] f(2) by (simp add: data_sectors_def)
  have "FileHeader_Allocate h fm fsize = Inr (True, ?h, fm')"
    using nc f(1,2) assms(5,6) n by (simp add: FileHeader_Allocate_def Let_def flip: n_def)
  moreover have "hdr_ok ?h" using ds f(3,4) assms(3,4,6) l by (auto simp: hdr_ok_def n_def)
  ultimately show ?thesis using ds f(4-7) by auto
qed

lemma FileHeader_Allocate_no_space:
  assumes "BitMap_ok fm" "numBits fm = NumSectors" "NumSectors - int (card (BitMap_marked fm)) < divRoundUp fsize SectorSize"
  shows "\<exists>h'. FileHeader_Allocate h fm fsize = Inr (False, h', fm)"
  using bitmap_alloc.num_clear_eq[OF assms(1)] assms(2,3) by (simp add: FileHeader_Allocate_def Let_def)

lemma FileHeader_Allocate_too_big:
  assumes "BitMap_ok fm" "numBits fm = NumSectors" "0 \<le> fsize"
    "divRoundUp fsize SectorSize \<le> NumSectors - int (card (BitMap_marked fm))" "NumDirect < divRoundUp fsize SectorSize"
  shows "FileHeader_Allocate h fm fsize = Inl BadAccess"
proof -
  define n where "n = divRoundUp fsize SectorSize"
  have "int (nat n) \<le> numBits fm - int (card (BitMap_marked fm))" using assms(2,4,5) by (simp add: n_def NumDirect_eq)
  from bitmap_alloc.alloc_loop_ok[OF assms(1) this] obtain found fm' where
    "alloc_loop BitMap_Find (nat n) fm = Inr (found, fm')" "length found = nat n" by auto
  then show ?thesis using bitmap_alloc.num_clear_eq[OF assms(1)] assms(2,4,5)
    by (simp add: FileHeader_Allocate_def Let_def NumDirect_eq flip: n_def)
qed

lemma Deallocate_from_ok:
  assumes "hdr_ok h" "BitMap_ok fm" "0 \<le> i" "i \<le> numSectors h" "numBits fm = NumSectors"
    "set (drop (nat i) (data_sectors h)) \<subseteq> BitMap_marked fm"
  shows "\<exists>fm'. Deallocate_from h i fm = Inr fm' \<and> BitMap_ok fm' \<and> numBits fm' = NumSectors
    \<and> BitMap_marked fm' = BitMap_marked fm - set (drop (nat i) (data_sectors h))"
  using assms(2-)
proof (induction "nat (numSectors h - i)" arbitrary: i fm)
  case 0
  then have "drop (nat i) (data_sectors h) = []" by (simp add: length_data_sectors[OF assms(1)])
  then show ?case using 0 by (subst Deallocate_from.simps) auto
next
  case (Suc m)
  have i: "nat i < length (data_sectors h)"
    unfolding length_data_sectors[OF assms(1)] using Suc.hyps(2) Suc.prems(2) by linarith
  define x where "x = data_sectors h ! nat i"
  have dr: "drop (nat i) (data_sectors h) = x # drop (nat (i + 1)) (data_sectors h)"
    using Cons_nth_drop_Suc[OF i] Suc.prems(2) by (simp add: x_def nat_add_distrib)
  have ix: "ixR (dataSectors h) i = Inr x" using i Suc.prems(2) by (simp add: ixR_def x_def data_sectors_def nat_less_iff)
  have xm: "x \<in> BitMap_marked fm" using Suc.prems(5) dr by auto
  then have xr: "0 \<le> x" "x < numBits fm" using BitMap_marked_range[of fm] by auto
  obtain fm1 where f1: "BitMap_Clear fm x = Inr fm1" "BitMap_ok fm1" "numBits fm1 = NumSectors"
      "BitMap_marked fm1 = BitMap_marked fm - {x}"
    using BitMap_Clear_ok[OF Suc.prems(1) xr] Suc.prems(4) by auto
  have "distinct (drop (nat i) (data_sectors h))" using assms(1) by (simp add: hdr_ok_def)
  then have "set (drop (nat (i + 1)) (data_sectors h)) \<subseteq> BitMap_marked fm1" using Suc.prems(5) dr f1(4) by auto
  moreover have "m = nat (numSectors h - (i + 1))" "0 \<le> i + 1" "i + 1 \<le> numSectors h"
    using Suc.hyps(2) Suc.prems(2) by linarith+
  ultimately obtain fm' where
    f': "Deallocate_from h (i + 1) fm1 = Inr fm'" "BitMap_ok fm'" "numBits fm' = NumSectors"
      "BitMap_marked fm' = BitMap_marked fm1 - set (drop (nat (i + 1)) (data_sectors h))"
    using Suc.hyps(1)[of "i + 1" fm1] f1(2,3) by blast
  have "Deallocate_from h i fm = Inr fm'"
    using ix xm xr f1(1) f'(1) Suc.hyps(2) BitMap_Test_ok[OF Suc.prems(1) xr] by (subst Deallocate_from.simps) simp
  then show ?case using f' f1(4) dr by auto
qed

lemma FileHeader_Deallocate_ok:
  assumes "hdr_ok h" "BitMap_ok fm" "numBits fm = NumSectors" "set (data_sectors h) \<subseteq> BitMap_marked fm"
  shows "\<exists>fm'. FileHeader_Deallocate h fm = Inr fm' \<and> BitMap_ok fm' \<and> numBits fm' = NumSectors
    \<and> BitMap_marked fm' = BitMap_marked fm - set (data_sectors h)"
  using Deallocate_from_ok[OF assms(1,2) _ _ assms(3), of 0] assms(4) hdr_ok_sectors[OF assms(1)]
  by (simp add: FileHeader_Deallocate_def)

subsection \<open>Headers on disk\<close>

definition hdr_ints :: "FileHeader \<Rightarrow> bool" where
  "hdr_ints h \<longleftrightarrow> list_all is_int ([numBytes h, numSectors h] @ dataSectors h) \<and> int (length (dataSectors h)) = NumDirect"

lemma length_hdr_bytes: "hdr_ints h \<Longrightarrow> length (hdr_bytes h) = 128"
  by (simp add: hdr_ints_def hdr_bytes_def NumDirect_eq)

lemma bytes_hdr_bytes: "hdr_ints h \<Longrightarrow> bytes_hdr (hdr_bytes h) = h"
  using bytes_ints_bytes[of "[numBytes h, numSectors h] @ dataSectors h" "[]"]
  by (simp add: hdr_ints_def hdr_bytes_def bytes_hdr_def Let_def bytes_ints_def)

lemma FetchFrom_ok:
  assumes "SD_ok s" "0 \<le> sec" "sec < NumSectors"
  shows "\<exists>s'. FileHeader_FetchFrom sec s = Inr (bytes_hdr (sectors s sec), s') \<and> SD_ok s' \<and> sectors s' = sectors s"
  using SynchDisk_ReadSector_ok[OF assms] by (auto simp: FileHeader_FetchFrom_def)

lemma WriteBack_ok:
  assumes "SD_ok s" "0 \<le> sec" "sec < NumSectors" "hdr_ints h"
  shows "\<exists>s'. FileHeader_WriteBack h sec s = Inr s' \<and> SD_ok s'
    \<and> (\<forall>j \<ge> 0. sectors s' j = (if j = sec then hdr_bytes h else sectors s j))"
  using SynchDisk_WriteSector_ok[OF assms(1-3) length_hdr_bytes[OF assms(4)]] by (simp add: FileHeader_WriteBack_def)

subsection \<open>Properties\<close>

text \<open>C15: Open files implement byte sequences of fixed length. For a well-formed header on an idle
  disk and a position that is not negative, \<open>ReadAt\<close> and \<open>WriteAt\<close> return; \<open>ReadAt\<close> delivers
  exactly the requested slice of the file's contents, cut at its end, and changes no sector;
  \<open>WriteAt\<close> reports how many bytes fitted, replaces exactly those bytes, whatever the
  uninitialised buffer held and however the request is aligned with the sectors, and touches
  no sector that is not the file's.\<close>

theorem OpenFile_refines_bytes:
  assumes "hdr_ok h" "SD_ok s" "0 \<le> pos" "n \<le> int (length from)"
  shows "(\<exists>s'. OpenFile_ReadAt h n pos s = Inr (take (nat n) (drop (nat pos) (contents h s)), s')
      \<and> SD_ok s' \<and> sectors s' = sectors s)
    \<and> (\<exists>s'. OpenFile_WriteAt junk h from n pos s = Inr (max 0 (min n (numBytes h - pos)), s') \<and> SD_ok s'
      \<and> contents h s' = overwrite (contents h s) (nat pos) (take (nat (min n (numBytes h - pos))) from)
      \<and> (\<forall>j \<ge> 0. j \<notin> set (data_sectors h) \<longrightarrow> sectors s' j = sectors s j))"
  using OpenFile_ReadAt_ok[OF assms(1-3)] OpenFile_WriteAt_ok[OF assms] by blast

definition demo_hdr :: FileHeader where
  "demo_hdr = \<lparr>numBytes = 200, numSectors = 2, dataSectors = [7, 3] @ replicate 28 0\<rparr>"

lemma demo_hdr_ok: "hdr_ok demo_hdr" "hdr_ints demo_hdr" "numBytes demo_hdr = 200"
  by (simp_all add: hdr_ok_def hdr_ints_def demo_hdr_def divRoundUp_nonneg SectorSize_def NumDirect_eq data_sectors_def
      disk_consts is_int_def numeral_2_eq_2 list_all_iff)

theorem OpenFile_refines_bytes_witness:
  "\<exists>s'. OpenFile_WriteAt (\<lambda>_. 9) demo_hdr [1, 2, 3] 3 126 demo_synchdisk = Inr (3, s') \<and> SD_ok s'"
  using OpenFile_refines_bytes[OF demo_hdr_ok(1) demo_synchdisk_ok, of 126 3 "[1, 2, 3]" "\<lambda>_. 9"]
  by (auto simp: demo_hdr_ok(3))

text \<open>Reading back. What \<open>WriteAt\<close> wrote at a position is what \<open>ReadAt\<close> of the same range returns,
  cut at the end of the file.\<close>

lemma ReadAt_after_WriteAt:
  assumes "hdr_ok h" "SD_ok s" "0 \<le> pos" "n \<le> int (length from)" "OpenFile_WriteAt junk h from n pos s = Inr (k, s')"
  shows "\<exists>s''. OpenFile_ReadAt h n pos s' = Inr (take (nat k) from, s'')"
proof -
  obtain s1 where w: "OpenFile_WriteAt junk h from n pos s = Inr (max 0 (min n (numBytes h - pos)), s1)" "SD_ok s1"
      "contents h s1 = overwrite (contents h s) (nat pos) (take (nat (min n (numBytes h - pos))) from)"
    using OpenFile_WriteAt_ok[OF assms(1-4)] by blast
  have k: "s1 = s'" "k = max 0 (min n (numBytes h - pos))" using w(1) assms(5) by auto
  let ?d = "take (nat k) from"
  have "nat (min n (numBytes h - pos)) = nat k" unfolding k(2) by linarith
  then have d: "take (nat (min n (numBytes h - pos))) from = ?d" by simp
  obtain s'' where r: "OpenFile_ReadAt h n pos s' = Inr (take (nat n) (drop (nat pos) (contents h s')), s'')"
    using OpenFile_ReadAt_ok[OF assms(1) w(2)[unfolded k(1)] assms(3)] by blast
  have "take (nat n) (drop (nat pos) (overwrite (contents h s) (nat pos) ?d)) = ?d"
  proof (cases "n \<le> 0 \<or> numBytes h \<le> pos")
    case True
    then show ?thesis using k(2) length_contents[OF assms(1,2)] by auto
  next
    case False
    then have k': "k = min n (numBytes h - pos)" "0 < k" using k(2) by auto
    have len: "nat pos + length ?d \<le> length (contents h s)" "length ?d = nat k"
      using k' assms(3,4) length_contents[OF assms(1,2)] by auto
    then have "take (nat k) (drop (nat pos) (overwrite (contents h s) (nat pos) ?d)) = ?d"
      using take_drop_overwrite[OF len(1)] by simp
    moreover have "take (nat n) (drop (nat pos) (overwrite (contents h s) (nat pos) ?d))
        = take (nat k) (drop (nat pos) (overwrite (contents h s) (nat pos) ?d))"
    proof (cases "n \<le> numBytes h - pos")
      case True
      then show ?thesis using k'(1) by simp
    next
      case beyond: False
      then have "length (drop (nat pos) (overwrite (contents h s) (nat pos) ?d)) = nat k"
        using len k'(1) assms(3) False length_contents[OF assms(1,2)] by (simp add: nat_diff_distrib)
      then show ?thesis using beyond k'(1) by simp
    qed
    ultimately show ?thesis by simp
  qed
  then show ?thesis using r w(3) d k(1) by simp
qed

text \<open>File headers survive the disk. A header whose fields are C integers is stored in exactly
  one sector; fetching that sector yields the same header, and no other sector changed.\<close>

lemma FileHeader_roundtrip:
  assumes "SD_ok s" "0 \<le> sec" "sec < NumSectors" "hdr_ints h"
  shows "\<exists>s' s''. FileHeader_WriteBack h sec s = Inr s' \<and> FileHeader_FetchFrom sec s' = Inr (h, s'')
    \<and> (\<forall>j \<ge> 0. j = sec \<or> sectors s'' j = sectors s j)"
proof -
  obtain s' where s': "FileHeader_WriteBack h sec s = Inr s'" "SD_ok s'"
      "\<forall>j \<ge> 0. sectors s' j = (if j = sec then hdr_bytes h else sectors s j)"
    using WriteBack_ok[OF assms] by blast
  then show ?thesis using FetchFrom_ok[OF s'(2) assms(2,3)] bytes_hdr_bytes[OF assms(4)] assms(2) by auto
qed

text \<open>C16: Allocation of a file's sectors out of the map of free sectors. Without enough free sectors
  \<open>Allocate\<close> answers false and leaves the map alone; with enough of them, and a file of at
  most 30 sectors, the new header is well-formed and owns only sectors that were free, which
  are the only ones newly marked, and \<open>Deallocate\<close> gives back exactly those; a file of more
  than 30 sectors is not refused: it overruns the table in the header.\<close>

theorem FileHeader_allocation:
  assumes "BitMap_ok fm" "numBits fm = NumSectors" "0 \<le> fsize" "int (length (dataSectors h)) = NumDirect"
  shows "if NumSectors - int (card (BitMap_marked fm)) < divRoundUp fsize SectorSize
      then \<exists>h'. FileHeader_Allocate h fm fsize = Inr (False, h', fm)
    else if divRoundUp fsize SectorSize \<le> NumDirect
      then \<exists>h' fm' fm''. FileHeader_Allocate h fm fsize = Inr (True, h', fm') \<and> hdr_ok h' \<and> numBytes h' = fsize
        \<and> set (data_sectors h') \<inter> BitMap_marked fm = {} \<and> BitMap_ok fm'
        \<and> BitMap_marked fm' = BitMap_marked fm \<union> set (data_sectors h')
        \<and> FileHeader_Deallocate h' fm' = Inr fm'' \<and> BitMap_marked fm'' = BitMap_marked fm
    else FileHeader_Allocate h fm fsize = Inl BadAccess"
proof -
  consider (full) "NumSectors - int (card (BitMap_marked fm)) < divRoundUp fsize SectorSize"
    | (ok) "divRoundUp fsize SectorSize \<le> NumSectors - int (card (BitMap_marked fm))" "divRoundUp fsize SectorSize \<le> NumDirect"
    | (big) "divRoundUp fsize SectorSize \<le> NumSectors - int (card (BitMap_marked fm))" "NumDirect < divRoundUp fsize SectorSize"
    by linarith
  then show ?thesis
  proof cases
    case full
    then show ?thesis using FileHeader_Allocate_no_space[OF assms(1,2)] by simp
  next
    case ok
    obtain h' fm' where a: "FileHeader_Allocate h fm fsize = Inr (True, h', fm')" "hdr_ok h'" "numBytes h' = fsize"
        "set (data_sectors h') \<inter> BitMap_marked fm = {}" "BitMap_ok fm'" "numBits fm' = NumSectors"
        "BitMap_marked fm' = BitMap_marked fm \<union> set (data_sectors h')"
      using FileHeader_Allocate_ok[OF assms(1-4) ok] by blast
    obtain fm'' where "FileHeader_Deallocate h' fm' = Inr fm''" "BitMap_marked fm'' = BitMap_marked fm' - set (data_sectors h')"
      using FileHeader_Deallocate_ok[OF a(2,5,6)] a(7) by auto
    moreover have "BitMap_marked fm' - set (data_sectors h') = BitMap_marked fm" using a(4,7) by blast
    ultimately show ?thesis using a ok by auto
  next
    case big
    then show ?thesis using FileHeader_Allocate_too_big[OF assms(1-3)] by simp
  qed
qed

definition demo_map :: BitMap where
  "demo_map = \<lparr>numBits = 1024, numWords = 32, bm_map = replicate 32 0\<rparr>"

lemma demo_map_ok: "BitMap_ok demo_map" "numBits demo_map = NumSectors" "BitMap_marked demo_map = {}"
proof -
  show "BitMap_ok demo_map" by (simp add: BitMap_ok_def demo_map_def BitsInWord_def divRoundUp_nonneg)
  show "numBits demo_map = NumSectors" by (simp add: demo_map_def disk_consts)
  have "bm_map demo_map ! nat (i div 32) = 0" if "0 \<le> i" "i < 1024" for i
    using that by (simp add: demo_map_def nat_less_iff)
  then show "BitMap_marked demo_map = {}" by (auto simp: BitMap_marked_def bm_bit_def demo_map_def)
qed

theorem FileHeader_allocation_witness:
  "(\<exists>h' fm'. FileHeader_Allocate demo_hdr demo_map 300 = Inr (True, h', fm') \<and> hdr_ok h')
     \<and> FileHeader_Allocate demo_hdr demo_map 4000 = Inl BadAccess"
proof -
  have l: "int (length (dataSectors demo_hdr)) = NumDirect" using demo_hdr_ok(1) by (simp add: hdr_ok_def)
  have "divRoundUp 300 SectorSize = 3" "divRoundUp 4000 SectorSize = 32" "NumSectors = 1024"
    by (simp_all add: divRoundUp_nonneg disk_consts)
  then show ?thesis
    using FileHeader_allocation[OF demo_map_ok(1,2) _ l, of 300] FileHeader_allocation[OF demo_map_ok(1,2) _ l, of 4000]
    by (auto simp: demo_map_ok(3) NumDirect_eq)
qed

end
