(* ===== verification/Nachos_Directory.thy ===== *)
theory Nachos_Directory
  imports Nachos_Files
begin

text \<open>
  \<open>filesys/directory.cc\<close>: the table of file names. An entry is a C structure of twenty bytes
  whose five padding bytes travel with it (\<open>de_pad\<close>); names are arrays of ten bytes of which
  \<open>strncmp\<close> and \<open>strncpy\<close> look at nine. \<open>cstr\<close> is the string such an array holds. The table is
  stored in a file as the image of its entries. \<open>tableSize\<close> is the length of the table.
\<close>

subsection \<open>Names\<close>

definition FileNameMaxLen :: nat where "FileNameMaxLen = 9"

definition cstr :: "nat \<Rightarrow> byte list \<Rightarrow> byte list" where
  "cstr n bs = takeWhile (\<lambda>b. b \<noteq> 0) (take n bs)"

text \<open>\<open>strncmp(a, b, n) == 0\<close>, one character at a time; the end of a list stands for the
  terminating zero.\<close>

fun strncmp_eq :: "nat \<Rightarrow> byte list \<Rightarrow> byte list \<Rightarrow> bool" where
  "strncmp_eq 0 a b = True"
| "strncmp_eq (Suc n) a b =
     (let x = (case a of [] \<Rightarrow> 0 | x # _ \<Rightarrow> x); y = (case b of [] \<Rightarrow> 0 | y # _ \<Rightarrow> y)
      in if x \<noteq> y then False else if x = 0 then True else strncmp_eq n (tl a) (tl b))"

text \<open>\<open>strncpy(dst, src, n)\<close>: the string, zeros up to \<open>n\<close>, the rest of the array untouched.\<close>

definition strncpy :: "byte list \<Rightarrow> byte list \<Rightarrow> nat \<Rightarrow> byte list" where
  "strncpy dst src n = cstr n src @ replicate (n - length (cstr n src)) 0 @ drop n dst"

lemma strncmp_eq_cstr: "strncmp_eq n a b \<longleftrightarrow> cstr n a = cstr n b"
proof (induction n arbitrary: a b)
  case (Suc n)
  then show ?case by (cases a; cases b) (auto simp: cstr_def Let_def)
qed (simp add: cstr_def)

lemma length_cstr: "length (cstr n bs) \<le> n"
  by (metis cstr_def length_take length_takeWhile_le min.cobounded2 order_trans)

lemma cstr_cstr [simp]: "cstr n (cstr n bs) = cstr n bs"
proof -
  have "take n (cstr n bs) = cstr n bs" using length_cstr by simp
  moreover have "takeWhile (\<lambda>b. b \<noteq> 0) (cstr n bs) = cstr n bs"
    by (auto simp: cstr_def takeWhile_eq_all_conv dest: set_takeWhileD)
  ultimately show ?thesis by (metis cstr_def)
qed

lemma cstr_strncpy [simp]: "cstr n (strncpy dst src n) = cstr n src"
proof -
  have l: "length (cstr n src) \<le> n" by (rule length_cstr)
  then have "take n (strncpy dst src n) = cstr n src @ replicate (n - length (cstr n src)) 0"
    by (simp add: strncpy_def)
  moreover have "\<forall>b \<in> set (cstr n src). b \<noteq> 0" by (auto simp: cstr_def dest: set_takeWhileD)
  ultimately have "cstr n (strncpy dst src n)
      = cstr n src @ takeWhile (\<lambda>b. b \<noteq> 0) (replicate (n - length (cstr n src)) 0)"
    by (subst cstr_def) (simp add: takeWhile_append2)
  then show ?thesis by (cases "n - length (cstr n src)") simp_all
qed

lemma length_strncpy: "n \<le> length dst \<Longrightarrow> length (strncpy dst src n) = length dst"
  using length_cstr[of n src] by (simp add: strncpy_def)

subsection \<open>The table\<close>

record DirectoryEntry =
  inUse :: bool
  de_sector :: int
  de_name :: "byte list"
  de_pad :: "byte list"

definition Directory_new :: "DirectoryEntry list \<Rightarrow> DirectoryEntry list" where
  "Directory_new heap = map (\<lambda>e. e\<lparr>inUse := False\<rparr>) heap"

fun FindIndex_from :: "DirectoryEntry list \<Rightarrow> byte list \<Rightarrow> int \<Rightarrow> int" where
  "FindIndex_from [] name i = -1"
| "FindIndex_from (e # es) name i =
     (if inUse e \<and> strncmp_eq FileNameMaxLen (de_name e) name then i else FindIndex_from es name (i + 1))"

definition Directory_FindIndex :: "DirectoryEntry list \<Rightarrow> byte list \<Rightarrow> int" where
  "Directory_FindIndex dir name = FindIndex_from dir name 0"

definition Directory_Find :: "DirectoryEntry list \<Rightarrow> byte list \<Rightarrow> int" where
  "Directory_Find dir name =
     (let i = Directory_FindIndex dir name in if i \<noteq> -1 then de_sector (dir ! nat i) else -1)"

fun Add_loop :: "DirectoryEntry list \<Rightarrow> byte list \<Rightarrow> int \<Rightarrow> bool \<times> DirectoryEntry list" where
  "Add_loop [] name newSector = (False, [])"
| "Add_loop (e # es) name newSector =
     (if \<not> inUse e then
        (True, e\<lparr>inUse := True, de_name := strncpy (de_name e) name FileNameMaxLen, de_sector := newSector\<rparr> # es)
      else map_prod id ((#) e) (Add_loop es name newSector))"

definition Directory_Add :: "DirectoryEntry list \<Rightarrow> byte list \<Rightarrow> int \<Rightarrow> bool \<times> DirectoryEntry list" where
  "Directory_Add dir name newSector =
     (if Directory_FindIndex dir name \<noteq> -1 then (False, dir) else Add_loop dir name newSector)"

definition Directory_Remove :: "DirectoryEntry list \<Rightarrow> byte list \<Rightarrow> bool \<times> DirectoryEntry list" where
  "Directory_Remove dir name =
     (let i = Directory_FindIndex dir name in
      if i = -1 then (False, dir) else (True, dir[nat i := (dir ! nat i)\<lparr>inUse := False\<rparr>]))"

text \<open>\<open>List\<close> prints each name with \<open>%s\<close>: the characters up to the first zero, which has to be one
  of the ten.\<close>

fun Directory_List :: "DirectoryEntry list \<Rightarrow> byte list list res" where
  "Directory_List [] = Inr []"
| "Directory_List (e # es) =
     (if inUse e then
        (if 0 \<in> set (de_name e) then mapR ((#) (takeWhile (\<lambda>b. b \<noteq> 0) (de_name e))) (Directory_List es)
         else Inl BadAccess)
      else Directory_List es)"

subsection \<open>The table as bytes\<close>

definition entry_bytes :: "DirectoryEntry \<Rightarrow> byte list" where
  "entry_bytes e = [if inUse e then 1 else 0] @ take 3 (de_pad e) @ ints_bytes [de_sector e] @ de_name e @ drop 3 (de_pad e)"

definition bytes_entry :: "byte list \<Rightarrow> DirectoryEntry" where
  "bytes_entry bs = \<lparr>inUse = (bs ! 0 \<noteq> 0), de_sector = hd (bytes_ints (take 4 (drop 4 bs))),
     de_name = take 10 (drop 8 bs), de_pad = take 3 (drop 1 bs) @ take 2 (drop 18 bs)\<rparr>"

definition dir_bytes :: "DirectoryEntry list \<Rightarrow> byte list" where
  "dir_bytes dir = concat (map entry_bytes dir)"

definition bytes_dir :: "byte list \<Rightarrow> DirectoryEntry list" where
  "bytes_dir bs = map (\<lambda>i. bytes_entry (take 20 (drop (20 * i) bs))) [0..<length bs div 20]"

definition Directory_FetchFrom ::
    "FileHeader \<Rightarrow> DirectoryEntry list \<Rightarrow> DiskHw \<Rightarrow> (DirectoryEntry list \<times> DiskHw) res" where
  "Directory_FetchFrom file dir s =
     mapR (\<lambda>(bs, s'). (bytes_dir (overwrite (dir_bytes dir) 0 bs), s'))
       (OpenFile_ReadAt file (int (length dir) * 20) 0 s)"

definition Directory_WriteBack ::
    "(nat \<Rightarrow> byte) \<Rightarrow> FileHeader \<Rightarrow> DirectoryEntry list \<Rightarrow> DiskHw \<Rightarrow> DiskHw res" where
  "Directory_WriteBack junk file dir s =
     mapR snd (OpenFile_WriteAt junk file (dir_bytes dir) (int (length dir) * 20) 0 s)"

subsection \<open>Lookup\<close>

definition entry_ok :: "DirectoryEntry \<Rightarrow> bool" where
  "entry_ok e \<longleftrightarrow> is_int (de_sector e) \<and> length (de_name e) = 10 \<and> length (de_pad e) = 5"

text \<open>Entry \<open>i\<close> is in use under the name \<open>nm\<close> (a string of at most nine characters).\<close>

definition named :: "DirectoryEntry list \<Rightarrow> byte list \<Rightarrow> nat \<Rightarrow> bool" where
  "named dir nm i \<longleftrightarrow> i < length dir \<and> inUse (dir ! i) \<and> cstr 9 (de_name (dir ! i)) = cstr 9 nm"

definition unique_names :: "DirectoryEntry list \<Rightarrow> bool" where
  "unique_names dir \<longleftrightarrow> (\<forall>i j. i < length dir \<and> j < length dir \<and> inUse (dir ! i) \<and> inUse (dir ! j)
     \<and> cstr 9 (de_name (dir ! i)) = cstr 9 (de_name (dir ! j)) \<longrightarrow> i = j)"

lemma FindIndex_from_cases:
  "(FindIndex_from dir nm k = -1 \<and> (\<forall>i. \<not> named dir nm i))
    \<or> (\<exists>i. FindIndex_from dir nm k = k + int i \<and> named dir nm i)" if "0 \<le> k"
  using that
proof (induction dir arbitrary: k)
  case Nil
  then show ?case by (simp add: named_def)
next
  case (Cons e es)
  show ?case
  proof (cases "inUse e \<and> strncmp_eq FileNameMaxLen (de_name e) nm")
    case True
    then have "FindIndex_from (e # es) nm k = k + int 0" "named (e # es) nm 0"
      by (simp_all add: named_def strncmp_eq_cstr FileNameMaxLen_def)
    then show ?thesis by blast
  next
    case False
    then have e: "FindIndex_from (e # es) nm k = FindIndex_from es nm (k + 1)" "\<not> named (e # es) nm 0"
      by (auto simp: named_def strncmp_eq_cstr FileNameMaxLen_def)
    have n: "named (e # es) nm (Suc i) = named es nm i" for i by (simp add: named_def)
    from Cons.IH[of "k + 1"] Cons.prems consider "FindIndex_from es nm (k + 1) = -1" "\<forall>i. \<not> named es nm i"
      | i where "FindIndex_from es nm (k + 1) = k + 1 + int i" "named es nm i" by auto
    then show ?thesis
    proof cases
      case 1
      then have "\<forall>i. \<not> named (e # es) nm i" using e(2) n by (metis not0_implies_Suc)
      with 1 e(1) show ?thesis by simp
    next
      case (2 i)
      then have "FindIndex_from (e # es) nm k = k + int (Suc i)" "named (e # es) nm (Suc i)" using e(1) n by auto
      then show ?thesis by blast
    qed
  qed
qed

lemma FindIndex_cases:
  obtains (none) "Directory_FindIndex dir nm = -1" "\<forall>i. \<not> named dir nm i"
    | (found) i where "Directory_FindIndex dir nm = int i" "named dir nm i"
  using FindIndex_from_cases[of 0 dir nm] by (auto simp: Directory_FindIndex_def)

lemma named_unique: "unique_names dir \<Longrightarrow> named dir nm i \<Longrightarrow> named dir nm j \<Longrightarrow> i = j"
  by (auto simp: unique_names_def named_def)

lemma FindIndex_named: "unique_names dir \<Longrightarrow> named dir nm i \<Longrightarrow> Directory_FindIndex dir nm = int i"
  by (cases dir nm rule: FindIndex_cases) (auto dest: named_unique)

lemma Add_loop_cases:
  "(Add_loop dir nm sec = (False, dir) \<and> (\<forall>e \<in> set dir. inUse e))
    \<or> (\<exists>i < length dir. \<not> inUse (dir ! i) \<and> (\<forall>j < i. inUse (dir ! j)) \<and> Add_loop dir nm sec
        = (True, dir[i := (dir ! i)\<lparr>inUse := True, de_name := strncpy (de_name (dir ! i)) nm 9, de_sector := sec\<rparr>]))"
proof (induction dir)
  case (Cons e es)
  show ?case
  proof (cases "inUse e")
    case True
    from Cons.IH show ?thesis
    proof
      assume "\<exists>i < length es. \<not> inUse (es ! i) \<and> (\<forall>j < i. inUse (es ! j)) \<and> Add_loop es nm sec
        = (True, es[i := (es ! i)\<lparr>inUse := True, de_name := strncpy (de_name (es ! i)) nm 9, de_sector := sec\<rparr>])"
      then obtain i where i: "i < length es" "\<not> inUse (es ! i)" "\<forall>j < i. inUse (es ! j)" "Add_loop es nm sec
        = (True, es[i := (es ! i)\<lparr>inUse := True, de_name := strncpy (de_name (es ! i)) nm 9, de_sector := sec\<rparr>])" by blast
      have "\<forall>j < Suc i. inUse ((e # es) ! j)" using i(3) True by (auto simp: less_Suc_eq_0_disj)
      then show ?thesis using i True by (intro disjI2 exI[of _ "Suc i"]) simp
    qed (use True in auto)
  qed (auto simp: FileNameMaxLen_def intro: exI[of _ 0])
qed simp

lemma Directory_Add_cases:
  obtains (exists) i where "named dir nm i" "Directory_Add dir nm sec = (False, dir)"
    | (full) "\<forall>i. \<not> named dir nm i" "\<forall>e \<in> set dir. inUse e" "Directory_Add dir nm sec = (False, dir)"
    | (added) i where "\<forall>j. \<not> named dir nm j" "i < length dir" "\<not> inUse (dir ! i)" "Directory_Add dir nm sec
        = (True, dir[i := (dir ! i)\<lparr>inUse := True, de_name := strncpy (de_name (dir ! i)) nm 9, de_sector := sec\<rparr>])"
proof (cases dir nm rule: FindIndex_cases)
  case none
  with Add_loop_cases[of dir nm sec] full added show thesis by (auto simp: Directory_Add_def)
next
  case (found i)
  with exists show thesis by (auto simp: Directory_Add_def)
qed

lemma named_update:
  "i < length dir \<Longrightarrow> named (dir[i := e]) nm j = (if j = i then inUse e \<and> cstr 9 (de_name e) = cstr 9 nm else named dir nm j)"
  by (auto simp: named_def)

lemma unique_names_iff: "unique_names dir \<longleftrightarrow> (\<forall>nm i j. named dir nm i \<and> named dir nm j \<longrightarrow> i = j)"
  by (fastforce simp: unique_names_def named_def)

lemma unique_names_Add:
  assumes "unique_names dir" "\<forall>j. \<not> named dir nm j" "i < length dir" "cstr 9 (de_name e) = cstr 9 nm"
  shows "unique_names (dir[i := e])"
proof -
  have fresh: "\<not> named dir nm' j" if "cstr 9 (de_name e) = cstr 9 nm'" for nm' j
    using assms(2,4) that by (simp add: named_def)
  show ?thesis unfolding unique_names_iff
  proof (intro allI impI)
    fix nm' a b
    assume "named (dir[i := e]) nm' a \<and> named (dir[i := e]) nm' b"
    then show "a = b" using assms(3) fresh[of nm'] named_unique[OF assms(1), of nm' a b]
      by (cases "a = i"; cases "b = i") (simp_all add: named_update)
  qed
qed

lemma unique_names_Remove: "unique_names dir \<Longrightarrow> \<not> inUse e \<Longrightarrow> i < length dir \<Longrightarrow> unique_names (dir[i := e])"
  by (auto simp: unique_names_iff named_update)

subsection \<open>Entries on disk\<close>

lemma length_entry_bytes: "entry_ok e \<Longrightarrow> length (entry_bytes e) = 20"
  by (simp add: entry_ok_def entry_bytes_def)

lemma bytes_entry_bytes:
  assumes "entry_ok e"
  shows "bytes_entry (entry_bytes e) = e"
proof -
  obtain p q r x y where pad: "de_pad e = [p, q, r, x, y]"
    using assms by (auto simp: entry_ok_def numeral_eq_Suc length_Suc_conv)
  have i: "length (ints_bytes [de_sector e]) = 4" by simp
  have n: "length (de_name e) = 10" using assms by (simp add: entry_ok_def)
  have "bytes_ints (ints_bytes [de_sector e] @ []) = [de_sector e] @ bytes_ints []"
    using assms by (intro bytes_ints_bytes) (simp add: entry_ok_def)
  then have "hd (bytes_ints (ints_bytes [de_sector e])) = de_sector e" by simp
  moreover have "entry_bytes e = [if inUse e then 1 else 0, p, q, r] @ ints_bytes [de_sector e] @ de_name e @ [x, y]"
    by (simp add: entry_bytes_def pad numeral_eq_Suc)
  ultimately show ?thesis using i n pad by (auto simp: bytes_entry_def)
qed

lemma bytes_entry_ok: "length bs = 20 \<Longrightarrow> entry_ok (bytes_entry bs)"
proof -
  assume l: "length bs = 20"
  have "bytes_ints (take 4 (drop 4 bs)) \<noteq> []"
  proof -
    have "length (bytes_ints (take 4 (drop 4 bs))) = 1" using l by (simp add: bytes_ints_def length_words_of)
    then show ?thesis by auto
  qed
  then obtain w :: u32 where w: "hd (bytes_ints (take 4 (drop 4 bs))) = sint w"
    by (auto simp: bytes_ints_def hd_map)
  have "is_int (hd (bytes_ints (take 4 (drop 4 bs))))"
    unfolding w using sint_greater_eq[of w] sint_less[of w] by (simp add: is_int_def)
  then show ?thesis using l by (simp add: entry_ok_def bytes_entry_def)
qed

lemma length_dir_bytes: "\<forall>e \<in> set dir. entry_ok e \<Longrightarrow> length (dir_bytes dir) = 20 * length dir"
  unfolding dir_bytes_def by (rule length_concat_blocks) (simp add: length_entry_bytes)

lemma bytes_dir_bytes:
  assumes "\<forall>e \<in> set dir. entry_ok e"
  shows "bytes_dir (dir_bytes dir) = dir"
proof (rule nth_equalityI)
  show "length (bytes_dir (dir_bytes dir)) = length dir" by (simp add: bytes_dir_def length_dir_bytes[OF assms])
  fix i assume "i < length (bytes_dir (dir_bytes dir))"
  then have i: "i < length dir" by (simp add: bytes_dir_def length_dir_bytes[OF assms])
  have b: "\<forall>e \<in> set dir. length (entry_bytes e) = 20" using assms length_entry_bytes by blast
  have "take 20 (drop (20 * i) (dir_bytes dir)) = concat (map entry_bytes (take 1 (drop i dir)))"
  proof -
    have "\<forall>e \<in> set (drop i dir). length (entry_bytes e) = 20" using b by (auto dest: in_set_dropD)
    from concat_take_blocks[OF this, of 1] show ?thesis by (simp add: dir_bytes_def concat_drop_blocks[OF b])
  qed
  also have "take 1 (drop i dir) = [dir ! i]" using i by (simp add: take_Suc_conv_app_nth Cons_nth_drop_Suc[symmetric])
  finally show "bytes_dir (dir_bytes dir) ! i = dir ! i"
    using i assms by (simp add: bytes_dir_def length_dir_bytes[OF assms] bytes_entry_bytes)
qed

lemma bytes_dir_ok: "20 * n = length bs \<Longrightarrow> length (bytes_dir bs) = n \<and> (\<forall>e \<in> set (bytes_dir bs). entry_ok e)"
  by (auto simp: bytes_dir_def intro!: bytes_entry_ok)

lemma Directory_FetchFrom_ok:
  assumes "hdr_ok h" "SD_ok s" "numBytes h = 20 * int (length dir)" "\<forall>e \<in> set dir. entry_ok e"
  shows "\<exists>s'. Directory_FetchFrom h dir s = Inr (bytes_dir (contents h s), s') \<and> SD_ok s' \<and> sectors s' = sectors s"
proof -
  have l: "length (contents h s) = 20 * length dir" using length_contents[OF assms(1,2)] assms(3) by simp
  then have "take (nat (int (length dir) * 20)) (drop (nat 0) (contents h s)) = contents h s" by simp
  moreover have "overwrite (dir_bytes dir) 0 (contents h s) = contents h s"
    using l length_dir_bytes[OF assms(4)] by (simp add: overwrite_def)
  ultimately show ?thesis
    using OpenFile_ReadAt_ok[OF assms(1,2) order_refl, of "int (length dir) * 20"] by (auto simp: Directory_FetchFrom_def)
qed

lemma Directory_WriteBack_ok:
  assumes "hdr_ok h" "SD_ok s" "numBytes h = 20 * int (length dir)" "\<forall>e \<in> set dir. entry_ok e"
  shows "\<exists>s'. Directory_WriteBack junk h dir s = Inr s' \<and> SD_ok s' \<and> bytes_dir (contents h s') = dir
    \<and> (\<forall>j \<ge> 0. j \<notin> set (data_sectors h) \<longrightarrow> sectors s' j = sectors s j)"
proof -
  note l = length_dir_bytes[OF assms(4)]
  have "length (contents h s) = 20 * length dir" using length_contents[OF assms(1,2)] assms(3) by simp
  then have "overwrite (contents h s) (nat 0) (take (nat (min (int (length dir) * 20) (numBytes h - 0))) (dir_bytes dir)) = dir_bytes dir"
    using l assms(3) by (simp add: overwrite_def)
  then show ?thesis
    using OpenFile_WriteAt_ok[OF assms(1,2) order_refl, of "int (length dir) * 20" "dir_bytes dir" junk] l
      bytes_dir_bytes[OF assms(4)] by (auto simp: Directory_WriteBack_def)
qed

subsection \<open>Find after an update\<close>

lemma Find_none: "\<forall>i. \<not> named dir nm i \<Longrightarrow> Directory_Find dir nm = -1"
  by (cases dir nm rule: FindIndex_cases) (auto simp: Directory_Find_def)

lemma Find_named: "unique_names dir \<Longrightarrow> named dir nm i \<Longrightarrow> Directory_Find dir nm = de_sector (dir ! i)"
  by (simp add: Directory_Find_def FindIndex_named)

lemma Find_update:
  assumes "unique_names dir" "unique_names (dir[i := e])" "i < length dir"
  shows "Directory_Find (dir[i := e]) nm = (if inUse e \<and> cstr 9 (de_name e) = cstr 9 nm then de_sector e
    else if named dir nm i then -1 else Directory_Find dir nm)"
proof (cases "inUse e \<and> cstr 9 (de_name e) = cstr 9 nm")
  case True
  then have "named (dir[i := e]) nm i" using assms(3) by (simp add: named_update)
  from Find_named[OF assms(2) this] show ?thesis using True assms(3) by simp
next
  case ne: False
  show ?thesis
  proof (cases "\<exists>j. j \<noteq> i \<and> named dir nm j")
    case True
    then obtain j where j: "j \<noteq> i" "named dir nm j" by blast
    then have "named (dir[i := e]) nm j" "\<not> named dir nm i"
      using assms(3) named_unique[OF assms(1)] by (auto simp: named_update)
    with j show ?thesis using ne Find_named[OF assms(2)] Find_named[OF assms(1)] by auto
  next
    case False
    then have "Directory_Find (dir[i := e]) nm = -1" using ne assms(3) by (intro Find_none) (auto simp: named_update)
    moreover have "Directory_Find dir nm = -1" if "\<not> named dir nm i" using that False by (intro Find_none) metis
    ultimately show ?thesis using ne by auto
  qed
qed

lemma Directory_Add_effect:
  assumes "unique_names dir"
  shows "case Directory_Add dir nm sec of
      (False, dir') \<Rightarrow> dir' = dir \<and> ((\<exists>i. named dir nm i) \<or> (\<forall>e \<in> set dir. inUse e))
    | (True, dir') \<Rightarrow> (\<forall>i. \<not> named dir nm i) \<and> unique_names dir' \<and> length dir' = length dir
        \<and> (\<forall>nm'. Directory_Find dir' nm' = (if cstr 9 nm' = cstr 9 nm then sec else Directory_Find dir nm'))"
proof (cases rule: Directory_Add_cases[where dir = dir and nm = nm and sec = sec])
  case (added i)
  let ?e = "(dir ! i)\<lparr>inUse := True, de_name := strncpy (de_name (dir ! i)) nm 9, de_sector := sec\<rparr>"
  have u: "unique_names (dir[i := ?e])" by (rule unique_names_Add[OF assms added(1,2)]) simp
  have "\<not> named dir nm' i" for nm' using added(3) by (simp add: named_def)
  then show ?thesis using added u Find_update[OF assms u added(2)] by auto
qed auto

lemma Directory_Remove_effect:
  assumes "unique_names dir"
  shows "case Directory_Remove dir nm of
      (False, dir') \<Rightarrow> dir' = dir \<and> (\<forall>i. \<not> named dir nm i)
    | (True, dir') \<Rightarrow> (\<exists>i. named dir nm i) \<and> unique_names dir' \<and> length dir' = length dir
        \<and> (\<forall>nm'. Directory_Find dir' nm' = (if cstr 9 nm' = cstr 9 nm then -1 else Directory_Find dir nm'))"
proof (cases dir nm rule: FindIndex_cases)
  case none
  then show ?thesis by (simp add: Directory_Remove_def)
next
  case (found i)
  let ?e = "(dir ! i)\<lparr>inUse := False\<rparr>"
  have i: "i < length dir" using found(2) by (simp add: named_def)
  have u: "unique_names (dir[i := ?e])" using unique_names_Remove[OF assms _ i] by simp
  have "named dir nm' i \<longleftrightarrow> cstr 9 nm' = cstr 9 nm" for nm' using found(2) by (auto simp: named_def)
  moreover have "Directory_Remove dir nm = (True, dir[i := ?e])" using found(1) by (simp add: Directory_Remove_def)
  ultimately show ?thesis using found u Find_update[OF assms u i] by auto
qed

subsection \<open>Properties\<close>

text \<open>C17: The directory is a finite map from file names to header sectors. Names are compared on
  their first nine characters. In a table without duplicate names \<open>Find\<close> returns the sector
  of the one entry in use under the name, or -1; \<open>Add\<close> fails exactly when the name is taken or
  no entry is free, and otherwise adds this binding and no other; \<open>Remove\<close> fails exactly when
  the name is absent and otherwise removes this binding and no other; both keep names unique.\<close>

theorem Directory_is_map:
  assumes "unique_names dir" "\<forall>e \<in> set dir. 0 \<le> de_sector e" "0 \<le> sec"
  shows "(Directory_Find dir nm = -1 \<longleftrightarrow> (\<forall>i. \<not> named dir nm i))
    \<and> (\<forall>i. named dir nm i \<longrightarrow> Directory_Find dir nm = de_sector (dir ! i))
    \<and> (case Directory_Add dir nm sec of
        (False, dir') \<Rightarrow> dir' = dir \<and> (Directory_Find dir nm \<noteq> -1 \<or> (\<forall>e \<in> set dir. inUse e))
      | (True, dir') \<Rightarrow> Directory_Find dir nm = -1 \<and> unique_names dir' \<and> length dir' = length dir
          \<and> (\<forall>nm'. Directory_Find dir' nm' = (if cstr 9 nm' = cstr 9 nm then sec else Directory_Find dir nm')))
    \<and> (case Directory_Remove dir nm of
        (False, dir') \<Rightarrow> dir' = dir \<and> Directory_Find dir nm = -1
      | (True, dir') \<Rightarrow> Directory_Find dir nm \<noteq> -1 \<and> unique_names dir' \<and> length dir' = length dir
          \<and> (\<forall>nm'. Directory_Find dir' nm' = (if cstr 9 nm' = cstr 9 nm then -1 else Directory_Find dir nm')))"
proof -
  have none: "Directory_Find dir nm = -1 \<longleftrightarrow> (\<forall>i. \<not> named dir nm i)"
  proof
    assume m: "Directory_Find dir nm = -1"
    show "\<forall>i. \<not> named dir nm i"
    proof (intro allI notI)
      fix i assume n: "named dir nm i"
      then have "0 \<le> de_sector (dir ! i)" using assms(2) by (simp add: named_def)
      with m Find_named[OF assms(1) n] show False by simp
    qed
  qed (rule Find_none)
  show ?thesis
    using none Find_named[OF assms(1), of nm] Directory_Add_effect[OF assms(1), of nm sec]
      Directory_Remove_effect[OF assms(1), of nm]
    by (simp split: prod.splits bool.splits)
qed

definition demo_dir :: "DirectoryEntry list" where
  "demo_dir = replicate 2 \<lparr>inUse = False, de_sector = 0, de_name = replicate 10 0, de_pad = replicate 5 0\<rparr>"

theorem Directory_is_map_witness:
  "\<exists>dir'. Directory_Add demo_dir [97, 98] 7 = (True, dir') \<and> Directory_Find dir' [97, 98] = 7
     \<and> Directory_Find dir' [97] = -1"
proof -
  have u: "unique_names demo_dir" by (auto simp: unique_names_def demo_dir_def)
  have f: "Directory_Find demo_dir [97] = -1"
    by (simp add: Directory_Find_def Directory_FindIndex_def demo_dir_def numeral_eq_Suc)
  have "\<exists>dir'. Directory_Add demo_dir [97, 98] 7 = (True, dir')"
    by (simp add: Directory_Add_def Directory_FindIndex_def demo_dir_def numeral_eq_Suc)
  then obtain dir' where d: "Directory_Add demo_dir [97, 98] 7 = (True, dir')" by blast
  have "\<forall>nm'. Directory_Find dir' nm' = (if cstr 9 nm' = cstr 9 [97, 98] then 7 else Directory_Find demo_dir nm')"
    using Directory_is_map[OF u, of 7 "[97, 98]"] d by (simp add: demo_dir_def)
  then show ?thesis using d f by (simp add: cstr_def)
qed

end
