(* ===== verification/Nachos_FileSys.thy ===== *)
theory Nachos_FileSys
  imports Nachos_Directory
begin

text \<open>
  \<open>filesys/filesys.cc\<close> and the parts of \<open>userprog/bitmap.cc\<close> that store a bitmap in a file: the
  file system proper. A \<open>FileSystem\<close> holds the two files that are kept open, the map of free
  sectors (header in sector 0) and the directory (header in sector 1); every operation reads
  them from disk, works on the copies and writes them back. What \<open>new\<close> returned without
  initialising it comes from a record \<open>Fresh\<close>. The abstract value of the file system is a
  finite map from names to contents (\<open>files\<close>); \<open>fs_inv\<close> is the consistency of the disk.
\<close>

subsection \<open>Bitmaps in files\<close>

definition BitMap_FetchFrom :: "FileHeader \<Rightarrow> BitMap \<Rightarrow> DiskHw \<Rightarrow> (BitMap \<times> DiskHw) res" where
  "BitMap_FetchFrom file bm s =
     mapR (\<lambda>(bs, s'). (bm\<lparr>bm_map := words_of (overwrite (bytes_of (bm_map bm)) 0 bs)\<rparr>, s'))
       (OpenFile_ReadAt file (numWords bm * 4) 0 s)"

definition BitMap_WriteBack :: "(nat \<Rightarrow> byte) \<Rightarrow> FileHeader \<Rightarrow> BitMap \<Rightarrow> DiskHw \<Rightarrow> DiskHw res" where
  "BitMap_WriteBack junk file bm s =
     mapR snd (OpenFile_WriteAt junk file (bytes_of (bm_map bm)) (numWords bm * 4) 0 s)"

subsection \<open>The file system\<close>

definition FreeMapSector :: int where "FreeMapSector = 0"
definition DirectorySector :: int where "DirectorySector = 1"
definition FreeMapFileSize :: int where "FreeMapFileSize = NumSectors div BitsInByte"
definition NumDirEntries :: int where "NumDirEntries = 10"
definition DirectoryFileSize :: int where "DirectoryFileSize = 20 * NumDirEntries"

record FileSystem =
  freeMapFile :: OpenFile
  directoryFile :: OpenFile

text \<open>Uninitialised memory: bitmap words, directory entries, file headers, and the buffers of
  the successive \<open>WriteAt\<close> calls.\<close>

record Fresh =
  fr_map :: "u32 list"
  fr_dir :: "DirectoryEntry list"
  fr_hdr :: "nat \<Rightarrow> FileHeader"
  fr_buf :: "nat \<Rightarrow> nat \<Rightarrow> byte"

definition FileSystem_new :: "Fresh \<Rightarrow> bool \<Rightarrow> DiskHw \<Rightarrow> (FileSystem \<times> DiskHw) res" where
  "FileSystem_new g format s =
     (if format then
        bindR (BitMap_new (fr_map g) NumSectors) (\<lambda>freeMap.
        let directory = Directory_new (fr_dir g) in
        bindR (BitMap_Mark freeMap FreeMapSector) (\<lambda>freeMap.
        bindR (BitMap_Mark freeMap DirectorySector) (\<lambda>freeMap.
        bindR (FileHeader_Allocate (fr_hdr g 0) freeMap FreeMapFileSize) (\<lambda>(ok, mapHdr, freeMap).
        assertR ok (
        bindR (FileHeader_Allocate (fr_hdr g 1) freeMap DirectoryFileSize) (\<lambda>(ok, dirHdr, freeMap).
        assertR ok (
        bindR (FileHeader_WriteBack mapHdr FreeMapSector s) (\<lambda>s.
        bindR (FileHeader_WriteBack dirHdr DirectorySector s) (\<lambda>s.
        bindR (OpenFile_new FreeMapSector s) (\<lambda>(mf, s).
        bindR (OpenFile_new DirectorySector s) (\<lambda>(df, s).
        bindR (BitMap_WriteBack (fr_buf g 0) (of_hdr mf) freeMap s) (\<lambda>s.
        bindR (Directory_WriteBack (fr_buf g 1) (of_hdr df) directory s) (\<lambda>s.
        Inr (\<lparr>freeMapFile = mf, directoryFile = df\<rparr>, s))))))))))))))
      else
        bindR (OpenFile_new FreeMapSector s) (\<lambda>(mf, s).
        bindR (OpenFile_new DirectorySector s) (\<lambda>(df, s).
        Inr (\<lparr>freeMapFile = mf, directoryFile = df\<rparr>, s))))"

definition FileSystem_Create :: "FileSystem \<Rightarrow> Fresh \<Rightarrow> byte list \<Rightarrow> int \<Rightarrow> DiskHw \<Rightarrow> (bool \<times> DiskHw) res" where
  "FileSystem_Create fs g name initialSize s =
     bindR (Directory_FetchFrom (of_hdr (directoryFile fs)) (Directory_new (fr_dir g)) s) (\<lambda>(directory, s).
     if Directory_Find directory name \<noteq> -1 then Inr (False, s)
     else
       bindR (BitMap_new (fr_map g) NumSectors) (\<lambda>freeMap.
       bindR (BitMap_FetchFrom (of_hdr (freeMapFile fs)) freeMap s) (\<lambda>(freeMap, s).
       bindR (BitMap_Find freeMap) (\<lambda>(sector, freeMap).
       if sector = -1 then Inr (False, s)
       else case Directory_Add directory name sector of
         (False, _) \<Rightarrow> Inr (False, s)
       | (True, directory) \<Rightarrow>
         bindR (FileHeader_Allocate (fr_hdr g 0) freeMap initialSize) (\<lambda>(ok, hdr, freeMap).
         if \<not> ok then Inr (False, s)
         else
           bindR (FileHeader_WriteBack hdr sector s) (\<lambda>s.
           bindR (Directory_WriteBack (fr_buf g 0) (of_hdr (directoryFile fs)) directory s) (\<lambda>s.
           bindR (BitMap_WriteBack (fr_buf g 1) (of_hdr (freeMapFile fs)) freeMap s) (\<lambda>s.
           Inr (True, s)))))))))"

definition FileSystem_Open :: "FileSystem \<Rightarrow> Fresh \<Rightarrow> byte list \<Rightarrow> DiskHw \<Rightarrow> (OpenFile option \<times> DiskHw) res" where
  "FileSystem_Open fs g name s =
     bindR (Directory_FetchFrom (of_hdr (directoryFile fs)) (Directory_new (fr_dir g)) s) (\<lambda>(directory, s).
     let sector = Directory_Find directory name in
     if sector \<ge> 0 then mapR (map_prod Some id) (OpenFile_new sector s) else Inr (None, s))"

definition FileSystem_Remove :: "FileSystem \<Rightarrow> Fresh \<Rightarrow> byte list \<Rightarrow> DiskHw \<Rightarrow> (bool \<times> DiskHw) res" where
  "FileSystem_Remove fs g name s =
     bindR (Directory_FetchFrom (of_hdr (directoryFile fs)) (Directory_new (fr_dir g)) s) (\<lambda>(directory, s).
     let sector = Directory_Find directory name in
     if sector = -1 then Inr (False, s)
     else
       bindR (FileHeader_FetchFrom sector s) (\<lambda>(fileHdr, s).
       bindR (BitMap_new (fr_map g) NumSectors) (\<lambda>freeMap.
       bindR (BitMap_FetchFrom (of_hdr (freeMapFile fs)) freeMap s) (\<lambda>(freeMap, s).
       bindR (FileHeader_Deallocate fileHdr freeMap) (\<lambda>freeMap.
       bindR (BitMap_Clear freeMap sector) (\<lambda>freeMap.
       let directory = snd (Directory_Remove directory name) in
       bindR (BitMap_WriteBack (fr_buf g 0) (of_hdr (freeMapFile fs)) freeMap s) (\<lambda>s.
       bindR (Directory_WriteBack (fr_buf g 1) (of_hdr (directoryFile fs)) directory s) (\<lambda>s.
       Inr (True, s)))))))))"

definition FileSystem_List :: "FileSystem \<Rightarrow> Fresh \<Rightarrow> DiskHw \<Rightarrow> (byte list list \<times> DiskHw) res" where
  "FileSystem_List fs g s =
     bindR (Directory_FetchFrom (of_hdr (directoryFile fs)) (Directory_new (fr_dir g)) s) (\<lambda>(directory, s).
     mapR (\<lambda>names. (names, s)) (Directory_List directory))"

subsection \<open>The abstract value\<close>

definition fs_dir :: "FileSystem \<Rightarrow> DiskHw \<Rightarrow> DirectoryEntry list" where
  "fs_dir fs s = bytes_dir (contents (of_hdr (directoryFile fs)) s)"

definition fs_map :: "FileSystem \<Rightarrow> DiskHw \<Rightarrow> BitMap" where
  "fs_map fs s = \<lparr>numBits = NumSectors, numWords = 32, bm_map = words_of (contents (of_hdr (freeMapFile fs)) s)\<rparr>"

definition file_hdr :: "DiskHw \<Rightarrow> DirectoryEntry \<Rightarrow> FileHeader" where
  "file_hdr s e = bytes_hdr (sectors s (de_sector e))"

definition own :: "DiskHw \<Rightarrow> DirectoryEntry \<Rightarrow> int set" where
  "own s e = insert (de_sector e) (set (data_sectors (file_hdr s e)))"

definition sys :: "FileSystem \<Rightarrow> int set" where
  "sys fs = {0, 1} \<union> set (data_sectors (of_hdr (freeMapFile fs))) \<union> set (data_sectors (of_hdr (directoryFile fs)))"

definition files :: "FileSystem \<Rightarrow> DiskHw \<Rightarrow> byte list \<Rightarrow> byte list option" where
  "files fs s nm = (let i = Directory_FindIndex (fs_dir fs s) nm in
     if i = -1 then None else Some (contents (file_hdr s (fs_dir fs s ! nat i)) s))"

text \<open>The fixed part: the two open files.\<close>

definition sys_ok :: "FileSystem \<Rightarrow> DiskHw \<Rightarrow> bool" where
  "sys_ok fs s \<longleftrightarrow> (let mh = of_hdr (freeMapFile fs); dh = of_hdr (directoryFile fs) in
     hdr_ok mh \<and> numBytes mh = FreeMapFileSize \<and> hdr_ok dh \<and> numBytes dh = DirectoryFileSize
     \<and> bytes_hdr (sectors s FreeMapSector) = mh \<and> bytes_hdr (sectors s DirectorySector) = dh
     \<and> set (data_sectors mh) \<inter> set (data_sectors dh) = {}
     \<and> {0, 1} \<inter> (set (data_sectors mh) \<union> set (data_sectors dh)) = {})"

definition entry_inv :: "FileSystem \<Rightarrow> DiskHw \<Rightarrow> DirectoryEntry \<Rightarrow> bool" where
  "entry_inv fs s e \<longleftrightarrow> 0 \<le> de_sector e \<and> de_sector e < NumSectors \<and> hdr_ok (file_hdr s e)
     \<and> de_sector e \<notin> set (data_sectors (file_hdr s e)) \<and> own s e \<inter> sys fs = {}"

definition used :: "DirectoryEntry list \<Rightarrow> nat set" where
  "used dir = {i. i < length dir \<and> inUse (dir ! i)}"

text \<open>
  Every file in the directory has a good header, no sector belongs to two files or to a file
  and the system, and the map marks exactly the sectors that belong to something.
\<close>

definition fs_inv :: "FileSystem \<Rightarrow> DiskHw \<Rightarrow> bool" where
  "fs_inv fs s \<longleftrightarrow> SD_ok s \<and> sys_ok fs s \<and> unique_names (fs_dir fs s)
     \<and> (\<forall>i \<in> used (fs_dir fs s). entry_inv fs s (fs_dir fs s ! i))
     \<and> (\<forall>i \<in> used (fs_dir fs s). \<forall>j \<in> used (fs_dir fs s). i \<noteq> j \<longrightarrow>
          own s (fs_dir fs s ! i) \<inter> own s (fs_dir fs s ! j) = {})
     \<and> BitMap_marked (fs_map fs s) = sys fs \<union> (\<Union>i \<in> used (fs_dir fs s). own s (fs_dir fs s ! i))"

definition fresh_ok :: "Fresh \<Rightarrow> bool" where
  "fresh_ok g \<longleftrightarrow> length (fr_map g) = 32 \<and> length (fr_dir g) = 10 \<and> (\<forall>e \<in> set (fr_dir g). entry_ok e)
     \<and> (\<forall>i. hdr_ints (fr_hdr g i))"

subsection \<open>Bitmaps and directories on disk\<close>

lemma FreeMapFileSize_eq: "FreeMapFileSize = 128" "DirectoryFileSize = 200"
  by (simp_all add: FreeMapFileSize_def DirectoryFileSize_def NumDirEntries_def disk_consts BitsInByte_def)

lemma NumSectors_eq: "NumSectors = 1024"
  by (simp add: disk_consts)

lemma BitMap_ok_1024: "numBits bm = NumSectors \<Longrightarrow> BitMap_ok bm \<longleftrightarrow> numWords bm = 32 \<and> length (bm_map bm) = 32"
  by (auto simp: BitMap_ok_def NumSectors_eq BitsInWord_def divRoundUp_nonneg)

lemma BitMap_FetchFrom_ok:
  assumes "hdr_ok h" "numBytes h = FreeMapFileSize" "SD_ok s" "BitMap_ok bm" "numBits bm = NumSectors"
  shows "\<exists>s'. BitMap_FetchFrom h bm s
      = Inr (\<lparr>numBits = NumSectors, numWords = 32, bm_map = words_of (contents h s)\<rparr>, s')
    \<and> SD_ok s' \<and> sectors s' = sectors s"
proof -
  have bm: "numWords bm = 32" "length (bm_map bm) = 32" using assms(4,5) by (simp_all add: BitMap_ok_1024)
  have l: "length (contents h s) = 128" using length_contents[OF assms(1,3)] assms(2) by (simp add: FreeMapFileSize_eq)
  then have "overwrite (bytes_of (bm_map bm)) 0 (contents h s) = contents h s" using bm(2) by (simp add: overwrite_def)
  moreover have "bm\<lparr>bm_map := w\<rparr> = \<lparr>numBits = NumSectors, numWords = 32, bm_map = w\<rparr>" for w
    using assms(5) bm(1) by (cases bm) simp
  moreover have "take (nat (numWords bm * 4)) (drop (nat 0) (contents h s)) = contents h s" using l bm(1) by simp
  ultimately show ?thesis
    using OpenFile_ReadAt_ok[OF assms(1,3) order_refl, of "numWords bm * 4"] by (auto simp: BitMap_FetchFrom_def)
qed

lemma BitMap_WriteBack_ok:
  assumes "hdr_ok h" "numBytes h = FreeMapFileSize" "SD_ok s" "BitMap_ok bm" "numBits bm = NumSectors"
  shows "\<exists>s'. BitMap_WriteBack junk h bm s = Inr s' \<and> SD_ok s' \<and> words_of (contents h s') = bm_map bm
    \<and> (\<forall>j \<ge> 0. j \<notin> set (data_sectors h) \<longrightarrow> sectors s' j = sectors s j)"
proof -
  have bm: "numWords bm = 32" "length (bm_map bm) = 32" using assms(4,5) by (simp_all add: BitMap_ok_1024)
  have "length (contents h s) = 128" using length_contents[OF assms(1,3)] assms(2) by (simp add: FreeMapFileSize_eq)
  then have "overwrite (contents h s) (nat 0) (take (nat (min (numWords bm * 4) (numBytes h - 0))) (bytes_of (bm_map bm)))
      = bytes_of (bm_map bm)"
    using bm assms(2) by (simp add: overwrite_def FreeMapFileSize_eq)
  moreover have "words_of (bytes_of (bm_map bm)) = bm_map bm" using words_of_bytes_of[of "bm_map bm" "[]"] by simp
  ultimately show ?thesis
    using OpenFile_WriteAt_ok[OF assms(1,3) order_refl, of "numWords bm * 4" "bytes_of (bm_map bm)" junk] bm
    by (auto simp: BitMap_WriteBack_def)
qed

lemma sys_okD:
  assumes "sys_ok fs s"
  shows "hdr_ok (of_hdr (freeMapFile fs))" "numBytes (of_hdr (freeMapFile fs)) = FreeMapFileSize"
    "hdr_ok (of_hdr (directoryFile fs))" "numBytes (of_hdr (directoryFile fs)) = DirectoryFileSize"
    "set (data_sectors (of_hdr (freeMapFile fs))) \<inter> set (data_sectors (of_hdr (directoryFile fs))) = {}"
    "bytes_hdr (sectors s 0) = of_hdr (freeMapFile fs)" "bytes_hdr (sectors s 1) = of_hdr (directoryFile fs)"
    "0 \<notin> set (data_sectors (of_hdr (freeMapFile fs)))" "1 \<notin> set (data_sectors (of_hdr (freeMapFile fs)))"
    "0 \<notin> set (data_sectors (of_hdr (directoryFile fs)))" "1 \<notin> set (data_sectors (of_hdr (directoryFile fs)))"
  using assms by (auto simp: sys_ok_def Let_def FreeMapSector_def DirectorySector_def)

lemma fs_dir_ok:
  assumes "SD_ok s" "sys_ok fs s"
  shows "length (fs_dir fs s) = 10" "\<forall>e \<in> set (fs_dir fs s). entry_ok e"
  using bytes_dir_ok[of 10 "contents (of_hdr (directoryFile fs)) s"] length_contents[OF sys_okD(3)[OF assms(2)] assms(1)]
    sys_okD(4)[OF assms(2)] by (simp_all add: fs_dir_def FreeMapFileSize_eq)

lemma fs_map_ok:
  assumes "SD_ok s" "sys_ok fs s"
  shows "BitMap_ok (fs_map fs s)" "numBits (fs_map fs s) = NumSectors"
  using length_contents[OF sys_okD(1)[OF assms(2)] assms(1)] sys_okD(2)[OF assms(2)]
  by (simp_all add: fs_map_def BitMap_ok_1024 length_words_of FreeMapFileSize_eq)

lemma Directory_new_ok:
  assumes "fresh_ok g"
  shows "length (Directory_new (fr_dir g)) = 10" "\<forall>e \<in> set (Directory_new (fr_dir g)). entry_ok e"
  using assms by (auto simp: fresh_ok_def Directory_new_def entry_ok_def)

lemma fetch_directory:
  assumes "SD_ok s" "sys_ok fs s" "fresh_ok g"
  shows "\<exists>s'. Directory_FetchFrom (of_hdr (directoryFile fs)) (Directory_new (fr_dir g)) s = Inr (fs_dir fs s, s')
    \<and> SD_ok s' \<and> sectors s' = sectors s"
  using Directory_FetchFrom_ok[OF sys_okD(3)[OF assms(2)] assms(1), of "Directory_new (fr_dir g)"]
    Directory_new_ok[OF assms(3)] sys_okD(4)[OF assms(2)] by (simp add: fs_dir_def FreeMapFileSize_eq)

lemma new_map:
  assumes "fresh_ok g"
  shows "\<exists>bm. BitMap_new (fr_map g) NumSectors = Inr bm \<and> BitMap_ok bm \<and> numBits bm = NumSectors \<and> BitMap_marked bm = {}"
  using BitMap_new_ok[of NumSectors "fr_map g"] assms by (simp add: fresh_ok_def NumSectors_eq divRoundUp_nonneg)

lemma fetch_map:
  assumes "SD_ok s" "sys_ok fs s" "BitMap_ok bm" "numBits bm = NumSectors"
  shows "\<exists>s'. BitMap_FetchFrom (of_hdr (freeMapFile fs)) bm s = Inr (fs_map fs s, s') \<and> SD_ok s' \<and> sectors s' = sectors s"
  using BitMap_FetchFrom_ok[OF sys_okD(1,2)[OF assms(2)] assms(1,3,4)] by (simp add: fs_map_def)

subsection \<open>What depends on which sectors\<close>

lemma contents_cong:
  "\<forall>j \<in> set (data_sectors h). sectors s' j = sectors s j \<Longrightarrow> contents h s' = contents h s"
  by (simp add: contents_def blocks_def cong: map_cong)

lemma view_cong:
  assumes "sectors s' = sectors s"
  shows "fs_dir fs s' = fs_dir fs s" "fs_map fs s' = fs_map fs s" "file_hdr s' = file_hdr s" "own s' = own s"
    "contents h s' = contents h s" "sys_ok fs s' = sys_ok fs s" "entry_inv fs s' = entry_inv fs s" "files fs s' = files fs s"
  using contents_cong[of _ s' s] assms
  by (simp_all add: fs_dir_def fs_map_def file_hdr_def own_def sys_ok_def entry_inv_def files_def fun_eq_iff Let_def)

lemma fs_inv_cong: "sectors s' = sectors s \<Longrightarrow> SD_ok s' \<Longrightarrow> fs_inv fs s \<Longrightarrow> fs_inv fs s'"
  by (simp add: fs_inv_def view_cong[of s' s])

lemma file_cong:
  assumes "\<forall>j \<in> own s e. sectors s' j = sectors s j"
  shows "file_hdr s' e = file_hdr s e" "own s' e = own s e" "contents (file_hdr s' e) s' = contents (file_hdr s e) s"
proof -
  show h: "file_hdr s' e = file_hdr s e" using assms by (simp add: file_hdr_def own_def)
  then show "own s' e = own s e" by (simp add: own_def)
  show "contents (file_hdr s' e) s' = contents (file_hdr s e) s"
    unfolding h using assms by (intro contents_cong) (simp add: own_def)
qed

subsection \<open>Changing one directory entry\<close>

definition others :: "FileSystem \<Rightarrow> DiskHw \<Rightarrow> nat \<Rightarrow> int set" where
  "others fs s i = (\<Union>j \<in> used (fs_dir fs s) - {i}. own s (fs_dir fs s ! j))"

text \<open>
  The frame of \<open>Create\<close> and \<open>Remove\<close>: the directory changes in entry \<open>i\<close>, the files of the other
  entries and the two headers of the system are left alone, and the map is brought up to date.
\<close>

lemma fs_inv_update:
  assumes "fs_inv fs s" "i < 10" "SD_ok s'" "fs_dir fs s' = (fs_dir fs s)[i := e]"
    and "\<forall>j \<in> {0, 1} \<union> others fs s i. sectors s' j = sectors s j" "unique_names ((fs_dir fs s)[i := e])"
    and "inUse e \<Longrightarrow> entry_inv fs s' e \<and> own s' e \<inter> others fs s i = {}"
    and "BitMap_marked (fs_map fs s') = sys fs \<union> others fs s i \<union> (if inUse e then own s' e else {})"
  shows "fs_inv fs s'"
    "j \<in> used (fs_dir fs s) - {i} \<Longrightarrow> contents (file_hdr s' (fs_dir fs s ! j)) s' = contents (file_hdr s (fs_dir fs s ! j)) s"
proof -
  let ?D = "fs_dir fs s"
  have inv: "SD_ok s" "sys_ok fs s" "\<forall>i \<in> used ?D. entry_inv fs s (?D ! i)"
      "\<forall>i \<in> used ?D. \<forall>j \<in> used ?D. i \<noteq> j \<longrightarrow> own s (?D ! i) \<inter> own s (?D ! j) = {}"
    using assms(1) by (auto simp: fs_inv_def)
  have len: "length ?D = 10" using fs_dir_ok[OF inv(1,2)] by simp
  have same: "\<forall>x \<in> own s (?D ! j). sectors s' x = sectors s x" if "j \<in> used ?D - {i}" for j
    using assms(5) that by (auto simp: others_def)
  note eq = file_cong[OF same]
  show "j \<in> used ?D - {i} \<Longrightarrow> contents (file_hdr s' (?D ! j)) s' = contents (file_hdr s (?D ! j)) s" by (rule eq(3))
  have D': "?D[i := e] ! j = (if j = i then e else ?D ! j)" for j using assms(2) len by simp
  have U: "used (?D[i := e]) = (used ?D - {i}) \<union> (if inUse e then {i} else {})"
    using assms(2) len by (auto simp: used_def D')
  have "sys_ok fs s'" using inv(2) assms(5) by (simp add: sys_ok_def FreeMapSector_def DirectorySector_def)
  moreover have "entry_inv fs s' (?D ! j)" if "j \<in> used ?D - {i}" for j
    using inv(3) that eq(1,2)[OF that] by (auto simp: entry_inv_def)
  moreover have "own s' (?D ! j) \<inter> own s' (?D ! k) = {}" if "j \<in> used ?D - {i}" "k \<in> used ?D - {i}" "j \<noteq> k" for j k
    using inv(4) that eq(2) by auto
  moreover have "own s' e \<inter> own s' (?D ! j) = {}" if "inUse e" "j \<in> used ?D - {i}" for j
    using assms(7)[OF that(1)] eq(2)[OF that(2)] that(2) by (auto simp: others_def)
  moreover have "others fs s i = (\<Union>j \<in> used ?D - {i}. own s' (?D ! j))" using eq(2) by (auto simp: others_def)
  ultimately show "fs_inv fs s'"
    using assms(3,6,7,8) unfolding fs_inv_def assms(4) U by (auto simp: D' Int_commute split: if_splits)
qed

lemma files_None: "\<forall>i. \<not> named (fs_dir fs s) nm i \<Longrightarrow> files fs s nm = None"
  by (cases "fs_dir fs s" nm rule: FindIndex_cases) (auto simp: files_def)

lemma files_Some:
  "unique_names (fs_dir fs s) \<Longrightarrow> named (fs_dir fs s) nm i \<Longrightarrow>
   files fs s nm = Some (contents (file_hdr s (fs_dir fs s ! i)) s)"
  by (simp add: files_def FindIndex_named)

lemma named_used: "named dir nm i \<Longrightarrow> i \<in> used dir"
  by (simp add: named_def used_def)

lemma files_update:
  assumes "fs_inv fs s" "fs_inv fs s'" "i < 10" "fs_dir fs s' = (fs_dir fs s)[i := e]"
    and "\<And>j. j \<in> used (fs_dir fs s) - {i} \<Longrightarrow>
      contents (file_hdr s' (fs_dir fs s ! j)) s' = contents (file_hdr s (fs_dir fs s ! j)) s"
  shows "files fs s' nm = (if inUse e \<and> cstr 9 (de_name e) = cstr 9 nm then Some (contents (file_hdr s' e) s')
    else if named (fs_dir fs s) nm i then None else files fs s nm)"
proof -
  let ?D = "fs_dir fs s"
  have u: "unique_names ?D" "unique_names (fs_dir fs s')" and len: "length ?D = 10"
    using assms(1,2) fs_dir_ok[of s fs] by (auto simp: fs_inv_def)
  have nm: "named (fs_dir fs s') nm j = (if j = i then inUse e \<and> cstr 9 (de_name e) = cstr 9 nm else named ?D nm j)" for j
    unfolding assms(4) using assms(3) len by (simp add: named_update)
  have at: "fs_dir fs s' ! j = (if j = i then e else ?D ! j)" for j unfolding assms(4) using assms(3) len by simp
  show ?thesis
  proof (cases "inUse e \<and> cstr 9 (de_name e) = cstr 9 nm")
    case True
    then show ?thesis using files_Some[OF u(2), of nm i] nm at by simp
  next
    case ne: False
    show ?thesis
    proof (cases "\<exists>j. j \<noteq> i \<and> named ?D nm j")
      case True
      then obtain j where j: "j \<noteq> i" "named ?D nm j" by blast
      then have "\<not> named ?D nm i" using named_unique[OF u(1)] by blast
      moreover have "files fs s' nm = files fs s nm"
        using files_Some[OF u(2), of nm j] files_Some[OF u(1) j(2)] nm at j assms(5)[of j] named_used[OF j(2)] by simp
      ultimately show ?thesis using ne by auto
    next
      case False
      then have "files fs s' nm = None" using ne nm by (intro files_None) auto
      moreover have "files fs s nm = None" if "\<not> named ?D nm i" using that False by (intro files_None) metis
      ultimately show ?thesis using ne by auto
    qed
  qed
qed

subsection \<open>Open\<close>

lemma OpenFile_new_ok:
  assumes "SD_ok s" "0 \<le> sec" "sec < NumSectors"
  shows "\<exists>s'. OpenFile_new sec s = Inr (\<lparr>of_hdr = bytes_hdr (sectors s sec), seekPosition = 0\<rparr>, s')
    \<and> SD_ok s' \<and> sectors s' = sectors s"
  using FetchFrom_ok[OF assms] by (auto simp: OpenFile_new_def)

lemma Find_cases:
  assumes "fs_inv fs s"
  obtains (none) "Directory_Find (fs_dir fs s) nm = -1" "files fs s nm = None" "\<forall>i. \<not> named (fs_dir fs s) nm i"
    | (some) i where "named (fs_dir fs s) nm i" "i \<in> used (fs_dir fs s)" "i < 10"
      "Directory_Find (fs_dir fs s) nm = de_sector (fs_dir fs s ! i)" "Directory_Find (fs_dir fs s) nm \<noteq> -1"
      "entry_inv fs s (fs_dir fs s ! i)" "files fs s nm = Some (contents (file_hdr s (fs_dir fs s ! i)) s)"
proof -
  let ?D = "fs_dir fs s"
  have u: "unique_names ?D" "\<forall>i \<in> used ?D. entry_inv fs s (?D ! i)" "length ?D = 10"
    using assms fs_dir_ok[of s fs] by (auto simp: fs_inv_def)
  consider "\<forall>i. \<not> named ?D nm i" | i where "named ?D nm i" by blast
  then show thesis
  proof cases
    case 1
    from that(1)[OF Find_none[OF 1] files_None[OF 1] 1] show ?thesis .
  next
    case (2 i)
    have i: "i \<in> used ?D" "i < 10" using 2 u(3) by (auto simp: named_def used_def)
    then have e: "entry_inv fs s (?D ! i)" using u(2) by blast
    then have "Directory_Find ?D nm \<noteq> -1" using Find_named[OF u(1) 2] by (auto simp: entry_inv_def)
    from that(2)[OF 2 i Find_named[OF u(1) 2] this e files_Some[OF u(1) 2]] show ?thesis .
  qed
qed

lemma FileSystem_Open_hdr:
  assumes "fs_inv fs s" "fresh_ok g"
  shows "\<exists>f s'. FileSystem_Open fs g nm s = Inr (f, s') \<and> fs_inv fs s' \<and> sectors s' = sectors s
    \<and> (case files fs s nm of None \<Rightarrow> f = None | Some c \<Rightarrow> \<exists>i. named (fs_dir fs s) nm i
         \<and> f = Some \<lparr>of_hdr = file_hdr s (fs_dir fs s ! i), seekPosition = 0\<rparr> \<and> c = contents (file_hdr s (fs_dir fs s ! i)) s)"
proof -
  have ok: "SD_ok s" "sys_ok fs s" using assms(1) by (simp_all add: fs_inv_def)
  obtain s1 where s1: "Directory_FetchFrom (of_hdr (directoryFile fs)) (Directory_new (fr_dir g)) s = Inr (fs_dir fs s, s1)"
      "SD_ok s1" "sectors s1 = sectors s" using fetch_directory[OF ok assms(2)] by blast
  have i1: "fs_inv fs s1" using fs_inv_cong[OF s1(3,2) assms(1)] .
  from assms(1) show ?thesis
  proof (cases rule: Find_cases[where nm = nm])
    case none
    then show ?thesis using s1 i1 by (simp add: FileSystem_Open_def Let_def)
  next
    case (some i)
    let ?e = "fs_dir fs s ! i"
    have r: "0 \<le> de_sector ?e" "de_sector ?e < NumSectors" using some(6) by (simp_all add: entry_inv_def)
    obtain s2 where s2: "OpenFile_new (de_sector ?e) s1 = Inr (\<lparr>of_hdr = file_hdr s ?e, seekPosition = 0\<rparr>, s2)" "SD_ok s2"
        "sectors s2 = sectors s" using OpenFile_new_ok[OF s1(2) r] s1(3) by (auto simp: file_hdr_def)
    have "fs_inv fs s2" using fs_inv_cong[OF s2(3,2) assms(1)] .
    then show ?thesis using s1(1) s2 some r by (auto simp: FileSystem_Open_def Let_def)
  qed
qed

subsection \<open>Committing a change\<close>

text \<open>Both tables are written back, in either order; only their own sectors change.\<close>

lemma write_dir_map:
  assumes "SD_ok s" "sys_ok fs s0" "length D = 10" "\<forall>e \<in> set D. entry_ok e" "BitMap_ok M" "numBits M = NumSectors"
  shows "\<exists>s1 s2. Directory_WriteBack j1 (of_hdr (directoryFile fs)) D s = Inr s1
    \<and> BitMap_WriteBack j2 (of_hdr (freeMapFile fs)) M s1 = Inr s2 \<and> SD_ok s2 \<and> fs_dir fs s2 = D \<and> fs_map fs s2 = M
    \<and> (\<forall>j \<ge> 0. j \<notin> sys fs - {0, 1} \<longrightarrow> sectors s2 j = sectors s j)"
proof -
  let ?mh = "of_hdr (freeMapFile fs)" and ?dh = "of_hdr (directoryFile fs)"
  note sys = sys_okD[OF assms(2)]
  have dpos: "\<forall>j \<in> set (data_sectors ?dh). 0 \<le> j" using sys(3) by (auto simp: hdr_ok_def)
  obtain s1 where s1: "Directory_WriteBack j1 ?dh D s = Inr s1" "SD_ok s1" "bytes_dir (contents ?dh s1) = D"
      "\<forall>j \<ge> 0. j \<notin> set (data_sectors ?dh) \<longrightarrow> sectors s1 j = sectors s j"
    using Directory_WriteBack_ok[OF sys(3) assms(1) _ assms(4)] sys(4) assms(3) by (auto simp: FreeMapFileSize_eq)
  obtain s2 where s2: "BitMap_WriteBack j2 ?mh M s1 = Inr s2" "SD_ok s2" "words_of (contents ?mh s2) = bm_map M"
      "\<forall>j \<ge> 0. j \<notin> set (data_sectors ?mh) \<longrightarrow> sectors s2 j = sectors s1 j"
    using BitMap_WriteBack_ok[OF sys(1,2) s1(2) assms(5,6)] by blast
  have "contents ?dh s2 = contents ?dh s1" using s2(4) sys(5) dpos by (intro contents_cong) auto
  moreover have "fs_map fs s2 = M" using s2(3) assms(5,6) by (cases M) (simp add: fs_map_def BitMap_ok_1024)
  ultimately show ?thesis using s1 s2 sys(8-11) by (auto simp: fs_dir_def sys_def)
qed

lemma write_map_dir:
  assumes "SD_ok s" "sys_ok fs s0" "length D = 10" "\<forall>e \<in> set D. entry_ok e" "BitMap_ok M" "numBits M = NumSectors"
  shows "\<exists>s1 s2. BitMap_WriteBack j2 (of_hdr (freeMapFile fs)) M s = Inr s1
    \<and> Directory_WriteBack j1 (of_hdr (directoryFile fs)) D s1 = Inr s2 \<and> SD_ok s2 \<and> fs_dir fs s2 = D \<and> fs_map fs s2 = M
    \<and> (\<forall>j \<ge> 0. j \<notin> sys fs - {0, 1} \<longrightarrow> sectors s2 j = sectors s j)"
proof -
  let ?mh = "of_hdr (freeMapFile fs)" and ?dh = "of_hdr (directoryFile fs)"
  note sys = sys_okD[OF assms(2)]
  have mpos: "\<forall>j \<in> set (data_sectors ?mh). 0 \<le> j" using sys(1) by (auto simp: hdr_ok_def)
  obtain s1 where s1: "BitMap_WriteBack j2 ?mh M s = Inr s1" "SD_ok s1" "words_of (contents ?mh s1) = bm_map M"
      "\<forall>j \<ge> 0. j \<notin> set (data_sectors ?mh) \<longrightarrow> sectors s1 j = sectors s j"
    using BitMap_WriteBack_ok[OF sys(1,2) assms(1,5,6)] by blast
  obtain s2 where s2: "Directory_WriteBack j1 ?dh D s1 = Inr s2" "SD_ok s2" "bytes_dir (contents ?dh s2) = D"
      "\<forall>j \<ge> 0. j \<notin> set (data_sectors ?dh) \<longrightarrow> sectors s2 j = sectors s1 j"
    using Directory_WriteBack_ok[OF sys(3) s1(2) _ assms(4)] sys(4) assms(3) by (auto simp: FreeMapFileSize_eq)
  have "contents ?mh s2 = contents ?mh s1" using s2(4) sys(5) mpos by (intro contents_cong) auto
  then have "fs_map fs s2 = M" using s1(3) assms(5,6) by (cases M) (simp add: fs_map_def BitMap_ok_1024)
  then show ?thesis using s1 s2 sys(8-11) by (auto simp: fs_dir_def sys_def)
qed

lemma fs_inv_marked:
  assumes "fs_inv fs s"
  shows "sys fs \<subseteq> BitMap_marked (fs_map fs s)" "others fs s i \<subseteq> BitMap_marked (fs_map fs s)"
    "BitMap_marked (fs_map fs s) \<subseteq> {0..<NumSectors}" "others fs s i \<inter> sys fs = {}"
    "i \<notin> used (fs_dir fs s) \<Longrightarrow> BitMap_marked (fs_map fs s) = sys fs \<union> others fs s i"
    "i \<in> used (fs_dir fs s) \<Longrightarrow> BitMap_marked (fs_map fs s) = sys fs \<union> others fs s i \<union> own s (fs_dir fs s ! i)"
    "i \<in> used (fs_dir fs s) \<Longrightarrow> own s (fs_dir fs s ! i) \<inter> others fs s i = {}"
proof -
  have m: "BitMap_marked (fs_map fs s) = sys fs \<union> (\<Union>i \<in> used (fs_dir fs s). own s (fs_dir fs s ! i))"
    using assms by (simp add: fs_inv_def)
  then show "sys fs \<subseteq> BitMap_marked (fs_map fs s)" "others fs s i \<subseteq> BitMap_marked (fs_map fs s)" by (auto simp: others_def)
  show "BitMap_marked (fs_map fs s) \<subseteq> {0..<NumSectors}" using BitMap_marked_range[of "fs_map fs s"] by (simp add: fs_map_def)
  show "others fs s i \<inter> sys fs = {}" using assms by (auto simp: others_def fs_inv_def entry_inv_def)
  show "i \<notin> used (fs_dir fs s) \<Longrightarrow> BitMap_marked (fs_map fs s) = sys fs \<union> others fs s i"
    unfolding m others_def by auto
  show "i \<in> used (fs_dir fs s) \<Longrightarrow> BitMap_marked (fs_map fs s) = sys fs \<union> others fs s i \<union> own s (fs_dir fs s ! i)"
    unfolding m others_def by auto
  show "own s (fs_dir fs s ! i) \<inter> others fs s i = {}" if "i \<in> used (fs_dir fs s)"
    using assms that unfolding others_def fs_inv_def by fastforce
qed

lemma alloc_loop_length: "alloc_loop fnd n b = Inr (found, b') \<Longrightarrow> length found = n"
  by (induction n arbitrary: b found b') (auto simp: res_simps split: prod.splits)

lemma Allocate_ints:
  assumes "FileHeader_Allocate h fm n = Inr (True, h', fm')" "hdr_ok h'" "hdr_ints h" "n \<le> 2147483647"
  shows "hdr_ints h'"
proof -
  obtain found where h': "h' = h\<lparr>numBytes := n, numSectors := divRoundUp n SectorSize, dataSectors := overwrite (dataSectors h) 0 found\<rparr>"
      "length found = nat (divRoundUp n SectorSize)"
    using assms(1)
    by (auto simp: FileHeader_Allocate_def Let_def res_simps dest: alloc_loop_length split: if_splits prod.splits)
  have ok: "0 \<le> n" "divRoundUp n SectorSize \<le> 30" "0 \<le> divRoundUp n SectorSize" "length (dataSectors h) = 30"
    using assms(2,3) h'(1) divRoundUp_ge0[of n SectorSize] by (auto simp: hdr_ok_def hdr_ints_def NumDirect_eq SectorSize_def)
  have "data_sectors h' = found" using h' ok take_overwrite_0[of found "dataSectors h"] by (simp add: data_sectors_def)
  then have f: "\<forall>x \<in> set found. is_int x" using assms(2) by (force simp: hdr_ok_def is_int_def NumSectors_eq)
  have "\<forall>x \<in> set (dataSectors h). is_int x" using assms(3) by (simp add: hdr_ints_def list_all_iff)
  then have "\<forall>x \<in> set (overwrite (dataSectors h) 0 found). is_int x" using f by (auto simp: overwrite_def dest: in_set_dropD)
  then show ?thesis using h' ok assms(4) by (auto simp: hdr_ints_def list_all_iff is_int_def NumDirect_eq)
qed

subsection \<open>Create\<close>

text \<open>The state in which a new file's header and both tables have been written.\<close>

lemma create_commit:
  assumes "fs_inv fs s" "i < 10" "\<not> inUse (fs_dir fs s ! i)" "\<forall>j. \<not> named (fs_dir fs s) nm j"
    and "e = (fs_dir fs s ! i)\<lparr>inUse := True, de_name := strncpy (de_name (fs_dir fs s ! i)) nm 9, de_sector := sec\<rparr>"
    and "0 \<le> sec" "sec < NumSectors" "sec \<notin> BitMap_marked (fs_map fs s)" "hdr_ok h" "hdr_ints h"
    and "set (data_sectors h) \<inter> insert sec (BitMap_marked (fs_map fs s)) = {}"
    and "BitMap_marked M = insert sec (BitMap_marked (fs_map fs s)) \<union> set (data_sectors h)"
    and "SD_ok s'" "fs_dir fs s' = (fs_dir fs s)[i := e]" "fs_map fs s' = M"
    and "\<forall>j \<ge> 0. j \<notin> sys fs - {0, 1} \<longrightarrow> sectors s' j = (if j = sec then hdr_bytes h else sectors s j)"
  shows "fs_inv fs s' \<and> (\<exists>c. length c = nat (numBytes h)
    \<and> files fs s' = (\<lambda>nm'. if cstr 9 nm' = cstr 9 nm then Some c else files fs s nm'))"
proof -
  note mk = fs_inv_marked[OF assms(1)]
  have e: "inUse e" "cstr 9 (de_name e) = cstr 9 nm" "de_sector e = sec" using assms(5) by simp_all
  have secs: "sec \<notin> sys fs" using mk(1) assms(8) by blast
  then have "sectors s' sec = hdr_bytes h" using assms(6,16) by auto
  then have fh: "file_hdr s' e = h" using e(3) bytes_hdr_bytes[OF assms(10)] by (simp add: file_hdr_def)
  then have own: "own s' e = insert sec (set (data_sectors h))" using e(3) by (simp add: own_def)
  have nu: "i \<notin> used (fs_dir fs s)" using assms(3) by (simp add: used_def)
  have un: "unique_names ((fs_dir fs s)[i := e])"
    using unique_names_Add[OF _ assms(4) _ e(2)] assms(1,2) fs_dir_ok[of s fs] by (simp add: fs_inv_def)
  have keep: "\<forall>j \<in> {0, 1} \<union> others fs s i. sectors s' j = sectors s j"
  proof
    fix j assume j: "j \<in> {0, 1} \<union> others fs s i"
    then have "0 \<le> j" "j \<notin> sys fs - {0, 1}" "j \<noteq> sec"
      using mk(2)[of i] mk(3) mk(4)[of i] assms(8) secs by (auto simp: sys_def)
    then show "sectors s' j = sectors s j" using assms(16) by auto
  qed
  have ei: "entry_inv fs s' e \<and> own s' e \<inter> others fs s i = {}"
    using assms(6-9,11) mk(1) mk(2)[of i] fh own e(3) by (auto simp: entry_inv_def)
  have md: "BitMap_marked (fs_map fs s') = sys fs \<union> others fs s i \<union> (if inUse e then own s' e else {})"
    using assms(12,15) mk(5)[OF nu] e(1) own by auto
  note inv' = fs_inv_update[OF assms(1,2,13,14) keep un _ md]
  have i': "fs_inv fs s'" by (rule inv'(1)) (use ei in blast)+
  have "files fs s' nm' = (if cstr 9 nm' = cstr 9 nm then Some (contents h s') else files fs s nm')" for nm'
    using files_update[OF assms(1) i' assms(2,14) inv'(2)] ei e(1,2) fh assms(3) by (auto simp: named_def)
  then show ?thesis using i' length_contents[OF assms(9,13)] by blast
qed

lemma FileSystem_Create_ok:
  assumes "fs_inv fs s" "fresh_ok g" "0 \<le> n" "divRoundUp n SectorSize \<le> NumDirect"
  shows "\<exists>b s'. FileSystem_Create fs g nm n s = Inr (b, s') \<and> fs_inv fs s'
    \<and> (if b then files fs s nm = None \<and> (\<exists>c. length c = nat n
          \<and> files fs s' = (\<lambda>nm'. if cstr 9 nm' = cstr 9 nm then Some c else files fs s nm'))
       else sectors s' = sectors s)
    \<and> (b \<longleftrightarrow> files fs s nm = None \<and> (\<exists>i < 10. \<not> inUse (fs_dir fs s ! i))
        \<and> divRoundUp n SectorSize < NumSectors - int (card (BitMap_marked (fs_map fs s))))"
proof -
  let ?D = "fs_dir fs s" and ?M = "fs_map fs s"
  have ok: "SD_ok s" "sys_ok fs s" and u: "unique_names ?D" using assms(1) by (simp_all add: fs_inv_def)
  note D = fs_dir_ok[OF ok] and M = fs_map_ok[OF ok]
  obtain s1 where s1: "Directory_FetchFrom (of_hdr (directoryFile fs)) (Directory_new (fr_dir g)) s = Inr (?D, s1)"
      "SD_ok s1" "sectors s1 = sectors s" using fetch_directory[OF ok assms(2)] by blast
  obtain bm where bm: "BitMap_new (fr_map g) NumSectors = Inr bm" "BitMap_ok bm" "numBits bm = NumSectors"
    using new_map[OF assms(2)] by blast
  have ok1: "sys_ok fs s1" using ok(2) view_cong(6)[OF s1(3)] by simp
  obtain s2 where s2: "BitMap_FetchFrom (of_hdr (freeMapFile fs)) bm s1 = Inr (?M, s2)" "SD_ok s2" "sectors s2 = sectors s"
    using fetch_map[OF s1(2) ok1 bm(2,3)] s1(3) view_cong(2)[OF s1(3)] by auto
  note i1 = fs_inv_cong[OF s1(3,2) assms(1)] and i2 = fs_inv_cong[OF s2(3,2) assms(1)]
  define fits where "fits \<longleftrightarrow> divRoundUp n SectorSize < NumSectors - int (card (BitMap_marked ?M))"
  have n0: "0 \<le> divRoundUp n SectorSize" using divRoundUp_ge0[OF assms(3)] by (simp add: SectorSize_def)
  note fd = fits_def[symmetric]
  show ?thesis
  proof (cases "files fs s nm")
    case (Some c)
    then have "Directory_Find ?D nm \<noteq> -1" using Find_cases[OF assms(1), of nm] by force
    then show ?thesis using Some s1 i1 unfolding fd by (intro exI[of _ False]) (simp add: FileSystem_Create_def)
  next
    case None
    then have f: "Directory_Find ?D nm = -1" "\<forall>i. \<not> named ?D nm i" using Find_cases[OF assms(1), of nm] by force+
    have run: "FileSystem_Create fs g nm n s = bindR (BitMap_Find ?M) (\<lambda>(sector, freeMap).
       if sector = -1 then Inr (False, s2)
       else case Directory_Add ?D nm sector of
         (False, _) \<Rightarrow> Inr (False, s2)
       | (True, directory) \<Rightarrow>
         bindR (FileHeader_Allocate (fr_hdr g 0) freeMap n) (\<lambda>(ok, hdr, freeMap).
         if \<not> ok then Inr (False, s2)
         else
           bindR (FileHeader_WriteBack hdr sector s2) (\<lambda>s.
           bindR (Directory_WriteBack (fr_buf g 0) (of_hdr (directoryFile fs)) directory s) (\<lambda>s.
           bindR (BitMap_WriteBack (fr_buf g 1) (of_hdr (freeMapFile fs)) freeMap s) (\<lambda>s.
           Inr (True, s))))))"
      using s1(1) f(1) bm(1) s2(1) by (simp add: FileSystem_Create_def)
    show ?thesis
    proof (cases "BitMap_marked ?M = {0..<NumSectors}")
      case True
      then have "BitMap_Find ?M = Inr (-1, ?M)" "\<not> fits"
        using bitmap_alloc.find_full[OF M(1)] M(2) n0 by (auto simp: fits_def NumSectors_eq)
      then show ?thesis using run i2 s2(3) unfolding fd by (intro exI[of _ False]) simp
    next
      case False
      with bitmap_alloc.find_free[OF M(1)] M(2) obtain sec M1 where
        sec: "BitMap_Find ?M = Inr (sec, M1)" "sec \<in> {0..<NumSectors} - BitMap_marked ?M" "BitMap_ok M1"
          "numBits M1 = NumSectors" "BitMap_marked M1 = insert sec (BitMap_marked ?M)" by auto
      have card1: "int (card (BitMap_marked M1)) = int (card (BitMap_marked ?M)) + 1" using sec(2,5) by simp
      show ?thesis
      proof (cases rule: Directory_Add_cases[where dir = ?D and nm = nm and sec = sec])
        case (exists i)
        then show ?thesis using f(2) by blast
      next
        case full
        then have "\<not> (\<exists>i < 10. \<not> inUse (?D ! i))" using D(1) by auto
        then show ?thesis using run sec(1,2) full(3) i2 s2(3) unfolding fd by (intro exI[of _ False]) auto
      next
        case (added i)
        let ?e = "(?D ! i)\<lparr>inUse := True, de_name := strncpy (de_name (?D ! i)) nm 9, de_sector := sec\<rparr>"
        have i: "i < 10" using added(2) D(1) by simp
        have hl: "int (length (dataSectors (fr_hdr g 0))) = NumDirect" "hdr_ints (fr_hdr g 0)"
          using assms(2) by (simp_all add: fresh_ok_def hdr_ints_def)
        show ?thesis
        proof (cases fits)
          case False
          then have "NumSectors - int (card (BitMap_marked M1)) < divRoundUp n SectorSize" using card1 by (simp add: fits_def)
          from FileHeader_Allocate_no_space[OF sec(3,4) this, of "fr_hdr g 0"] show ?thesis
            using run sec(1,2) added(4) i2 s2(3) False unfolding fd by (intro exI[of _ False]) auto
        next
          case True
          then have "divRoundUp n SectorSize \<le> NumSectors - int (card (BitMap_marked M1))" using card1 by (simp add: fits_def)
          from FileHeader_Allocate_ok[OF sec(3,4) assms(3) hl(1) this assms(4)] obtain h M2 where
            h: "FileHeader_Allocate (fr_hdr g 0) M1 n = Inr (True, h, M2)" "hdr_ok h" "numBytes h = n"
              "set (data_sectors h) \<inter> BitMap_marked M1 = {}" "BitMap_ok M2" "numBits M2 = NumSectors"
              "BitMap_marked M2 = BitMap_marked M1 \<union> set (data_sectors h)" by blast
          have hi: "hdr_ints h" using Allocate_ints[OF h(1,2) hl(2)] h(2,3) hdr_ok_sectors[OF h(2)]
            by (simp add: hdr_ok_def NumDirect_eq)
          obtain s3 where s3: "FileHeader_WriteBack h sec s2 = Inr s3" "SD_ok s3"
              "\<forall>j \<ge> 0. sectors s3 j = (if j = sec then hdr_bytes h else sectors s2 j)"
            using WriteBack_ok[OF s2(2) _ _ hi, of sec] sec(2) by auto
          have "entry_ok ?e" using D(2) added(2) sec(2) by (auto simp: entry_ok_def length_strncpy is_int_def NumSectors_eq)
          then have De: "\<forall>e \<in> set (?D[i := ?e]). entry_ok e" using D(2) set_update_subset_insert[of ?D i ?e] by blast
          obtain s4 s5 where s5: "Directory_WriteBack (fr_buf g 0) (of_hdr (directoryFile fs)) (?D[i := ?e]) s3 = Inr s4"
              "BitMap_WriteBack (fr_buf g 1) (of_hdr (freeMapFile fs)) M2 s4 = Inr s5" "SD_ok s5" "fs_dir fs s5 = ?D[i := ?e]"
              "fs_map fs s5 = M2" "\<forall>j \<ge> 0. j \<notin> sys fs - {0, 1} \<longrightarrow> sectors s5 j = sectors s3 j"
            using write_dir_map[OF s3(2) ok(2) _ De h(5,6)] D(1) by force
          have "FileSystem_Create fs g nm n s = Inr (True, s5)"
            using run sec(1,2) added(4) h(1) s3(1) s5(1,2) by auto
          moreover have "fs_inv fs s5 \<and> (\<exists>c. length c = nat (numBytes h)
              \<and> files fs s5 = (\<lambda>nm'. if cstr 9 nm' = cstr 9 nm then Some c else files fs s nm'))"
            by (rule create_commit[OF assms(1) i added(3) f(2) refl _ _ _ h(2) hi _ _ s5(3-5)])
              (use sec h(4,7) s5(6) s3(3) s2(3) in auto)
          ultimately show ?thesis using True None i added(3) h(3) unfolding fd by (intro exI[of _ True]) auto
        qed
      qed
    qed
  qed
qed

subsection \<open>Remove\<close>

lemma Directory_Remove_named:
  assumes "unique_names dir" "named dir nm i"
  shows "Directory_Remove dir nm = (True, dir[i := (dir ! i)\<lparr>inUse := False\<rparr>])"
  using assms by (simp add: Directory_Remove_def FindIndex_named)

lemma remove_commit:
  assumes "fs_inv fs s" "named (fs_dir fs s) nm i" "e = (fs_dir fs s ! i)\<lparr>inUse := False\<rparr>"
    and "BitMap_marked M = BitMap_marked (fs_map fs s) - own s (fs_dir fs s ! i)"
    and "SD_ok s'" "fs_dir fs s' = (fs_dir fs s)[i := e]" "fs_map fs s' = M"
    and "\<forall>j \<ge> 0. j \<notin> sys fs - {0, 1} \<longrightarrow> sectors s' j = sectors s j"
  shows "fs_inv fs s' \<and> files fs s' = (\<lambda>nm'. if cstr 9 nm' = cstr 9 nm then None else files fs s nm')"
proof -
  note mk = fs_inv_marked[OF assms(1)]
  have u: "unique_names (fs_dir fs s)" and len: "length (fs_dir fs s) = 10"
    using assms(1) fs_dir_ok[of s fs] by (simp_all add: fs_inv_def)
  have i: "i \<in> used (fs_dir fs s)" "i < 10" using assms(2) len by (auto simp: named_def used_def)
  have e: "\<not> inUse e" using assms(3) by simp
  have "entry_inv fs s (fs_dir fs s ! i)" using assms(1) i(1) by (simp add: fs_inv_def)
  then have os: "own s (fs_dir fs s ! i) \<inter> sys fs = {}" by (simp add: entry_inv_def)
  have keep: "\<forall>j \<in> {0, 1} \<union> others fs s i. sectors s' j = sectors s j"
  proof
    fix j assume j: "j \<in> {0, 1} \<union> others fs s i"
    then have "0 \<le> j" "j \<notin> sys fs - {0, 1}" using mk(2)[of i] mk(3) mk(4)[of i] by (auto simp: sys_def)
    then show "sectors s' j = sectors s j" using assms(8) by blast
  qed
  have un: "unique_names ((fs_dir fs s)[i := e])" using unique_names_Remove[OF u e] i(2) len by simp
  have md: "BitMap_marked (fs_map fs s') = sys fs \<union> others fs s i \<union> (if inUse e then own s' e else {})"
    unfolding assms(4,7) mk(6)[OF i(1)] using e mk(7)[OF i(1)] os by auto
  note inv' = fs_inv_update[OF assms(1) i(2) assms(5,6) keep un _ md]
  have i': "fs_inv fs s'" by (rule inv'(1)) (use e in blast)+
  have "files fs s' nm' = (if cstr 9 nm' = cstr 9 nm then None else files fs s nm')" for nm'
    using files_update[OF assms(1) i' i(2) assms(6) inv'(2)] e assms(2) by (auto simp: named_def)
  then show ?thesis using i' by blast
qed

lemma FileSystem_Remove_ok:
  assumes "fs_inv fs s" "fresh_ok g"
  shows "\<exists>b s'. FileSystem_Remove fs g nm s = Inr (b, s') \<and> fs_inv fs s' \<and> (b \<longleftrightarrow> files fs s nm \<noteq> None)
    \<and> files fs s' = (\<lambda>nm'. if cstr 9 nm' = cstr 9 nm then None else files fs s nm')"
proof -
  let ?D = "fs_dir fs s" and ?M = "fs_map fs s"
  have ok: "SD_ok s" "sys_ok fs s" and u: "unique_names ?D" using assms(1) by (simp_all add: fs_inv_def)
  note D = fs_dir_ok[OF ok] and M = fs_map_ok[OF ok]
  obtain s1 where s1: "Directory_FetchFrom (of_hdr (directoryFile fs)) (Directory_new (fr_dir g)) s = Inr (?D, s1)"
      "SD_ok s1" "sectors s1 = sectors s" using fetch_directory[OF ok assms(2)] by blast
  from assms(1) show ?thesis
  proof (cases rule: Find_cases[where nm = nm])
    case none
    have "files fs s nm' = None" if "cstr 9 nm' = cstr 9 nm" for nm'
      using none(3) that by (intro files_None) (simp add: named_def)
    then have "files fs s1 = (\<lambda>nm'. if cstr 9 nm' = cstr 9 nm then None else files fs s nm')"
      using view_cong(8)[OF s1(3)] by auto
    then show ?thesis using s1 none fs_inv_cong[OF s1(3,2) assms(1)]
      by (intro exI[of _ False]) (simp add: FileSystem_Remove_def Let_def)
  next
    case (some i)
    let ?e = "?D ! i" and ?e' = "(?D ! i)\<lparr>inUse := False\<rparr>"
    have r: "0 \<le> de_sector ?e" "de_sector ?e < NumSectors" "hdr_ok (file_hdr s ?e)"
        "de_sector ?e \<notin> set (data_sectors (file_hdr s ?e))" using some(6) by (simp_all add: entry_inv_def)
    obtain s2 where s2: "FileHeader_FetchFrom (de_sector ?e) s1 = Inr (file_hdr s ?e, s2)" "SD_ok s2" "sectors s2 = sectors s"
      using FetchFrom_ok[OF s1(2) r(1,2)] s1(3) by (auto simp: file_hdr_def)
    obtain bm where bm: "BitMap_new (fr_map g) NumSectors = Inr bm" "BitMap_ok bm" "numBits bm = NumSectors"
      using new_map[OF assms(2)] by blast
    have ok2: "sys_ok fs s2" using ok(2) view_cong(6)[OF s2(3)] by simp
    obtain s3 where s3: "BitMap_FetchFrom (of_hdr (freeMapFile fs)) bm s2 = Inr (?M, s3)" "SD_ok s3" "sectors s3 = sectors s"
      using fetch_map[OF s2(2) ok2 bm(2,3)] s2(3) view_cong(2)[OF s2(3)] by auto
    have "own s ?e \<subseteq> BitMap_marked ?M" using fs_inv_marked(6)[OF assms(1) some(2)] by blast
    then obtain M1 where M1: "FileHeader_Deallocate (file_hdr s ?e) ?M = Inr M1" "BitMap_ok M1" "numBits M1 = NumSectors"
        "BitMap_marked M1 = BitMap_marked ?M - set (data_sectors (file_hdr s ?e))"
      using FileHeader_Deallocate_ok[OF r(3) M] by (auto simp: own_def)
    obtain M2 where M2: "BitMap_Clear M1 (de_sector ?e) = Inr M2" "BitMap_ok M2" "numBits M2 = NumSectors"
        "BitMap_marked M2 = BitMap_marked ?M - own s ?e"
      using BitMap_Clear_ok[OF M1(2) r(1)] r(2) M1(3,4) by (auto simp: own_def)
    have "entry_ok ?e'" using D some(3) by (auto simp: entry_ok_def)
    then have De: "\<forall>e \<in> set (?D[i := ?e']). entry_ok e" using D(2) set_update_subset_insert[of ?D i ?e'] by blast
    obtain s4 s5 where s5: "BitMap_WriteBack (fr_buf g 0) (of_hdr (freeMapFile fs)) M2 s3 = Inr s4"
        "Directory_WriteBack (fr_buf g 1) (of_hdr (directoryFile fs)) (?D[i := ?e']) s4 = Inr s5" "SD_ok s5"
        "fs_dir fs s5 = ?D[i := ?e']" "fs_map fs s5 = M2" "\<forall>j \<ge> 0. j \<notin> sys fs - {0, 1} \<longrightarrow> sectors s5 j = sectors s3 j"
      using write_map_dir[OF s3(2) ok(2) _ De M2(2,3)] D(1) by force
    have "FileSystem_Remove fs g nm s = Inr (True, s5)"
      using s1(1) some(4,5) s2(1) bm(1) s3(1) M1(1) M2(1) s5(1,2) Directory_Remove_named[OF u some(1)]
      by (simp add: FileSystem_Remove_def Let_def)
    moreover have "fs_inv fs s5 \<and> files fs s5 = (\<lambda>nm'. if cstr 9 nm' = cstr 9 nm then None else files fs s nm')"
      using remove_commit[OF assms(1) some(1) refl M2(4) s5(3-5)] s5(6) s3(3) by simp
    ultimately show ?thesis using some(7) by (intro exI[of _ True]) simp
  qed
qed

subsection \<open>Writing an open file\<close>

lemma write_isolated:
  assumes "fs_inv fs s" "named (fs_dir fs s) nm i" "0 \<le> pos" "n \<le> int (length from)"
    and "h = file_hdr s (fs_dir fs s ! i)"
  shows "\<exists>s'. OpenFile_WriteAt junk h from n pos s = Inr (max 0 (min n (numBytes h - pos)), s') \<and> fs_inv fs s'
    \<and> files fs s' = (\<lambda>nm'. if cstr 9 nm' = cstr 9 nm
        then Some (overwrite (contents h s) (nat pos) (take (nat (min n (numBytes h - pos))) from)) else files fs s nm')"
proof -
  let ?D = "fs_dir fs s"
  note mk = fs_inv_marked[OF assms(1)]
  have ok: "SD_ok s" "sys_ok fs s" and u: "unique_names ?D" using assms(1) by (simp_all add: fs_inv_def)
  note D = fs_dir_ok[OF ok]
  have i: "i \<in> used ?D" "i < 10" and e: "inUse (?D ! i)" using assms(2) D(1) by (auto simp: named_def used_def)
  have ei: "entry_inv fs s (?D ! i)" using assms(1) i(1) by (simp add: fs_inv_def)
  then have h: "hdr_ok h" "de_sector (?D ! i) \<notin> set (data_sectors h)" "set (data_sectors h) \<inter> sys fs = {}" "0 \<le> de_sector (?D ! i)"
    using assms(5) by (auto simp: entry_inv_def own_def)
  obtain s' where s': "OpenFile_WriteAt junk h from n pos s = Inr (max 0 (min n (numBytes h - pos)), s')" "SD_ok s'"
      "contents h s' = overwrite (contents h s) (nat pos) (take (nat (min n (numBytes h - pos))) from)"
      "\<forall>j \<ge> 0. j \<notin> set (data_sectors h) \<longrightarrow> sectors s' j = sectors s j"
    using OpenFile_WriteAt_ok[OF h(1) ok(1) assms(3,4)] by blast
  have pos: "\<forall>j \<in> set (data_sectors (of_hdr (directoryFile fs))) \<union> set (data_sectors (of_hdr (freeMapFile fs))). 0 \<le> j"
    using sys_okD(1,3)[OF ok(2)] by (auto simp: hdr_ok_def)
  then have "\<forall>j \<in> set (data_sectors (of_hdr (directoryFile fs))) \<union> set (data_sectors (of_hdr (freeMapFile fs))).
      sectors s' j = sectors s j" using s'(4) h(3) unfolding sys_def by blast
  then have "contents (of_hdr (directoryFile fs)) s' = contents (of_hdr (directoryFile fs)) s"
      "contents (of_hdr (freeMapFile fs)) s' = contents (of_hdr (freeMapFile fs)) s" by (auto intro: contents_cong)
  then have sysc: "fs_dir fs s' = ?D" "fs_map fs s' = fs_map fs s" by (simp_all add: fs_dir_def fs_map_def)
  have fh: "file_hdr s' (?D ! i) = h" using s'(4) h(2,4) assms(5) by (simp add: file_hdr_def)
  then have own: "own s' (?D ! i) = own s (?D ! i)" using assms(5) by (simp add: own_def)
  have "set (data_sectors h) \<subseteq> own s (?D ! i)" using assms(5) by (auto simp: own_def)
  then have "\<forall>j \<in> {0, 1} \<union> others fs s i. 0 \<le> j \<and> j \<notin> set (data_sectors h)"
    using h(3) mk(2)[of i] mk(3) mk(7)[OF i(1)] by (fastforce simp: sys_def)
  then have keep: "\<forall>j \<in> {0, 1} \<union> others fs s i. sectors s' j = sectors s j" using s'(4) by blast
  have D': "fs_dir fs s' = ?D[i := ?D ! i]" using sysc(1) by simp
  have ei': "entry_inv fs s' (?D ! i) \<and> own s' (?D ! i) \<inter> others fs s i = {}"
    using ei mk(7)[OF i(1)] fh own assms(5) by (simp add: entry_inv_def)
  have md: "BitMap_marked (fs_map fs s') = sys fs \<union> others fs s i \<union> (if inUse (?D ! i) then own s' (?D ! i) else {})"
    using e own sysc(2) mk(6)[OF i(1)] by simp
  have un: "unique_names (?D[i := ?D ! i])" using u by simp
  note inv' = fs_inv_update[OF assms(1) i(2) s'(2) D' keep un _ md]
  have i': "fs_inv fs s'" by (rule inv'(1)) (use ei' in blast)+
  have "files fs s' nm' = (if cstr 9 nm' = cstr 9 nm then Some (contents h s') else files fs s nm')" for nm'
    using files_update[OF assms(1) i' i(2) D' inv'(2)] ei' assms(2) fh by (auto simp: named_def)
  then show ?thesis using s'(1,3) i' by auto
qed

subsection \<open>Starting up\<close>

lemma used_new: "used (Directory_new t) = {}"
  by (auto simp: used_def Directory_new_def)

lemma fs_inv_fresh:
  assumes "SD_ok s" "sys_ok fs s" "used (fs_dir fs s) = {}" "BitMap_marked (fs_map fs s) = sys fs"
  shows "fs_inv fs s" "files fs s nm = None"
proof -
  have n: "\<forall>i. \<not> named (fs_dir fs s) nm i" for nm using assms(3) named_used by blast
  then have "unique_names (fs_dir fs s)" by (simp add: unique_names_iff)
  then show "fs_inv fs s" using assms by (simp add: fs_inv_def)
  show "files fs s nm = None" using files_None[OF n] .
qed

text \<open>The two headers are allocated from a map in which only their own sectors are taken.\<close>

lemma format_headers:
  assumes "fresh_ok g"
  obtains m0 m1 m2 mh dh m3 m4 where "BitMap_new (fr_map g) NumSectors = Inr m0" "BitMap_Mark m0 FreeMapSector = Inr m1"
    "BitMap_Mark m1 DirectorySector = Inr m2" "FileHeader_Allocate (fr_hdr g 0) m2 FreeMapFileSize = Inr (True, mh, m3)"
    "FileHeader_Allocate (fr_hdr g 1) m3 DirectoryFileSize = Inr (True, dh, m4)"
    "hdr_ok mh" "numBytes mh = FreeMapFileSize" "hdr_ints mh" "hdr_ok dh" "numBytes dh = DirectoryFileSize" "hdr_ints dh"
    "set (data_sectors mh) \<inter> {0, 1} = {}" "set (data_sectors dh) \<inter> ({0, 1} \<union> set (data_sectors mh)) = {}"
    "BitMap_ok m4" "numBits m4 = NumSectors"
    "BitMap_marked m4 = {0, 1} \<union> set (data_sectors mh) \<union> set (data_sectors dh)" "card (BitMap_marked m4) \<le> 5"
proof -
  obtain m0 where m0: "BitMap_new (fr_map g) NumSectors = Inr m0" "BitMap_ok m0" "numBits m0 = NumSectors" "BitMap_marked m0 = {}"
    using new_map[OF assms] by blast
  obtain m1 where m1: "BitMap_Mark m0 FreeMapSector = Inr m1" "BitMap_ok m1" "numBits m1 = NumSectors" "BitMap_marked m1 = {0}"
    using BitMap_Mark_ok[OF m0(2), of 0] m0(3,4) by (auto simp: FreeMapSector_def NumSectors_eq)
  obtain m2 where m2: "BitMap_Mark m1 DirectorySector = Inr m2" "BitMap_ok m2" "numBits m2 = NumSectors" "BitMap_marked m2 = {0, 1}"
    using BitMap_Mark_ok[OF m1(2), of 1] m1(3,4) by (auto simp: DirectorySector_def NumSectors_eq)
  have hl: "int (length (dataSectors (fr_hdr g k))) = NumDirect" "hdr_ints (fr_hdr g k)" for k
    using assms by (simp_all add: fresh_ok_def hdr_ints_def)
  have sz: "divRoundUp FreeMapFileSize SectorSize = 1" "divRoundUp DirectoryFileSize SectorSize = 2"
    by (simp_all add: FreeMapFileSize_eq SectorSize_def divRoundUp_nonneg)
  obtain mh m3 where m3: "FileHeader_Allocate (fr_hdr g 0) m2 FreeMapFileSize = Inr (True, mh, m3)" "hdr_ok mh"
      "numBytes mh = FreeMapFileSize" "set (data_sectors mh) \<inter> BitMap_marked m2 = {}" "BitMap_ok m3" "numBits m3 = NumSectors"
      "BitMap_marked m3 = BitMap_marked m2 \<union> set (data_sectors mh)"
    using FileHeader_Allocate_ok[OF m2(2,3) _ hl(1)[of 0], of FreeMapFileSize] m2(4) sz
    by (auto simp: FreeMapFileSize_eq NumSectors_eq NumDirect_eq)
  have "length (data_sectors mh) = 1" using m3(2,3) sz by (simp add: hdr_ok_def data_sectors_def NumDirect_eq)
  then have "card (BitMap_marked m3) \<le> 2 + 1"
    using m3(7) m2(4) card_Un_le[of "{0, 1}" "set (data_sectors mh)"] card_length[of "data_sectors mh"] by auto
  then obtain dh m4 where m4: "FileHeader_Allocate (fr_hdr g 1) m3 DirectoryFileSize = Inr (True, dh, m4)" "hdr_ok dh"
      "numBytes dh = DirectoryFileSize" "set (data_sectors dh) \<inter> BitMap_marked m3 = {}" "BitMap_ok m4" "numBits m4 = NumSectors"
      "BitMap_marked m4 = BitMap_marked m3 \<union> set (data_sectors dh)"
    using FileHeader_Allocate_ok[OF m3(5,6) _ hl(1)[of 1], of DirectoryFileSize] sz
    by (auto simp: FreeMapFileSize_eq NumSectors_eq NumDirect_eq)
  have "length (data_sectors dh) = 2" using m4(2,3) sz by (simp add: hdr_ok_def data_sectors_def NumDirect_eq)
  then have "card (BitMap_marked m4) \<le> 5"
    using m4(7) \<open>card (BitMap_marked m3) \<le> 2 + 1\<close> card_Un_le[of "BitMap_marked m3" "set (data_sectors dh)"]
      card_length[of "data_sectors dh"] by simp
  moreover have "hdr_ints mh" "hdr_ints dh"
    using Allocate_ints[OF m3(1,2) hl(2)] Allocate_ints[OF m4(1,2) hl(2)] by (simp_all add: FreeMapFileSize_eq)
  ultimately show thesis
    using that[OF m0(1) m1(1) m2(1) m3(1) m4(1) m3(2,3) _ m4(2,3) _ _ _ m4(5,6)] m3(4,7) m4(4,7) m2(4) by auto
qed

lemma FileSystem_new_format:
  assumes "SD_ok s" "fresh_ok g"
  shows "\<exists>fs s'. FileSystem_new g True s = Inr (fs, s') \<and> fs_inv fs s' \<and> (\<forall>nm. files fs s' nm = None)
    \<and> used (fs_dir fs s') = {} \<and> card (BitMap_marked (fs_map fs s')) \<le> 5"
  using assms(2)
proof (cases rule: format_headers)
  case (1 m0 m1 m2 mh dh m3 m4)
  obtain s1 where s1: "FileHeader_WriteBack mh FreeMapSector s = Inr s1" "SD_ok s1"
      "\<forall>j \<ge> 0. sectors s1 j = (if j = 0 then hdr_bytes mh else sectors s j)"
    using WriteBack_ok[OF assms(1) _ _ 1(8), of 0] by (auto simp: FreeMapSector_def NumSectors_eq)
  obtain s2 where s2: "FileHeader_WriteBack dh DirectorySector s1 = Inr s2" "SD_ok s2"
      "\<forall>j \<ge> 0. sectors s2 j = (if j = 1 then hdr_bytes dh else sectors s1 j)"
    using WriteBack_ok[OF s1(2) _ _ 1(11), of 1] by (auto simp: DirectorySector_def NumSectors_eq)
  have h: "bytes_hdr (sectors s2 0) = mh" "bytes_hdr (sectors s2 1) = dh"
    using s1(3) s2(3) bytes_hdr_bytes[OF 1(8)] bytes_hdr_bytes[OF 1(11)] by auto
  let ?fs = "\<lparr>freeMapFile = \<lparr>of_hdr = mh, seekPosition = 0\<rparr>, directoryFile = \<lparr>of_hdr = dh, seekPosition = 0\<rparr>\<rparr>"
  obtain s3 where s3: "OpenFile_new FreeMapSector s2 = Inr (freeMapFile ?fs, s3)" "SD_ok s3" "sectors s3 = sectors s2"
    using OpenFile_new_ok[OF s2(2), of 0] h by (auto simp: FreeMapSector_def NumSectors_eq)
  obtain s4 where s4: "OpenFile_new DirectorySector s3 = Inr (directoryFile ?fs, s4)" "SD_ok s4" "sectors s4 = sectors s2"
    using OpenFile_new_ok[OF s3(2), of 1] s3(3) h by (auto simp: DirectorySector_def NumSectors_eq)
  have sys: "sys ?fs = BitMap_marked m4" using 1(16) by (auto simp: sys_def)
  have "sys_ok ?fs s4" using 1(6,7,9,10,12,13) h s4(3)
    by (auto simp: sys_ok_def Let_def FreeMapSector_def DirectorySector_def)
  note w = write_map_dir[OF s4(2) this Directory_new_ok[OF assms(2)] 1(14,15)]
  from w[of "fr_buf g 0" "fr_buf g 1"] obtain s5 s6 where
    s6: "BitMap_WriteBack (fr_buf g 0) mh m4 s4 = Inr s5" "Directory_WriteBack (fr_buf g 1) dh (Directory_new (fr_dir g)) s5 = Inr s6"
      "SD_ok s6" "fs_dir ?fs s6 = Directory_new (fr_dir g)" "fs_map ?fs s6 = m4"
      "\<forall>j \<ge> 0. j \<notin> sys ?fs - {0, 1} \<longrightarrow> sectors s6 j = sectors s4 j" by auto
  have "sectors s6 0 = sectors s4 0" "sectors s6 1 = sectors s4 1" using s6(6) by auto
  then have "sys_ok ?fs s6" using \<open>sys_ok ?fs s4\<close> by (simp add: sys_ok_def FreeMapSector_def DirectorySector_def)
  from fs_inv_fresh[OF s6(3) this] have "fs_inv ?fs s6" "files ?fs s6 nm = None" for nm
    using s6(4,5) sys used_new by auto
  moreover have "FileSystem_new g True s = Inr (?fs, s6)"
    using 1(1-5) s1(1) s2(1) s3(1) s4(1) s6(1,2) by (simp add: FileSystem_new_def Let_def assertR_def)
  moreover have "used (fs_dir ?fs s6) = {}" "card (BitMap_marked (fs_map ?fs s6)) \<le> 5"
    using s6(4,5) used_new 1(17) by simp_all
  ultimately show ?thesis by blast
qed

lemma fs_cong:
  assumes "of_hdr (freeMapFile fs') = of_hdr (freeMapFile fs)" "of_hdr (directoryFile fs') = of_hdr (directoryFile fs)"
  shows "fs_inv fs' s = fs_inv fs s" "files fs' s = files fs s"
  using assms by (simp_all add: fs_inv_def sys_ok_def entry_inv_def sys_def fs_dir_def fs_map_def files_def Let_def fun_eq_iff)

lemma FileSystem_new_reboot:
  assumes "fs_inv fs s" "SD_ok s0" "sectors s0 = sectors s"
  shows "\<exists>fs' s'. FileSystem_new g False s0 = Inr (fs', s') \<and> fs_inv fs' s' \<and> files fs' s' = files fs s"
proof -
  have "sys_ok fs s" using assms(1) by (simp add: fs_inv_def)
  note h = sys_okD(6,7)[OF this]
  let ?fs = "\<lparr>freeMapFile = \<lparr>of_hdr = of_hdr (freeMapFile fs), seekPosition = 0\<rparr>,
    directoryFile = \<lparr>of_hdr = of_hdr (directoryFile fs), seekPosition = 0\<rparr>\<rparr>"
  obtain s1 where s1: "OpenFile_new FreeMapSector s0 = Inr (freeMapFile ?fs, s1)" "SD_ok s1" "sectors s1 = sectors s"
    using OpenFile_new_ok[OF assms(2), of 0] h assms(3) by (auto simp: FreeMapSector_def NumSectors_eq)
  obtain s2 where s2: "OpenFile_new DirectorySector s1 = Inr (directoryFile ?fs, s2)" "SD_ok s2" "sectors s2 = sectors s"
    using OpenFile_new_ok[OF s1(2), of 1] h s1(3) by (auto simp: DirectorySector_def NumSectors_eq)
  have "fs_inv ?fs s2" "files ?fs s2 = files fs s"
    using fs_cong[of ?fs fs] fs_inv_cong[OF s2(3,2) assms(1)] view_cong(8)[OF s2(3)] by simp_all
  moreover have "FileSystem_new g False s0 = Inr (?fs, s2)" using s1(1) s2(1) by (simp add: FileSystem_new_def)
  ultimately show ?thesis by blast
qed

subsection \<open>Sessions\<close>

text \<open>
  Sequences of operations as the shell commands of \<open>main.cc\<close> and user programs issue them, and
  what they do to a map from names to contents. \<open>OpWrite\<close> opens the file and writes into it.
\<close>

datatype fs_op = OpCreate "byte list" int | OpRemove "byte list" | OpWrite "byte list" "byte list" int

definition upd_file :: "(byte list \<Rightarrow> 'a) \<Rightarrow> byte list \<Rightarrow> 'a \<Rightarrow> byte list \<Rightarrow> 'a" where
  "upd_file V nm x = (\<lambda>nm'. if cstr 9 nm' = cstr 9 nm then x else V nm')"

fun fs_exec :: "FileSystem \<Rightarrow> Fresh \<Rightarrow> fs_op \<Rightarrow> DiskHw \<Rightarrow> (bool \<times> DiskHw) res" where
  "fs_exec fs g (OpCreate nm n) s = FileSystem_Create fs g nm n s"
| "fs_exec fs g (OpRemove nm) s = FileSystem_Remove fs g nm s"
| "fs_exec fs g (OpWrite nm from pos) s =
     bindR (FileSystem_Open fs g nm s) (\<lambda>(f, s). case f of None \<Rightarrow> Inr (False, s)
       | Some file \<Rightarrow> mapR (\<lambda>(_, s). (True, s)) (OpenFile_WriteAt (fr_buf g 0) (of_hdr file) from (int (length from)) pos s))"

fun op_ok :: "fs_op \<Rightarrow> bool" where
  "op_ok (OpCreate nm n) \<longleftrightarrow> 0 \<le> n \<and> divRoundUp n SectorSize \<le> NumDirect"
| "op_ok (OpRemove nm) \<longleftrightarrow> True"
| "op_ok (OpWrite nm from pos) \<longleftrightarrow> 0 \<le> pos"

fun op_spec :: "fs_op \<Rightarrow> bool \<Rightarrow> (byte list \<Rightarrow> byte list option) \<Rightarrow> (byte list \<Rightarrow> byte list option) \<Rightarrow> bool" where
  "op_spec (OpCreate nm n) b V V' \<longleftrightarrow>
     (if b then V nm = None \<and> (\<exists>c. length c = nat n \<and> V' = upd_file V nm (Some c)) else V' = V)"
| "op_spec (OpRemove nm) b V V' \<longleftrightarrow> b = (V nm \<noteq> None) \<and> V' = upd_file V nm None"
| "op_spec (OpWrite nm from pos) b V V' \<longleftrightarrow> (case V nm of None \<Rightarrow> \<not> b \<and> V' = V
     | Some c \<Rightarrow> b \<and> V' = upd_file V nm
         (Some (overwrite c (nat pos) (take (nat (min (int (length from)) (int (length c) - pos))) from))))"

fun run_ops :: "('op \<Rightarrow> 's \<Rightarrow> (bool \<times> 's) res) \<Rightarrow> 'op list \<Rightarrow> 's \<Rightarrow> (bool list \<times> 's) res" where
  "run_ops ex [] s = Inr ([], s)"
| "run_ops ex (x # xs) s = bindR (ex x s) (\<lambda>(b, s). mapR (\<lambda>(bs, s). (b # bs, s)) (run_ops ex xs s))"

fun run_spec :: "('op \<Rightarrow> bool \<Rightarrow> 'v \<Rightarrow> 'v \<Rightarrow> bool) \<Rightarrow> 'op list \<Rightarrow> bool list \<Rightarrow> 'v \<Rightarrow> 'v \<Rightarrow> bool" where
  "run_spec sp [] bs v v' \<longleftrightarrow> bs = [] \<and> v' = v"
| "run_spec sp (x # xs) bs v v' \<longleftrightarrow> (\<exists>b bs' u. bs = b # bs' \<and> sp x b v u \<and> run_spec sp xs bs' u v')"

text \<open>What a store promises of one operation, it promises of a session.\<close>

locale file_store =
  fixes ex :: "'op \<Rightarrow> 's \<Rightarrow> (bool \<times> 's) res"
    and inv :: "'s \<Rightarrow> bool"
    and view :: "'s \<Rightarrow> 'v"
    and ok :: "'op \<Rightarrow> bool"
    and sp :: "'op \<Rightarrow> bool \<Rightarrow> 'v \<Rightarrow> 'v \<Rightarrow> bool"
  assumes step: "inv s \<Longrightarrow> ok x \<Longrightarrow> \<exists>b s'. ex x s = Inr (b, s') \<and> inv s' \<and> sp x b (view s) (view s')"
begin

lemma run:
  assumes "inv s" "list_all ok xs"
  shows "\<exists>bs s'. run_ops ex xs s = Inr (bs, s') \<and> inv s' \<and> run_spec sp xs bs (view s) (view s')"
  using assms
proof (induction xs arbitrary: s)
  case (Cons x xs)
  then obtain b s1 where s1: "ex x s = Inr (b, s1)" "inv s1" "sp x b (view s) (view s1)" using step[of s x] by auto
  with Cons obtain bs s2 where "run_ops ex xs s1 = Inr (bs, s2)" "inv s2" "run_spec sp xs bs (view s1) (view s2)" by force
  with s1 show ?case by auto
qed auto

end

lemma files_name_cong:
  assumes "fs_inv fs s" "cstr 9 nm' = cstr 9 nm"
  shows "files fs s nm' = files fs s nm"
proof -
  have u: "unique_names (fs_dir fs s)" and n: "named (fs_dir fs s) nm' i \<longleftrightarrow> named (fs_dir fs s) nm i" for i
    using assms by (simp_all add: fs_inv_def named_def)
  show ?thesis
  proof (cases "\<exists>i. named (fs_dir fs s) nm i")
    case True
    then show ?thesis using files_Some[OF u] n by metis
  next
    case False
    then show ?thesis using files_None[of fs s nm] files_None[of fs s nm'] n by simp
  qed
qed

lemma exec_write_ok:
  assumes "fs_inv fs s" "fresh_ok g" "0 \<le> pos"
  shows "\<exists>b s'. fs_exec fs g (OpWrite nm from pos) s = Inr (b, s') \<and> fs_inv fs s'
    \<and> op_spec (OpWrite nm from pos) b (files fs s) (files fs s')"
proof -
  obtain f s1 where o: "FileSystem_Open fs g nm s = Inr (f, s1)" "fs_inv fs s1" "sectors s1 = sectors s"
      "case files fs s nm of None \<Rightarrow> f = None | Some c \<Rightarrow> \<exists>i. named (fs_dir fs s) nm i \<and>
         f = Some \<lparr>of_hdr = file_hdr s (fs_dir fs s ! i), seekPosition = 0\<rparr> \<and> c = contents (file_hdr s (fs_dir fs s ! i)) s"
    using FileSystem_Open_hdr[OF assms(1,2)] by blast
  note v = view_cong[OF o(3)]
  show ?thesis
  proof (cases "files fs s nm")
    case None
    then show ?thesis using o v(8) by auto
  next
    case (Some c)
    then obtain i where i: "named (fs_dir fs s) nm i" "f = Some \<lparr>of_hdr = file_hdr s (fs_dir fs s ! i), seekPosition = 0\<rparr>"
        "c = contents (file_hdr s (fs_dir fs s ! i)) s" using o(4) by auto
    let ?h = "file_hdr s (fs_dir fs s ! i)"
    have "entry_inv fs s (fs_dir fs s ! i)" using assms(1) named_used[OF i(1)] by (simp add: fs_inv_def)
    then have "int (length c) = numBytes ?h" using length_contents[of ?h s] assms(1) i(3)
      by (auto simp: entry_inv_def fs_inv_def hdr_ok_def)
    moreover from write_isolated[OF o(2), of nm i pos "int (length from)" "from" ?h "fr_buf g 0", unfolded v] obtain s2 where
      "OpenFile_WriteAt (fr_buf g 0) ?h from (int (length from)) pos s1 = Inr (max 0 (min (int (length from)) (numBytes ?h - pos)), s2)"
      "fs_inv fs s2" "files fs s2 = (\<lambda>nm'. if cstr 9 nm' = cstr 9 nm
        then Some (overwrite c (nat pos) (take (nat (min (int (length from)) (numBytes ?h - pos))) from)) else files fs s nm')"
      using i(1,3) assms(3) by auto
    ultimately show ?thesis using o(1) i(2) Some by (intro exI[of _ True]) (simp add: upd_file_def)
  qed
qed

lemma Create_succeeds:
  assumes "fs_inv fs s" "fresh_ok g" "0 \<le> n" "divRoundUp n SectorSize \<le> NumDirect" "files fs s nm = None"
    "\<exists>i < 10. \<not> inUse (fs_dir fs s ! i)" "divRoundUp n SectorSize < NumSectors - int (card (BitMap_marked (fs_map fs s)))"
  obtains s' c where "FileSystem_Create fs g nm n s = Inr (True, s')" "fs_inv fs s'" "length c = nat n"
    "files fs s' = upd_file (files fs s) nm (Some c)"
proof -
  obtain b s' where c: "FileSystem_Create fs g nm n s = Inr (b, s')" "fs_inv fs s'"
    "if b then files fs s nm = None \<and> (\<exists>c. length c = nat n
          \<and> files fs s' = (\<lambda>nm'. if cstr 9 nm' = cstr 9 nm then Some c else files fs s nm')) else sectors s' = sectors s"
    "b \<longleftrightarrow> files fs s nm = None \<and> (\<exists>i < 10. \<not> inUse (fs_dir fs s ! i))
        \<and> divRoundUp n SectorSize < NumSectors - int (card (BitMap_marked (fs_map fs s)))"
    using FileSystem_Create_ok[OF assms(1-4), of nm] by blast
  have b unfolding c(4) using assms(5-7) by blast
  with c(3) obtain c where "length c = nat n" "files fs s' = upd_file (files fs s) nm (Some c)" unfolding upd_file_def by auto
  with c(1,2) \<open>b\<close> that show thesis by simp
qed

lemma fs_exec_ok:
  assumes "fs_inv fs s" "op_ok x" "fresh_ok g"
  shows "\<exists>b s'. fs_exec fs g x s = Inr (b, s') \<and> fs_inv fs s' \<and> op_spec x b (files fs s) (files fs s')"
proof (cases x)
  case (OpCreate nm n)
  from FileSystem_Create_ok[OF assms(1,3), of n nm] assms(2) OpCreate obtain b s' where
    "FileSystem_Create fs g nm n s = Inr (b, s')" "fs_inv fs s'" "if b then files fs s nm = None \<and> (\<exists>c. length c = nat n
          \<and> files fs s' = (\<lambda>nm'. if cstr 9 nm' = cstr 9 nm then Some c else files fs s nm')) else sectors s' = sectors s"
    by auto
  then show ?thesis using OpCreate view_cong(8)[of s' s] by (cases b) (auto simp: upd_file_def)
next
  case (OpRemove nm)
  then show ?thesis using FileSystem_Remove_ok[OF assms(1,3), of nm] by (auto simp: upd_file_def)
next
  case (OpWrite nm "from" pos)
  then show ?thesis using exec_write_ok[OF assms(1,3), of pos nm "from"] assms(2) by simp
qed

interpretation fstore: file_store "fs_exec fs g" "\<lambda>s. fs_inv fs s \<and> fresh_ok g" "files fs" op_ok op_spec
  for fs :: FileSystem and g :: Fresh
  using fs_exec_ok by unfold_locales blast

subsection \<open>Properties\<close>

definition demo_fresh :: Fresh where
  "demo_fresh = \<lparr>fr_map = replicate 32 7, fr_dir = replicate 10 \<lparr>inUse = True, de_sector = 5, de_name = replicate 10 65, de_pad = replicate 5 0\<rparr>,
     fr_hdr = (\<lambda>_. demo_hdr), fr_buf = (\<lambda>_ _. 3)\<rparr>"

lemma demo_fresh_ok: "fresh_ok demo_fresh"
  using demo_hdr_ok(2) by (simp add: fresh_ok_def demo_fresh_def entry_ok_def is_int_def)

text \<open>A formatted disk, as the starting point of the concrete cases.\<close>

lemma demo_fs:
  obtains fs s where "FileSystem_new demo_fresh True demo_synchdisk = Inr (fs, s)" "fs_inv fs s" "files fs s = (\<lambda>_. None)"
    "used (fs_dir fs s) = {}" "card (BitMap_marked (fs_map fs s)) \<le> 5" "\<exists>i < 10. \<not> inUse (fs_dir fs s ! i)"
proof -
  obtain fs s where f: "FileSystem_new demo_fresh True demo_synchdisk = Inr (fs, s)" "fs_inv fs s" "\<forall>nm. files fs s nm = None"
      "used (fs_dir fs s) = {}" "card (BitMap_marked (fs_map fs s)) \<le> 5"
    using FileSystem_new_format[OF demo_synchdisk_ok demo_fresh_ok] by blast
  have "length (fs_dir fs s) = 10" using f(2) fs_dir_ok[of s fs] by (simp add: fs_inv_def)
  then have "\<not> inUse (fs_dir fs s ! 0)" using f(4) by (auto simp: used_def)
  with that[OF f(1,2) _ f(4,5)] f(3) show thesis by fastforce
qed

text \<open>C10: The file system refines a map from names to contents. On a consistent disk every session of
  create, remove and open-and-write operations (files of at most 30 sectors, positions not
  negative) runs without failing an assertion and leaves the disk consistent: no sector has
  two owners and the map of free sectors is exact. The answers and the contents of the files
  are those of a map: create binds an unbound name to a content of the given length or
  changes nothing, remove unbinds exactly the name, write changes the bytes of that file only.\<close>

theorem FileSystem_refines_map:
  assumes "fs_inv fs s" "fresh_ok g" "list_all op_ok xs"
  shows "\<exists>bs s'. run_ops (fs_exec fs g) xs s = Inr (bs, s') \<and> fs_inv fs s'
    \<and> run_spec op_spec xs bs (files fs s) (files fs s')"
  using fstore.run[of fs s g xs] assms by blast

theorem FileSystem_refines_map_witness:
  "\<exists>fs s bs s'. FileSystem_new demo_fresh True demo_synchdisk = Inr (fs, s)
     \<and> run_ops (fs_exec fs demo_fresh) [OpCreate [97] 200, OpWrite [97] [1, 2] 0, OpRemove [98]] s = Inr (bs, s')
     \<and> fs_inv fs s' \<and> bs ! 2 = False"
proof (rule demo_fs)
  fix fs s assume f: "FileSystem_new demo_fresh True demo_synchdisk = Inr (fs, s)" "fs_inv fs s" "files fs s = (\<lambda>_. None)"
  have "list_all op_ok [OpCreate [97] 200, OpWrite [97] [1, 2] 0, OpRemove [98]]"
    by (simp add: divRoundUp_nonneg disk_consts NumDirect_eq)
  from FileSystem_refines_map[OF f(2) demo_fresh_ok this] f(1) show ?thesis
    by (fastforce simp: f(3) upd_file_def cstr_def split: if_splits option.splits)
qed

text \<open>C11: Creating a file. On a consistent disk \<open>Create\<close> of at most 30 sectors succeeds exactly when the
  name is new, the directory has a free entry and the free sectors suffice for the data and
  the header; then exactly this name is bound to a content of the given length. Otherwise it
  answers false and no sector of the disk has changed. In both cases the disk is consistent.\<close>

theorem Create_adds_file:
  assumes "fs_inv fs s" "fresh_ok g" "0 \<le> n" "divRoundUp n SectorSize \<le> NumDirect"
  shows "\<exists>b s'. FileSystem_Create fs g nm n s = Inr (b, s') \<and> fs_inv fs s'
    \<and> (if b then \<exists>c. length c = nat n \<and> files fs s' = upd_file (files fs s) nm (Some c) else sectors s' = sectors s)
    \<and> (b \<longleftrightarrow> files fs s nm = None \<and> (\<exists>i < 10. \<not> inUse (fs_dir fs s ! i))
        \<and> divRoundUp n SectorSize < NumSectors - int (card (BitMap_marked (fs_map fs s))))"
proof -
  from FileSystem_Create_ok[OF assms, of nm] obtain b s' where "FileSystem_Create fs g nm n s = Inr (b, s')" "fs_inv fs s'"
    "if b then files fs s nm = None \<and> (\<exists>c. length c = nat n
          \<and> files fs s' = (\<lambda>nm'. if cstr 9 nm' = cstr 9 nm then Some c else files fs s nm')) else sectors s' = sectors s"
    "b \<longleftrightarrow> files fs s nm = None \<and> (\<exists>i < 10. \<not> inUse (fs_dir fs s ! i))
        \<and> divRoundUp n SectorSize < NumSectors - int (card (BitMap_marked (fs_map fs s)))" by blast
  then show ?thesis by (intro exI[of _ b] exI[of _ s'] conjI) (auto simp: upd_file_def)
qed

theorem Create_adds_file_witness:
  "\<exists>fs s s'. FileSystem_new demo_fresh True demo_synchdisk = Inr (fs, s)
     \<and> FileSystem_Create fs demo_fresh [97] 200 s = Inr (True, s') \<and> files fs s' [97] \<noteq> None"
proof (rule demo_fs)
  fix fs s assume f: "FileSystem_new demo_fresh True demo_synchdisk = Inr (fs, s)" "fs_inv fs s" "files fs s = (\<lambda>_. None)"
    "card (BitMap_marked (fs_map fs s)) \<le> 5" "\<exists>i < 10. \<not> inUse (fs_dir fs s ! i)"
  have d: "divRoundUp 200 SectorSize = 2" by (simp add: divRoundUp_nonneg disk_consts)
  then have "divRoundUp 200 SectorSize \<le> NumDirect" by (simp add: NumDirect_eq)
  from Create_adds_file[OF f(2) demo_fresh_ok _ this, of "[97]"] obtain b s' where
    c: "FileSystem_Create fs demo_fresh [97] 200 s = Inr (b, s')"
      "if b then \<exists>c. length c = nat 200 \<and> files fs s' = upd_file (files fs s) [97] (Some c) else sectors s' = sectors s"
      "b \<longleftrightarrow> files fs s [97] = None \<and> (\<exists>i < 10. \<not> inUse (fs_dir fs s ! i))
        \<and> divRoundUp 200 SectorSize < NumSectors - int (card (BitMap_marked (fs_map fs s)))"
    by force
  have b unfolding c(3) using f(3-5) d by (simp add: NumSectors_eq)
  then show ?thesis using f(1) c(1,2) by (auto simp: upd_file_def)
qed

text \<open>C12: Open and write. On a consistent disk, opening a name gives a file exactly when the name is
  bound, positioned at 0; writing through it changes the content of this file as an overwrite
  cut at its end, and no other file, and keeps the disk consistent.\<close>

theorem Open_then_write:
  assumes "fs_inv fs s" "fresh_ok g" "0 \<le> pos" "n \<le> int (length from)"
  shows "\<exists>f s1. FileSystem_Open fs g nm s = Inr (f, s1) \<and> fs_inv fs s1 \<and> files fs s1 = files fs s
    \<and> (f = None \<longleftrightarrow> files fs s nm = None)
    \<and> (\<forall>file. f = Some file \<longrightarrow> seekPosition file = 0 \<and> files fs s nm = Some (contents (of_hdr file) s1)
        \<and> (\<exists>s2. OpenFile_WriteAt junk (of_hdr file) from n pos s1 = Inr (max 0 (min n (numBytes (of_hdr file) - pos)), s2)
            \<and> fs_inv fs s2 \<and> files fs s2 = upd_file (files fs s) nm (Some (overwrite (contents (of_hdr file) s1) (nat pos)
                (take (nat (min n (numBytes (of_hdr file) - pos))) from)))))"
proof -
  obtain f s1 where o: "FileSystem_Open fs g nm s = Inr (f, s1)" "fs_inv fs s1" "sectors s1 = sectors s"
      "case files fs s nm of None \<Rightarrow> f = None | Some c \<Rightarrow> \<exists>i. named (fs_dir fs s) nm i \<and>
         f = Some \<lparr>of_hdr = file_hdr s (fs_dir fs s ! i), seekPosition = 0\<rparr> \<and> c = contents (file_hdr s (fs_dir fs s ! i)) s"
    using FileSystem_Open_hdr[OF assms(1,2)] by blast
  note v = view_cong[OF o(3)]
  show ?thesis
  proof (cases "files fs s nm")
    case None
    then show ?thesis using o v(8) by auto
  next
    case (Some c)
    then obtain i where i: "named (fs_dir fs s) nm i" "f = Some \<lparr>of_hdr = file_hdr s (fs_dir fs s ! i), seekPosition = 0\<rparr>"
        "c = contents (file_hdr s (fs_dir fs s ! i)) s" using o(4) by auto
    have "files fs s nm = Some (contents (file_hdr s (fs_dir fs s ! i)) s)" using Some i(3) by simp
    then show ?thesis
      using write_isolated[OF o(2) _ assms(3,4) refl, of nm i junk, unfolded v, OF i(1), folded upd_file_def] o(1,2) i(2)
      by (intro exI[of _ f] exI[of _ s1]) (simp add: v)
  qed
qed

theorem Open_then_write_witness:
  "\<exists>fs s. FileSystem_new demo_fresh True demo_synchdisk = Inr (fs, s)
     \<and> (\<exists>s1. FileSystem_Open fs demo_fresh [97] s = Inr (None, s1))
     \<and> (\<exists>s1 fl s2. FileSystem_Create fs demo_fresh [97] 200 s = Inr (True, s1)
          \<and> FileSystem_Open fs demo_fresh [97] s1 = Inr (Some fl, s2))"
proof (rule demo_fs)
  fix fs s assume f: "FileSystem_new demo_fresh True demo_synchdisk = Inr (fs, s)" "fs_inv fs s" "files fs s = (\<lambda>_. None)"
    "card (BitMap_marked (fs_map fs s)) \<le> 5" "\<exists>i < 10. \<not> inUse (fs_dir fs s ! i)"
  have d: "divRoundUp 200 SectorSize = 2" by (simp add: divRoundUp_nonneg disk_consts)
  obtain s1 where c: "FileSystem_Create fs demo_fresh [97] 200 s = Inr (True, s1)" "fs_inv fs s1" "files fs s1 [97] \<noteq> None"
    by (rule Create_succeeds[OF f(2) demo_fresh_ok, of 200 "[97]"]) (use d f(3-5) in \<open>auto simp: NumDirect_eq NumSectors_eq upd_file_def\<close>)
  from Open_then_write[OF c(2) demo_fresh_ok, of 0 0 "[]" "[97]" "\<lambda>_. 0"] c(3) obtain fl s2 where
    "FileSystem_Open fs demo_fresh [97] s1 = Inr (Some fl, s2)" by auto
  moreover from Open_then_write[OF f(2) demo_fresh_ok, of 0 0 "[]" "[97]" "\<lambda>_. 0"] f(3) obtain s3 where
    "FileSystem_Open fs demo_fresh [97] s = Inr (None, s3)" by auto
  ultimately show ?thesis using f(1) c(1) by blast
qed

text \<open>C13: Removing a file. On a consistent disk \<open>Remove\<close> answers whether the name was bound; afterwards
  exactly this name is unbound, every other file has its content, and the disk is consistent,
  so the sectors of the file and of its header are free again. A file just created can be
  removed, which gives the map of the files before its creation.\<close>

theorem Remove_deletes_file:
  assumes "fs_inv fs s" "fresh_ok g"
  shows "\<exists>b s'. FileSystem_Remove fs g nm s = Inr (b, s') \<and> fs_inv fs s' \<and> (b \<longleftrightarrow> files fs s nm \<noteq> None)
    \<and> files fs s' = upd_file (files fs s) nm None
    \<and> (\<forall>s0 n. fs_inv fs s0 \<and> 0 \<le> n \<and> divRoundUp n SectorSize \<le> NumDirect \<and> FileSystem_Create fs g nm n s0 = Inr (True, s)
        \<longrightarrow> files fs s' = files fs s0)"
proof -
  obtain b s' where r: "FileSystem_Remove fs g nm s = Inr (b, s')" "fs_inv fs s'" "b \<longleftrightarrow> files fs s nm \<noteq> None"
      "files fs s' = upd_file (files fs s) nm None"
    using FileSystem_Remove_ok[OF assms, of nm] unfolding upd_file_def by blast
  have "files fs s' = files fs s0"
    if c: "fs_inv fs s0" "0 \<le> n" "divRoundUp n SectorSize \<le> NumDirect" "FileSystem_Create fs g nm n s0 = Inr (True, s)" for s0 n
  proof -
    obtain b s1 where "FileSystem_Create fs g nm n s0 = Inr (b, s1)" "if b then files fs s0 nm = None \<and> (\<exists>c. length c = nat n
          \<and> files fs s1 = (\<lambda>nm'. if cstr 9 nm' = cstr 9 nm then Some c else files fs s0 nm')) else sectors s1 = sectors s0"
      using FileSystem_Create_ok[OF c(1) assms(2) c(2,3), of nm] by blast
    then have o: "files fs s0 nm = None" "\<exists>c. files fs s = (\<lambda>nm'. if cstr 9 nm' = cstr 9 nm then Some c else files fs s0 nm')"
      using c(4) by auto
    have "files fs s0 nm' = None" if "cstr 9 nm' = cstr 9 nm" for nm'
      using o(1) that files_name_cong[OF c(1)] by metis
    then show ?thesis using r(4) o(2) by (auto simp: upd_file_def fun_eq_iff)
  qed
  then show ?thesis using r by blast
qed

theorem Remove_deletes_file_witness:
  "\<exists>fs s s'. FileSystem_new demo_fresh True demo_synchdisk = Inr (fs, s)
     \<and> FileSystem_Remove fs demo_fresh [97] s = Inr (False, s') \<and> fs_inv fs s'"
proof (rule demo_fs)
  fix fs s assume f: "FileSystem_new demo_fresh True demo_synchdisk = Inr (fs, s)" "fs_inv fs s" "files fs s = (\<lambda>_. None)"
  then show ?thesis using Remove_deletes_file[OF f(2) demo_fresh_ok, of "[97]"] by fastforce
qed

text \<open>C14: Starting up. Formatting any disk of the right size gives a consistent file system without
  files; starting without formatting, on a disk with the sectors of a consistent file system,
  gives back a consistent file system with the same files.\<close>

theorem FileSystem_startup:
  assumes "SD_ok s" "fresh_ok g"
  shows "(\<exists>fs s'. FileSystem_new g True s = Inr (fs, s') \<and> fs_inv fs s' \<and> files fs s' = (\<lambda>_. None))
    \<and> (\<forall>fs s0. fs_inv fs s0 \<and> sectors s = sectors s0 \<longrightarrow>
        (\<exists>fs' s'. FileSystem_new g False s = Inr (fs', s') \<and> fs_inv fs' s' \<and> files fs' s' = files fs s0))"
  using FileSystem_new_format[OF assms] FileSystem_new_reboot[OF _ assms(1)] by blast

theorem FileSystem_startup_witness:
  "\<exists>fs s fs' s'. FileSystem_new demo_fresh True demo_synchdisk = Inr (fs, s)
     \<and> FileSystem_new demo_fresh False s = Inr (fs', s') \<and> files fs' s' = (\<lambda>_. None)"
proof -
  obtain fs s where f: "FileSystem_new demo_fresh True demo_synchdisk = Inr (fs, s)" "fs_inv fs s" "files fs s = (\<lambda>_. None)"
    using FileSystem_startup[OF demo_synchdisk_ok demo_fresh_ok] by blast
  moreover have "SD_ok s" using f(2) by (simp add: fs_inv_def)
  ultimately show ?thesis using FileSystem_startup[OF \<open>SD_ok s\<close> demo_fresh_ok] by metis
qed

end
