(* ===== verification/Nachos_FsTest.thy ===== *)
theory Nachos_FsTest
  imports Nachos_FileSys
begin

text \<open>
  \<open>filesys/fstest.cc\<close>: the programs behind the options \<open>-cp\<close>, \<open>-p\<close> and \<open>-t\<close>, which copy a file of the host
  into the Nachos file system, print a Nachos file, and measure the file system. A file of the host
  is the list of its bytes, what is printed is the result. \<open>g k\<close> is the uninitialised memory of the
  \<open>k\<close>-th call into the file system.
\<close>

subsection \<open>Copying and printing\<close>

definition TransferSize :: nat where "TransferSize = 10"

text \<open>The loop of \<open>fread\<close> and \<open>Write\<close>; \<open>rest\<close> is what \<open>fread\<close> has not delivered yet.\<close>

function Copy_loop :: "(nat \<Rightarrow> Fresh) \<Rightarrow> nat \<Rightarrow> OpenFile \<Rightarrow> byte list \<Rightarrow> DiskHw \<Rightarrow> (OpenFile \<times> DiskHw) res" where
  "Copy_loop g k f rest s =
     (let buffer = take TransferSize rest; amountRead = int (length buffer) in
      if amountRead > 0
      then bindR (OpenFile_Write (fr_buf (g k) 0) f buffer amountRead s) (\<lambda>(n, f, s). Copy_loop g (k + 1) f (drop TransferSize rest) s)
      else Inr (f, s))"
  by pat_completeness auto
termination
  by (relation "measure (\<lambda>(g, k, f, rest, s). length rest)") (auto simp: TransferSize_def)

declare Copy_loop.simps [simp del]

datatype copy_result = Copied | NoInput | NoOutput

text \<open>\<open>from\<close> is \<open>None\<close> when the host's file cannot be opened; \<open>ftell\<close> gives an \<open>int\<close>.\<close>

definition Copy :: "FileSystem \<Rightarrow> (nat \<Rightarrow> Fresh) \<Rightarrow> byte list option \<Rightarrow> byte list \<Rightarrow> DiskHw \<Rightarrow> (copy_result \<times> DiskHw) res" where
  "Copy fs g from to s = (case from of None \<Rightarrow> Inr (NoInput, s)
     | Some content \<Rightarrow>
       (let fileLength = sint (word_of_int (int (length content)) :: u32) in
        bindR (FileSystem_Create fs (g 0) to fileLength s) (\<lambda>(created, s).
        if \<not> created then Inr (NoOutput, s)
        else bindR (FileSystem_Open fs (g 1) to s) (\<lambda>(openFile, s).
          case openFile of None \<Rightarrow> Inl AssertFail
          | Some f \<Rightarrow> mapR (\<lambda>(f, s). (Copied, s)) (Copy_loop g 2 f content s)))))"

text \<open>The loop of \<open>Print\<close> ends when \<open>Read\<close> delivers nothing.\<close>

partial_function (option) Print_loop :: "OpenFile \<Rightarrow> DiskHw \<Rightarrow> (byte list \<times> DiskHw) res option" where
  "Print_loop f s =
     (case OpenFile_Read f (int TransferSize) s of Inl e \<Rightarrow> Some (Inl e)
      | Inr (buffer, f', s') \<Rightarrow>
        if buffer = [] then Some (Inr ([], s'))
        else Option.bind (Print_loop f' s') (\<lambda>r. Some (mapR (\<lambda>(out, t). (buffer @ out, t)) r)))"

text \<open>\<open>None\<close> inside the result: the file could not be opened.\<close>

definition Print :: "FileSystem \<Rightarrow> Fresh \<Rightarrow> byte list \<Rightarrow> DiskHw \<Rightarrow> (byte list option \<times> DiskHw) res option" where
  "Print fs g name s = (case FileSystem_Open fs g name s of Inl e \<Rightarrow> Some (Inl e)
     | Inr (None, s) \<Rightarrow> Some (Inr (None, s))
     | Inr (Some f, s) \<Rightarrow> Option.bind (Print_loop f s) (\<lambda>r. Some (mapR (\<lambda>(out, t). (Some out, t)) r)))"

subsection \<open>The performance test\<close>

definition TestFile :: "byte list" where "TestFile = map of_char ''TestFile''"
definition Contents :: "byte list" where "Contents = map of_char ''1234567890''"
definition ContentSize :: int where "ContentSize = int (length Contents)"
definition FileSize :: int where "FileSize = ContentSize * 5000"

datatype perf_msg = CannotCreate | UnableToOpen | CannotWrite | CannotRead | CannotRemove

text \<open>The loops from \<open>i\<close> on, with \<open>n\<close> rounds left; \<open>False\<close> when a transfer was too short.\<close>

fun FileWrite_loop :: "(nat \<Rightarrow> byte) \<Rightarrow> nat \<Rightarrow> OpenFile \<Rightarrow> DiskHw \<Rightarrow> (bool \<times> DiskHw) res" where
  "FileWrite_loop junk 0 f s = Inr (True, s)"
| "FileWrite_loop junk (Suc n) f s =
     bindR (OpenFile_Write junk f Contents ContentSize s) (\<lambda>(k, f, s).
     if k < 10 then Inr (False, s) else FileWrite_loop junk n f s)"

definition FileWrite :: "FileSystem \<Rightarrow> (nat \<Rightarrow> Fresh) \<Rightarrow> DiskHw \<Rightarrow> (perf_msg list \<times> DiskHw) res" where
  "FileWrite fs g s =
     bindR (FileSystem_Create fs (g 0) TestFile 0 s) (\<lambda>(created, s).
     if \<not> created then Inr ([CannotCreate], s)
     else bindR (FileSystem_Open fs (g 1) TestFile s) (\<lambda>(openFile, s).
       case openFile of None \<Rightarrow> Inr ([UnableToOpen], s)
       | Some f \<Rightarrow> mapR (\<lambda>(ok, s). (if ok then [] else [CannotWrite], s))
           (FileWrite_loop (fr_buf (g 2) 0) (nat (FileSize div ContentSize)) f s)))"

fun FileRead_loop :: "nat \<Rightarrow> OpenFile \<Rightarrow> DiskHw \<Rightarrow> (bool \<times> DiskHw) res" where
  "FileRead_loop 0 f s = Inr (True, s)"
| "FileRead_loop (Suc n) f s =
     bindR (OpenFile_Read f ContentSize s) (\<lambda>(buffer, f, s).
     if int (length buffer) < 10 \<or> \<not> strncmp_eq (nat ContentSize) buffer Contents then Inr (False, s) else FileRead_loop n f s)"

definition FileRead :: "FileSystem \<Rightarrow> Fresh \<Rightarrow> DiskHw \<Rightarrow> (perf_msg list \<times> DiskHw) res" where
  "FileRead fs g s =
     bindR (FileSystem_Open fs g TestFile s) (\<lambda>(openFile, s).
       case openFile of None \<Rightarrow> Inr ([UnableToOpen], s)
       | Some f \<Rightarrow> mapR (\<lambda>(ok, s). (if ok then [] else [CannotRead], s))
           (FileRead_loop (nat (FileSize div ContentSize)) f s))"

definition PerformanceTest :: "FileSystem \<Rightarrow> (nat \<Rightarrow> Fresh) \<Rightarrow> DiskHw \<Rightarrow> (perf_msg list \<times> DiskHw) res" where
  "PerformanceTest fs g s =
     bindR (FileWrite fs g s) (\<lambda>(m1, s).
     bindR (FileRead fs (g 3) s) (\<lambda>(m2, s).
     bindR (FileSystem_Remove fs (g 4) TestFile s) (\<lambda>(removed, s).
     Inr (m1 @ m2 @ (if removed then [] else [CannotRemove]), s))))"

subsection \<open>A file while it is open\<close>

text \<open>The open file \<open>f\<close> is the one the directory binds to \<open>nm\<close>.\<close>

definition opened :: "FileSystem \<Rightarrow> byte list \<Rightarrow> OpenFile \<Rightarrow> DiskHw \<Rightarrow> bool" where
  "opened fs nm f s \<longleftrightarrow> fs_inv fs s \<and> 0 \<le> seekPosition f \<and>
     (\<exists>i. named (fs_dir fs s) nm i \<and> of_hdr f = file_hdr s (fs_dir fs s ! i))"

lemma opened_hdr:
  assumes "opened fs nm f s"
  shows "hdr_ok (of_hdr f)" "SD_ok s" "files fs s nm = Some (contents (of_hdr f) s)"
    "int (length (contents (of_hdr f) s)) = numBytes (of_hdr f)"
proof -
  obtain i where i: "fs_inv fs s" "named (fs_dir fs s) nm i" "of_hdr f = file_hdr s (fs_dir fs s ! i)"
    using assms by (auto simp: opened_def)
  have "entry_inv fs s (fs_dir fs s ! i)" using i(1) named_used[OF i(2)] by (simp add: fs_inv_def)
  then show h: "hdr_ok (of_hdr f)" using i(3) by (simp add: entry_inv_def)
  show sd: "SD_ok s" using i(1) by (simp add: fs_inv_def)
  show "files fs s nm = Some (contents (of_hdr f) s)"
    using files_Some[OF _ i(2)] i(1,3) by (simp add: fs_inv_def)
  show "int (length (contents (of_hdr f) s)) = numBytes (of_hdr f)"
    using length_contents[OF h sd] h by (simp add: hdr_ok_def)
qed

lemma Write_opened:
  assumes "opened fs nm f s" "n \<le> int (length from)"
  shows "\<exists>k f' s'. OpenFile_Write junk f from n s = Inr (k, f', s') \<and> opened fs nm f' s'
    \<and> k = max 0 (min n (numBytes (of_hdr f) - seekPosition f)) \<and> of_hdr f' = of_hdr f \<and> seekPosition f' = seekPosition f + k
    \<and> contents (of_hdr f) s' = overwrite (contents (of_hdr f) s) (nat (seekPosition f)) (take (nat k) from)
    \<and> files fs s' = upd_file (files fs s) nm (Some (contents (of_hdr f) s'))"
proof -
  let ?h = "of_hdr f" and ?p = "seekPosition f" and ?D = "fs_dir fs s"
  let ?k = "max 0 (min n (numBytes ?h - ?p))"
  obtain i where i: "fs_inv fs s" "named ?D nm i" "?h = file_hdr s (?D ! i)" and p: "0 \<le> ?p"
    using assms(1) by (auto simp: opened_def)
  note h = opened_hdr[OF assms(1)]
  obtain s' where w: "OpenFile_WriteAt junk ?h from n ?p s = Inr (?k, s')" "SD_ok s'"
      "contents ?h s' = overwrite (contents ?h s) (nat ?p) (take (nat (min n (numBytes ?h - ?p))) from)"
      "\<forall>j \<ge> 0. j \<notin> set (data_sectors ?h) \<longrightarrow> sectors s' j = sectors s j"
    using OpenFile_WriteAt_ok[OF h(1,2) p assms(2)] by blast
  have k: "nat (min n (numBytes ?h - ?p)) = nat ?k" by linarith
  have inv: "fs_inv fs s'" "files fs s' = upd_file (files fs s) nm (Some (contents ?h s'))"
    using write_isolated[OF i(1,2) p assms(2) i(3), of junk] w(1,3) by (auto simp: upd_file_def)
  have e: "entry_inv fs s (?D ! i)" using i(1) named_used[OF i(2)] by (simp add: fs_inv_def)
  have "hdr_ok (of_hdr (directoryFile fs))" using i(1) by (simp add: fs_inv_def sys_ok_def Let_def)
  then have "\<forall>j\<in>set (data_sectors (of_hdr (directoryFile fs))). sectors s' j = sectors s j"
    using w(4) e i(3) by (auto simp: hdr_ok_def entry_inv_def own_def sys_def list_all_iff)
  from contents_cong[OF this] have dir: "fs_dir fs s' = ?D" by (simp add: fs_dir_def)
  have "sectors s' (de_sector (?D ! i)) = sectors s (de_sector (?D ! i))"
    using w(4) e i(3) by (auto simp: entry_inv_def)
  then have "file_hdr s' (?D ! i) = ?h" using i(3) by (simp add: file_hdr_def)
  then have "opened fs nm (f\<lparr>seekPosition := ?p + ?k\<rparr>) s'" using inv(1) dir i(2) p by (auto simp: opened_def)
  then show ?thesis using w inv(2) k by (simp add: OpenFile_Write_def)
qed

lemma Open_opened:
  assumes "fs_inv fs s" "fresh_ok g" "files fs s nm = Some c"
  shows "\<exists>f s'. FileSystem_Open fs g nm s = Inr (Some f, s') \<and> opened fs nm f s' \<and> seekPosition f = 0
    \<and> contents (of_hdr f) s' = c \<and> files fs s' = files fs s"
proof -
  from FileSystem_Open_hdr[OF assms(1,2), of nm] assms(3) obtain s' i where o: "fs_inv fs s'" "sectors s' = sectors s"
      "FileSystem_Open fs g nm s = Inr (Some \<lparr>of_hdr = file_hdr s (fs_dir fs s ! i), seekPosition = 0\<rparr>, s')"
      "named (fs_dir fs s) nm i" "c = contents (file_hdr s (fs_dir fs s ! i)) s" by auto
  note v = view_cong[OF o(2)]
  show ?thesis using o by (auto simp: opened_def v)
qed

lemma upd_file_same:
  assumes "fs_inv fs s" "files fs s nm = x"
  shows "upd_file (files fs s) nm x = files fs s"
  by (rule ext) (metis assms files_name_cong upd_file_def)

lemma take_overwrite: "q + length b \<le> length c \<Longrightarrow> take (q + length b) (overwrite c q b) = take q c @ b"
  by (simp add: overwrite_def)

lemma upd_file_twice [simp]: "upd_file (upd_file V nm x) nm y = upd_file V nm y"
  by (auto simp: upd_file_def)

lemma Copy_loop_ok:
  assumes "opened fs nm f s" "seekPosition f + int (length rest) = numBytes (of_hdr f)"
  shows "\<exists>f' s'. Copy_loop g k f rest s = Inr (f', s') \<and> fs_inv fs s'
    \<and> files fs s' = upd_file (files fs s) nm (Some (take (nat (seekPosition f)) (contents (of_hdr f) s) @ rest))"
  using assms
proof (induction "length rest" arbitrary: rest k f s rule: less_induct)
  case less
  note h = opened_hdr[OF less.prems(1)]
  show ?case
  proof (cases "rest = []")
    case True
    have "nat (seekPosition f) = length (contents (of_hdr f) s)" using h(4) less.prems(2) True by simp
    then have "take (nat (seekPosition f)) (contents (of_hdr f) s) @ rest = contents (of_hdr f) s" using True by simp
    with upd_file_same[OF _ h(3)] less.prems(1) True show ?thesis
      by (subst Copy_loop.simps) (simp add: opened_def)
  next
    case False
    let ?b = "take TransferSize rest" and ?p = "seekPosition f"
    have p: "0 \<le> ?p" using less.prems(1) by (simp add: opened_def)
    have b: "length ?b \<le> length rest" "?b \<noteq> []" using False by (auto simp: TransferSize_def)
    from Write_opened[OF less.prems(1), of "int (length ?b)" ?b "fr_buf (g k) 0"] obtain f' s' where w:
      "OpenFile_Write (fr_buf (g k) 0) f ?b (int (length ?b)) s = Inr (int (length ?b), f', s')" "opened fs nm f' s'"
      "of_hdr f' = of_hdr f" "seekPosition f' = ?p + int (length ?b)"
      "contents (of_hdr f) s' = overwrite (contents (of_hdr f) s) (nat ?p) ?b"
      "files fs s' = upd_file (files fs s) nm (Some (contents (of_hdr f) s'))"
      using less.prems(2) p b by (auto simp: min_def)
    have "length (drop TransferSize rest) < length rest" using False by (simp add: TransferSize_def)
    moreover have "seekPosition f' + int (length (drop TransferSize rest)) = numBytes (of_hdr f')"
      using w(3,4) less.prems(2) by auto
    ultimately obtain f2 s2 where r: "Copy_loop g (k + 1) f' (drop TransferSize rest) s' = Inr (f2, s2)" "fs_inv fs s2"
      "files fs s2 = upd_file (files fs s') nm (Some (take (nat (seekPosition f')) (contents (of_hdr f') s') @ drop TransferSize rest))"
      using less.hyps[OF _ w(2)] by blast
    have "nat ?p + length ?b \<le> length (contents (of_hdr f) s)" using h(4) less.prems(2) p b(1) by linarith
    then have "take (nat (seekPosition f')) (contents (of_hdr f') s') = take (nat ?p) (contents (of_hdr f) s) @ ?b"
      using take_overwrite[of "nat ?p" ?b "contents (of_hdr f) s"] w(3-5) p nat_add_distrib[OF p, of "int (length ?b)"]
      by (simp only: nat_int of_nat_0_le_iff)
    then have "files fs s2 = upd_file (files fs s) nm (Some (take (nat ?p) (contents (of_hdr f) s) @ rest))"
      using r(3) w(6) by simp
    then show ?thesis using r(1,2) w(1) b(2) by (subst Copy_loop.simps) (simp add: Let_def)
  qed
qed

lemma Print_loop_ok:
  assumes "hdr_ok (of_hdr f)" "SD_ok s" "0 \<le> seekPosition f"
  shows "\<exists>s'. Print_loop f s = Some (Inr (drop (nat (seekPosition f)) (contents (of_hdr f) s), s')) \<and> SD_ok s' \<and> sectors s' = sectors s"
  using assms
proof (induction "length (drop (nat (seekPosition f)) (contents (of_hdr f) s))" arbitrary: f s rule: less_induct)
  case less
  let ?p = "seekPosition f" and ?c = "contents (of_hdr f) s"
  let ?b = "take TransferSize (drop (nat ?p) ?c)" and ?f = "f\<lparr>seekPosition := ?p + int (length (take TransferSize (drop (nat ?p) ?c)))\<rparr>"
  from OpenFile_ReadAt_ok[OF less.prems, of "int TransferSize"] obtain s1 where s1: "OpenFile_Read f (int TransferSize) s = Inr (?b, ?f, s1)"
      "SD_ok s1" "sectors s1 = sectors s" by (force simp: OpenFile_Read_def)
  have c: "contents (of_hdr f) s1 = ?c" using contents_cong s1(3) by metis
  show ?case
  proof (cases "?b = []")
    case True
    then have "drop (nat ?p) ?c = []" by (simp add: TransferSize_def)
    with s1 True show ?thesis by (subst Print_loop.simps) simp
  next
    case False
    then have "drop (nat ?p) ?c \<noteq> []" by auto
    then have b: "0 < length ?b" "nat ?p + length ?b \<le> length ?c" by (auto simp: TransferSize_def)
    have n: "nat (seekPosition ?f) = nat ?p + length ?b" using less.prems(3) by simp
    have "length ?c - (nat ?p + length ?b) < length ?c - nat ?p" using b by linarith
    then have "length (drop (nat (seekPosition ?f)) (contents (of_hdr ?f) s1)) < length (drop (nat ?p) ?c)"
      unfolding n by (simp add: c del: length_take)
    from less.hyps[OF this] less.prems s1(2) obtain s2 where
      r: "Print_loop ?f s1 = Some (Inr (drop (nat ?p + length ?b) ?c, s2))" "SD_ok s2" "sectors s2 = sectors s1"
      using n c by auto
    have "?b @ drop (nat ?p + length ?b) ?c = drop (nat ?p) ?c"
      by (metis append_take_drop_id drop_drop add.commute length_take min.cobounded2 take_all_iff append_eq_conv_conj)
    with r s1 False show ?thesis by (subst Print_loop.simps) simp
  qed
qed

text \<open>C25: Copying a file of the host into the Nachos file system and printing it. On a consistent disk with a
  free directory entry, an unbound name and enough free sectors, \<open>Copy\<close> of a file of at most 30
  sectors, ten bytes at a time, returns with the name bound to exactly the bytes of the host's file,
  every other file unchanged and the disk consistent; \<open>Print\<close> of the name then ends and prints
  exactly these bytes, and changes no file.\<close>

theorem Copy_then_Print:
  assumes "fs_inv fs s" "\<forall>k. fresh_ok (g k)" "divRoundUp (int (length c)) SectorSize \<le> NumDirect" "files fs s nm = None"
    and "\<exists>i < 10. \<not> inUse (fs_dir fs s ! i)"
    and "divRoundUp (int (length c)) SectorSize < NumSectors - int (card (BitMap_marked (fs_map fs s)))"
  shows "\<exists>s' s''. Copy fs g (Some c) nm s = Inr (Copied, s') \<and> fs_inv fs s' \<and> files fs s' = upd_file (files fs s) nm (Some c)
    \<and> Print fs (g k) nm s' = Some (Inr (Some c, s'')) \<and> files fs s'' = files fs s'"
proof -
  have "int (length c) \<le> 128 * NumDirect"
    using divRoundUp_covers(1)[of "int (length c)" 128] assms(3) by (simp add: SectorSize_def)
  then have len: "sint (word_of_int (int (length c)) :: u32) = int (length c)"
    by (intro sint_word_of_int_id) (simp add: is_int_def NumDirect_eq)
  then have len2: "sint (word_of_nat (length c) :: u32) = int (length c)" by simp
  obtain s1 d where s1: "FileSystem_Create fs (g 0) nm (int (length c)) s = Inr (True, s1)" "fs_inv fs s1" "length d = nat (int (length c))"
      "files fs s1 = upd_file (files fs s) nm (Some d)"
    by (rule Create_succeeds[OF assms(1) _ _ assms(3-6), of "g 0"]) (use assms(2) in auto)
  have d: "files fs s1 nm = Some d" using s1(4) by (simp add: upd_file_def)
  from Open_opened[OF s1(2) _ d, of "g 1"] assms(2) obtain f s2 where
    s2: "FileSystem_Open fs (g 1) nm s1 = Inr (Some f, s2)" "opened fs nm f s2" "seekPosition f = 0"
      "contents (of_hdr f) s2 = d" "files fs s2 = files fs s1" by blast
  have "seekPosition f + int (length c) = numBytes (of_hdr f)" using opened_hdr(4)[OF s2(2)] s2(3,4) s1(3) by simp
  from Copy_loop_ok[OF s2(2) this, of g 2] obtain f' s' where
    s': "Copy_loop g 2 f c s2 = Inr (f', s')" "fs_inv fs s'" "files fs s' = upd_file (files fs s) nm (Some c)"
    using s2(3-5) s1(4) by auto
  have copy: "Copy fs g (Some c) nm s = Inr (Copied, s')" using s1(1) s2(1) s'(1) by (simp add: Copy_def len2 Let_def)
  have c: "files fs s' nm = Some c" using s'(3) by (simp add: upd_file_def)
  from Open_opened[OF s'(2) _ c, of "g k"] assms(2) obtain f3 s3 where
    s3: "FileSystem_Open fs (g k) nm s' = Inr (Some f3, s3)" "opened fs nm f3 s3" "seekPosition f3 = 0"
      "contents (of_hdr f3) s3 = c" "files fs s3 = files fs s'" by blast
  from Print_loop_ok[OF opened_hdr(1,2)[OF s3(2)]] s3(3,4) obtain s''
    where "Print_loop f3 s3 = Some (Inr (c, s''))" "sectors s'' = sectors s3" by auto
  with copy s' s3 view_cong(8)[of s'' s3 fs] show ?thesis
    by (intro exI[of _ s'] exI[of _ s'']) (simp add: Print_def)
qed

theorem Copy_then_Print_witness:
  "\<exists>fs s s' s''. FileSystem_new demo_fresh True demo_synchdisk = Inr (fs, s)
     \<and> Copy fs (\<lambda>_. demo_fresh) (Some (replicate 25 65)) [97] s = Inr (Copied, s')
     \<and> Print fs demo_fresh [97] s' = Some (Inr (Some (replicate 25 65), s''))"
proof (rule demo_fs)
  fix fs s assume f: "FileSystem_new demo_fresh True demo_synchdisk = Inr (fs, s)" "fs_inv fs s" "files fs s = (\<lambda>_. None)"
    "card (BitMap_marked (fs_map fs s)) \<le> 5" "\<exists>i < 10. \<not> inUse (fs_dir fs s ! i)"
  have "divRoundUp (int (length (replicate 25 (65 :: byte)))) SectorSize = 1" by (simp add: divRoundUp_nonneg disk_consts)
  then show ?thesis
    using Copy_then_Print[OF f(2), of "\<lambda>_. demo_fresh" "replicate 25 65" "[97]"] f demo_fresh_ok
    by (auto simp: NumDirect_eq NumSectors_eq)
qed

subsection \<open>The performance test fails\<close>

lemma rounds: "nat (FileSize div ContentSize) = Suc 4999" "ContentSize = 10"
  by (simp_all add: FileSize_def ContentSize_def Contents_def)

lemma FileWrite_fails:
  assumes "fs_inv fs s" "\<forall>k. fresh_ok (g k)" "files fs s TestFile = None" "\<exists>i < 10. \<not> inUse (fs_dir fs s ! i)"
    and "int (card (BitMap_marked (fs_map fs s))) < NumSectors"
  shows "\<exists>s'. FileWrite fs g s = Inr ([CannotWrite], s') \<and> fs_inv fs s' \<and> files fs s' = upd_file (files fs s) TestFile (Some [])"
proof -
  have z: "divRoundUp 0 SectorSize = 0" by (simp add: divRoundUp_nonneg disk_consts)
  have g: "fresh_ok (g k)" for k using assms(2) by blast
  obtain s1 d where s1: "FileSystem_Create fs (g 0) TestFile 0 s = Inr (True, s1)" "fs_inv fs s1" "d = ([] :: byte list)"
      "files fs s1 = upd_file (files fs s) TestFile (Some d)"
    by (rule Create_succeeds[OF assms(1) g[of 0] _ _ assms(3,4), of 0]) (use assms(5) in \<open>auto simp: z NumDirect_eq\<close>)
  have d: "files fs s1 TestFile = Some []" using s1(3,4) by (simp add: upd_file_def)
  from Open_opened[OF s1(2) g d] obtain f s2 where
    s2: "FileSystem_Open fs (g 1) TestFile s1 = Inr (Some f, s2)" "opened fs TestFile f s2" "seekPosition f = 0"
      "contents (of_hdr f) s2 = []" "files fs s2 = files fs s1" by blast
  have n: "numBytes (of_hdr f) = 0" using opened_hdr(4)[OF s2(2)] s2(4) by simp
  from Write_opened[OF s2(2), of 10 Contents "fr_buf (g 2) 0"] obtain f' s3 where
    s3: "OpenFile_Write (fr_buf (g 2) 0) f Contents 10 s2 = Inr (0, f', s3)" "opened fs TestFile f' s3" "of_hdr f' = of_hdr f"
      "files fs s3 = upd_file (files fs s2) TestFile (Some (contents (of_hdr f) s3))"
    using n s2(3) by (auto simp: Contents_def)
  have "FileWrite_loop (fr_buf (g 2) 0) (nat (FileSize div ContentSize)) f s2 = Inr (False, s3)"
    using s3(1) rounds(2) by (simp only: rounds(1) FileWrite_loop.simps) simp
  then have "FileWrite fs g s = Inr ([CannotWrite], s3)" using s1(1) s2(1) by (simp add: FileWrite_def)
  moreover have "contents (of_hdr f) s3 = []" using opened_hdr(4)[OF s3(2)] s3(3) n by simp
  ultimately show ?thesis using s3(2,4) s2(5) s1(4) by (simp add: opened_def)
qed

lemma FileRead_fails:
  assumes "fs_inv fs s" "fresh_ok g" "files fs s TestFile = Some []"
  shows "\<exists>s'. FileRead fs g s = Inr ([CannotRead], s') \<and> fs_inv fs s' \<and> files fs s' = files fs s"
proof -
  from Open_opened[OF assms] obtain f s1 where
    s1: "FileSystem_Open fs g TestFile s = Inr (Some f, s1)" "opened fs TestFile f s1" "seekPosition f = 0"
      "contents (of_hdr f) s1 = []" "files fs s1 = files fs s" by blast
  from OpenFile_ReadAt_ok[OF opened_hdr(1,2)[OF s1(2)], of 0 10] s1(4) obtain s2 where
    s2: "OpenFile_ReadAt (of_hdr f) 10 0 s1 = Inr ([], s2)" "SD_ok s2" "sectors s2 = sectors s1" by auto
  have "FileRead_loop (nat (FileSize div ContentSize)) f s1 = Inr (False, s2)"
    using s1(3) s2(1) rounds(2) by (simp only: rounds(1) FileRead_loop.simps) (simp add: OpenFile_Read_def)
  moreover have "fs_inv fs s2" using fs_inv_cong[OF s2(3,2)] s1(2) by (simp add: opened_def)
  ultimately show ?thesis using s1(1,5) view_cong(8)[OF s2(3), of fs] by (simp add: FileRead_def)
qed

text \<open>
  The performance test creates its file with size 0, and files do not grow: the first write and the
  first read transfer nothing. It always reports both failures, and leaves the files as they were.
\<close>

lemma PerformanceTest_fails:
  assumes "fs_inv fs s" "\<forall>k. fresh_ok (g k)" "files fs s TestFile = None" "\<exists>i < 10. \<not> inUse (fs_dir fs s ! i)"
    and "int (card (BitMap_marked (fs_map fs s))) < NumSectors"
  shows "\<exists>s'. PerformanceTest fs g s = Inr ([CannotWrite, CannotRead], s') \<and> fs_inv fs s' \<and> files fs s' = files fs s"
proof -
  have g: "fresh_ok (g k)" for k using assms(2) by blast
  obtain s1 where s1: "FileWrite fs g s = Inr ([CannotWrite], s1)" "fs_inv fs s1" "files fs s1 = upd_file (files fs s) TestFile (Some [])"
    using FileWrite_fails[OF assms] by blast
  have d: "files fs s1 TestFile = Some []" using s1(3) by (simp add: upd_file_def)
  obtain s2 where s2: "FileRead fs (g 3) s1 = Inr ([CannotRead], s2)" "fs_inv fs s2" "files fs s2 = files fs s1"
    using FileRead_fails[OF s1(2) g d] by blast
  from FileSystem_Remove_ok[OF s2(2) g[of 4], of TestFile] d s2(3) obtain s3 where
    s3: "FileSystem_Remove fs (g 4) TestFile s2 = Inr (True, s3)" "fs_inv fs s3" "files fs s3 = upd_file (files fs s2) TestFile None"
    unfolding upd_file_def by auto
  have "files fs s3 = files fs s" using s3(3) s2(3) s1(3) upd_file_same[OF assms(1,3)] by simp
  with s1(1) s2(1) s3 show ?thesis by (simp add: PerformanceTest_def)
qed

end
