(* ===== verification/Nachos_OpenFiles.thy ===== *)
theory Nachos_OpenFiles
  imports Nachos_Bitmap
begin

text \<open>
  The class \<open>NachosOpenFilesTable\<close> of \<open>userprog/addrspace.h\<close>: the table that gives user programs
  handles (indices) for the descriptors of the host. A bitmap says which handles are open.
  The table has 100 places; the three first ones stand for the console.
\<close>

subsection \<open>The table\<close>

definition tableSize :: int where "tableSize = 100"

record NachosOpenFilesTable =
  openFiles :: "int list"
  openFilesMap :: BitMap
  usage :: int

text \<open>
  The constructor. The vector and the words of the bitmap are uninitialised (\<open>heap\<close>, \<open>words\<close>);
  \<open>memset\<close> sets \<open>tableSize\<close> bytes of the vector, which are its first 25 integers.
\<close>

definition NachosOpenFilesTable_new :: "int list \<Rightarrow> u32 list \<Rightarrow> NachosOpenFilesTable res" where
  "NachosOpenFilesTable_new heap words =
     bindR (BitMap_new words tableSize) (\<lambda>m0.
     bindR (BitMap_Mark m0 0) (\<lambda>m1. bindR (BitMap_Mark m1 1) (\<lambda>m2. bindR (BitMap_Mark m2 2) (\<lambda>m3.
     let v = replicate (nat (tableSize div 4)) (-1) @ drop (nat (tableSize div 4)) heap in
     bindR (updR v 0 0) (\<lambda>v. bindR (updR v 1 1) (\<lambda>v. bindR (updR v 2 2) (\<lambda>v.
     Inr \<lparr>openFiles = v, openFilesMap = m3, usage = 1\<rparr>)))))))"

text \<open>The search of \<open>Open\<close>: the first open handle with this descriptor, 0 when there is none.\<close>

function Open_scan :: "NachosOpenFilesTable \<Rightarrow> int \<Rightarrow> int \<Rightarrow> int res" where
  "Open_scan t UnixHandle i =
     (if i < tableSize then
        bindR (BitMap_Test (openFilesMap t) i) (\<lambda>b.
        if \<not> b then Open_scan t UnixHandle (i + 1)
        else bindR (ixR (openFiles t) i) (\<lambda>u.
          if u = UnixHandle then Inr i else Open_scan t UnixHandle (i + 1)))
      else Inr 0)"
  by pat_completeness auto
termination
  by (relation "measure (\<lambda>(t, u, i). nat (tableSize - i))") auto

declare Open_scan.simps [simp del]

definition OpenFiles_Open :: "NachosOpenFilesTable \<Rightarrow> int \<Rightarrow> (int \<times> NachosOpenFilesTable) res" where
  "OpenFiles_Open t UnixHandle =
     bindR (Open_scan t UnixHandle 0) (\<lambda>handle.
     if handle \<noteq> 0 then Inr (handle, t)
     else bindR (BitMap_Find (openFilesMap t)) (\<lambda>(handle, m).
       if handle = -1 then Inr (-1, t\<lparr>openFilesMap := m\<rparr>)
       else bindR (updR (openFiles t) handle UnixHandle) (\<lambda>v.
         Inr (handle, t\<lparr>openFilesMap := m, openFiles := v\<rparr>))))"

definition OpenFiles_isOpened :: "NachosOpenFilesTable \<Rightarrow> int \<Rightarrow> bool res" where
  "OpenFiles_isOpened t NachosHandle =
     (if NachosHandle < 0 \<or> NachosHandle > tableSize then Inr False
      else BitMap_Test (openFilesMap t) NachosHandle)"

definition OpenFiles_Close :: "NachosOpenFilesTable \<Rightarrow> int \<Rightarrow> (int \<times> NachosOpenFilesTable) res" where
  "OpenFiles_Close t NachosHandle =
     bindR (OpenFiles_isOpened t NachosHandle) (\<lambda>b.
     if \<not> b \<or> NachosHandle < 0 \<or> NachosHandle > tableSize then Inr (-1, t)
     else bindR (ixR (openFiles t) NachosHandle) (\<lambda>UnixHandle.
       bindR (BitMap_Clear (openFilesMap t) NachosHandle) (\<lambda>m.
       bindR (updR (openFiles t) NachosHandle (-1)) (\<lambda>v.
       Inr (UnixHandle, t\<lparr>openFilesMap := m, openFiles := v\<rparr>)))))"

definition OpenFiles_getUnixHandle :: "NachosOpenFilesTable \<Rightarrow> int \<Rightarrow> int res" where
  "OpenFiles_getUnixHandle t NachosHandle =
     (if NachosHandle < 0 \<or> NachosHandle > tableSize then Inr (-1)
      else ixR (openFiles t) NachosHandle)"

definition OpenFiles_addThread :: "NachosOpenFilesTable \<Rightarrow> NachosOpenFilesTable" where
  "OpenFiles_addThread t = t\<lparr>usage := usage t + 1\<rparr>"

definition OpenFiles_delThread :: "NachosOpenFilesTable \<Rightarrow> int \<times> NachosOpenFilesTable" where
  "OpenFiles_delThread t = (usage t - 1, t\<lparr>usage := usage t - 1\<rparr>)"

subsection \<open>The table as a finite map\<close>

definition OpenFiles_ok :: "NachosOpenFilesTable \<Rightarrow> bool" where
  "OpenFiles_ok t \<longleftrightarrow> BitMap_ok (openFilesMap t) \<and> numBits (openFilesMap t) = 100 \<and> length (openFiles t) = 100"

definition handles :: "NachosOpenFilesTable \<Rightarrow> int \<Rightarrow> int option" where
  "handles t h = (if h \<in> BitMap_marked (openFilesMap t) then Some (openFiles t ! nat h) else None)"

lemma handles_range: "OpenFiles_ok t \<Longrightarrow> handles t h = Some u \<Longrightarrow> 0 \<le> h \<and> h < 100"
  using BitMap_marked_range[of "openFilesMap t"] by (auto simp: handles_def OpenFiles_ok_def split: if_splits)

lemma Open_scan_ok:
  assumes "OpenFiles_ok t" "0 \<le> i" "\<forall>h. 0 \<le> h \<and> h < i \<longrightarrow> handles t h \<noteq> Some u"
  shows "\<exists>h. Open_scan t u i = Inr h
    \<and> (h = 0 \<and> (i = 0 \<and> handles t 0 = Some u \<or> (\<forall>h. handles t h \<noteq> Some u))
       \<or> handles t h = Some u \<and> i \<le> h \<and> (\<forall>h'. 0 \<le> h' \<and> h' < h \<longrightarrow> handles t h' \<noteq> Some u))"
  using assms
proof (induction t u i rule: Open_scan.induct)
  case (1 t u i)
  have ok: "BitMap_ok (openFilesMap t)" "numBits (openFilesMap t) = 100" "length (openFiles t) = 100"
    using 1(3) by (simp_all add: OpenFiles_ok_def)
  show ?case
  proof (cases "i < tableSize")
    case True
    then have T: "BitMap_Test (openFilesMap t) i = Inr (i \<in> BitMap_marked (openFilesMap t))"
        "ixR (openFiles t) i = Inr (openFiles t ! nat i)"
      using BitMap_Test_ok[OF ok(1) 1(4)] ok 1(4) by (simp_all add: tableSize_def)
    show ?thesis
    proof (cases "handles t i = Some u")
      case hit: True
      then show ?thesis using True T 1(4,5) Open_scan.simps[of t u i]
        by (auto simp: handles_def split: if_splits)
    next
      case miss: False
      have lt: "\<forall>h. 0 \<le> h \<and> h < i + 1 \<longrightarrow> handles t h \<noteq> Some u"
        using 1(5) miss by (metis linorder_neqE_linordered_idom zless_add1_eq)
      have "Open_scan t u i = Open_scan t u (i + 1)"
        using True T miss Open_scan.simps[of t u i] by (auto simp: handles_def)
      moreover have "\<exists>h. Open_scan t u (i + 1) = Inr h
        \<and> (h = 0 \<and> (i + 1 = 0 \<and> handles t 0 = Some u \<or> (\<forall>h. handles t h \<noteq> Some u))
          \<or> handles t h = Some u \<and> i + 1 \<le> h \<and> (\<forall>h'. 0 \<le> h' \<and> h' < h \<longrightarrow> handles t h' \<noteq> Some u))"
      proof (cases "i \<in> BitMap_marked (openFilesMap t)")
        case True
        with 1(2)[OF \<open>i < tableSize\<close> T(1) _ T(2)] miss 1(3,4) lt show ?thesis by (simp add: handles_def)
      next
        case False
        with 1(1)[OF \<open>i < tableSize\<close> T(1)] 1(3,4) lt show ?thesis by simp
      qed
      ultimately show ?thesis using 1(4) by force
    qed
  next
    case False
    then have "\<forall>h. handles t h \<noteq> Some u" using 1(5) handles_range[OF 1(3)] by (force simp: tableSize_def)
    then show ?thesis using False Open_scan.simps[of t u i] by simp
  qed
qed

lemma handles_upd:
  assumes "OpenFiles_ok t" "BitMap_ok m" "numBits m = 100" "0 \<le> h" "h < 100"
  shows "OpenFiles_ok (t\<lparr>openFilesMap := m, openFiles := (openFiles t)[nat h := u]\<rparr>)"
    "BitMap_marked m = insert h (BitMap_marked (openFilesMap t)) \<Longrightarrow>
      handles (t\<lparr>openFilesMap := m, openFiles := (openFiles t)[nat h := u]\<rparr>) = (handles t)(h \<mapsto> u)"
    "BitMap_marked m = BitMap_marked (openFilesMap t) - {h} \<Longrightarrow>
      handles (t\<lparr>openFilesMap := m, openFiles := (openFiles t)[nat h := u]\<rparr>) = (handles t)(h := None)"
proof -
  have ne: "(openFiles t)[nat h := u] ! nat j = openFiles t ! nat j" if "j \<in> BitMap_marked (openFilesMap t)" "j \<noteq> h" for j
    using that assms(4) BitMap_marked_range[of "openFilesMap t"] by (subst nth_list_update_neq) (auto simp: eq_nat_nat_iff)
  show "OpenFiles_ok (t\<lparr>openFilesMap := m, openFiles := (openFiles t)[nat h := u]\<rparr>)"
    using assms by (simp add: OpenFiles_ok_def)
  show "handles (t\<lparr>openFilesMap := m, openFiles := (openFiles t)[nat h := u]\<rparr>) = (handles t)(h \<mapsto> u)"
    if "BitMap_marked m = insert h (BitMap_marked (openFilesMap t))"
    using assms that ne by (auto simp: handles_def fun_eq_iff OpenFiles_ok_def)
  show "handles (t\<lparr>openFilesMap := m, openFiles := (openFiles t)[nat h := u]\<rparr>) = (handles t)(h := None)"
    if "BitMap_marked m = BitMap_marked (openFilesMap t) - {h}"
    using assms that ne by (auto simp: handles_def fun_eq_iff OpenFiles_ok_def)
qed

lemma NachosOpenFilesTable_new_ok:
  assumes "length heap = 100" "length words = 4"
  shows "\<exists>t. NachosOpenFilesTable_new heap words = Inr t \<and> OpenFiles_ok t \<and> usage t = 1
    \<and> handles t = [0 \<mapsto> 0, 1 \<mapsto> 1, 2 \<mapsto> 2]"
proof -
  obtain m0 where m0: "BitMap_new words 100 = Inr m0" "BitMap_ok m0" "numBits m0 = 100" "BitMap_marked m0 = {}"
    using BitMap_new_ok[of 100 words] assms(2) by (auto simp: divRoundUp_nonneg)
  obtain m1 where m1: "BitMap_Mark m0 0 = Inr m1" "BitMap_ok m1" "numBits m1 = 100" "BitMap_marked m1 = {0}"
    using BitMap_Mark_ok[OF m0(2), of 0] m0 by auto
  obtain m2 where m2: "BitMap_Mark m1 1 = Inr m2" "BitMap_ok m2" "numBits m2 = 100" "BitMap_marked m2 = {1, 0}"
    using BitMap_Mark_ok[OF m1(2), of 1] m1 by auto
  obtain m3 where m3: "BitMap_Mark m2 2 = Inr m3" "BitMap_ok m3" "numBits m3 = 100" "BitMap_marked m3 = {2, 1, 0}"
    using BitMap_Mark_ok[OF m2(2), of 2] m2 by auto
  show ?thesis using m0(1) m1(1) m2(1) m3 assms
    by (auto simp: NachosOpenFilesTable_new_def tableSize_def Let_def OpenFiles_ok_def handles_def fun_eq_iff numeral_2_eq_2)
qed

lemma Open_hit:
  assumes "OpenFiles_ok t" "h \<noteq> 0" "handles t h = Some u" "handles t 0 \<noteq> Some u"
  shows "\<exists>h'. OpenFiles_Open t u = Inr (h', t) \<and> handles t h' = Some u \<and> h' \<le> h"
proof -
  have "0 \<le> h" using handles_range[OF assms(1,3)] by simp
  then obtain h' where "Open_scan t u 0 = Inr h'" "handles t h' = Some u" "0 \<le> h'"
      "\<forall>h''. 0 \<le> h'' \<and> h'' < h' \<longrightarrow> handles t h'' \<noteq> Some u"
    using Open_scan_ok[OF assms(1) order_refl, of u] assms(3,4) by (metis leD)
  then show ?thesis using assms(3,4) \<open>0 \<le> h\<close> by (intro exI[of _ h']) (force simp: OpenFiles_Open_def)
qed

lemma Open_fresh:
  assumes "OpenFiles_ok t" "\<forall>h. h \<noteq> 0 \<longrightarrow> handles t h \<noteq> Some u"
  shows "\<exists>h t'. OpenFiles_Open t u = Inr (h, t') \<and> OpenFiles_ok t' \<and> usage t' = usage t
    \<and> (if \<forall>h. 0 \<le> h \<and> h < 100 \<longrightarrow> handles t h \<noteq> None then h = -1 \<and> handles t' = handles t
       else 0 \<le> h \<and> h < 100 \<and> handles t h = None \<and> handles t' = (handles t)(h \<mapsto> u))"
proof -
  have ok: "BitMap_ok (openFilesMap t)" "numBits (openFilesMap t) = 100" "length (openFiles t) = 100"
    using assms(1) by (simp_all add: OpenFiles_ok_def)
  have scan: "Open_scan t u 0 = Inr 0" using Open_scan_ok[OF assms(1) order_refl, of u] assms(2) by fastforce
  have full: "(\<forall>h. 0 \<le> h \<and> h < 100 \<longrightarrow> handles t h \<noteq> None) \<longleftrightarrow> BitMap_marked (openFilesMap t) = {0..<numBits (openFilesMap t)}"
    using BitMap_marked_range[of "openFilesMap t"] ok(2) by (auto simp: handles_def split: if_splits)
  show ?thesis
  proof (cases "BitMap_marked (openFilesMap t) = {0..<numBits (openFilesMap t)}")
    case True
    then show ?thesis using bitmap_alloc.find_full[OF ok(1)] scan assms(1) unfolding full by (simp add: OpenFiles_Open_def)
  next
    case False
    with bitmap_alloc.find_free[OF ok(1)] ok(2) obtain h m where
      m: "BitMap_Find (openFilesMap t) = Inr (h, m)" "h \<in> {0..<100} - BitMap_marked (openFilesMap t)" "BitMap_ok m"
        "numBits m = 100" "BitMap_marked m = insert h (BitMap_marked (openFilesMap t))" by auto
    then have "OpenFiles_Open t u = Inr (h, t\<lparr>openFilesMap := m, openFiles := (openFiles t)[nat h := u]\<rparr>)" "handles t h = None"
      using scan ok(3) by (auto simp: OpenFiles_Open_def handles_def)
    then show ?thesis using False m(2) handles_upd(1,2)[OF assms(1) m(3,4), of h u] m(5) unfolding full by simp
  qed
qed

lemma isOpened_ok: "OpenFiles_ok t \<Longrightarrow> h \<noteq> 100 \<Longrightarrow> OpenFiles_isOpened t h = Inr (handles t h \<noteq> None)"
  using BitMap_Test_ok[of "openFilesMap t" h] BitMap_marked_range[of "openFilesMap t"]
  by (auto simp: OpenFiles_isOpened_def tableSize_def OpenFiles_ok_def handles_def)

lemma getUnixHandle_ok: "OpenFiles_ok t \<Longrightarrow> handles t h = Some u \<Longrightarrow> OpenFiles_getUnixHandle t h = Inr u"
  using handles_range[of t h u]
  by (auto simp: OpenFiles_getUnixHandle_def tableSize_def OpenFiles_ok_def handles_def split: if_splits)

lemma Close_ok:
  assumes "OpenFiles_ok t" "handles t h = Some u"
  shows "\<exists>t'. OpenFiles_Close t h = Inr (u, t') \<and> OpenFiles_ok t' \<and> handles t' = (handles t)(h := None) \<and> usage t' = usage t"
proof -
  have h: "0 \<le> h" "h < 100" "h \<in> BitMap_marked (openFilesMap t)" "openFiles t ! nat h = u"
    using handles_range[OF assms] assms(2) by (auto simp: handles_def split: if_splits)
  have ok: "BitMap_ok (openFilesMap t)" "numBits (openFilesMap t) = 100" "length (openFiles t) = 100"
    using assms(1) by (simp_all add: OpenFiles_ok_def)
  obtain m where m: "BitMap_Clear (openFilesMap t) h = Inr m" "BitMap_ok m" "numBits m = 100"
      "BitMap_marked m = BitMap_marked (openFilesMap t) - {h}" using BitMap_Clear_ok[OF ok(1) h(1)] h(2) ok(2) by auto
  then have "OpenFiles_Close t h = Inr (u, t\<lparr>openFilesMap := m, openFiles := (openFiles t)[nat h := -1]\<rparr>)"
    using isOpened_ok[OF assms(1), of h] assms(2) h ok(3) by (simp add: OpenFiles_Close_def tableSize_def)
  then show ?thesis using handles_upd(1,3)[OF assms(1) m(2,3) h(1,2), of "-1"] m(4) by simp
qed

lemma Close_unopened: "OpenFiles_ok t \<Longrightarrow> h \<noteq> 100 \<Longrightarrow> handles t h = None \<Longrightarrow> OpenFiles_Close t h = Inr (-1, t)"
  by (simp add: OpenFiles_Close_def isOpened_ok)

subsection \<open>The interface of the system calls\<close>

text \<open>A table of handles: opening a new descriptor binds a free handle, closing unbinds it.\<close>

locale handle_table =
  fixes inv :: "'t \<Rightarrow> bool"
    and view :: "'t \<Rightarrow> int \<Rightarrow> int option"
    and opn :: "'t \<Rightarrow> int \<Rightarrow> (int \<times> 't) res"
    and cls :: "'t \<Rightarrow> int \<Rightarrow> (int \<times> 't) res"
  assumes open_fresh: "inv t \<Longrightarrow> \<forall>h. view t h \<noteq> Some u \<Longrightarrow> \<exists>h t'. opn t u = Inr (h, t') \<and> inv t'
      \<and> (h = -1 \<and> view t' = view t \<or> h \<noteq> -1 \<and> view t h = None \<and> view t' = (view t)(h \<mapsto> u))"
    and close_bound: "inv t \<Longrightarrow> view t h = Some u \<Longrightarrow> \<exists>t'. cls t h = Inr (u, t') \<and> inv t' \<and> view t' = (view t)(h := None)"
begin

lemma open_close:
  assumes "inv t" "\<forall>h. view t h \<noteq> Some u" "opn t u = Inr (h, t1)" "h \<noteq> -1"
  shows "\<exists>t2. cls t1 h = Inr (u, t2) \<and> inv t2 \<and> view t2 = view t"
proof -
  have o: "inv t1" "view t h = None" "view t1 = (view t)(h \<mapsto> u)"
    using open_fresh[OF assms(1,2)] assms(3,4) by auto
  then obtain t2 where "cls t1 h = Inr (u, t2)" "inv t2" "view t2 = (view t1)(h := None)"
    using close_bound[OF o(1), of h u] by auto
  then show ?thesis using o(2,3) by (auto simp: fun_eq_iff)
qed

end

interpretation oft: handle_table OpenFiles_ok handles OpenFiles_Open OpenFiles_Close
proof unfold_locales
  fix t u assume t: "OpenFiles_ok t" "\<forall>h. handles t h \<noteq> Some u"
  then obtain h t' where "OpenFiles_Open t u = Inr (h, t')" "OpenFiles_ok t'"
      "if \<forall>h. 0 \<le> h \<and> h < 100 \<longrightarrow> handles t h \<noteq> None then h = -1 \<and> handles t' = handles t
       else 0 \<le> h \<and> h < 100 \<and> handles t h = None \<and> handles t' = (handles t)(h \<mapsto> u)" using Open_fresh[OF t(1)] by blast
  then show "\<exists>h t'. OpenFiles_Open t u = Inr (h, t') \<and> OpenFiles_ok t'
      \<and> (h = -1 \<and> handles t' = handles t \<or> h \<noteq> -1 \<and> handles t h = None \<and> handles t' = (handles t)(h \<mapsto> u))"
    by (auto split: if_splits)
next
  fix t h u assume "OpenFiles_ok t" "handles t h = Some u"
  then show "\<exists>t'. OpenFiles_Close t h = Inr (u, t') \<and> OpenFiles_ok t' \<and> handles t' = (handles t)(h := None)"
    using Close_ok by blast
qed

subsection \<open>Properties\<close>

definition demo_table :: NachosOpenFilesTable where
  "demo_table = \<lparr>openFiles = [0, 1, 2, 7] @ replicate 96 (-1),
     openFilesMap = \<lparr>numBits = 100, numWords = 4, bm_map = [15, 0, 0, 0]\<rparr>, usage = 1\<rparr>"

lemma demo_table_ok: "OpenFiles_ok demo_table"
  by (simp add: OpenFiles_ok_def demo_table_def BitMap_ok_def BitsInWord_def divRoundUp_nonneg)

text \<open>The table of open files is a finite map from handles to descriptors. A descriptor that has a
  handle other than 0 (and not handle 0) gets the least such handle again; any other
  descriptor gets a handle that was free and exactly this binding is added, or -1 when all 100
  handles are taken. Closing an open handle returns its descriptor and removes exactly this
  binding; closing and looking up answer -1 and false on every other handle but 100. A
  descriptor just opened and closed leaves the table as it was.\<close>

lemma OpenFiles_is_map:
  assumes "OpenFiles_ok t"
  shows "(\<forall>h u. h \<noteq> 0 \<and> handles t h = Some u \<and> handles t 0 \<noteq> Some u \<longrightarrow>
      (\<exists>h'. OpenFiles_Open t u = Inr (h', t) \<and> handles t h' = Some u \<and> h' \<le> h))
    \<and> (\<forall>u. (\<forall>h. h \<noteq> 0 \<longrightarrow> handles t h \<noteq> Some u) \<longrightarrow> (\<exists>h t'. OpenFiles_Open t u = Inr (h, t') \<and> OpenFiles_ok t'
        \<and> (if \<forall>h. 0 \<le> h \<and> h < 100 \<longrightarrow> handles t h \<noteq> None then h = -1 \<and> handles t' = handles t
           else 0 \<le> h \<and> h < 100 \<and> handles t h = None \<and> handles t' = (handles t)(h \<mapsto> u))))
    \<and> (\<forall>h u. handles t h = Some u \<longrightarrow> OpenFiles_isOpened t h = Inr True \<and> OpenFiles_getUnixHandle t h = Inr u
        \<and> (\<exists>t'. OpenFiles_Close t h = Inr (u, t') \<and> OpenFiles_ok t' \<and> handles t' = (handles t)(h := None)))
    \<and> (\<forall>h. h \<noteq> 100 \<and> handles t h = None \<longrightarrow> OpenFiles_isOpened t h = Inr False \<and> OpenFiles_Close t h = Inr (-1, t))
    \<and> (\<forall>u h t1. (\<forall>h. handles t h \<noteq> Some u) \<and> OpenFiles_Open t u = Inr (h, t1) \<and> h \<noteq> -1 \<longrightarrow>
        (\<exists>t2. OpenFiles_Close t1 h = Inr (u, t2) \<and> OpenFiles_ok t2 \<and> handles t2 = handles t))"
proof (intro conjI allI impI; (elim conjE)?)
  fix h u assume h: "handles t h = Some u"
  have "h \<noteq> 100" using handles_range[OF assms h] by simp
  then show "OpenFiles_isOpened t h = Inr True" using isOpened_ok[OF assms] h by simp
  show "OpenFiles_getUnixHandle t h = Inr u" using getUnixHandle_ok[OF assms h] .
  show "\<exists>t'. OpenFiles_Close t h = Inr (u, t') \<and> OpenFiles_ok t' \<and> handles t' = (handles t)(h := None)"
    using Close_ok[OF assms h] by blast
next
  fix u assume "\<forall>h. h \<noteq> 0 \<longrightarrow> handles t h \<noteq> Some u"
  from Open_fresh[OF assms this] show "\<exists>h t'. OpenFiles_Open t u = Inr (h, t') \<and> OpenFiles_ok t'
        \<and> (if \<forall>h. 0 \<le> h \<and> h < 100 \<longrightarrow> handles t h \<noteq> None then h = -1 \<and> handles t' = handles t
           else 0 \<le> h \<and> h < 100 \<and> handles t h = None \<and> handles t' = (handles t)(h \<mapsto> u))" by blast
qed (use Open_hit[OF assms] isOpened_ok[OF assms] Close_unopened[OF assms] oft.open_close[OF assms] in auto)

text \<open>The bound of the table is checked off by one. Handle 100, which a user program can pass to
  \<open>Close\<close>, \<open>Read\<close> or \<open>Write\<close>, passes the range test: \<open>isOpened\<close> and \<open>Close\<close> fail the assertion of
  the bitmap, and \<open>getUnixHandle\<close> reads behind the end of the vector.\<close>

lemma handle_100_aborts:
  assumes "OpenFiles_ok t"
  shows "OpenFiles_isOpened t 100 = Inl AssertFail \<and> OpenFiles_Close t 100 = Inl AssertFail
    \<and> OpenFiles_getUnixHandle t 100 = Inl BadAccess"
  using assms
  by (simp add: OpenFiles_isOpened_def OpenFiles_Close_def OpenFiles_getUnixHandle_def tableSize_def
      BitMap_Test_def OpenFiles_ok_def ixR_def)

end
