(* ===== verification/Nachos_AddrSpace.thy ===== *)
theory Nachos_AddrSpace
  imports Nachos_Mipssim Nachos_Files Nachos_OpenFiles
begin

text \<open>
  \<open>userprog/addrspace.cc\<close>, the build without virtual memory: loading an executable in the
  NOFF format of \<open>bin/noff.h\<close> into free frames, sharing an address space on \<open>Fork\<close>, its
  destruction, and the initial registers. The map of free frames \<open>MiMapa\<close> is a bitmap. In
  this build an \<open>OpenFile\<close> is a file of the host, here the list of its bytes. \<open>new\<close> takes
  addresses and uninitialised memory from a record \<open>SpaceFresh\<close>. A constructor that calls
  \<open>currentThread->Finish()\<close>, which does not return, yields no address space (\<open>None\<close>).
\<close>

subsection \<open>Executables\<close>

definition UserStackSize :: int where "UserStackSize = 1024"
definition NOFFMAGIC :: int where "NOFFMAGIC = 0xbadfad"

record Segment =
  virtualAddr :: int
  inFileAddr :: int
  seg_size :: int

record NoffHeader =
  noffMagic :: int
  noff_code :: Segment
  initData :: Segment
  uninitData :: Segment

text \<open>The image of the header: ten integers.\<close>

definition noff_of :: "byte list \<Rightarrow> NoffHeader" where
  "noff_of bs = (let v = bytes_ints bs;
       seg = (\<lambda>i. \<lparr>virtualAddr = v ! i, inFileAddr = v ! (i + 1), seg_size = v ! (i + 2)\<rparr>)
     in \<lparr>noffMagic = v ! 0, noff_code = seg 1, initData = seg 4, uninitData = seg 7\<rparr>)"

definition host_int :: "int \<Rightarrow> int" where
  "host_int x = sint (WordToHost (word_of_int x))"

definition SwapHeader :: "NoffHeader \<Rightarrow> NoffHeader" where
  "SwapHeader h = (let sw = (\<lambda>s. \<lparr>virtualAddr = host_int (virtualAddr s), inFileAddr = host_int (inFileAddr s),
         seg_size = host_int (seg_size s)\<rparr>)
     in \<lparr>noffMagic = host_int (noffMagic h), noff_code = sw (noff_code h), initData = sw (initData h),
         uninitData = sw (uninitData h)\<rparr>)"

text \<open>\<open>OpenFile::ReadAt\<close> of the host file: \<open>lseek\<close>, then as many bytes as there are.\<close>

definition Stub_ReadAt :: "byte list \<Rightarrow> int \<Rightarrow> int \<Rightarrow> byte list res" where
  "Stub_ReadAt file n position =
     assertR (0 \<le> position) (Inr (take (nat n) (drop (nat position) file)))"

text \<open>The bytes read land at an address of \<open>mainMemory\<close>.\<close>

definition poke :: "byte list \<Rightarrow> int \<Rightarrow> byte list \<Rightarrow> byte list res" where
  "poke mem p bs =
     (if bs = [] then Inr mem
      else if 0 \<le> p \<and> p + int (length bs) \<le> int (length mem) then Inr (overwrite mem (nat p) bs)
      else Inl BadAccess)"

text \<open>Reading and checking the header, as three functions of the source do.\<close>

definition read_header :: "byte list \<Rightarrow> byte list \<Rightarrow> NoffHeader res" where
  "read_header junk file =
     bindR (Stub_ReadAt file 40 0) (\<lambda>bs.
     let h = noff_of (overwrite junk 0 bs);
         h = (if noffMagic h \<noteq> NOFFMAGIC \<and> host_int (noffMagic h) = NOFFMAGIC then SwapHeader h else h)
     in assertR (noffMagic h = NOFFMAGIC) (Inr h))"

subsection \<open>Address spaces\<close>

record AddrSpace =
  as_pageTable :: "nat option"
  as_numPages :: u32
  as_openFilesTable :: nat
  ownExecutable :: "byte list"

record UState =
  us_m :: Machine
  MiMapa :: BitMap
  oftables :: "nat \<Rightarrow> NachosOpenFilesTable option"

record SpaceFresh =
  sf_table :: nat
  sf_oft :: nat
  sf_noff :: "byte list"
  sf_ints :: "int list"
  sf_words :: "u32 list"

definition new_entry :: "int \<Rightarrow> int \<Rightarrow> TranslationEntry" where
  "new_entry page location = \<lparr>virtualPage = page, physicalPage = location, valid = True,
     readOnly = False, use = False, dirty = False\<rparr>"

text \<open>\<open>MiMapa->Clear(pageTable[page].physicalPage)\<close> for a run of entries.\<close>

fun clear_pages :: "TranslationEntry list \<Rightarrow> BitMap \<Rightarrow> BitMap res" where
  "clear_pages [] bm = Inr bm"
| "clear_pages (e # es) bm = bindR (BitMap_Clear bm (physicalPage e)) (clear_pages es)"

text \<open>
  The allocation loop of both constructors: a frame for each of \<open>n\<close> further pages. When none
  is free the frames taken since entry \<open>base\<close> are given back and the thread finishes.
\<close>

fun alloc_pages :: "nat \<Rightarrow> nat \<Rightarrow> TranslationEntry list \<Rightarrow> BitMap \<Rightarrow> (TranslationEntry list option \<times> BitMap) res" where
  "alloc_pages base 0 pt bm = Inr (Some pt, bm)"
| "alloc_pages base (Suc n) pt bm =
     bindR (BitMap_Find bm) (\<lambda>(newLocation, bm1).
     if newLocation = -1 then mapR (Pair None) (clear_pages (drop base pt) bm1)
     else alloc_pages base n (pt @ [new_entry (int (length pt)) newLocation]) bm1)"

text \<open>The copy loop: page \<open>page\<close> and the following \<open>n - 1\<close> ones.\<close>

fun load_pages :: "byte list \<Rightarrow> NoffHeader \<Rightarrow> u32 \<Rightarrow> TranslationEntry list \<Rightarrow> nat \<Rightarrow> nat \<Rightarrow> byte list \<Rightarrow> byte list res" where
  "load_pages file noffH sizeToCopy pt 0 page mem = Inr mem"
| "load_pages file noffH sizeToCopy pt (Suc n) page mem =
     bindR (ixR pt (int page)) (\<lambda>e.
     let newPageLocation = physicalPage e;
         positionOnFile = sint (word_of_int (inFileAddr (noff_code noffH) + int page * PageSize) :: u32);
         tot = seg_size (noff_code noffH) + seg_size (initData noffH) + seg_size (uninitData noffH);
         pageCopySize = (if int page = uint (sizeToCopy - 1) then sint (word_of_int tot mod sizeToCopy) else PageSize)
     in bindR (Stub_ReadAt file pageCopySize positionOnFile) (\<lambda>bs.
        bindR (poke mem (PageSize * newPageLocation) bs) (\<lambda>mem1.
        load_pages file noffH sizeToCopy pt n (Suc page) mem1)))"

text \<open>\<open>ExeNoVirtualMemoryConstructor\<close>. Without enough free frames it returns early, with
  \<open>pageTable\<close> uninitialised.\<close>

definition AddrSpace_Exe :: "SpaceFresh \<Rightarrow> byte list \<Rightarrow> UState \<Rightarrow> (AddrSpace option \<times> UState) res" where
  "AddrSpace_Exe g executable u =
     bindR (NachosOpenFilesTable_new (sf_ints g) (sf_words g)) (\<lambda>oft.
     let u = u\<lparr>oftables := (oftables u)(sf_oft g \<mapsto> oft)\<rparr> in
     bindR (read_header (sf_noff g) executable) (\<lambda>noffH.
     let sz = sint (word_of_int (seg_size (noff_code noffH) + seg_size (initData noffH)
                + seg_size (uninitData noffH) + UserStackSize) :: u32);
         numPages = (word_of_int (divRoundUp sz PageSize) :: u32);
         space = \<lparr>as_pageTable = None, as_numPages = numPages, as_openFilesTable = sf_oft g, ownExecutable = executable\<rparr>
     in bindR (BitMap_NumClear (MiMapa u)) (\<lambda>clear.
     if clear < sint numPages then Inr (Some space, u)
     else
       assertR (uint numPages \<le> NumPhysPages) (
       bindR (alloc_pages 0 (unat numPages) [] (MiMapa u)) (\<lambda>(pt, bm).
       let u = u\<lparr>MiMapa := bm\<rparr> in
       case pt of None \<Rightarrow> Inr (None, u)
       | Some pt \<Rightarrow>
         bindR (load_pages executable noffH numPages pt (unat numPages) 0 (mainMemory (us_m u))) (\<lambda>mem.
         Inr (Some (space\<lparr>as_pageTable := Some (sf_table g)\<rparr>),
              u\<lparr>us_m := (us_m u)\<lparr>mainMemory := mem, tables := (tables (us_m u))(sf_table g \<mapsto> pt)\<rparr>\<rparr>)))))))"

text \<open>\<open>NoVirtualMemoryConstructor\<close>: the pages below the stack are shared, the stack is new.\<close>

definition AddrSpace_Fork :: "SpaceFresh \<Rightarrow> AddrSpace \<Rightarrow> UState \<Rightarrow> (AddrSpace option \<times> UState) res" where
  "AddrSpace_Fork g other u =
     (let sharedMemory = as_numPages other - word_of_int (divRoundUp UserStackSize PageSize) in
      case as_pageTable other of None \<Rightarrow> Inl BadAccess | Some t \<Rightarrow>
     (case tables (us_m u) t of None \<Rightarrow> Inl BadAccess | Some opt \<Rightarrow>
      if length opt < unat sharedMemory then Inl BadAccess
      else
        let shared = map (\<lambda>i. new_entry (int i) (physicalPage (opt ! i))) [0..<unat sharedMemory]
        in bindR (alloc_pages (unat sharedMemory) (unat (as_numPages other) - unat sharedMemory) shared (MiMapa u)) (\<lambda>(pt, bm).
           let u = u\<lparr>MiMapa := bm\<rparr> in
           case pt of None \<Rightarrow> Inr (None, u)
           | Some pt \<Rightarrow> Inr (Some (other\<lparr>as_pageTable := Some (sf_table g)\<rparr>),
               u\<lparr>us_m := (us_m u)\<lparr>tables := (tables (us_m u))(sf_table g \<mapsto> pt)\<rparr>\<rparr>))))"

text \<open>The destructor.\<close>

definition AddrSpace_delete :: "AddrSpace \<Rightarrow> UState \<Rightarrow> UState res" where
  "AddrSpace_delete sp u =
     (case as_pageTable sp of None \<Rightarrow> Inl BadAccess | Some t \<Rightarrow>
     (case tables (us_m u) t of None \<Rightarrow> Inl BadAccess | Some pt \<Rightarrow>
      if length pt < unat (as_numPages sp) then Inl BadAccess
      else
        bindR (clear_pages (take (unat (as_numPages sp)) pt) (MiMapa u)) (\<lambda>bm.
        let u = u\<lparr>MiMapa := bm, us_m := (us_m u)\<lparr>tables := (tables (us_m u))(t := None)\<rparr>\<rparr> in
        case oftables u (as_openFilesTable sp) of None \<Rightarrow> Inl BadAccess | Some oft \<Rightarrow>
        (case OpenFiles_delThread oft of (n, oft') \<Rightarrow>
         Inr (u\<lparr>oftables := (oftables u)(as_openFilesTable sp := (if n = 0 then None else Some oft'))\<rparr>)))))"

fun write_zeros :: "nat \<Rightarrow> int \<Rightarrow> Machine \<Rightarrow> Machine res" where
  "write_zeros 0 i m = Inr m"
| "write_zeros (Suc n) i m = bindR (Machine_WriteRegister i 0 m) (write_zeros n (i + 1))"

definition AddrSpace_InitRegisters :: "AddrSpace \<Rightarrow> Machine \<Rightarrow> Machine res" where
  "AddrSpace_InitRegisters sp m =
     bindR (write_zeros NumTotalRegs 0 m) (\<lambda>m.
     bindR (Machine_WriteRegister (int PCReg) 0 m) (\<lambda>m.
     bindR (Machine_WriteRegister (int NextPCReg) 4 m) (\<lambda>m.
     Machine_WriteRegister (int StackReg) (as_numPages sp * word_of_int PageSize - 16) m)))"

definition AddrSpace_SaveState :: "AddrSpace \<Rightarrow> Machine \<Rightarrow> Machine" where
  "AddrSpace_SaveState sp m = m"

definition Space_RestoreState :: "AddrSpace \<Rightarrow> Machine \<Rightarrow> Machine" where
  "Space_RestoreState sp m = m\<lparr>pageTable := as_pageTable sp, pageTableSize := as_numPages sp\<rparr>"

subsection \<open>Allocating frames\<close>

text \<open>The entries of consecutive pages from \<open>k\<close> on, in given frames.\<close>

fun entries :: "nat \<Rightarrow> int list \<Rightarrow> TranslationEntry list" where
  "entries k [] = []"
| "entries k (f # fs) = new_entry (int k) f # entries (Suc k) fs"

lemma length_entries [simp]: "length (entries k fs) = length fs"
  by (induction fs arbitrary: k) simp_all

lemma nth_entries: "i < length fs \<Longrightarrow> entries k fs ! i = new_entry (int (k + i)) (fs ! i)"
  by (induction fs arbitrary: k i) (auto simp: nth_Cons algebra_simps split: nat.splits)

lemma entries_frames [simp]: "map physicalPage (entries k fs) = fs"
  by (induction fs arbitrary: k) (simp_all add: new_entry_def)

lemma entries_append: "entries k (fs @ gs) = entries k fs @ entries (k + length fs) gs"
  by (induction fs arbitrary: k) simp_all

lemma alloc_pages_ok:
  assumes "BitMap_ok bm" "int n \<le> numBits bm - int (card (BitMap_marked bm))"
  shows "\<exists>fs bm'. alloc_pages base n pt bm = Inr (Some (pt @ entries (length pt) fs), bm') \<and> length fs = n \<and> distinct fs
    \<and> set fs \<subseteq> {0..<numBits bm} - BitMap_marked bm \<and> BitMap_ok bm' \<and> numBits bm' = numBits bm
    \<and> BitMap_marked bm' = BitMap_marked bm \<union> set fs
    \<and> (\<forall>c \<le> numBits bm. n \<le> card ({0..<c} - BitMap_marked bm) \<longrightarrow> set fs \<subseteq> {0..<c})"
  using assms
proof (induction n arbitrary: pt bm)
  case 0
  then show ?case by auto
next
  case (Suc n)
  have fin: "finite (BitMap_marked bm)" using bitmap_alloc.finite_used[OF Suc.prems(1)] .
  have "BitMap_marked bm \<noteq> {0..<numBits bm}" using Suc.prems by (intro bitmap_alloc.not_full) auto
  from bitmap_alloc.find_free[OF Suc.prems(1) this] obtain i bm1 where
    i: "BitMap_Find bm = Inr (i, bm1)" "i \<in> {0..<numBits bm} - BitMap_marked bm" "{0..<i} \<subseteq> BitMap_marked bm"
      "BitMap_ok bm1" "numBits bm1 = numBits bm" "BitMap_marked bm1 = insert i (BitMap_marked bm)" by blast
  have "card (BitMap_marked bm1) = Suc (card (BitMap_marked bm))" using i(2,6) fin by simp
  with Suc.prems(2) i(5) have "int n \<le> numBits bm1 - int (card (BitMap_marked bm1))" by simp
  from Suc.IH[OF i(4) this, of "pt @ [new_entry (int (length pt)) i]"] obtain fs bm' where
    fs: "alloc_pages base n (pt @ [new_entry (int (length pt)) i]) bm1
        = Inr (Some (pt @ entries (length pt) (i # fs)), bm')" "length fs = n" "distinct fs"
      "set fs \<subseteq> {0..<numBits bm} - BitMap_marked bm1" "BitMap_ok bm'" "numBits bm' = numBits bm"
      "BitMap_marked bm' = BitMap_marked bm1 \<union> set fs"
      "\<forall>c \<le> numBits bm. n \<le> card ({0..<c} - BitMap_marked bm1) \<longrightarrow> set fs \<subseteq> {0..<c}"
    using i(5) by auto
  have low: "set (i # fs) \<subseteq> {0..<c}" if c: "c \<le> numBits bm" "Suc n \<le> card ({0..<c} - BitMap_marked bm)" for c
  proof -
    have "i < c"
    proof (rule ccontr)
      assume "\<not> i < c"
      then have "{0..<c} - BitMap_marked bm = {}" using i(3) by auto
      then have "card ({0..<c} - BitMap_marked bm) = 0" by (metis card.empty)
      then show False using c(2) by linarith
    qed
    moreover have "{0..<c} - BitMap_marked bm1 = ({0..<c} - BitMap_marked bm) - {i}" using i(6) by auto
    ultimately have "n \<le> card ({0..<c} - BitMap_marked bm1)" using c(2) i(2) by (simp add: card_Diff_singleton)
    then show ?thesis using fs(8) c(1) \<open>i < c\<close> i(2) by auto
  qed
  have ne: "i \<noteq> -1" using i(2) by auto
  show ?case using i(1) ne fs(1-7) i(2,6) low by (intro exI[of _ "i # fs"] exI[of _ bm']) auto
qed

lemma clear_pages_ok:
  assumes "BitMap_ok bm" "set (map physicalPage es) \<subseteq> {0..<numBits bm}"
  shows "\<exists>bm'. clear_pages es bm = Inr bm' \<and> BitMap_ok bm' \<and> numBits bm' = numBits bm
    \<and> BitMap_marked bm' = BitMap_marked bm - set (map physicalPage es)"
  using assms
proof (induction es arbitrary: bm)
  case (Cons e es)
  obtain bm1 where b: "BitMap_Clear bm (physicalPage e) = Inr bm1" "BitMap_ok bm1" "numBits bm1 = numBits bm"
      "BitMap_marked bm1 = BitMap_marked bm - {physicalPage e}"
    using BitMap_Clear_ok[OF Cons.prems(1), of "physicalPage e"] Cons.prems(2) by auto
  from Cons.IH[OF b(2)] Cons.prems(2) b(3) obtain bm' where "clear_pages es bm1 = Inr bm'" "BitMap_ok bm'"
      "numBits bm' = numBits bm" "BitMap_marked bm' = BitMap_marked bm1 - set (map physicalPage es)" by auto
  then show ?case using b(1,4) by auto
qed simp

lemma alloc_pages_fail:
  assumes "BitMap_ok bm" "numBits bm - int (card (BitMap_marked bm)) < int n" "base \<le> length pt"
    "set (map physicalPage (drop base pt)) \<subseteq> BitMap_marked bm"
  shows "\<exists>bm'. alloc_pages base n pt bm = Inr (None, bm') \<and> BitMap_ok bm' \<and> numBits bm' = numBits bm
    \<and> BitMap_marked bm' = BitMap_marked bm - set (map physicalPage (drop base pt))"
  using assms
proof (induction n arbitrary: pt bm)
  case 0
  then show ?case using bitmap_alloc.card_used_le[OF 0(1)] by (auto simp: BitMap_ok_def)
next
  case (Suc n)
  show ?case
  proof (cases "BitMap_marked bm = {0..<numBits bm}")
    case True
    then have "BitMap_Find bm = Inr (-1, bm)" using bitmap_alloc.find_full[OF Suc.prems(1)] by simp
    moreover have "set (map physicalPage (drop base pt)) \<subseteq> {0..<numBits bm}" using Suc.prems(4) True by blast
    ultimately show ?thesis using clear_pages_ok[OF Suc.prems(1)] by fastforce
  next
    case False
    from bitmap_alloc.find_free[OF Suc.prems(1) this] obtain i bm1 where
      i: "BitMap_Find bm = Inr (i, bm1)" "i \<in> {0..<numBits bm} - BitMap_marked bm"
        "BitMap_ok bm1" "numBits bm1 = numBits bm" "BitMap_marked bm1 = insert i (BitMap_marked bm)" by blast
    have "card (BitMap_marked bm1) = Suc (card (BitMap_marked bm))"
      using i(2,5) bitmap_alloc.finite_used[OF Suc.prems(1)] by simp
    with Suc.prems(2) i(4) have lt: "numBits bm1 - int (card (BitMap_marked bm1)) < int n" by simp
    let ?pt = "pt @ [new_entry (int (length pt)) i]"
    have dr: "set (map physicalPage (drop base ?pt)) = insert i (set (map physicalPage (drop base pt)))"
      using Suc.prems(3) by (auto simp: new_entry_def)
    then have sub: "set (map physicalPage (drop base ?pt)) \<subseteq> BitMap_marked bm1" using Suc.prems(4) i(5) by auto
    have le: "base \<le> length ?pt" using Suc.prems(3) by simp
    obtain bm' where b: "alloc_pages base n ?pt bm1 = Inr (None, bm')" "BitMap_ok bm'" "numBits bm' = numBits bm"
        "BitMap_marked bm' = BitMap_marked bm1 - set (map physicalPage (drop base ?pt))"
      using Suc.IH[OF i(3) lt le sub] i(4) by auto
    have "BitMap_marked bm' = BitMap_marked bm - set (map physicalPage (drop base pt))"
      unfolding b(4) dr i(5) using i(2) Suc.prems(4) by auto
    then show ?thesis using b(1-3) i(1,2) by auto
  qed
qed

subsection \<open>Loading an executable\<close>

text \<open>The bytes of a frame.\<close>

definition frame :: "byte list \<Rightarrow> int \<Rightarrow> byte list" where
  "frame mem x = take 128 (drop (nat (128 * x)) mem)"

lemma frame_poke:
  assumes "length mem = 4096" "0 \<le> x" "x < 32" "length bs \<le> 128"
  shows "\<exists>mem'. poke mem (128 * x) bs = Inr mem' \<and> length mem' = 4096
    \<and> (\<forall>y. 0 \<le> y \<and> y < 32 \<longrightarrow> frame mem' y = (if y = x then overwrite (frame mem x) 0 bs else frame mem y))"
proof (cases "bs = []")
  case True
  then show ?thesis using assms(1) by (auto simp: poke_def overwrite_def)
next
  case False
  have p: "nat (128 * x) + length bs \<le> length mem" using assms by linarith
  have "frame (overwrite mem (nat (128 * x)) bs) y = (if y = x then overwrite (frame mem x) 0 bs else frame mem y)"
    if y: "0 \<le> y" "y < 32" for y
  proof (cases "y = x")
    case True
    have "drop (nat (128 * x)) (overwrite mem (nat (128 * x)) bs) = bs @ drop (nat (128 * x) + length bs) mem"
      using p by (simp add: overwrite_def)
    moreover have "drop (length bs) (take 128 (drop (nat (128 * x)) mem))
        = take (128 - length bs) (drop (nat (128 * x) + length bs) mem)" by (simp add: drop_take add.commute)
    ultimately show ?thesis using True assms(4) by (simp add: frame_def overwrite_def)
  next
    case ne: False
    have "nat (128 * y) + 128 \<le> nat (128 * x) \<or> nat (128 * x) + length bs \<le> nat (128 * y)"
      using ne assms y by linarith
    then show ?thesis using ne drop_overwrite_other[OF p] by (simp add: frame_def)
  qed
  then show ?thesis using False p assms by (simp add: poke_def)
qed

definition page_image :: "byte list \<Rightarrow> NoffHeader \<Rightarrow> u32 \<Rightarrow> nat \<Rightarrow> byte list" where
  "page_image file h np page =
     take (nat (if int page = uint (np - 1) then sint ((word_of_int (seg_size (noff_code h) + seg_size (initData h)
        + seg_size (uninitData h)) :: u32) mod np) else 128))
      (drop (nat (inFileAddr (noff_code h) + 128 * int page)) file)"

lemma load_pages_ok:
  assumes "length mem = 4096" "page + n \<le> length fs" "length fs \<le> 32" "set fs \<subseteq> {0..<32}" "distinct fs"
    and "0 \<le> inFileAddr (noff_code h)" "inFileAddr (noff_code h) < 2147479552" "\<forall>p. length (page_image file h np p) \<le> 128"
  shows "\<exists>mem'. load_pages file h np (entries 0 fs) n page mem = Inr mem' \<and> length mem' = 4096
    \<and> (\<forall>i \<in> {page..<page + n}. frame mem' (fs ! i) = overwrite (frame mem (fs ! i)) 0 (page_image file h np i))
    \<and> (\<forall>x. 0 \<le> x \<and> x < 32 \<and> (\<forall>i \<in> {page..<page + n}. fs ! i \<noteq> x) \<longrightarrow> frame mem' x = frame mem x)"
  using assms(1,2)
proof (induction n arbitrary: page mem)
  case 0
  then show ?case by simp
next
  case (Suc n)
  let ?x = "fs ! page"
  have pl: "page < length fs" using Suc.prems(2) by simp
  then have x: "0 \<le> ?x" "?x < 32" using assms(4) nth_mem[OF pl] by fastforce+
  have e: "physicalPage (entries 0 fs ! page) = ?x" using nth_entries[OF pl, of 0] by (simp add: new_entry_def)
  have pos: "sint (word_of_int (inFileAddr (noff_code h) + int page * PageSize) :: u32)
      = inFileAddr (noff_code h) + 128 * int page"
    using assms(3,6,7) pl by (subst sint_word_of_int_id) (auto simp: is_int_def mem_defs)
  obtain mem1 where m1: "poke mem (128 * ?x) (page_image file h np page) = Inr mem1" "length mem1 = 4096"
      "\<forall>y. 0 \<le> y \<and> y < 32 \<longrightarrow> frame mem1 y = (if y = ?x then overwrite (frame mem ?x) 0 (page_image file h np page) else frame mem y)"
    using frame_poke[OF Suc.prems(1) x] assms(8) by blast
  have ix: "ixR (entries 0 fs) (int page) = Inr (entries 0 fs ! page)" using pl by simp
  have rd: "Stub_ReadAt file (if int page = uint (np - 1) then sint ((word_of_int (seg_size (noff_code h) + seg_size (initData h)
        + seg_size (uninitData h)) :: u32) mod np) else PageSize) (inFileAddr (noff_code h) + 128 * int page)
      = Inr (page_image file h np page)"
    using assms(6) by (simp add: Stub_ReadAt_def page_image_def PageSize_def SectorSize_def)
  have run: "load_pages file h np (entries 0 fs) (Suc n) page mem = load_pages file h np (entries 0 fs) n (Suc page) mem1"
    unfolding load_pages.simps Let_def ix pos bindR_simps e rd using m1(1) by (simp add: PageSize_def SectorSize_def)
  have other: "frame mem1 (fs ! i) = frame mem (fs ! i)" if "i \<in> {Suc page..<Suc page + n}" for i
  proof -
    have i: "i < length fs" "i \<noteq> page" using that Suc.prems(2) by auto
    then have "fs ! i \<noteq> ?x" using assms(5) pl by (simp add: nth_eq_iff_index_eq)
    moreover have "0 \<le> fs ! i" "fs ! i < 32" using assms(4) nth_mem[OF i(1)] by fastforce+
    ultimately show ?thesis using m1(3) by simp
  qed
  from Suc.IH[OF m1(2), of "Suc page"] Suc.prems(2) obtain mem' where
    m': "load_pages file h np (entries 0 fs) n (Suc page) mem1 = Inr mem'" "length mem' = 4096"
      "\<forall>i \<in> {Suc page..<Suc page + n}. frame mem' (fs ! i) = overwrite (frame mem1 (fs ! i)) 0 (page_image file h np i)"
      "\<forall>x. 0 \<le> x \<and> x < 32 \<and> (\<forall>i \<in> {Suc page..<Suc page + n}. fs ! i \<noteq> x) \<longrightarrow> frame mem' x = frame mem1 x" by auto
  have "\<forall>i \<in> {Suc page..<Suc page + n}. fs ! i \<noteq> ?x"
    using assms(5) pl Suc.prems(2) by (auto simp: nth_eq_iff_index_eq)
  then have "frame mem' ?x = overwrite (frame mem ?x) 0 (page_image file h np page)" using m'(4) x m1(3) by simp
  moreover have "\<forall>i \<in> {Suc page..<Suc page + n}. frame mem' (fs ! i) = overwrite (frame mem (fs ! i)) 0 (page_image file h np i)"
    using m'(3) other by simp
  moreover have S: "{page..<page + Suc n} = insert page {Suc page..<Suc page + n}" by auto
  ultimately have a: "\<forall>i \<in> {page..<page + Suc n}. frame mem' (fs ! i) = overwrite (frame mem (fs ! i)) 0 (page_image file h np i)"
    unfolding S by simp
  have b: "frame mem' y = frame mem y" if "0 \<le> y \<and> y < 32 \<and> (\<forall>i \<in> {page..<page + Suc n}. fs ! i \<noteq> y)" for y
    using m'(4) m1(3) that unfolding S by auto
  show ?case using run m'(1,2) a b by auto
qed

lemma noff_pages:
  assumes "0 \<le> tot" "tot \<le> 3072"
  shows "sint (word_of_int (tot + UserStackSize) :: u32) = tot + 1024"
    "uint (word_of_int (divRoundUp (tot + 1024) PageSize) :: u32) = divRoundUp (tot + 1024) 128"
    "8 \<le> divRoundUp (tot + 1024) 128" "divRoundUp (tot + 1024) 128 \<le> 32" "tot \<le> 128 * (divRoundUp (tot + 1024) 128 - 8)"
proof -
  show "sint (word_of_int (tot + UserStackSize) :: u32) = tot + 1024"
    using assms by (subst sint_word_of_int_id) (auto simp: is_int_def UserStackSize_def)
  have d: "divRoundUp (tot + 1024) 128 = (tot + 1024) div 128 + (if (tot + 1024) mod 128 > 0 then 1 else 0)"
    using assms by (simp add: divRoundUp_nonneg)
  have "tot + 1024 \<le> divRoundUp (tot + 1024) 128 * 128" "divRoundUp (tot + 1024) 128 * 128 < tot + 1024 + 128"
    using divRoundUp_covers[of "tot + 1024" 128] assms by auto
  then show "8 \<le> divRoundUp (tot + 1024) 128" "divRoundUp (tot + 1024) 128 \<le> 32"
    "tot \<le> 128 * (divRoundUp (tot + 1024) 128 - 8)" using assms by (simp_all add: algebra_simps)
  then show "uint (word_of_int (divRoundUp (tot + 1024) PageSize) :: u32) = divRoundUp (tot + 1024) 128"
    by (simp add: mem_defs uint_word_of_int)
qed

text \<open>A program of at most 3072 bytes, whose code is in the part of the file that an \<open>int\<close> reaches.\<close>

definition noff_ok :: "NoffHeader \<Rightarrow> bool" where
  "noff_ok h \<longleftrightarrow> (let tot = seg_size (noff_code h) + seg_size (initData h) + seg_size (uninitData h) in
     0 \<le> tot \<and> tot \<le> 3072 \<and> 0 \<le> inFileAddr (noff_code h) \<and> inFileAddr (noff_code h) < 2147479552)"

definition noff_numPages :: "NoffHeader \<Rightarrow> int" where
  "noff_numPages h = divRoundUp (seg_size (noff_code h) + seg_size (initData h) + seg_size (uninitData h) + 1024) 128"

definition space_fresh_ok :: "SpaceFresh \<Rightarrow> bool" where
  "space_fresh_ok g \<longleftrightarrow> length (sf_ints g) = 100 \<and> length (sf_words g) = 4"

lemma noff_numPages_bounds:
  assumes "noff_ok h"
  shows "8 \<le> noff_numPages h" "noff_numPages h \<le> 32" "uint (word_of_int (noff_numPages h) :: u32) = noff_numPages h"
    "sint (word_of_int (noff_numPages h) :: u32) = noff_numPages h" "unat (word_of_int (noff_numPages h) :: u32) = nat (noff_numPages h)"
proof -
  show b: "8 \<le> noff_numPages h" "noff_numPages h \<le> 32"
    using noff_pages(3,4) assms unfolding noff_ok_def noff_numPages_def Let_def by blast+
  show u: "uint (word_of_int (noff_numPages h) :: u32) = noff_numPages h" using b by (simp add: uint_word_of_int)
  show "sint (word_of_int (noff_numPages h) :: u32) = noff_numPages h"
    using b by (intro sint_word_of_int_id) (simp add: is_int_def)
  show "unat (word_of_int (noff_numPages h) :: u32) = nat (noff_numPages h)" using u by (simp add: unat_eq_nat_uint)
qed

text \<open>What the constructor does before it allocates frames.\<close>

lemma AddrSpace_Exe_alloc:
  assumes "space_fresh_ok g" "BitMap_ok (MiMapa u)" "read_header (sf_noff g) exe = Inr h" "noff_ok h"
    "noff_numPages h \<le> numBits (MiMapa u) - int (card (BitMap_marked (MiMapa u)))"
  obtains oft where "OpenFiles_ok oft" "handles oft = [0 \<mapsto> 0, 1 \<mapsto> 1, 2 \<mapsto> 2]"
    "AddrSpace_Exe g exe u = bindR (alloc_pages 0 (nat (noff_numPages h)) [] (MiMapa u)) (\<lambda>(pt, bm).
       let u = u\<lparr>oftables := (oftables u)(sf_oft g \<mapsto> oft), MiMapa := bm\<rparr> in
       case pt of None \<Rightarrow> Inr (None, u)
       | Some pt \<Rightarrow>
         bindR (load_pages exe h (word_of_int (noff_numPages h)) pt (nat (noff_numPages h)) 0 (mainMemory (us_m u))) (\<lambda>mem.
         Inr (Some \<lparr>as_pageTable = Some (sf_table g), as_numPages = word_of_int (noff_numPages h),
                as_openFilesTable = sf_oft g, ownExecutable = exe\<rparr>,
              u\<lparr>us_m := (us_m u)\<lparr>mainMemory := mem, tables := (tables (us_m u))(sf_table g \<mapsto> pt)\<rparr>\<rparr>)))"
proof -
  obtain oft where oft: "NachosOpenFilesTable_new (sf_ints g) (sf_words g) = Inr oft" "OpenFiles_ok oft"
      "handles oft = [0 \<mapsto> 0, 1 \<mapsto> 1, 2 \<mapsto> 2]"
    using NachosOpenFilesTable_new_ok[of "sf_ints g" "sf_words g"] assms(1) by (auto simp: space_fresh_ok_def)
  have np: "divRoundUp (sint (word_of_int (seg_size (noff_code h) + seg_size (initData h) + seg_size (uninitData h)
      + UserStackSize) :: u32)) PageSize = noff_numPages h"
    using assms(4) by (subst noff_pages(1)) (auto simp: noff_ok_def noff_numPages_def Let_def mem_defs)
  note b = noff_numPages_bounds[OF assms(4)]
  have nc: "BitMap_NumClear (MiMapa u) = Inr (numBits (MiMapa u) - int (card (BitMap_marked (MiMapa u))))"
    using bitmap_alloc.num_clear_eq[OF assms(2)] .
  have nc': "\<not> numBits (MiMapa u) - int (card (BitMap_marked (MiMapa u))) < sint (word_of_int (noff_numPages h) :: u32)"
      "uint (word_of_int (noff_numPages h) :: u32) \<le> NumPhysPages" using assms(5) b by (simp_all add: NumPhysPages_def)
  show thesis
    by (rule that[OF oft(2,3)], unfold AddrSpace_Exe_def oft(1) assms(3) bindR_simps Let_def np)
      (use nc nc' b(5) in \<open>simp cong: option.case_cong\<close>)
qed

lemma page_image_short:
  assumes "noff_ok h"
  shows "length (page_image file h (word_of_int (noff_numPages h)) p) \<le> 128"
proof -
  let ?np = "word_of_int (noff_numPages h) :: u32"
  note b = noff_numPages_bounds[OF assms]
  have "uint (w mod ?np) < 32" for w using b by (simp add: uint_mod) (smt (verit) pos_mod_bound)
  then have "sint (w mod ?np) \<le> 128" for w
    using sint_word_of_int_id[of "uint (w mod ?np)"] uint_ge_0[of "w mod ?np"]
    by (simp add: is_int_def) (smt (verit) is_int_def)
  then have n: "nat (if c then sint ((word_of_int x :: u32) mod ?np) else 128) \<le> 128" for c x by (simp add: nat_le_iff)
  have "length (take k xs) \<le> k" for k and xs :: "byte list" by simp
  then show ?thesis unfolding page_image_def by (rule order_trans) (rule n)
qed

subsection \<open>Forking and destroying\<close>

lemma AddrSpace_Fork_run:
  assumes "as_pageTable sp = Some t" "tables (us_m u) t = Some opt" "uint (as_numPages sp) = int (length opt)" "8 \<le> length opt"
    "length opt \<le> 32"
  shows "AddrSpace_Fork g sp u = bindR (alloc_pages (length opt - 8) 8
       (entries 0 (map physicalPage (take (length opt - 8) opt))) (MiMapa u)) (\<lambda>(pt, bm).
     case pt of None \<Rightarrow> Inr (None, u\<lparr>MiMapa := bm\<rparr>)
     | Some pt \<Rightarrow> Inr (Some (sp\<lparr>as_pageTable := Some (sf_table g)\<rparr>),
          u\<lparr>MiMapa := bm, us_m := (us_m u)\<lparr>tables := (tables (us_m u))(sf_table g \<mapsto> pt)\<rparr>\<rparr>))"
proof -
  have s: "divRoundUp UserStackSize PageSize = 8" by (simp add: UserStackSize_def mem_defs divRoundUp_nonneg)
  have np: "unat (as_numPages sp) = length opt" using assms(3) by (simp add: unat_eq_nat_uint)
  then have "unat (as_numPages sp - 8) = length opt - 8" using assms(4) by (subst unat_sub) (auto simp: word_le_nat_alt)
  then have sh: "unat (as_numPages sp - word_of_int (divRoundUp UserStackSize PageSize)) = length opt - 8" by (simp add: s)
  have e: "map (\<lambda>i. new_entry (int i) (physicalPage (opt ! i))) [0..<length opt - 8]
      = entries 0 (map physicalPage (take (length opt - 8) opt))"
    by (rule nth_equalityI) (auto simp: nth_entries)
  have "length opt - (length opt - 8) = 8" "\<not> length opt < length opt - 8" using assms(4) by arith+
  then show ?thesis
    using assms(1,2) np unfolding AddrSpace_Fork_def Let_def sh by (simp add: e cong: option.case_cong)
qed

lemma AddrSpace_delete_ok:
  assumes "as_pageTable sp = Some t" "tables (us_m u) t = Some pt" "uint (as_numPages sp) = int (length pt)"
    "BitMap_ok (MiMapa u)" "set (map physicalPage pt) \<subseteq> {0..<numBits (MiMapa u)}" "oftables u (as_openFilesTable sp) = Some oft"
  shows "\<exists>u'. AddrSpace_delete sp u = Inr u' \<and> BitMap_ok (MiMapa u') \<and> numBits (MiMapa u') = numBits (MiMapa u)
    \<and> BitMap_marked (MiMapa u') = BitMap_marked (MiMapa u) - set (map physicalPage pt)
    \<and> us_m u' = (us_m u)\<lparr>tables := (tables (us_m u))(t := None)\<rparr>
    \<and> oftables u' = (oftables u)(as_openFilesTable sp :=
        (if usage oft = 1 then None else Some (oft\<lparr>usage := usage oft - 1\<rparr>)))"
proof -
  have np: "unat (as_numPages sp) = length pt" using assms(3) by (simp add: unat_eq_nat_uint)
  from clear_pages_ok[OF assms(4,5)] show ?thesis
    using assms(1,2,6) np by (auto simp: AddrSpace_delete_def Let_def OpenFiles_delThread_def)
qed

lemma write_zeros_ok:
  "length (registers m) = 40 \<Longrightarrow> i + n \<le> 40 \<Longrightarrow>
   write_zeros n (int i) m = Inr (m\<lparr>registers := map (\<lambda>j. if i \<le> j \<and> j < i + n then 0 else registers m ! j) [0..<40]\<rparr>)"
proof (induction n arbitrary: i m)
  case 0
  have "map (\<lambda>j. registers m ! j) [0..<40] = registers m" using 0(1) by (metis map_nth)
  moreover have "(\<lambda>j. if i \<le> j \<and> j < i + 0 then 0 else registers m ! j) = (!) (registers m)" by (auto simp: fun_eq_iff)
  ultimately show ?case by simp
next
  case (Suc n)
  let ?m = "m\<lparr>registers := (registers m)[i := 0]\<rparr>"
  have "Machine_WriteRegister (int i) 0 m = Inr ?m" using Suc.prems by (simp add: Machine_WriteRegister_def reg_defs)
  moreover have "write_zeros n (int (Suc i)) ?m
      = Inr (?m\<lparr>registers := map (\<lambda>j. if Suc i \<le> j \<and> j < Suc i + n then 0 else registers ?m ! j) [0..<40]\<rparr>)"
    using Suc.IH[of ?m "Suc i"] Suc.prems by simp
  moreover have "map (\<lambda>j. if Suc i \<le> j \<and> j < Suc i + n then 0 else registers ?m ! j) [0..<40]
      = map (\<lambda>j. if i \<le> j \<and> j < i + Suc n then 0 else registers m ! j) [0..<40]"
    using Suc.prems by (auto simp: nth_list_update)
  ultimately show ?case by (simp add: add.commute)
qed

lemma InitRegisters_ok:
  assumes "length (registers m) = 40"
  shows "AddrSpace_InitRegisters sp m = Inr (m\<lparr>registers := (replicate 40 0)[35 := 4, 29 := as_numPages sp * 128 - 16]\<rparr>)"
proof -
  have "map (\<lambda>j. if 0 \<le> j \<and> j < 0 + 40 then 0 else registers m ! j) [0..<40] = replicate 40 0"
    by (rule nth_equalityI) auto
  then have "write_zeros 40 0 m = Inr (m\<lparr>registers := replicate 40 0\<rparr>)" using write_zeros_ok[OF assms, of 0 40] by simp
  moreover have "(replicate 40 0)[34 := 0] = (replicate 40 0 :: u32 list)" by (simp add: list_update_same_conv)
  ultimately show ?thesis by (simp add: AddrSpace_InitRegisters_def Machine_WriteRegister_def reg_defs mem_defs)
qed

lemma free_frames:
  assumes "BitMap_ok bm" "numBits bm = 1024"
  shows "int (card ({0..<32} - BitMap_marked bm)) \<le> numBits bm - int (card (BitMap_marked bm))"
proof -
  have fin: "finite (BitMap_marked bm)" "BitMap_marked bm \<subseteq> {0..<1024}"
    using bitmap_alloc.finite_used[OF assms(1)] BitMap_marked_range[of bm] assms(2) by auto
  have "card ({0..<1024} - BitMap_marked bm) = 1024 - card (BitMap_marked bm)" "card (BitMap_marked bm) \<le> 1024"
    using card_Diff_subset[OF fin] card_mono[OF _ fin(2)] by simp_all
  moreover have "card ({0..<32} - BitMap_marked bm) \<le> card ({0..<1024} - BitMap_marked bm)" by (rule card_mono) auto
  ultimately show ?thesis using assms(2) by simp
qed

lemma load_pages_first:
  assumes "noff_ok h" "poke mem (128 * f) (page_image exe h (word_of_int (noff_numPages h)) 0) = Inl e"
  shows "load_pages exe h (word_of_int (noff_numPages h)) (entries 0 (f # fs)) (Suc k) 0 mem = Inl e"
proof -
  have pos: "sint (word_of_int (inFileAddr (noff_code h) + int 0 * PageSize) :: u32) = inFileAddr (noff_code h) + 128 * int 0"
    using assms(1) by (subst sint_word_of_int_id) (auto simp: is_int_def mem_defs noff_ok_def Let_def)
  have ix: "ixR (entries 0 (f # fs)) (int 0) = Inr (new_entry 0 f)" by simp
  have rd: "Stub_ReadAt exe (if int 0 = uint ((word_of_int (noff_numPages h) :: u32) - 1)
        then sint ((word_of_int (seg_size (noff_code h) + seg_size (initData h)
        + seg_size (uninitData h)) :: u32) mod word_of_int (noff_numPages h)) else PageSize) (inFileAddr (noff_code h) + 128 * int 0)
      = Inr (page_image exe h (word_of_int (noff_numPages h)) 0)"
    using assms(1) by (simp add: Stub_ReadAt_def page_image_def PageSize_def SectorSize_def noff_ok_def Let_def)
  show ?thesis unfolding load_pages.simps Let_def ix pos bindR_simps rd
    using assms(2) by (simp add: PageSize_def SectorSize_def new_entry_def)
qed

lemma page_image_full:
  assumes "noff_ok h" "i < nat (noff_numPages h) - 1"
  shows "page_image exe h (word_of_int (noff_numPages h)) i = take 128 (drop (nat (inFileAddr (noff_code h) + 128 * int i)) exe)"
proof -
  note b = noff_numPages_bounds[OF assms(1)]
  have "uint ((word_of_int (noff_numPages h) :: u32) - 1) = noff_numPages h - 1"
    using b(1,3) by (subst uint_sub_lem[THEN iffD1]) auto
  then show ?thesis using assms(2) b(1) by (auto simp: page_image_def)
qed

lemma Fork_basic:
  assumes "as_pageTable sp = Some t" "tables (us_m u) t = Some pt" "uint (as_numPages sp) = int (length pt)" "8 \<le> length pt"
    "length pt \<le> 32" "BitMap_ok (MiMapa u)" "sf_table g \<noteq> t"
  shows "if 8 \<le> numBits (MiMapa u) - int (card (BitMap_marked (MiMapa u)))
    then \<exists>sp' u' fs. AddrSpace_Fork g sp u = Inr (Some sp', u') \<and> as_pageTable sp' = Some (sf_table g)
      \<and> as_openFilesTable sp' = as_openFilesTable sp \<and> as_numPages sp' = as_numPages sp
      \<and> tables (us_m u') (sf_table g) = Some (entries 0 (map physicalPage (take (length pt - 8) pt) @ fs))
      \<and> length fs = 8 \<and> distinct fs \<and> set fs \<subseteq> {0..<numBits (MiMapa u)} - BitMap_marked (MiMapa u)
      \<and> BitMap_ok (MiMapa u') \<and> BitMap_marked (MiMapa u') = BitMap_marked (MiMapa u) \<union> set fs
      \<and> numBits (MiMapa u') = numBits (MiMapa u) \<and> oftables u' = oftables u
      \<and> mainMemory (us_m u') = mainMemory (us_m u) \<and> tables (us_m u') t = Some pt
    else \<exists>u'. AddrSpace_Fork g sp u = Inr (None, u') \<and> us_m u' = us_m u \<and> BitMap_marked (MiMapa u') = BitMap_marked (MiMapa u)"
proof -
  let ?sh = "map physicalPage (take (length pt - 8) pt)"
  note run = AddrSpace_Fork_run[OF assms(1-5), of g]
  have len: "length (entries 0 ?sh) = length pt - 8" by simp
  show ?thesis
  proof (cases "8 \<le> numBits (MiMapa u) - int (card (BitMap_marked (MiMapa u)))")
    case True
    then have "int 8 \<le> numBits (MiMapa u) - int (card (BitMap_marked (MiMapa u)))" by simp
    from alloc_pages_ok[OF assms(6) this, of "length pt - 8" "entries 0 ?sh"] obtain fs bm where
      fs: "alloc_pages (length pt - 8) 8 (entries 0 ?sh) (MiMapa u) = Inr (Some (entries 0 (?sh @ fs)), bm)" "length fs = 8"
        "distinct fs" "set fs \<subseteq> {0..<numBits (MiMapa u)} - BitMap_marked (MiMapa u)" "BitMap_ok bm" "numBits bm = numBits (MiMapa u)"
        "BitMap_marked bm = BitMap_marked (MiMapa u) \<union> set fs" unfolding len by (auto simp: entries_append)
    have "AddrSpace_Fork g sp u = Inr (Some (sp\<lparr>as_pageTable := Some (sf_table g)\<rparr>),
        u\<lparr>MiMapa := bm, us_m := (us_m u)\<lparr>tables := (tables (us_m u))(sf_table g \<mapsto> entries 0 (?sh @ fs))\<rparr>\<rparr>)"
      using run fs(1) by simp
    then show ?thesis using True fs(2-7) assms(2,7) by auto
  next
    case False
    then have "numBits (MiMapa u) - int (card (BitMap_marked (MiMapa u))) < int 8" by simp
    from alloc_pages_fail[OF assms(6) this, of "length pt - 8" "entries 0 ?sh"] show ?thesis
      using False run by (auto simp: drop_all)
  qed
qed

subsection \<open>Properties\<close>

text \<open>Loading a program. When at least as many of the 32 frames are free as the program needs (its
  segments and a stack of 1024 bytes, at most 3072 bytes besides the stack), the constructor
  builds a page table of valid writable entries for pages 0, 1, ..., whose frames are
  distinct, were free and are now marked, and no others. Every page but the last, hence every
  page of the code and data segments, holds the bytes of the file at its position, and the
  frames of other programs keep their bytes. The open files are those of the console.\<close>

lemma AddrSpace_load:
  assumes "space_fresh_ok g" "BitMap_ok (MiMapa u)" "numBits (MiMapa u) = 1024" "length (mainMemory (us_m u)) = 4096"
    and "read_header (sf_noff g) exe = Inr h" "noff_ok h"
    and "noff_numPages h \<le> int (card ({0..<32} - BitMap_marked (MiMapa u)))"
  shows "\<exists>sp u' fs oft. AddrSpace_Exe g exe u = Inr (Some sp, u')
    \<and> as_pageTable sp = Some (sf_table g) \<and> uint (as_numPages sp) = noff_numPages h
    \<and> tables (us_m u') (sf_table g) = Some (entries 0 fs) \<and> int (length fs) = noff_numPages h \<and> distinct fs
    \<and> set fs \<subseteq> {0..<32} - BitMap_marked (MiMapa u) \<and> BitMap_ok (MiMapa u')
    \<and> BitMap_marked (MiMapa u') = BitMap_marked (MiMapa u) \<union> set fs
    \<and> (\<forall>i < length fs - 1. frame (mainMemory (us_m u')) (fs ! i) = overwrite (frame (mainMemory (us_m u)) (fs ! i)) 0
          (take 128 (drop (nat (inFileAddr (noff_code h) + 128 * int i)) exe)))
    \<and> seg_size (noff_code h) + seg_size (initData h) + seg_size (uninitData h) \<le> 128 * (int (length fs) - 8)
    \<and> (\<forall>x \<in> {0..<32} - set fs. frame (mainMemory (us_m u')) x = frame (mainMemory (us_m u)) x)
    \<and> oftables u' = (oftables u)(as_openFilesTable sp \<mapsto> oft) \<and> handles oft = [0 \<mapsto> 0, 1 \<mapsto> 1, 2 \<mapsto> 2]"
proof -
  let ?np = "word_of_int (noff_numPages h) :: u32" and ?n = "nat (noff_numPages h)"
  note b = noff_numPages_bounds[OF assms(6)]
  have room: "noff_numPages h \<le> numBits (MiMapa u) - int (card (BitMap_marked (MiMapa u)))"
    using free_frames[OF assms(2,3)] assms(7) by simp
  obtain oft where oft: "OpenFiles_ok oft" "handles oft = [0 \<mapsto> 0, 1 \<mapsto> 1, 2 \<mapsto> 2]" and
    run: "AddrSpace_Exe g exe u = bindR (alloc_pages 0 ?n [] (MiMapa u)) (\<lambda>(pt, bm).
       let u = u\<lparr>oftables := (oftables u)(sf_oft g \<mapsto> oft), MiMapa := bm\<rparr> in
       case pt of None \<Rightarrow> Inr (None, u)
       | Some pt \<Rightarrow>
         bindR (load_pages exe h ?np pt ?n 0 (mainMemory (us_m u))) (\<lambda>mem.
         Inr (Some \<lparr>as_pageTable = Some (sf_table g), as_numPages = ?np, as_openFilesTable = sf_oft g, ownExecutable = exe\<rparr>,
              u\<lparr>us_m := (us_m u)\<lparr>mainMemory := mem, tables := (tables (us_m u))(sf_table g \<mapsto> pt)\<rparr>\<rparr>)))"
    by (rule AddrSpace_Exe_alloc[OF assms(1,2,5,6) room]) blast
  have "int ?n \<le> numBits (MiMapa u) - int (card (BitMap_marked (MiMapa u)))" using room b(1) by simp
  from alloc_pages_ok[OF assms(2) this, of 0 "[]"] obtain fs bm where
    fs: "alloc_pages 0 ?n [] (MiMapa u) = Inr (Some (entries 0 fs), bm)" "length fs = ?n" "distinct fs"
      "set fs \<subseteq> {0..<1024} - BitMap_marked (MiMapa u)" "BitMap_ok bm" "BitMap_marked bm = BitMap_marked (MiMapa u) \<union> set fs"
      "\<forall>c \<le> 1024. ?n \<le> card ({0..<c} - BitMap_marked (MiMapa u)) \<longrightarrow> set fs \<subseteq> {0..<c}"
    using assms(3) by auto
  have "?n \<le> card ({0..<32} - BitMap_marked (MiMapa u))" using assms(7) by simp
  then have low: "set fs \<subseteq> {0..<32}" using fs(7) by simp
  have ia: "0 \<le> inFileAddr (noff_code h)" "inFileAddr (noff_code h) < 2147479552"
    and tot: "seg_size (noff_code h) + seg_size (initData h) + seg_size (uninitData h) \<le> 128 * (noff_numPages h - 8)"
    using assms(6) noff_pages(5) by (auto simp: noff_ok_def noff_numPages_def Let_def)
  from load_pages_ok[OF assms(4) _ _ low fs(3) ia, of 0 ?n exe ?np] page_image_short[OF assms(6)] fs(2) nat_mono[OF b(2)] obtain mem where
    mem: "load_pages exe h ?np (entries 0 fs) ?n 0 (mainMemory (us_m u)) = Inr mem"
      "\<forall>i < ?n. frame mem (fs ! i) = overwrite (frame (mainMemory (us_m u)) (fs ! i)) 0 (page_image exe h ?np i)"
      "\<forall>x. 0 \<le> x \<and> x < 32 \<and> (\<forall>i < ?n. fs ! i \<noteq> x) \<longrightarrow> frame mem x = frame (mainMemory (us_m u)) x" by auto
  have img: "page_image exe h ?np i = take 128 (drop (nat (inFileAddr (noff_code h) + 128 * int i)) exe)"
    if "i < length fs - 1" for i using that fs(2) page_image_full[OF assms(6)] by simp
  have keep: "\<forall>x \<in> {0..<32} - set fs. frame mem x = frame (mainMemory (us_m u)) x"
    using mem(3) fs(2) by (metis DiffE atLeastLessThan_iff nth_mem)
  let ?sp = "\<lparr>as_pageTable = Some (sf_table g), as_numPages = ?np, as_openFilesTable = sf_oft g, ownExecutable = exe\<rparr>"
  let ?u = "u\<lparr>oftables := (oftables u)(sf_oft g \<mapsto> oft), MiMapa := bm,
     us_m := (us_m u)\<lparr>mainMemory := mem, tables := (tables (us_m u))(sf_table g \<mapsto> entries 0 fs)\<rparr>\<rparr>"
  have "AddrSpace_Exe g exe u = Inr (Some ?sp, ?u)" using run fs(1) mem(1) by (simp add: Let_def)
  then show ?thesis
    using fs(2-6) low b img mem(2) keep tot oft(2)
    by (intro exI[of _ ?sp] exI[of _ ?u] exI[of _ fs] exI[of _ oft]) auto
qed

text \<open>A file with a header for a program of 100 bytes of code and 60 of data, and an idle machine.\<close>

definition demo_exe :: "byte list" where
  "demo_exe = ints_bytes [0xbadfad, 0, 40, 100, 100, 140, 60, 0, 0, 0] @ replicate 160 7"

definition demo_fresh_space :: SpaceFresh where
  "demo_fresh_space = \<lparr>sf_table = 5, sf_oft = 6, sf_noff = replicate 40 1, sf_ints = replicate 100 9, sf_words = replicate 4 3\<rparr>"

definition demo_ustate :: "u32 list \<Rightarrow> UState" where
  "demo_ustate ws = \<lparr>us_m = Machine_new False [] False, MiMapa = \<lparr>numBits = 1024, numWords = 32, bm_map = ws\<rparr>,
     oftables = Map.empty\<rparr>"

definition demo_noff :: NoffHeader where
  "demo_noff = \<lparr>noffMagic = 0xbadfad, noff_code = \<lparr>virtualAddr = 0, inFileAddr = 40, seg_size = 100\<rparr>,
     initData = \<lparr>virtualAddr = 100, inFileAddr = 140, seg_size = 60\<rparr>, uninitData = \<lparr>virtualAddr = 0, inFileAddr = 0, seg_size = 0\<rparr>\<rparr>"

lemma demo_exe_ok:
  "read_header (sf_noff demo_fresh_space) demo_exe = Inr demo_noff" "noff_ok demo_noff" "noff_numPages demo_noff = 10"
  "space_fresh_ok demo_fresh_space" "length demo_exe = 200"
proof -
  let ?v = "[0xbadfad, 0, 40, 100, 100, 140, 60, 0, 0, 0]"
  have l: "list_all is_int ?v" by (simp add: is_int_def)
  have "take 40 demo_exe = ints_bytes ?v" by (simp add: demo_exe_def)
  moreover have "overwrite (replicate 40 1) 0 (ints_bytes ?v) = ints_bytes ?v" by (simp add: overwrite_def)
  moreover have "bytes_ints (ints_bytes ?v) = ?v" using bytes_ints_bytes[OF l, of "[]"] by (simp add: bytes_ints_def)
  ultimately show "read_header (sf_noff demo_fresh_space) demo_exe = Inr demo_noff"
    by (simp add: read_header_def Stub_ReadAt_def noff_of_def Let_def NOFFMAGIC_def demo_noff_def demo_fresh_space_def)
  show "noff_ok demo_noff" "noff_numPages demo_noff = 10" "space_fresh_ok demo_fresh_space" "length demo_exe = 200"
    by (simp_all add: noff_ok_def noff_numPages_def demo_noff_def divRoundUp_nonneg space_fresh_ok_def demo_fresh_space_def
        demo_exe_def)
qed

lemma demo_ustate_ok:
  "length ws = 32 \<Longrightarrow> BitMap_ok (MiMapa (demo_ustate ws))" "numBits (MiMapa (demo_ustate ws)) = 1024"
  "length (mainMemory (us_m (demo_ustate ws))) = 4096"
  by (simp_all add: demo_ustate_def BitMap_ok_def BitsInWord_def divRoundUp_nonneg Machine_new_def mem_defs)

lemma demo_marked:
  "BitMap_marked (MiMapa (demo_ustate (replicate 32 0))) = {}"
  "BitMap_marked (MiMapa (demo_ustate (-1 # replicate 31 0))) = {0..<32}"
proof -
  have "nat (i div 32) < 32" if "0 \<le> i" "i < 1024" for i :: int using that by linarith
  then show "BitMap_marked (MiMapa (demo_ustate (replicate 32 0))) = {}"
    by (auto simp: BitMap_marked_def demo_ustate_def bm_bit_def)
  have "bm_bit (MiMapa (demo_ustate (-1 # replicate 31 0))) i \<longleftrightarrow> i < 32" if i: "0 \<le> i" "i < 1024" for i
  proof (cases "i < 32")
    case True
    then have "nat (i div 32) = 0" using i by simp
    then show ?thesis using True by (simp add: demo_ustate_def bm_bit_def)
  next
    case False
    then obtain k where "nat (i div 32) = Suc k" "k < 31" using i by (cases "nat (i div 32)") auto
    then show ?thesis using False by (simp add: demo_ustate_def bm_bit_def)
  qed
  then show "BitMap_marked (MiMapa (demo_ustate (-1 # replicate 31 0))) = {0..<32}"
    by (auto simp: BitMap_marked_def demo_ustate_ok(2))
qed

text \<open>Loading when physical memory is full. The map of frames has 1024 bits but there are 32 frames.
  With all 32 frames in use the test for free frames succeeds, the program gets frames that
  do not exist, and copying its first page writes behind the end of the main memory.\<close>

lemma AddrSpace_load_overflow:
  assumes "space_fresh_ok g" "BitMap_ok (MiMapa u)" "numBits (MiMapa u) = 1024" "length (mainMemory (us_m u)) = 4096"
    and "read_header (sf_noff g) exe = Inr h" "noff_ok h" "inFileAddr (noff_code h) < int (length exe)"
    and "{0..<32} \<subseteq> BitMap_marked (MiMapa u)" "noff_numPages h \<le> 1024 - int (card (BitMap_marked (MiMapa u)))"
  shows "AddrSpace_Exe g exe u = Inl BadAccess"
proof -
  let ?np = "word_of_int (noff_numPages h) :: u32" and ?n = "nat (noff_numPages h)"
  note b = noff_numPages_bounds[OF assms(6)]
  have room: "noff_numPages h \<le> numBits (MiMapa u) - int (card (BitMap_marked (MiMapa u)))" using assms(3,9) by simp
  have "int ?n \<le> numBits (MiMapa u) - int (card (BitMap_marked (MiMapa u)))" using room b(1) by simp
  from alloc_pages_ok[OF assms(2) this, of 0 "[]"] obtain fs bm where
    fs: "alloc_pages 0 ?n [] (MiMapa u) = Inr (Some (entries 0 fs), bm)" "length fs = ?n"
      "set fs \<subseteq> {0..<1024} - BitMap_marked (MiMapa u)" using assms(3) by auto
  obtain k where k: "?n = Suc k" using b(1) by (cases ?n) auto
  then obtain f fs' where f: "fs = f # fs'" using fs(2) by (cases fs) auto
  then have "32 \<le> f" using fs(3) assms(8) by force
  have ia: "0 \<le> inFileAddr (noff_code h)" using assms(6) by (simp add: noff_ok_def Let_def)
  have img: "page_image exe h ?np 0 = take 128 (drop (nat (inFileAddr (noff_code h))) exe)"
    using page_image_full[OF assms(6), of 0] b(1) by simp
  then have "page_image exe h ?np 0 \<noteq> []" using ia assms(7) by simp
  then have bad: "poke (mainMemory (us_m u)) (128 * f) (page_image exe h ?np 0) = Inl BadAccess"
    using \<open>32 \<le> f\<close> assms(4) length_greater_0_conv[of "page_image exe h ?np 0"] by (simp add: poke_def del: length_greater_0_conv)
  have "load_pages exe h ?np (entries 0 fs) ?n 0 (mainMemory (us_m u)) = Inl BadAccess"
    unfolding k f using load_pages_first[OF assms(6)] bad by simp
  then show ?thesis by - (rule AddrSpace_Exe_alloc[OF assms(1,2,5,6) room], use fs(1) in \<open>simp add: Let_def\<close>)
qed

text \<open>C35: Forking an address space. With eight free bits in the map the child shares the frames of all
  pages below the stack with its parent and gets eight frames of its own, distinct and unused
  before, for the stack; parent and memory are untouched. Without, the frames taken are given
  back and the thread finishes.\<close>

theorem Fork_shares_frames:
  assumes "as_pageTable sp = Some t" "tables (us_m u) t = Some pt" "uint (as_numPages sp) = int (length pt)" "8 \<le> length pt"
    "length pt \<le> 32" "BitMap_ok (MiMapa u)" "sf_table g \<noteq> t"
  shows "if 8 \<le> numBits (MiMapa u) - int (card (BitMap_marked (MiMapa u)))
    then \<exists>sp' u' fs. AddrSpace_Fork g sp u = Inr (Some sp', u') \<and> as_pageTable sp' = Some (sf_table g)
      \<and> as_openFilesTable sp' = as_openFilesTable sp \<and> as_numPages sp' = as_numPages sp
      \<and> tables (us_m u') (sf_table g) = Some (entries 0 (map physicalPage (take (length pt - 8) pt) @ fs))
      \<and> length fs = 8 \<and> distinct fs \<and> set fs \<subseteq> {0..<numBits (MiMapa u)} - BitMap_marked (MiMapa u)
      \<and> BitMap_ok (MiMapa u') \<and> BitMap_marked (MiMapa u') = BitMap_marked (MiMapa u) \<union> set fs
      \<and> mainMemory (us_m u') = mainMemory (us_m u) \<and> tables (us_m u') t = Some pt
    else \<exists>u'. AddrSpace_Fork g sp u = Inr (None, u') \<and> us_m u' = us_m u \<and> BitMap_marked (MiMapa u') = BitMap_marked (MiMapa u)"
  using Fork_basic[OF assms] by (auto split: if_splits)

text \<open>The address space of the example program, and a forked copy of it.\<close>

definition demo_space :: AddrSpace where
  "demo_space = \<lparr>as_pageTable = Some 5, as_numPages = 10, as_openFilesTable = 6, ownExecutable = demo_exe\<rparr>"

definition demo_forked :: UState where
  "demo_forked = (demo_ustate (1023 # replicate 31 0))\<lparr>us_m := (Machine_new False [] False)\<lparr>tables := [5 \<mapsto> entries 0 [0..9]]\<rparr>,
     oftables := [6 \<mapsto> demo_table]\<rparr>"

lemma demo_forked_ok:
  "as_pageTable demo_space = Some 5" "tables (us_m demo_forked) 5 = Some (entries 0 [0..9])"
  "uint (as_numPages demo_space) = int (length (entries 0 [0..9]))" "8 \<le> length (entries 0 [0..9])"
  "length (entries 0 [0..9]) \<le> 32" "BitMap_ok (MiMapa demo_forked)" "numBits (MiMapa demo_forked) = 1024"
  "oftables demo_forked (as_openFilesTable demo_space) = Some demo_table"
  using demo_ustate_ok(1,2)[of "1023 # replicate 31 0"]
  by (simp_all add: demo_space_def demo_forked_def)

lemma demo_forked_bit: "0 \<le> i \<Longrightarrow> i \<le> 9 \<Longrightarrow> bm_bit (MiMapa demo_forked) i"
proof -
  assume i: "0 \<le> i" "i \<le> 9"
  have "bit (1023 :: u32) (nat i)" using i bit_mask_iff[where 'a = u32, of 10 "nat i"] by (simp add: mask_eq_exp_minus_1 nat_less_iff)
  moreover have "nat (i div 32) = 0" "i mod 32 = i" using i by simp_all
  ultimately show ?thesis by (simp add: demo_forked_def demo_ustate_def bm_bit_def)
qed

lemma demo_forked_free: "8 \<le> numBits (MiMapa demo_forked) - int (card (BitMap_marked (MiMapa demo_forked)))"
proof -
  have "bm_bit (MiMapa demo_forked) i \<longrightarrow> i < 32" if "0 \<le> i" "i < 1024" for i
    using that by (cases "nat (i div 32)") (auto simp: demo_forked_def demo_ustate_def bm_bit_def)
  then have "BitMap_marked (MiMapa demo_forked) \<subseteq> {0..<32}"
    using demo_forked_ok(7) by (auto simp: BitMap_marked_def)
  from card_mono[OF _ this] show ?thesis using demo_forked_ok(7) by simp
qed

theorem Fork_shares_frames_witness:
  "\<exists>sp' u'. AddrSpace_Fork (demo_fresh_space\<lparr>sf_table := 8\<rparr>) demo_space demo_forked = Inr (Some sp', u') \<and> as_numPages sp' = 10"
  using Fork_shares_frames[OF demo_forked_ok(1-6), of "demo_fresh_space\<lparr>sf_table := 8\<rparr>"] demo_forked_free
  by (auto simp: demo_space_def)

text \<open>Destroying an address space gives back every frame of its page table, those it shares included.
  After a fork and the destruction of the child, the frames of the parent's code and data are
  free in the map although the parent's page table still uses them.\<close>

lemma Fork_delete_frees_parent:
  assumes "as_pageTable sp = Some t" "tables (us_m u) t = Some pt" "uint (as_numPages sp) = int (length pt)" "8 \<le> length pt"
    "length pt \<le> 32" "BitMap_ok (MiMapa u)" "sf_table g \<noteq> t" "set (map physicalPage pt) \<subseteq> BitMap_marked (MiMapa u)"
    "oftables u (as_openFilesTable sp) = Some oft" "AddrSpace_Fork g sp u = Inr (Some sp', u')"
  shows "\<exists>u''. AddrSpace_delete sp' u' = Inr u''
    \<and> BitMap_marked (MiMapa u'') = BitMap_marked (MiMapa u) - set (map physicalPage (take (length pt - 8) pt))
    \<and> tables (us_m u'') t = Some pt"
proof -
  let ?sh = "map physicalPage (take (length pt - 8) pt)"
  have "8 \<le> numBits (MiMapa u) - int (card (BitMap_marked (MiMapa u)))"
    using Fork_basic[OF assms(1-7)] assms(10) by (auto split: if_splits)
  then obtain fs where f: "as_pageTable sp' = Some (sf_table g)" "as_openFilesTable sp' = as_openFilesTable sp"
      "as_numPages sp' = as_numPages sp" "tables (us_m u') (sf_table g) = Some (entries 0 (?sh @ fs))" "length fs = 8"
      "set fs \<subseteq> {0..<numBits (MiMapa u)} - BitMap_marked (MiMapa u)" "BitMap_ok (MiMapa u')" "numBits (MiMapa u') = numBits (MiMapa u)"
      "BitMap_marked (MiMapa u') = BitMap_marked (MiMapa u) \<union> set fs" "tables (us_m u') t = Some pt" "oftables u' = oftables u"
    using Fork_basic[OF assms(1-7)] assms(10) by (auto split: if_splits)
  have sh: "set ?sh \<subseteq> BitMap_marked (MiMapa u)" using assms(8) set_take_subset[of _ pt] by fastforce
  then have rng: "set (map physicalPage (entries 0 (?sh @ fs))) \<subseteq> {0..<numBits (MiMapa u')}"
    using f(6,8) BitMap_marked_range[of "MiMapa u"] by auto
  have np: "uint (as_numPages sp') = int (length (entries 0 (?sh @ fs)))" using f(3,5) assms(3,4) by simp
  have oft: "oftables u' (as_openFilesTable sp') = Some oft" using f(2,11) assms(9) by simp
  from AddrSpace_delete_ok[OF f(1,4) np f(7) rng oft] obtain u'' where d: "AddrSpace_delete sp' u' = Inr u''"
      "BitMap_marked (MiMapa u'') = BitMap_marked (MiMapa u') - set (map physicalPage (entries 0 (?sh @ fs)))"
      "us_m u'' = (us_m u')\<lparr>tables := (tables (us_m u'))(sf_table g := None)\<rparr>" by blast
  have "BitMap_marked (MiMapa u'') = BitMap_marked (MiMapa u) - set ?sh" using d(2) f(6,9) by auto
  then show ?thesis using d(1,3) f(10) assms(7) by auto
qed

end
