(* ===== verification/Nachos_Threads.thy ===== *)
theory Nachos_Threads
  imports Nachos_Machine
begin

text \<open>
  \<open>threads/thread.cc\<close>, \<open>threads/scheduler.cc\<close> and \<open>threads/synch.cc\<close>: thread control blocks,
  the ready list, semaphores, locks and condition variables.

  A thread that is not running is, in the program, a saved stack and a saved program
  counter. Here it is a script: the list of the actions it has still to perform. Every
  kernel routine is a sequence of actions (\<open>Semaphore_P\<close>, \<open>Lock_Acquire\<close>,
  \<open>Condition_Wait\<close>, ...), in the order of its statements, and \<open>exec_act\<close> is the effect of one
  action. What an action does is indivisible: interrupts are off, or it is a plain store.
  The step relation \<open>kstep\<close> adds what the program does not control: when the timer fires
  (only where interrupts are switched back on, since \<open>OneTick\<close> runs there) and when a device
  handler posts a semaphore (there, or while the processor idles).

  A thread, a semaphore, a lock and a condition variable are named by numbers, in place of
  the addresses of the objects. Stack fenceposts and names are left out.
\<close>

subsection \<open>Data\<close>

datatype ThreadStatus = JUST_CREATED | RUNNING | READY | BLOCKED

record Thread =
  th_status :: ThreadStatus
  th_space :: "(nat \<times> u32) option"
  userRegisters :: "u32 list"

record Semaphore =
  sem_value :: int
  sem_queue :: "nat list"

record Lock =
  lk_sem :: nat
  isHeld :: bool
  lk_owner :: "nat option"

text \<open>
  The actions. \<open>A_off\<close> is \<open>oldLevel = SetLevel(IntOff)\<close>, \<open>A_restore\<close> is \<open>SetLevel(oldLevel)\<close>;
  \<open>A_next\<close> is the loop and the dispatch at the end of \<open>Sleep\<close>; \<open>A_resume\<close> is what
  \<open>Scheduler::Run\<close> does after \<open>SWITCH\<close> returned. \<open>A_user\<close> is a step of the thread's own code.
\<close>

datatype Act =
    A_off | A_restore | A_enable
  | A_P nat | A_V nat | A_destroy nat
  | A_setHeld nat | A_clearHeld nat
  | A_wait nat | A_signal nat | A_broadcast nat
  | A_yield | A_finish | A_next | A_resume
  | A_ready nat
  | A_user nat

record Kst =
  threads :: "nat \<Rightarrow> Thread option"
  currentThread :: nat
  readyList :: "nat list"
  threadToBeDestroyed :: "nat option"
  ilevel :: IntStatus
  saved :: "nat \<Rightarrow> IntStatus list"
  script :: "nat \<Rightarrow> Act list"
  sems :: "nat \<Rightarrow> Semaphore"
  locks :: "nat \<Rightarrow> Lock"
  conds :: "nat \<Rightarrow> nat list"
  kmach :: Machine

subsection \<open>Threads and the scheduler\<close>

definition Thread_new :: "Thread" where
  "Thread_new = \<lparr>th_status = JUST_CREATED, th_space = None, userRegisters = replicate 40 0\<rparr>"

definition upd_thread :: "nat \<Rightarrow> (Thread \<Rightarrow> Thread) \<Rightarrow> Kst \<Rightarrow> Kst" where
  "upd_thread t f k = k\<lparr>threads := (threads k)(t := map_option f (threads k t))\<rparr>"

definition Thread_setStatus :: "nat \<Rightarrow> ThreadStatus \<Rightarrow> Kst \<Rightarrow> Kst" where
  "Thread_setStatus t st = upd_thread t (\<lambda>th. th\<lparr>th_status := st\<rparr>)"

definition Scheduler_ReadyToRun :: "nat \<Rightarrow> Kst \<Rightarrow> Kst" where
  "Scheduler_ReadyToRun t k =
     (let k1 = Thread_setStatus t READY k in k1\<lparr>readyList := readyList k1 @ [t]\<rparr>)"

definition Scheduler_FindNextToRun :: "Kst \<Rightarrow> nat option \<times> Kst" where
  "Scheduler_FindNextToRun k = (case readyList k of [] \<Rightarrow> (None, k) | t # ts \<Rightarrow> (Some t, k\<lparr>readyList := ts\<rparr>))"

definition Thread_SaveUserState :: "nat \<Rightarrow> Kst \<Rightarrow> Kst" where
  "Thread_SaveUserState t k =
     upd_thread t (\<lambda>th. th\<lparr>userRegisters := map (\<lambda>i. registers (kmach k) ! i) [0..<NumTotalRegs]\<rparr>) k"

definition Thread_RestoreUserState :: "nat \<Rightarrow> Kst \<Rightarrow> Kst" where
  "Thread_RestoreUserState t k = (case threads k t of None \<Rightarrow> k
     | Some th \<Rightarrow> k\<lparr>kmach := (kmach k)\<lparr>registers := map (\<lambda>i. userRegisters th ! i) [0..<NumTotalRegs]\<rparr>\<rparr>)"

text \<open>\<open>AddrSpace::SaveState\<close> does nothing; \<open>AddrSpace::RestoreState\<close> installs the page table.\<close>

definition AddrSpace_RestoreState :: "nat \<times> u32 \<Rightarrow> Kst \<Rightarrow> Kst" where
  "AddrSpace_RestoreState sp k =
     k\<lparr>kmach := (kmach k)\<lparr>pageTable := Some (fst sp), pageTableSize := snd sp\<rparr>\<rparr>"

text \<open>\<open>Scheduler::Run\<close> up to \<open>SWITCH\<close>: the old thread will continue behind it.\<close>

definition Scheduler_Run :: "nat \<Rightarrow> Kst \<Rightarrow> Kst" where
  "Scheduler_Run nextThread k =
     (let old = currentThread k;
          k1 = (case threads k old of None \<Rightarrow> k
                | Some th \<Rightarrow> if th_space th \<noteq> None then Thread_SaveUserState old k else k);
          k2 = k1\<lparr>script := (script k1)(old := A_resume # script k1 old)\<rparr>
      in Thread_setStatus nextThread RUNNING (k2\<lparr>currentThread := nextThread\<rparr>))"

text \<open>\<open>Scheduler::Run\<close> from \<open>SWITCH\<close> on, in the thread that is resumed.\<close>

definition Scheduler_resume :: "Kst \<Rightarrow> Kst res" where
  "Scheduler_resume k =
     bindR (case threadToBeDestroyed k of
              None \<Rightarrow> Inr k
            | Some t \<Rightarrow> assertR (t \<noteq> currentThread k)
                (Inr (k\<lparr>threads := (threads k)(t := None), threadToBeDestroyed := None\<rparr>))) (\<lambda>k1.
     case threads k1 (currentThread k1) of None \<Rightarrow> Inl BadAccess
     | Some th \<Rightarrow> (case th_space th of None \<Rightarrow> Inr k1
         | Some sp \<Rightarrow> Inr (AddrSpace_RestoreState sp (Thread_RestoreUserState (currentThread k1) k1))))"

text \<open>Put actions in front of the current thread's script: a nested call.\<close>

definition push_acts :: "Act list \<Rightarrow> Kst \<Rightarrow> Kst" where
  "push_acts as k = k\<lparr>script := (script k)(currentThread k := as @ script k (currentThread k))\<rparr>"

definition Thread_Sleep :: "Kst \<Rightarrow> Kst res" where
  "Thread_Sleep k =
     assertR (ilevel k = IntOff)
       (Inr (push_acts [A_next] (Thread_setStatus (currentThread k) BLOCKED k)))"

text \<open>The middle of \<open>Yield\<close>, between the two calls of \<open>SetLevel\<close>.\<close>

definition Thread_Yield_body :: "Kst \<Rightarrow> Kst" where
  "Thread_Yield_body k =
     (case Scheduler_FindNextToRun k of
        (None, k1) \<Rightarrow> k1
      | (Some t, k1) \<Rightarrow> Scheduler_Run t (Scheduler_ReadyToRun (currentThread k1) k1))"

subsection \<open>Semaphores, locks, condition variables\<close>

definition Semaphore_new :: "int \<Rightarrow> Semaphore" where
  "Semaphore_new initialValue = \<lparr>sem_value = initialValue, sem_queue = []\<rparr>"

definition Lock_new :: "nat \<Rightarrow> Lock" where
  "Lock_new s = \<lparr>lk_sem = s, isHeld = False, lk_owner = None\<rparr>"

text \<open>One test of \<open>while (value == 0)\<close> in \<open>P\<close>, with the body of the loop or what follows it.\<close>

definition Semaphore_P_body :: "nat \<Rightarrow> Kst \<Rightarrow> Kst res" where
  "Semaphore_P_body s k =
     (let sem = sems k s in
      if sem_value sem = 0
      then Thread_Sleep (push_acts [A_P s]
             (k\<lparr>sems := (sems k)(s := sem\<lparr>sem_queue := sem_queue sem @ [currentThread k]\<rparr>)\<rparr>))
      else Inr (k\<lparr>sems := (sems k)(s := sem\<lparr>sem_value := sem_value sem - 1\<rparr>)\<rparr>))"

definition Semaphore_V_body :: "nat \<Rightarrow> Kst \<Rightarrow> Kst" where
  "Semaphore_V_body s k =
     (let sem = sems k s in
      case sem_queue sem of
        [] \<Rightarrow> k\<lparr>sems := (sems k)(s := sem\<lparr>sem_value := sem_value sem + 1\<rparr>)\<rparr>
      | t # ts \<Rightarrow> Scheduler_ReadyToRun t
          (k\<lparr>sems := (sems k)(s := sem\<lparr>sem_queue := ts, sem_value := sem_value sem + 1\<rparr>)\<rparr>))"

text \<open>\<open>while ((thread = queue->Remove()) != NULL) scheduler->ReadyToRun(thread);\<close>\<close>

definition ready_all :: "nat list \<Rightarrow> Kst \<Rightarrow> Kst" where
  "ready_all ts k = fold Scheduler_ReadyToRun ts k"

definition Semaphore_Destroy_body :: "nat \<Rightarrow> Kst \<Rightarrow> Kst" where
  "Semaphore_Destroy_body s k =
     ready_all (sem_queue (sems k s)) (k\<lparr>sems := (sems k)(s := (sems k s)\<lparr>sem_queue := []\<rparr>)\<rparr>)"

definition Condition_Signal_body :: "nat \<Rightarrow> Kst \<Rightarrow> Kst" where
  "Condition_Signal_body c k =
     (case conds k c of [] \<Rightarrow> k
      | t # ts \<Rightarrow> Scheduler_ReadyToRun t (k\<lparr>conds := (conds k)(c := ts)\<rparr>))"

definition Condition_Broadcast_body :: "nat \<Rightarrow> Kst \<Rightarrow> Kst" where
  "Condition_Broadcast_body c k = ready_all (conds k c) (k\<lparr>conds := (conds k)(c := [])\<rparr>)"

definition Lock_isHeldByCurrentThread :: "nat \<Rightarrow> Kst \<Rightarrow> bool" where
  "Lock_isHeldByCurrentThread l k \<longleftrightarrow> isHeld (locks k l) \<and> Some (currentThread k) = lk_owner (locks k l)"

text \<open>The routines as sequences of actions; \<open>ls\<close> is the lock's semaphore.\<close>

definition Semaphore_P :: "nat \<Rightarrow> Act list" where "Semaphore_P s = [A_off, A_P s, A_restore]"
definition Semaphore_V :: "nat \<Rightarrow> Act list" where "Semaphore_V s = [A_off, A_V s, A_restore]"
definition Semaphore_Destroy :: "nat \<Rightarrow> Act list" where "Semaphore_Destroy s = [A_off, A_destroy s, A_restore]"

definition Lock_Acquire :: "nat \<Rightarrow> nat \<Rightarrow> Act list" where
  "Lock_Acquire ls l = Semaphore_P ls @ [A_setHeld l]"

definition Lock_Release :: "nat \<Rightarrow> nat \<Rightarrow> Act list" where
  "Lock_Release ls l = Semaphore_V ls @ [A_clearHeld l]"

definition Condition_Wait :: "nat \<Rightarrow> nat \<Rightarrow> nat \<Rightarrow> Act list" where
  "Condition_Wait c ls l = [A_off] @ Lock_Release ls l @ [A_wait c] @ Lock_Acquire ls l @ [A_restore]"

definition Condition_Signal :: "nat \<Rightarrow> Act list" where "Condition_Signal c = [A_off, A_signal c, A_restore]"
definition Condition_Broadcast :: "nat \<Rightarrow> Act list" where "Condition_Broadcast c = [A_off, A_broadcast c, A_restore]"

definition Thread_Yield :: "Act list" where "Thread_Yield = [A_off, A_yield, A_restore]"
definition Thread_Finish :: "Act list" where "Thread_Finish = [A_finish]"
definition Thread_Fork :: "nat \<Rightarrow> Act list" where "Thread_Fork t = [A_off, A_ready t, A_restore]"

text \<open>\<open>ThreadRoot\<close>: enable interrupts, run the procedure, finish.\<close>

definition ThreadRoot :: "Act list \<Rightarrow> Act list" where
  "ThreadRoot func = A_enable # func @ Thread_Finish"

text \<open>The effect of one action of the current thread, already taken off its script.\<close>

definition exec_act :: "Act \<Rightarrow> Kst \<Rightarrow> Kst res" where
  "exec_act a k =
     (let cur = currentThread k in
      case a of
        A_off \<Rightarrow> Inr (k\<lparr>saved := (saved k)(cur := ilevel k # saved k cur), ilevel := IntOff\<rparr>)
      | A_restore \<Rightarrow> (case saved k cur of [] \<Rightarrow> Inl BadAccess
          | lv # lvs \<Rightarrow> Inr (k\<lparr>saved := (saved k)(cur := lvs), ilevel := lv\<rparr>))
      | A_enable \<Rightarrow> Inr (k\<lparr>ilevel := IntOn\<rparr>)
      | A_P s \<Rightarrow> Semaphore_P_body s k
      | A_V s \<Rightarrow> Inr (Semaphore_V_body s k)
      | A_destroy s \<Rightarrow> Inr (Semaphore_Destroy_body s k)
      | A_setHeld l \<Rightarrow> Inr (k\<lparr>locks := (locks k)(l := (locks k l)\<lparr>isHeld := True, lk_owner := Some cur\<rparr>)\<rparr>)
      | A_clearHeld l \<Rightarrow> Inr (k\<lparr>locks := (locks k)(l := (locks k l)\<lparr>isHeld := False, lk_owner := None\<rparr>)\<rparr>)
      | A_wait c \<Rightarrow> Thread_Sleep (k\<lparr>conds := (conds k)(c := conds k c @ [cur])\<rparr>)
      | A_signal c \<Rightarrow> Inr (Condition_Signal_body c k)
      | A_broadcast c \<Rightarrow> Inr (Condition_Broadcast_body c k)
      | A_yield \<Rightarrow> Inr (Thread_Yield_body k)
      | A_finish \<Rightarrow> Thread_Sleep (k\<lparr>ilevel := IntOff, threadToBeDestroyed := Some cur\<rparr>)
      | A_next \<Rightarrow> (case Scheduler_FindNextToRun k of
            (None, k1) \<Rightarrow> Inr (push_acts [A_next] k1)
          | (Some t, k1) \<Rightarrow> Inr (Scheduler_Run t k1))
      | A_resume \<Rightarrow> Scheduler_resume k
      | A_ready t \<Rightarrow> Inr (Scheduler_ReadyToRun t k)
      | A_user n \<Rightarrow> Inr k)"

definition pop_act :: "Kst \<Rightarrow> Kst" where
  "pop_act k = k\<lparr>script := (script k)(currentThread k := tl (script k (currentThread k)))\<rparr>"

text \<open>Interrupts come back on with this action, so \<open>OneTick\<close> runs after it.\<close>

definition enables :: "Act \<Rightarrow> Kst \<Rightarrow> bool" where
  "enables a k \<longleftrightarrow> ilevel k = IntOff \<and>
     (a = A_enable \<or> a = A_restore \<and> (\<exists>lvs. saved k (currentThread k) = IntOn # lvs))"

text \<open>
  \<open>D\<close> is the set of semaphores the device handlers post. The three ways in which \<open>OneTick\<close>
  and \<open>Idle\<close> interfere: a handler posts a semaphore at a tick, the timer makes the thread
  yield at a tick, a handler posts a semaphore while the processor idles.
\<close>

inductive kstep :: "nat set \<Rightarrow> Kst \<Rightarrow> Kst \<Rightarrow> bool" for D where
  act: "script k (currentThread k) = a # as \<Longrightarrow> exec_act a (pop_act k) = Inr k' \<Longrightarrow> kstep D k k'"
| tick_irq: "script k (currentThread k) = a # as \<Longrightarrow> enables a k \<Longrightarrow> s \<in> D \<Longrightarrow>
    kstep D k (Semaphore_V_body s k)"
| tick_yield: "script k (currentThread k) = a # as \<Longrightarrow> enables a k \<Longrightarrow>
    exec_act a (pop_act k) = Inr k' \<Longrightarrow> kstep D k (push_acts Thread_Yield k')"
| idle_irq: "script k (currentThread k) = A_next # as \<Longrightarrow> readyList k = [] \<Longrightarrow> s \<in> D \<Longrightarrow>
    kstep D k (Semaphore_V_body s k)"

inductive kreach :: "nat set \<Rightarrow> Kst \<Rightarrow> Kst \<Rightarrow> bool" for D k0 where
  init: "kreach D k0 k0"
| step: "kreach D k0 k \<Longrightarrow> kstep D k k' \<Longrightarrow> kreach D k0 k'"

subsection \<open>What the helpers leave alone\<close>

lemma upd_thread_simps [simp]:
  "script (upd_thread t f k) = script k" "sems (upd_thread t f k) = sems k"
  "currentThread (upd_thread t f k) = currentThread k" "readyList (upd_thread t f k) = readyList k"
  "conds (upd_thread t f k) = conds k" "locks (upd_thread t f k) = locks k"
  "ilevel (upd_thread t f k) = ilevel k" "saved (upd_thread t f k) = saved k"
  "kmach (upd_thread t f k) = kmach k" "threadToBeDestroyed (upd_thread t f k) = threadToBeDestroyed k"
  "threads (upd_thread t f k) u = (if u = t then map_option f (threads k t) else threads k u)"
  by (simp_all add: upd_thread_def)

lemma Thread_setStatus_simps [simp]:
  "script (Thread_setStatus t st k) = script k" "sems (Thread_setStatus t st k) = sems k"
  "currentThread (Thread_setStatus t st k) = currentThread k" "readyList (Thread_setStatus t st k) = readyList k"
  "conds (Thread_setStatus t st k) = conds k" "locks (Thread_setStatus t st k) = locks k"
  "ilevel (Thread_setStatus t st k) = ilevel k" "saved (Thread_setStatus t st k) = saved k"
  "kmach (Thread_setStatus t st k) = kmach k"
  "threadToBeDestroyed (Thread_setStatus t st k) = threadToBeDestroyed k"
  by (simp_all add: Thread_setStatus_def)

lemma ReadyToRun_simps [simp]:
  "script (Scheduler_ReadyToRun t k) = script k" "sems (Scheduler_ReadyToRun t k) = sems k"
  "currentThread (Scheduler_ReadyToRun t k) = currentThread k"
  "readyList (Scheduler_ReadyToRun t k) = readyList k @ [t]"
  "conds (Scheduler_ReadyToRun t k) = conds k" "locks (Scheduler_ReadyToRun t k) = locks k"
  "ilevel (Scheduler_ReadyToRun t k) = ilevel k" "saved (Scheduler_ReadyToRun t k) = saved k"
  "kmach (Scheduler_ReadyToRun t k) = kmach k"
  "threadToBeDestroyed (Scheduler_ReadyToRun t k) = threadToBeDestroyed k"
  by (simp_all add: Scheduler_ReadyToRun_def Let_def)

lemma ready_all_simps [simp]:
  "script (ready_all ts k) = script k" "sems (ready_all ts k) = sems k"
  "currentThread (ready_all ts k) = currentThread k" "readyList (ready_all ts k) = readyList k @ ts"
  "conds (ready_all ts k) = conds k" "locks (ready_all ts k) = locks k"
  "ilevel (ready_all ts k) = ilevel k" "saved (ready_all ts k) = saved k"
  "threadToBeDestroyed (ready_all ts k) = threadToBeDestroyed k"
  unfolding ready_all_def by (induction ts arbitrary: k) simp_all

lemma SaveUserState_simps [simp]:
  "script (Thread_SaveUserState t k) = script k" "sems (Thread_SaveUserState t k) = sems k"
  "currentThread (Thread_SaveUserState t k) = currentThread k"
  "readyList (Thread_SaveUserState t k) = readyList k" "conds (Thread_SaveUserState t k) = conds k"
  "locks (Thread_SaveUserState t k) = locks k" "kmach (Thread_SaveUserState t k) = kmach k"
  "ilevel (Thread_SaveUserState t k) = ilevel k" "saved (Thread_SaveUserState t k) = saved k"
  "threadToBeDestroyed (Thread_SaveUserState t k) = threadToBeDestroyed k"
  by (simp_all add: Thread_SaveUserState_def)

lemma Scheduler_Run_simps [simp]:
  "sems (Scheduler_Run t k) = sems k" "currentThread (Scheduler_Run t k) = t"
  "script (Scheduler_Run t k) = (script k)(currentThread k := A_resume # script k (currentThread k))"
  "readyList (Scheduler_Run t k) = readyList k" "conds (Scheduler_Run t k) = conds k"
  "locks (Scheduler_Run t k) = locks k" "kmach (Scheduler_Run t k) = kmach k"
  "ilevel (Scheduler_Run t k) = ilevel k" "saved (Scheduler_Run t k) = saved k"
  "threadToBeDestroyed (Scheduler_Run t k) = threadToBeDestroyed k"
  by (auto simp: Scheduler_Run_def Let_def split: option.split)

lemma push_acts_simps [simp]:
  "sems (push_acts as k) = sems k" "currentThread (push_acts as k) = currentThread k"
  "readyList (push_acts as k) = readyList k" "conds (push_acts as k) = conds k"
  "locks (push_acts as k) = locks k" "threads (push_acts as k) = threads k"
  "ilevel (push_acts as k) = ilevel k" "saved (push_acts as k) = saved k" "kmach (push_acts as k) = kmach k"
  "script (push_acts as k) = (script k)(currentThread k := as @ script k (currentThread k))"
  "threadToBeDestroyed (push_acts as k) = threadToBeDestroyed k"
  by (simp_all add: push_acts_def)

lemma Semaphore_V_body_simps [simp]:
  "script (Semaphore_V_body s k) = script k" "currentThread (Semaphore_V_body s k) = currentThread k"
  "sem_value (sems (Semaphore_V_body s k) r) = sem_value (sems k r) + (if r = s then 1 else 0)"
  "conds (Semaphore_V_body s k) = conds k" "locks (Semaphore_V_body s k) = locks k"
  by (auto simp: Semaphore_V_body_def Let_def split: list.split)

lemma Scheduler_resume_simps:
  assumes "Scheduler_resume k = Inr k'"
  shows "script k' = script k" "sems k' = sems k" "currentThread k' = currentThread k"
    "readyList k' = readyList k" "conds k' = conds k" "locks k' = locks k"
    "threads k' = threads k \<or> (\<exists>t. t \<noteq> currentThread k \<and> threads k' = (threads k)(t := None))"
  using assms by (auto simp: Scheduler_resume_def AddrSpace_RestoreState_def Thread_RestoreUserState_def
      res_simps split: option.splits)

subsection \<open>Mutual exclusion\<close>

text \<open>
  The script brackets the semaphore \<open>s\<close>: it takes and posts it in turn, beginning with a
  post if the thread holds it (\<open>h\<close>), and ends without it.
\<close>

fun brackets :: "nat \<Rightarrow> bool \<Rightarrow> Act list \<Rightarrow> bool" where
  "brackets s h [] = (\<not> h)"
| "brackets s h (a # as) =
     (if a = A_P s then \<not> h \<and> brackets s True as
      else if a = A_V s then h \<and> brackets s False as
      else brackets s h as)"

lemma brackets_exclusive: "brackets s True as \<Longrightarrow> \<not> brackets s False as"
  by (induction as) (auto split: if_splits)

text \<open>A thread holds the lock when the next thing its script does with the semaphore is to post it.\<close>

definition holds :: "nat \<Rightarrow> Kst \<Rightarrow> nat set" where
  "holds s k = {t. brackets s True (script k t)}"

definition mutex_inv :: "nat \<Rightarrow> Kst \<Rightarrow> bool" where
  "mutex_inv s k \<longleftrightarrow> (\<forall>t. brackets s True (script k t) \<or> brackets s False (script k t))
     \<and> finite (holds s k) \<and> 0 \<le> sem_value (sems k s)
     \<and> sem_value (sems k s) + int (card (holds s k)) = 1"

text \<open>The steps that do not touch the semaphore.\<close>

lemma mutex_inv_same:
  assumes "mutex_inv s k" "\<And>t h. brackets s h (script k' t) = brackets s h (script k t)"
    "sem_value (sems k' s) = sem_value (sems k s)"
  shows "mutex_inv s k'"
  using assms by (simp add: mutex_inv_def holds_def)

lemma mutex_inv_P:
  assumes inv: "mutex_inv s k" and sc: "script k t0 = A_P s # as" and "0 < sem_value (sems k s)"
    and sc': "script k' = (script k)(t0 := as)" and v: "sem_value (sems k' s) = sem_value (sems k s) - 1"
  shows "mutex_inv s k'"
proof -
  from inv sc have "brackets s True as" "t0 \<notin> holds s k"
    by (auto simp: mutex_inv_def holds_def dest: spec[of _ t0])
  then have "holds s k' = insert t0 (holds s k)" by (auto simp: holds_def sc')
  moreover have "brackets s True (script k' t) \<or> brackets s False (script k' t)" for t
    using inv \<open>brackets s True as\<close> by (auto simp: mutex_inv_def sc')
  ultimately show ?thesis using inv \<open>t0 \<notin> holds s k\<close> assms(3) v by (auto simp: mutex_inv_def)
qed

lemma mutex_inv_V:
  assumes inv: "mutex_inv s k" and sc: "script k t0 = A_V s # as"
    and sc': "script k' = (script k)(t0 := as)" and v: "sem_value (sems k' s) = sem_value (sems k s) + 1"
  shows "mutex_inv s k'"
proof -
  from inv sc have "brackets s False as" "t0 \<in> holds s k"
    by (auto simp: mutex_inv_def holds_def dest: spec[of _ t0])
  then have "holds s k' = holds s k - {t0}"
    using brackets_exclusive by (auto simp: holds_def sc')
  moreover have "brackets s True (script k' t) \<or> brackets s False (script k' t)" for t
    using inv \<open>brackets s False as\<close> by (auto simp: mutex_inv_def sc')
  moreover have "card (holds s k) = Suc (card (holds s k - {t0}))"
    using inv \<open>t0 \<in> holds s k\<close> by (metis card_Suc_Diff1 mutex_inv_def)
  ultimately show ?thesis using inv v by (auto simp: mutex_inv_def)
qed

lemma pop_act_simps [simp]:
  "currentThread (pop_act k) = currentThread k" "sems (pop_act k) = sems k"
  "script (pop_act k) = (script k)(currentThread k := tl (script k (currentThread k)))"
  "readyList (pop_act k) = readyList k" "threads (pop_act k) = threads k" "conds (pop_act k) = conds k"
  "locks (pop_act k) = locks k" "saved (pop_act k) = saved k" "ilevel (pop_act k) = ilevel k"
  "threadToBeDestroyed (pop_act k) = threadToBeDestroyed k" "kmach (pop_act k) = kmach k"
  by (simp_all add: pop_act_def)

lemma exec_act_mutex:
  assumes inv: "mutex_inv s k" and sc: "script k (currentThread k) = a # as"
    and ex: "exec_act a (pop_act k) = Inr k'"
  shows "mutex_inv s k'"
proof -
  let ?c = "currentThread k"
  have nonneg: "0 \<le> sem_value (sems k s)" using inv by (simp add: mutex_inv_def)
  consider (P) "a = A_P s" "sem_value (sems k s) \<noteq> 0" | (V) "a = A_V s"
    | (other) "a \<noteq> A_V s" "a = A_P s \<longrightarrow> sem_value (sems k s) = 0" by blast
  then show ?thesis
  proof cases
    case P
    then show ?thesis using ex sc nonneg
      by (intro mutex_inv_P[OF inv, of ?c as]) (auto simp: exec_act_def Semaphore_P_body_def Let_def)
  next
    case V
    then show ?thesis using ex sc
      by (intro mutex_inv_V[OF inv, of ?c as]) (auto simp: exec_act_def)
  next
    case other
    have "brackets s h (script k' t) = brackets s h (script k t)" for t h
      using ex sc other
      by (cases a) (auto simp: exec_act_def Let_def Semaphore_P_body_def Thread_Sleep_def res_simps
          Semaphore_Destroy_body_def Condition_Signal_body_def Condition_Broadcast_body_def
          Thread_Yield_body_def Scheduler_FindNextToRun_def Scheduler_resume_simps
          split: list.splits if_splits)
    moreover have "sem_value (sems k' s) = sem_value (sems k s)"
      using ex sc other
      by (cases a) (auto simp: exec_act_def Let_def Semaphore_P_body_def Thread_Sleep_def res_simps
          Semaphore_Destroy_body_def Condition_Signal_body_def Condition_Broadcast_body_def
          Thread_Yield_body_def Scheduler_FindNextToRun_def Scheduler_resume_simps
          split: list.splits if_splits)
    ultimately show ?thesis by (intro mutex_inv_same[OF inv])
  qed
qed

lemma kstep_mutex:
  assumes "kstep D k k'" "s \<notin> D" "mutex_inv s k"
  shows "mutex_inv s k'"
  using assms
proof cases
  case (act a as)
  then show ?thesis using exec_act_mutex assms(3) by blast
next
  case (tick_irq a as s')
  then show ?thesis using assms(2) by (intro mutex_inv_same[OF assms(3)]) auto
next
  case (tick_yield a as k1)
  have "mutex_inv s k1" using exec_act_mutex[OF assms(3) tick_yield(2,4)] .
  then show ?thesis unfolding tick_yield(1) by (rule mutex_inv_same) (simp_all add: Thread_Yield_def)
next
  case (idle_irq as s')
  then show ?thesis using assms(2) by (intro mutex_inv_same[OF assms(3)]) auto
qed

lemma kreach_mutex:
  assumes "kreach D k0 k" "s \<notin> D" "mutex_inv s k0"
  shows "mutex_inv s k"
  using assms(1) by induction (use assms kstep_mutex in \<open>blast+\<close>)

lemma mutex_inv_unique: "mutex_inv s k \<Longrightarrow> t \<in> holds s k \<Longrightarrow> u \<in> holds s k \<Longrightarrow> t = u"
  using card_le_Suc0_iff_eq[of "holds s k"] by (simp add: mutex_inv_def)

subsection \<open>Queues and states of threads\<close>

definition status_of :: "Kst \<Rightarrow> nat \<Rightarrow> ThreadStatus option" where
  "status_of k t = map_option th_status (threads k t)"

text \<open>All the queues a thread can wait in: those of the semaphores and of the conditions.\<close>

definition waitq :: "Kst \<Rightarrow> nat + nat \<Rightarrow> nat list" where
  "waitq k q = (case q of Inl s \<Rightarrow> sem_queue (sems k s) | Inr c \<Rightarrow> conds k c)"

definition queues_ok :: "(nat \<Rightarrow> ThreadStatus option) \<Rightarrow> nat list \<Rightarrow> (nat + nat \<Rightarrow> nat list) \<Rightarrow> bool" where
  "queues_ok st rd wq \<longleftrightarrow> distinct rd \<and> (\<forall>t \<in> set rd. st t = Some READY)
     \<and> (\<forall>q. distinct (wq q) \<and> (\<forall>t \<in> set (wq q). st t = Some BLOCKED))
     \<and> (\<forall>q q' t. t \<in> set (wq q) \<longrightarrow> t \<in> set (wq q') \<longrightarrow> q = q')"

lemma queues_wait: "queues_ok st rd wq \<Longrightarrow> st c = Some RUNNING \<Longrightarrow>
    queues_ok (st(c \<mapsto> BLOCKED)) rd (wq(q := wq q @ [c]))"
  unfolding queues_ok_def by (auto split: if_splits)

lemma queues_block: "queues_ok st rd wq \<Longrightarrow> st c = Some RUNNING \<Longrightarrow> queues_ok (st(c \<mapsto> BLOCKED)) rd wq"
  unfolding queues_ok_def by auto

lemma queues_wake: "queues_ok st rd wq \<Longrightarrow> wq q = t # ts \<Longrightarrow>
    queues_ok (st(t \<mapsto> READY)) (rd @ [t]) (wq(q := ts))"
proof -
  assume ok: "queues_ok st rd wq" and q: "wq q = t # ts"
  then have m: "t \<notin> set ts" "distinct ts" "\<And>u. u \<in> set (t # ts) \<Longrightarrow> st u = Some BLOCKED"
    unfolding queues_ok_def by (metis distinct.simps(2))+
  have o: "t \<notin> set (wq q')" if "q' \<noteq> q" for q'
    using ok q that unfolding queues_ok_def by (metis list.set_intros(1))
  have "t \<notin> set rd" using ok m(3)[of t] unfolding queues_ok_def by auto
  then show ?thesis using ok q m o unfolding queues_ok_def by (auto split: if_splits)
qed

lemma queues_ready: "queues_ok st rd wq \<Longrightarrow> st t = Some RUNNING \<or> st t = Some JUST_CREATED \<Longrightarrow>
    queues_ok (st(t \<mapsto> READY)) (rd @ [t]) wq"
  unfolding queues_ok_def by auto

lemma queues_run: "queues_ok st (t # rd) wq \<Longrightarrow> queues_ok (st(t \<mapsto> RUNNING)) rd wq"
  unfolding queues_ok_def by auto

lemma queues_delete: "queues_ok st rd wq \<Longrightarrow> st t = Some BLOCKED \<Longrightarrow> (\<And>q. t \<notin> set (wq q)) \<Longrightarrow>
    queues_ok (st(t := None)) rd wq"
  unfolding queues_ok_def by auto

lemma status_of_simps [simp]:
  "status_of (Scheduler_ReadyToRun t k) =
     (if threads k t = None then status_of k else (status_of k)(t \<mapsto> READY))"
  "status_of (Thread_setStatus t st k) =
     (if threads k t = None then status_of k else (status_of k)(t \<mapsto> st))"
  "status_of (push_acts as k) = status_of k" "status_of (pop_act k) = status_of k"
  "status_of (Thread_SaveUserState t k) = status_of k"
  by (auto simp: status_of_def Scheduler_ReadyToRun_def Thread_setStatus_def Thread_SaveUserState_def Let_def
      fun_eq_iff option.map_comp comp_def)

lemma status_of_upd [simp]:
  "status_of (k\<lparr>sems := x1\<rparr>) = status_of k" "status_of (k\<lparr>conds := x2\<rparr>) = status_of k"
  "status_of (k\<lparr>locks := x3\<rparr>) = status_of k" "status_of (k\<lparr>saved := x4\<rparr>) = status_of k"
  "status_of (k\<lparr>ilevel := x5\<rparr>) = status_of k" "status_of (k\<lparr>readyList := x6\<rparr>) = status_of k"
  "status_of (k\<lparr>script := x7\<rparr>) = status_of k" "status_of (k\<lparr>threadToBeDestroyed := x8\<rparr>) = status_of k"
  "status_of (k\<lparr>currentThread := x9\<rparr>) = status_of k" "status_of (k\<lparr>kmach := x10\<rparr>) = status_of k"
  by (simp_all add: status_of_def fun_eq_iff)

lemma waitq_upd [simp]:
  "waitq (k\<lparr>threads := x1\<rparr>) = waitq k" "waitq (k\<lparr>locks := x3\<rparr>) = waitq k"
  "waitq (k\<lparr>saved := x4\<rparr>) = waitq k" "waitq (k\<lparr>ilevel := x5\<rparr>) = waitq k"
  "waitq (k\<lparr>readyList := x6\<rparr>) = waitq k" "waitq (k\<lparr>script := x7\<rparr>) = waitq k"
  "waitq (k\<lparr>threadToBeDestroyed := x8\<rparr>) = waitq k" "waitq (k\<lparr>currentThread := x9\<rparr>) = waitq k"
  "waitq (k\<lparr>kmach := x10\<rparr>) = waitq k"
  "waitq (k\<lparr>sems := (sems k)(s := sem)\<rparr>) = (waitq k)(Inl s := sem_queue sem)"
  "waitq (k\<lparr>conds := (conds k)(c := ts)\<rparr>) = (waitq k)(Inr c := ts)"
  by (auto simp: waitq_def fun_eq_iff split: sum.split)

lemma waitq_self [simp]: "(waitq k)(Inl s := sem_queue (sems k s)) = waitq k" "waitq k (Inl s) = sem_queue (sems k s)"
  "waitq k (Inr c) = conds k c"
  by (auto simp: waitq_def fun_eq_iff)

lemma status_of_Run [simp]: "status_of (Scheduler_Run t k) =
     (if threads k t = None then status_of k else (status_of k)(t \<mapsto> RUNNING))"
  by (auto simp: Scheduler_Run_def Let_def status_of_def Thread_setStatus_def Thread_SaveUserState_def
      fun_eq_iff split: option.splits)

lemma waitq_simps [simp]:
  "waitq (Scheduler_ReadyToRun t k) = waitq k" "waitq (Thread_setStatus t st k) = waitq k"
  "waitq (push_acts as k) = waitq k" "waitq (pop_act k) = waitq k" "waitq (Scheduler_Run t k) = waitq k"
  "waitq (Thread_SaveUserState t k) = waitq k"
  by (simp_all add: waitq_def fun_eq_iff split: sum.split)

lemma status_of_ready_all [simp]:
  "\<forall>t \<in> set ts. threads k t \<noteq> None \<Longrightarrow>
   status_of (ready_all ts k) = (\<lambda>u. if u \<in> set ts then Some READY else status_of k u)"
  unfolding ready_all_def
proof (induction ts arbitrary: k)
  case (Cons t ts)
  then have "threads (Scheduler_ReadyToRun t k) u \<noteq> None" if "u \<in> set ts" for u
    using that by (auto simp: Scheduler_ReadyToRun_def Thread_setStatus_def Let_def)
  with Cons show ?case by (auto simp: fun_eq_iff)
qed simp

lemma waitq_ready_all [simp]: "waitq (ready_all ts k) = waitq k"
  by (simp add: waitq_def fun_eq_iff split: sum.split)

lemma queues_wake_all: "queues_ok st rd wq \<Longrightarrow>
    queues_ok (\<lambda>u. if u \<in> set (wq q) then Some READY else st u) (rd @ wq q) (wq(q := []))"
proof -
  have "queues_ok st rd wq \<Longrightarrow> wq q = ts \<Longrightarrow>
      queues_ok (\<lambda>u. if u \<in> set ts then Some READY else st u) (rd @ ts) (wq(q := []))" for ts
  proof (induction ts arbitrary: st rd wq)
    case Nil
    then show ?case by (simp add: fun_upd_idem)
  next
    case (Cons t ts)
    from Cons.IH[OF queues_wake[OF Cons.prems] fun_upd_same]
    have "queues_ok (\<lambda>u. if u \<in> set ts then Some READY else (st(t \<mapsto> READY)) u) ((rd @ [t]) @ ts) (wq(q := []))"
      by (simp only: fun_upd_upd)
    moreover have "(\<lambda>u. if u \<in> set ts then Some READY else (st(t \<mapsto> READY)) u)
        = (\<lambda>u. if u \<in> set (t # ts) then Some READY else st u)" by auto
    ultimately show ?case by (simp only: append_assoc append.simps)
  qed
  then show "queues_ok st rd wq \<Longrightarrow> ?thesis" by blast
qed

text \<open>The running thread, or the thread that idles in \<open>Sleep\<close>.\<close>

definition current_ok :: "Kst \<Rightarrow> bool" where
  "current_ok k \<longleftrightarrow> status_of k (currentThread k) = Some RUNNING
     \<or> (\<exists>as. script k (currentThread k) = A_next # as)
        \<and> status_of k (currentThread k) \<in> {Some BLOCKED, Some READY}"

text \<open>The threads still to be forked are new, and are forked once.\<close>

definition forks_ok :: "Kst \<Rightarrow> bool" where
  "forks_ok k \<longleftrightarrow> (\<forall>t u. A_ready t \<in> set (script k u) \<longrightarrow> status_of k t = Some JUST_CREATED
     \<and> count_list (script k u) (A_ready t) = 1 \<and> (\<forall>u'. A_ready t \<in> set (script k u') \<longrightarrow> u' = u))"

definition destroy_ok :: "Kst \<Rightarrow> bool" where
  "destroy_ok k \<longleftrightarrow> (\<forall>t. threadToBeDestroyed k = Some t \<longrightarrow>
     status_of k t = Some BLOCKED \<and> (\<forall>q. t \<notin> set (waitq k q)))"

definition sched_ok :: "Kst \<Rightarrow> bool" where
  "sched_ok k \<longleftrightarrow> queues_ok (status_of k) (readyList k) (waitq k) \<and> current_ok k \<and> forks_ok k \<and> destroy_ok k"

lemma status_threads: "status_of k t = Some st \<Longrightarrow> threads k t \<noteq> None"
  by (auto simp: status_of_def)

lemma forks_ok_shrink:
  assumes "forks_ok k" "\<And>u. \<exists>pre post. script k u = pre @ post \<and> (\<exists>xs. script k' u = xs @ post \<and> (\<forall>t. A_ready t \<notin> set xs))"
    "\<And>t u. A_ready t \<in> set (script k' u) \<Longrightarrow> status_of k' t = status_of k t"
  shows "forks_ok k'"
  unfolding forks_ok_def
proof (intro allI impI)
  fix t u
  assume m: "A_ready t \<in> set (script k' u)"
  have sub: "A_ready v \<in> set (script k' w) \<Longrightarrow> A_ready v \<in> set (script k w)" for v w
    using assms(2)[of w] by auto
  from assms(2)[of u] obtain pre post xs where s: "script k u = pre @ post" "script k' u = xs @ post"
    "\<forall>t. A_ready t \<notin> set xs" by blast
  have c0: "count_list xs (A_ready t) = 0" using s(3) by (simp add: count_list_0_iff)
  have "count_list post (A_ready t) \<noteq> 0" using m s by (auto simp: count_list_0_iff)
  moreover have "count_list (script k u) (A_ready t) = 1" using assms(1) sub[OF m] by (simp add: forks_ok_def)
  ultimately have "count_list (script k' u) (A_ready t) = 1" using s c0 by simp
  then show "status_of k' t = Some JUST_CREATED \<and> count_list (script k' u) (A_ready t) = 1
      \<and> (\<forall>u'. A_ready t \<in> set (script k' u') \<longrightarrow> u' = u)"
    using assms(1,3) sub[OF m] sub m unfolding forks_ok_def by metis
qed

definition running :: "Kst \<Rightarrow> bool" where
  "running k \<longleftrightarrow> sched_ok k \<and> status_of k (currentThread k) = Some RUNNING"

lemma running_sched: "running k \<Longrightarrow> sched_ok k"
  by (simp add: running_def)

text \<open>Fields that scheduling does not look at.\<close>

lemma sched_ok_cong:
  assumes "status_of k' = status_of k" "readyList k' = readyList k" "waitq k' = waitq k"
    "currentThread k' = currentThread k" "threadToBeDestroyed k' = threadToBeDestroyed k" "script k' = script k"
  shows "sched_ok k' = sched_ok k" "running k' = running k"
  using assms by (simp_all add: sched_ok_def current_ok_def forks_ok_def destroy_ok_def running_def)

lemma forks_ok_push: "forks_ok k \<Longrightarrow> (\<And>t. A_ready t \<notin> set as) \<Longrightarrow> status_of k' = status_of k \<Longrightarrow>
    script k' = (script k)(c := as @ script k c) \<Longrightarrow> forks_ok k'"
  by (erule forks_ok_shrink) (auto intro: exI[of _ "[]"])

lemma pop_running:
  assumes "sched_ok k" "script k (currentThread k) = a # as" "a \<noteq> A_next" "\<And>t. a \<noteq> A_ready t"
  shows "running (pop_act k)"
proof -
  have "forks_ok (pop_act k)"
    by (rule forks_ok_shrink[of k]) (use assms in \<open>auto simp: sched_ok_def intro: exI[of _ "[]"] exI[of _ "[a]"]\<close>)
  moreover have "status_of k (currentThread k) = Some RUNNING"
    using assms by (auto simp: sched_ok_def current_ok_def)
  ultimately show ?thesis using assms by (simp add: running_def sched_ok_def current_ok_def destroy_ok_def)
qed

lemma push_running: "running k \<Longrightarrow> (\<And>t. A_ready t \<notin> set as) \<Longrightarrow> running (push_acts as k)"
  using forks_ok_push[of k as "push_acts as k" "currentThread k"]
  by (auto simp: running_def sched_ok_def current_ok_def destroy_ok_def)

lemma wake_sched:
  assumes "sched_ok k" "waitq k q = t # ts"
    and k': "status_of k' = (status_of k)(t \<mapsto> READY)" "readyList k' = readyList k @ [t]"
      "waitq k' = (waitq k)(q := ts)" "currentThread k' = currentThread k" "script k' = script k"
      "threadToBeDestroyed k' = threadToBeDestroyed k"
  shows "sched_ok k'" "running k \<Longrightarrow> running k'"
proof -
  have b: "status_of k t = Some BLOCKED"
    using assms(1,2) by (auto simp: sched_ok_def queues_ok_def dest: spec[of _ q])
  have "queues_ok (status_of k') (readyList k') (waitq k')"
    unfolding k' by (rule queues_wake) (use assms in \<open>auto simp: sched_ok_def\<close>)
  moreover have "current_ok k'" using assms(1) b by (auto simp: sched_ok_def current_ok_def k')
  moreover have "forks_ok k'" using assms(1) b unfolding sched_ok_def forks_ok_def k' by auto
  moreover have "destroy_ok k'" using assms(1,2) by (auto simp: sched_ok_def destroy_ok_def k')
      (metis list.set_intros)+
  ultimately show "sched_ok k'" by (simp add: sched_ok_def)
  then show "running k \<Longrightarrow> running k'" using b by (auto simp: running_def k')
qed

lemma V_sched:
  assumes "sched_ok k"
  shows "sched_ok (Semaphore_V_body s k)" "running k \<Longrightarrow> running (Semaphore_V_body s k)"
proof -
  have "sched_ok (Semaphore_V_body s k) \<and> (running k \<longrightarrow> running (Semaphore_V_body s k))"
  proof (cases "sem_queue (sems k s)")
    case Nil
    then have "(waitq k)(Inl s := []) = waitq k" by (metis waitq_self(1))
    with Nil sched_ok_cong[of "Semaphore_V_body s k" k] assms show ?thesis
      by (simp add: Semaphore_V_body_def Let_def)
  next
    case (Cons t ts)
    then have q: "waitq k (Inl s) = t # ts" by simp
    then obtain th where "threads k t = Some th" using assms status_threads
      by (fastforce simp: sched_ok_def queues_ok_def dest: spec[of _ "Inl s"])
    then show ?thesis using wake_sched[OF assms q, of "Semaphore_V_body s k"] Cons
      by (simp add: Semaphore_V_body_def Let_def)
  qed
  then show "sched_ok (Semaphore_V_body s k)" "running k \<Longrightarrow> running (Semaphore_V_body s k)" by auto
qed

lemma wait_sched:
  assumes "running k"
    and k': "status_of k' = (status_of k)(currentThread k \<mapsto> BLOCKED)" "readyList k' = readyList k"
      "waitq k' = (waitq k)(q := waitq k q @ [currentThread k]) \<or> waitq k' = waitq k"
      "currentThread k' = currentThread k"
      "script k' = (script k)(currentThread k := (A_next # as) @ script k (currentThread k))"
      "\<And>t. A_ready t \<notin> set as"
    and d: "threadToBeDestroyed k' = threadToBeDestroyed k
      \<or> threadToBeDestroyed k' = Some (currentThread k) \<and> waitq k' = waitq k"
  shows "sched_ok k'"
proof -
  let ?c = "currentThread k"
  have r: "status_of k ?c = Some RUNNING" "queues_ok (status_of k) (readyList k) (waitq k)" "forks_ok k"
    "destroy_ok k" using assms(1) by (auto simp: running_def sched_ok_def)
  have nq: "?c \<notin> set (waitq k p)" for p using r(1,2) by (auto simp: queues_ok_def)
  have "queues_ok (status_of k') (readyList k') (waitq k')"
    using k'(3) queues_wait[OF r(2,1), of q] queues_block[OF r(2,1)] by (auto simp: k'(1,2))
  moreover have "current_ok k'" by (simp add: current_ok_def k')
  moreover have "forks_ok k'"
  proof (rule forks_ok_shrink[OF r(3)])
    fix u
    show "\<exists>pre post. script k u = pre @ post \<and> (\<exists>xs. script k' u = xs @ post \<and> (\<forall>t. A_ready t \<notin> set xs))"
      by (rule exI[of _ "[]"], rule exI[of _ "script k u"])
        (use k'(6) in \<open>auto simp: k'(5) intro: exI[of _ "[]"] exI[of _ "A_next # as"]\<close>)
  next
    fix t u
    assume "A_ready t \<in> set (script k' u)"
    then have "A_ready t \<in> set (script k u)" using k'(6) by (auto simp: k'(5) split: if_splits)
    then have "status_of k t = Some JUST_CREATED" using r(3) by (simp add: forks_ok_def)
    then show "status_of k' t = status_of k t" using r(1) by (auto simp: k'(1))
  qed
  moreover have "destroy_ok k'" using r(1,4) d k'(3) nq by (auto simp: destroy_ok_def k'(1) split: if_splits)
  ultimately show ?thesis by (simp add: sched_ok_def)
qed

lemma wake_all_sched:
  assumes "running k"
    and k': "status_of k' = (\<lambda>u. if u \<in> set (waitq k q) then Some READY else status_of k u)"
      "readyList k' = readyList k @ waitq k q" "waitq k' = (waitq k)(q := [])"
      "currentThread k' = currentThread k" "script k' = script k"
      "threadToBeDestroyed k' = threadToBeDestroyed k"
  shows "sched_ok k'"
proof -
  have r: "status_of k (currentThread k) = Some RUNNING" "queues_ok (status_of k) (readyList k) (waitq k)"
    "forks_ok k" "destroy_ok k" using assms(1) by (auto simp: running_def sched_ok_def)
  have b: "status_of k t = Some BLOCKED" if "t \<in> set (waitq k q)" for t
    using r(2) that by (auto simp: queues_ok_def)
  have "queues_ok (status_of k') (readyList k') (waitq k')" unfolding k' by (rule queues_wake_all[OF r(2)])
  moreover have "current_ok k'" using r(1) b[of "currentThread k"] by (auto simp: current_ok_def k')
  moreover have "forks_ok k'"
  proof (rule forks_ok_shrink[OF r(3)])
    fix t u
    assume "A_ready t \<in> set (script k' u)"
    then have "status_of k t = Some JUST_CREATED" using r(3) unfolding forks_ok_def k' by blast
    then show "status_of k' t = status_of k t" using b[of t] by (auto simp: k')
  qed (auto simp: k' intro: exI[of _ "[]"])
  moreover have "destroy_ok k'" using r(4) by (auto simp: destroy_ok_def k')
  ultimately show ?thesis by (simp add: sched_ok_def)
qed

lemma waitq_threads:
  assumes "sched_ok k" "t \<in> set (waitq k q)"
  shows "threads k t \<noteq> None"
  using assms status_threads by (auto simp: sched_ok_def queues_ok_def)

lemma run_sched:
  assumes ok: "queues_ok (status_of k) (t # readyList k) (waitq k)" "forks_ok k" "destroy_ok k"
  shows "running (Scheduler_Run t k)"
proof -
  have rt: "status_of k t = Some READY" using ok(1) by (simp add: queues_ok_def)
  then obtain th where ex: "threads k t = Some th" using status_threads by blast
  have "queues_ok (status_of (Scheduler_Run t k)) (readyList k) (waitq k)"
    using queues_run[OF ok(1)] ex by simp
  moreover have "forks_ok (Scheduler_Run t k)"
  proof (rule forks_ok_shrink[OF ok(2)])
    fix u
    show "\<exists>pre post. script k u = pre @ post \<and>
        (\<exists>xs. script (Scheduler_Run t k) u = xs @ post \<and> (\<forall>t. A_ready t \<notin> set xs))"
      by (rule exI[of _ "[]"], rule exI[of _ "script k u"]) (auto intro: exI[of _ "[]"] exI[of _ "[A_resume]"])
  next
    fix v u
    assume "A_ready v \<in> set (script (Scheduler_Run t k) u)"
    then have "A_ready v \<in> set (script k u)" by (auto split: if_splits)
    then have "status_of k v = Some JUST_CREATED" using ok(2) by (simp add: forks_ok_def)
    then show "status_of (Scheduler_Run t k) v = status_of k v" using rt by auto
  qed
  moreover have "destroy_ok (Scheduler_Run t k)" using ok(3) rt by (auto simp: destroy_ok_def)
  ultimately show ?thesis using ex by (simp add: running_def sched_ok_def current_ok_def)
qed

lemma yield_sched:
  assumes "running k"
  shows "running (Thread_Yield_body k)"
proof (cases "readyList k")
  case Nil
  then show ?thesis using assms by (simp add: Thread_Yield_body_def Scheduler_FindNextToRun_def)
next
  case (Cons t ts)
  let ?c = "currentThread k"
  have r: "status_of k ?c = Some RUNNING" "queues_ok (status_of k) (readyList k) (waitq k)" "forks_ok k"
    "destroy_ok k" using assms by (auto simp: running_def sched_ok_def)
  obtain th where th: "threads k ?c = Some th" using status_threads[OF r(1)] by auto
  let ?k = "Scheduler_ReadyToRun ?c (k\<lparr>readyList := ts\<rparr>)"
  have "queues_ok (status_of ?k) (t # readyList ?k) (waitq ?k)"
    using queues_ready[OF r(2), of ?c] r(1) Cons th by simp
  moreover have "forks_ok ?k" using r(1,3) th unfolding forks_ok_def by auto
  moreover have "destroy_ok ?k" using r(1,4) th by (auto simp: destroy_ok_def)
  ultimately have "running (Scheduler_Run t ?k)" by (rule run_sched)
  then show ?thesis using Cons by (simp add: Thread_Yield_body_def Scheduler_FindNextToRun_def)
qed

lemma P_sched:
  assumes "running k" "Semaphore_P_body s k = Inr k'"
  shows "sched_ok k'"
proof (cases "sem_value (sems k s) = 0")
  case True
  obtain th where th: "threads k (currentThread k) = Some th"
    using assms(1) status_threads unfolding running_def by blast
  from True assms(2) have k': "ilevel k = IntOff" "k' = push_acts [A_next] (Thread_setStatus (currentThread k) BLOCKED (push_acts [A_P s]
      (k\<lparr>sems := (sems k)(s := (sems k s)\<lparr>sem_queue := sem_queue (sems k s) @ [currentThread k]\<rparr>)\<rparr>)))"
    by (auto simp: Semaphore_P_body_def Thread_Sleep_def Let_def res_simps)
  show ?thesis unfolding k'
    by (rule wait_sched[OF assms(1), where q = "Inl s" and as = "[A_P s]"]) (use th in auto)
next
  case False
  then have "k' = k\<lparr>sems := (sems k)(s := (sems k s)\<lparr>sem_value := sem_value (sems k s) - 1\<rparr>)\<rparr>"
    using assms(2) by (simp add: Semaphore_P_body_def Let_def)
  then show ?thesis using assms(1) sched_ok_cong(1)[of k' k] by (simp add: running_def)
qed

lemma wait_cond_sched:
  assumes "running k" "Thread_Sleep (k\<lparr>conds := (conds k)(c := conds k c @ [currentThread k])\<rparr>) = Inr k'"
  shows "sched_ok k'"
proof -
  obtain th where th: "threads k (currentThread k) = Some th"
    using assms(1) status_threads unfolding running_def by blast
  have k': "k' = push_acts [A_next] (Thread_setStatus (currentThread k) BLOCKED
      (k\<lparr>conds := (conds k)(c := conds k c @ [currentThread k])\<rparr>))"
    using assms(2) by (auto simp: Thread_Sleep_def res_simps)
  show ?thesis unfolding k'
    by (rule wait_sched[OF assms(1), where q = "Inr c" and as = "[]"]) (use th in auto)
qed

lemma finish_sched:
  assumes "running k" "Thread_Sleep (k\<lparr>ilevel := IntOff, threadToBeDestroyed := Some (currentThread k)\<rparr>) = Inr k'"
  shows "sched_ok k'"
proof -
  obtain th where th: "threads k (currentThread k) = Some th"
    using assms(1) status_threads unfolding running_def by blast
  have k': "k' = push_acts [A_next] (Thread_setStatus (currentThread k) BLOCKED
      (k\<lparr>ilevel := IntOff, threadToBeDestroyed := Some (currentThread k)\<rparr>))"
    using assms(2) by (auto simp: Thread_Sleep_def res_simps)
  show ?thesis unfolding k'
    by (rule wait_sched[OF assms(1), where as = "[]"]) (use th in auto)
qed

lemma resume_sched:
  assumes "running k" "Scheduler_resume k = Inr k'"
  shows "sched_ok k'"
proof -
  have r: "status_of k (currentThread k) = Some RUNNING" "queues_ok (status_of k) (readyList k) (waitq k)"
    "forks_ok k" "destroy_ok k" using assms(1) by (auto simp: running_def sched_ok_def)
  from assms(2) obtain k1 where a: "(case threadToBeDestroyed k of None \<Rightarrow> Inr k
            | Some t \<Rightarrow> assertR (t \<noteq> currentThread k)
                (Inr (k\<lparr>threads := (threads k)(t := None), threadToBeDestroyed := None\<rparr>))) = Inr k1"
    and b: "(case threads k1 (currentThread k1) of None \<Rightarrow> Inl BadAccess
     | Some th \<Rightarrow> (case th_space th of None \<Rightarrow> Inr k1
         | Some sp \<Rightarrow> Inr (AddrSpace_RestoreState sp (Thread_RestoreUserState (currentThread k1) k1)))) = Inr k'"
    by (auto simp: Scheduler_resume_def bindR_eq_Inr)
  have k1: "k1 = k \<or> (\<exists>t. threadToBeDestroyed k = Some t \<and> t \<noteq> currentThread k
      \<and> k1 = k\<lparr>threads := (threads k)(t := None), threadToBeDestroyed := None\<rparr>)"
    "k' = k1 \<or> (\<exists>x. k' = k1\<lparr>kmach := x\<rparr>)"
    using a b by (auto simp: assertR_def AddrSpace_RestoreState_def Thread_RestoreUserState_def
        split: option.splits if_splits)
  have "sched_ok k1"
    using k1(1)
  proof
    assume "\<exists>t. threadToBeDestroyed k = Some t \<and> t \<noteq> currentThread k
      \<and> k1 = k\<lparr>threads := (threads k)(t := None), threadToBeDestroyed := None\<rparr>"
    then obtain t where t: "threadToBeDestroyed k = Some t" "t \<noteq> currentThread k"
      and k1: "k1 = k\<lparr>threads := (threads k)(t := None), threadToBeDestroyed := None\<rparr>" by blast
    have b: "status_of k t = Some BLOCKED" "\<And>q. t \<notin> set (waitq k q)"
      using r(4) t(1) by (auto simp: destroy_ok_def)
    have st: "status_of k1 = (status_of k)(t := None)" by (auto simp: k1 status_of_def fun_eq_iff)
    have "queues_ok (status_of k1) (readyList k1) (waitq k1)"
      unfolding st by (simp add: k1) (rule queues_delete[OF r(2) b])
    moreover have "forks_ok k1" using r(3) b(1) unfolding forks_ok_def st by (auto simp: k1)
    ultimately show "sched_ok k1" using r(1) t(2) st by (simp add: sched_ok_def current_ok_def destroy_ok_def k1)
  qed (use assms(1) in \<open>simp add: running_def\<close>)
  then show ?thesis using sched_ok_cong(1)[of k' k1] k1(2) by auto
qed

lemma neutral_sched:
  assumes "running k" "status_of k' = status_of k" "readyList k' = readyList k" "waitq k' = waitq k"
    "currentThread k' = currentThread k" "threadToBeDestroyed k' = threadToBeDestroyed k" "script k' = script k"
  shows "sched_ok k'"
  using assms sched_ok_cong(1)[of k' k] by (simp add: running_def)

lemma wake_cond_sched: "running k \<Longrightarrow> sched_ok (Condition_Signal_body c k)"
proof (cases "conds k c")
  case (Cons t ts)
  moreover assume "running k"
  moreover obtain th where "threads k t = Some th"
    using waitq_threads[of k t "Inr c"] Cons \<open>running k\<close> by (auto simp: running_def)
  ultimately show ?thesis
    using wake_sched(1)[of k "Inr c" t ts "Condition_Signal_body c k"]
    by (simp add: Condition_Signal_body_def running_def)
qed (simp add: Condition_Signal_body_def running_def)

lemma wake_all_cases:
  assumes "running k"
  shows "sched_ok (Condition_Broadcast_body c k)" "sched_ok (Semaphore_Destroy_body s k)"
proof -
  have c: "\<forall>t \<in> set (conds k c). threads k t \<noteq> None"
    using waitq_threads[of k _ "Inr c"] assms by (auto simp: running_def)
  show "sched_ok (Condition_Broadcast_body c k)"
    by (rule wake_all_sched[OF assms, where q = "Inr c"]) (use c in \<open>simp_all add: Condition_Broadcast_body_def cong: if_cong\<close>)
  have s: "\<forall>t \<in> set (sem_queue (sems k s)). threads k t \<noteq> None"
    using waitq_threads[of k _ "Inl s"] assms by (auto simp: running_def)
  show "sched_ok (Semaphore_Destroy_body s k)"
    by (rule wake_all_sched[OF assms, where q = "Inl s"]) (use s in \<open>simp_all add: Semaphore_Destroy_body_def cong: if_cong\<close>)
qed

lemma next_sched:
  assumes "sched_ok k" "script k (currentThread k) = A_next # as" "exec_act A_next (pop_act k) = Inr k'"
  shows "sched_ok k'"
proof (cases "readyList k")
  case Nil
  then have "k' = push_acts [A_next] (pop_act k)"
    using assms(3) by (simp add: exec_act_def Scheduler_FindNextToRun_def)
  then have "sched_ok k' = sched_ok k" using assms(2) by (intro sched_ok_cong) auto
  then show ?thesis using assms(1) by simp
next
  case (Cons t ts)
  have k': "k' = Scheduler_Run t ((pop_act k)\<lparr>readyList := ts\<rparr>)"
    using assms(3) Cons by (simp add: exec_act_def Scheduler_FindNextToRun_def)
  have "forks_ok (pop_act k)"
    by (rule forks_ok_shrink[of k])
      (use assms in \<open>auto simp: sched_ok_def intro: exI[of _ "[]"] exI[of _ "[A_next]"]\<close>)
  then have "forks_ok ((pop_act k)\<lparr>readyList := ts\<rparr>)" by (simp add: forks_ok_def)
  then have "running (Scheduler_Run t ((pop_act k)\<lparr>readyList := ts\<rparr>))"
    using assms(1) Cons by (intro run_sched) (auto simp: sched_ok_def destroy_ok_def)
  then show ?thesis unfolding k' by (rule running_sched)
qed

lemma fork_sched:
  assumes "sched_ok k" "script k (currentThread k) = A_ready t # as" "exec_act (A_ready t) (pop_act k) = Inr k'"
  shows "sched_ok k'"
proof -
  let ?c = "currentThread k"
  have k': "k' = Scheduler_ReadyToRun t (pop_act k)" using assms(3) by (simp add: exec_act_def)
  have r: "status_of k ?c = Some RUNNING" "queues_ok (status_of k) (readyList k) (waitq k)" "forks_ok k"
    "destroy_ok k" using assms by (auto simp: sched_ok_def current_ok_def)
  have j: "status_of k t = Some JUST_CREATED" "count_list (A_ready t # as) (A_ready t) = 1"
    "\<And>u. A_ready t \<in> set (script k u) \<Longrightarrow> u = ?c"
    using r(3) assms(2) unfolding forks_ok_def by (metis list.set_intros(1))+
  obtain th where th: "threads k t = Some th" using status_threads[OF j(1)] by auto
  have na: "A_ready t \<notin> set as" using j(2) by (simp add: count_list_0_iff)
  have "queues_ok (status_of k') (readyList k') (waitq k')"
    using queues_ready[OF r(2), of t] j(1) th by (simp add: k')
  moreover have "current_ok k'" using r(1) j(1) th by (auto simp: current_ok_def k')
  moreover have "forks_ok k'"
  proof (rule forks_ok_shrink[OF r(3)])
    fix u
    show "\<exists>pre post. script k u = pre @ post \<and> (\<exists>xs. script k' u = xs @ post \<and> (\<forall>t. A_ready t \<notin> set xs))"
      using assms(2) by (auto simp: k' intro: exI[of _ "[]"] exI[of _ "[A_ready t]"])
  next
    fix v u
    assume v: "A_ready v \<in> set (script k' u)"
    then have "v \<noteq> t" using na j(3) assms(2) by (auto simp: k' split: if_splits)
    then show "status_of k' v = status_of k v" using th by (simp add: k')
  qed
  moreover have "destroy_ok k'" using r(4) j(1) th by (auto simp: destroy_ok_def k')
  ultimately show ?thesis by (simp add: sched_ok_def)
qed

lemma exec_act_sched:
  assumes "sched_ok k" "script k (currentThread k) = a # as" "exec_act a (pop_act k) = Inr k'"
  shows "sched_ok k'"
proof -
  consider (nxt) "a = A_next" | (fork) t where "a = A_ready t" | (run) "running (pop_act k)"
    using pop_running[OF assms(1,2)] by blast
  then show ?thesis
  proof cases
    case nxt
    then show ?thesis using next_sched assms by blast
  next
    case fork
    then show ?thesis using fork_sched assms by blast
  next
    case run
    show ?thesis
    proof (cases a)
      case A_next
      then show ?thesis using next_sched assms by blast
    next
      case (A_ready t)
      then show ?thesis using fork_sched assms by blast
    next
      case (A_P s)
      then show ?thesis using P_sched[OF run] assms(3) by (simp add: exec_act_def)
    next
      case (A_V s)
      then show ?thesis using V_sched(1)[OF running_sched[OF run], of s] assms(3) by (simp add: exec_act_def)
    next
      case (A_wait c)
      then show ?thesis using wait_cond_sched[OF run, of c k'] assms(3) by (simp add: exec_act_def)
    next
      case A_finish
      then show ?thesis using finish_sched[OF run, of k'] assms(3) by (simp add: exec_act_def)
    next
      case A_resume
      then show ?thesis using resume_sched[OF run, of k'] assms(3) by (simp add: exec_act_def)
    next
      case A_yield
      then show ?thesis using running_sched[OF yield_sched[OF run]] assms(3) by (simp add: exec_act_def)
    next
      case (A_signal c)
      then show ?thesis using wake_cond_sched[OF run, of c] assms(3) by (simp add: exec_act_def)
    next
      case (A_broadcast c)
      then show ?thesis using wake_all_cases(1)[OF run, of c] assms(3) by (simp add: exec_act_def)
    next
      case (A_destroy s)
      then show ?thesis using wake_all_cases(2)[OF run, of s] assms(3) by (simp add: exec_act_def)
    qed (use assms(3) in \<open>auto intro!: neutral_sched[OF run] simp: exec_act_def Let_def split: list.splits\<close>)
  qed
qed

lemma enables_running:
  assumes "sched_ok k" "script k (currentThread k) = a # as" "enables a k" "exec_act a (pop_act k) = Inr k'"
  shows "running k'"
proof -
  have "a = A_enable \<or> a = A_restore" using assms(3) by (auto simp: enables_def)
  moreover from this have "running (pop_act k)" using pop_running[OF assms(1,2)] by auto
  ultimately show ?thesis using assms(4) sched_ok_cong(2)[of k' "pop_act k"]
    by (auto simp: exec_act_def Let_def split: list.splits)
qed

lemma kstep_sched:
  assumes "kstep D k k'" "sched_ok k"
  shows "sched_ok k'"
  using assms(1)
proof cases
  case (act a as)
  then show ?thesis using exec_act_sched assms(2) by blast
next
  case (tick_yield a as k1)
  have "running k1" using enables_running[OF assms(2) tick_yield(2,3,4)] .
  then have "running k'" unfolding tick_yield(1) by (rule push_running) (auto simp: Thread_Yield_def)
  then show ?thesis by (rule running_sched)
qed (use assms(2) V_sched(1) in auto)

lemma kreach_sched:
  assumes "kreach D k0 k" "sched_ok k0"
  shows "sched_ok k"
  using assms(1) by induction (use assms kstep_sched in \<open>blast+\<close>)

subsection \<open>Executing a chosen interleaving\<close>

text \<open>\<open>False\<close>: perform the next action; \<open>True\<close>: perform it and let the timer make the thread yield.\<close>

fun drive :: "bool list \<Rightarrow> Kst \<Rightarrow> Kst option" where
  "drive [] k = Some k"
| "drive (b # bs) k =
     (case script k (currentThread k) of [] \<Rightarrow> None
      | a # as \<Rightarrow>
        (case exec_act a (pop_act k) of Inl e \<Rightarrow> None
         | Inr k' \<Rightarrow> if b then (if enables a k then drive bs (push_acts Thread_Yield k') else None)
                    else drive bs k'))"

lemma drive_kreach_from: "kreach D k0 k \<Longrightarrow> drive bs k = Some k' \<Longrightarrow> kreach D k0 k'"
proof (induction bs arbitrary: k)
  case (Cons b bs)
  then obtain a as k1 where a: "script k (currentThread k) = a # as" "exec_act a (pop_act k) = Inr k1"
    "if b then enables a k \<and> drive bs (push_acts Thread_Yield k1) = Some k' else drive bs k1 = Some k'"
    by (auto split: list.splits sum.splits if_splits)
  show ?case
  proof (cases b)
    case True
    with a have "kstep D k (push_acts Thread_Yield k1)" by (auto intro: kstep.tick_yield)
    from kreach.step[OF Cons.prems(1) this] show ?thesis using Cons.IH a(3) True by simp
  next
    case False
    from a have "kstep D k k1" by (auto intro: kstep.act)
    from kreach.step[OF Cons.prems(1) this] show ?thesis using Cons.IH a(3) False by simp
  qed
qed simp

lemma drive_kreach: "drive bs k0 = Some k \<Longrightarrow> kreach D k0 k"
  by (rule drive_kreach_from[OF kreach.init])

lemma enables_code [simp]: "enables a k \<longleftrightarrow> ilevel k = IntOff \<and>
    (a = A_enable \<or> a = A_restore \<and> saved k (currentThread k) \<noteq> [] \<and> hd (saved k (currentThread k)) = IntOn)"
  by (cases "saved k (currentThread k)") (auto simp: enables_def)

text \<open>Two kernel threads and one lock (lock 0 on semaphore 0); both take and release it.\<close>

definition lock_demo :: "Kst" where
  "lock_demo = \<lparr>
     threads = (\<lambda>t. if t = 0 then Some (Thread_new\<lparr>th_status := RUNNING\<rparr>)
                    else if t = 1 then Some (Thread_new\<lparr>th_status := READY\<rparr>) else None),
     currentThread = 0, readyList = [1], threadToBeDestroyed = None, ilevel = IntOn,
     saved = (\<lambda>t. []),
     script = (\<lambda>t. if t = 0 then Lock_Acquire 0 0 @ [A_user 0] @ Lock_Release 0 0 @ Thread_Finish
                   else if t = 1 then ThreadRoot (Lock_Acquire 0 0 @ Thread_Yield @ [A_user 0] @ Lock_Release 0 0) else []),
     sems = (\<lambda>s. Semaphore_new 1), locks = (\<lambda>l. Lock_new l), conds = (\<lambda>c. []),
     kmach = Machine_new False [] False\<rparr>"

lemmas act_defs = exec_act_def pop_act_def push_acts_def Let_def Semaphore_P_body_def Semaphore_V_body_def
  Thread_Sleep_def Scheduler_FindNextToRun_def Scheduler_ReadyToRun_def Scheduler_Run_def Scheduler_resume_def
  Thread_setStatus_def upd_thread_def Thread_Yield_body_def Thread_Yield_def Lock_Acquire_def Lock_Release_def
  Semaphore_P_def Semaphore_V_def Thread_Finish_def ThreadRoot_def Semaphore_new_def Lock_new_def Thread_new_def

text \<open>
  The timer fires inside \<open>V\<close>, before \<open>Release\<close> has cleared \<open>isHeld\<close> and \<open>owner\<close>. The other
  thread takes the lock and is then preempted in its critical section; the first thread
  goes on and clears the fields. The holder is now told that it does not hold the lock.
\<close>

lemma Release_race_state:
  "\<exists>k. drive ([False, False, False, False, False] @ [False, False, True] @ [False, False]
      @ [False, False, False, False, False] @ [False, False] @ [False, False, False, False] @ [False, False, False]) lock_demo = Some k
    \<and> currentThread k = 1 \<and> script k 1 = A_user 0 # Lock_Release 0 0 @ Thread_Finish
    \<and> 1 \<in> holds 0 k \<and> \<not> isHeld (locks k 0)"
  by (simp add: lock_demo_def act_defs holds_def)

subsection \<open>The saved state of a thread that is switched out\<close>

definition frozen :: "nat \<Rightarrow> Thread \<Rightarrow> Kst \<Rightarrow> bool" where
  "frozen t th k \<longleftrightarrow> (case threads k t of None \<Rightarrow> True
     | Some th' \<Rightarrow> userRegisters th' = userRegisters th \<and> th_space th' = th_space th)"

lemma frozen_simps [simp]:
  "frozen t th (Thread_setStatus u st k) = frozen t th k"
  "frozen t th (Scheduler_ReadyToRun u k) = frozen t th k"
  "frozen t th (push_acts as k) = frozen t th k" "frozen t th (pop_act k) = frozen t th k"
  "frozen t th (k\<lparr>sems := x1\<rparr>) = frozen t th k" "frozen t th (k\<lparr>conds := x2\<rparr>) = frozen t th k"
  "frozen t th (k\<lparr>locks := x3\<rparr>) = frozen t th k" "frozen t th (k\<lparr>saved := x4\<rparr>) = frozen t th k"
  "frozen t th (k\<lparr>ilevel := x5\<rparr>) = frozen t th k" "frozen t th (k\<lparr>readyList := x6\<rparr>) = frozen t th k"
  "frozen t th (k\<lparr>script := x7\<rparr>) = frozen t th k" "frozen t th (k\<lparr>threadToBeDestroyed := x8\<rparr>) = frozen t th k"
  "frozen t th (k\<lparr>currentThread := x9\<rparr>) = frozen t th k" "frozen t th (k\<lparr>kmach := x10\<rparr>) = frozen t th k"
  by (auto simp: frozen_def Thread_setStatus_def Scheduler_ReadyToRun_def Let_def split: option.split)

lemma frozen_ready_all [simp]: "frozen t th (ready_all ts k) = frozen t th k"
  unfolding ready_all_def by (induction ts arbitrary: k) simp_all

lemma frozen_Run: "currentThread k \<noteq> t \<Longrightarrow> frozen t th (Scheduler_Run u k) = frozen t th k"
  by (auto simp: Scheduler_Run_def Let_def Thread_SaveUserState_def frozen_def Thread_setStatus_def split: option.splits)

lemma frozen_V [simp]: "frozen t th (Semaphore_V_body s k) = frozen t th k"
  by (auto simp: Semaphore_V_body_def Let_def split: list.split)

lemma frozen_resume: "Scheduler_resume k = Inr k' \<Longrightarrow> frozen t th k \<Longrightarrow> frozen t th k'"
  by (auto simp: Scheduler_resume_def AddrSpace_RestoreState_def Thread_RestoreUserState_def frozen_def
      res_simps split: option.splits if_splits)

lemma exec_act_frozen:
  assumes "exec_act a k = Inr k'" "currentThread k \<noteq> t" "frozen t th k"
  shows "frozen t th k'"
  using assms
  by (cases a) (auto simp: exec_act_def Let_def Semaphore_P_body_def Thread_Sleep_def res_simps frozen_Run
      Semaphore_Destroy_body_def Condition_Signal_body_def Condition_Broadcast_body_def frozen_resume
      Thread_Yield_body_def Scheduler_FindNextToRun_def split: list.splits if_splits)

lemma kstep_frozen:
  assumes "kstep D k k'" "currentThread k \<noteq> t" "frozen t th k"
  shows "frozen t th k'"
  using assms(1) by cases (use assms exec_act_frozen[of _ "pop_act k"] in auto)

text \<open>Reachable while another thread than \<open>t\<close> has the processor.\<close>

inductive kaway :: "nat set \<Rightarrow> nat \<Rightarrow> Kst \<Rightarrow> Kst \<Rightarrow> bool" for D t k0 where
  start: "kaway D t k0 k0"
| more: "kaway D t k0 k \<Longrightarrow> currentThread k \<noteq> t \<Longrightarrow> kstep D k k' \<Longrightarrow> kaway D t k0 k'"

lemma kaway_frozen: "kaway D t k0 k \<Longrightarrow> frozen t th k0 \<Longrightarrow> frozen t th k"
  by (induction rule: kaway.induct) (auto intro: kstep_frozen)

lemma resume_restores:
  assumes "Scheduler_resume k = Inr k'" "frozen (currentThread k) th k" "th_space th = Some sp" 
    "length (userRegisters th) = NumTotalRegs"
  shows "registers (kmach k') = userRegisters th \<and> pageTable (kmach k') = Some (fst sp)
    \<and> pageTableSize (kmach k') = snd sp"
proof -
  have m: "map ((!) xs) [0..<NumTotalRegs] = xs" if "length xs = NumTotalRegs" for xs :: "u32 list"
    using that by (metis map_nth)
  from assms show ?thesis
    by (auto simp: Scheduler_resume_def AddrSpace_RestoreState_def Thread_RestoreUserState_def frozen_def
        res_simps m split: option.splits if_splits)
qed

subsection \<open>Properties\<close>

text \<open>Code that takes and releases the lock through the interface brackets its semaphore.\<close>

lemma brackets_lock:
  "brackets s False (Lock_Acquire s l @ as) = brackets s True as"
  "brackets s True (Lock_Release s l @ as) = brackets s False as"
  "brackets s True (Condition_Wait c s l @ as) = brackets s True as"
  by (simp_all add: Lock_Acquire_def Lock_Release_def Condition_Wait_def Semaphore_P_def Semaphore_V_def)

text \<open>C1: Mutual exclusion of \<open>Lock\<close>. Start from a state in which the lock's semaphore has the
  value 1 that the constructor gives it, every thread's remaining program brackets it
  (\<open>Acquire\<close> and \<open>Release\<close> in turn, \<open>Condition::Wait\<close> in between allowed) and no device handler
  posts it. Then in every state that any interleaving, timer preemption and device interrupt
  can lead to, at most one thread holds the lock.\<close>

theorem lock_mutual_exclusion:
  assumes "kreach D k0 k" "s \<notin> D" "sem_value (sems k0 s) = 1" "\<forall>t. brackets s False (script k0 t)"
    and "t \<in> holds s k" "u \<in> holds s k"
  shows "t = u"
proof -
  have "holds s k0 = {}" using assms(4) brackets_exclusive by (auto simp: holds_def)
  then have "mutex_inv s k0" using assms(3,4) by (simp add: mutex_inv_def)
  from mutex_inv_unique[OF kreach_mutex[OF assms(1,2) this] assms(5,6)] show ?thesis .
qed

lemma lock_demo_brackets: "\<forall>t. brackets 0 False (script lock_demo t)"
  by (simp add: lock_demo_def act_defs)

theorem lock_mutual_exclusion_witness:
  "\<exists>k. kreach {} lock_demo k \<and> (\<forall>t \<in> holds 0 k. t = 0) \<and> 0 \<in> holds 0 k"
proof -
  have "\<exists>k. drive [False, False] lock_demo = Some k \<and> 0 \<in> holds 0 k"
    by (simp add: lock_demo_def act_defs holds_def)
  then obtain k where k: "drive [False, False] lock_demo = Some k" "0 \<in> holds 0 k" by blast
  note r = drive_kreach[OF k(1), of "{}"]
  have "t = 0" if "t \<in> holds 0 k" for t
    by (rule lock_mutual_exclusion[OF r _ _ lock_demo_brackets that k(2)])
      (simp_all add: lock_demo_def Semaphore_new_def)
  then show ?thesis using r k(2) by blast
qed

text \<open>C26: \<open>Lock::Release\<close> posts the semaphore before it clears \<open>isHeld\<close> and \<open>owner\<close>, and the timer
  can fire in between. There is an execution of two threads that use the lock correctly in which the
  second thread has returned from \<open>Acquire\<close>, is running inside of its critical section (what is left
  of its program is the section, \<open>Release\<close> and \<open>Finish\<close>) and holds the lock, and is told by
  \<open>isHeldByCurrentThread()\<close> that it does not.\<close>

theorem Release_race:
  "\<exists>k. kreach {} lock_demo k \<and> currentThread k = 1 \<and> script k 1 = A_user 0 # Lock_Release 0 0 @ Thread_Finish
     \<and> 1 \<in> holds 0 k \<and> \<not> Lock_isHeldByCurrentThread 0 k"
proof -
  from Release_race_state obtain bs k where "drive bs lock_demo = Some k" "currentThread k = 1"
    "script k 1 = A_user 0 # Lock_Release 0 0 @ Thread_Finish" "1 \<in> holds 0 k" "\<not> isHeld (locks k 0)"
    by blast
  then show ?thesis using drive_kreach[of bs lock_demo k "{}"]
    by (intro exI[of _ k]) (simp add: Lock_isHeldByCurrentThread_def)
qed

text \<open>C7: The scheduler's queues stay consistent. In every reachable state the ready list has no
  duplicates and its threads are \<open>READY\<close>; a thread waits in at most one semaphore or
  condition queue, once, and is \<open>BLOCKED\<close>; a \<open>RUNNING\<close> current thread is in no queue; and a
  thread waiting to be destroyed is in none either.\<close>

theorem queues_consistent:
  assumes "kreach D k0 k" "sched_ok k0"
  shows "distinct (readyList k) \<and> (\<forall>t \<in> set (readyList k). status_of k t = Some READY)
    \<and> (\<forall>q. distinct (waitq k q) \<and> (\<forall>t \<in> set (waitq k q). status_of k t = Some BLOCKED))
    \<and> (\<forall>q q' t. t \<in> set (waitq k q) \<and> t \<in> set (waitq k q') \<longrightarrow> q = q')
    \<and> (status_of k (currentThread k) = Some RUNNING \<longrightarrow>
         currentThread k \<notin> set (readyList k) \<and> (\<forall>q. currentThread k \<notin> set (waitq k q)))
    \<and> (\<forall>t. threadToBeDestroyed k = Some t \<longrightarrow> t \<notin> set (readyList k) \<and> (\<forall>q. t \<notin> set (waitq k q)))"
  using kreach_sched[OF assms] by (fastforce simp: sched_ok_def queues_ok_def destroy_ok_def)

lemma lock_demo_sched: "sched_ok lock_demo"
  by (auto simp: sched_ok_def queues_ok_def current_ok_def forks_ok_def destroy_ok_def status_of_def lock_demo_def
      act_defs waitq_def split: sum.splits if_splits)

theorem queues_consistent_witness:
  "\<exists>k. kreach {} lock_demo k \<and> currentThread k = 1 \<and> distinct (readyList k) \<and> readyList k = [0]"
proof -
  have "\<exists>k. drive [False, False, True, False, False] lock_demo = Some k \<and> currentThread k = 1 \<and> readyList k = [0]"
    by (simp add: lock_demo_def act_defs)
  then obtain k where k: "drive [False, False, True, False, False] lock_demo = Some k" "currentThread k = 1"
    "readyList k = [0]" by blast
  note r = drive_kreach[OF k(1), of "{}"]
  show ?thesis using queues_consistent[OF r lock_demo_sched] r k by blast
qed

text \<open>C2: A context switch is transparent to a user program. When a thread with an address space is
  switched out by \<open>Scheduler::Run\<close>, then whatever the other threads, the timer and the
  devices do until it is dispatched again, the part of \<open>Run\<close> behind \<open>SWITCH\<close> puts back into
  the machine all forty registers and the page table it had.\<close>

theorem context_switch_transparent:
  assumes "threads k (currentThread k) = Some th" "th_space th = Some sp" "length (registers (kmach k)) = NumTotalRegs"
    and "kaway D (currentThread k) (Scheduler_Run t k) k2" "currentThread k2 = currentThread k"
      "Scheduler_resume k2 = Inr k3"
  shows "registers (kmach k3) = registers (kmach k) \<and> pageTable (kmach k3) = Some (fst sp)
    \<and> pageTableSize (kmach k3) = snd sp"
proof -
  let ?th = "th\<lparr>userRegisters := registers (kmach k)\<rparr>"
  have m: "map ((!) (registers (kmach k))) [0..<NumTotalRegs] = registers (kmach k)"
    using assms(3) by (metis map_nth)
  have "frozen (currentThread k) ?th (Scheduler_Run t k)"
    using assms(1,2) by (auto simp: frozen_def Scheduler_Run_def Let_def Thread_SaveUserState_def
        Thread_setStatus_def m)
  then have "frozen (currentThread k2) ?th k2" using kaway_frozen[OF assms(4)] assms(5) by simp
  from resume_restores[OF assms(6) this] assms(2,3) show ?thesis by simp
qed

definition switch_demo :: Kst where
  "switch_demo = lock_demo\<lparr>
     threads := (\<lambda>t. if t = 0 then Some (Thread_new\<lparr>th_status := READY, th_space := Some (3, 8)\<rparr>)
                     else if t = 1 then Some (Thread_new\<lparr>th_status := READY\<rparr>) else None),
     readyList := [0], ilevel := IntOff, script := (\<lambda>t. if t = 1 then [A_yield] else []),
     kmach := demo_machine\<rparr>"

theorem context_switch_transparent_witness:
  "\<exists>k2 k3. kaway {} 0 (Scheduler_Run 1 switch_demo) k2 \<and> Scheduler_resume k2 = Inr k3
    \<and> registers (kmach k3) = registers demo_machine \<and> pageTable (kmach k3) = Some 3"
proof -
  let ?k1 = "Scheduler_Run 1 switch_demo"
  have cur: "currentThread switch_demo = 0" "kmach switch_demo = demo_machine"
    by (simp_all add: switch_demo_def lock_demo_def)
  have "\<exists>k2 k3. exec_act A_yield (pop_act ?k1) = Inr k2 \<and> currentThread k2 = 0 \<and> Scheduler_resume k2 = Inr k3"
    by (simp add: switch_demo_def lock_demo_def act_defs Thread_SaveUserState_def)
  then obtain k2 k3 where s: "exec_act A_yield (pop_act ?k1) = Inr k2" "currentThread k2 = 0" "Scheduler_resume k2 = Inr k3"
    by blast
  have "script ?k1 (currentThread ?k1) = A_yield # []" by (simp add: switch_demo_def lock_demo_def)
  then have "kstep {} ?k1 k2" using s(1) by (rule kstep.act)
  then have a: "kaway {} 0 ?k1 k2" by (intro kaway.more[OF kaway.start]) simp_all
  have "registers (kmach k3) = registers (kmach switch_demo) \<and> pageTable (kmach k3) = Some (fst (3 :: nat, 8 :: u32))
    \<and> pageTableSize (kmach k3) = snd (3 :: nat, 8 :: u32)"
    by (rule context_switch_transparent[where D = "{}" and t = 1 and ?k2.0 = k2])
      (use a s in \<open>auto simp: cur switch_demo_def lock_demo_def demo_machine_def Machine_new_def\<close>)
  then show ?thesis using a s cur by auto
qed

end
