(* ===== verification/Nachos_Exception.thy ===== *)
theory Nachos_Exception
  imports Nachos_AddrSpace Nachos_Threads
begin

text \<open>
  \<open>userprog/exception.cc\<close>, the build without virtual memory: the system calls and the exception
  handler the machine traps into. Files and sockets are those of the host: the calls of the C
  library (\<open>open\<close>, \<open>creat\<close>, \<open>read\<close>, \<open>write\<close>, \<open>close\<close>, \<open>socket\<close>, \<open>connect\<close>) are fields of the record
  \<open>Host\<close>, on a host state of any type; so are the allocator's choices (addresses, uninitialised
  bytes, and the size of the block \<open>malloc\<close> really hands out), and what the host process has
  at an address that is not one of Nachos' own objects (\<open>a_string\<close>, \<open>None\<close> for a fault).
  \<open>h_exe\<close> is \<open>FileSystem::Open\<close> of the stub file system: the contents of the file.

  The thread system is that of theory \<open>Nachos_Threads\<close>, with the timer off: a thread gives up
  the processor only in a system call. What it does when it runs again is its \<open>Cont\<close>: return
  from the system call (after writing a result), or begin with \<open>ForkAux\<close> or \<open>AuxExec\<close>. A
  handler that switches therefore returns in another thread, whose registers and page table
  are then those of the machine, as \<open>Machine::Run\<close> is the same loop in every thread.
\<close>

subsection \<open>The kernel\<close>

datatype Back = B_return | B_result u32

datatype Cont = C_back Back | C_ForkAux u32 | C_AuxExec u32

record 'h Ker =
  ks :: Kst
  k_MiMapa :: BitMap
  k_oft :: "nat \<Rightarrow> NachosOpenFilesTable option"
  k_space :: "nat \<Rightarrow> AddrSpace option"
  k_cont :: "nat \<Rightarrow> Cont"
  machineSockets :: "int set"
  k_mode :: MachineStatus
  k_console :: "byte list"
  k_host :: 'h

record 'h Host =
  h_open :: "byte list \<Rightarrow> 'h \<Rightarrow> int \<times> 'h"
  h_creat :: "byte list \<Rightarrow> 'h \<Rightarrow> int \<times> 'h"
  h_read :: "int \<Rightarrow> int \<Rightarrow> 'h \<Rightarrow> byte list option \<times> 'h"
  h_write :: "int \<Rightarrow> byte list \<Rightarrow> 'h \<Rightarrow> 'h"
  h_close :: "int \<Rightarrow> 'h \<Rightarrow> int \<times> 'h"
  h_socket :: "bool \<Rightarrow> bool \<Rightarrow> 'h \<Rightarrow> int \<times> 'h"
  h_connect :: "bool \<Rightarrow> int \<Rightarrow> byte list \<Rightarrow> int \<Rightarrow> 'h \<Rightarrow> 'h"
  h_exe :: "byte list \<Rightarrow> 'h \<Rightarrow> byte list option \<times> 'h"
  a_string :: "u32 \<Rightarrow> 'h Ker \<Rightarrow> byte list option"
  a_thread :: "'h Ker \<Rightarrow> nat"
  a_space :: "Machine \<Rightarrow> 'h Ker \<Rightarrow> SpaceFresh"
  a_block :: "'h Ker \<Rightarrow> int \<Rightarrow> byte list"

text \<open>
  The exceptions other than system calls; a memory access of the kernel raises no others.
  Without virtual memory a page fault is ignored, everything else stops Nachos.
\<close>

definition other_exception :: "ExceptionType \<Rightarrow> Machine \<Rightarrow> 'h Ker \<Rightarrow> (Machine \<times> 'h Ker) res" where
  "other_exception which m k = (if which = PageFaultException then Inr (m, k) else Inl AssertFail)"

definition Kern0 :: "'h Ker Kernel" where
  "Kern0 = \<lparr>k_VM = False, k_updatePage = (\<lambda>p k. Inr k), k_setStatus = (\<lambda>st k. k\<lparr>k_mode := st\<rparr>),
     k_ExceptionHandler = other_exception\<rparr>"

definition returnFromSystemCall :: "Machine \<Rightarrow> Machine res" where
  "returnFromSystemCall m =
     bindR (Machine_ReadRegister m (int PCReg)) (\<lambda>pc.
     bindR (Machine_WriteRegister (int PrevPCReg) pc m) (\<lambda>m.
     bindR (Machine_ReadRegister m (int NextPCReg)) (\<lambda>npc.
     bindR (Machine_WriteRegister (int PCReg) npc m) (\<lambda>m.
     Machine_WriteRegister (int NextPCReg) (npc + 4) m))))"

text \<open>A result in register 2, then back to the program.\<close>

definition finish_call :: "u32 \<Rightarrow> Machine \<Rightarrow> 'h Ker \<Rightarrow> (Machine \<times> 'h Ker) res" where
  "finish_call v m k =
     bindR (Machine_WriteRegister 2 v m) (\<lambda>m. mapR (\<lambda>m. (m, k)) (returnFromSystemCall m))"

subsection \<open>Switching threads\<close>

text \<open>The address space of the running thread, and its table of open files.\<close>

definition cur_space :: "'h Ker \<Rightarrow> AddrSpace res" where
  "cur_space k = (case k_space k (currentThread (ks k)) of None \<Rightarrow> Inl BadAccess | Some sp \<Rightarrow> Inr sp)"

definition cur_oft :: "'h Ker \<Rightarrow> (nat \<times> NachosOpenFilesTable) res" where
  "cur_oft k = bindR (cur_space k) (\<lambda>sp.
     case k_oft k (as_openFilesTable sp) of None \<Rightarrow> Inl BadAccess | Some t \<Rightarrow> Inr (as_openFilesTable sp, t))"

text \<open>
  Installing a page table: its address has to be that of a live table of this size. (With a
  TLB the assertion of the next \<open>Translate\<close> would fail.)
\<close>

definition install :: "AddrSpace \<Rightarrow> Machine \<Rightarrow> Machine res" where
  "install sp m = assertR (tlb m = None)
     (case as_pageTable sp of None \<Rightarrow> Inl BadAccess | Some t \<Rightarrow>
     (case tables m t of None \<Rightarrow> Inl BadAccess | Some pt \<Rightarrow>
      if length pt < unat (as_numPages sp) then Inl BadAccess else Inr (Space_RestoreState sp m)))"

text \<open>What the scheduler's model knows of an address space: its page table and size.\<close>

definition space_key :: "AddrSpace \<Rightarrow> (nat \<times> u32) option" where
  "space_key s = map_option (\<lambda>a. (a, as_numPages s)) (as_pageTable s)"

definition ForkAux :: "u32 \<Rightarrow> Machine \<Rightarrow> 'h Ker \<Rightarrow> (Machine \<times> 'h Ker) res" where
  "ForkAux p m k =
     bindR (cur_space k) (\<lambda>sp.
     bindR (AddrSpace_InitRegisters sp m) (\<lambda>m.
     bindR (install sp m) (\<lambda>m.
     bindR (cur_oft k) (\<lambda>(a, t).
     let k = k\<lparr>k_oft := (k_oft k)(a \<mapsto> OpenFiles_addThread t)\<rparr> in
     bindR (Machine_WriteRegister (int RetAddrReg) 4 m) (\<lambda>m.
     bindR (Machine_WriteRegister (int PCReg) p m) (\<lambda>m.
     mapR (\<lambda>m. (m, k)) (Machine_WriteRegister (int NextPCReg) (p + 4) m)))))))"

text \<open>
  \<open>AuxExec\<close> takes the user's address of the file name for one of the host. The flag says
  whether the thread goes on in the program; otherwise the procedure returns to \<open>ThreadRoot\<close>, or
  the constructor calls \<open>Finish\<close> itself.
\<close>

definition AuxExec :: "'h Host \<Rightarrow> u32 \<Rightarrow> Machine \<Rightarrow> 'h Ker \<Rightarrow> (bool \<times> Machine \<times> 'h Ker) res" where
  "AuxExec H param m k =
     (case a_string H param k of None \<Rightarrow> Inl BadAccess | Some filename \<Rightarrow>
     (case h_exe H filename (k_host k) of
        (None, h) \<Rightarrow> Inr (False, m, k\<lparr>k_host := h,
            k_console := k_console k @ map of_char ''Unable to open file '' @ filename @ [10]\<rparr>)
      | (Some exe, h) \<Rightarrow>
          bindR (AddrSpace_Exe (a_space H m k) exe \<lparr>us_m = m, MiMapa = k_MiMapa k, oftables = k_oft k\<rparr>) (\<lambda>(sp, u).
          let m = us_m u; k = k\<lparr>k_host := h, k_MiMapa := MiMapa u, k_oft := oftables u\<rparr>; cur = currentThread (ks k) in
          case sp of None \<Rightarrow> Inr (False, m, k)
          | Some space \<Rightarrow>
              bindR (AddrSpace_InitRegisters space m) (\<lambda>m.
              bindR (install space m) (\<lambda>m.
              Inr (True, m, k\<lparr>k_space := (k_space k)(cur \<mapsto> space),
                ks := upd_thread cur (\<lambda>th. th\<lparr>th_space := space_key space\<rparr>) (ks k)\<rparr>))))))"

text \<open>The end of a system call that has let other threads run.\<close>

definition run_back :: "Back \<Rightarrow> Machine \<Rightarrow> 'h Ker \<Rightarrow> (Machine \<times> 'h Ker) res" where
  "run_back c m k = (case c of
     B_return \<Rightarrow> mapR (\<lambda>m. (m, k)) (returnFromSystemCall m)
   | B_result v \<Rightarrow> finish_call v m k)"

text \<open>\<open>Finish\<close> up to \<open>SWITCH\<close>; \<open>None\<close> when no thread is ready.\<close>

definition Finish_next :: "Machine \<Rightarrow> 'h Ker \<Rightarrow> Kst option" where
  "Finish_next m k =
     (let cur = currentThread (ks k);
          st = Thread_setStatus cur BLOCKED ((ks k)\<lparr>kmach := m, threadToBeDestroyed := Some cur\<rparr>)
      in case Scheduler_FindNextToRun st of
           (None, st1) \<Rightarrow> None
         | (Some t, st1) \<Rightarrow> Some (Scheduler_Run t st1))"

lemma AuxExec_ready: "AuxExec H p m k = Inr (b, m', k') \<Longrightarrow> readyList (ks k') = readyList (ks k)"
  by (auto simp: AuxExec_def Let_def upd_thread_def res_simps split: option.splits prod.splits)

lemma Finish_next_ready: "Finish_next m k = Some st \<Longrightarrow> length (readyList st) < length (readyList (ks k))"
  by (auto simp: Finish_next_def Let_def Scheduler_FindNextToRun_def Scheduler_Run_def Thread_setStatus_def
      Thread_SaveUserState_def upd_thread_def split: list.splits option.splits if_splits)

text \<open>
  After \<open>SWITCH\<close>, in the thread that runs now. A thread that has run before continues in
  \<open>Scheduler::Run\<close>, which deletes a finished thread and restores registers and page table;
  a new one starts with its procedure, and finishes when that returns. When no thread is ready
  then, there is nothing to wait for: \<open>Idle\<close> halts.
\<close>

function resume :: "'h Host \<Rightarrow> Kst \<Rightarrow> 'h Ker \<Rightarrow> (Machine \<times> 'h Ker) res" where
  "resume H st k =
     (case k_cont k (currentThread st) of
        C_back c \<Rightarrow> bindR (Scheduler_resume st) (\<lambda>st.
             bindR (cur_space (k\<lparr>ks := st\<rparr>)) (\<lambda>sp.
             bindR (install sp (kmach st)) (\<lambda>m. run_back c m (k\<lparr>ks := st\<rparr>))))
      | C_ForkAux p \<Rightarrow> ForkAux p (kmach st) (k\<lparr>ks := st\<rparr>)
      | C_AuxExec p \<Rightarrow>
          (case AuxExec H p (kmach st) (k\<lparr>ks := st\<rparr>) of
             Inl e \<Rightarrow> Inl e
           | Inr (goes, m, k1) \<Rightarrow>
               if goes then Inr (m, k1)
               else (case Finish_next m k1 of None \<Rightarrow> Inl Halted | Some st1 \<Rightarrow> resume H st1 k1)))"
  by pat_completeness auto
termination
  by (relation "measure (\<lambda>(H, st, k). length (readyList st))")
    (auto dest!: AuxExec_ready Finish_next_ready)

declare resume.simps [simp del]

definition do_Yield :: "'h Host \<Rightarrow> Back \<Rightarrow> Machine \<Rightarrow> 'h Ker \<Rightarrow> (Machine \<times> 'h Ker) res" where
  "do_Yield H c m k =
     (let cur = currentThread (ks k); st = (ks k)\<lparr>kmach := m\<rparr> in
      if readyList st = [] then run_back c m k
      else resume H (Thread_Yield_body st) (k\<lparr>k_cont := (k_cont k)(cur := C_back c)\<rparr>))"

text \<open>\<open>Finish\<close> never returns: another thread goes on.\<close>

definition do_Finish :: "'h Host \<Rightarrow> Machine \<Rightarrow> 'h Ker \<Rightarrow> (Machine \<times> 'h Ker) res" where
  "do_Finish H m k = (case Finish_next m k of None \<Rightarrow> Inl Halted | Some st \<Rightarrow> resume H st k)"

subsection \<open>Processes\<close>

definition NachOS_Halt :: "'h Host \<Rightarrow> Machine \<Rightarrow> 'h Ker \<Rightarrow> (Machine \<times> 'h Ker) res" where
  "NachOS_Halt H m k = do_Finish H m k"

definition NachOS_Exit :: "'h Host \<Rightarrow> Machine \<Rightarrow> 'h Ker \<Rightarrow> (Machine \<times> 'h Ker) res" where
  "NachOS_Exit H m k = do_Finish H m k"

text \<open>\<open>new Thread\<close> followed by \<open>Fork\<close>, which makes it ready to run.\<close>

definition new_thread :: "nat \<Rightarrow> AddrSpace option \<Rightarrow> Cont \<Rightarrow> 'h Ker \<Rightarrow> 'h Ker" where
  "new_thread t sp c k =
     (let th = Thread_new\<lparr>th_space := Option.bind sp space_key\<rparr>
      in k\<lparr>ks := Scheduler_ReadyToRun t ((ks k)\<lparr>threads := (threads (ks k))(t \<mapsto> th)\<rparr>),
           k_space := (k_space k)(t := sp), k_cont := (k_cont k)(t := c)\<rparr>)"

definition NachOS_Exec :: "'h Host \<Rightarrow> Machine \<Rightarrow> 'h Ker \<Rightarrow> (Machine \<times> 'h Ker) res" where
  "NachOS_Exec H m k =
     bindR (Machine_ReadRegister m 4) (\<lambda>p.
     do_Yield H (B_result 0) m (new_thread (a_thread H k) None (C_AuxExec p) k))"

definition NachOS_Join :: "Machine \<Rightarrow> 'h Ker \<Rightarrow> (Machine \<times> 'h Ker) res" where
  "NachOS_Join m k = mapR (\<lambda>m. (m, k)) (returnFromSystemCall m)"

definition NachOS_Fork :: "'h Host \<Rightarrow> Machine \<Rightarrow> 'h Ker \<Rightarrow> (Machine \<times> 'h Ker) res" where
  "NachOS_Fork H m k =
     bindR (cur_space k) (\<lambda>other.
     bindR (AddrSpace_Fork (a_space H m k) other \<lparr>us_m = m, MiMapa = k_MiMapa k, oftables = k_oft k\<rparr>) (\<lambda>(sp, u).
     let m = us_m u; k = k\<lparr>k_MiMapa := MiMapa u, k_oft := oftables u\<rparr> in
     case sp of None \<Rightarrow> do_Finish H m k
     | Some sp \<Rightarrow>
       bindR (Machine_ReadRegister m 4) (\<lambda>p.
       let k = new_thread (a_thread H k) (Some sp) (C_ForkAux p) k in
       mapR (\<lambda>m. (m, k)) (returnFromSystemCall m))))"

definition NachOS_Yield :: "'h Host \<Rightarrow> Machine \<Rightarrow> 'h Ker \<Rightarrow> (Machine \<times> 'h Ker) res" where
  "NachOS_Yield H m k = do_Yield H B_return m k"

subsection \<open>File names\<close>

text \<open>
  The loop of \<open>Create\<close>. \<open>c\<close> is the last character read: a failed \<open>ReadMem\<close> leaves it as it is. The
  terminating zero is not copied, so behind the characters \<open>acc\<close> the buffer of capacity \<open>cap\<close>
  holds what it held before. The loop is left when a zero is read.
\<close>

partial_function (option) Create_loop ::
    "u32 \<Rightarrow> nat \<Rightarrow> u32 \<Rightarrow> nat \<Rightarrow> byte list \<Rightarrow> Machine \<Rightarrow> 'h Ker \<Rightarrow> (nat \<times> byte list \<times> Machine \<times> 'h Ker) res option" where
  "Create_loop addr pos c cap acc m k =
     (let cap = (if pos = cap - 1 then cap * 2 else cap) in
      case Machine_ReadMem Kern0 (addr + of_nat pos) 1 m k of
        Inl e \<Rightarrow> Some (Inl e)
      | Inr (r, m1, k1) \<Rightarrow>
          (let c = (case r of None \<Rightarrow> c | Some v \<Rightarrow> v) in
           if c = 0 then Some (Inr (cap, acc, m1, k1))
           else Create_loop addr (Suc pos) c cap (acc @ [ucast c]) m1 k1))"

definition NachOS_Create :: "'h Host \<Rightarrow> Machine \<Rightarrow> 'h Ker \<Rightarrow> (Machine \<times> 'h Ker) res" where
  "NachOS_Create H m k =
     bindR (Machine_ReadRegister m 4) (\<lambda>addr.
     bindR (retR (Create_loop addr 0 0 200 [] m k)) (\<lambda>(cap, acc, m, k).
     let rest = drop (length acc) (take cap (a_block H k (int cap))) in
     if 0 \<notin> set rest then Inl BadAccess
     else case h_creat H (acc @ takeWhile (\<lambda>b. b \<noteq> 0) rest) (k_host k) of (fileId, h) \<Rightarrow>
       finish_call (word_of_int fileId) m (k\<lparr>k_host := h\<rparr>)))"

text \<open>
  The loop of \<open>Open\<close>. The character is stored in the array of 4097 bytes before it is tested.
  (\<open>ReadMem\<close> stores an \<open>int\<close> through the address of the \<open>char\<close> variable; the three bytes behind it
  on the stack are taken to be padding.)
\<close>

function Open_loop :: "u32 \<Rightarrow> nat \<Rightarrow> byte \<Rightarrow> byte list \<Rightarrow> Machine \<Rightarrow> 'h Ker \<Rightarrow> (byte list \<times> Machine \<times> 'h Ker) res" where
  "Open_loop addr i c acc m k =
     bindR (Machine_ReadMem Kern0 (addr + of_nat i) 1 m k) (\<lambda>(r, m1, k1).
     let c = (case r of None \<Rightarrow> c | Some v \<Rightarrow> ucast v) in
     if 4096 < i then Inl BadAccess
     else if c = 0 then Inr (acc, m1, k1)
     else Open_loop addr (Suc i) c (acc @ [c]) m1 k1)"
  by pat_completeness auto
termination
  by (relation "measure (\<lambda>(addr, i, c, acc, m, k). 4097 - i)") auto

declare Open_loop.simps [simp del]

definition NachOS_Open :: "'h Host \<Rightarrow> Machine \<Rightarrow> 'h Ker \<Rightarrow> (Machine \<times> 'h Ker) res" where
  "NachOS_Open H m k =
     bindR (Machine_ReadRegister m 4) (\<lambda>addr.
     bindR (Open_loop addr 0 (hd (a_block H k 1)) [] m k) (\<lambda>(fileName, m, k).
     case h_open H fileName (k_host k) of (fdOpenFile, h) \<Rightarrow>
       let k = k\<lparr>k_host := h\<rparr> in
       if fdOpenFile = -1 then finish_call (-1) m k
       else
         bindR (cur_oft k) (\<lambda>(a, t).
         bindR (OpenFiles_Open t fdOpenFile) (\<lambda>(isOpened, t).
         finish_call (word_of_int isOpened) m (k\<lparr>k_oft := (k_oft k)(a \<mapsto> t)\<rparr>)))))"

subsection \<open>Transfers\<close>

text \<open>An \<open>int\<close> stored at position \<open>i\<close> of a heap block.\<close>

definition store_int :: "byte list \<Rightarrow> nat \<Rightarrow> u32 \<Rightarrow> byte list res" where
  "store_int block i v = poke block (int i) (word_bytes v)"

text \<open>\<open>while (i < size) { ReadMem(addr + i, 1, (int*)&content[i]); if (content[i] == '\\n') break; i++; }\<close>,
  for \<open>n\<close> rounds.\<close>

fun Write_loop :: "nat \<Rightarrow> u32 \<Rightarrow> nat \<Rightarrow> byte list \<Rightarrow> Machine \<Rightarrow> 'h Ker \<Rightarrow> (nat \<times> byte list \<times> Machine \<times> 'h Ker) res" where
  "Write_loop 0 addr i content m k = Inr (i, content, m, k)"
| "Write_loop (Suc n) addr i content m k =
     bindR (Machine_ReadMem Kern0 (addr + of_nat i) 1 m k) (\<lambda>(r, m1, k1).
     bindR (case r of None \<Rightarrow> Inr content | Some v \<Rightarrow> store_int content i v) (\<lambda>content.
     bindR (ixR content (int i)) (\<lambda>c.
     if c = 10 then Inr (i, content, m1, k1)
     else Write_loop n addr (Suc i) content m1 k1)))"

text \<open>A size of \<open>-1\<close> becomes the largest \<open>size_t\<close> when it is given to \<open>write\<close>.\<close>

definition NachOS_Write :: "'h Host \<Rightarrow> Machine \<Rightarrow> 'h Ker \<Rightarrow> (Machine \<times> 'h Ker) res" where
  "NachOS_Write H m k =
     bindR (Machine_ReadRegister m 4) (\<lambda>addr.
     bindR (Machine_ReadRegister m 5) (\<lambda>r5.
     bindR (Machine_ReadRegister m 6) (\<lambda>r6.
     let sz = sint r5; descriptor = sint r6 in
     assertR (0 \<le> sz + 1) (
     bindR (Write_loop (nat sz) addr 0 (a_block H k (sz + 1)) m k) (\<lambda>(i, content, m, k).
     bindR (updR content (int i + 1) 0) (\<lambda>content.
     if descriptor = 0 then finish_call (-1) m k
     else if descriptor = 1 then
       (if 0 \<in> set content
        then finish_call r5 m (k\<lparr>k_console := k_console k @ takeWhile (\<lambda>b. b \<noteq> 0) content\<rparr>) else Inl BadAccess)
     else
       bindR (cur_oft k) (\<lambda>(a, t).
       bindR (OpenFiles_isOpened t descriptor) (\<lambda>b.
       if b then
         bindR (OpenFiles_getUnixHandle t descriptor) (\<lambda>unixHandle.
         if sz < 0 then Inl BadAccess
         else finish_call r5 m (k\<lparr>k_host := h_write H unixHandle (take (nat sz) content) (k_host k)\<rparr>))
       else finish_call (-1) m k))))))))"

text \<open>Bytes written to user memory one by one; the result of \<open>WriteMem\<close> is ignored.\<close>

fun copy_to_user :: "byte list \<Rightarrow> u32 \<Rightarrow> nat \<Rightarrow> Machine \<Rightarrow> 'h Ker \<Rightarrow> (Machine \<times> 'h Ker) res" where
  "copy_to_user [] addr i m k = Inr (m, k)"
| "copy_to_user (b # bs) addr i m k =
     bindR (Machine_WriteMem Kern0 (addr + of_nat i) 1 (scast b) m k) (\<lambda>(r, m1, k1).
     copy_to_user bs addr (Suc i) m1 k1)"

text \<open>
  Reading the console: the \<open>do\<close> loop, for at most \<open>n\<close> further rounds. A \<open>read\<close> that delivers
  nothing leaves the character as it is.
\<close>

fun console_loop :: "'h Host \<Rightarrow> nat \<Rightarrow> nat \<Rightarrow> byte \<Rightarrow> byte list \<Rightarrow> 'h \<Rightarrow> (nat \<times> byte list \<times> 'h) res" where
  "console_loop H n position c content h =
     (case h_read H 1 1 h of (r, h1) \<Rightarrow>
      let c = (case r of Some (b # bs) \<Rightarrow> b | _ \<Rightarrow> c) in
      bindR (if 8 < sint c then updR content (int position) c else Inr content) (\<lambda>content.
      case n of 0 \<Rightarrow> Inr (Suc position, content, h1)
      | Suc n' \<Rightarrow> if c \<noteq> 0 then console_loop H n' (Suc position) c content h1 else Inr (Suc position, content, h1)))"

text \<open>
  The loop that copies the console input to the program: it goes on past \<open>sz\<close> until it finds a
  zero in the block, and reads behind the block when there is none.
\<close>

fun console_copy :: "byte list \<Rightarrow> int \<Rightarrow> u32 \<Rightarrow> nat \<Rightarrow> Machine \<Rightarrow> 'h Ker \<Rightarrow> (nat \<times> Machine \<times> 'h Ker) res" where
  "console_copy [] sz addr i m k = Inl BadAccess"
| "console_copy (b # bs) sz addr i m k =
     (if b \<noteq> 0 \<or> int i < sz then
        bindR (Machine_WriteMem Kern0 (addr + of_nat i) 1 (scast b) m k) (\<lambda>(r, m1, k1).
        console_copy bs sz addr (Suc i) m1 k1)
      else Inr (i, m, k))"

definition NachOS_Read :: "'h Host \<Rightarrow> Machine \<Rightarrow> 'h Ker \<Rightarrow> (Machine \<times> 'h Ker) res" where
  "NachOS_Read H m k =
     bindR (Machine_ReadRegister m 4) (\<lambda>addr.
     bindR (Machine_ReadRegister m 5) (\<lambda>r5.
     bindR (Machine_ReadRegister m 6) (\<lambda>r6.
     let sz = sint r5; descriptor = sint r6; content = a_block H k sz in
     assertR (0 \<le> sz) (
     if descriptor = 0 then
       bindR (console_loop H (nat sz - 1) 0 0 content (k_host k)) (\<lambda>(position, content, h).
       bindR (if int position \<noteq> sz then updR content (int position) 10 else Inr content) (\<lambda>content.
       bindR (console_copy content sz addr 0 m (k\<lparr>k_host := h\<rparr>)) (\<lambda>(readingIndex, m, k).
       finish_call (of_nat readingIndex) m k)))
     else if descriptor = 1 then finish_call (-1) m k
     else
       bindR (cur_oft k) (\<lambda>(a, t).
       bindR (OpenFiles_isOpened t descriptor) (\<lambda>b.
       if b then
         bindR (OpenFiles_getUnixHandle t descriptor) (\<lambda>unixHandle.
         case h_read H unixHandle sz (k_host k) of (r, h) \<Rightarrow>
           bindR (Machine_WriteRegister 2 r5 m) (\<lambda>m.
           bindR (copy_to_user (case r of None \<Rightarrow> [] | Some bs \<Rightarrow> bs) addr 0 m (k\<lparr>k_host := h\<rparr>)) (\<lambda>(m, k).
           finish_call (case r of None \<Rightarrow> -1 | Some bs \<Rightarrow> of_nat (length bs)) m k)))
       else finish_call (-1) m k))))))"

definition NachOS_Close :: "'h Host \<Rightarrow> Machine \<Rightarrow> 'h Ker \<Rightarrow> (Machine \<times> 'h Ker) res" where
  "NachOS_Close H m k =
     bindR (Machine_ReadRegister m 4) (\<lambda>r4.
     bindR (cur_oft k) (\<lambda>(a, t).
     bindR (OpenFiles_Close t (sint r4)) (\<lambda>(unixHandle, t).
     let k = k\<lparr>k_oft := (k_oft k)(a \<mapsto> t)\<rparr> in
     if unixHandle = -1 then finish_call (-1) m k
     else case h_close H unixHandle (k_host k) of (result, h) \<Rightarrow>
       finish_call (word_of_int (if result = 0 then result + 1 else result)) m (k\<lparr>k_host := h\<rparr>))))"

subsection \<open>Sockets\<close>

text \<open>The flags given to \<open>h_socket\<close>: \<open>AF_INET6\<close> rather than \<open>AF_INET\<close>, \<open>SOCK_DGRAM\<close> rather than \<open>SOCK_STREAM\<close>.\<close>

definition NachOS_Socket :: "'h Host \<Rightarrow> Machine \<Rightarrow> 'h Ker \<Rightarrow> (Machine \<times> 'h Ker) res" where
  "NachOS_Socket H m k =
     bindR (Machine_ReadRegister m 4) (\<lambda>family.
     bindR (Machine_ReadRegister m 5) (\<lambda>typ.
     case h_socket H (family \<noteq> 0) (typ \<noteq> 0) (k_host k) of (idSocket, h) \<Rightarrow>
       let k = k\<lparr>k_host := h\<rparr> in
       bindR (cur_oft k) (\<lambda>(a, t).
       bindR (OpenFiles_Open t idSocket) (\<lambda>(fd, t).
       finish_call (word_of_int fd) m (k\<lparr>k_oft := (k_oft k)(a \<mapsto> t),
         machineSockets := (if family \<noteq> 0 then insert fd (machineSockets k) else machineSockets k)\<rparr>)))))"

fun Connect_loop :: "nat \<Rightarrow> u32 \<Rightarrow> nat \<Rightarrow> byte list \<Rightarrow> Machine \<Rightarrow> 'h Ker \<Rightarrow> (byte list \<times> Machine \<times> 'h Ker) res" where
  "Connect_loop 0 addr i ip m k = Inr (ip, m, k)"
| "Connect_loop (Suc n) addr i ip m k =
     bindR (Machine_ReadMem Kern0 (addr + of_nat i) 1 m k) (\<lambda>(r, m1, k1).
     bindR (case r of None \<Rightarrow> Inr ip | Some v \<Rightarrow> store_int ip i v) (\<lambda>ip.
     bindR (ixR ip (int i)) (\<lambda>c.
     if c = 0 then Inr (ip, m1, k1) else Connect_loop n addr (Suc i) ip m1 k1)))"

text \<open>The map of IPv6 sockets is searched for the host's descriptor, and \<open>connect\<close> gets the handle.\<close>

definition NachOS_Connect :: "'h Host \<Rightarrow> Machine \<Rightarrow> 'h Ker \<Rightarrow> (Machine \<times> 'h Ker) res" where
  "NachOS_Connect H m k =
     bindR (Machine_ReadRegister m 4) (\<lambda>sockID.
     bindR (Machine_ReadRegister m 5) (\<lambda>ipAddress.
     bindR (Machine_ReadRegister m 6) (\<lambda>port.
     bindR (Connect_loop 40 ipAddress 0 (a_block H k 40) m k) (\<lambda>(ip, m, k).
     bindR (cur_oft k) (\<lambda>(a, t).
     bindR (OpenFiles_getUnixHandle t (sint sockID)) (\<lambda>fd.
     if 0 \<notin> set ip then Inl BadAccess
     else
       let k = k\<lparr>k_host := h_connect H (fd \<in> machineSockets k) (sint sockID) (takeWhile (\<lambda>b. b \<noteq> 0) ip) (sint port) (k_host k)\<rparr>
       in mapR (\<lambda>m. (m, k)) (returnFromSystemCall m)))))))"

definition NachOS_Bind :: "Machine \<Rightarrow> 'h Ker \<Rightarrow> (Machine \<times> 'h Ker) res" where
  "NachOS_Bind m k = mapR (\<lambda>m. (m, k)) (returnFromSystemCall m)"

text \<open>The calls without a body: semaphores, locks, conditions, \<open>Listen\<close>, \<open>Accept\<close>, \<open>Shutdown\<close>.\<close>

definition empty_call :: "Machine \<Rightarrow> 'h Ker \<Rightarrow> (Machine \<times> 'h Ker) res" where
  "empty_call m k = Inr (m, k)"

subsection \<open>The handler\<close>

definition syscall :: "'h Host \<Rightarrow> int \<Rightarrow> Machine \<Rightarrow> 'h Ker \<Rightarrow> (Machine \<times> 'h Ker) res" where
  "syscall H type m k =
     (if type = 0 then NachOS_Halt H m k
      else if type = 1 then NachOS_Exit H m k
      else if type = 2 then NachOS_Exec H m k
      else if type = 3 then NachOS_Join m k
      else if type = 4 then NachOS_Create H m k
      else if type = 5 then NachOS_Open H m k
      else if type = 6 then NachOS_Read H m k
      else if type = 7 then NachOS_Write H m k
      else if type = 8 then NachOS_Close H m k
      else if type = 9 then NachOS_Fork H m k
      else if type = 10 then NachOS_Yield H m k
      else if 11 \<le> type \<and> type \<le> 23 then empty_call m k
      else if type = 30 then NachOS_Socket H m k
      else if type = 31 then NachOS_Connect H m k
      else if type = 32 then NachOS_Bind m k
      else if 33 \<le> type \<and> type \<le> 35 then empty_call m k
      else Inl AssertFail)"

definition ExceptionHandler :: "'h Host \<Rightarrow> ExceptionType \<Rightarrow> Machine \<Rightarrow> 'h Ker \<Rightarrow> (Machine \<times> 'h Ker) res" where
  "ExceptionHandler H which m k =
     bindR (Machine_ReadRegister m 2) (\<lambda>type.
     if which = SyscallException then syscall H (sint type) m k else other_exception which m k)"

definition Kern :: "'h Host \<Rightarrow> 'h Ker Kernel" where
  "Kern H = Kern0\<lparr>k_ExceptionHandler := ExceptionHandler H\<rparr>"

subsection \<open>Registers\<close>

lemma WriteRegister_ok: "length (registers m) = 40 \<Longrightarrow> 0 \<le> i \<Longrightarrow> i < 40 \<Longrightarrow> Machine_WriteRegister i v m = Inr (set_reg (nat i) v m)"
  by (simp add: Machine_WriteRegister_def set_reg_def reg_defs)

lemma ReadRegister_ok: "length (registers m) = 40 \<Longrightarrow> 0 \<le> i \<Longrightarrow> i < 40 \<Longrightarrow> Machine_ReadRegister m i = Inr (reg m (nat i))"
  by (simp add: Machine_ReadRegister_def reg_def reg_defs)

lemma length_set_reg [simp]: "length (registers (set_reg i v m)) = length (registers m)"
  by (simp add: set_reg_def)

text \<open>The program counters after a system call.\<close>

definition advance_pc :: "Machine \<Rightarrow> Machine" where
  "advance_pc m = set_reg NextPCReg (reg m NextPCReg + 4) (set_reg PCReg (reg m NextPCReg) (set_reg PrevPCReg (reg m PCReg) m))"

lemma reg_set_reg': "length (registers m) = 40 \<Longrightarrow> i < 40 \<Longrightarrow> reg (set_reg i v m) j = (if i = j then v else reg m j)"
  by (simp add: reg_def set_reg_def)

lemma returnFromSystemCall_ok: "length (registers m) = 40 \<Longrightarrow> returnFromSystemCall m = Inr (advance_pc m)"
  by (simp add: returnFromSystemCall_def WriteRegister_ok ReadRegister_ok advance_pc_def reg_set_reg' reg_defs)

lemma length_advance [simp]: "length (registers (advance_pc m)) = length (registers m)"
  by (simp add: advance_pc_def)

lemma finish_call_ok:
  "length (registers m) = 40 \<Longrightarrow> finish_call v m k = Inr (advance_pc (set_reg 2 v m), k)"
  using WriteRegister_ok[of m 2 v] by (simp add: finish_call_def returnFromSystemCall_ok)

lemma cpu_ok_regs: "cpu_ok m \<Longrightarrow> length (registers m) = 40"
  by (simp add: cpu_ok_def cpu_mid_def Machine_ok_def)

lemma cpu_ok_set_reg: "cpu_ok m \<Longrightarrow> i < 40 \<Longrightarrow> i \<noteq> 0 \<Longrightarrow> i \<noteq> LoadReg \<Longrightarrow> cpu_ok (set_reg i v m)"
  using cpu_mid_set_reg[of m i v] cpu_ok_regs[of m] by (simp add: cpu_ok_def reg_set_reg')

lemma cpu_ok_advance: "cpu_ok m \<Longrightarrow> cpu_ok (advance_pc m)"
  by (simp add: advance_pc_def cpu_ok_set_reg reg_defs)

subsection \<open>The invariant of the kernel\<close>

text \<open>Every saved register file can be loaded into the processor.\<close>

definition regs_ok :: "u32 list \<Rightarrow> bool" where
  "regs_ok w \<longleftrightarrow> length w = 40 \<and> w ! 0 = 0 \<and> uint (w ! 37) < 32"

definition kst_inv :: "Kst \<Rightarrow> bool" where
  "kst_inv st \<longleftrightarrow> (\<forall>t th. threads st t = Some th \<longrightarrow> regs_ok (userRegisters th))"

definition kinv :: "'h Ker \<Rightarrow> bool" where
  "kinv k \<longleftrightarrow> kst_inv (ks k)"

lemma cpu_ok_iff: "cpu_ok m \<longleftrightarrow> Machine_ok m \<and> regs_ok (registers m)"
  by (auto simp: cpu_ok_def cpu_mid_def regs_ok_def reg_def reg_defs Machine_ok_def)

lemma kinv_simps [simp]:
  "kinv (k\<lparr>k_host := h\<rparr>) = kinv k" "kinv (k\<lparr>k_oft := fs\<rparr>) = kinv k" "kinv (k\<lparr>k_console := c\<rparr>) = kinv k"
  "kinv (k\<lparr>k_mode := st\<rparr>) = kinv k" "kinv (k\<lparr>k_MiMapa := b\<rparr>) = kinv k" "kinv (k\<lparr>machineSockets := s\<rparr>) = kinv k"
  "kinv (k\<lparr>ks := st'\<rparr>) = kst_inv st'" "kinv (k\<lparr>k_cont := cs\<rparr>) = kinv k" "kinv (k\<lparr>k_space := sp\<rparr>) = kinv k"
  by (simp_all add: kinv_def)

interpretation k0: exception_kernel Kern0 kinv
  by unfold_locales (auto simp: Kern0_def other_exception_def split: if_splits)

text \<open>What every system call keeps: when it returns, the processor can go on.\<close>

definition keeps :: "(Machine \<times> 'h Ker) res \<Rightarrow> bool" where
  "keeps r \<longleftrightarrow> (\<forall>m k. r = Inr (m, k) \<longrightarrow> k0.ok m k)"

lemma keeps_Inl [simp]: "keeps (Inl e)"
  by (simp add: keeps_def)

lemma keeps_Inr [simp]: "keeps (Inr (m, k)) = k0.ok m k"
  by (simp add: keeps_def)

lemma keeps_bind: "(\<And>x. r = Inr x \<Longrightarrow> keeps (f x)) \<Longrightarrow> keeps (bindR r f)"
  by (cases r) simp_all

lemma keeps_finish_call: "k0.ok m k \<Longrightarrow> keeps (finish_call v m k)"
  by (simp add: finish_call_ok k0.ok_def cpu_ok_regs cpu_ok_advance cpu_ok_set_reg reg_defs)

lemma keeps_return: "k0.ok m k \<Longrightarrow> keeps (mapR (\<lambda>m. (m, k)) (returnFromSystemCall m))"
  by (simp add: returnFromSystemCall_ok k0.ok_def cpu_ok_regs cpu_ok_advance)

lemma ok_host [simp]:
  "k0.ok m (k\<lparr>k_host := h\<rparr>) = k0.ok m k" "k0.ok m (k\<lparr>k_oft := fs\<rparr>) = k0.ok m k" "k0.ok m (k\<lparr>k_console := c\<rparr>) = k0.ok m k"
  "k0.ok m (k\<lparr>machineSockets := s\<rparr>) = k0.ok m k" "k0.ok m (k\<lparr>k_MiMapa := b\<rparr>) = k0.ok m k"
  by (simp_all add: k0.ok_def)

subsection \<open>Transfers keep the processor\<close>

lemma Create_loop_keeps:
  "Create_loop addr pos c cap acc m k = Some r \<Longrightarrow> k0.ok m k \<Longrightarrow> r = Inr (cap', acc', m', k') \<Longrightarrow> k0.ok m' k'"
proof (induction rule: Create_loop.raw_induct[rotated, consumes 1, case_names step])
  case (step f addr pos c cap acc m k r)
  from step.hyps step.prems obtain v m1 k1 where rd: "Machine_ReadMem Kern0 (addr + of_nat pos) 1 m k = Inr (v, m1, k1)"
    by (auto simp: Let_def split: sum.splits)
  show ?case using step.IH k0.ReadMem_cpu[OF step.prems(1) rd] step.hyps step.prems(2) rd
    by (auto simp: Let_def split: if_splits)
qed

lemma Create_loop_ok:
  "Create_loop addr pos c cap acc m k = Some (Inr (cap', acc', m', k')) \<Longrightarrow> k0.ok m k \<Longrightarrow> k0.ok m' k'"
  by (rule Create_loop_keeps) simp_all

lemma Open_loop_ok: "Open_loop addr i c acc m k = Inr (acc', m', k') \<Longrightarrow> k0.ok m k \<Longrightarrow> k0.ok m' k'"
proof (induction addr i c acc m k arbitrary: acc' rule: Open_loop.induct)
  case (1 addr i c acc m k)
  from 1(2)[unfolded Open_loop.simps[of addr i c acc m k]] obtain r m1 k1 where
    r: "Machine_ReadMem Kern0 (addr + of_nat i) 1 m k = Inr (r, m1, k1)" by (auto simp: res_simps)
  note ok1 = k0.ReadMem_cpu[OF 1(3) r]
  let ?c = "case r of None \<Rightarrow> c | Some v \<Rightarrow> ucast v"
  from 1(2) r show ?case
    unfolding Open_loop.simps[of addr i c acc m k]
    using 1(1)[OF r _ _ refl] ok1 by (auto simp: Let_def split: if_splits)
qed

lemma Write_loop_ok: "Write_loop n addr i c m k = Inr (i', c', m', k') \<Longrightarrow> k0.ok m k \<Longrightarrow> k0.ok m' k'"
proof (induction n arbitrary: i c m k)
  case (Suc n)
  then obtain r m1 k1 c1 where r: "Machine_ReadMem Kern0 (addr + of_nat i) 1 m k = Inr (r, m1, k1)"
    and c: "(m', k') = (m1, k1) \<or> Write_loop n addr (Suc i) c1 m1 k1 = Inr (i', c', m', k')"
    by (auto simp: res_simps split: if_splits)
  with Suc.IH k0.ReadMem_cpu[OF Suc.prems(2) r] show ?case by auto
qed simp

lemma Connect_loop_ok: "Connect_loop n addr i c m k = Inr (c', m', k') \<Longrightarrow> k0.ok m k \<Longrightarrow> k0.ok m' k'"
proof (induction n arbitrary: i c m k)
  case (Suc n)
  then obtain r m1 k1 c1 where r: "Machine_ReadMem Kern0 (addr + of_nat i) 1 m k = Inr (r, m1, k1)"
    and c: "(m', k') = (m1, k1) \<or> Connect_loop n addr (Suc i) c1 m1 k1 = Inr (c', m', k')"
    by (auto simp: res_simps split: if_splits)
  with Suc.IH k0.ReadMem_cpu[OF Suc.prems(2) r] show ?case by auto
qed simp

lemma copy_to_user_ok: "copy_to_user bs addr i m k = Inr (m', k') \<Longrightarrow> k0.ok m k \<Longrightarrow> k0.ok m' k'"
  by (induction bs arbitrary: i m k) (auto simp: res_simps dest: k0.WriteMem_cpu)

lemma console_copy_ok: "console_copy bs sz addr i m k = Inr (n, m', k') \<Longrightarrow> k0.ok m k \<Longrightarrow> k0.ok m' k'"
  by (induction bs arbitrary: i m k) (auto simp: res_simps dest: k0.WriteMem_cpu split: if_splits)

lemmas keeps_intros = keeps_bind keeps_finish_call keeps_return

lemma Create_keeps: "k0.ok m k \<Longrightarrow> keeps (NachOS_Create H m k)"
  unfolding NachOS_Create_def Let_def
  by (auto intro!: keeps_intros dest!: Create_loop_ok simp: retR_def split: prod.splits if_splits option.splits)

lemma Open_keeps: "k0.ok m k \<Longrightarrow> keeps (NachOS_Open H m k)"
  unfolding NachOS_Open_def Let_def by (auto intro!: keeps_intros dest!: Open_loop_ok split: prod.splits if_splits)

lemma Write_keeps: "k0.ok m k \<Longrightarrow> keeps (NachOS_Write H m k)"
  unfolding NachOS_Write_def Let_def assertR_def
  by (auto intro!: keeps_intros dest!: Write_loop_ok split: prod.splits if_splits)

lemma Read_keeps:
  assumes "k0.ok m k"
  shows "keeps (NachOS_Read H m k)"
proof -
  have w: "k0.ok m' k" if "Machine_WriteRegister 2 v m = Inr m'" for v m'
    using that assms WriteRegister_ok[of m 2 v] by (auto simp: k0.ok_def cpu_ok_regs cpu_ok_set_reg reg_defs)
  show ?thesis using assms unfolding NachOS_Read_def Let_def assertR_def
    by (auto simp del: console_loop.simps intro!: keeps_intros dest!: console_copy_ok copy_to_user_ok w split: prod.splits if_splits)
qed

lemma Close_keeps: "k0.ok m k \<Longrightarrow> keeps (NachOS_Close H m k)"
  unfolding NachOS_Close_def Let_def by (auto intro!: keeps_intros split: prod.splits if_splits)

lemma Socket_keeps: "k0.ok m k \<Longrightarrow> keeps (NachOS_Socket H m k)"
  unfolding NachOS_Socket_def Let_def by (auto intro!: keeps_intros split: prod.splits if_splits)

lemma Connect_keeps: "k0.ok m k \<Longrightarrow> keeps (NachOS_Connect H m k)"
  unfolding NachOS_Connect_def Let_def by (auto intro!: keeps_intros dest!: Connect_loop_ok split: prod.splits if_splits)

subsection \<open>Switching keeps the processor\<close>

lemma install_ok:
  assumes "install sp m = Inr m'" "length (mainMemory m) = 4096" "regs_ok (registers m)"
  shows "cpu_ok m' \<and> registers m' = registers m"
  using assms
  by (auto simp: install_def res_simps Space_RestoreState_def cpu_ok_iff Machine_ok_def regs_ok_def split: option.splits if_splits)

lemma run_back_keeps: "k0.ok m k \<Longrightarrow> keeps (run_back c m k)"
  by (auto simp: run_back_def keeps_finish_call keeps_return split: Back.splits)

text \<open>The thread system on a machine whose registers are in order.\<close>

definition st_ok :: "Kst \<Rightarrow> bool" where
  "st_ok st \<longleftrightarrow> kst_inv st \<and> length (mainMemory (kmach st)) = 4096 \<and> regs_ok (registers (kmach st))"

lemma regs_ok_copy: "regs_ok w \<Longrightarrow> map (\<lambda>i. w ! i) [0..<NumTotalRegs] = w"
  by (simp add: regs_ok_def reg_defs) (metis map_nth)

lemma kst_inv_upd: "kst_inv st \<Longrightarrow> kst_inv (st\<lparr>threads := (threads st)(t := None), threadToBeDestroyed := d\<rparr>)"
  by (auto simp: kst_inv_def split: if_splits)

lemma restore_ok:
  assumes "st_ok st" "(case threads st (currentThread st) of None \<Rightarrow> Inl BadAccess
     | Some th \<Rightarrow> (case th_space th of None \<Rightarrow> Inr st
         | Some sp \<Rightarrow> Inr (AddrSpace_RestoreState sp (Thread_RestoreUserState (currentThread st) st)))) = Inr st'"
  shows "st_ok st'"
proof -
  from assms(2) obtain th where th: "threads st (currentThread st) = Some th" by (auto split: option.splits)
  then have "regs_ok (userRegisters th)" using assms(1) unfolding st_ok_def kst_inv_def by blast
  then show ?thesis using assms th regs_ok_copy[of "userRegisters th"]
    by (auto simp: st_ok_def kst_inv_def AddrSpace_RestoreState_def Thread_RestoreUserState_def split: option.splits)
qed

lemma Scheduler_resume_ok:
  assumes "st_ok st" "Scheduler_resume st = Inr st'"
  shows "st_ok st'"
proof (cases "threadToBeDestroyed st")
  case None
  then show ?thesis using assms(2) restore_ok[OF assms(1)] by (simp add: Scheduler_resume_def)
next
  case (Some t)
  have "st_ok (st\<lparr>threads := (threads st)(t := None), threadToBeDestroyed := None\<rparr>)"
    using assms(1) by (simp add: st_ok_def kst_inv_upd)
  from restore_ok[OF this] show ?thesis using assms(2) Some
    by (simp add: Scheduler_resume_def assertR_def split: if_splits)
qed

lemma kst_inv_simps [simp]:
  "kst_inv (Scheduler_ReadyToRun t st) = kst_inv st" "kst_inv (st\<lparr>kmach := m\<rparr>) = kst_inv st"
  "kst_inv (st\<lparr>readyList := l\<rparr>) = kst_inv st" "kst_inv (Thread_setStatus t s st) = kst_inv st"
  "kst_inv (st\<lparr>currentThread := t\<rparr>) = kst_inv st" "kst_inv (st\<lparr>script := sc\<rparr>) = kst_inv st"
  "kst_inv (st\<lparr>threadToBeDestroyed := d\<rparr>) = kst_inv st"
  by (auto simp: kst_inv_def Scheduler_ReadyToRun_def Thread_setStatus_def upd_thread_def Let_def split: if_splits)

lemma Scheduler_Run_ok: "st_ok st \<Longrightarrow> st_ok (Scheduler_Run t st)"
proof -
  assume st: "st_ok st"
  then have "kst_inv (Thread_SaveUserState u st)" for u
    using regs_ok_copy[of "registers (kmach st)"]
    by (auto simp: st_ok_def kst_inv_def Thread_SaveUserState_def upd_thread_def split: if_splits)
  then show ?thesis using st by (auto simp: st_ok_def Scheduler_Run_def Let_def split: option.splits)
qed

lemma ok_st: "k0.ok m k \<Longrightarrow> st_ok ((ks k)\<lparr>kmach := m\<rparr>)"
  by (simp add: k0.ok_def st_ok_def kinv_def cpu_ok_iff Machine_ok_def)

lemma Finish_next_ok':
  assumes "length (mainMemory m) = 4096" "regs_ok (registers m)" "kinv k" "Finish_next m k = Some st"
  shows "st_ok st"
proof -
  let ?st = "Thread_setStatus (currentThread (ks k)) BLOCKED ((ks k)\<lparr>kmach := m, threadToBeDestroyed := Some (currentThread (ks k))\<rparr>)"
  have "st_ok (?st\<lparr>readyList := ts\<rparr>)" for ts using assms by (simp add: st_ok_def kinv_def)
  with assms(4) show ?thesis
    by (auto simp: Finish_next_def Let_def Scheduler_FindNextToRun_def intro!: Scheduler_Run_ok split: list.splits)
qed

lemma init_install_ok:
  assumes "AddrSpace_InitRegisters sp m = Inr m1" "install sp m1 = Inr m'" "length (mainMemory m) = 4096" "length (registers m) = 40"
  shows "cpu_ok m'"
proof -
  have m1: "m1 = m\<lparr>registers := (replicate 40 0)[35 := 4, 29 := as_numPages sp * 128 - 16]\<rparr>"
    using assms(1) InitRegisters_ok[OF assms(4)] by simp
  then have "regs_ok (registers m1)" by (simp add: regs_ok_def)
  then show ?thesis using install_ok[OF assms(2)] m1 assms(3) by simp
qed

lemma ForkAux_keeps:
  assumes "length (mainMemory m) = 4096" "length (registers m) = 40" "kinv k"
  shows "keeps (ForkAux p m k)"
  using init_install_ok[OF _ _ assms(1,2)] assms(3) unfolding ForkAux_def Let_def
  by (auto intro!: keeps_bind simp: k0.ok_def cpu_ok_set_reg WriteRegister_ok cpu_ok_regs reg_defs split: prod.splits)

lemma kst_inv_space: "kst_inv (upd_thread t (\<lambda>th. th\<lparr>th_space := s\<rparr>) st) = kst_inv st"
  by (auto simp: kst_inv_def upd_thread_def split: option.splits if_splits)

lemma load_pages_length: "load_pages e nf sz pt n pg mem = Inr mem' \<Longrightarrow> length mem' = length mem"
  by (induction n arbitrary: pg mem) (auto simp: Let_def res_simps poke_def split: if_splits)

lemma AddrSpace_Exe_mem:
  "AddrSpace_Exe g e u = Inr (sp, u') \<Longrightarrow>
     length (mainMemory (us_m u')) = length (mainMemory (us_m u)) \<and> registers (us_m u') = registers (us_m u)"
  by (auto simp: AddrSpace_Exe_def Let_def res_simps load_pages_length split: if_splits option.splits)

text \<open>\<open>AuxExec\<close> leaves memory and registers of the right size, and a processor that can go on.\<close>

lemma AuxExec_kinv: "AuxExec H p m k = Inr (b, m', k') \<Longrightarrow> kinv k \<Longrightarrow> kinv k'"
  by (auto simp: AuxExec_def Let_def res_simps kst_inv_space kinv_def split: option.splits prod.splits)

lemma AuxExec_ok:
  assumes "AuxExec H p m k = Inr (b, m', k')" "length (mainMemory m) = 4096" "length (registers m) = 40"
  shows "if b then cpu_ok m' else registers m' = registers m \<and> length (mainMemory m') = 4096"
  using assms
  by (auto simp: AuxExec_def Let_def res_simps dest!: AddrSpace_Exe_mem split: option.splits prod.splits)
    (metis init_install_ok)

lemma resume_keeps: "st_ok st \<Longrightarrow> kst_inv (ks k) \<Longrightarrow> keeps (resume H st k)"
proof (induction H st k rule: resume.induct)
  case (1 H st k)
  note sizes = 1(2)[unfolded st_ok_def regs_ok_def]
  show ?case
  proof (cases "k_cont k (currentThread st)")
    case (C_back c)
    have "keeps (run_back c m' (k\<lparr>ks := st'\<rparr>))" if "Scheduler_resume st = Inr st'" "install sp (kmach st') = Inr m'" for st' sp m'
      using Scheduler_resume_ok[OF 1(2) that(1)] install_ok[OF that(2)]
      by (intro run_back_keeps) (simp add: st_ok_def k0.ok_def)
    then show ?thesis unfolding resume.simps[of H st k] C_back by (auto intro!: keeps_bind)
  next
    case (C_ForkAux p)
    then show ?thesis unfolding resume.simps[of H st k] using sizes by (simp add: ForkAux_keeps)
  next
    case (C_AuxExec p)
    show ?thesis
    proof (cases "AuxExec H p (kmach st) (k\<lparr>ks := st\<rparr>)")
      case (Inr r)
      obtain b m' k' where r: "r = (b, m', k')" by (cases r)
      note a = AuxExec_ok[OF Inr[unfolded r]] AuxExec_kinv[OF Inr[unfolded r]]
      have k': "kinv k'" using a(2) sizes by simp
      have "keeps (resume H st1 k')" if "\<not> b" "Finish_next m' k' = Some st1" for st1
      proof -
        have m': "registers m' = registers (kmach st) \<and> length (mainMemory m') = 4096" using a(1) sizes that(1) by simp
        have "st_ok st1" by (rule Finish_next_ok'[OF _ _ _ that(2)]) (use m' k' sizes in \<open>auto simp: regs_ok_def\<close>)
        then show ?thesis using 1(1)[OF C_AuxExec Inr r[symmetric] refl that] k' by (simp add: kinv_def)
      qed
      then show ?thesis unfolding resume.simps[of H st k] using C_AuxExec Inr r a(1) sizes k'
        by (auto simp: k0.ok_def split: option.splits)
    qed (simp add: resume.simps[of H st k] C_AuxExec)
  qed
qed

lemma ok_sizes: "k0.ok m k \<Longrightarrow> length (mainMemory m) = 4096 \<and> regs_ok (registers m) \<and> kinv k"
  by (simp add: k0.ok_def cpu_ok_iff Machine_ok_def)

lemma Yield_keeps:
  assumes "k0.ok m k"
  shows "keeps (do_Yield H c m k)"
proof -
  let ?st = "(ks k)\<lparr>kmach := m\<rparr>"
  have "st_ok (Thread_Yield_body ?st)" if r: "readyList ?st \<noteq> []"
  proof -
    obtain t ts where t: "readyList (ks k) = t # ts" using r by (cases "readyList (ks k)") auto
    have "st_ok (Scheduler_ReadyToRun (currentThread (ks k)) (?st\<lparr>readyList := ts\<rparr>))"
      using ok_st[OF assms] by (simp add: st_ok_def)
    from Scheduler_Run_ok[OF this, of t] show ?thesis using t by (simp add: Thread_Yield_body_def Scheduler_FindNextToRun_def)
  qed
  then show ?thesis unfolding do_Yield_def Let_def using run_back_keeps[OF assms] ok_sizes[OF assms]
    by (auto intro!: resume_keeps simp: kinv_def)
qed

lemma Finish_keeps: "k0.ok m k \<Longrightarrow> keeps (do_Finish H m k)"
  using ok_sizes[of m k] Finish_next_ok'[of m k]
  by (auto simp: do_Finish_def kinv_def intro!: resume_keeps split: option.splits)

lemma new_thread_inv: "kinv k \<Longrightarrow> kinv (new_thread t sp c k)"
  by (auto simp: new_thread_def Let_def kinv_def) (auto simp: kst_inv_def Thread_new_def regs_ok_def split: if_splits)

text \<open>
  \<open>new\<close> does not hand out the block of the page table in use: the documented behaviour of the
  allocator, as far as it is needed.
\<close>

definition alloc_ok :: "'h Host \<Rightarrow> bool" where
  "alloc_ok H \<longleftrightarrow> (\<forall>m k t. pageTable m = Some t \<longrightarrow> sf_table (a_space H m k) \<noteq> t)"

lemma AddrSpace_Fork_cpu:
  assumes "AddrSpace_Fork g other u = Inr (sp, u')" "cpu_ok (us_m u)"
    "\<forall>t. pageTable (us_m u) = Some t \<longrightarrow> sf_table g \<noteq> t"
  shows "cpu_ok (us_m u')"
  using assms
  by (auto simp: AddrSpace_Fork_def Let_def res_simps cpu_ok_iff Machine_ok_def split: option.splits if_splits)

lemma Fork_keeps:
  assumes "k0.ok m k" "alloc_ok H"
  shows "keeps (NachOS_Fork H m k)"
proof -
  have "cpu_ok (us_m u)" if "AddrSpace_Fork (a_space H m k) other \<lparr>us_m = m, MiMapa = b, oftables = f\<rparr> = Inr (sp, u)" for other b f sp u
    using AddrSpace_Fork_cpu[OF that] assms by (simp add: alloc_ok_def k0.ok_def)
  then show ?thesis unfolding NachOS_Fork_def Let_def using assms(1)
    by (auto simp: k0.ok_def new_thread_inv intro!: keeps_intros Finish_keeps split: option.splits)
qed

lemma Exec_keeps: "k0.ok m k \<Longrightarrow> keeps (NachOS_Exec H m k)"
  unfolding NachOS_Exec_def by (auto simp: k0.ok_def new_thread_inv intro!: keeps_bind Yield_keeps)

lemmas syscall_defs = NachOS_Halt_def NachOS_Exit_def NachOS_Join_def NachOS_Yield_def NachOS_Bind_def empty_call_def

lemmas syscall_keeps = Finish_keeps Yield_keeps Exec_keeps Create_keeps Open_keeps Read_keeps Write_keeps
  Close_keeps Fork_keeps Socket_keeps Connect_keeps keeps_return

lemma syscall_ok: "k0.ok m k \<Longrightarrow> alloc_ok H \<Longrightarrow> keeps (syscall H n m k)"
  by (simp add: syscall_def syscall_defs syscall_keeps)

lemma Kern_kernel: "alloc_ok H \<Longrightarrow> exception_kernel (Kern H) kinv"
proof unfold_locales
  fix e m k m' k'
  assume "alloc_ok H" "k_ExceptionHandler (Kern H) e m k = Inr (m', k')" "cpu_ok m" "kinv k"
  then show "cpu_ok m' \<and> kinv k'"
    using syscall_ok[of m k H]
    by (auto simp: Kern_def ExceptionHandler_def other_exception_def res_simps k0.ok_def keeps_def split: if_splits)
qed (auto simp: Kern_def Kern0_def)

end
