(* ===== verification/Nachos_Syscalls.thy ===== *)
theory Nachos_Syscalls
  imports Nachos_Exception
begin

text \<open>
  What the system calls of \<open>userprog/exception.cc\<close> do for user programs: the bytes they transfer,
  and the switch between processes. The definitions are those of theory \<open>Nachos_Exception\<close>.
\<close>

subsection \<open>The memory of a user program\<close>

text \<open>The physical address of a byte that the page table in use maps, and its contents.\<close>

definition user_addr :: "Machine \<Rightarrow> u32 \<Rightarrow> nat option" where
  "user_addr m v =
     (case pageTable m of None \<Rightarrow> None | Some t \<Rightarrow>
     (case tables m t of None \<Rightarrow> None | Some pt \<Rightarrow>
      let vpn = v div 128; f = uint (word_of_int (physicalPage (pt ! unat vpn)) :: u32) in
      if vpn < pageTableSize m \<and> valid (pt ! unat vpn) \<and> f < 32 then Some (nat (f * 128 + uint v mod 128)) else None))"

definition user_byte :: "Machine \<Rightarrow> u32 \<Rightarrow> byte option" where
  "user_byte m v = map_option (\<lambda>p. mainMemory m ! p) (user_addr m v)"

text \<open>Two machines a program cannot tell apart, but for the bits \<open>use\<close> and \<open>dirty\<close>.\<close>

definition same_user :: "Machine \<Rightarrow> Machine \<Rightarrow> bool" where
  "same_user m m' \<longleftrightarrow> registers m' = registers m \<and> mainMemory m' = mainMemory m \<and> tlb m' = tlb m
     \<and> user_byte m' = user_byte m"

lemma same_user_refl [simp]: "same_user m m"
  by (simp add: same_user_def)

lemma same_user_trans: "same_user m m1 \<Longrightarrow> same_user m1 m2 \<Longrightarrow> same_user m m2"
  by (simp add: same_user_def)

lemma user_addr_set_entry:
  assumes "ref_ok m ref" "valid e = valid (entry_at m ref)" "physicalPage e = physicalPage (entry_at m ref)"
  shows "user_addr (set_entry ref e m) = user_addr m"
proof
  fix v
  show "user_addr (set_entry ref e m) v = user_addr m v"
  proof (cases ref)
    case (InTable t i)
    obtain pt where pt: "tables m t = Some pt" "i < length pt" using assms(1) InTable by (auto simp: ref_ok_def split: option.splits)
    have *: "valid (pt[i := e] ! n) = valid (pt ! n)" "physicalPage (pt[i := e] ! n) = physicalPage (pt ! n)" for n
      using assms(2,3) pt InTable by (cases "n = i"; simp add: entry_at_def)+
    show ?thesis using pt InTable * by (auto simp: user_addr_def set_entry_def Let_def split: option.splits)
  qed (simp add: user_addr_def set_entry_def Let_def cong: option.case_cong)
qed

lemma set_entry_tlb: "tlb m = None \<Longrightarrow> ref_ok m ref \<Longrightarrow> tlb (set_entry ref e m) = None"
  by (cases ref) (auto simp: set_entry_def ref_ok_def split: option.splits)

lemma user_Translate:
  assumes "Machine_ok m" "tlb m = None" "user_addr m v = Some p"
  shows "\<exists>m'. Machine_Translate Kern0 v 0 1 False m k = Inr (NoException, int p, m', k) \<and> same_user m m' \<and> Machine_ok m'"
proof -
  from assms(3) obtain t pt where t: "pageTable m = Some t" "tables m t = Some pt"
     and c: "v div 128 < pageTableSize m" "valid (pt ! unat (v div 128))"
       "uint (word_of_int (physicalPage (pt ! unat (v div 128))) :: u32) < 32"
     and p: "int p = uint (word_of_int (physicalPage (pt ! unat (v div 128))) :: u32) * 128 + uint v mod 128"
    by (auto simp: user_addr_def Let_def split: option.splits if_splits)
  have len: "unat (v div 128) < length pt"
    using assms(1,2) t c(1) unfolding Machine_ok_def by (simp add: word_less_nat_alt)
  let ?r = "InTable t (unat (v div 128))"
  have r: "ref_ok m ?r" "entry_at m ?r = pt ! unat (v div 128)" using t len assms(2) by (simp_all add: ref_ok_def entry_at_def)
  have f: "find_entry Kern0 (v div word_of_int PageSize) m k = Inr (Inr ?r, k)"
    using t c len assms(2) by (simp add: find_entry_def PageSize_def SectorSize_def uint_less_length)
  have upd: "upd_ok (Kern0 :: 'a Ker Kernel)" by (simp add: Kern0_def)
  from Machine_Translate_ok[OF assms(1) upd, of 1 v 0 False k] obtain exn pa m' k' where
    tr: "Machine_Translate Kern0 v 0 1 False m k = Inr (exn, pa, m', k')" by auto
  have "exn = NoException"
    using tr f r c t assms(2)
    by (auto simp: Machine_Translate_def Let_def mem_defs assertR_def split: if_splits)
  with Machine_Translate_ok[OF assms(1) upd, of 1 v 0 False k] tr f r(2) p obtain
    "pa = int p" "k' = k" "m' = set_entry ?r ((pt ! unat (v div 128))\<lparr>use := True, dirty := dirty (pt ! unat (v div 128))\<rparr>) m"
    by auto
  then show ?thesis using tr \<open>exn = NoException\<close> r assms(1,2) set_entry_tlb[OF assms(2) r(1)]
      user_addr_set_entry[OF r(1), of "(pt ! unat (v div 128))\<lparr>use := True, dirty := dirty (pt ! unat (v div 128))\<rparr>"]
    by (auto simp: same_user_def user_byte_def)
qed

lemma cpu_ok_same: "cpu_ok m \<Longrightarrow> same_user m m' \<Longrightarrow> Machine_ok m' \<Longrightarrow> cpu_ok m'"
  by (simp add: cpu_ok_iff same_user_def)

lemma user_ReadMem:
  assumes "cpu_ok m" "tlb m = None" "user_byte m v = Some b"
  shows "\<exists>m'. Machine_ReadMem Kern0 v 1 m k = Inr (Some (scast b), m', k) \<and> same_user m m' \<and> cpu_ok m'"
proof -
  have mok: "Machine_ok m" "length (mainMemory m) = 4096" using assms(1) by (simp_all add: cpu_ok_iff Machine_ok_def)
  from assms(3) obtain p where p: "user_addr m v = Some p" "b = mainMemory m ! p" by (auto simp: user_byte_def)
  from user_Translate[OF mok(1) assms(2) p(1)] obtain m' where
    m': "Machine_Translate Kern0 v 0 1 False m k = Inr (NoException, int p, m', k)" "same_user m m'" "Machine_ok m'" by blast
  have "p < 4096"
  proof -
    have "upd_ok (Kern0 :: 'a Ker Kernel)" by (simp add: Kern0_def)
    from Machine_Translate_ok[OF mok(1) this, of 1 v 0 False k] m'(1) show ?thesis by auto
  qed
  then show ?thesis using m' p(2) mok cpu_ok_same[OF assms(1) m'(2,3)]
    by (simp add: Machine_ReadMem_def translate_or_trap_def load_phys_def same_user_def)
qed

subsection \<open>Writing\<close>

lemma scast_byte: "(ucast (scast (b :: byte) :: u32) :: byte) = b"
  by (rule bit_word_eqI) (auto simp: bit_simps)

lemma word_bytes_ascii:
  assumes "uint (b :: byte) < 128"
  shows "word_bytes (scast b) = [b, 0, 0, 0]"
proof -
  have "b < 128" using assms by (simp add: word_less_def)
  then have "\<not> bit b 7" by (simp add: bit_iff_odd div_word_less)
  then show ?thesis by (auto simp: word_bytes_def scast_byte bit_simps intro!: bit_word_eqI)
qed

text \<open>One \<open>ReadMem\<close> into the buffer: it stores four bytes, an ASCII character and three zeros.\<close>

lemma store_int_ascii:
  assumes "uint b < 128" "i \<le> length c"
  shows "store_int c i (scast b) = (if i + 4 \<le> length c then Inr (take i c @ [b, 0, 0, 0] @ drop (i + 4) c) else Inl BadAccess)"
  using assms by (auto simp: store_int_def poke_def word_bytes_ascii overwrite_def numeral_eq_Suc)

text \<open>
  The loop: it stops at the first newline or behind the last byte. The buffer then holds the bytes
  of the program up to there and three zeros behind them, if there is room for these.
\<close>

lemma Write_loop_exact:
  assumes "cpu_ok m" "tlb m = None" "length bs = n" "bs \<noteq> []" "i \<le> length c" "\<forall>b \<in> set bs. uint b < 128"
    "\<forall>j < n. user_byte m (addr + of_nat (i + j)) = Some (bs ! j)"
  defines "nl \<equiv> length (takeWhile (\<lambda>b. b \<noteq> 10) bs)"
  defines "l \<equiv> min n (Suc nl)"
  shows "if i + l + 3 \<le> length c
     then \<exists>m'. Write_loop n addr i c m k = Inr (i + nl, take i c @ take l bs @ [0, 0, 0] @ drop (i + l + 3) c, m', k)
        \<and> same_user m m' \<and> cpu_ok m'
     else Write_loop n addr i c m k = Inl BadAccess"
  using assms(1-7) unfolding nl_def l_def
proof (induction n arbitrary: bs i c m)
  case (Suc n)
  obtain b bs' where bs: "bs = b # bs'" "length bs' = n" using Suc.prems(3) by (cases bs) auto
  have ub: "user_byte m (addr + of_nat i) = Some b" using Suc.prems(7)[rule_format, of 0] bs by simp
  from user_ReadMem[OF Suc.prems(1,2) ub] obtain m1 where
    m1: "Machine_ReadMem Kern0 (addr + of_nat i) 1 m k = Inr (Some (scast b), m1, k)" "same_user m m1" "cpu_ok m1" by blast
  have b: "uint b < 128" using Suc.prems(6) bs by simp
  note st = store_int_ascii[OF b Suc.prems(5)]
  let ?c = "take i c @ [b, 0, 0, 0] @ drop (i + 4) c"
  show ?case
  proof (cases "i + 4 \<le> length c")
    case False
    then show ?thesis using m1 st bs by (simp add: min_def)
  next
    case True
    have ci: "ixR ?c (int i) = Inr b" using True by (simp add: ixR_def nth_append)
    consider "b = 10" | "b \<noteq> 10" "bs' = []" | "b \<noteq> 10" "bs' \<noteq> []" by blast
    then show ?thesis
    proof cases
      case 3
      have ub': "\<forall>j < n. user_byte m1 (addr + of_nat (Suc i + j)) = Some (bs' ! j)"
        using Suc.prems(7)[rule_format, of "Suc _"] bs m1(2) by (auto simp: same_user_def)
      have t1: "tlb m1 = None" using m1(2) Suc.prems(2) by (simp add: same_user_def)
      have "Suc i \<le> length ?c" "\<forall>b \<in> set bs'. uint b < 128" using True Suc.prems(6) bs by simp_all
      note ih = Suc.IH[OF m1(3) t1 bs(2) 3(2) this ub']
      have t: "take (Suc i) ?c = take i c @ [b]" "length ?c = length c" using True by simp_all
      have dr: "drop (Suc i + x + 3) ?c = drop (Suc i + x + 3) c" for x
      proof -
        have e: "drop (Suc i + x + 3) ys = drop x (drop (i + 4) ys)" for ys :: "byte list" by (simp add: ac_simps)
        have "drop (i + 4) ?c = drop (i + 4) c" using True by simp
        then show ?thesis unfolding e by (rule arg_cong)
      qed
      show ?thesis using ih m1 st ci True 3 bs same_user_trans[OF m1(2)] unfolding t dr by (auto split: if_splits)
    qed (use m1 st ci True bs in \<open>auto simp: add.commute\<close>)
  qed
qed simp

lemma user_byte_registers [simp]: "user_byte (m\<lparr>registers := r\<rparr>) = user_byte m"
  by (simp add: user_byte_def user_addr_def fun_eq_iff cong: option.case_cong)

subsection \<open>Properties\<close>

text \<open>C33: \<open>Write\<close> of text, exactly. A program writes ASCII text from mapped memory to the console or
  to an open handle, and \<open>new char[size + 1]\<close> gives a block of exactly this size. If the text has a
  newline that is not among its last two bytes, the call returns: the console gets the text up to and with the first
  newline, in one piece; a handle gets \<open>size\<close> bytes, of which only these are from the program, followed by three
  zeros and by what the heap block held before. The result is the full size in both cases, the program goes on behind the call and no memory of it changes. In all other cases the call
  writes beyond the end of the block: every \<open>ReadMem\<close> of one byte stores four.\<close>

theorem Write_line:
  assumes "cpu_ok m" "tlb m = None" "sint (reg m 5) = int (length bs)" "bs \<noteq> []" "\<forall>b \<in> set bs. 0 < uint b \<and> uint b < 128"
    "\<forall>j < length bs. user_byte m (reg m 4 + of_nat j) = Some (bs ! j)"
    "length (a_block H k (int (length bs) + 1)) = length bs + 1"
    "cur_oft k = Inr (a, t)" "OpenFiles_ok t"
    "sint (reg m 6) = 1 \<or> 2 \<le> sint (reg m 6) \<and> handles t (sint (reg m 6)) = Some u"
  defines "nl \<equiv> length (takeWhile (\<lambda>b. b \<noteq> 10) bs)"
  defines "content \<equiv> take (nl + 1) bs @ [0, 0, 0] @ drop (nl + 4) (a_block H k (int (length bs) + 1))"
  shows "if nl + 3 \<le> length bs
    then \<exists>m'. NachOS_Write H m k = Inr (m', if sint (reg m 6) = 1 then k\<lparr>k_console := k_console k @ take (nl + 1) bs\<rparr>
          else k\<lparr>k_host := h_write H u (take (length bs) content) (k_host k)\<rparr>)
       \<and> mainMemory m' = mainMemory m \<and> user_byte m' = user_byte m
       \<and> registers m' = (registers m)[2 := reg m 5, PrevPCReg := reg m PCReg, PCReg := reg m NextPCReg, NextPCReg := reg m NextPCReg + 4]
    else NachOS_Write H m k = Inl BadAccess"
proof -
  let ?blk = "a_block H k (int (length bs) + 1)"
  have len: "length (registers m) = 40" using cpu_ok_regs[OF assms(1)] .
  have rd: "Machine_ReadRegister m 4 = Inr (reg m 4)" "Machine_ReadRegister m 5 = Inr (reg m 5)"
      "Machine_ReadRegister m 6 = Inr (reg m 6)" using ReadRegister_ok[OF len] by simp_all
  have "\<forall>j < length bs. user_byte m (reg m 4 + of_nat (0 + j)) = Some (bs ! j)" "\<forall>b \<in> set bs. uint b < 128"
    using assms(5,6) by simp_all
  note w = Write_loop_exact[OF assms(1,2) refl assms(4) _ this(2,1), where c = ?blk and k = k, folded nl_def, unfolded assms(7)]
  show ?thesis
  proof (cases "nl + 3 \<le> length bs")
    case False
    then have "Write_loop (length bs) (reg m 4) 0 ?blk m k = Inl BadAccess" using w by (auto simp: min_def split: if_splits)
    then show ?thesis using False rd assms(3) by (simp add: NachOS_Write_def Let_def)
  next
    case True
    with w obtain m' where loop: "Write_loop (length bs) (reg m 4) 0 ?blk m k = Inr (nl, content, m', k)" and m': "same_user m m'" "cpu_ok m'"
      by (auto simp: content_def min_def add.commute)
    have tl: "length (take (nl + 1) bs) = nl + 1" using True by simp
    have u0: "updR content (int nl + 1) 0 = Inr content"
    proof -
      have "content[nat (int nl + 1) := 0] = content"
        using tl by (simp add: content_def list_update_append nat_add_distrib)
      moreover have "int nl + 1 < int (length content)" using tl by (simp add: content_def)
      ultimately show ?thesis by (simp add: updR_def)
    qed
    have nz: "b \<noteq> 0" if "b \<in> set (take (nl + 1) bs)" for b using assms(5) in_set_takeD[OF that] by force
    have tw: "takeWhile (\<lambda>b. b \<noteq> 0) content = take (nl + 1) bs" "0 \<in> set content"
      using takeWhile_append2[of "take (nl + 1) bs" "\<lambda>b. b \<noteq> 0"] nz by (auto simp: content_def)
    have op: "OpenFiles_isOpened t (sint (reg m 6)) = Inr True" "OpenFiles_getUnixHandle t (sint (reg m 6)) = Inr u"
      if "sint (reg m 6) \<noteq> 1"
      using that assms(9,10) handles_range[OF assms(9), of "sint (reg m 6)" u] isOpened_ok[OF assms(9), of "sint (reg m 6)"]
      by (auto simp: getUnixHandle_ok)
    have "NachOS_Write H m k = Inr (advance_pc (set_reg 2 (reg m 5) m'), if sint (reg m 6) = 1 then k\<lparr>k_console := k_console k @ take (nl + 1) bs\<rparr>
          else k\<lparr>k_host := h_write H u (take (length bs) content) (k_host k)\<rparr>)"
      unfolding NachOS_Write_def using rd loop u0 tw op assms(3,8,10) cpu_ok_regs[OF m'(2)] by (auto simp: finish_call_ok)
    moreover have "registers (advance_pc (set_reg 2 (reg m 5) m')) =
        (registers m)[2 := reg m 5, PrevPCReg := reg m PCReg, PCReg := reg m NextPCReg, NextPCReg := reg m NextPCReg + 4]"
      using m'(1) len by (simp add: advance_pc_def set_reg_def reg_def same_user_def reg_defs)
    moreover have "user_byte (advance_pc (set_reg 2 (reg m 5) m')) = user_byte m" "mainMemory (advance_pc (set_reg 2 (reg m 5) m')) = mainMemory m"
      using m'(1) by (simp_all add: advance_pc_def set_reg_def same_user_def)
    ultimately show ?thesis using True by simp
  qed
qed

text \<open>A program of one page with a line of text and two more characters at address 8, which is about to write it to the console.\<close>

definition demo_host :: "byte list Host" where
  "demo_host = \<lparr>h_open = (\<lambda>f h. (3, h)), h_creat = (\<lambda>f h. (3, h)), h_read = (\<lambda>d n h. (Some [], h)),
     h_write = (\<lambda>d bs h. h @ bs), h_close = (\<lambda>d h. (0, h)), h_socket = (\<lambda>f t h. (4, h)),
     h_connect = (\<lambda>b d ip p h. h), h_exe = (\<lambda>f h. (None, h)), a_string = (\<lambda>v k. None), a_thread = (\<lambda>k. 9),
     a_space = (\<lambda>m k. demo_fresh_space\<lparr>sf_table := Suc (the (pageTable m))\<rparr>), a_block = (\<lambda>k n. replicate (nat n) 0)\<rparr>"

definition demo_user :: "u32 list \<Rightarrow> Machine" where
  "demo_user r = (Machine_new False [] False)\<lparr>registers := r @ replicate (40 - length r) 0,
     mainMemory := (replicate 4096 0)[136 := 111, 137 := 107, 138 := 10, 139 := 33, 140 := 33],
     tables := [5 \<mapsto> [new_entry 0 1], 6 \<mapsto> [new_entry 0 2]], pageTable := Some 5, pageTableSize := 1\<rparr>"

definition demo_kst :: Kst where
  "demo_kst = \<lparr>threads = [0 \<mapsto> \<lparr>th_status = RUNNING, th_space = Some (5, 1), userRegisters = replicate 40 0\<rparr>,
       1 \<mapsto> \<lparr>th_status = READY, th_space = Some (6, 1), userRegisters = (replicate 40 0)[34 := 12, 35 := 16]\<rparr>],
     currentThread = 0, readyList = [1], threadToBeDestroyed = None, ilevel = IntOff, saved = (\<lambda>t. []), script = (\<lambda>t. []),
     sems = (\<lambda>s. \<lparr>sem_value = 0, sem_queue = []\<rparr>), locks = (\<lambda>l. \<lparr>lk_sem = 0, isHeld = False, lk_owner = None\<rparr>), conds = (\<lambda>c. []),
     kmach = Machine_new False [] False\<rparr>"

definition demo_ker :: "byte list Ker" where
  "demo_ker = \<lparr>ks = demo_kst, k_MiMapa = MiMapa (demo_ustate (7 # replicate 31 0)),
     k_oft = [6 \<mapsto> demo_table], k_space = [0 \<mapsto> demo_space\<lparr>as_numPages := 1\<rparr>, 1 \<mapsto> demo_space\<lparr>as_pageTable := Some 6, as_numPages := 1\<rparr>],
     k_cont = (\<lambda>t. C_back B_return), machineSockets = {}, k_mode = UserMode, k_console = [], k_host = []\<rparr>"

theorem Write_line_witness:
  "\<exists>m'. NachOS_Write demo_host (demo_user [0, 0, 7, 0, 8, 5, 1]) demo_ker = Inr (m', demo_ker\<lparr>k_console := [111, 107, 10]\<rparr>)
     \<and> reg m' 2 = 5"
proof -
  let ?m = "demo_user [0, 0, 7, 0, 8, 5, 1]" and ?bs = "[111, 107, 10, 33, 33 :: byte]"
  have "Machine_ok ?m" by (simp add: Machine_ok_def demo_user_def Machine_new_def reg_defs)
  then have ok: "cpu_ok ?m" by (simp add: cpu_ok_iff regs_ok_def demo_user_def)
  have r: "reg ?m 4 = 8" "reg ?m 5 = 5" "reg ?m 6 = 1" "tlb ?m = None" "length (registers ?m) = 40"
    by (simp_all add: demo_user_def reg_def Machine_new_def)
  have ub: "user_byte ?m 8 = Some 111" "user_byte ?m 9 = Some 107" "user_byte ?m 10 = Some 10" "user_byte ?m 11 = Some 33" "user_byte ?m 12 = Some 33"
    by (simp_all add: user_byte_def user_addr_def demo_user_def Machine_new_def new_entry_def)
  have oft: "cur_oft demo_ker = Inr (6, demo_table)"
    by (simp add: cur_oft_def cur_space_def demo_ker_def demo_kst_def demo_space_def)
  have "\<forall>j < length ?bs. user_byte ?m (reg ?m 4 + of_nat j) = Some (?bs ! j)"
    using ub r(1) by (auto simp: less_Suc_eq)
  from Write_line[OF ok r(4) _ _ _ this _ oft demo_table_ok, of demo_host] obtain m' where
    "NachOS_Write demo_host ?m demo_ker = Inr (m', demo_ker\<lparr>k_console := k_console demo_ker @ [111, 107, 10]\<rparr>)"
    "registers m' = (registers ?m)[2 := reg ?m 5, PrevPCReg := reg ?m PCReg, PCReg := reg ?m NextPCReg, NextPCReg := reg ?m NextPCReg + 4]"
    using r by (auto simp: demo_host_def)
  then show ?thesis using r by (auto simp: reg_def[of m'] reg_defs demo_ker_def)
qed

lemma finish_call_regs: "registers (advance_pc m) = (registers m)[PrevPCReg := reg m PCReg, PCReg := reg m NextPCReg, NextPCReg := reg m NextPCReg + 4]"
  by (simp add: advance_pc_def set_reg_def)

text \<open>C34: \<open>Yield\<close> switches processes. When another user thread that gave up the processor in a system call is first
  in the ready list, the processor goes on in that thread behind its call: with exactly the
  registers it had, the program counters advanced, and the page table of its address space.
  The registers of the thread that yielded are kept in its control block, it is the last of the
  ready list, and it will continue behind its own call. Memory and all other threads are
  untouched.\<close>

theorem Yield_switches:
  assumes "cpu_ok m" "tlb m = None" "currentThread (ks k) = a" "readyList (ks k) = b # q" "a \<noteq> b" "threadToBeDestroyed (ks k) = None"
    "threads (ks k) a = Some tha" "th_space tha \<noteq> None"
    "threads (ks k) b = Some thb" "th_space thb = space_key sp" "length (userRegisters thb) = 40" "k_cont k b = C_back B_return"
    "k_space k b = Some sp" "as_pageTable sp = Some t" "tables m t = Some pt" "unat (as_numPages sp) \<le> length pt"
  shows "\<exists>m' k'. NachOS_Yield H m k = Inr (m', k')
    \<and> registers m' = (userRegisters thb)[PrevPCReg := userRegisters thb ! PCReg, PCReg := userRegisters thb ! NextPCReg,
        NextPCReg := userRegisters thb ! NextPCReg + 4]
    \<and> pageTable m' = Some t \<and> pageTableSize m' = as_numPages sp \<and> mainMemory m' = mainMemory m \<and> tables m' = tables m
    \<and> currentThread (ks k') = b \<and> readyList (ks k') = q @ [a]
    \<and> threads (ks k') = (threads (ks k))(a \<mapsto> tha\<lparr>th_status := READY, userRegisters := registers m\<rparr>, b \<mapsto> thb\<lparr>th_status := RUNNING\<rparr>)
    \<and> k_cont k' = (k_cont k)(a := C_back B_return) \<and> k_space k' = k_space k"
proof -
  have len: "length (registers m) = 40" using cpu_ok_regs[OF assms(1)] .
  have cp: "map (\<lambda>i. w ! i) [0..<NumTotalRegs] = w" if "length w = 40" for w :: "u32 list"
    using map_nth[of w] that by (simp add: reg_defs)
  let ?st = "(ks k)\<lparr>kmach := m\<rparr>"
  let ?th = "(threads (ks k))(a \<mapsto> tha\<lparr>th_status := READY, userRegisters := registers m\<rparr>, b \<mapsto> thb\<lparr>th_status := RUNNING\<rparr>)"
  let ?st1 = "(ks k)\<lparr>threads := ?th, currentThread := b, readyList := q @ [a], script := (script (ks k))(a := A_resume # script (ks k) a), kmach := m\<rparr>"
  have y: "Thread_Yield_body ?st = ?st1"
    using assms(3-9) cp[OF len]
    by (auto simp: Thread_Yield_body_def Scheduler_FindNextToRun_def Scheduler_Run_def Scheduler_ReadyToRun_def
        Thread_setStatus_def Thread_SaveUserState_def upd_thread_def Let_def AddrSpace_RestoreState_def intro!: Kst.equality)
  let ?m1 = "m\<lparr>registers := userRegisters thb, pageTable := Some t, pageTableSize := as_numPages sp\<rparr>"
  have r: "Scheduler_resume ?st1 = Inr (?st1\<lparr>kmach := ?m1\<rparr>)"
    using assms(6,10,11,14) cp by (simp add: Scheduler_resume_def space_key_def AddrSpace_RestoreState_def Thread_RestoreUserState_def)
  have i: "install sp ?m1 = Inr ?m1" using assms(2,14-16) by (simp add: install_def Space_RestoreState_def)
  have "NachOS_Yield H m k = Inr (advance_pc ?m1, k\<lparr>k_cont := (k_cont k)(a := C_back B_return), ks := ?st1\<lparr>kmach := ?m1\<rparr>\<rparr>)"
    using y r i assms(3-5,11-13)
    by (simp add: NachOS_Yield_def do_Yield_def resume.simps cur_space_def run_back_def returnFromSystemCall_ok)
  then show ?thesis using assms(11) by (auto simp: finish_call_regs reg_def advance_pc_def set_reg_def)
qed

lemma demo_user_ok: "length r = 40 \<Longrightarrow> regs_ok r \<Longrightarrow> cpu_ok (demo_user r)"
  by (simp add: cpu_ok_iff demo_user_def Machine_ok_def Machine_new_def)

theorem Yield_switches_witness:
  "\<exists>m' k'. NachOS_Yield demo_host (demo_user (replicate 40 0)) demo_ker = Inr (m', k')
    \<and> reg m' PrevPCReg = 12 \<and> reg m' PCReg = 16 \<and> reg m' NextPCReg = 20 \<and> pageTable m' = Some 6 \<and> readyList (ks k') = [0]"
proof -
  let ?thb = "\<lparr>th_status = READY, th_space = Some (6, 1), userRegisters = (replicate 40 0)[34 := 12, 35 := 16]\<rparr>"
  have k: "currentThread (ks demo_ker) = 0" "readyList (ks demo_ker) = 1 # []" "threadToBeDestroyed (ks demo_ker) = None"
      "threads (ks demo_ker) 0 = Some \<lparr>th_status = RUNNING, th_space = Some (5, 1), userRegisters = replicate 40 0\<rparr>"
      "threads (ks demo_ker) 1 = Some ?thb" "k_cont demo_ker 1 = C_back B_return"
      "k_space demo_ker 1 = Some (demo_space\<lparr>as_pageTable := Some 6, as_numPages := 1\<rparr>)"
    by (simp_all add: demo_ker_def demo_kst_def)
  have m: "cpu_ok (demo_user (replicate 40 0))" "tlb (demo_user (replicate 40 0)) = None"
      "tables (demo_user (replicate 40 0)) 6 = Some [new_entry 0 2]"
    by (rule demo_user_ok; simp add: regs_ok_def) (simp_all add: demo_user_def Machine_new_def)
  from Yield_switches[OF m(1,2) k(1,2) _ k(3,4) _ k(5) _ _ k(6,7) _ m(3), of demo_host] show ?thesis
    by (auto simp: space_key_def reg_defs reg_def)
qed

text \<open>C32: The kernel keeps the processor in order. Started in order (memory and registers of their sizes, register 0
  zero, a pending load of a general register, a page table that is as long as it says, and saved
  registers of every thread that can be loaded), after any number of instructions of
  user programs, with all the system calls, faults and thread switches they cause, processor
  and kernel are in order again, unless Nachos has stopped. Besides that of \<open>new\<close> nothing is
  assumed of the host.\<close>

theorem kernel_keeps_processor:
  assumes "alloc_ok H" "cpu_ok m" "kinv k" "Machine_Run (Kern H) (\<lambda>m k. Inr (m, k)) n m k = Inr (m', k')"
  shows "cpu_ok m' \<and> kinv k'"
proof -
  note K = Kern_kernel[OF assms(1)]
  have "exception_kernel.ok kinv m (k_setStatus (Kern H) UserMode k)"
    using assms(2,3) by (simp add: exception_kernel.ok_def[OF K] Kern_def Kern0_def)
  from exception_kernel.Run_cpu[OF K this assms(4)[unfolded Machine_Run_def]] show ?thesis
    by (simp add: exception_kernel.ok_def[OF K])
qed

lemma demo_host_ok: "alloc_ok demo_host"
  by (simp add: alloc_ok_def demo_host_def)

lemma demo_ker_ok: "kinv demo_ker"
  by (simp add: kinv_def kst_inv_def demo_ker_def demo_kst_def regs_ok_def)


text \<open>The instruction \<open>SYSCALL\<close> at address 0, with the number of \<open>Join\<close> in register 2.\<close>

definition demo_call :: Machine where
  "demo_call = (demo_user ((replicate 40 0)[2 := 3]))\<lparr>mainMemory := (replicate 4096 0)[128 := 12]\<rparr>"

definition demo_read :: Machine where
  "demo_read = demo_call\<lparr>tables := [6 \<mapsto> [new_entry 0 2], 5 \<mapsto> [(new_entry 0 1)\<lparr>use := True\<rparr>]]\<rparr>"

lemma demo_fetch: "Machine_ReadMem (Kern demo_host) 0 4 demo_call k = Inr (Some 12, demo_read, k)"
  by (simp add: Machine_ReadMem_def translate_or_trap_def Machine_Translate_def find_entry_def demo_call_def demo_read_def
      demo_user_def Machine_new_def new_entry_def mem_defs entry_at_def set_entry_def load_phys_def WordToHost_def bytes_word_def Kern_def Kern0_def)

lemma demo_decode: "opCode (Instruction_Decode 12) = OP_SYSCALL"
  by code_simp

lemma demo_call_regs: "registers demo_call = (replicate 40 0)[2 := 3]" "registers demo_read = (replicate 40 0)[2 := 3]"
  by (simp_all add: demo_call_def demo_read_def demo_user_def Machine_new_def)

lemma demo_run: "\<exists>m' k'. Machine_Run (Kern demo_host) (\<lambda>m k. Inr (m, k)) 1 demo_call demo_ker = Inr (m', k') \<and> reg m' NextPCReg = 4"
proof -
  let ?k = "demo_ker\<lparr>k_mode := UserMode\<rparr>"
  have d: "Machine_DelayedLoad 0 0 (set_reg BadVAddrReg 0 demo_read) = Inr demo_read"
  proof -
    have "(replicate 40 0 :: u32 list)[2 := 3, 39 := 0, 0 := 0, 37 := 0, 38 := 0, 0 := 0] = registers demo_read"
      unfolding demo_call_regs(2) by (simp add: list_eq_iff_nth_eq nth_list_update)
    then show ?thesis
      using demo_call_regs by (simp add: Machine_DelayedLoad_def set_reg_def reg_def reg_defs updR_def)
  qed
  have j: "NachOS_Join demo_read k = Inr (advance_pc demo_read, k)" for k :: "byte list Ker"
    using demo_call_regs by (simp add: NachOS_Join_def returnFromSystemCall_ok)
  have h: "k_ExceptionHandler (Kern demo_host) SyscallException demo_read k = Inr (advance_pc demo_read, k)" for k :: "byte list Ker"
    using demo_call_regs j ReadRegister_ok[of demo_read 2]
    by (simp add: Kern_def ExceptionHandler_def syscall_def reg_def)
  have "Machine_OneInstruction (Kern demo_host) demo_call ?k = Inr (advance_pc demo_read, ?k)"
    using demo_fetch[of ?k] demo_call_regs d h
    by (simp add: Machine_OneInstruction_def exec_switch_def demo_decode group_of_def trap_def Machine_RaiseException_def finish_def reg_def reg_defs Let_def Kern_def Kern0_def)
  then show ?thesis using demo_call_regs by (simp add: Machine_Run_def Kern_def Kern0_def finish_call_regs reg_def[of "advance_pc _"] reg_def reg_defs)
qed

theorem kernel_keeps_processor_witness:
  "\<exists>m' k'. Machine_Run (Kern demo_host) (\<lambda>m k. Inr (m, k)) 1 demo_call demo_ker = Inr (m', k') \<and> reg m' NextPCReg = 4
     \<and> cpu_ok m' \<and> kinv k'"
proof -
  have "cpu_ok demo_call" using demo_call_regs(1)
    by (simp add: cpu_ok_iff regs_ok_def Machine_ok_def) (simp add: demo_call_def demo_user_def Machine_new_def)
  from kernel_keeps_processor[OF demo_host_ok this demo_ker_ok] demo_run show ?thesis by blast
qed

end
