(* ===== verification/Nachos_Main.thy ===== *)
theory Nachos_Main
  imports Nachos_Syscalls
begin

text \<open>
  \<open>threads/main.cc\<close>, \<open>threads/system.cc\<close>, \<open>threads/utility.cc\<close>, \<open>threads/preemptive.cc\<close> and the start of a
  user program in \<open>userprog/progtest.cc\<close>. The command line is interpreted twice, by
  \<open>Initialize\<close> and by \<open>main\<close>, each with its own idea of how many words an option takes. The
  theorem about \<open>StartProcess\<close> puts the loader, the page tables and the memory of the machine
  together: what the processor then reads is the program file.
\<close>

subsection \<open>Debug messages\<close>

text \<open>\<open>enableFlags\<close> is \<open>None\<close> before \<open>DebugInit\<close>; \<open>strchr\<close> finds the zero at the end of a string.\<close>

definition DebugInit :: "string \<Rightarrow> string option" where
  "DebugInit flagList = Some flagList"

definition strchr_found :: "string \<Rightarrow> char \<Rightarrow> bool" where
  "strchr_found s c \<longleftrightarrow> c \<in> set s \<or> c = CHR 0x00"

definition DebugIsEnabled :: "string option \<Rightarrow> char \<Rightarrow> bool" where
  "DebugIsEnabled enableFlags flag = (case enableFlags of None \<Rightarrow> False
     | Some s \<Rightarrow> strchr_found s flag \<or> strchr_found s (CHR ''+''))"

definition DEBUG :: "string option \<Rightarrow> char \<Rightarrow> string \<Rightarrow> string \<Rightarrow> string" where
  "DEBUG enableFlags flag text stdout = (if DebugIsEnabled enableFlags flag then stdout @ text else stdout)"

subsection \<open>The command line\<close>

text \<open>\<open>atoi\<close>: blanks, a sign, and the digits up to the first other character.\<close>

definition is_digit :: "char \<Rightarrow> bool" where
  "is_digit c \<longleftrightarrow> 48 \<le> (of_char c :: nat) \<and> of_char c \<le> (57 :: nat)"

definition digits_value :: "string \<Rightarrow> int" where
  "digits_value s = fold (\<lambda>c n. n * 10 + (of_char c - 48)) (takeWhile is_digit s) 0"

definition atoi :: "string \<Rightarrow> int" where
  "atoi s = (let s = dropWhile (\<lambda>c. c \<in> set [CHR '' '', CHR 0x09, CHR 0x0A, CHR 0x0B, CHR 0x0C, CHR 0x0D]) s in
     case s of [] \<Rightarrow> 0
     | c # r \<Rightarrow> if c = CHR ''-'' then - digits_value r else if c = CHR ''+'' then digits_value r else digits_value s)"

text \<open>The macros that choose what is compiled.\<close>

record Build =
  b_THREADS :: bool
  b_USER_PROGRAM :: bool
  b_FILESYS_NEEDED :: bool
  b_FILESYS :: bool
  b_NETWORK :: bool
  b_VM :: bool

text \<open>The variables of \<open>Initialize\<close>; \<open>rely\<close> is kept as the text given to \<open>atof\<close>, \<open>timeSlice\<close> has no
  value before it is assigned.\<close>

record Options =
  debugArgs :: string
  randomYield :: bool
  randomSeed :: "int list"
  preemptiveScheduling :: bool
  timeSlice :: "int option"
  debugUserProg :: bool
  format :: bool
  rely :: string
  netname :: int

definition Options0 :: Options where
  "Options0 = \<lparr>debugArgs = [], randomYield = False, randomSeed = [], preemptiveScheduling = False,
     timeSlice = None, debugUserProg = False, format = False, rely = ''1'', netname = 0\<rparr>"

definition DEFAULT_TIME_SLICE :: int where "DEFAULT_TIME_SLICE = 50000"

text \<open>One turn of the loop: the options after it, and \<open>argCount\<close>. \<open>argv\<close> is not empty.\<close>

definition Initialize_option :: "Build \<Rightarrow> string list \<Rightarrow> Options \<Rightarrow> (Options \<times> nat) res" where
  "Initialize_option B argv opts =
     (let arg = argv ! 0; argc = length argv in
      if arg = ''-d'' then
        (if argc = 1 then Inr (opts\<lparr>debugArgs := ''+''\<rparr>, 1) else Inr (opts\<lparr>debugArgs := argv ! 1\<rparr>, 2))
      else if arg = ''-rs'' then
        assertR (argc > 1) (Inr (opts\<lparr>randomSeed := randomSeed opts @ [atoi (argv ! 1)], randomYield := True\<rparr>, 2))
      else if arg = ''-p'' then
        (let opts = opts\<lparr>preemptiveScheduling := True\<rparr> in
         if argc = 1 then Inr (opts\<lparr>timeSlice := Some DEFAULT_TIME_SLICE\<rparr>, 1)
         else Inr (opts\<lparr>timeSlice := Some (atoi (argv ! 1))\<rparr>, 2))
      else if b_USER_PROGRAM B \<and> arg = ''-s'' then Inr (opts\<lparr>debugUserProg := True\<rparr>, 1)
      else if b_FILESYS_NEEDED B \<and> arg = ''-f'' then Inr (opts\<lparr>format := True\<rparr>, 1)
      else if b_NETWORK B \<and> arg = ''-l'' then assertR (argc > 1) (Inr (opts\<lparr>rely := argv ! 1\<rparr>, 2))
      else if b_NETWORK B \<and> arg = ''-m'' then assertR (argc > 1) (Inr (opts\<lparr>netname := atoi (argv ! 1)\<rparr>, 2))
      else Inr (opts, 1))"

lemma Initialize_option_count: "Initialize_option B argv opts = Inr (opts', n) \<Longrightarrow> 0 < n"
  by (auto simp: Initialize_option_def Let_def assertR_eq_Inr split: if_splits)

function Initialize_args :: "Build \<Rightarrow> string list \<Rightarrow> Options \<Rightarrow> Options res" where
  "Initialize_args B argv opts =
     (if argv = [] then Inr opts
      else case Initialize_option B argv opts of
        Inl e \<Rightarrow> Inl e | Inr (opts', argCount) \<Rightarrow> Initialize_args B (drop argCount argv) opts')"
  by pat_completeness auto
termination
  by (relation "measure (\<lambda>(B, argv, opts). length argv)") (auto dest!: Initialize_option_count)

declare Initialize_args.simps [simp del]

text \<open>The objects, in the order in which they are made; and \<open>Cleanup\<close>, in the order of its \<open>delete\<close>.\<close>

datatype object = O_invertedPageTable int | O_memorySwap | O_stats | O_interrupt | O_scheduler | O_timer bool
  | O_main_thread | O_MiMapa int | O_preemptive int | O_machine bool | O_synchDisk | O_fileSystem bool | O_postOffice int string int

definition Initialize_objects :: "Build \<Rightarrow> Options \<Rightarrow> object list \<Rightarrow> object list" where
  "Initialize_objects B opts pre =
     (if b_VM B then [O_invertedPageTable 1, O_memorySwap] else []) @
     [O_stats, O_interrupt, O_scheduler] @ (if randomYield opts then [O_timer True] else []) @
     [O_main_thread, O_MiMapa 1024] @ pre @
     (if b_USER_PROGRAM B then [O_machine (debugUserProg opts)] else []) @
     (if b_FILESYS B then [O_synchDisk] else []) @
     (if b_FILESYS_NEEDED B then [O_fileSystem (format opts)] else []) @
     (if b_NETWORK B then [O_postOffice (netname opts) (rely opts) 10] else [])"

definition Initialize :: "Build \<Rightarrow> string list \<Rightarrow> (string option \<times> object list) res" where
  "Initialize B argv =
     bindR (Initialize_args B (tl argv) Options0) (\<lambda>opts.
     if \<not> preemptiveScheduling opts then Inr (DebugInit (debugArgs opts), Initialize_objects B opts [])
     else case timeSlice opts of None \<Rightarrow> Inl BadAccess
       | Some t \<Rightarrow> Inr (DebugInit (debugArgs opts), Initialize_objects B opts [O_preemptive t]))"

text \<open>The global variable that points to an object.\<close>

datatype global = V_preemptiveScheduler | V_postOffice | V_machine | V_fileSystem | V_synchDisk | V_timer | V_scheduler
  | V_interrupt | V_other

definition global_of :: "object \<Rightarrow> global" where
  "global_of x = (case x of O_preemptive t \<Rightarrow> V_preemptiveScheduler | O_postOffice a b c \<Rightarrow> V_postOffice | O_machine d \<Rightarrow> V_machine
     | O_fileSystem f \<Rightarrow> V_fileSystem | O_synchDisk \<Rightarrow> V_synchDisk | O_timer r \<Rightarrow> V_timer | O_scheduler \<Rightarrow> V_scheduler
     | O_interrupt \<Rightarrow> V_interrupt | _ \<Rightarrow> V_other)"

definition Cleanup :: "Build \<Rightarrow> object list \<Rightarrow> object list" where
  "Cleanup B objs =
     (let deleted = (\<lambda>v. filter (\<lambda>x. global_of x = v) objs) in
      deleted V_preemptiveScheduler @
      (if b_NETWORK B then deleted V_postOffice else []) @
      (if b_USER_PROGRAM B then deleted V_machine else []) @
      (if b_FILESYS_NEEDED B then deleted V_fileSystem else []) @
      (if b_FILESYS B then deleted V_synchDisk else []) @
      deleted V_timer @ deleted V_scheduler @ deleted V_interrupt)"

text \<open>What \<open>main\<close> does with the command line, call by call.\<close>

datatype action = A_copyright | A_ThreadTest | A_StartProcess string | A_ConsoleTest "(string \<times> string) option" | A_Halt
  | A_Copy string string | A_Print string | A_Remove string | A_List | A_PrintFileSystem | A_PerformanceTest
  | A_Delay nat | A_MailTest int | A_Finish

definition main_user :: "Build \<Rightarrow> string list \<Rightarrow> (action list \<times> nat) res" where
  "main_user B argv =
     (let arg = argv ! 0; argc = length argv in
      if \<not> b_USER_PROGRAM B then Inr ([], 1)
      else if arg = ''-x'' then assertR (argc > 1) (Inr ([A_StartProcess (argv ! 1)], 2))
      else if arg = ''-c'' then
        (if argc = 1 then Inr ([A_ConsoleTest None, A_Halt], 1)
         else assertR (argc > 2) (Inr ([A_ConsoleTest (Some (argv ! 1, argv ! 2)), A_Halt], 3)))
      else Inr ([], 1))"

definition main_filesys :: "Build \<Rightarrow> string list \<Rightarrow> (action list \<times> nat) res" where
  "main_filesys B argv =
     (let arg = argv ! 0; argc = length argv in
      if \<not> b_FILESYS B then Inr ([], 1)
      else if arg = ''-cp'' then assertR (argc > 2) (Inr ([A_Copy (argv ! 1) (argv ! 2)], 3))
      else if arg = ''-p'' then assertR (argc > 1) (Inr ([A_Print (argv ! 1)], 2))
      else if arg = ''-r'' then assertR (argc > 1) (Inr ([A_Remove (argv ! 1)], 2))
      else if arg = ''-l'' then Inr ([A_List], 1)
      else if arg = ''-D'' then Inr ([A_PrintFileSystem], 1)
      else if arg = ''-t'' then Inr ([A_PerformanceTest], 1)
      else Inr ([], 1))"

definition main_network :: "Build \<Rightarrow> string list \<Rightarrow> (action list \<times> nat) res" where
  "main_network B argv =
     (if b_NETWORK B \<and> argv ! 0 = ''-o'' then
        assertR (length argv > 1) (Inr ([A_Delay 2, A_MailTest (atoi (argv ! 1))], 2))
      else Inr ([], 1))"

text \<open>
  One turn: no word is an option of two of the three groups, so \<open>argCount\<close> is the largest of
  their counts.
\<close>

definition main_option :: "Build \<Rightarrow> string list \<Rightarrow> (action list \<times> nat) res" where
  "main_option B argv =
     bindR (main_user B argv) (\<lambda>(as1, n1).
     bindR (main_filesys B argv) (\<lambda>(as2, n2).
     bindR (main_network B argv) (\<lambda>(as3, n3).
     Inr ((if argv ! 0 = ''-z'' then [A_copyright] else []) @ as1 @ as2 @ as3, max n1 (max n2 n3)))))"

lemma main_option_count: "main_option B argv = Inr (acts, n) \<Longrightarrow> 0 < n"
  by (auto simp: main_option_def main_user_def main_filesys_def main_network_def Let_def res_simps less_max_iff_disj split: if_splits)

function main_args :: "Build \<Rightarrow> string list \<Rightarrow> action list res" where
  "main_args B argv =
     (if argv = [] then Inr []
      else case main_option B argv of
        Inl e \<Rightarrow> Inl e
      | Inr (acts, argCount) \<Rightarrow> mapR (\<lambda>rest. acts @ rest) (main_args B (drop argCount argv)))"
  by pat_completeness auto
termination
  by (relation "measure (\<lambda>(B, argv). length argv)") (auto dest!: main_option_count)

declare main_args.simps [simp del]

definition nachos_main :: "Build \<Rightarrow> string list \<Rightarrow> (object list \<times> action list) res" where
  "nachos_main B argv =
     bindR (Initialize B argv) (\<lambda>(flags, objs).
     bindR (main_args B (tl argv)) (\<lambda>acts.
     Inr (objs, (if b_THREADS B then [A_ThreadTest] else []) @ acts @ [A_Finish])))"

subsection \<open>Forced context switches\<close>

text \<open>
  \<open>MonitorProcess\<close>: the child stops behind every instruction. A stop comes with whether the child
  has exited and with \<open>inContextSwitch\<close>; the result says at which stops the call of
  \<open>ContextSwitch\<close> was inserted. A remainder by zero stops the monitor.
\<close>

fun MonitorProcess :: "nat \<Rightarrow> nat \<Rightarrow> (bool \<times> bool) list \<Rightarrow> bool list res" where
  "MonitorProcess timeSliceLength instructionCounter [] = Inr []"
| "MonitorProcess timeSliceLength instructionCounter ((exited, inContextSwitch) # stops) =
     (if exited then Inr []
      else if timeSliceLength = 0 then Inl BadAccess
      else mapR (\<lambda>rest. ((instructionCounter + 1) mod timeSliceLength = 0 \<and> \<not> inContextSwitch) # rest)
             (MonitorProcess timeSliceLength (instructionCounter + 1) stops))"

text \<open>
  \<open>SetUp\<close> by what \<open>fork\<close> returns: the child goes on as Nachos, the parent is the monitor. The
  argument is unsigned and has 64 bits.
\<close>

datatype fork_result = F_error | F_child | F_parent

definition PreemptiveScheduler_SetUp :: "int \<Rightarrow> fork_result \<Rightarrow> (bool \<times> bool) list \<Rightarrow> bool list option res" where
  "PreemptiveScheduler_SetUp sl pid stops = (case pid of
     F_error \<Rightarrow> Inl AssertFail
   | F_child \<Rightarrow> Inr None
   | F_parent \<Rightarrow> mapR Some (MonitorProcess (nat (sl mod 2 ^ 64)) 1 stops))"

datatype switch_request = R_Yield | R_YieldOnReturn

definition ContextSwitch :: "IntStatus \<Rightarrow> switch_request" where
  "ContextSwitch lev = (if lev = IntOn then R_Yield else R_YieldOnReturn)"

subsection \<open>Starting a user program\<close>

text \<open>
  The flag says whether \<open>machine->Run()\<close> was reached; otherwise the procedure returned, or the
  constructor of the address space finished the thread.
\<close>

definition StartProcess :: "'h Host \<Rightarrow> byte list \<Rightarrow> Machine \<Rightarrow> 'h Ker \<Rightarrow> (bool \<times> Machine \<times> 'h Ker) res" where
  "StartProcess H filename m k =
     (case h_exe H filename (k_host k) of
        (None, h) \<Rightarrow> Inr (False, m, k\<lparr>k_host := h,
            k_console := k_console k @ map of_char ''Unable to open file '' @ filename @ [10]\<rparr>)
      | (Some exe, h) \<Rightarrow>
          bindR (AddrSpace_Exe (a_space H m k) exe \<lparr>us_m = m, MiMapa = k_MiMapa k, oftables = k_oft k\<rparr>) (\<lambda>(sp, u).
          let m = us_m u; k = k\<lparr>k_host := h, k_MiMapa := MiMapa u, k_oft := oftables u\<rparr>; cur = currentThread (ks k) in
          case sp of None \<Rightarrow> Inr (False, m, k)
          | Some space \<Rightarrow>
              bindR (AddrSpace_InitRegisters space m) (\<lambda>m.
              bindR (install space m) (\<lambda>m.
              Inr (True, m, k\<lparr>k_space := (k_space k)(cur \<mapsto> space),
                ks := upd_thread cur (\<lambda>th. th\<lparr>th_space := space_key space\<rparr>) (ks k)\<rparr>)))))"

subsection \<open>The two readings of the command line\<close>

lemma DebugIsEnabled_flags:
  "flag \<noteq> CHR 0x00 \<Longrightarrow> DebugIsEnabled (DebugInit s) flag \<longleftrightarrow> flag \<in> set s \<or> CHR ''+'' \<in> set s"
  by (auto simp: DebugIsEnabled_def DebugInit_def strchr_found_def)

lemma atoi_word: "s \<noteq> [] \<Longrightarrow> of_char (s ! 0) \<ge> (65 :: nat) \<Longrightarrow> atoi s = 0"
  by (cases s) (auto simp: atoi_def Let_def digits_value_def is_digit_def)

lemmas parse_simps = Initialize_args.simps main_args.simps Initialize_option_def main_option_def main_user_def
  main_filesys_def main_network_def Let_def

text \<open>
  Without options nothing is started but the tests of the thread build. Every timed slice
  comes from an option, so \<open>timeSlice\<close> is never used without a value.
\<close>

lemma nachos_main_plain:
  "nachos_main B [nm] = bindR (Initialize B [nm]) (\<lambda>(flags, objs). Inr (objs, (if b_THREADS B then [A_ThreadTest] else []) @ [A_Finish]))"
  by (simp add: nachos_main_def main_args.simps)

lemma slice_assigned:
  "Initialize_args B argv opts = Inr opts' \<Longrightarrow> (preemptiveScheduling opts \<longleftrightarrow> timeSlice opts \<noteq> None) \<Longrightarrow>
   preemptiveScheduling opts' \<longleftrightarrow> timeSlice opts' \<noteq> None"
proof (induction B argv opts rule: Initialize_args.induct)
  case (1 B argv opts)
  show ?case
  proof (cases "argv = []")
    case False
    with 1(2) obtain o1 n where o1: "Initialize_option B argv opts = Inr (o1, n)" "Initialize_args B (drop n argv) o1 = Inr opts'"
      by (auto simp: Initialize_args.simps[of B argv] split: sum.splits)
    have "preemptiveScheduling o1 \<longleftrightarrow> timeSlice o1 \<noteq> None"
      using o1(1) 1(3) by (auto simp: Initialize_option_def Let_def assertR_eq_Inr split: if_splits)
    then show ?thesis using 1(1)[OF False o1(1) refl o1(2)] by blast
  qed (use 1(2,3) in \<open>auto simp: Initialize_args.simps\<close>)
qed

lemma Initialize_total:
  "Initialize B argv = Inl e \<Longrightarrow> e = AssertFail"
proof -
  assume i: "Initialize B argv = Inl e"
  have o: "Initialize_option B v opts = Inl e' \<Longrightarrow> e' = AssertFail" for B v opts e'
    by (auto simp: Initialize_option_def Let_def assertR_eq_Inl split: if_splits)
  have a: "Initialize_args B v opts = Inl e' \<Longrightarrow> e' = AssertFail" for v opts e'
    by (induction B v opts rule: Initialize_args.induct) (subst (asm) (2) Initialize_args.simps, auto dest: o split: if_splits sum.splits)
  show ?thesis using i a slice_assigned[of B "tl argv" Options0]
    by (auto simp: Initialize_def res_simps Options0_def split: option.splits if_splits)
qed

text \<open>
  In the build of the file system, printing a file is also taken for a request of preemption, with
  the name as its time slice: the monitor divides by zero at its first stop.
\<close>

lemma print_option:
  assumes "b_FILESYS B" "\<not> b_NETWORK B" "f \<noteq> []" "of_char (f ! 0) \<ge> (65 :: nat)"
  shows "\<exists>objs. nachos_main B [nm, ''-p'', f] = Inr (objs, (if b_THREADS B then [A_ThreadTest] else []) @ [A_Print f, A_Finish])
    \<and> O_preemptive 0 \<in> set objs"
    "PreemptiveScheduler_SetUp 0 F_parent ((False, c) # stops) = Inl BadAccess"
  using assms by (auto simp: nachos_main_def Initialize_def Initialize_objects_def parse_simps Options0_def atoi_word PreemptiveScheduler_SetUp_def)

lemma monitor_switches:
  "0 < sl \<Longrightarrow> list_all (\<lambda>(exited, c). \<not> exited) stops \<Longrightarrow>
   MonitorProcess sl n stops = Inr (map (\<lambda>i. (n + i + 1) mod sl = 0 \<and> \<not> snd (stops ! i)) [0..<length stops])"
proof (induction stops arbitrary: n)
  case (Cons s stops)
  then show ?case
    by (cases s) (simp add: upt_conv_Cons map_Suc_upt[symmetric] comp_def del: upt_Suc)
qed simp

text \<open>\<open>Cleanup\<close> deletes objects that were made, each once.\<close>

lemma Initialize_distinct: "pre = [] \<or> pre = [O_preemptive t] \<Longrightarrow> distinct (Initialize_objects B opts pre)"
  unfolding Initialize_objects_def distinct_append by (elim disjE) simp_all

lemma Cleanup_deletes:
  assumes "Initialize B argv = Inr (flags, objs)"
  shows "distinct (Cleanup B objs) \<and> set (Cleanup B objs) \<subseteq> set objs"
proof -
  have "distinct objs" using assms Initialize_distinct
    by (auto simp: Initialize_def res_simps split: if_splits option.splits)
  then have "distinct (Cleanup B objs)"
    unfolding Cleanup_def Let_def distinct_append by auto
  then show ?thesis by (auto simp: Cleanup_def Let_def split: if_splits)
qed

subsection \<open>The program file as the processor sees it\<close>

lemma AuxExec_is_StartProcess:
  "AuxExec H p m k = (case a_string H p k of None \<Rightarrow> Inl BadAccess | Some f \<Rightarrow> StartProcess H f m k)"
  by (cases "a_string H p k") (simp_all add: AuxExec_def StartProcess_def)

lemma load4:
  assumes "0 \<le> pa" "pa + 4 \<le> int (length mem)"
  shows "load_phys mem pa 4 = Inr (bytes_word (take 4 (drop (nat pa) mem)))"
proof -
  have n: "nat pa + 3 < length mem" using assms by linarith
  then have "take 4 (drop (nat pa) mem) = [mem ! nat pa, mem ! (nat pa + 1), mem ! (nat pa + 2), mem ! (nat pa + 3)]"
    by (auto intro!: nth_equalityI simp: less_Suc_eq numeral_eq_Suc)
  moreover have "nat (pa + 1) = nat pa + 1" "nat (pa + 2) = nat pa + 2" "nat (pa + 3) = nat pa + 3" using assms(1) by simp_all
  ultimately show ?thesis using assms by (simp add: load_phys_def WordToHost_def)
qed

lemma page_word: "length f = 128 \<Longrightarrow> d + 4 \<le> length bs \<Longrightarrow> length bs \<le> 128 \<Longrightarrow> take 4 (drop d (overwrite f 0 bs)) = take 4 (drop d bs)"
  by (simp add: overwrite_def)

lemma take_page: "d + 4 \<le> 128 \<Longrightarrow> take 4 (drop d (take 128 (drop p xs))) = take 4 (drop (p + d) xs)"
  by (simp add: drop_take min_def add.commute)

lemma aligned_mod: "a AND 3 = 0 \<Longrightarrow> uint (a :: u32) mod 128 + 4 \<le> 128"
proof -
  assume "a AND 3 = 0"
  moreover have "(3 :: u32) = mask 2" by (simp add: mask_eq_exp_minus_1)
  ultimately have "take_bit 2 a = 0" by (simp only: take_bit_eq_mask)
  then have "uint (take_bit 2 a) = 0" by simp
  then have "uint a mod 4 = 0" by (simp add: take_bit_eq_mod uint_mod_distrib)
  then show ?thesis by presburger
qed

text \<open>Reading a word of a page that is mapped to a frame.\<close>

lemma ReadMem_mapped:
  assumes "tlb m = None" "pageTable m = Some t" "tables m t = Some (entries 0 fs)" "int (length fs) = uint (pageTableSize m)"
    and "length (mainMemory m) = 4096" "set fs \<subseteq> {0..<32}" "a AND 3 = 0" "uint a < 128 * int (length fs)"
  shows "\<exists>m'. Machine_ReadMem K a 4 m s =
    Inr (Some (bytes_word (take 4 (drop (nat (uint a mod 128)) (frame (mainMemory m) (fs ! nat (uint a div 128)))))), m', s)"
proof -
  let ?i = "nat (uint a div 128)"
  have ud: "uint (a div 128) = uint a div 128" and off: "uint (a mod 128) = uint a mod 128"
    by (simp_all add: uint_div_distrib uint_mod_distrib)
  have nn: "0 \<le> uint a div 128" by (simp add: pos_imp_zdiv_nonneg_iff)
  have lt: "uint a div 128 < int (length fs)" using assms(8) by presburger
  then have i: "?i < length fs" "uint (a div 128) = int ?i" "unat (a div 128) = ?i"
    using nn by (simp_all only: nat_less_iff ud nat_0_le unat_eq_nat_uint)
  have e: "entries 0 fs ! ?i = new_entry (int ?i) (fs ! ?i)" using i(1) by (simp add: nth_entries)
  have f: "0 \<le> fs ! ?i" "fs ! ?i < 32" using assms(6) nth_mem[OF i(1)] by auto
  then have u: "uint (word_of_int (fs ! ?i) :: u32) = fs ! ?i" by (simp add: uint_word_of_int)
  note al = aligned_mod[OF assms(7)]
  let ?m = "set_entry (InTable t ?i) ((new_entry (int ?i) (fs ! ?i))\<lparr>use := True\<rparr>) m"
  have fe: "find_entry K (a div 128) m s = Inr (Inr (InTable t ?i), s)"
    using assms(1-4) i nn lt by (simp add: find_entry_def word_le_def e new_entry_def)
  have "Machine_Translate K a 0 4 False m s = Inr (NoException, fs ! ?i * 128 + uint a mod 128, ?m, s)"
    using assms(1,2,3,7) f u al i(1) off e
    by (simp add: Machine_Translate_def mem_defs fe entry_at_def Let_def new_entry_def)
  then have "translate_or_trap K a 4 False m s = Inr (Some (fs ! ?i * 128 + uint a mod 128), ?m, s)"
    by (simp add: translate_or_trap_def)
  moreover have "mainMemory ?m = mainMemory m" by (simp add: set_entry_def)
  moreover have "take 4 (drop (nat (fs ! ?i * 128 + uint a mod 128)) (mainMemory m))
      = take 4 (drop (nat (uint a mod 128)) (frame (mainMemory m) (fs ! ?i)))"
    using al f take_page[of "nat (uint a mod 128)" "nat (128 * fs ! ?i)" "mainMemory m"]
    by (simp add: frame_def nat_add_distrib mult.commute nat_le_iff)
  ultimately show ?thesis using al f assms(5) by (simp add: Machine_ReadMem_def load4)
qed

lemma AddrSpace_Exe_tlb: "AddrSpace_Exe g e u = Inr (sp, u') \<Longrightarrow> tlb (us_m u') = tlb (us_m u)"
  by (auto simp: AddrSpace_Exe_def Let_def res_simps split: if_splits option.splits)

lemma frame_length: "length mem = 4096 \<Longrightarrow> 0 \<le> x \<Longrightarrow> x < 32 \<Longrightarrow> length (frame mem x) = 128"
  by (simp add: frame_def)

lemma enough_left: "p + d + 4 \<le> length xs \<Longrightarrow> d + 4 \<le> 128 \<Longrightarrow> d + 4 \<le> length (take 128 (drop p xs))"
  by simp

text \<open>A word of a page that was filled from the file.\<close>

lemma filled_word:
  assumes "0 \<le> base" "0 \<le> a" "a mod 128 + 4 \<le> 128" "base + a + 4 \<le> int (length exe)" "length old = 128"
  shows "take 4 (drop (nat (a mod 128)) (overwrite old 0 (take 128 (drop (nat (base + 128 * int (nat (a div 128)))) exe))))
    = take 4 (drop (nat (base + a)) exe)"
proof -
  let ?p = "nat (base + 128 * int (nat (a div 128)))" and ?d = "nat (a mod 128)"
  have a: "a = 128 * int (nat (a div 128)) + a mod 128" using assms(2) by (simp add: pos_imp_zdiv_nonneg_iff)
  have b: "?p + ?d = nat (base + a)" using a assms(1,2) by (simp add: nat_add_distrib[symmetric] pos_imp_zdiv_nonneg_iff)
  have d: "?d + 4 \<le> 128" using assms(3) by simp
  have "?p + ?d + 4 \<le> length exe" using b assms(1,2,4) by linarith
  then have "?d + 4 \<le> length (take 128 (drop ?p exe))" by (rule enough_left[OF _ d])
  then have "take 4 (drop ?d (overwrite old 0 (take 128 (drop ?p exe)))) = take 4 (drop ?d (take 128 (drop ?p exe)))"
    using assms(5) by (intro page_word) simp_all
  also have "\<dots> = take 4 (drop (nat (base + a)) exe)" unfolding take_page[OF d] b ..
  finally show ?thesis .
qed

text \<open>C21: Starting a user program. Take any machine of the right sizes, a map of frames with enough free
  ones, and a file that the loader accepts as an executable. \<open>StartProcess\<close> reaches \<open>Run\<close>; the
  program counter is 0, the stack pointer is 16 below the end of the address space; and every
  aligned word the processor reads below its last page, as far as the file goes, is the word at
  this offset of the code segment in the file.\<close>

theorem StartProcess_runs:
  fixes K :: "'k Kernel" and s :: 'k
  assumes "tlb m = None" "length (mainMemory m) = 4096" "length (registers m) = 40"
    and "h_exe H f (k_host k) = (Some exe, h')" "space_fresh_ok (a_space H m k)" "BitMap_ok (k_MiMapa k)" "numBits (k_MiMapa k) = 1024"
    and "read_header (sf_noff (a_space H m k)) exe = Inr h" "noff_ok h"
    and "noff_numPages h \<le> int (card ({0..<32} - BitMap_marked (k_MiMapa k)))"
  shows "\<exists>m' k'. StartProcess H f m k = Inr (True, m', k') \<and> cpu_ok m' \<and> reg m' PCReg = 0 \<and> reg m' NextPCReg = 4
    \<and> uint (reg m' StackReg) = 128 * noff_numPages h - 16
    \<and> (\<forall>a. a AND 3 = 0 \<and> uint a < 128 * (noff_numPages h - 1) \<and> inFileAddr (noff_code h) + uint a + 4 \<le> int (length exe) \<longrightarrow>
         (\<exists>m2. Machine_ReadMem K a 4 m' s =
            Inr (Some (bytes_word (take 4 (drop (nat (inFileAddr (noff_code h) + uint a)) exe))), m2, s)))"
proof -
  let ?u = "\<lparr>us_m = m, MiMapa = k_MiMapa k, oftables = k_oft k\<rparr>"
  from AddrSpace_load[of "a_space H m k" ?u exe h] assms obtain sp u' fs where
    sp: "AddrSpace_Exe (a_space H m k) exe ?u = Inr (Some sp, u')" "as_pageTable sp = Some (sf_table (a_space H m k))"
      "uint (as_numPages sp) = noff_numPages h" "tables (us_m u') (sf_table (a_space H m k)) = Some (entries 0 fs)"
      "int (length fs) = noff_numPages h" "set fs \<subseteq> {0..<32}" and
    img: "\<And>i. i < length fs - 1 \<Longrightarrow> frame (mainMemory (us_m u')) (fs ! i) = overwrite (frame (mainMemory m) (fs ! i)) 0
          (take 128 (drop (nat (inFileAddr (noff_code h) + 128 * int i)) exe))"
    by auto
  let ?m1 = "us_m u'\<lparr>registers := (replicate 40 0)[35 := 4, 29 := as_numPages sp * 128 - 16]\<rparr>"
  let ?m' = "Space_RestoreState sp ?m1"
  have mem: "length (mainMemory (us_m u')) = 4096" "registers (us_m u') = registers m" using AddrSpace_Exe_mem[OF sp(1)] assms(2) by simp_all
  have np: "8 \<le> noff_numPages h" "noff_numPages h \<le> 32" using noff_numPages_bounds[OF assms(9)] by simp_all
  have ini: "AddrSpace_InitRegisters sp (us_m u') = Inr ?m1" using InitRegisters_ok[of "us_m u'" sp] mem assms(3) by simp
  have "unat (as_numPages sp) = length fs" using sp(3,5) by (simp add: unat_eq_nat_uint)
  then have ins: "install sp ?m1 = Inr ?m'"
    using sp(2,4) AddrSpace_Exe_tlb[OF sp(1)] assms(1) by (simp add: install_def)
  have run: "\<exists>k'. StartProcess H f m k = Inr (True, ?m', k')"
    using sp(1) assms(4) ini ins by (simp add: StartProcess_def Let_def)
  have cpu: "cpu_ok ?m'" using init_install_ok[OF ini ins] mem assms(3) by simp
  have "uint (as_numPages sp * 128 - 16) = 128 * noff_numPages h - 16"
    using np by (simp add: uint_word_ariths sp(3))
  then have regs: "reg ?m' PCReg = 0" "reg ?m' NextPCReg = 4" "uint (reg ?m' StackReg) = 128 * noff_numPages h - 16"
    by (simp_all add: reg_def reg_defs Space_RestoreState_def)
  have "\<exists>m2. Machine_ReadMem K a 4 ?m' s = Inr (Some (bytes_word (take 4 (drop (nat (inFileAddr (noff_code h) + uint a)) exe))), m2, s)"
    if a: "a AND 3 = 0" "uint a < 128 * (noff_numPages h - 1)" "inFileAddr (noff_code h) + uint a + 4 \<le> int (length exe)" for a
  proof -
    let ?i = "nat (uint a div 128)"
    have "uint a div 128 < noff_numPages h - 1" using a(2) by presburger
    then have i: "?i < length fs - 1" using sp(5) np by (simp add: nat_less_iff of_nat_diff pos_imp_zdiv_nonneg_iff)
    have old: "length (frame (mainMemory m) (fs ! ?i)) = 128"
    proof -
      have "?i < length fs" using i by simp
      then have "fs ! ?i \<in> {0..<32}" using sp(6) nth_mem by blast
      then show ?thesis using assms(2) by (intro frame_length) simp_all
    qed
    have "take 4 (drop (nat (uint a mod 128)) (frame (mainMemory ?m') (fs ! ?i))) = take 4 (drop (nat (inFileAddr (noff_code h) + uint a)) exe)"
      using img[OF i] filled_word[OF _ _ aligned_mod[OF a(1)] a(3) old] assms(9)
      by (simp add: Space_RestoreState_def noff_ok_def Let_def)
    then show ?thesis
      using ReadMem_mapped[of ?m' "sf_table (a_space H m k)" fs a K s] sp(2-6) a mem AddrSpace_Exe_tlb[OF sp(1)] assms(1)
      by (simp add: Space_RestoreState_def)
  qed
  then show ?thesis using run cpu regs by blast
qed

definition boot_host :: "byte list Host" where
  "boot_host = demo_host\<lparr>h_exe := (\<lambda>f h. (Some demo_exe, h)), a_space := (\<lambda>m k. demo_fresh_space)\<rparr>"

definition boot_ker :: "byte list Ker" where
  "boot_ker = demo_ker\<lparr>k_MiMapa := MiMapa (demo_ustate (replicate 32 0))\<rparr>"

theorem StartProcess_runs_witness:
  "\<exists>m' k' m2. StartProcess boot_host [104, 105] (Machine_new False [] False) boot_ker = Inr (True, m', k')
    \<and> uint (reg m' StackReg) = 1264 \<and> Machine_ReadMem demo_kernel 4 4 m' () = Inr (Some 0x07070707, m2, ())"
proof -
  have f: "a_space boot_host (Machine_new False [] False) boot_ker = demo_fresh_space"
    "h_exe boot_host [104, 105] (k_host boot_ker) = (Some demo_exe, k_host boot_ker)"
    by (simp_all add: boot_host_def)
  have m: "tlb (Machine_new False [] False) = None" "length (mainMemory (Machine_new False [] False)) = 4096"
    "length (registers (Machine_new False [] False)) = 40"
    by (simp_all add: Machine_new_def mem_defs reg_defs)
  have k: "BitMap_ok (k_MiMapa boot_ker)" "numBits (k_MiMapa boot_ker) = 1024"
    using demo_ustate_ok(1,2) by (simp_all add: boot_ker_def)
  have n: "noff_numPages demo_noff \<le> int (card ({0..<32} - BitMap_marked (k_MiMapa boot_ker)))"
    by (simp add: demo_exe_ok(3) boot_ker_def demo_marked(1))
  from StartProcess_runs[where K = demo_kernel and s = "()", OF m f(2) _ k _ demo_exe_ok(2) n] demo_exe_ok(1,4)
  obtain m' k' where r: "StartProcess boot_host [104, 105] (Machine_new False [] False) boot_ker = Inr (True, m', k')"
      "uint (reg m' StackReg) = 128 * noff_numPages demo_noff - 16" and
    read: "\<And>a. a AND 3 = 0 \<and> uint a < 128 * (noff_numPages demo_noff - 1) \<and> inFileAddr (noff_code demo_noff) + uint a + 4 \<le> int (length demo_exe)
      \<longrightarrow> (\<exists>m2. Machine_ReadMem demo_kernel a 4 m' () =
        Inr (Some (bytes_word (take 4 (drop (nat (inFileAddr (noff_code demo_noff) + uint a)) demo_exe))), m2, ()))"
    unfolding f(1) by blast
  have ia: "inFileAddr (noff_code demo_noff) = 40" by (simp add: demo_noff_def)
  have "take 4 (drop 44 demo_exe) = [7, 7, 7, 7]"
    by (simp add: demo_exe_def ints_bytes_def word_bytes_def numeral_eq_Suc)
  then have "\<exists>m2. Machine_ReadMem demo_kernel 4 4 m' () = Inr (Some 0x07070707, m2, ())"
    using read[of 4] ia by (simp add: demo_exe_ok(3,5) bytes_word_def)
  then show ?thesis using r by (auto simp: demo_exe_ok(3))
qed

end
