(* ===== verification/Nachos_Disasm.thy ===== *)
theory Nachos_Disasm
  imports Nachos_Mipssim
begin

text \<open>
  \<open>bin/encode.h\<close>, \<open>bin/instr.h\<close>, \<open>bin/opstrings.c\<close>, \<open>bin/d.c\<close> and the printing half of \<open>bin/out.c\<close>: the
  disassembler for MIPS programs, and the debug output of the simulator (\<open>opStrings\<close> in
  \<open>machine/mipssim.h\<close>), which is a second, independent disassembler. The theorems compare the two
  with each other and with the decoder of the simulator. A call of \<open>printf\<close> gives the string it
  prints; \<open>dump_ascii\<close> gives the list of the strings of its calls, because \<open>out.c\<close> compiles it
  with \<open>printf\<close> renamed to \<open>myprintf\<close>, which formats every call into a buffer of 100 bytes.
  Integers are 32 bits wide, as the casts and formats of these files require.
\<close>

subsection \<open>Formatted output\<close>

datatype parg = PS string | PI u32 | PC char

fun numeral_in :: "nat \<Rightarrow> nat \<Rightarrow> string" where
  "numeral_in b n =
     (if n < b \<or> b < 2 then [''0123456789abcdef'' ! n]
      else numeral_in b (n div b) @ [''0123456789abcdef'' ! (n mod b)])"

declare numeral_in.simps [simp del]

definition hex :: "u32 \<Rightarrow> string" where
  "hex v = numeral_in 16 (unat v)"

definition hex8 :: "u32 \<Rightarrow> string" where
  "hex8 v = (let s = hex v in replicate (8 - length s) (CHR ''0'') @ s)"

definition dec :: "u32 \<Rightarrow> string" where
  "dec v = (if sint v < 0 then CHR ''-'' # numeral_in 10 (nat (- sint v)) else numeral_in 10 (nat (sint v)))"

text \<open>
  What \<open>printf\<close> prints, for the conversions \<open>%s\<close>, \<open>%c\<close>, \<open>%d\<close>, \<open>%x\<close> and \<open>%08x\<close> that these files use.
  Every format has as many arguments as conversions, or more.
\<close>

definition format_conv :: "string \<Rightarrow> parg \<Rightarrow> string" where
  "format_conv c a = (case a of
     PS s \<Rightarrow> s
   | PC x \<Rightarrow> [x]
   | PI v \<Rightarrow> (if c = ''d'' then dec v else if c = ''x'' then hex v else hex8 v))"

fun printf :: "string \<Rightarrow> parg list \<Rightarrow> string" where
  "printf [] as = []"
| "printf (c # cs) as =
     (if c \<noteq> CHR ''%'' then c # printf cs as
      else let n = (if take 1 cs = ''0'' then 3 else 1)
           in (case as of [] \<Rightarrow> [] | a # _ \<Rightarrow> format_conv (take n cs) a) @ printf (drop n cs) (tl as))"

abbreviation TAB :: char where "TAB \<equiv> CHR 0x09"
abbreviation NL :: char where "NL \<equiv> CHR 0x0A"

subsection \<open>Instruction formats\<close>

definition instr_rd :: "u32 \<Rightarrow> nat" where "instr_rd i = unat (drop_bit 11 i AND 0x1f)"
definition instr_rt :: "u32 \<Rightarrow> nat" where "instr_rt i = unat (drop_bit 16 i AND 0x1f)"
definition instr_rs :: "u32 \<Rightarrow> nat" where "instr_rs i = unat (drop_bit 21 i AND 0x1f)"
definition shamt :: "u32 \<Rightarrow> u32" where "shamt i = drop_bit 6 i AND 0x1f"
definition immed :: "u32 \<Rightarrow> u32" where
  "immed i = (if i AND 0x8000 \<noteq> 0 then i OR - 0x8000 else i AND 0x7fff)"

definition off26 :: "u32 \<Rightarrow> u32" where "off26 i = push_bit 2 (i AND (push_bit 26 1 - 1))"
definition top4 :: "u32 \<Rightarrow> u32" where "top4 i = i AND NOT (push_bit 28 1 - 1)"
definition off16 :: "u32 \<Rightarrow> u32" where "off16 i = push_bit 2 (immed i)"

text \<open>\<open>encode.h\<close>: the codes, as the labels of the \<open>switch\<close> statements over them.\<close>

datatype NormalOp = I_SPECIAL | I_BCOND | I_J | I_JAL | I_BEQ | I_BNE | I_BLEZ | I_BGTZ
  | I_ADDI | I_ADDIU | I_SLTI | I_SLTIU | I_ANDI | I_ORI | I_XORI | I_LUI
  | I_COP0 | I_COP1 | I_COP2 | I_COP3
  | I_LB | I_LH | I_LWL | I_LW | I_LBU | I_LHU | I_LWR | I_SB | I_SH | I_SWL | I_SW | I_SWR
  | I_LWC0 | I_LWC1 | I_LWC2 | I_LWC3 | I_SWC0 | I_SWC1 | I_SWC2 | I_SWC3

definition normal_codes :: "(nat \<times> NormalOp) list" where
  "normal_codes = [(0, I_SPECIAL), (1, I_BCOND), (2, I_J), (3, I_JAL), (4, I_BEQ), (5, I_BNE),
     (6, I_BLEZ), (7, I_BGTZ), (8, I_ADDI), (9, I_ADDIU), (10, I_SLTI), (11, I_SLTIU),
     (12, I_ANDI), (13, I_ORI), (14, I_XORI), (15, I_LUI), (16, I_COP0), (17, I_COP1),
     (18, I_COP2), (19, I_COP3), (32, I_LB), (33, I_LH), (34, I_LWL), (35, I_LW), (36, I_LBU),
     (37, I_LHU), (38, I_LWR), (40, I_SB), (41, I_SH), (42, I_SWL), (43, I_SW), (46, I_SWR),
     (48, I_LWC0), (49, I_LWC1), (50, I_LWC2), (51, I_LWC3),
     (56, I_SWC0), (57, I_SWC1), (58, I_SWC2), (59, I_SWC3)]"

datatype SpecialOp = I_SLL | I_SRL | I_SRA | I_SLLV | I_SRLV | I_SRAV | I_JR | I_JALR
  | I_SYSCALL | I_BREAK | I_MFHI | I_MTHI | I_MFLO | I_MTLO | I_MULT | I_MULTU | I_DIV | I_DIVU
  | I_ADD | I_ADDU | I_SUB | I_SUBU | I_AND | I_OR | I_XOR | I_NOR | I_SLT | I_SLTU

definition special_codes :: "(nat \<times> SpecialOp) list" where
  "special_codes = [(0, I_SLL), (2, I_SRL), (3, I_SRA), (4, I_SLLV), (6, I_SRLV), (7, I_SRAV),
     (8, I_JR), (9, I_JALR), (12, I_SYSCALL), (13, I_BREAK), (16, I_MFHI), (17, I_MTHI),
     (18, I_MFLO), (19, I_MTLO), (24, I_MULT), (25, I_MULTU), (26, I_DIV), (27, I_DIVU),
     (32, I_ADD), (33, I_ADDU), (34, I_SUB), (35, I_SUBU), (36, I_AND), (37, I_OR),
     (38, I_XOR), (39, I_NOR), (42, I_SLT), (43, I_SLTU)]"

datatype BcondOp = I_BLTZ | I_BGEZ | I_BLTZAL | I_BGEZAL

definition bcond_codes :: "(nat \<times> BcondOp) list" where
  "bcond_codes = [(0, I_BLTZ), (1, I_BGEZ), (16, I_BLTZAL), (17, I_BGEZAL)]"

subsection \<open>The tables of strings\<close>

definition normalops :: "string list" where
  "normalops = [
     ''special'', ''bcond'', ''j'', ''jal'', ''beq'', ''bne'', ''blez'', ''bgtz'',
     ''addi'', ''addiu'', ''slti'', ''sltiu'', ''andi'', ''ori'', ''xori'', ''lui'',
     ''cop0'', ''cop1'', ''cop2'', ''cop3'', ''024'', ''025'', ''026'', ''027'',
     ''030'', ''031'', ''032'', ''033'', ''034'', ''035'', ''036'', ''037'',
     ''lb'', ''lh'', ''lwl'', ''lw'', ''lbu'', ''lhu'', ''lwr'', ''047'',
     ''sb'', ''sh'', ''swl'', ''sw'', ''054'', ''055'', ''swr'', ''057'',
     ''lwc0'', ''lwc1'', ''lwc2'', ''lwc3'', ''064'', ''065'', ''066'', ''067'',
     ''swc0'', ''swc1'', ''swc2'', ''swc3'', ''074'', ''075'', ''076'', ''077'']"

definition specialops :: "string list" where
  "specialops = [
     ''sll'', ''001'', ''srl'', ''sra'', ''sllv'', ''005'', ''srlv'', ''srav'',
     ''jr'', ''jalr'', ''012'', ''013'', ''syscall'', ''break'', ''016'', ''017'',
     ''mfhi'', ''mthi'', ''mflo'', ''mtlo'', ''024'', ''025'', ''026'', ''027'',
     ''mult'', ''multu'', ''div'', ''divu'', ''034'', ''035'', ''036'', ''037'',
     ''add'', ''addu'', ''sub'', ''subu'', ''and'', ''or'', ''xor'', ''nor'',
     ''050'', ''051'', ''slt'', ''sltu'', ''054'', ''055'', ''056'', ''057'',
     ''060'', ''061'', ''062'', ''063'', ''064'', ''065'', ''066'', ''067'',
     ''070'', ''071'', ''072'', ''073'', ''074'', ''075'', ''076'', ''077'']"

definition regstrings :: "string list" where
  "regstrings = [
     ''0'', ''r1'', ''r2'', ''r3'', ''r4'', ''r5'', ''r6'', ''r7'', ''r8'', ''r9'',
     ''r10'', ''r11'', ''r12'', ''r13'', ''r14'', ''r15'', ''r16'', ''r17'', ''r18'', ''r19'',
     ''r20'', ''r21'', ''r22'', ''r23'', ''r24'', ''r25'', ''r26'', ''r27'', ''gp'', ''sp'',
     ''r30'', ''r31'']"

definition R :: "nat \<Rightarrow> parg" where
  "R i = PS (regstrings ! i)"

subsection \<open>The disassembler\<close>

definition dump_special :: "u32 \<Rightarrow> string list" where
  "dump_special v =
     (let opcode = unat (v AND 0x3f) in
      printf (''%s'' @ [TAB]) [PS (specialops ! opcode)] #
      (case map_of special_codes opcode of
         None \<Rightarrow> []
       | Some op \<Rightarrow>
         (if op \<in> {I_SLL, I_SRL, I_SRA} then
            [printf ''%s,%s,0x%x'' [R (instr_rd v), R (instr_rt v), PI (shamt v)]]
          else if op \<in> {I_SLLV, I_SRLV, I_SRAV} then
            [printf ''%s,%s,%s'' [R (instr_rd v), R (instr_rt v), R (instr_rs v)]]
          else if op \<in> {I_JR, I_JALR, I_MFLO, I_MTLO} then [printf ''%s'' [R (instr_rs v)]]
          else if op \<in> {I_SYSCALL, I_BREAK} then []
          else if op \<in> {I_MFHI, I_MTHI} then [printf ''%s'' [R (instr_rd v)]]
          else if op \<in> {I_MULT, I_MULTU, I_DIV, I_DIVU} then
            [printf ''%s,%s'' [R (instr_rs v), R (instr_rt v)]]
          else [printf ''%s,%s,%s'' [R (instr_rd v), R (instr_rs v), R (instr_rt v)]])))"

definition dump_bcond :: "u32 \<Rightarrow> u32 \<Rightarrow> string list" where
  "dump_bcond v pc =
     [(case map_of bcond_codes (instr_rt v) of
         Some I_BLTZ \<Rightarrow> ''bltz'' | Some I_BGEZ \<Rightarrow> ''bgez'' | Some I_BLTZAL \<Rightarrow> ''bltzal''
       | Some I_BGEZAL \<Rightarrow> ''bgezal'' | None \<Rightarrow> ''BCOND''),
      printf (TAB # ''%s,%08x'') [R (instr_rs v), PI (off16 v + pc + 4)]]"

definition dump_normal :: "u32 \<Rightarrow> u32 \<Rightarrow> string list" where
  "dump_normal v pc =
     (let opcode = unat (drop_bit 26 v) in
      printf (''%s'' @ [TAB]) [PS (normalops ! opcode)] #
      (case map_of normal_codes opcode of
         None \<Rightarrow> []
       | Some op \<Rightarrow>
         (if op \<in> {I_J, I_JAL} then [printf ''%08x'' [PI (top4 pc OR off26 v)]]
          else if op \<in> {I_BEQ, I_BNE} then
            [printf ''%s,%s,%08x'' [R (instr_rt v), R (instr_rs v), PI (off16 v + pc + 4)]]
          else if op \<in> {I_ADDI, I_ADDIU, I_SLTI, I_SLTIU, I_ANDI, I_ORI, I_XORI} then
            [printf ''%s,%s,0x%x'' [R (instr_rt v), R (instr_rs v), PI (immed v)]]
          else if op = I_LUI then [printf ''%s,0x%x'' [R (instr_rt v), PI (immed v)]]
          else if op \<in> {I_COP0, I_COP1, I_COP2, I_COP3} then []
          else if op \<in> {I_LB, I_LH, I_LWL, I_LW, I_LBU, I_LHU, I_LWR, I_SB, I_SH, I_SWL, I_SW, I_SWR,
              I_LWC0, I_LWC1, I_LWC2, I_LWC3, I_SWC0, I_SWC1, I_SWC2, I_SWC3} then
            [printf ''%s,0x%x(%s)'' [R (instr_rt v), PI (immed v), R (instr_rs v)]]
          else [])))"

definition dump_ascii :: "bool \<Rightarrow> u32 \<Rightarrow> u32 \<Rightarrow> string list" where
  "dump_ascii longdis v pc =
     (if longdis then [printf ''%08x: %08x  '' [PI pc, PI v]] else []) @ [[TAB]] @
     (let opcode = unat (drop_bit 26 v) in
      if v = 0 then [''nop'']
      else if map_of normal_codes opcode = Some I_SPECIAL then dump_special v
      else if map_of normal_codes opcode = Some I_BCOND then dump_bcond v pc
      else dump_normal v pc)"

subsection \<open>The debug output of the simulator\<close>

definition opnum :: "OpCode \<Rightarrow> nat" where
  "opnum op = (case op of
     OP_ADD \<Rightarrow> 1 | OP_ADDI \<Rightarrow> 2 | OP_ADDIU \<Rightarrow> 3 | OP_ADDU \<Rightarrow> 4 | OP_AND \<Rightarrow> 5 | OP_ANDI \<Rightarrow> 6
   | OP_BEQ \<Rightarrow> 7 | OP_BGEZ \<Rightarrow> 8 | OP_BGEZAL \<Rightarrow> 9 | OP_BGTZ \<Rightarrow> 10 | OP_BLEZ \<Rightarrow> 11 | OP_BLTZ \<Rightarrow> 12
   | OP_BLTZAL \<Rightarrow> 13 | OP_BNE \<Rightarrow> 14 | OP_DIV \<Rightarrow> 16 | OP_DIVU \<Rightarrow> 17 | OP_J \<Rightarrow> 18 | OP_JAL \<Rightarrow> 19
   | OP_JALR \<Rightarrow> 20 | OP_JR \<Rightarrow> 21 | OP_LB \<Rightarrow> 22 | OP_LBU \<Rightarrow> 23 | OP_LH \<Rightarrow> 24 | OP_LHU \<Rightarrow> 25
   | OP_LUI \<Rightarrow> 26 | OP_LW \<Rightarrow> 27 | OP_LWL \<Rightarrow> 28 | OP_LWR \<Rightarrow> 29 | OP_MFHI \<Rightarrow> 31 | OP_MFLO \<Rightarrow> 32
   | OP_MTHI \<Rightarrow> 34 | OP_MTLO \<Rightarrow> 35 | OP_MULT \<Rightarrow> 36 | OP_MULTU \<Rightarrow> 37 | OP_NOR \<Rightarrow> 38 | OP_OR \<Rightarrow> 39
   | OP_ORI \<Rightarrow> 40 | OP_RFE \<Rightarrow> 41 | OP_SB \<Rightarrow> 42 | OP_SH \<Rightarrow> 43 | OP_SLL \<Rightarrow> 44 | OP_SLLV \<Rightarrow> 45
   | OP_SLT \<Rightarrow> 46 | OP_SLTI \<Rightarrow> 47 | OP_SLTIU \<Rightarrow> 48 | OP_SLTU \<Rightarrow> 49 | OP_SRA \<Rightarrow> 50 | OP_SRAV \<Rightarrow> 51
   | OP_SRL \<Rightarrow> 52 | OP_SRLV \<Rightarrow> 53 | OP_SUB \<Rightarrow> 54 | OP_SUBU \<Rightarrow> 55 | OP_SW \<Rightarrow> 56 | OP_SWL \<Rightarrow> 57
   | OP_SWR \<Rightarrow> 58 | OP_XOR \<Rightarrow> 59 | OP_XORI \<Rightarrow> 60 | OP_SYSCALL \<Rightarrow> 61 | OP_UNIMP \<Rightarrow> 62 | OP_RES \<Rightarrow> 63
   | SPECIAL \<Rightarrow> 100 | BCOND \<Rightarrow> 101)"

datatype RegType = NONE | RS | RT | RD | EXTRA

definition opStrings :: "(string \<times> RegType list) list" where
  "opStrings = [
     (''Shouldn'' @ [CHR 0x27] @ ''t happen'', [NONE, NONE, NONE]),
     (''ADD r%d,r%d,r%d'', [RD, RS, RT]), (''ADDI r%d,r%d,%d'', [RT, RS, EXTRA]),
     (''ADDIU r%d,r%d,%d'', [RT, RS, EXTRA]), (''ADDU r%d,r%d,r%d'', [RD, RS, RT]),
     (''AND r%d,r%d,r%d'', [RD, RS, RT]), (''ANDI r%d,r%d,%d'', [RT, RS, EXTRA]),
     (''BEQ r%d,r%d,%d'', [RS, RT, EXTRA]), (''BGEZ r%d,%d'', [RS, EXTRA, NONE]),
     (''BGEZAL r%d,%d'', [RS, EXTRA, NONE]), (''BGTZ r%d,%d'', [RS, EXTRA, NONE]),
     (''BLEZ r%d,%d'', [RS, EXTRA, NONE]), (''BLTZ r%d,%d'', [RS, EXTRA, NONE]),
     (''BLTZAL r%d,%d'', [RS, EXTRA, NONE]), (''BNE r%d,r%d,%d'', [RS, RT, EXTRA]),
     (''Shouldn'' @ [CHR 0x27] @ ''t happen'', [NONE, NONE, NONE]),
     (''DIV r%d,r%d'', [RS, RT, NONE]), (''DIVU r%d,r%d'', [RS, RT, NONE]),
     (''J %d'', [EXTRA, NONE, NONE]), (''JAL %d'', [EXTRA, NONE, NONE]),
     (''JALR r%d,r%d'', [RD, RS, NONE]), (''JR r%d,r%d'', [RD, RS, NONE]),
     (''LB r%d,%d(r%d)'', [RT, EXTRA, RS]), (''LBU r%d,%d(r%d)'', [RT, EXTRA, RS]),
     (''LH r%d,%d(r%d)'', [RT, EXTRA, RS]), (''LHU r%d,%d(r%d)'', [RT, EXTRA, RS]),
     (''LUI r%d,%d'', [RT, EXTRA, NONE]), (''LW r%d,%d(r%d)'', [RT, EXTRA, RS]),
     (''LWL r%d,%d(r%d)'', [RT, EXTRA, RS]), (''LWR r%d,%d(r%d)'', [RT, EXTRA, RS]),
     (''Shouldn'' @ [CHR 0x27] @ ''t happen'', [NONE, NONE, NONE]),
     (''MFHI r%d'', [RD, NONE, NONE]), (''MFLO r%d'', [RD, NONE, NONE]),
     (''Shouldn'' @ [CHR 0x27] @ ''t happen'', [NONE, NONE, NONE]),
     (''MTHI r%d'', [RS, NONE, NONE]), (''MTLO r%d'', [RS, NONE, NONE]),
     (''MULT r%d,r%d'', [RS, RT, NONE]), (''MULTU r%d,r%d'', [RS, RT, NONE]),
     (''NOR r%d,r%d,r%d'', [RD, RS, RT]), (''OR r%d,r%d,r%d'', [RD, RS, RT]),
     (''ORI r%d,r%d,%d'', [RT, RS, EXTRA]), (''RFE'', [NONE, NONE, NONE]),
     (''SB r%d,%d(r%d)'', [RT, EXTRA, RS]), (''SH r%d,%d(r%d)'', [RT, EXTRA, RS]),
     (''SLL r%d,r%d,%d'', [RD, RT, EXTRA]), (''SLLV r%d,r%d,r%d'', [RD, RT, RS]),
     (''SLT r%d,r%d,r%d'', [RD, RS, RT]), (''SLTI r%d,r%d,%d'', [RT, RS, EXTRA]),
     (''SLTIU r%d,r%d,%d'', [RT, RS, EXTRA]), (''SLTU r%d,r%d,r%d'', [RD, RS, RT]),
     (''SRA r%d,r%d,%d'', [RD, RT, EXTRA]), (''SRAV r%d,r%d,r%d'', [RD, RT, RS]),
     (''SRL r%d,r%d,%d'', [RD, RT, EXTRA]), (''SRLV r%d,r%d,r%d'', [RD, RT, RS]),
     (''SUB r%d,r%d,r%d'', [RD, RS, RT]), (''SUBU r%d,r%d,r%d'', [RD, RS, RT]),
     (''SW r%d,%d(r%d)'', [RT, EXTRA, RS]), (''SWL r%d,%d(r%d)'', [RT, EXTRA, RS]),
     (''SWR r%d,%d(r%d)'', [RT, EXTRA, RS]), (''XOR r%d,r%d,r%d'', [RD, RS, RT]),
     (''XORI r%d,r%d,%d'', [RT, RS, EXTRA]), (''SYSCALL'', [NONE, NONE, NONE]),
     (''Unimplemented'', [NONE, NONE, NONE]), (''Reserved'', [NONE, NONE, NONE])]"

definition TypeToReg :: "RegType \<Rightarrow> Instruction \<Rightarrow> u32" where
  "TypeToReg t i = (case t of RS \<Rightarrow> of_nat (rs i) | RT \<Rightarrow> of_nat (rt i) | RD \<Rightarrow> of_nat (rd i)
     | EXTRA \<Rightarrow> extra i | NONE \<Rightarrow> -1)"

text \<open>What \<open>OneInstruction\<close> prints under the debug flag \<open>m\<close>.\<close>

definition trace_instruction :: "Instruction \<Rightarrow> u32 \<Rightarrow> string res" where
  "trace_instruction i pc =
     assertR (opnum (opCode i) \<le> 63)
       (let str = opStrings ! opnum (opCode i) in
        Inr (printf ''At PC = 0x%x: '' [PI pc] @ printf (fst str) (map (\<lambda>t. PI (TypeToReg t i)) (snd str)) @ [NL]))"

subsection \<open>The listing of a section\<close>

text \<open>
  \<open>column\<close> and what was written to \<open>outfile\<close>. \<open>myprintf\<close> formats into \<open>buf[100]\<close>: a longer text, with
  its final zero, is written past the end of the buffer.
\<close>

record Listing =
  outfile :: string
  column :: nat

definition advance :: "char \<Rightarrow> nat \<Rightarrow> nat" where
  "advance c col = (if c = NL then 1 else if c = TAB then (col + 7) div 8 * 8 + 1 else col + 1)"

definition myprintf :: "string \<Rightarrow> Listing \<Rightarrow> Listing res" where
  "myprintf buf l =
     (if length buf \<ge> 100 then Inl BadAccess
      else Inr \<lparr>outfile = outfile l @ buf, column = fold advance buf (column l)\<rparr>)"

fun myprintfs :: "string list \<Rightarrow> Listing \<Rightarrow> Listing res" where
  "myprintfs [] l = Inr l"
| "myprintfs (s # ss) l = bindR (myprintf s l) (myprintfs ss)"

definition mytab :: "nat \<Rightarrow> Listing \<Rightarrow> bool \<times> Listing" where
  "mytab n l = (let l' = (if column l < n then \<lparr>outfile = outfile l @ replicate (n - column l) (CHR '' ''), column = n\<rparr> else l)
     in (column l' = n, l'))"

record Reloc =
  r_vaddr :: u32
  r_symndx :: nat
  r_type :: nat
  r_extern :: bool

text \<open>A section: its header's name, size and address, the words read and the relocation entries.\<close>

record OutSection =
  o_name :: string
  o_size :: u32
  o_vaddr :: u32
  o_data :: "u32 list"
  o_reloc :: "Reloc list"

definition MAXSYMS :: nat where "MAXSYMS = 300"

definition section_name :: "string list" where
  "section_name = [''(null)'', ''.text'', ''.rdata'', ''.data'', ''.sdata'', ''.sbss'', ''.bss'',
     ''.init'', ''.lit8'', ''.lit4'']"

definition reloc_type :: "string list" where
  "reloc_type = [''abs'', ''16'', ''32'', ''26'', ''hi16'', ''lo16'', ''gpdata'', ''gplit'']"

text \<open>
  \<open>symname n\<close> is the string at \<open>&sspace[symbols[n].asym.iss]\<close>. The tables of names are indexed by
  what the file says.
\<close>

definition name_at :: "string list \<Rightarrow> nat \<Rightarrow> string res" where
  "name_at tab n = (if n < length tab then Inr (tab ! n) else Inl BadAccess)"

definition print_reloc :: "(nat \<Rightarrow> string) \<Rightarrow> u32 \<Rightarrow> Reloc list \<Rightarrow> Listing \<Rightarrow> Listing res" where
  "print_reloc symname vaddr rels l =
     bindR (case find (\<lambda>rp. vaddr = r_vaddr rp) rels of
         None \<Rightarrow> Inr l
       | Some rp \<Rightarrow>
         (let l = snd (mytab 57 l) in
          bindR (if r_extern rp then
              (if r_symndx rp \<ge> MAXSYMS then myprintf (printf ''sym $%d'' [PI (of_nat (r_symndx rp))]) l
               else myprintf (printf (CHR 0x22 # ''%s'' @ [CHR 0x22]) [PS (symname (r_symndx rp))]) l)
            else bindR (name_at section_name (r_symndx rp)) (\<lambda>s. myprintf s l)) (\<lambda>l.
          bindR (name_at reloc_type (r_type rp)) (\<lambda>s. myprintf (printf '' %s'' [PS s]) l))))
       (myprintf [NL])"

text \<open>\<open>s[k]\<close> is a signed character, in the order of the bytes of a little-endian host.\<close>

definition printable :: "byte \<Rightarrow> string" where
  "printable b = (if sint b \<ge> 32 \<and> sint b < 127 then [char_of (unat b)] else ''.'')"

definition print_data :: "u32 \<Rightarrow> u32 \<Rightarrow> string list" where
  "print_data word pc =
     printf ''%08x: %08x  '' [PI pc, PI word] #
     map (\<lambda>k. printable (ucast (drop_bit (8 * k) word))) [0..<4] @
     [printf (TAB # ''%d'') [PI word]]"

fun print_words :: "(nat \<Rightarrow> string) \<Rightarrow> bool \<Rightarrow> Reloc list \<Rightarrow> u32 \<Rightarrow> u32 list \<Rightarrow> Listing \<Rightarrow> Listing res" where
  "print_words symname is_text rels pc [] l = Inr l"
| "print_words symname is_text rels pc (w # ws) l =
     bindR (myprintfs (if is_text then dump_ascii True w pc else print_data w pc) l) (\<lambda>l.
     bindR (print_reloc symname pc rels l)
       (print_words symname is_text rels (pc + 4) ws))"

definition print_section :: "(nat \<Rightarrow> string) \<Rightarrow> OutSection \<Rightarrow> Listing \<Rightarrow> Listing res" where
  "print_section symname s l =
     bindR (myprintf (printf (''Section: %s'' @ [TAB] @ ''%d/%d'' @ [NL])
         [PS (o_name s), PI (o_size s), PI (of_nat (length (o_reloc s)))]) l)
       (print_words symname (take 5 (o_name s) = ''.text'') (o_reloc s) (o_vaddr s) (o_data s))"

text \<open>
  \<open>main\<close>. The structures of the symbol table and of the headers are declared in header files of the
  host, so their decoded fields are the input: \<open>oi_headers\<close> says that both headers could be read
  and have the magic number of a little-endian MIPS file, a section comes with \<open>s_scnptr\<close>,
  \<open>oi_symname n\<close> is the name of symbol \<open>n\<close> in \<open>sspace\<close>, and \<open>scUndefined\<close> is the constant of \<open>syms.h\<close>. A \<open>long\<close> has four bytes.
\<close>

definition symbol_type :: "string list" where
  "symbol_type = [''Nil'', ''Global'', ''Static'', ''Param'', ''Local'', ''Label'', ''Proc'', ''Block'',
     ''End'', ''Member'', ''Type'', ''File'', ''Register'', ''Forward'', ''StaticProc'', ''Constant'']"

definition storage_class :: "string list" where
  "storage_class = [''Nil'', ''Text'', ''Data'', ''Bss'', ''Register'', ''Abs'', ''Undefined'', ''CdbLocal'',
     ''Bits'', ''CdbSystem'', ''RegImage'', ''Info'', ''UserStruct'', ''SData'', ''SBss'',
     ''RData'', ''Var'', ''Common'', ''SCommon'', ''VarRegister'', ''Variant'', ''SUndefined'', ''Init'']"

record OutSym =
  sy_st :: nat
  sy_sc :: nat
  sy_value :: u32

definition print_symbol :: "(nat \<Rightarrow> string) \<Rightarrow> nat \<Rightarrow> nat \<times> OutSym \<Rightarrow> Listing \<Rightarrow> Listing res" where
  "print_symbol symname scUndefined = (\<lambda>(i, sy) l.
     bindR (myprintf (if sy_sc sy = scUndefined then TAB # '' '' else printf ''%08x '' [PI (sy_value sy)]) l) (\<lambda>l.
     bindR (name_at symbol_type (sy_st sy)) (\<lambda>s.
     bindR (myprintf s l) (\<lambda>l.
     bindR (name_at storage_class (sy_sc sy)) (\<lambda>s.
     bindR (myprintf s (snd (mytab 25 l))) (\<lambda>l.
     myprintf (printf (''%s'' @ [NL]) [PS (symname i)]) (snd (mytab 41 l))))))))"

fun foldR :: "('a \<Rightarrow> 'b \<Rightarrow> 'b res) \<Rightarrow> 'a list \<Rightarrow> 'b \<Rightarrow> 'b res" where
  "foldR f [] s = Inr s"
| "foldR f (x # xs) s = bindR (f x s) (foldR f xs)"

record OutImage =
  oi_opens :: bool
  oi_headers :: bool
  oi_sections :: "(OutSection \<times> u32) list"
  oi_symbols :: "OutSym list"
  oi_symname :: "nat \<Rightarrow> string"
  oi_issExtMax :: int

datatype out_exit = Out_cannot_open | Out_not_mips | Out_sections | Out_section_big | Out_strings | Out_done

definition MAXRELOCS :: nat where "MAXRELOCS = 1000"
definition MAXDATA :: nat where "MAXDATA = 10000"
definition MAXSCNS :: nat where "MAXSCNS = 10"
definition MAXSSPACE :: int where "MAXSSPACE = 20000"

definition too_big :: "OutSection \<times> u32 \<Rightarrow> bool" where
  "too_big = (\<lambda>(s, scnptr). unat (o_size s) > MAXDATA * 4 \<and> scnptr \<noteq> 0 \<or> length (o_reloc s) > MAXRELOCS)"

definition out_main :: "nat \<Rightarrow> OutImage \<Rightarrow> (out_exit \<times> Listing) res" where
  "out_main scUndefined f =
     (let l = \<lparr>outfile = [], column = 1\<rparr> in
      if \<not> oi_opens f then Inr (Out_cannot_open, l)
      else if \<not> oi_headers f then Inr (Out_not_mips, l)
      else if length (oi_sections f) > MAXSCNS then Inr (Out_sections, l)
      else if \<exists>s \<in> set (oi_sections f). too_big s then Inr (Out_section_big, l)
      else if oi_issExtMax f > MAXSSPACE then Inr (Out_strings, l)
      else
        bindR (foldR (\<lambda>(s, scnptr). print_section (oi_symname f)
            (if scnptr \<noteq> 0 then s else s\<lparr>o_data := [], o_reloc := []\<rparr>)) (oi_sections f) l) (\<lambda>l.
        bindR (foldR (print_symbol (oi_symname f) scUndefined) (enumerate 0 (take MAXSYMS (oi_symbols f)))
            (l\<lparr>outfile := outfile l @ ''External Symbols:'' @ [NL] @ ''Value'' @ [TAB] @ '' Type'' @ [TAB, TAB]
               @ ''Storage Class'' @ [TAB] @ ''Name'' @ [NL]\<rparr>)) (\<lambda>l.
        Inr (Out_done, l))))"

subsection \<open>Numerals\<close>

text \<open>Reading a hexadecimal numeral back.\<close>

definition digit_value :: "char \<Rightarrow> nat" where
  "digit_value c = (if of_char c < (97 :: nat) then of_char c - 48 else of_char c - 87)"

definition numeral_value :: "nat \<Rightarrow> string \<Rightarrow> nat" where
  "numeral_value b s = fold (\<lambda>c n. n * b + digit_value c) s 0"

lemma below_16: "n < 16 \<Longrightarrow> n \<in> {0, 1, 2, 3, 4, 5, 6, 7, 8, 9, 10, 11, 12, 13, 14, 15 :: nat}"
  by (simp add: numeral_eq_Suc less_Suc_eq)

lemma digit_value_digit: "n < 16 \<Longrightarrow> digit_value (''0123456789abcdef'' ! n) = n"
  by (drule below_16) (auto simp: digit_value_def)

lemma numeral_value_numeral: "2 \<le> b \<Longrightarrow> b \<le> 16 \<Longrightarrow> numeral_value b (numeral_in b n) = n"
proof (induction b n rule: numeral_in.induct)
  case (1 b n)
  show ?case
  proof (cases "n < b")
    case True
    then show ?thesis using 1(3) by (simp add: numeral_in.simps numeral_value_def digit_value_digit del: nth_Cons_numeral)
  next
    case False
    have d: "digit_value (''0123456789abcdef'' ! (n mod b)) = n mod b"
      using 1(2,3) by (intro digit_value_digit order_less_le_trans[OF mod_less_divisor]) simp_all
    show ?thesis using False 1 d by (simp add: numeral_in.simps[of b n] numeral_value_def)
  qed
qed

lemma numeral_length: "2 \<le> b \<Longrightarrow> n < b ^ Suc k \<Longrightarrow> length (numeral_in b n) \<le> Suc k"
proof (induction k arbitrary: n)
  case 0
  then show ?case by (simp add: numeral_in.simps)
next
  case (Suc k)
  have "n div b < b ^ Suc k" using Suc(2,3) by (simp add: less_mult_imp_div_less mult.commute)
  then show ?case using Suc(1)[of "n div b"] Suc(2) by (simp add: numeral_in.simps[of b n])
qed

lemma hex_length: "length (hex v) \<le> 8"
proof -
  have "unat v < 16 ^ Suc 7" using unsigned_less[of v, where 'a = nat] by simp
  then show ?thesis unfolding hex_def using numeral_length[of 16 "unat v" 7] by simp
qed

lemma dec_length: "length (dec v) \<le> 11"
proof -
  have "nat (- sint v) < 10 ^ Suc 9" "nat (sint v) < 10 ^ Suc 9" using sint_u32_range[of v] by simp_all
  then show ?thesis
    using numeral_length[of 10 "nat (- sint v)" 9] numeral_length[of 10 "nat (sint v)" 9] by (simp add: dec_def)
qed

lemma hex8_length [simp]: "length (hex8 v) = 8"
  using hex_length[of v] by (simp add: hex8_def Let_def)

lemma numeral_value_zeros: "numeral_value b (replicate n (CHR ''0'') @ s) = numeral_value b s"
proof -
  have "fold (\<lambda>c m. m * b + digit_value c) (replicate n (CHR ''0'')) 0 = 0"
    by (induction n) (simp_all add: digit_value_def)
  then show ?thesis by (simp add: numeral_value_def)
qed

lemma hex8_inj [simp]: "hex8 v = hex8 w \<longleftrightarrow> v = w"
proof
  assume "hex8 v = hex8 w"
  then have "numeral_value 16 (hex8 v) = numeral_value 16 (hex8 w)" by simp
  then show "v = w"
    by (simp add: hex8_def Let_def numeral_value_zeros hex_def numeral_value_numeral word_unat_eq_iff)
qed simp

subsection \<open>The fields of an instruction\<close>

lemma Decode_parts:
  "instr_rs v = rs (Instruction_Decode v)" "instr_rt v = rt (Instruction_Decode v)"
  "instr_rd v = rd (Instruction_Decode v)"
  by (simp_all add: instr_rs_def instr_rt_def instr_rd_def Instruction_Decode_def Let_def split: prod.split)

lemma mask_u32: "0x3f = (mask 6 :: u32)" "0x1f = (mask 5 :: u32)" "0xffff = (mask 16 :: u32)" "0x7fff = (mask 15 :: u32)"
  "0x3ffffff = (mask 26 :: u32)"
  by (simp_all add: mask_eq_exp_minus_1)

lemma drop_26: "drop_bit 26 v AND 0x3f = drop_bit 26 (v :: u32)"
  unfolding mask_u32 by (rule bit_eqI) (auto simp: bit_simps dest: bit_imp_le_length)

lemma normal_field: "unat (drop_bit 26 (v :: u32)) < 64"
  using and_3f[of "drop_bit 26 v"] by (simp add: drop_26)

lemma bit_15: "v AND 0x8000 \<noteq> 0 \<longleftrightarrow> bit (v :: u32) 15"
proof -
  have "v AND 0x8000 = v AND push_bit 15 1" by simp
  then show ?thesis by (simp add: bit_iff_and_push_bit_not_eq_0)
qed

lemma immed_sign_extend:
  "immed v = (let x = v AND 0xffff in if x AND 0x8000 \<noteq> 0 then x OR 0xffff0000 else x)"
proof -
  have m: "- 0x8000 = (NOT (mask 15) :: u32)" "0xffff0000 = (NOT (mask 16) :: u32)"
    by (simp_all add: mask_eq_exp_minus_1)
  show ?thesis
    unfolding immed_def Let_def bit_15 m mask_u32
    by (rule bit_eqI) (auto simp: bit_simps less_Suc_eq numeral_eq_Suc)
qed

subsection \<open>The two disassemblers\<close>

text \<open>
  The reference: the mnemonic and the operands are those of \<open>opStrings\<close>, in its order, in the
  syntax of \<open>d.c\<close>: lower case, the names of \<open>regstrings\<close>, hexadecimal numbers, and the address
  instead of the offset for a jump or branch.
\<close>

definition to_lower :: "char \<Rightarrow> char" where
  "to_lower c = (if 65 \<le> (of_char c :: nat) \<and> of_char c \<le> (90 :: nat) then char_of (of_char c + 32 :: nat) else c)"

definition mnemonic :: "OpCode \<Rightarrow> string" where
  "mnemonic op = map to_lower (takeWhile (\<lambda>c. c \<noteq> CHR '' '') (fst (opStrings ! opnum op)))"

definition asm_operand :: "Instruction \<Rightarrow> u32 \<Rightarrow> RegType \<Rightarrow> string" where
  "asm_operand i pc t = (case t of
     RS \<Rightarrow> regstrings ! rs i | RT \<Rightarrow> regstrings ! rt i | RD \<Rightarrow> regstrings ! rd i | NONE \<Rightarrow> []
   | EXTRA \<Rightarrow>
       (case group_of (opCode i) of
          G_branch \<Rightarrow> hex8 (pc + 4 + IndexToAddr (extra i))
        | G_jump \<Rightarrow> hex8 ((pc AND 0xf0000000) OR IndexToAddr (extra i))
        | _ \<Rightarrow> ''0x'' @ hex (extra i)))"

definition asm_operands :: "Instruction \<Rightarrow> u32 \<Rightarrow> RegType list \<Rightarrow> string" where
  "asm_operands i pc ts = (let p = asm_operand i pc in
     if ts = [RT, EXTRA, RS] then p RT @ '','' @ p EXTRA @ ''('' @ p RS @ '')''
     else case filter (\<lambda>t. t \<noteq> NONE) ts of
       [] \<Rightarrow> [] | [a] \<Rightarrow> p a | [a, b] \<Rightarrow> p a @ '','' @ p b | a # b # c # _ \<Rightarrow> p a @ '','' @ p b @ '','' @ p c)"

definition asm_text :: "Instruction \<Rightarrow> u32 \<Rightarrow> string" where
  "asm_text i pc = mnemonic (opCode i) @ [TAB] @ asm_operands i pc (snd (opStrings ! opnum (opCode i)))"

definition dis_differs :: "OpCode list" where
  "dis_differs = [OP_BEQ, OP_BNE, OP_BLEZ, OP_BGTZ, OP_JALR, OP_JR, OP_MFLO, OP_MTHI]"

lemma Decode_special:
  "drop_bit 26 v = 0 \<Longrightarrow> opCode (Instruction_Decode v) = specialTable ! unat (v AND 0x3f)"
  "drop_bit 26 v = 0 \<Longrightarrow> extra (Instruction_Decode v) = shamt v"
  by (simp_all add: Instruction_Decode_def Let_def opTable_def shamt_def)

lemma Decode_normal:
  assumes "opTable ! unat (drop_bit 26 v) = (op, IFMT)" "op \<noteq> SPECIAL" "op \<noteq> BCOND"
  shows "opCode (Instruction_Decode v) = op" "extra (Instruction_Decode v) = immed v"
  using assms by (simp_all add: Instruction_Decode_def drop_26 immed_sign_extend Let_def)

lemma Decode_jump:
  assumes "opTable ! unat (drop_bit 26 v) = (op, JFMT)"
  shows "op \<noteq> SPECIAL \<Longrightarrow> op \<noteq> BCOND \<Longrightarrow> opCode (Instruction_Decode v) = op"
    "extra (Instruction_Decode v) = v AND 0x3ffffff"
  using assms by (simp_all add: Instruction_Decode_def drop_26 Let_def)

lemma table_check: "list_all P [0..<n] \<Longrightarrow> i < n \<Longrightarrow> P i"
  by (simp add: list_all_iff)

lemma special_cases:
  assumes "map_of special_codes n = None" "n < 64"
  shows "specialTable ! n = OP_RES"
proof -
  have "list_all (\<lambda>n. map_of special_codes n = None \<longrightarrow> specialTable ! n = OP_RES) [0..<64]" by code_simp
  from table_check[OF this assms(2)] show ?thesis using assms(1) by simp
qed

lemma special_text:
  "list_all (\<lambda>n. specialTable ! n \<in> {OP_RES, OP_UNIMP} \<or> specialops ! n = mnemonic (specialTable ! n)) [0..<64]"
  by code_simp

lemma normal_text:
  "list_all (\<lambda>n. fst (opTable ! n) \<in> {SPECIAL, BCOND, OP_RES, OP_UNIMP} \<or> normalops ! n = mnemonic (fst (opTable ! n))) [0..<64]"
  by code_simp

lemmas print_simps = R_def format_conv_def asm_text_def asm_operands_def asm_operand_def opStrings_def opnum_def group_of_def
  dis_differs_def

lemma special_operands:
  assumes "drop_bit 26 v = 0" "map_of special_codes (unat (v AND 0x3f)) = Some x"
    "opCode (Instruction_Decode v) \<notin> set (OP_RES # OP_UNIMP # dis_differs)"
  shows "concat (tl (dump_special v)) =
    asm_operands (Instruction_Decode v) pc (snd (opStrings ! opnum (opCode (Instruction_Decode v))))"
proof -
  have m: "(unat (v AND 0x3f), x) \<in> set special_codes" using assms(2) by (rule map_of_SomeD)
  note d = Decode_special[OF assms(1)]
  show ?thesis
    using m assms(3)
    unfolding dump_special_def Let_def assms(2) d Decode_parts[symmetric]
    unfolding special_codes_def list.set insert_iff prod.inject empty_iff HOL.simp_thms
    by (elim disjE conjE) (simp_all add: specialTable_def print_simps d Decode_parts)
qed

lemma jump_target: "top4 pc OR off26 v = (pc AND 0xf0000000) OR IndexToAddr (v AND 0x3ffffff)"
proof -
  have "NOT (push_bit 28 1 - 1) = (4026531840 :: u32)" "push_bit 26 1 - 1 = (0x3ffffff :: u32)" by simp_all
  then show ?thesis 
    by (simp only: top4_def off26_def IndexToAddr_def)
qed

lemma normal_operands:
  assumes "map_of normal_codes (unat (drop_bit 26 v)) = Some x" "x \<noteq> I_SPECIAL" "x \<noteq> I_BCOND"
    "opCode (Instruction_Decode v) \<notin> set (OP_RES # OP_UNIMP # dis_differs)"
  shows "concat (tl (dump_normal v pc)) =
    asm_operands (Instruction_Decode v) pc (snd (opStrings ! opnum (opCode (Instruction_Decode v))))"
proof -
  have m: "(unat (drop_bit 26 v), x) \<in> set normal_codes" using assms(1) by (rule map_of_SomeD)
  have op: "opCode (Instruction_Decode v) = fst (opTable ! unat (drop_bit 26 v))"
      "extra (Instruction_Decode v) = (if snd (opTable ! unat (drop_bit 26 v)) = JFMT then v AND 0x3ffffff else immed v)"
    if "x \<noteq> I_SPECIAL" "x \<noteq> I_BCOND"
    using m that unfolding normal_codes_def list.set insert_iff prod.inject empty_iff HOL.simp_thms
    by (elim disjE conjE; simp add: Instruction_Decode_def drop_26 Let_def opTable_def immed_sign_extend)+
  show ?thesis
    using m assms(2-4)
    unfolding dump_normal_def Let_def assms(1) op[OF assms(2,3)] 
    unfolding normal_codes_def list.set insert_iff prod.inject empty_iff HOL.simp_thms
    by (elim disjE conjE) (simp_all add: opTable_def print_simps op[OF assms(2,3)] Decode_parts jump_target)
qed

lemma rt_field: "v AND 0x1f0000 = push_bit 16 (drop_bit 16 v AND 0x1f :: u32)"
proof -
  have c: "(0x1f0000 :: u32) = push_bit 16 (mask 5)" by (simp add: mask_eq_exp_minus_1)
  show ?thesis unfolding mask_u32 c by (rule bit_eqI) (auto simp: bit_simps)
qed

lemma rt_field_eq:
  "v AND 0x1f0000 = 0 \<longleftrightarrow> instr_rt v = 0" "v AND 0x1f0000 = 0x10000 \<longleftrightarrow> instr_rt v = 1"
  "v AND 0x1f0000 = 0x100000 \<longleftrightarrow> instr_rt v = 16" "v AND 0x1f0000 = 0x110000 \<longleftrightarrow> instr_rt v = 17"
proof -
  have eq: "v AND 0x1f0000 = push_bit 16 c \<longleftrightarrow> instr_rt v = unat c" if "drop_bit 16 (push_bit 16 c) = c" for c
  proof
    assume "v AND 0x1f0000 = push_bit 16 c"
    then have "drop_bit 16 (v AND 0x1f0000) = c" using that by simp
    then show "instr_rt v = unat c" by (simp add: instr_rt_def)
  next
    assume "instr_rt v = unat c"
    then have "drop_bit 16 v AND 0x1f = c" by (simp add: instr_rt_def word_unat_eq_iff)
    then show "v AND 0x1f0000 = push_bit 16 c" by (simp add: rt_field)
  qed
  show "v AND 0x1f0000 = 0 \<longleftrightarrow> instr_rt v = 0" "v AND 0x1f0000 = 0x10000 \<longleftrightarrow> instr_rt v = 1"
    "v AND 0x1f0000 = 0x100000 \<longleftrightarrow> instr_rt v = 16" "v AND 0x1f0000 = 0x110000 \<longleftrightarrow> instr_rt v = 17"
    using eq[of 0] eq[of 1] eq[of 16] eq[of 17] by simp_all
qed

lemma Decode_bcond:
  assumes "drop_bit 26 v = 1"
  shows "opCode (Instruction_Decode v) = (case map_of bcond_codes (instr_rt v) of
      Some I_BLTZ \<Rightarrow> OP_BLTZ | Some I_BGEZ \<Rightarrow> OP_BGEZ | Some I_BLTZAL \<Rightarrow> OP_BLTZAL
    | Some I_BGEZAL \<Rightarrow> OP_BGEZAL | None \<Rightarrow> OP_UNIMP)"
    "extra (Instruction_Decode v) = immed v"
  using assms by (simp_all add: Instruction_Decode_def Let_def opTable_def rt_field_eq bcond_codes_def immed_sign_extend)

lemma bcond_agrees:
  assumes "drop_bit 26 v = 1" "opCode (Instruction_Decode v) \<noteq> OP_UNIMP"
  shows "concat (dump_bcond v pc) = asm_text (Instruction_Decode v) pc"
proof -
  obtain b where b: "map_of bcond_codes (instr_rt v) = Some b"
    using assms by (cases "map_of bcond_codes (instr_rt v)") (auto simp: Decode_bcond)
  have "mnemonic OP_BLTZ = ''bltz''" "mnemonic OP_BGEZ = ''bgez''" "mnemonic OP_BLTZAL = ''bltzal''"
    "mnemonic OP_BGEZAL = ''bgezal''" by code_simp+
  then show ?thesis using b Decode_bcond[OF assms(1)]
    by (cases b) (simp_all add: dump_bcond_def print_simps Decode_parts off16_def IndexToAddr_def algebra_simps)
qed

lemma special_agrees:
  assumes "drop_bit 26 v = 0" "opCode (Instruction_Decode v) \<notin> set (OP_RES # OP_UNIMP # dis_differs)"
  shows "concat (dump_special v) = asm_text (Instruction_Decode v) pc"
proof -
  let ?n = "unat (v AND 0x3f)"
  have op: "opCode (Instruction_Decode v) = specialTable ! ?n" by (simp add: Decode_special assms(1))
  obtain x where x: "map_of special_codes ?n = Some x"
    using special_cases[of ?n] and_3f[of v] assms(2) by (cases "map_of special_codes ?n") (auto simp: op)
  have m: "specialops ! ?n = mnemonic (specialTable ! ?n)"
    using table_check[OF special_text and_3f[of v]] assms(2) by (auto simp: op)
  have "concat (dump_special v) = printf (''%s'' @ [TAB]) [PS (specialops ! ?n)] @ concat (tl (dump_special v))"
    by (simp add: dump_special_def Let_def)
  then show ?thesis
    by (simp add: special_operands[OF assms(1) x assms(2), of pc, unfolded op] asm_text_def op m format_conv_def)
qed

lemma normal_cases:
  "list_all (\<lambda>n. map_of normal_codes n = None \<longrightarrow> opTable ! n = (OP_RES, IFMT)) [0..<64]"
  by code_simp

lemma normal_agrees:
  assumes "drop_bit 26 v \<noteq> 0" "drop_bit 26 v \<noteq> 1" "opCode (Instruction_Decode v) \<notin> set (OP_RES # OP_UNIMP # dis_differs)"
  shows "concat (dump_normal v pc) = asm_text (Instruction_Decode v) pc"
proof -
  let ?n = "unat (drop_bit 26 v)"
  have n: "?n < 64" "?n \<noteq> 0" "?n \<noteq> 1" using assms(1,2) by (auto simp: normal_field word_unat_eq_iff)
  have "list_all (\<lambda>n. n = 0 \<or> n = 1 \<or> fst (opTable ! n) \<notin> {SPECIAL, BCOND}) [0..<64]" by code_simp
  from table_check[OF this n(1)] have s: "fst (opTable ! ?n) \<notin> {SPECIAL, BCOND}" using n by auto
  then have op: "opCode (Instruction_Decode v) = fst (opTable ! ?n)"
    by (auto simp: Instruction_Decode_def drop_26 Let_def split: prod.split)
  obtain x where x: "map_of normal_codes ?n = Some x"
    using table_check[OF normal_cases n(1)] assms(3) by (cases "map_of normal_codes ?n") (auto simp: op)
  have "x \<noteq> I_SPECIAL" "x \<noteq> I_BCOND" using map_of_SomeD[OF x] n by (auto simp: normal_codes_def)
  note ops = normal_operands[OF x this assms(3)]
  have m: "normalops ! ?n = mnemonic (fst (opTable ! ?n))"
    using table_check[OF normal_text n(1)] s assms(3) by (auto simp: op)
  have "concat (dump_normal v pc) = printf (''%s'' @ [TAB]) [PS (normalops ! ?n)] @ concat (tl (dump_normal v pc))"
    by (simp add: dump_normal_def Let_def)
  then show ?thesis by (simp add: ops[unfolded op] asm_text_def op m format_conv_def)
qed

subsection \<open>The columns of the listing\<close>

lemma advance_pos: "0 < col \<Longrightarrow> 0 < fold advance s col"
  by (induction s arbitrary: col) (simp_all add: advance_def)

lemma tab_stop: "0 < col \<Longrightarrow> advance TAB col mod 8 = 1 \<and> col < advance TAB col \<and> advance TAB col \<le> col + 8"
  by (simp add: advance_def) presburger

definition listing_ok :: "Listing \<Rightarrow> bool" where
  "listing_ok l = (column l = fold advance (outfile l) 1)"

lemma spaces_advance: "(advance (CHR '' '') ^^ n) col = col + n"
  by (induction n arbitrary: col) (simp_all add: advance_def)

lemma myprintf_ok: "myprintf s l = Inr l' \<Longrightarrow> listing_ok l \<Longrightarrow> listing_ok l' \<and> outfile l' = outfile l @ s"
  by (auto simp: myprintf_def listing_ok_def split: if_splits)

lemma mytab_ok:
  "listing_ok l \<Longrightarrow> listing_ok (snd (mytab n l)) \<and> (fst (mytab n l) \<longleftrightarrow> column l \<le> n) \<and> max n (column l) = column (snd (mytab n l))"
  by (auto simp: mytab_def Let_def listing_ok_def spaces_advance)

lemma table_short:
  "i < 32 \<Longrightarrow> length (regstrings ! i) \<le> 3" "n < 64 \<Longrightarrow> length (specialops ! n) \<le> 7" "n < 64 \<Longrightarrow> length (normalops ! n) \<le> 7"
proof -
  have "list_all (\<lambda>i. length (regstrings ! i) \<le> 3) [0..<32]" by code_simp
  then show "i < 32 \<Longrightarrow> length (regstrings ! i) \<le> 3" by (rule table_check)
  have "list_all (\<lambda>n. length (specialops ! n) \<le> 7) [0..<64]" by code_simp
  then show "n < 64 \<Longrightarrow> length (specialops ! n) \<le> 7" by (rule table_check)
  have "list_all (\<lambda>n. length (normalops ! n) \<le> 7) [0..<64]" by code_simp
  then show "n < 64 \<Longrightarrow> length (normalops ! n) \<le> 7" by (rule table_check)
qed

lemma reg_short: "length (regstrings ! instr_rs v) \<le> 3" "length (regstrings ! instr_rt v) \<le> 3" "length (regstrings ! instr_rd v) \<le> 3"
  by (simp_all add: table_short and_1f instr_rs_def instr_rt_def instr_rd_def)

lemma dump_short: "\<forall>s \<in> set (dump_ascii b v pc). length s < 100"
proof -
  note short = reg_short[of v] hex_length[of "shamt v"] hex_length[of "immed v"]
    table_short(2)[OF and_3f[of v]] table_short(3)[OF normal_field[of v]]
  have "list_all (\<lambda>s. length s < 100) (dump_special v)"
    using short by (simp add: dump_special_def Let_def R_def format_conv_def del: insert_iff split: option.split if_split)
  moreover have "list_all (\<lambda>s. length s < 100) (dump_normal v pc)"
    using short by (simp add: dump_normal_def Let_def R_def format_conv_def del: insert_iff split: option.split if_split)
  moreover have "list_all (\<lambda>s. length s < 100) (dump_bcond v pc)"
    using short by (simp add: dump_bcond_def Let_def R_def format_conv_def split: option.split BcondOp.split)
  ultimately show ?thesis unfolding list_all_iff[symmetric] by (simp add: dump_ascii_def format_conv_def Let_def)
qed

lemma myprintfs_short:
  "\<forall>s \<in> set ss. length s < 100 \<Longrightarrow>
   myprintfs ss l = Inr \<lparr>outfile = outfile l @ concat ss, column = fold advance (concat ss) (column l)\<rparr>"
  by (induction ss arbitrary: l) (simp_all add: myprintf_def)

text \<open>The lines of a text section without relocation entries.\<close>

fun text_lines :: "u32 \<Rightarrow> u32 list \<Rightarrow> string" where
  "text_lines pc [] = []"
| "text_lines pc (w # ws) = concat (dump_ascii True w pc) @ [NL] @ text_lines (pc + 4) ws"

lemma print_words_text:
  "\<exists>c. print_words symname True [] pc ws l = Inr \<lparr>outfile = outfile l @ text_lines pc ws, column = c\<rparr>"
proof (induction ws arbitrary: pc l)
  case Nil
  show ?case by (rule exI[of _ "column l"]) simp
next
  case (Cons w ws)
  show ?case
    using Cons[of "pc + 4" "\<lparr>outfile = outfile l @ concat (dump_ascii True w pc) @ [NL],
      column = advance NL (fold advance (concat (dump_ascii True w pc)) (column l))\<rparr>"]
    by (simp add: myprintfs_short[OF dump_short] print_reloc_def myprintf_def)
qed

lemma dump_head: "\<exists>r. concat (dump_ascii True w pc) = hex8 pc @ '': '' @ hex8 w @ r"
  by (simp add: dump_ascii_def format_conv_def)

lemma text_lines_determine: "text_lines pc ws = text_lines pc' ws' \<Longrightarrow> ws = ws'"
proof (induction ws arbitrary: pc pc' ws')
  case Nil
  then show ?case by (cases ws') simp_all
next
  case (Cons w ws)
  then obtain w' us where ws': "ws' = w' # us" by (cases ws') auto
  obtain r r' where "concat (dump_ascii True w pc) = hex8 pc @ '': '' @ hex8 w @ r"
    "concat (dump_ascii True w' pc') = hex8 pc' @ '': '' @ hex8 w' @ r'"
    using dump_head by metis
  with Cons.prems ws' have "pc = pc' \<and> w = w'" by simp
  then show ?case using Cons ws' by auto
qed

subsection \<open>The whole listing\<close>

text \<open>
  A file whose names fit the buffer of \<open>myprintf\<close> and whose indices lie in the tables of names
  is listed to the end.
\<close>

definition reloc_ok :: "(nat \<Rightarrow> string) \<Rightarrow> Reloc \<Rightarrow> bool" where
  "reloc_ok symname r \<longleftrightarrow> r_type r < 8 \<and>
     (if r_extern r then r_symndx r < MAXSYMS \<and> length (symname (r_symndx r)) < 98 else r_symndx r < 10)"

definition symbol_ok :: "(nat \<Rightarrow> string) \<Rightarrow> nat \<times> OutSym \<Rightarrow> bool" where
  "symbol_ok symname = (\<lambda>(i, sy). sy_st sy < 16 \<and> sy_sc sy < 23 \<and> length (symname i) < 99)"

definition listed_section_ok :: "(nat \<Rightarrow> string) \<Rightarrow> OutSection \<Rightarrow> bool" where
  "listed_section_ok symname s \<longleftrightarrow> length (o_name s) \<le> 8 \<and> (\<forall>r \<in> set (o_reloc s). reloc_ok symname r)"

lemma myprintf_short: "length s < 100 \<Longrightarrow> \<exists>l'. myprintf s l = Inr l'"
  by (simp add: myprintf_def)

lemma foldR_ok: "(\<And>x s. x \<in> set xs \<Longrightarrow> \<exists>s'. f x s = Inr s') \<Longrightarrow> \<exists>s'. foldR f xs s = Inr s'"
proof (induction xs arbitrary: s)
  case (Cons x xs)
  obtain s1 where "f x s = Inr s1" using Cons.prems by fastforce
  then show ?case using Cons by simp
qed simp

lemma names_short:
  "n < 10 \<Longrightarrow> length (section_name ! n) < 20" "n < 8 \<Longrightarrow> length (reloc_type ! n) < 20"
  "n < 16 \<Longrightarrow> length (symbol_type ! n) < 20" "n < 23 \<Longrightarrow> length (storage_class ! n) < 20"
proof -
  have "list_all (\<lambda>n. length (section_name ! n) < 20) [0..<10]" by code_simp
  then show "n < 10 \<Longrightarrow> length (section_name ! n) < 20" by (rule table_check)
  have "list_all (\<lambda>n. length (reloc_type ! n) < 20) [0..<8]" by code_simp
  then show "n < 8 \<Longrightarrow> length (reloc_type ! n) < 20" by (rule table_check)
  have "list_all (\<lambda>n. length (symbol_type ! n) < 20) [0..<16]" by code_simp
  then show "n < 16 \<Longrightarrow> length (symbol_type ! n) < 20" by (rule table_check)
  have "list_all (\<lambda>n. length (storage_class ! n) < 20) [0..<23]" by code_simp
  then show "n < 23 \<Longrightarrow> length (storage_class ! n) < 20" by (rule table_check)
qed

lemma name_lengths: "length section_name = 10" "length reloc_type = 8" "length symbol_type = 16" "length storage_class = 23"
  by (simp_all add: section_name_def reloc_type_def symbol_type_def storage_class_def)

lemma print_reloc_ok:
  assumes "\<forall>r \<in> set rels. reloc_ok symname r"
  shows "\<exists>l'. print_reloc symname vaddr rels l = Inr l'"
proof (cases "find (\<lambda>rp. vaddr = r_vaddr rp) rels")
  case None
  then show ?thesis by (simp add: print_reloc_def myprintf_def)
next
  case (Some rp)
  then have "reloc_ok symname rp" using assms by (auto simp: find_Some_iff)
  then show ?thesis using Some names_short(1)[of "r_symndx rp"] names_short(2)[of "r_type rp"]
    by (auto simp: print_reloc_def reloc_ok_def myprintf_def name_at_def name_lengths format_conv_def Let_def split: if_splits)
qed

lemma data_short: "\<forall>s \<in> set (print_data w pc). length s < 100"
  using dec_length[of w] by (auto simp: print_data_def format_conv_def printable_def)

lemma print_words_ok:
  assumes "\<forall>r \<in> set rels. reloc_ok symname r"
  shows "\<exists>l'. print_words symname t rels pc ws l = Inr l'"
proof (induction ws arbitrary: pc l)
  case (Cons w ws)
  have "\<forall>s \<in> set (if t then dump_ascii True w pc else print_data w pc). length s < 100"
    using dump_short data_short by simp
  note p = myprintfs_short[OF this, of l]
  obtain l1 where "print_reloc symname pc rels (projr (myprintfs (if t then dump_ascii True w pc else print_data w pc) l)) = Inr l1"
    using print_reloc_ok[OF assms] by metis
  then show ?case using p Cons[of "pc + 4" l1] by simp
qed simp

lemma print_section_ok: "listed_section_ok symname s \<Longrightarrow> \<exists>l'. print_section symname s l = Inr l'"
  using dec_length[of "o_size s"] dec_length[of "of_nat (length (o_reloc s))"]
    print_words_ok[of "o_reloc s" symname "take 5 (o_name s) = ''.text''" "o_vaddr s" "o_data s"]
  by (auto simp: print_section_def listed_section_ok_def myprintf_def format_conv_def)

lemma print_symbol_ok: "symbol_ok symname x \<Longrightarrow> \<exists>l'. print_symbol symname scUndefined x l = Inr l'"
  using names_short(3)[of "sy_st (snd x)"] names_short(4)[of "sy_sc (snd x)"]
  by (cases x) (auto simp: print_symbol_def symbol_ok_def myprintf_def name_at_def name_lengths format_conv_def)

lemma out_main_ok:
  assumes "oi_opens f" "oi_headers f" "length (oi_sections f) \<le> MAXSCNS" "\<forall>s \<in> set (oi_sections f). \<not> too_big s"
    "oi_issExtMax f \<le> MAXSSPACE" "\<forall>s \<in> set (oi_sections f). listed_section_ok (oi_symname f) (fst s)"
    "\<forall>x \<in> set (enumerate 0 (take MAXSYMS (oi_symbols f))). symbol_ok (oi_symname f) x"
  shows "\<exists>l. out_main scUndefined f = Inr (Out_done, l)"
proof -
  let ?p = "\<lambda>(s, scnptr). print_section (oi_symname f) (if scnptr \<noteq> 0 then s else s\<lparr>o_data := [], o_reloc := []\<rparr>)"
  have "\<exists>l'. ?p x l = Inr l'" if "x \<in> set (oi_sections f)" for x l
    using assms(6) that by (cases x) (auto intro!: print_section_ok simp: listed_section_ok_def)
  from foldR_ok[of "oi_sections f" ?p, OF this]
  obtain l1 where "foldR ?p (oi_sections f) \<lparr>outfile = [], column = 1\<rparr> = Inr l1" by blast
  moreover have "\<exists>l'. foldR (print_symbol (oi_symname f) scUndefined) (enumerate 0 (take MAXSYMS (oi_symbols f))) l = Inr l'" for l
    using assms(7) by (intro foldR_ok print_symbol_ok) blast
  ultimately show ?thesis using assms by (auto simp: out_main_def Let_def bindR_eq_Inr)
qed

subsection \<open>What the disassemblers show\<close>

lemma trace_total: "\<exists>s. trace_instruction (Instruction_Decode v) pc = Inr s"
proof -
  have "group_of op \<noteq> G_default \<Longrightarrow> opnum op \<le> 63" for op
    by (cases op) (simp_all add: group_of_def opnum_def)
  then show ?thesis using Decode_group[of v] by (simp add: trace_instruction_def Let_def)
qed

lemma branch_target_printed:
  assumes "group_of (opCode i) = G_branch" "reg m NextPCReg = pc + 4" "exec_branch i p m k = Inr (Next m' k' q 0 0)"
  shows "q = p \<or> asm_operand i pc EXTRA = hex8 q"
  using assms by (cases "opCode i") (auto simp: exec_branch_def go_def asm_operand_def group_of_def Let_def split: if_splits)

lemma jump_target_printed:
  assumes "opCode i = OP_J \<or> opCode i = OP_JAL" "(pc + 8) AND 0xf0000000 = pc AND 0xf0000000"
    "exec_jump i (pc + 8) m k = Inr (Next m' k' q 0 0)"
  shows "asm_operand i pc EXTRA = hex8 q"
  using assms by (auto simp: exec_jump_def go_def asm_operand_def group_of_def Let_def)

text \<open>
  The instructions of \<open>dis_differs\<close>: \<open>blez\<close> and \<open>bgtz\<close> come without operands, \<open>mflo\<close> shows the unused
  field \<open>rs\<close> and \<open>mthi\<close> the unused field \<open>rd\<close>, \<open>jalr\<close> hides its destination.
\<close>

lemma blez_bgtz_bare:
  "unat (drop_bit 26 v) = 6 \<or> unat (drop_bit 26 v) = 7 \<Longrightarrow> tl (dump_normal v pc) = []"
  by (auto simp: dump_normal_def normal_codes_def Let_def)

lemma hilo_fields:
  "unat (v AND 0x3f) = 18 \<Longrightarrow> tl (dump_special v) = [regstrings ! instr_rs v]"
  "unat (v AND 0x3f) = 17 \<Longrightarrow> tl (dump_special v) = [regstrings ! instr_rd v]"
  "unat (v AND 0x3f) = 9 \<Longrightarrow> tl (dump_special v) = [regstrings ! instr_rs v]"
  by (simp_all add: dump_special_def special_codes_def Let_def R_def format_conv_def)

text \<open>
  The common content of the two texts: a name and a list of operands, and the two ways to write
  an operand down. The debug output writes registers as \<open>r%d\<close> and all numbers, offsets of jumps
  and branches too, as they are in the instruction and in decimal; \<open>d.c\<close> uses its own names of registers,
  hexadecimal numbers, and the address that a jump or branch goes to.
\<close>

datatype operand = Register nat | Number u32 | Memory u32 nat | Branch u32 | Jump u32

definition debug_operand :: "operand \<Rightarrow> string" where
  "debug_operand x = (case x of Register n \<Rightarrow> ''r'' @ dec (of_nat n) | Number e \<Rightarrow> dec e
     | Memory e n \<Rightarrow> dec e @ ''(r'' @ dec (of_nat n) @ '')'' | Branch e \<Rightarrow> dec e | Jump e \<Rightarrow> dec e)"

definition listing_operand :: "u32 \<Rightarrow> operand \<Rightarrow> string" where
  "listing_operand pc x = (case x of Register n \<Rightarrow> regstrings ! n | Number e \<Rightarrow> ''0x'' @ hex e
     | Memory e n \<Rightarrow> ''0x'' @ hex e @ ''('' @ regstrings ! n @ '')''
     | Branch e \<Rightarrow> hex8 (pc + 4 + 4 * e) | Jump e \<Rightarrow> hex8 ((pc AND 0xf0000000) OR (4 * e)))"

fun commas :: "string list \<Rightarrow> string" where
  "commas [] = []" | "commas [x] = x" | "commas (x # y # xs) = x @ '','' @ commas (y # xs)"

definition operand_at :: "Instruction \<Rightarrow> RegType \<Rightarrow> operand" where
  "operand_at i t = (case t of RS \<Rightarrow> Register (rs i) | RT \<Rightarrow> Register (rt i) | RD \<Rightarrow> Register (rd i)
     | _ \<Rightarrow> (case group_of (opCode i) of G_branch \<Rightarrow> Branch (extra i) | G_jump \<Rightarrow> Jump (extra i) | _ \<Rightarrow> Number (extra i)))"

definition operands_of :: "Instruction \<Rightarrow> operand list" where
  "operands_of i = (let ts = snd (opStrings ! opnum (opCode i)) in
     if ts = [RT, EXTRA, RS] then [Register (rt i), Memory (extra i) (rs i)]
     else map (operand_at i) (filter (\<lambda>t. t \<noteq> NONE) ts))"

lemma listing_operand_at: "t \<noteq> NONE \<Longrightarrow> listing_operand pc (operand_at i t) = asm_operand i pc t"
  by (cases t) (auto simp: listing_operand_def operand_at_def asm_operand_def IndexToAddr_def push_bit_eq_mult mult.commute
      split: Group.split)

lemma opStrings_args: "op \<notin> {SPECIAL, BCOND} \<Longrightarrow> length (snd (opStrings ! opnum op)) = 3"
  by (cases op) (simp_all add: opStrings_def opnum_def)

lemma asm_operands_commas:
  assumes "opCode i \<notin> {SPECIAL, BCOND}" "snd (opStrings ! opnum (opCode i)) = [RT, EXTRA, RS] \<Longrightarrow> group_of (opCode i) \<notin> {G_branch, G_jump}"
  shows "asm_operands i pc (snd (opStrings ! opnum (opCode i))) = commas (map (listing_operand pc) (operands_of i))"
proof (cases "snd (opStrings ! opnum (opCode i)) = [RT, EXTRA, RS]")
  case True
  then show ?thesis using assms(2)
    by (auto simp: asm_operands_def operands_of_def listing_operand_def asm_operand_def split: Group.split)
next
  case False
  obtain a b c where ts: "snd (opStrings ! opnum (opCode i)) = [a, b, c]"
    using opStrings_args[OF assms(1)] by (auto simp: numeral_eq_Suc length_Suc_conv)
  show ?thesis unfolding operands_of_def ts asm_operands_def Let_def if_not_P[OF False[unfolded ts]]
    by (cases "a = NONE"; cases "b = NONE"; cases "c = NONE") (simp_all add: listing_operand_at)
qed

lemma memory_form: "snd (opStrings ! opnum op) = [RT, EXTRA, RS] \<Longrightarrow> op \<notin> {SPECIAL, BCOND} \<Longrightarrow> group_of op \<notin> {G_branch, G_jump}"
  by (cases op) (simp_all add: opStrings_def opnum_def group_of_def)

lemma debug_text:
  assumes "group_of (opCode i) \<notin> {G_default, G_illegal}"
  shows "printf (fst (opStrings ! opnum (opCode i))) (map (\<lambda>t. PI (TypeToReg t i)) (snd (opStrings ! opnum (opCode i))))
    = takeWhile (\<lambda>c. c \<noteq> CHR '' '') (fst (opStrings ! opnum (opCode i)))
      @ (if operands_of i = [] then [] else '' '' @ commas (map debug_operand (operands_of i)))"
  using assms
  by (cases "opCode i") (simp_all add: opStrings_def opnum_def operands_of_def operand_at_def group_of_def debug_operand_def
      TypeToReg_def format_conv_def)

lemma listing_text:
  assumes "v \<noteq> 0" "opCode (Instruction_Decode v) \<notin> set (OP_RES # OP_UNIMP # dis_differs)"
  shows "concat (dump_ascii True v pc) = hex8 pc @ '': '' @ hex8 v @ ''  '' @ [TAB] @ asm_text (Instruction_Decode v) pc"
proof -
  let ?n = "unat (drop_bit 26 v)"
  have z: "drop_bit 26 v = 0 \<longleftrightarrow> ?n = 0" "drop_bit 26 v = 1 \<longleftrightarrow> ?n = 1" by (simp_all add: word_unat_eq_iff)
  have c: "map_of normal_codes ?n = Some I_SPECIAL \<longleftrightarrow> ?n = 0" "map_of normal_codes ?n = Some I_BCOND \<longleftrightarrow> ?n = 1"
    by (auto simp: normal_codes_def)
  have "concat (if ?n = 0 then dump_special v else if ?n = 1 then dump_bcond v pc else dump_normal v pc)
      = asm_text (Instruction_Decode v) pc"
    using special_agrees[of v pc] bcond_agrees[of v pc] normal_agrees[of v pc] assms(2) by (auto simp: z)
  then show ?thesis using assms(1) by (simp add: dump_ascii_def c format_conv_def Let_def split: if_splits)
qed

text \<open>C22: The listing and the debug output show the same instruction. For every instruction word
  the simulator executes, apart from the no-op and the eight operations of \<open>dis_differs\<close>, there are a
  name and a list of operands such that the line that \<open>OneInstruction\<close> prints under the flag \<open>m\<close>
  and the line that \<open>dump_ascii\<close> prints both consist of exactly this name and these operands, in this order,
  each in its own syntax: upper case, decimal registers and raw decimal numbers and offsets in the first; lower case,
  named registers, hexadecimal numbers, and for a jump or branch with the offset \<open>e\<close> the address it leads to in the second.\<close>

theorem disassemblers_agree:
  assumes "v \<noteq> 0" "opCode (Instruction_Decode v) \<notin> set (OP_RES # OP_UNIMP # dis_differs)"
  shows "\<exists>name ops.
      trace_instruction (Instruction_Decode v) pc =
        Inr (''At PC = 0x'' @ hex pc @ '': '' @ name @ (if ops = [] then [] else '' '' @ commas (map debug_operand ops)) @ [NL])
    \<and> concat (dump_ascii True v pc) =
        hex8 pc @ '': '' @ hex8 v @ ''  '' @ [TAB] @ map to_lower name @ [TAB] @ commas (map (listing_operand pc) ops)"
proof -
  let ?i = "Instruction_Decode v"
  let ?str = "opStrings ! opnum (opCode ?i)"
  let ?name = "takeWhile (\<lambda>c. c \<noteq> CHR '' '') (fst ?str)"
  have g: "group_of (opCode ?i) \<notin> {G_default, G_illegal}" "opCode ?i \<notin> {SPECIAL, BCOND}"
    using Decode_group[of v] assms(2) by (cases "opCode ?i"; simp add: group_of_def)+
  have "trace_instruction ?i pc =
      Inr (''At PC = 0x'' @ hex pc @ '': '' @ ?name @ (if operands_of ?i = [] then [] else '' '' @ commas (map debug_operand (operands_of ?i))) @ [NL])"
    using trace_total[of v pc] debug_text[OF g(1)] by (auto simp: trace_instruction_def Let_def format_conv_def assertR_def split: if_splits)
  moreover have "concat (dump_ascii True v pc) =
      hex8 pc @ '': '' @ hex8 v @ ''  '' @ [TAB] @ map to_lower ?name @ [TAB] @ commas (map (listing_operand pc) (operands_of ?i))"
    using asm_operands_commas[OF g(2) memory_form[OF _ g(2)], of pc] by (simp add: listing_text[OF assms] asm_text_def mnemonic_def)
  ultimately show ?thesis by blast
qed

definition demo_lw :: u32 where "demo_lw = 0x8fbf0014"

theorem disassemblers_agree_witness:
  "trace_instruction (Instruction_Decode demo_lw) 0x40 = Inr (''At PC = 0x40: LW r31,20(r29)'' @ [NL])
   \<and> (\<exists>name ops.
      ''At PC = 0x40: LW r31,20(r29)'' @ [NL] =
        ''At PC = 0x'' @ hex 0x40 @ '': '' @ name @ (if ops = [] then [] else '' '' @ commas (map debug_operand ops)) @ [NL]
    \<and> concat (dump_ascii True demo_lw 0x40) =
        hex8 0x40 @ '': '' @ hex8 demo_lw @ ''  '' @ [TAB] @ map to_lower name @ [TAB] @ commas (map (listing_operand 0x40) ops))"
proof -
  have f: "opCode (Instruction_Decode demo_lw) = OP_LW" "rs (Instruction_Decode demo_lw) = 29"
    "rt (Instruction_Decode demo_lw) = 31" "extra (Instruction_Decode demo_lw) = 0x14"
    by (simp_all add: Instruction_Decode_def opTable_def demo_lw_def Let_def)
  have h: "hex 0x40 = ''40''" "dec 31 = ''31''" "dec 20 = ''20''" "dec 29 = ''29''"
    by code_simp+
  have t: "trace_instruction (Instruction_Decode demo_lw) 0x40 = Inr (''At PC = 0x40: LW r31,20(r29)'' @ [NL])"
    by (simp add: trace_instruction_def f h opnum_def opStrings_def TypeToReg_def format_conv_def)
  have "demo_lw \<noteq> 0" "opCode (Instruction_Decode demo_lw) \<notin> set (OP_RES # OP_UNIMP # dis_differs)"
    by (simp_all add: f dis_differs_def) (simp add: demo_lw_def)
  from disassemblers_agree[OF this, of "0x40", unfolded t] t show ?thesis by (simp only: sum.inject)
qed

end
