(* ===== verification/Nachos_Interp.thy ===== *)
theory Nachos_Interp
  imports Nachos_Disasm
begin

text \<open>
  \<open>bin/int.h\<close>, \<open>bin/execute.c\<close>, \<open>bin/system.c\<close> and the loaders of \<open>bin/main.c\<close> and \<open>bin/disasm.c\<close>: the
  stand-alone MIPS interpreter from which the simulator of the machine directory was derived.
  The main theorem runs both on the same instruction and compares what they do. Integers are 32
  bits wide, as the casts of \<open>int.h\<close> between \<open>int\<close> and pointers require, signed arithmetic wraps,
  and the host is little-endian, as \<open>load_program\<close> demands. What C leaves undefined and hosts
  treat differently is \<open>Undefined\<close>: an access outside \<open>mem\<close>, a shift by 32 or more, a division
  by zero or of the smallest integer by -1.
\<close>

subsection \<open>State and memory\<close>

record Interp =
  Reg :: "nat \<Rightarrow> u32"
  HI :: u32
  LO :: u32
  mem :: "nat \<Rightarrow> byte"
  i_pc :: u32
  i_npc :: u32
  i_out :: string

datatype stop = Exit int | Undefined

type_synonym 'a run = "(stop \<times> Interp) + 'a"

definition bindI :: "'a run \<Rightarrow> ('a \<Rightarrow> 'b run) \<Rightarrow> 'b run" where
  "bindI m f = (case m of Inl e \<Rightarrow> Inl e | Inr x \<Rightarrow> f x)"

lemma bindI_simps [simp]: "bindI (Inl e) f = Inl e" "bindI (Inr x) f = f x"
  by (simp_all add: bindI_def)

definition MEMSIZE :: nat where "MEMSIZE = 16777216"
definition memoffset :: u32 where "memoffset = 0x10000000"

text \<open>The place in \<open>mem\<close> of \<open>n\<close> bytes at an address, \<open>(mem - memoffset)[addr]\<close>.\<close>

definition place :: "u32 \<Rightarrow> nat \<Rightarrow> nat option" where
  "place addr n = (if uint memoffset \<le> uint addr \<and> unat (addr - memoffset) + n \<le> MEMSIZE
     then Some (unat (addr - memoffset)) else None)"

definition bytes_at :: "u32 \<Rightarrow> nat \<Rightarrow> Interp \<Rightarrow> byte list run" where
  "bytes_at addr n st = (case place addr n of None \<Rightarrow> Inl (Undefined, st) | Some p \<Rightarrow> Inr (map (mem st) [p..<p + n]))"

fun put_bytes :: "nat \<Rightarrow> byte list \<Rightarrow> (nat \<Rightarrow> byte) \<Rightarrow> nat \<Rightarrow> byte" where
  "put_bytes p [] h = h"
| "put_bytes p (b # bs) h = put_bytes (p + 1) bs (h(p := b))"

definition set_bytes :: "u32 \<Rightarrow> byte list \<Rightarrow> Interp \<Rightarrow> Interp run" where
  "set_bytes addr bs st = (case place addr (length bs) of None \<Rightarrow> Inl (Undefined, st)
     | Some p \<Rightarrow> Inr (st\<lparr>mem := put_bytes p bs (mem st)\<rparr>))"

definition fetch :: "u32 \<Rightarrow> Interp \<Rightarrow> u32 run" where
  "fetch addr st = bindI (bytes_at addr 4 st) (\<lambda>bs. Inr (bytes_word bs))"

definition usfetch :: "u32 \<Rightarrow> Interp \<Rightarrow> u32 run" where
  "usfetch addr st = bindI (bytes_at addr 2 st) (\<lambda>bs. Inr (ucast (bs ! 0) OR push_bit 8 (ucast (bs ! 1))))"

definition sfetch :: "u32 \<Rightarrow> Interp \<Rightarrow> u32 run" where
  "sfetch addr st = bindI (usfetch addr st) (\<lambda>v. Inr (scast (ucast v :: u16)))"

definition ucfetch :: "u32 \<Rightarrow> Interp \<Rightarrow> u32 run" where
  "ucfetch addr st = bindI (bytes_at addr 1 st) (\<lambda>bs. Inr (ucast (bs ! 0)))"

definition cfetch :: "u32 \<Rightarrow> Interp \<Rightarrow> u32 run" where
  "cfetch addr st = bindI (bytes_at addr 1 st) (\<lambda>bs. Inr (scast (bs ! 0)))"

definition store :: "u32 \<Rightarrow> u32 \<Rightarrow> Interp \<Rightarrow> Interp run" where
  "store addr i st = set_bytes addr (word_bytes i) st"

definition sstore :: "u32 \<Rightarrow> u32 \<Rightarrow> Interp \<Rightarrow> Interp run" where
  "sstore addr i st = set_bytes addr [ucast i, ucast (drop_bit 8 i)] st"

definition cstore :: "u32 \<Rightarrow> u32 \<Rightarrow> Interp \<Rightarrow> Interp run" where
  "cstore addr i st = set_bytes addr [ucast i] st"

definition set_Reg :: "nat \<Rightarrow> u32 \<Rightarrow> Interp \<Rightarrow> Interp" where
  "set_Reg r v st = st\<lparr>Reg := (Reg st)(r := v)\<rparr>"

definition say :: "string \<Rightarrow> Interp \<Rightarrow> Interp" where
  "say s st = st\<lparr>i_out := i_out st @ s\<rparr>"

subsection \<open>System calls\<close>

text \<open>
  The numbers of the calls come from the host's \<open>syscall.h\<close>, and the calls are the host's; both
  are parameters. \<open>h_read\<close> gives the result and the bytes that were stored.
\<close>

record SysNum =
  SYS_exit :: u32
  SYS_read :: u32
  SYS_write :: u32
  SYS_open :: u32
  SYS_close :: u32
  SYS_lseek :: u32
  SYS_ioctl :: u32
  SYS_fstat :: u32
  SYS_getpagesize :: u32

record UnixHost =
  h_read :: "u32 \<Rightarrow> u32 \<Rightarrow> u32 \<times> byte list"
  h_write :: "u32 \<Rightarrow> byte list \<Rightarrow> u32"
  h_open :: "byte list \<Rightarrow> u32 \<Rightarrow> u32 \<Rightarrow> u32"
  h_lseek :: "u32 \<Rightarrow> u32 \<Rightarrow> u32 \<Rightarrow> u32"
  h_ioctl :: "u32 \<Rightarrow> u32 \<Rightarrow> u32 \<Rightarrow> u32"
  h_fstat :: "u32 \<Rightarrow> u32 \<Rightarrow> u32"
  h_pagesize :: u32

record Config =
  c_num :: SysNum
  c_host :: "nat \<Rightarrow> UnixHost"
  TRACE :: bool
  Regtrace :: bool
  Traptrace :: bool

definition dump_row :: "string \<Rightarrow> nat \<Rightarrow> Interp \<Rightarrow> string" where
  "dump_row s from st = s @ concat (map (\<lambda>j. printf '' %08x'' [PI (Reg st j)]) [from..<from + 8]) @ [NL]"

definition dump_reg :: "Interp \<Rightarrow> string" where
  "dump_reg st = dump_row '' 0:'' 0 st @ dump_row '' 8:'' 8 st @ dump_row ''16:'' 16 st @ dump_row ''24:'' 24 st"

text \<open>The string at an address, up to its final zero, as \<open>open\<close> reads its path.\<close>

definition string_at :: "u32 \<Rightarrow> Interp \<Rightarrow> byte list run" where
  "string_at addr st = (case place addr 1 of None \<Rightarrow> Inl (Undefined, st)
     | Some p \<Rightarrow> (let s = takeWhile (\<lambda>b. b \<noteq> 0) (map (mem st) [p..<MEMSIZE])
         in if p + length s < MEMSIZE then Inr s else Inl (Undefined, st)))"

text \<open>
  \<open>c_host n\<close> is the behaviour of the host at the \<open>n\<close>-th instruction. The adjustment of \<open>o1\<close> for
  \<open>ioctl\<close> is that of the source.
\<close>

definition ioctl_arg :: "u32 \<Rightarrow> u32" where
  "ioctl_arg o1 =
     (let size = signed_drop_bit 16 o1 AND 0x7f; ioctl_group = signed_drop_bit 8 o1 AND 0xff in
      if ioctl_group = 0x74 \<and> size = 8 then (o1 AND NOT (push_bit 16 0x7f)) OR push_bit 16 6 else o1)"

definition system_call :: "Config \<Rightarrow> nat \<Rightarrow> Interp \<Rightarrow> Interp run" where
  "system_call C n st =
     (let syscallno = Reg st 2; o0 = Reg st 4; o1 = Reg st 5; o2 = Reg st 6;
          N = c_num C; h = c_host C n; result = (\<lambda>v. Inr (set_Reg 1 v st)) in
      if syscallno = SYS_exit N then Inl (Exit 0, st)
      else if syscallno = SYS_read N then
        (let (r, bs) = h_read h o0 o2 in bindI (set_bytes o1 bs st) (\<lambda>st. Inr (set_Reg 1 r st)))
      else if syscallno = SYS_write N then
        bindI (bytes_at o1 (unat o2) st) (\<lambda>bs. result (h_write h o0 bs))
      else if syscallno = SYS_open N then
        bindI (string_at o0 st) (\<lambda>path. result (h_open h path o1 o2))
      else if syscallno = SYS_close N then result 0
      else if syscallno = 17 then result (word_of_int ((sint o0 sdiv 8192 + 1) * 8192))
      else if syscallno = SYS_lseek N then result (h_lseek h o0 o1 o2)
      else if syscallno = SYS_ioctl N then
        (let unused = h_ioctl h o0 (ioctl_arg o1) o2 in result 0)
      else if syscallno = SYS_fstat N then result (h_fstat h o1 o2)
      else if syscallno = SYS_getpagesize N then result (h_pagesize h)
      else (let st = say (printf (''Unknown System call %d'' @ [NL]) [PI syscallno]) st;
                st = (if Traptrace C then st else say (dump_reg st) st) in Inl (Exit 2, st)))"

definition system_trap :: "Config \<Rightarrow> nat \<Rightarrow> Interp \<Rightarrow> Interp run" where
  "system_trap C n st =
     (let st = (if Traptrace C then say (printf (''**System call %d'' @ [NL]) [PI (Reg st 2)] @ dump_reg st) st else st) in
      bindI (system_call C n st) (\<lambda>st.
      Inr (if Traptrace C then say (''**Afterwards:'' @ [NL] @ dump_reg st) st else st)))"

definition system_break :: "Config \<Rightarrow> nat \<Rightarrow> Interp \<Rightarrow> Interp run" where
  "system_break C n st = system_trap C n (if Traptrace C then say ''**breakpoint '' st else st)"

subsection \<open>Instructions\<close>

definition unimplemented :: "Interp \<Rightarrow> Interp run" where
  "unimplemented st = Inl (Exit 2, say (''Unimplemented Instruction'' @ [NL]) st)"

text \<open>\<open>I_MULT\<close> and \<open>I_MULTU\<close>: the product of the halves, from which \<open>HI\<close> is put together.\<close>

definition mult_hi :: "u32 \<Rightarrow> u32 \<Rightarrow> u32" where
  "mult_hi t1 t2 =
     (let t1l = t1 AND 0xffff; t1h = signed_drop_bit 16 t1 AND 0xffff;
          t2l = t2 AND 0xffff; t2h = signed_drop_bit 16 t2 AND 0xffff
      in t1h * t2h + signed_drop_bit 16 (t1h * t2l) + signed_drop_bit 16 (t2h * t1l))"

definition interp_mult :: "u32 \<Rightarrow> u32 \<Rightarrow> u32 \<times> u32" where
  "interp_mult a b =
     (let t1 = (if sint a < 0 then - a else a); t2 = (if sint b < 0 then - b else b);
          neg = ((sint a < 0) \<noteq> (sint b < 0)); lo = t1 * t2; hi = mult_hi t1 t2
      in if neg then (let lo = NOT lo + 1; hi = NOT hi in (if lo = 0 then hi + 1 else hi, lo)) else (hi, lo))"

definition truth :: "bool \<Rightarrow> u32" where "truth b = (if b then 1 else 0)"

definition interp_special :: "Config \<Rightarrow> nat \<Rightarrow> u32 \<Rightarrow> u32 \<Rightarrow> Interp \<Rightarrow> Interp run" where
  "interp_special C n xpc v st =
     (let a = Reg st (instr_rs v); b = Reg st (instr_rt v);
          put = (\<lambda>x. Inr (set_Reg (instr_rd v) x st));
          shifted = (\<lambda>f. if uint a < 32 then put (f (unat a) b) else Inl (Undefined, st)) in
      case map_of special_codes (unat (v AND 0x3f)) of
        None \<Rightarrow> unimplemented st
      | Some op \<Rightarrow>
        (case op of
           I_SLL \<Rightarrow> put (push_bit (unat (shamt v)) b)
         | I_SRL \<Rightarrow> put (drop_bit (unat (shamt v)) b)
         | I_SRA \<Rightarrow> put (signed_drop_bit (unat (shamt v)) b)
         | I_SLLV \<Rightarrow> shifted push_bit
         | I_SRLV \<Rightarrow> shifted drop_bit
         | I_SRAV \<Rightarrow> shifted signed_drop_bit
         | I_JR \<Rightarrow> Inr (st\<lparr>i_npc := a\<rparr>)
         | I_JALR \<Rightarrow> Inr (set_Reg (instr_rd v) (xpc + 8) (st\<lparr>i_npc := a\<rparr>))
         | I_SYSCALL \<Rightarrow> system_trap C n st
         | I_BREAK \<Rightarrow> system_break C n st
         | I_MFHI \<Rightarrow> put (HI st)
         | I_MTHI \<Rightarrow> Inr (st\<lparr>HI := a\<rparr>)
         | I_MFLO \<Rightarrow> put (LO st)
         | I_MTLO \<Rightarrow> Inr (st\<lparr>LO := a\<rparr>)
         | I_MULT \<Rightarrow> (let (hi, lo) = interp_mult a b in Inr (st\<lparr>LO := lo, HI := hi\<rparr>))
         | I_MULTU \<Rightarrow> Inr (st\<lparr>LO := a * b, HI := mult_hi a b\<rparr>)
         | I_DIV \<Rightarrow> if b = 0 \<or> a = SIGN_BIT \<and> b = -1 then Inl (Undefined, st)
             else Inr (st\<lparr>LO := word_of_int (sint a sdiv sint b), HI := word_of_int (sint a smod sint b)\<rparr>)
         | I_DIVU \<Rightarrow> if b = 0 then Inl (Undefined, st) else Inr (st\<lparr>LO := a div b, HI := a mod b\<rparr>)
         | I_ADD \<Rightarrow> put (a + b)
         | I_ADDU \<Rightarrow> put (a + b)
         | I_SUB \<Rightarrow> put (a - b)
         | I_SUBU \<Rightarrow> put (a - b)
         | I_AND \<Rightarrow> put (a AND b)
         | I_OR \<Rightarrow> put (a OR b)
         | I_XOR \<Rightarrow> put (a XOR b)
         | I_NOR \<Rightarrow> put (NOT (a OR b))
         | I_SLT \<Rightarrow> put (truth (sint a < sint b))
         | I_SLTU \<Rightarrow> put (truth (a < b))))"

definition interp_bcond :: "u32 \<Rightarrow> u32 \<Rightarrow> Interp \<Rightarrow> Interp run" where
  "interp_bcond xpc v st =
     (let linked = set_Reg 31 (xpc + 8) st;
          branch = (\<lambda>c st. Inr (if c (sint (Reg st (instr_rs v))) then st\<lparr>i_npc := xpc + 4 + push_bit 2 (immed v)\<rparr> else st)) in
      case map_of bcond_codes (instr_rt v) of
        None \<Rightarrow> unimplemented st
      | Some I_BLTZ \<Rightarrow> branch (\<lambda>x. x < 0) st
      | Some I_BGEZ \<Rightarrow> branch (\<lambda>x. x \<ge> 0) st
      | Some I_BLTZAL \<Rightarrow> branch (\<lambda>x. x < 0) linked
      | Some I_BGEZAL \<Rightarrow> branch (\<lambda>x. x \<ge> 0) linked)"

definition interp_memory :: "NormalOp \<Rightarrow> u32 \<Rightarrow> Interp \<Rightarrow> Interp run" where
  "interp_memory op v st =
     (let rt = instr_rt v; b = Reg st rt; i = Reg st (instr_rs v) + immed v;
          load = (\<lambda>f. bindI (f i st) (\<lambda>x. Inr (set_Reg rt x st)));
          aligned = i AND 0xfffffffc; sh = 8 * unat (i AND 3); rest = 8 * unat (- i AND 3) in
      case op of
        I_LB \<Rightarrow> load cfetch
      | I_LH \<Rightarrow> load sfetch
      | I_LWL \<Rightarrow> bindI (fetch aligned st) (\<lambda>x.
          Inr (set_Reg rt ((b AND signed_drop_bit rest (-1)) OR push_bit sh x) st))
      | I_LW \<Rightarrow> load fetch
      | I_LBU \<Rightarrow> load ucfetch
      | I_LHU \<Rightarrow> load usfetch
      | I_LWR \<Rightarrow> bindI (fetch aligned st) (\<lambda>x.
          Inr (set_Reg rt ((if i AND 3 = 0 then 0 else b AND push_bit sh (-1)) OR signed_drop_bit rest x) st))
      | I_SB \<Rightarrow> cstore i b st
      | I_SH \<Rightarrow> sstore i b st
      | I_SW \<Rightarrow> store i b st
      | _ \<Rightarrow> unimplemented st)"

definition interp_normal :: "NormalOp \<Rightarrow> u32 \<Rightarrow> u32 \<Rightarrow> Interp \<Rightarrow> Interp run" where
  "interp_normal op xpc v st =
     (let a = Reg st (instr_rs v); b = Reg st (instr_rt v); x = immed v;
          put = (\<lambda>y. Inr (set_Reg (instr_rt v) y st));
          target = (xpc AND 0xf0000000) OR push_bit 2 (v AND 0x3ffffff);
          branch = (\<lambda>c. Inr (if c then st\<lparr>i_npc := xpc + 4 + push_bit 2 x\<rparr> else st)) in
      case op of
        I_J \<Rightarrow> Inr (st\<lparr>i_npc := target\<rparr>)
      | I_JAL \<Rightarrow> Inr (set_Reg 31 (xpc + 8) (st\<lparr>i_npc := target\<rparr>))
      | I_BEQ \<Rightarrow> branch (a = b)
      | I_BNE \<Rightarrow> branch (a \<noteq> b)
      | I_BLEZ \<Rightarrow> branch (sint a \<le> 0)
      | I_BGTZ \<Rightarrow> branch (sint a > 0)
      | I_ADDI \<Rightarrow> put (a + x)
      | I_ADDIU \<Rightarrow> put (a + x)
      | I_SLTI \<Rightarrow> put (truth (sint a < sint x))
      | I_SLTIU \<Rightarrow> put (truth (a < x))
      | I_ANDI \<Rightarrow> put (a AND x)
      | I_ORI \<Rightarrow> put (a OR x)
      | I_XORI \<Rightarrow> put (a XOR x)
      | I_LUI \<Rightarrow> put (push_bit 16 v)
      | _ \<Rightarrow> if op \<in> {I_COP0, I_COP1, I_COP2, I_COP3, I_LWC0, I_LWC1, I_LWC2, I_LWC3, I_SWC0, I_SWC1, I_SWC2, I_SWC3}
             then Inl (Exit 2, st) else interp_memory op v st)"

text \<open>The \<open>switch\<close>, and the body of the loop of \<open>runprogram\<close> behind the fetch of \<open>instr\<close>.\<close>

definition interp_switch :: "Config \<Rightarrow> nat \<Rightarrow> u32 \<Rightarrow> u32 \<Rightarrow> Interp \<Rightarrow> Interp run" where
  "interp_switch C n xpc v st =
     (if v = 0 then Inr st
      else case map_of normal_codes (unat (drop_bit 26 v)) of
        None \<Rightarrow> unimplemented st
      | Some I_SPECIAL \<Rightarrow> interp_special C n xpc v st
      | Some I_BCOND \<Rightarrow> interp_bcond xpc v st
      | Some op \<Rightarrow> interp_normal op xpc v st)"

definition interp_exec :: "Config \<Rightarrow> nat \<Rightarrow> u32 \<Rightarrow> Interp \<Rightarrow> Interp run" where
  "interp_exec C n v st =
     (let xpc = i_pc st;
          st = set_Reg 0 0 (st\<lparr>i_pc := i_npc st, i_npc := i_npc st + 4\<rparr>) in
      bindI (interp_switch C n xpc v st) (\<lambda>st.
      Inr (if TRACE C then
             (let st = say (concat (dump_ascii True v xpc) @ [NL]) st in if Regtrace C then say (dump_reg st) st else st)
           else st)))"

definition interp_step :: "Config \<Rightarrow> nat \<Rightarrow> Interp \<Rightarrow> Interp run" where
  "interp_step C n st = bindI (fetch (i_pc st) st) (\<lambda>v. interp_exec C n v st)"

text \<open>The loop runs until the program exits: the state after \<open>n\<close> rounds.\<close>

fun interp_loop :: "Config \<Rightarrow> nat \<Rightarrow> nat \<Rightarrow> Interp \<Rightarrow> Interp run" where
  "interp_loop C icount 0 st = Inr st"
| "interp_loop C icount (Suc n) st = bindI (interp_step C icount st) (interp_loop C (icount + 1) n)"

text \<open>The arguments, on the stack of the program: \<open>argc\<close>, room for eight pointers, the strings.\<close>

fun setup_args :: "u32 \<Rightarrow> u32 \<Rightarrow> byte list list \<Rightarrow> Interp \<Rightarrow> Interp run" where
  "setup_args aci ai [] st = Inr st"
| "setup_args aci ai (s # ss) st =
     bindI (set_bytes ai (s @ [0]) st) (\<lambda>st.
     bindI (store aci ai st) (\<lambda>st.
     setup_args (aci + 4) (ai + of_nat (length s) + 1) ss st))"

definition initial_sp :: u32 where "initial_sp = of_nat MEMSIZE - 1024 + memoffset"

definition runprogram :: "Config \<Rightarrow> nat \<Rightarrow> u32 \<Rightarrow> byte list list \<Rightarrow> Interp \<Rightarrow> Interp run" where
  "runprogram C n startpc argv st =
     (let i = initial_sp; st = set_Reg 29 i (st\<lparr>i_pc := startpc, i_npc := startpc + 4\<rparr>) in
      bindI (store i (of_nat (length argv)) st) (\<lambda>st.
      bindI (setup_args (i + 4) (i + 4 + 32) argv st) (\<lambda>st.
      interp_loop C 1 n st)))"

subsection \<open>Loading\<close>

text \<open>
  The section headers and \<open>ldnshread\<close> belong to the host's library of object files; \<open>hdr\<close> gives
  the header found for a name, and \<open>file\<close> what \<open>getc\<close> delivers, \<open>EOF\<close> (stored as 0xff) behind its
  end. The macro of \<open>main.c\<close> tests the address behind the loop, the function of \<open>disasm.c\<close>
  before every byte.
\<close>

record SecHdr =
  sh_scnptr :: nat
  sh_vaddr :: u32
  sh_size :: nat

definition getc_at :: "byte list \<Rightarrow> nat \<Rightarrow> byte" where
  "getc_at file pos = (if pos < length file then file ! pos else 0xff)"

definition mem_exhausted :: "u32 \<Rightarrow> bool" where
  "mem_exhausted pc \<longleftrightarrow> sint (pc - memoffset) \<ge> int MEMSIZE"

definition too_small :: "Interp \<Rightarrow> 'a run" where
  "too_small st = Inl (Exit 1, say (''MEMSIZE too small. Fix and recompile.'' @ [NL]) st)"

fun LOADSECTION_loop :: "byte list \<Rightarrow> nat \<Rightarrow> nat \<Rightarrow> u32 \<Rightarrow> Interp \<Rightarrow> Interp run" where
  "LOADSECTION_loop file pos 0 pc st = (if mem_exhausted pc then too_small st else Inr st)"
| "LOADSECTION_loop file pos (Suc n) pc st =
     bindI (set_bytes pc [getc_at file pos] st) (LOADSECTION_loop file (pos + 1) n (pc + 1))"

definition LOADSECTION :: "byte list \<Rightarrow> SecHdr \<Rightarrow> Interp \<Rightarrow> Interp run" where
  "LOADSECTION file head st =
     (if sh_scnptr head \<noteq> 0 then LOADSECTION_loop file (sh_scnptr head) (sh_size head) (sh_vaddr head) st else Inr st)"

fun load_section_loop :: "byte list \<Rightarrow> nat \<Rightarrow> nat \<Rightarrow> u32 \<Rightarrow> Interp \<Rightarrow> Interp run" where
  "load_section_loop file pos 0 pc st = Inr st"
| "load_section_loop file pos (Suc n) pc st =
     (if mem_exhausted pc then too_small st
      else bindI (set_bytes pc [getc_at file pos] st) (load_section_loop file (pos + 1) n (pc + 1)))"

definition load_section :: "byte list \<Rightarrow> SecHdr \<Rightarrow> Interp \<Rightarrow> Interp run" where
  "load_section file head st =
     (if sh_scnptr head \<noteq> 0 then load_section_loop file (sh_scnptr head) (sh_size head) (sh_vaddr head) st else Inr st)"

fun load_all :: "(byte list \<Rightarrow> SecHdr \<Rightarrow> Interp \<Rightarrow> Interp run) \<Rightarrow> byte list \<Rightarrow> (string \<Rightarrow> SecHdr option) \<Rightarrow> string list
    \<Rightarrow> Interp \<Rightarrow> Interp run" where
  "load_all load file hdr [] st = Inr st"
| "load_all load file hdr (nm # nms) st =
     bindI (case hdr (CHR ''.'' # nm) of
         None \<Rightarrow> Inr (say (nm @ '' section header missing'' @ [NL]) st)
       | Some head \<Rightarrow> load file head st)
       (load_all load file hdr nms)"

text \<open>Both versions of \<open>load_program\<close>; \<open>type\<close> is \<open>TYPE(ldptr)\<close> when the file can be opened.\<close>

definition load_program :: "(byte list \<Rightarrow> SecHdr \<Rightarrow> Interp \<Rightarrow> Interp run) \<Rightarrow> nat option \<Rightarrow> byte list
    \<Rightarrow> (string \<Rightarrow> SecHdr option) \<Rightarrow> Interp \<Rightarrow> Interp run" where
  "load_program load type file hdr st =
     (if type \<noteq> Some 0x162 then Inl (Exit 0, st)
      else load_all load file hdr [''text'', ''rdata'', ''data'', ''sdata'', ''sbss'', ''bss''] st)"

text \<open>The disassembler of \<open>disasm.c\<close>: one line for every word of the text, from \<open>memoffset\<close> on.\<close>

definition dis1 :: "u32 \<Rightarrow> Interp \<Rightarrow> Interp run" where
  "dis1 pc st = bindI (fetch pc st) (\<lambda>instr. Inr (say (concat (dump_ascii True instr pc) @ [NL]) st))"

fun disasm_loop :: "nat \<Rightarrow> u32 \<Rightarrow> Interp \<Rightarrow> Interp run" where
  "disasm_loop 0 pc st = Inr st"
| "disasm_loop (Suc n) pc st = bindI (dis1 pc st) (disasm_loop n (pc + 4))"

definition disasm :: "nat \<Rightarrow> Interp \<Rightarrow> Interp run" where
  "disasm s_size st = disasm_loop ((s_size + 3) div 4) memoffset st"

subsection \<open>The helper of the statistics\<close>

definition ilog2_step :: "u32 \<Rightarrow> nat \<Rightarrow> u32 \<times> nat \<Rightarrow> u32 \<times> nat" where
  "ilog2_step msk n = (\<lambda>(i, l). let j = i AND msk in if j \<noteq> 0 then (j, l + n) else (i, l))"

definition ilog2 :: "u32 \<Rightarrow> nat" where
  "ilog2 i =
     (if i = 0 then 0
      else snd (ilog2_step 0xaaaaaaaa 1 (ilog2_step 0xcccccccc 2 (ilog2_step 0xf0f0f0f0 4
        (ilog2_step 0xff00ff00 8 (ilog2_step 0xffff0000 16 (i, 1)))))))"

subsection \<open>Memory\<close>

lemma place_at: "p + n \<le> MEMSIZE \<Longrightarrow> place (memoffset + of_nat p) n = Some p"
proof -
  assume p: "p + n \<le> MEMSIZE"
  then have "p \<le> 16777216" by (simp add: MEMSIZE_def)
  then have u: "unat (of_nat p :: u32) = p" by (simp add: unat_of_nat)
  then have "uint (of_nat p :: u32) = int p" by (simp add: uint_nat)
  then have "uint (memoffset + of_nat p) = 268435456 + int p"
    using \<open>p \<le> 16777216\<close> by (simp add: memoffset_def uint_word_ariths)
  then show ?thesis using p u by (simp add: place_def) (simp add: memoffset_def)
qed

lemma put_bytes_at: "put_bytes p bs h k = (if p \<le> k \<and> k < p + length bs then bs ! (k - p) else h k)"
  by (induction bs arbitrary: p h) (auto simp: nth_Cons' Suc_diff_le)

lemma set_bytes_at:
  "p + length bs \<le> MEMSIZE \<Longrightarrow> set_bytes (memoffset + of_nat p) bs st = Inr (st\<lparr>mem := put_bytes p bs (mem st)\<rparr>)"
  by (simp add: set_bytes_def place_at)

lemma bytes_at_at: "p + n \<le> MEMSIZE \<Longrightarrow> bytes_at (memoffset + of_nat p) n st = Inr (map (mem st) [p..<p + n])"
  by (simp add: bytes_at_def place_at)

lemma map_put_bytes: "map (put_bytes p bs h) [p..<p + length bs] = bs"
  by (rule nth_equalityI) (simp_all add: put_bytes_at)

lemma fetch_store: "p + 4 \<le> MEMSIZE \<Longrightarrow>
  bindI (store (memoffset + of_nat p) v st) (fetch (memoffset + of_nat p)) = Inr v"
  using map_put_bytes[of p "word_bytes v" "mem st"] by (simp add: store_def set_bytes_at fetch_def bytes_at_at)

lemma memoffset_step: "memoffset + of_nat p + of_nat k = memoffset + of_nat (p + k)"
  by simp

subsection \<open>The arguments on the stack\<close>

text \<open>The strings one behind the other, and the pointers to them.\<close>

definition arg_strings :: "byte list list \<Rightarrow> byte list" where
  "arg_strings ss = concat (map (\<lambda>s. s @ [0]) ss)"

fun arg_pointers :: "nat \<Rightarrow> byte list list \<Rightarrow> byte list" where
  "arg_pointers q [] = []"
| "arg_pointers q (s # ss) = word_bytes (memoffset + of_nat q) @ arg_pointers (q + length s + 1) ss"

lemma arg_pointers_length [simp]: "length (arg_pointers q ss) = 4 * length ss"
  by (induction ss arbitrary: q) simp_all

lemma put_bytes_append: "put_bytes p (xs @ ys) h = put_bytes (p + length xs) ys (put_bytes p xs h)"
  by (induction xs arbitrary: p h) simp_all

lemma put_bytes_commute:
  "p + length xs \<le> q \<Longrightarrow> put_bytes p xs (put_bytes q ys h) = put_bytes q ys (put_bytes p xs h)"
  by (rule ext) (auto simp: put_bytes_at)

lemma setup_args_layout:
  "p + 4 * length ss \<le> q \<Longrightarrow> q + length (arg_strings ss) \<le> MEMSIZE \<Longrightarrow>
   setup_args (memoffset + of_nat p) (memoffset + of_nat q) ss st
     = Inr (st\<lparr>mem := put_bytes p (arg_pointers q ss) (put_bytes q (arg_strings ss) (mem st))\<rparr>)"
proof (induction ss arbitrary: p q st)
  case Nil
  then show ?case by (simp add: arg_strings_def)
next
  case (Cons s ss)
  let ?q = "q + length s + 1"
  let ?st = "st\<lparr>mem := put_bytes p (word_bytes (memoffset + of_nat q)) (put_bytes q (s @ [0]) (mem st))\<rparr>"
  have a: "memoffset + of_nat p + 4 = memoffset + of_nat (p + 4)"
    "memoffset + of_nat q + of_nat (length s) + 1 = memoffset + of_nat ?q"
    by (simp_all add: ac_simps)
  have b: "?q + length (arg_strings ss) \<le> MEMSIZE" "p + 4 + 4 * length ss \<le> ?q"
    using Cons.prems by (simp_all add: arg_strings_def)
  have c: "set_bytes (memoffset + of_nat q) (s @ [0]) st = Inr (st\<lparr>mem := put_bytes q (s @ [0]) (mem st)\<rparr>)"
    "store (memoffset + of_nat p) v st' = Inr (st'\<lparr>mem := put_bytes p (word_bytes v) (mem st')\<rparr>)" for v st'
    using Cons.prems b by (simp_all add: set_bytes_at store_def)
  have "setup_args (memoffset + of_nat p) (memoffset + of_nat q) (s # ss) st
      = setup_args (memoffset + of_nat (p + 4)) (memoffset + of_nat ?q) ss ?st"
    by (simp add: c a del: of_nat_add)
  also have "\<dots> = Inr (?st\<lparr>mem := put_bytes (p + 4) (arg_pointers ?q ss) (put_bytes ?q (arg_strings ss) (mem ?st))\<rparr>)"
    using Cons.IH[OF b(2,1)] by simp
  also have "put_bytes (p + 4) (arg_pointers ?q ss) (put_bytes ?q (arg_strings ss) (mem ?st))
      = put_bytes p (arg_pointers q (s # ss)) (put_bytes q (arg_strings (s # ss)) (mem st))"
  proof -
    have "put_bytes ?q (arg_strings ss) (put_bytes p (word_bytes (memoffset + of_nat q)) (put_bytes q (s @ [0]) (mem st)))
      = put_bytes p (word_bytes (memoffset + of_nat q)) (put_bytes ?q (arg_strings ss) (put_bytes q (s @ [0]) (mem st)))"
      using b by (intro put_bytes_commute[symmetric]) simp
    moreover have "arg_strings (s # ss) = (s @ [0]) @ arg_strings ss" by (simp add: arg_strings_def)
    ultimately show ?thesis by (simp only: arg_pointers.simps put_bytes_append) simp
  qed
  finally show ?case by simp
qed

lemma setup_args_append:
  "setup_args aci ai (xs @ ys) st =
   bindI (setup_args aci ai xs st) (setup_args (aci + 4 * of_nat (length xs)) (ai + of_nat (length (arg_strings xs))) ys)"
proof (induction xs arbitrary: aci ai st)
  case Nil
  then show ?case by (simp add: arg_strings_def)
next
  case (Cons s xs)
  show ?case
    by (cases "set_bytes ai (s @ [0]) st"; simp)
      (rename_tac a; case_tac "store aci ai a"; simp add: Cons arg_strings_def algebra_simps)
qed

lemma initial_sp_at: "initial_sp = memoffset + of_nat (MEMSIZE - 1024)"
  by (simp add: initial_sp_def MEMSIZE_def)

text \<open>Up to eight arguments whose strings fit are laid out; a ninth pointer destroys the first string.\<close>

lemma arguments_layout:
  assumes "length argv \<le> 8" "length (arg_strings argv) \<le> 988"
  shows "setup_args (initial_sp + 4) (initial_sp + 4 + 32) argv st = Inr (st\<lparr>mem :=
    put_bytes (MEMSIZE - 1020) (arg_pointers (MEMSIZE - 988) argv) (put_bytes (MEMSIZE - 988) (arg_strings argv) (mem st))\<rparr>)"
proof -
  have a: "initial_sp + 4 = memoffset + of_nat (MEMSIZE - 1020)" "memoffset + of_nat (MEMSIZE - 1020) + 32 = memoffset + of_nat (MEMSIZE - 988)"
    by (simp_all add: initial_sp_at MEMSIZE_def)
  show ?thesis unfolding a using assms by (intro setup_args_layout) (simp_all add: MEMSIZE_def)
qed

lemma ninth_argument:
  assumes "length argv = 8" "length (arg_strings argv) + length s < 900"
  shows "\<exists>st'. setup_args (initial_sp + 4) (initial_sp + 4 + 32) (argv @ [s]) st = Inr st' \<and>
    map (mem st') [MEMSIZE - 988..<MEMSIZE - 984] = word_bytes (memoffset + of_nat (MEMSIZE - 988 + length (arg_strings argv)))"
proof -
  let ?q = "MEMSIZE - 988 + length (arg_strings argv)"
  have a: "initial_sp + 4 + 32 + of_nat (length (arg_strings argv)) = memoffset + of_nat ?q"
    "initial_sp + 4 + 4 * of_nat (length argv) = memoffset + of_nat (MEMSIZE - 988)"
    using assms(1) by (simp_all add: initial_sp_at MEMSIZE_def)
  have w: "set_bytes (memoffset + of_nat ?q) (s @ [0]) st' = Inr (st'\<lparr>mem := put_bytes ?q (s @ [0]) (mem st')\<rparr>)"
      "store (memoffset + of_nat (MEMSIZE - 988)) v st' = Inr (st'\<lparr>mem := put_bytes (MEMSIZE - 988) (word_bytes v) (mem st')\<rparr>)" for v st'
    using assms(2) unfolding store_def by (intro set_bytes_at; simp add: MEMSIZE_def)+
  have e: "setup_args (initial_sp + 4) (initial_sp + 4 + 32) (argv @ [s]) st =
      bindI (setup_args (initial_sp + 4) (initial_sp + 4 + 32) argv st)
        (setup_args (memoffset + of_nat (MEMSIZE - 988)) (memoffset + of_nat ?q) [s])"
    unfolding setup_args_append a ..
  have "length argv \<le> 8" "length (arg_strings argv) \<le> 988" using assms by simp_all
  note l = arguments_layout[OF this, of st]
  have m: "map (put_bytes (MEMSIZE - 988) (word_bytes v) h) [MEMSIZE - 988..<MEMSIZE - 984] = word_bytes v" for v h
    using map_put_bytes[of "MEMSIZE - 988" "word_bytes v" h] by (simp add: MEMSIZE_def)
  show ?thesis unfolding e l by (simp only: setup_args.simps bindI_simps w) (simp add: m del: of_nat_add)
qed

subsection \<open>The two loaders\<close>

lemma mem_exhausted_at: "p \<le> MEMSIZE \<Longrightarrow> mem_exhausted (memoffset + of_nat p) \<longleftrightarrow> p = MEMSIZE"
proof -
  assume "p \<le> MEMSIZE"
  then have p: "p \<le> 16777216" by (simp add: MEMSIZE_def)
  then have "uint (of_nat p :: u32) = int p" by (simp add: uint_nat unat_of_nat)
  then have "sint (of_nat p :: u32) = int p" using p by (simp add: sint_cases)
  then show ?thesis using p by (auto simp: mem_exhausted_def MEMSIZE_def)
qed

lemma set_byte_at: "p < MEMSIZE \<Longrightarrow> set_bytes (memoffset + of_nat p) [b] st = Inr (st\<lparr>mem := (mem st)(p := b)\<rparr>)"
  by (simp add: set_bytes_at)

lemma next_byte: "memoffset + of_nat p + 1 = memoffset + of_nat (p + 1)"
  by (simp add: ac_simps)

definition loaded_bytes :: "byte list \<Rightarrow> nat \<Rightarrow> nat \<Rightarrow> byte list" where
  "loaded_bytes file pos n = map (getc_at file) [pos..<pos + n]"

lemma loaded_bytes_Suc: "loaded_bytes file pos (Suc n) = getc_at file pos # loaded_bytes file (pos + 1) n"
  by (simp add: loaded_bytes_def upt_conv_Cons del: upt_Suc)

lemma main_loads:
  "p + n \<le> MEMSIZE \<Longrightarrow> LOADSECTION_loop file pos n (memoffset + of_nat p) st =
     (let st' = st\<lparr>mem := put_bytes p (loaded_bytes file pos n) (mem st)\<rparr> in if p + n = MEMSIZE then too_small st' else Inr st')"
proof (induction n arbitrary: pos p st)
  case 0
  then show ?case by (simp add: mem_exhausted_at loaded_bytes_def)
next
  case (Suc n)
  then show ?case using Suc.IH[of "p + 1" "pos + 1"]
    by (simp add: set_byte_at next_byte loaded_bytes_Suc fun_upd_def del: of_nat_add of_nat_Suc)
qed

lemma disasm_loads:
  "p + n \<le> MEMSIZE \<Longrightarrow> load_section_loop file pos n (memoffset + of_nat p) st =
     Inr (st\<lparr>mem := put_bytes p (loaded_bytes file pos n) (mem st)\<rparr>)"
proof (induction n arbitrary: pos p st)
  case 0
  then show ?case by (simp add: loaded_bytes_def)
next
  case (Suc n)
  then show ?case using Suc.IH[of "p + 1" "pos + 1"] mem_exhausted_at[of p]
    by (simp add: set_byte_at next_byte loaded_bytes_Suc fun_upd_def del: of_nat_add of_nat_Suc)
qed

lemma too_long_section:
  assumes "p \<le> MEMSIZE" "MEMSIZE < p + n"
  shows "\<exists>s1. load_section_loop file pos n (memoffset + of_nat p) st = Inl (Exit 1, s1)"
    "\<exists>s2. LOADSECTION_loop file pos n (memoffset + of_nat p) st = Inl (Undefined, s2)"
  using assms
proof (induction n arbitrary: pos p st)
  case (Suc n)
  {
    case 1
    then show ?case using Suc.IH(1)[of "p + 1" "pos + 1"] mem_exhausted_at[of p]
      by (cases "p = MEMSIZE") (simp_all add: set_byte_at next_byte too_small_def del: of_nat_add of_nat_Suc)
  next
    case 2
    have "place (memoffset + of_nat MEMSIZE) 1 = None" by (simp add: place_def MEMSIZE_def memoffset_def)
    then have "set_bytes (memoffset + of_nat MEMSIZE) [b] st = Inl (Undefined, st)" for b by (simp add: set_bytes_def)
    then show ?case using 2 Suc.IH(2)[of "p + 1" "pos + 1"]
      by (cases "p = MEMSIZE") (simp_all add: set_byte_at next_byte del: of_nat_add of_nat_Suc)
  }
qed simp_all

text \<open>The listing of \<open>disasm.c\<close> shows the words in memory.\<close>

definition words_at :: "Interp \<Rightarrow> nat \<Rightarrow> nat \<Rightarrow> u32 list" where
  "words_at st p n = map (\<lambda>j. bytes_word (map (mem st) [p + 4 * j..<p + 4 * j + 4])) [0..<n]"

lemma words_at_Suc: "words_at st p (Suc n) = bytes_word (map (mem st) [p..<p + 4]) # words_at st (p + 4) n"
  by (simp add: words_at_def upt_conv_Cons map_Suc_upt[symmetric] comp_def algebra_simps del: upt_Suc)

lemma disasm_lists:
  "p + 4 * n \<le> MEMSIZE \<Longrightarrow> disasm_loop n (memoffset + of_nat p) st =
     Inr (say (text_lines (memoffset + of_nat p) (words_at st p n)) st)"
proof (induction n arbitrary: p st)
  case 0
  then show ?case by (simp add: words_at_def say_def)
next
  case (Suc n)
  have a: "memoffset + of_nat p + 4 = memoffset + of_nat (p + 4)" by (simp add: ac_simps)
  have w: "words_at (say s st) q n = words_at st q n" for s q by (simp add: words_at_def say_def)
  show ?case using Suc.prems Suc.IH[of "p + 4"]
    by (simp add: dis1_def fetch_def bytes_at_at a words_at_Suc w del: of_nat_add) (simp add: say_def)
qed

subsection \<open>The binary logarithm\<close>

text \<open>\<open>h\<close> is the highest bit of \<open>i\<close>, and all bits of \<open>i\<close> lie in its block of \<open>w\<close> bits.\<close>

definition top_in_block :: "u32 \<Rightarrow> nat \<Rightarrow> nat \<Rightarrow> bool" where
  "top_in_block i h w \<longleftrightarrow> bit i h \<and> (\<forall>n. bit i n \<longrightarrow> n \<le> h \<and> n div w = h div w)"

lemma half_eq: "a div 2 = b div 2 \<Longrightarrow> a = b \<longleftrightarrow> (odd a \<longleftrightarrow> odd b)" for a b :: nat
  by presburger

lemma half_less: "a div 2 = b div 2 \<Longrightarrow> odd a \<Longrightarrow> even b \<Longrightarrow> \<not> a \<le> b" for a b :: nat
  by presburger

lemma block_halves: "n div (2 * w) = h div (2 * w) \<Longrightarrow> n div w = h div w \<longleftrightarrow> (odd (n div w) \<longleftrightarrow> odd (h div w))"
  for n h w :: nat
proof -
  assume "n div (2 * w) = h div (2 * w)"
  then have "n div w div 2 = h div w div 2" by (simp only: mult.commute[of 2 w] div_mult2_eq)
  then show ?thesis by (rule half_eq)
qed

lemma ilog2_step_top:
  assumes w: "0 < w" and top: "top_in_block i h (2 * w)" and m: "\<And>n. n < 32 \<Longrightarrow> bit msk n \<longleftrightarrow> odd (n div w)"
  shows "\<exists>i'. (\<forall>l. ilog2_step msk w (i, l) = (i', l + (if odd (h div w) then w else 0))) \<and> top_in_block i' h w"
proof -
  have r: "n \<le> h \<and> n div (2 * w) = h div (2 * w)" "n < 32" if "bit i n" for n
    using top that unfolding top_in_block_def by blast (use bit_imp_le_length[OF that] in simp)
  have h: "bit i h" "h < 32" using top r(2) unfolding top_in_block_def by blast+
  show ?thesis
  proof (cases "odd (h div w)")
    case True
    then have "bit (i AND msk) h" using h m by (simp add: bit_and_iff)
    then have "i AND msk \<noteq> 0" by auto
    moreover have "top_in_block (i AND msk) h w"
      unfolding top_in_block_def bit_and_iff using \<open>bit (i AND msk) h\<close> r m True block_halves bit_and_iff by metis
    ultimately show ?thesis using True by (simp add: ilog2_step_def)
  next
    case False
    have even: "even (n div w)" if "bit i n" for n
    proof (rule ccontr)
      assume "odd (n div w)"
      moreover have "n div w \<le> h div w" using r(1)[OF that] div_le_mono by blast
      moreover have "n div w div 2 = h div w div 2" using r(1)[OF that] by (simp only: mult.commute[of 2 w] div_mult2_eq)
      ultimately show False using half_less False by blast
    qed
    then have "i AND msk = 0" using r(2) m by (intro bit_eqI) (auto simp: bit_and_iff)
    moreover have "top_in_block i h w" unfolding top_in_block_def using h r even False block_halves by metis
    ultimately show ?thesis using False by (simp add: ilog2_step_def)
  qed
qed

lemma mask_bits:
  "n < 32 \<Longrightarrow> bit (0xffff0000 :: u32) n \<longleftrightarrow> odd (n div 16)" "n < 32 \<Longrightarrow> bit (0xff00ff00 :: u32) n \<longleftrightarrow> odd (n div 8)"
  "n < 32 \<Longrightarrow> bit (0xf0f0f0f0 :: u32) n \<longleftrightarrow> odd (n div 4)" "n < 32 \<Longrightarrow> bit (0xcccccccc :: u32) n \<longleftrightarrow> odd (n div 2)"
  "n < 32 \<Longrightarrow> bit (0xaaaaaaaa :: u32) n \<longleftrightarrow> odd (n div 1)"
proof -
  have "list_all (\<lambda>n. bit (0xffff0000 :: u32) n \<longleftrightarrow> odd (n div 16)) [0..<32]" by code_simp
  then show "n < 32 \<Longrightarrow> bit (0xffff0000 :: u32) n \<longleftrightarrow> odd (n div 16)" by (rule table_check)
  have "list_all (\<lambda>n. bit (0xff00ff00 :: u32) n \<longleftrightarrow> odd (n div 8)) [0..<32]" by code_simp
  then show "n < 32 \<Longrightarrow> bit (0xff00ff00 :: u32) n \<longleftrightarrow> odd (n div 8)" by (rule table_check)
  have "list_all (\<lambda>n. bit (0xf0f0f0f0 :: u32) n \<longleftrightarrow> odd (n div 4)) [0..<32]" by code_simp
  then show "n < 32 \<Longrightarrow> bit (0xf0f0f0f0 :: u32) n \<longleftrightarrow> odd (n div 4)" by (rule table_check)
  have "list_all (\<lambda>n. bit (0xcccccccc :: u32) n \<longleftrightarrow> odd (n div 2)) [0..<32]" by code_simp
  then show "n < 32 \<Longrightarrow> bit (0xcccccccc :: u32) n \<longleftrightarrow> odd (n div 2)" by (rule table_check)
  have "list_all (\<lambda>n. bit (0xaaaaaaaa :: u32) n \<longleftrightarrow> odd (n div 1)) [0..<32]" by code_simp
  then show "n < 32 \<Longrightarrow> bit (0xaaaaaaaa :: u32) n \<longleftrightarrow> odd (n div 1)" by (rule table_check)
qed

lemma block_sum:
  "(h :: nat) < 32 \<Longrightarrow> (if odd (h div 16) then 16 else 0) + (if odd (h div 8) then 8 else 0) + (if odd (h div 4) then 4 else 0)
    + (if odd (h div 2) then 2 else 0) + (if odd (h div 1) then 1 else 0) = h"
proof -
  have "list_all (\<lambda>h :: nat. (if odd (h div 16) then 16 else 0) + (if odd (h div 8) then 8 else 0) + (if odd (h div 4) then 4 else 0)
    + (if odd (h div 2) then 2 else 0) + (if odd (h div 1) then 1 else 0) = h) [0..<32]" by code_simp
  then show "h < 32 \<Longrightarrow> ?thesis" by (rule table_check)
qed

lemma ilog2_is_length:
  assumes "bit v h" "\<And>n. bit v n \<Longrightarrow> n \<le> h"
  shows "ilog2 v = h + 1"
proof -
  have h: "h < 32" "v \<noteq> 0" using assms(1) bit_imp_le_length[of v h] by auto
  have "top_in_block v h (2 * 16)"
    using assms bit_imp_le_length[of v] by (force simp: top_in_block_def)
  from ilog2_step_top[OF _ this mask_bits(1)] obtain i1 where
    1: "\<And>l. ilog2_step 0xffff0000 16 (v, l) = (i1, l + (if odd (h div 16) then 16 else 0))" "top_in_block i1 h (2 * 8)" by auto
  from ilog2_step_top[OF _ 1(2) mask_bits(2)] obtain i2 where
    2: "\<And>l. ilog2_step 0xff00ff00 8 (i1, l) = (i2, l + (if odd (h div 8) then 8 else 0))" "top_in_block i2 h (2 * 4)" by auto
  from ilog2_step_top[OF _ 2(2) mask_bits(3)] obtain i3 where
    3: "\<And>l. ilog2_step 0xf0f0f0f0 4 (i2, l) = (i3, l + (if odd (h div 4) then 4 else 0))" "top_in_block i3 h (2 * 2)" by auto
  from ilog2_step_top[OF _ 3(2) mask_bits(4)] obtain i4 where
    4: "\<And>l. ilog2_step 0xcccccccc 2 (i3, l) = (i4, l + (if odd (h div 2) then 2 else 0))" "top_in_block i4 h (2 * 1)" by auto
  from ilog2_step_top[OF _ 4(2) mask_bits(5)] obtain i5 where
    5: "\<And>l. ilog2_step 0xaaaaaaaa 1 (i4, l) = (i5, l + (if odd (h div 1) then 1 else 0))" by auto
  have "ilog2 v = 1 + ((if odd (h div 16) then 16 else 0) + (if odd (h div 8) then 8 else 0) + (if odd (h div 4) then 4 else 0)
    + (if odd (h div 2) then 2 else 0) + (if odd (h div 1) then 1 else 0))"
    unfolding ilog2_def using h(2) by (simp only: 1 2 3 4 5 snd_conv if_False ac_simps)
  then show ?thesis using block_sum[OF h(1)] by simp
qed

subsection \<open>Both simulators on the same instruction\<close>

text \<open>
  The registers of the interpreter and of the machine. Register 0 is left out: the machine clears
  it behind every instruction, the interpreter before the next one.
\<close>

definition agree :: "Interp \<Rightarrow> Machine \<Rightarrow> bool" where
  "agree st m \<longleftrightarrow> (\<forall>r. 0 < r \<and> r < 32 \<longrightarrow> Reg st r = reg m r) \<and> HI st = reg m HiReg \<and> LO st = reg m LoReg
     \<and> i_pc st = reg m PCReg \<and> i_npc st = reg m NextPCReg"

text \<open>
  Where they are meant to agree. \<open>a\<close> and \<open>b\<close> are the registers \<open>rs\<close> and \<open>rt\<close>, \<open>seq\<close> says that the
  instruction does not stand in a delay slot. System calls, memory accesses and the
  multiplication are left out, and the instructions on whose operands the two differ.
\<close>

definition same_op :: "u32 \<Rightarrow> Machine \<Rightarrow> bool" where
  "same_op v m =
     (let i = Instruction_Decode v; a = reg m (rs i); b = reg m (rt i); x = extra i;
          seq = (reg m NextPCReg = reg m PCReg + 4) in
      case opCode i of
        OP_ADD \<Rightarrow> \<not> ((a XOR b) AND SIGN_BIT = 0 \<and> (a XOR (a + b)) AND SIGN_BIT \<noteq> 0)
      | OP_ADDI \<Rightarrow> \<not> ((a XOR x) AND SIGN_BIT = 0 \<and> (x XOR (a + x)) AND SIGN_BIT \<noteq> 0)
      | OP_SUB \<Rightarrow> \<not> ((a XOR b) AND SIGN_BIT \<noteq> 0 \<and> (a XOR (a - b)) AND SIGN_BIT \<noteq> 0)
      | OP_ADDIU \<Rightarrow> True | OP_ADDU \<Rightarrow> True | OP_SUBU \<Rightarrow> True | OP_AND \<Rightarrow> True | OP_XOR \<Rightarrow> True | OP_NOR \<Rightarrow> True
      | OP_OR \<Rightarrow> a OR b = a
      | OP_ANDI \<Rightarrow> x AND 0xffff = x | OP_ORI \<Rightarrow> x AND 0xffff = x | OP_XORI \<Rightarrow> x AND 0xffff = x
      | OP_SLT \<Rightarrow> True | OP_SLTU \<Rightarrow> True | OP_SLTI \<Rightarrow> True | OP_SLTIU \<Rightarrow> True | OP_LUI \<Rightarrow> True
      | OP_SLL \<Rightarrow> True | OP_SRA \<Rightarrow> True | OP_SRL \<Rightarrow> x = 0 \<or> sint b \<ge> 0
      | OP_SLLV \<Rightarrow> uint a < 32 | OP_SRAV \<Rightarrow> uint a < 32 | OP_SRLV \<Rightarrow> uint a < 32 \<and> (a = 0 \<or> sint b \<ge> 0)
      | OP_MFHI \<Rightarrow> True | OP_MFLO \<Rightarrow> True | OP_MTHI \<Rightarrow> True | OP_MTLO \<Rightarrow> True
      | OP_DIV \<Rightarrow> b \<noteq> 0 \<and> \<not> (a = SIGN_BIT \<and> b = -1) | OP_DIVU \<Rightarrow> b \<noteq> 0
      | OP_JR \<Rightarrow> True | OP_JALR \<Rightarrow> seq \<and> rs i \<noteq> rd i
      | OP_J \<Rightarrow> (reg m NextPCReg + 4) AND 0xf0000000 = reg m PCReg AND 0xf0000000
      | OP_JAL \<Rightarrow> seq \<and> (reg m NextPCReg + 4) AND 0xf0000000 = reg m PCReg AND 0xf0000000
      | OP_BEQ \<Rightarrow> seq | OP_BNE \<Rightarrow> seq | OP_BLEZ \<Rightarrow> seq | OP_BGTZ \<Rightarrow> seq | OP_BLTZ \<Rightarrow> seq | OP_BGEZ \<Rightarrow> seq
      | OP_BLTZAL \<Rightarrow> seq | OP_BGEZAL \<Rightarrow> seq
      | _ \<Rightarrow> False)"

text \<open>The states between the \<open>switch\<close> and the tail of \<open>OneInstruction\<close>.\<close>

definition mid_agree :: "Interp \<Rightarrow> Machine \<Rightarrow> u32 \<Rightarrow> bool" where
  "mid_agree st m pc \<longleftrightarrow> cpu_mid m \<and> reg m LoadReg = 0 \<and> (\<forall>r. 0 < r \<and> r < 32 \<longrightarrow> Reg st r = reg m r)
     \<and> HI st = reg m HiReg \<and> LO st = reg m LoReg \<and> i_pc st = reg m NextPCReg \<and> i_npc st = pc"

lemma Machine_ok_mid: "cpu_mid m \<Longrightarrow> Machine_ok m"
  by (simp add: cpu_mid_def)

lemma mid_agree_set: "mid_agree st m pc \<Longrightarrow> r < 32 \<Longrightarrow> mid_agree (set_Reg r v st) (set_reg r v m) pc"
  by (auto simp: mid_agree_def set_Reg_def reg_set_reg Machine_ok_mid reg_defs)

lemma mid_agree_hilo:
  "mid_agree st m pc \<Longrightarrow> mid_agree (st\<lparr>HI := v\<rparr>) (set_reg HiReg v m) pc"
  "mid_agree st m pc \<Longrightarrow> mid_agree (st\<lparr>LO := v\<rparr>) (set_reg LoReg v m) pc"
  by (auto simp: mid_agree_def reg_set_reg Machine_ok_mid reg_defs)

lemma mid_agree_pc: "mid_agree st m pc \<Longrightarrow> mid_agree (st\<lparr>i_npc := q\<rparr>) m q"
  by (simp add: mid_agree_def)

lemma finish_agrees:
  assumes "mid_agree st m pc"
  shows "\<exists>m'. finish (Next m k pc 0 0) = Inr (m', k) \<and> agree st m' \<and> cpu_ok m' \<and> reg m' LoadReg = 0"
proof -
  from assms have m: "cpu_mid m" "reg m LoadReg = 0" by (simp_all add: mid_agree_def)
  from DelayedLoad_ok[OF m(1), of 0 0] obtain m1 where m1: "Machine_DelayedLoad 0 0 m = Inr m1" "cpu_ok m1"
      "reg m1 LoadReg = 0" "\<And>j. j \<noteq> 0 \<Longrightarrow> j < 37 \<Longrightarrow> reg m1 j = reg m j"
    using m(2) by auto
  let ?m = "set_reg NextPCReg pc (set_reg PCReg (reg (set_reg PrevPCReg (reg m1 PCReg) m1) NextPCReg)
    (set_reg PrevPCReg (reg m1 PCReg) m1))"
  have ok: "Machine_ok m1" using m1(2) by (simp add: cpu_ok_def cpu_mid_def)
  have regs: "reg ?m j = (if j = NextPCReg then pc else if j = PCReg then reg m1 NextPCReg
      else if j = PrevPCReg then reg m1 PCReg else reg m1 j)" for j
    using ok by (auto simp: reg_set_reg reg_defs)
  have "finish (Next m k pc 0 0) = Inr (?m, k)" by (simp add: finish_def m1(1) Let_def)
  moreover have "agree st ?m" using assms m1(4) unfolding agree_def regs
    by (auto simp: mid_agree_def reg_defs)
  moreover have "cpu_ok ?m" using m1(2) ok by (auto simp: cpu_ok_def cpu_mid_def reg_set_reg reg_defs)
  moreover have "reg ?m LoadReg = 0" using m1(3) regs[of LoadReg] by (simp add: reg_defs)
  ultimately show ?thesis by blast
qed

text \<open>What has to be shown of one instruction.\<close>

definition exec_agrees :: "Interp run \<Rightarrow> 'k Exec res \<Rightarrow> 'k \<Rightarrow> bool" where
  "exec_agrees r e k \<longleftrightarrow> (\<exists>st m pc. r = Inr st \<and> e = Inr (Next m k pc 0 0) \<and> mid_agree st m pc)"

lemma exec_agreesI: "mid_agree st m pc \<Longrightarrow> exec_agrees (Inr st) (go pc m k) k"
  by (auto simp: exec_agrees_def go_def)

lemma fields_small: "instr_rs v < 32" "instr_rt v < 32" "instr_rd v < 32"
  by (simp_all add: instr_rs_def instr_rt_def instr_rd_def and_1f)

lemma srl_positive: "sint (b :: u32) \<ge> 0 \<Longrightarrow> signed_drop_bit n b = drop_bit n b"
proof -
  assume "sint b \<ge> 0"
  then have "\<not> bit b 31" using sint_cases[of b] bit_31[of b] uint_u32_range(2)[of b] by (auto simp: bit_uint_iff split: if_splits)
  then show ?thesis by (intro bit_eqI) (auto simp: bit_simps bit_signed_drop_bit_iff dest: bit_imp_le_length)
qed

lemma srl_same: "x = 0 \<or> sint (b :: u32) \<ge> 0 \<Longrightarrow> signed_drop_bit (unat x) b = drop_bit (unat (x :: u32)) b"
  by (auto simp: srl_positive)

lemma and_31: "uint (a :: u32) < 32 \<Longrightarrow> a AND 31 = a"
proof -
  assume "uint a < 32"
  then have "take_bit 5 (uint a) = uint a" by (simp add: take_bit_int_eq_self)
  then have "take_bit 5 a = a" by (simp add: word_uint_eq_iff unsigned_take_bit_eq)
  moreover have "(31 :: u32) = mask 5" using mask_u32(2) by simp
  ultimately show ?thesis by (simp only: take_bit_eq_mask)
qed

lemma special_exec:
  assumes "drop_bit 26 v = 0" and st: "mid_agree st m (reg m NextPCReg + 4)" "\<And>r. r < 32 \<Longrightarrow> Reg st r = reg m r"
    and "same_op v m" "xpc = reg m PCReg"
  shows "exec_agrees (interp_special C n xpc v st) (exec_switch K (Instruction_Decode v) (reg m NextPCReg + 4) m k) k"
proof -
  let ?n = "unat (v AND 0x3f)"
  have op: "opCode (Instruction_Decode v) = specialTable ! ?n" "extra (Instruction_Decode v) = shamt v"
    by (simp_all add: Decode_special assms(1))
  note small = fields_small[of v, unfolded Decode_parts]
  note reads = st(2)[OF small(1)] st(2)[OF small(2)]
  have hl: "HI st = reg m HiReg" "LO st = reg m LoReg" using st(1) by (simp_all add: mid_agree_def)
  have ok: "Machine_ok m" "rd (Instruction_Decode v) < 40" using st(1) small by (simp_all add: mid_agree_def cpu_mid_def)
  obtain x where x: "map_of special_codes ?n = Some x"
    using special_cases[of ?n] and_3f[of v] assms(4) by (cases "map_of special_codes ?n") (auto simp: same_op_def op)
  have m: "(?n, x) \<in> set special_codes" using x by (rule map_of_SomeD)
  note agree_rules = exec_agreesI mid_agree_set mid_agree_hilo st(1) small mid_agree_pc
  show ?thesis
    using m assms(4,5)
    unfolding interp_special_def Let_def x option.case Decode_parts reads hl
    unfolding special_codes_def list.set insert_iff prod.inject empty_iff HOL.simp_thms
    by (elim disjE conjE)
      (simp_all add: specialTable_def exec_switch_def group_of_def op same_op_def Let_def
      exec_shift_set_def exec_add_and_def exec_sub_xor_def exec_hilo_or_def exec_div_def exec_jump_def truth_def,
       auto simp: srl_same and_31 reg_set_reg ok ac_simps intro!: agree_rules)
qed

lemma and_sign: "v AND SIGN_BIT = 0 \<longleftrightarrow> \<not> sint (v :: u32) < 0"
  using sign_iff[of v] by blast

lemma branch_agrees:
  "mid_agree st m p \<Longrightarrow> c \<longleftrightarrow> c' \<Longrightarrow> t = t' \<Longrightarrow>
   exec_agrees (Inr (if c then st\<lparr>i_npc := t\<rparr> else st)) (go (if c' then t' else p) m k) k"
  by (auto intro!: exec_agreesI intro: mid_agree_pc)

lemma bcond_exec:
  assumes "drop_bit 26 v = 1" and st: "mid_agree st m (reg m NextPCReg + 4)" "\<And>r. r < 32 \<Longrightarrow> Reg st r = reg m r"
    and "same_op v m" "xpc = reg m PCReg"
  shows "exec_agrees (interp_bcond xpc v st) (exec_switch K (Instruction_Decode v) (reg m NextPCReg + 4) m k) k"
proof -
  obtain b where b: "map_of bcond_codes (instr_rt v) = Some b"
    using assms(1,4) by (cases "map_of bcond_codes (instr_rt v)") (auto simp: Decode_bcond same_op_def)
  have ok: "Machine_ok m" using st(1) by (simp add: mid_agree_def cpu_mid_def)
  have t: "xpc + 4 + push_bit 2 (immed v) = reg m NextPCReg + IndexToAddr (extra (Instruction_Decode v))"
    and l: "xpc + 8 = reg m NextPCReg + 4"
    using assms(4,5) b Decode_bcond[OF assms(1)] by (cases b; simp add: same_op_def IndexToAddr_def)+
  note small = fields_small(1)[of v, unfolded Decode_parts]
  have reads: "Reg st (rs (Instruction_Decode v)) = reg m (rs (Instruction_Decode v))"
    "Reg (set_Reg 31 y st) (rs (Instruction_Decode v)) = reg (set_reg 31 y m) (rs (Instruction_Decode v))" for y
    using st(2)[OF small] by (simp_all add: set_Reg_def reg_set_reg ok)
  show ?thesis
    using b Decode_bcond(1)[OF assms(1)] st(1) mid_agree_set[OF st(1), of 31]
    by (cases b)
      (simp_all add: interp_bcond_def exec_switch_def group_of_def exec_branch_def Let_def Decode_parts t l reads
         R31_def not_le sign_iff and_sign not_less branch_agrees)
qed

lemma normal_cases_ne:
  "map_of normal_codes n = Some x \<Longrightarrow> x \<noteq> I_SPECIAL \<Longrightarrow> x \<noteq> I_BCOND \<Longrightarrow> unat (drop_bit 26 v) = n \<Longrightarrow>
   opCode (Instruction_Decode v) = fst (opTable ! n) \<and>
   extra (Instruction_Decode v) = (if snd (opTable ! n) = JFMT then v AND 0x3ffffff else immed v)"
  unfolding normal_codes_def
  by (drule map_of_SomeD) (auto simp: Instruction_Decode_def drop_26 Let_def opTable_def immed_sign_extend)

lemma lui_same: "push_bit 16 (immed v) = push_bit 16 v"
proof -
  have m: "- 0x8000 = (NOT (mask 15) :: u32)" by (simp add: mask_eq_exp_minus_1)
  show ?thesis unfolding immed_def bit_15 m mask_u32
    by (rule bit_eqI, rename_tac n, case_tac "n = 31") (auto simp: bit_simps)
qed

lemma normal_exec:
  assumes "map_of normal_codes (unat (drop_bit 26 v)) = Some x" "x \<noteq> I_SPECIAL" "x \<noteq> I_BCOND"
    and st: "mid_agree st m (reg m NextPCReg + 4)" "\<And>r. r < 32 \<Longrightarrow> Reg st r = reg m r"
    and "same_op v m" "xpc = reg m PCReg"
  shows "exec_agrees (interp_normal x xpc v st) (exec_switch K (Instruction_Decode v) (reg m NextPCReg + 4) m k) k"
proof -
  have m: "(unat (drop_bit 26 v), x) \<in> set normal_codes" using assms(1) by (rule map_of_SomeD)
  note op = normal_cases_ne[OF assms(1-3) refl]
  note small = fields_small[of v, unfolded Decode_parts]
  note reads = st(2)[OF small(1)] st(2)[OF small(2)]
  have st8: "mid_agree st m (reg m PCReg + 8)" if "reg m NextPCReg = reg m PCReg + 4"
    using st(1) that by (simp add: add.commute)
  note agree_rules = exec_agreesI mid_agree_set st(1) st8 small mid_agree_pc
  show ?thesis
    using m assms(2,3,6,7)
    unfolding interp_normal_def Let_def Decode_parts reads
    unfolding normal_codes_def list.set insert_iff prod.inject empty_iff HOL.simp_thms
    by (elim disjE conjE)
      (simp_all add: opTable_def exec_switch_def group_of_def op same_op_def Let_def IndexToAddr_def
        exec_shift_set_def exec_add_and_def exec_sub_xor_def exec_hilo_or_def exec_load_def exec_branch_def exec_jump_def truth_def lui_same R31_def,
       auto simp: ac_simps intro!: agree_rules)
qed

lemma switch_agrees:
  assumes st: "mid_agree st m (reg m NextPCReg + 4)" "\<And>r. r < 32 \<Longrightarrow> Reg st r = reg m r"
    and "same_op v m" "xpc = reg m PCReg"
  shows "exec_agrees (interp_switch C n xpc v st) (exec_switch K (Instruction_Decode v) (reg m NextPCReg + 4) m k) k"
proof (cases "v = 0")
  case True
  have same: "(Reg st)(0 := reg m 0) = Reg st" using st(2)[of 0] by (simp add: fun_upd_idem)
  have i: "Instruction_Decode 0 = \<lparr>ivalue = 0, opCode = OP_SLL, rs = 0, rt = 0, rd = 0, extra = 0\<rparr>"
    by (simp add: Instruction_Decode_def opTable_def specialTable_def Let_def)
  have "mid_agree (set_Reg 0 (Reg st 0) st) (set_reg 0 (reg m 0) m) (reg m NextPCReg + 4)"
    using st(2)[of 0] mid_agree_set[OF st(1), of 0 "reg m 0"] by simp
  then show ?thesis using True st(2)[of 0]
    by (auto simp: interp_switch_def i exec_switch_def group_of_def exec_shift_set_def set_Reg_def same intro!: exec_agreesI)
next
  case False
  let ?n = "unat (drop_bit 26 v)"
  have z: "drop_bit 26 v = 0 \<longleftrightarrow> ?n = 0" "drop_bit 26 v = 1 \<longleftrightarrow> ?n = 1" by (simp_all add: word_unat_eq_iff)
  have c: "map_of normal_codes ?n = Some I_SPECIAL \<Longrightarrow> ?n = 0" "map_of normal_codes ?n = Some I_BCOND \<Longrightarrow> ?n = 1"
    by (auto simp: normal_codes_def split: if_splits)
  show ?thesis
  proof (cases "map_of normal_codes ?n")
    case None
    then have "opTable ! ?n = (OP_RES, IFMT)" using table_check[OF normal_cases normal_field[of v]] by simp
    then have "opCode (Instruction_Decode v) = OP_RES" by (simp add: Instruction_Decode_def drop_26 Let_def)
    then show ?thesis using assms(3) by (simp add: same_op_def)
  next
    case (Some x)
    consider "x = I_SPECIAL" | "x = I_BCOND" | "x \<noteq> I_SPECIAL" "x \<noteq> I_BCOND" by blast
    then show ?thesis
    proof cases
      case 1
      then show ?thesis using False Some c(1) special_exec[OF _ st assms(3,4)] z by (simp add: interp_switch_def)
    next
      case 2
      then show ?thesis using False Some c(2) bcond_exec[OF _ st assms(3,4)] z by (simp add: interp_switch_def)
    next
      case 3
      then have "interp_switch C n xpc v st = interp_normal x xpc v st"
        using False Some by (cases x) (simp_all add: interp_switch_def)
      then show ?thesis using normal_exec[OF Some 3 st assms(3,4)] by simp
    qed
  qed
qed

lemma step_agrees:
  assumes "cpu_ok m" "reg m LoadReg = 0" "agree st m" "same_op v m"
  shows "\<exists>st' m'. interp_exec C n v st = Inr st'
    \<and> bindR (exec_switch K (Instruction_Decode v) (reg m NextPCReg + 4) m k) finish = Inr (m', k)
    \<and> agree st' m' \<and> cpu_ok m' \<and> reg m' LoadReg = 0"
proof -
  let ?st = "set_Reg 0 0 (st\<lparr>i_pc := i_npc st, i_npc := i_npc st + 4\<rparr>)"
  have st: "mid_agree ?st m (reg m NextPCReg + 4)" "\<And>r. r < 32 \<Longrightarrow> Reg ?st r = reg m r"
    using assms(1-3) by (auto simp: mid_agree_def agree_def set_Reg_def cpu_ok_def)
  have pc: "i_pc st = reg m PCReg" using assms(3) by (simp add: agree_def)
  from switch_agrees[OF st assms(4) pc, of C n K k]
  obtain st1 m1 p where e: "interp_switch C n (i_pc st) v ?st = Inr st1"
      "exec_switch K (Instruction_Decode v) (reg m NextPCReg + 4) m k = Inr (Next m1 k p 0 0)" "mid_agree st1 m1 p"
    by (auto simp: exec_agrees_def)
  define st2 where "st2 = (if TRACE C then (let st = say (concat (dump_ascii True v (i_pc st)) @ [NL]) st1
      in if Regtrace C then say (dump_reg st) st else st) else st1)"
  have "mid_agree st2 m1 p" using e(3) by (simp add: st2_def mid_agree_def say_def Let_def)
  moreover have "interp_exec C n v st = Inr st2" by (simp add: interp_exec_def e(1) st2_def Let_def)
  ultimately show ?thesis using finish_agrees[of st2 m1 p k] e(2) by auto
qed

subsection \<open>The upper half of a product\<close>

text \<open>
  The interpreter adds the truncated middle products, so the carries out of the lower half are
  lost: \<open>HI\<close> is up to two too small.
\<close>

lemma interp_mult_lo: "snd (interp_mult a b) = a * b"
  by (simp add: interp_mult_def Let_def not_eq_complement)

lemma uint_low: "uint (t AND 0xffff :: u32) = uint t mod 65536"
  unfolding mask_u32 take_bit_eq_mask[symmetric] by (simp add: take_bit_eq_mod uint_mod_distrib)

lemma uint_high: "uint (t :: u32) < 2147483648 \<Longrightarrow> uint (signed_drop_bit 16 t) = uint t div 65536"
proof -
  assume t: "uint t < 2147483648"
  then have "sint t \<ge> 0" by (simp add: sint_cases)
  then show ?thesis by (simp add: srl_positive drop_bit_eq_div uint_div_distrib)
qed

lemma uint_mult_exact: "uint x * uint y < 4294967296 \<Longrightarrow> uint (x * y :: u32) = uint x * uint y"
  by (simp add: uint_word_ariths)

lemma uint_add_exact: "uint x + uint y < 4294967296 \<Longrightarrow> uint (x + y :: u32) = uint x + uint y"
  by (simp add: uint_word_ariths)

lemma carries:
  fixes x y z :: int
  assumes "0 \<le> z" "z < n"
  shows "\<exists>d. 0 \<le> d \<and> d \<le> 2 \<and> x div n + y div n = (x + y + z) div n - d"
proof -
  have n: "0 < n" using assms by simp
  have e: "x + y + z = (x mod n + y mod n + z) + (x div n + y div n) * n"
    by (simp add: algebra_simps)
  have "(x + y + z) div n = (x mod n + y mod n + z) div n + (x div n + y div n)"
    unfolding e using n by (subst div_mult_self1) simp_all
  moreover have "0 \<le> (x mod n + y mod n + z) div n" using n assms by (simp add: pos_imp_zdiv_nonneg_iff)
  moreover have "(x mod n + y mod n + z) div n \<le> ((n - 1) + 2 * n) div n"
    using n assms pos_mod_bound[OF n, of x] pos_mod_bound[OF n, of y] by (intro zdiv_mono1) linarith+
  moreover have "((n - 1) + 2 * n) div n = 2" using n by (subst div_mult_self1) (simp_all add: div_pos_pos_trivial)
  ultimately show ?thesis by (intro exI[of _ "(x mod n + y mod n + z) div n"]) simp
qed

lemma mult_hi_value:
  assumes "uint t1 < 2147483648" "uint t2 < 2147483648"
  shows "\<exists>d. 0 \<le> d \<and> d \<le> 2 \<and> uint (mult_hi t1 t2) = uint t1 * uint t2 div 4294967296 - d"
proof -
  define a b c e where abce: "a = uint t1 div 65536" "b = uint t1 mod 65536" "c = uint t2 div 65536" "e = uint t2 mod 65536"
  have t: "uint t1 = a * 65536 + b" "uint t2 = c * 65536 + e" by (simp_all add: abce)
  have r: "0 \<le> a" "a \<le> 32767" "0 \<le> b" "b \<le> 65535" "0 \<le> c" "c \<le> 32767" "0 \<le> e" "e \<le> 65535"
    using assms by (simp_all add: abce pos_imp_zdiv_nonneg_iff)
  have ae: "0 \<le> a * e" "a * e \<le> 32767 * 65535" and cb: "0 \<le> c * b" "c * b \<le> 32767 * 65535"
    and ac: "0 \<le> a * c" "a * c \<le> 32767 * 32767"
    using r by (simp_all only: mult_nonneg_nonneg mult_mono)
  have h: "uint (signed_drop_bit 16 t1 AND 0xffff) = a" "uint (signed_drop_bit 16 t2 AND 0xffff) = c"
    "uint (t1 AND 0xffff) = b" "uint (t2 AND 0xffff) = e"
    using r assms by (simp_all only: uint_low uint_high) (simp_all add: abce)
  have "uint (mult_hi t1 t2) = a * c + a * e div 65536 + c * b div 65536"
    unfolding mult_hi_def Let_def using ae cb ac
    by (simp add: uint_add_exact uint_mult_exact uint_high h) 
  moreover have "uint t1 * uint t2 div 4294967296 = a * c + (a * e + c * b + b * e div 65536) div 65536"
  proof -
    have "uint t1 * uint t2 = (b * e + (a * e + c * b) * 65536) + (a * c) * 4294967296" by (simp add: t algebra_simps)
    then have "uint t1 * uint t2 div 4294967296 = a * c + (b * e + (a * e + c * b) * 65536) div (65536 * 65536)" by simp
    then show ?thesis by (simp only: zdiv_zmult2_eq) (simp add: ac_simps)
  qed
  moreover have "0 \<le> b * e div 65536" "b * e div 65536 < 65536"
    using r mult_mono[of b 65535 e 65535] by (simp_all add: pos_imp_zdiv_nonneg_iff)
  ultimately show ?thesis using carries[of "b * e div 65536" 65536 "a * e" "c * b"] by auto
qed

lemma mult_hi_too_small:
  "mult_hi 0x1ffff 0x1ffff = 1" "uint (0x1ffff :: u32) * uint (0x1ffff :: u32) div 4294967296 = 3"
  by (simp_all add: mult_hi_def Let_def)

subsection \<open>What the interpreters show\<close>

text \<open>C20: The stand-alone interpreter and the simulator of the machine agree. Take any instruction
  outside the cases that \<open>same_op\<close> lists, with the same registers, program counters and \<open>HI\<close>, \<open>LO\<close> on
  both sides and no load pending. Then the body of the interpreter's loop and the \<open>switch\<close>
  of \<open>OneInstruction\<close> with its tail both succeed, and leave the same registers, counters and
  \<open>HI\<close>, \<open>LO\<close>; the state of the kernel is not touched, and again no load is pending.\<close>

theorem interpreters_agree:
  assumes "cpu_ok m" "reg m LoadReg = 0" "agree st m" "same_op v m"
  shows "\<exists>st' m'. interp_exec C n v st = Inr st'
    \<and> bindR (exec_switch K (Instruction_Decode v) (reg m NextPCReg + 4) m k) finish = Inr (m', k)
    \<and> agree st' m' \<and> cpu_ok m' \<and> reg m' LoadReg = 0"
  using assms by (rule step_agrees)

definition demo_interp :: Interp where
  "demo_interp = \<lparr>Reg = (\<lambda>_. 0), HI = 0, LO = 0, mem = (\<lambda>_. 0), i_pc = 0, i_npc = 4, i_out = []\<rparr>"

definition demo_config :: Config where
  "demo_config = \<lparr>c_num = \<lparr>SYS_exit = 1, SYS_read = 3, SYS_write = 4, SYS_open = 5, SYS_close = 6, SYS_lseek = 19,
     SYS_ioctl = 54, SYS_fstat = 62, SYS_getpagesize = 64\<rparr>,
     c_host = (\<lambda>_. \<lparr>h_read = (\<lambda>_ _. (0, [])), h_write = (\<lambda>_ bs. of_nat (length bs)), h_open = (\<lambda>_ _ _. 3),
       h_lseek = (\<lambda>_ _ _. 0), h_ioctl = (\<lambda>_ _ _. 0), h_fstat = (\<lambda>_ _. 0), h_pagesize = 4096\<rparr>),
     TRACE = False, Regtrace = False, Traptrace = False\<rparr>"

theorem interpreters_agree_witness:
  "\<exists>st' m'. interp_exec demo_config 1 0x1000000f demo_interp = Inr st'
    \<and> bindR (exec_switch demo_kernel (Instruction_Decode 0x1000000f) (reg demo_cpu NextPCReg + 4) demo_cpu ()) finish = Inr (m', ())
    \<and> agree st' m' \<and> cpu_ok m' \<and> reg m' LoadReg = 0"
proof (rule interpreters_agree[OF demo_cpu_ok])
  have r: "reg demo_cpu j = (if j = 35 then 4 else 0)" if "j < 40" for j
    using that by (simp add: demo_cpu_def reg_def reg_defs nth_list_update)
  show "reg demo_cpu LoadReg = 0" by (simp add: r reg_defs)
  show "agree demo_interp demo_cpu" by (simp add: agree_def demo_interp_def r reg_defs)
  have "opCode (Instruction_Decode 0x1000000f) = OP_BEQ"
    by (simp add: Instruction_Decode_def opTable_def Let_def)
  then show "same_op 0x1000000f demo_cpu" by (simp add: same_op_def r reg_defs Let_def)
qed

end
