(* ===== verification/Nachos_VM.thy ===== *)
theory Nachos_VM
  imports Nachos_AddrSpace Nachos_Mipssim "HOL-Library.Multiset"
begin

text \<open>
  The build with virtual memory (flags \<open>VM\<close>, \<open>USE_TLB\<close>): the inverted page table
  (\<open>userprog/invertedpagetables.h\<close>), the swap file (\<open>userprog/memoryswap.h\<close>), the page loading of
  \<open>userprog/addrspace.cc\<close> and the page fault handler of \<open>userprog/exception.cc\<close>.

  The page table of an address space is an array in the store \<open>tables\<close> of the machine; every
  index into it, into the TLB and into the vectors of the inverted page table is checked, and an
  index out of range is \<open>BadAccess\<close>. The swap file is the contents of the host file.
\<close>

subsection \<open>The inverted page table\<close>

record IPT =
  uses :: "int list"
  virtualPageTable :: "int list"
  fifo_queue :: "int list"
  pageCounter :: int
  second_chance_queue :: "(int \<times> bool) list"
  physicalPagesBitmap :: BitMap
  replacementAlgorithm :: int
  NumPhysPages_IPT :: int

definition IPT_new :: "u32 list \<Rightarrow> int \<Rightarrow> IPT res" where
  "IPT_new heap algorithmToUse =
     (let n = NumPhysPages * 2 in
      mapR (\<lambda>bm. \<lparr>uses = replicate (nat n) 0, virtualPageTable = replicate (nat n) (-1), fifo_queue = [], pageCounter = 0,
              second_chance_queue = [], physicalPagesBitmap = bm, replacementAlgorithm = algorithmToUse, NumPhysPages_IPT = n\<rparr>)
        (BitMap_new heap n))"

text \<open>
  The second-chance loop, as it is in \<open>getTLBEntryToReplace\<close> and in \<open>getEntryToReplace\<close>: a page that
  was used loses its mark and goes to the end of the queue. The front of an empty queue is
  undefined.
\<close>

function second_chance :: "(int \<times> bool) list \<Rightarrow> (int \<times> (int \<times> bool) list) res" where
  "second_chance [] = Inl BadAccess"
| "second_chance ((p, used) # q) =
     (if \<not> used then Inr (p, q @ [(p, True)]) else second_chance (q @ [(p, False)]))"
  by pat_completeness auto
termination
  by (relation "measure (\<lambda>q. length (filter snd q))") auto

text \<open>The loop over the TLB for the least used page: the best entry so far, its page and its uses.\<close>

fun least_tlb :: "TranslationEntry list \<Rightarrow> int \<Rightarrow> int list \<Rightarrow> int \<Rightarrow> int \<Rightarrow> int \<Rightarrow> (int \<times> int) res" where
  "least_tlb [] page us entry ppage leastUsed = Inr (entry, ppage)"
| "least_tlb (e # es) page us entry ppage leastUsed =
     bindR (ixR us (physicalPage e)) (\<lambda>usesBuffer.
     if usesBuffer < leastUsed then least_tlb es (page + 1) us page (physicalPage e) usesBuffer
     else least_tlb es (page + 1) us entry ppage leastUsed)"

text \<open>
  \<open>getTLBEntryToReplace\<close>: the index of the entry. Second chance takes the number of a physical
  page for one; FIFO and unknown algorithms leave the pointer uninitialised.
\<close>

definition getTLBEntryToReplace :: "IPT \<Rightarrow> Machine \<Rightarrow> (int \<times> IPT) res" where
  "getTLBEntryToReplace t m =
     (if replacementAlgorithm t = 1 then
        mapR (\<lambda>(p, q). (p, t\<lparr>second_chance_queue := q\<rparr>)) (second_chance (second_chance_queue t))
      else if replacementAlgorithm t = 2 then
        (case tlb m of None \<Rightarrow> Inl BadAccess | Some es \<Rightarrow>
         bindR (ixR es 0) (\<lambda>e.
         bindR (ixR (uses t) (physicalPage e)) (\<lambda>u.
         bindR (least_tlb (tl (take (nat TLBSize) es)) 1 (uses t) 0 (physicalPage e) u) (\<lambda>(entry, p).
         mapR (\<lambda>us. (entry, t\<lparr>uses := us\<rparr>)) (updR (uses t) p 0)))))
      else Inl BadAccess)"

fun least_from :: "int list \<Rightarrow> int \<Rightarrow> int \<Rightarrow> int \<Rightarrow> int" where
  "least_from [] i leastUsedPage leastUses = leastUsedPage"
| "least_from (u # us) i leastUsedPage leastUses =
     (if u < leastUses then least_from us (i + 1) i u else least_from us (i + 1) leastUsedPage leastUses)"

definition getLeastUsedPhysicalPage :: "IPT \<Rightarrow> int res" where
  "getLeastUsedPhysicalPage t =
     bindR (ixR (uses t) 0) (\<lambda>u.
     if int (length (uses t)) < NumPhysPages_IPT t then Inl BadAccess
     else Inr (least_from (tl (take (nat (NumPhysPages_IPT t)) (uses t))) 1 0 u))"

definition IPT_updatePage :: "IPT \<Rightarrow> int \<Rightarrow> bool \<Rightarrow> IPT res" where
  "IPT_updatePage t ppage resetUses =
     (if replacementAlgorithm t = 0 then Inr (t\<lparr>fifo_queue := fifo_queue t @ [ppage]\<rparr>)
      else if replacementAlgorithm t = 1 then
        Inr (t\<lparr>second_chance_queue := second_chance_queue t @ [(ppage, True)]\<rparr>)
      else if replacementAlgorithm t = 2 then
        bindR (ixR (uses t) ppage) (\<lambda>u.
        mapR (\<lambda>us. t\<lparr>uses := us\<rparr>) (updR (uses t) ppage (if resetUses then 0 else u + 1)))
      else Inr t)"

definition getEntryToReplace :: "IPT \<Rightarrow> (int \<times> IPT) res" where
  "getEntryToReplace t =
     (if replacementAlgorithm t = 0 then
        (case fifo_queue t of [] \<Rightarrow> Inl BadAccess | p # q \<Rightarrow> Inr (p, t\<lparr>fifo_queue := q\<rparr>))
      else if replacementAlgorithm t = 1 then
        mapR (\<lambda>(p, q). (p, t\<lparr>second_chance_queue := q\<rparr>)) (second_chance (second_chance_queue t))
      else if replacementAlgorithm t = 2 then
        bindR (getLeastUsedPhysicalPage t) (\<lambda>p.
        bindR (updR (virtualPageTable t) p (-1)) (\<lambda>vs.
        mapR (\<lambda>us. (p, t\<lparr>virtualPageTable := vs, uses := us\<rparr>)) (updR (uses t) p 0)))
      else Inr (0, t))"

definition RestorePages :: "Machine \<Rightarrow> Machine res" where
  "RestorePages m = (case tlb m of None \<Rightarrow> Inl BadAccess
     | Some es \<Rightarrow> Inr (m\<lparr>tlb := Some (map (\<lambda>e. e\<lparr>valid := True\<rparr>) (take (nat TLBSize) es) @ drop (nat TLBSize) es)\<rparr>))"

subsection \<open>The swap file\<close>

definition SWAP_PAGES_QUANTITY :: int where "SWAP_PAGES_QUANTITY = 2 * NumPhysPages"

record Swap =
  swapSegment :: "byte list"
  swapBitMap :: BitMap
  virtualPages :: "int list"

text \<open>\<open>Create\<close> truncates the file.\<close>

definition Swap_new :: "u32 list \<Rightarrow> Swap res" where
  "Swap_new heap = mapR (\<lambda>bm. \<lparr>swapSegment = [], swapBitMap = bm, virtualPages = replicate (nat SWAP_PAGES_QUANTITY) (-1)\<rparr>)
     (BitMap_new heap SWAP_PAGES_QUANTITY)"

text \<open>The first slot with the page, as the two search loops find it.\<close>

fun find_slot :: "int list \<Rightarrow> int \<Rightarrow> int \<Rightarrow> int option" where
  "find_slot [] v i = None"
| "find_slot (x # xs) v i = (if x = v then Some i else find_slot xs v (i + 1))"

definition isLoadedInSwap :: "Swap \<Rightarrow> int \<Rightarrow> bool" where
  "isLoadedInSwap s addr \<longleftrightarrow> find_slot (virtualPages s) addr 0 \<noteq> None"

text \<open>\<open>OpenFile::WriteAt\<close> of the host file, which grows as needed.\<close>

definition Stub_WriteAt :: "byte list \<Rightarrow> byte list \<Rightarrow> int \<Rightarrow> byte list res" where
  "Stub_WriteAt file bs position =
     assertR (0 \<le> position) (Inr (overwrite (file @ replicate (nat position + length bs - length file) 0) (nat position) bs))"

definition readSwapMemory :: "Swap \<Rightarrow> int \<Rightarrow> int \<Rightarrow> Machine \<Rightarrow> (bool \<times> Swap \<times> Machine) res" where
  "readSwapMemory s ppage vpage m =
     (case find_slot (virtualPages s) vpage 0 of
        None \<Rightarrow> Inr (False, s, m)
      | Some fileIndex \<Rightarrow>
          bindR (updR (virtualPages s) fileIndex 0) (\<lambda>vs.
          bindR (BitMap_Clear (swapBitMap s) fileIndex) (\<lambda>bm.
          bindR (Stub_ReadAt (swapSegment s) PageSize (fileIndex * PageSize)) (\<lambda>bs.
          bindR (poke (mainMemory m) (ppage * PageSize) bs) (\<lambda>mem.
          Inr (True, s\<lparr>virtualPages := vs, swapBitMap := bm\<rparr>, m\<lparr>mainMemory := mem\<rparr>))))))"

text \<open>The bytes of a page of main memory.\<close>

definition page_bytes :: "byte list \<Rightarrow> int \<Rightarrow> byte list res" where
  "page_bytes mem addr =
     (if 0 \<le> addr \<and> addr + PageSize \<le> int (length mem) then Inr (take (nat PageSize) (drop (nat addr) mem)) else Inl BadAccess)"

definition writeSwapMemory :: "Swap \<Rightarrow> int \<Rightarrow> int \<Rightarrow> Machine \<Rightarrow> (bool \<times> Swap) res" where
  "writeSwapMemory s ppage vpage m =
     bindR (BitMap_Find (swapBitMap s)) (\<lambda>(availablePosition, bm).
     let s = s\<lparr>swapBitMap := bm\<rparr> in
     if availablePosition = -1 then Inr (False, s)
     else
       bindR (updR (virtualPages s) availablePosition vpage) (\<lambda>vs.
       bindR (page_bytes (mainMemory m) (ppage * PageSize)) (\<lambda>bs.
       bindR (Stub_WriteAt (swapSegment s) bs (availablePosition * PageSize)) (\<lambda>f.
       Inr (True, s\<lparr>virtualPages := vs, swapSegment := f\<rparr>)))))"

subsection \<open>Pages of an address space\<close>

definition pt_get :: "AddrSpace \<Rightarrow> Machine \<Rightarrow> int \<Rightarrow> TranslationEntry res" where
  "pt_get sp m i = (case as_pageTable sp of None \<Rightarrow> Inl BadAccess | Some t \<Rightarrow>
     (case tables m t of None \<Rightarrow> Inl BadAccess | Some pt \<Rightarrow> ixR pt i))"

definition pt_upd :: "AddrSpace \<Rightarrow> int \<Rightarrow> (TranslationEntry \<Rightarrow> TranslationEntry) \<Rightarrow> Machine \<Rightarrow> Machine res" where
  "pt_upd sp i f m = (case as_pageTable sp of None \<Rightarrow> Inl BadAccess | Some t \<Rightarrow>
     (case tables m t of None \<Rightarrow> Inl BadAccess | Some pt \<Rightarrow>
      bindR (ixR pt i) (\<lambda>e. mapR (\<lambda>pt. m\<lparr>tables := (tables m)(t \<mapsto> pt)\<rparr>) (updR pt i (f e)))))"

definition tlb_get :: "Machine \<Rightarrow> int \<Rightarrow> TranslationEntry res" where
  "tlb_get m i = (case tlb m of None \<Rightarrow> Inl BadAccess | Some es \<Rightarrow> ixR es i)"

definition tlb_upd :: "int \<Rightarrow> (TranslationEntry \<Rightarrow> TranslationEntry) \<Rightarrow> Machine \<Rightarrow> Machine res" where
  "tlb_upd i f m = (case tlb m of None \<Rightarrow> Inl BadAccess | Some es \<Rightarrow>
     bindR (ixR es i) (\<lambda>e. mapR (\<lambda>es. m\<lparr>tlb := Some es\<rparr>) (updR es i (f e))))"

text \<open>An entry that maps nothing, and the two constructors.\<close>

definition empty_entry :: TranslationEntry where
  "empty_entry = \<lparr>virtualPage = -1, physicalPage = -1, valid = False, readOnly = False, use = False, dirty = False\<rparr>"

definition AddrSpace_ExeVM :: "SpaceFresh \<Rightarrow> byte list \<Rightarrow> UState \<Rightarrow> (AddrSpace \<times> UState) res" where
  "AddrSpace_ExeVM g executable u =
     bindR (NachosOpenFilesTable_new (sf_ints g) (sf_words g)) (\<lambda>oft.
     bindR (read_header (sf_noff g) executable) (\<lambda>noffH.
     let sz = sint (word_of_int (seg_size (noff_code noffH) + seg_size (initData noffH)
                + seg_size (uninitData noffH) + UserStackSize) :: u32);
         numPages = (word_of_int (divRoundUp sz PageSize) :: u32);
         space = \<lparr>as_pageTable = Some (sf_table g), as_numPages = numPages, as_openFilesTable = sf_oft g, ownExecutable = executable\<rparr>
     in Inr (space, u\<lparr>oftables := (oftables u)(sf_oft g \<mapsto> oft),
          us_m := (us_m u)\<lparr>tables := (tables (us_m u))(sf_table g \<mapsto> replicate (unat numPages) empty_entry)\<rparr>\<rparr>)))"

definition AddrSpace_ForkVM :: "SpaceFresh \<Rightarrow> AddrSpace \<Rightarrow> UState \<Rightarrow> (AddrSpace \<times> UState) res" where
  "AddrSpace_ForkVM g other u =
     (let sharedMemory = as_numPages other - word_of_int (divRoundUp UserStackSize PageSize) in
      case as_pageTable other of None \<Rightarrow> Inl BadAccess | Some t \<Rightarrow>
     (case tables (us_m u) t of None \<Rightarrow> Inl BadAccess | Some opt \<Rightarrow>
      if length opt < unat sharedMemory \<or> as_numPages other < sharedMemory then Inl BadAccess
      else
        let pt = map (\<lambda>e. \<lparr>virtualPage = virtualPage e, physicalPage = physicalPage e, valid = True,
                       readOnly = False, use = False, dirty = False\<rparr>) (take (unat sharedMemory) opt)
                 @ replicate (unat (as_numPages other) - unat sharedMemory) empty_entry
        in Inr (other\<lparr>as_pageTable := Some (sf_table g)\<rparr>,
                u\<lparr>us_m := (us_m u)\<lparr>tables := (tables (us_m u))(sf_table g \<mapsto> pt)\<rparr>\<rparr>)))"

definition isLoadedInPT :: "AddrSpace \<Rightarrow> Machine \<Rightarrow> int \<Rightarrow> bool res" where
  "isLoadedInPT sp m addr = mapR (\<lambda>e. virtualPage e \<noteq> -1) (pt_get sp m (addr sdiv PageSize))"

definition getVirtualPage :: "AddrSpace \<Rightarrow> Machine \<Rightarrow> int \<Rightarrow> int res" where
  "getVirtualPage sp m addr =
     (let page = addr sdiv PageSize in
      mapR (\<lambda>e. if virtualPage e \<noteq> -1 then virtualPage e else page) (pt_get sp m page))"

definition loadToTLB :: "AddrSpace \<Rightarrow> int \<Rightarrow> int \<Rightarrow> Machine \<Rightarrow> IPT \<Rightarrow> (Machine \<times> IPT) res" where
  "loadToTLB sp tableEntryToReplace vaddr m t =
     bindR (tlb_get m tableEntryToReplace) (\<lambda>e.
     bindR (if valid e then pt_upd sp (virtualPage e) (\<lambda>p. p\<lparr>use := use e, dirty := use e\<rparr>) m else Inr m) (\<lambda>m.
     bindR (pt_upd sp vaddr (\<lambda>p. p\<lparr>valid := True\<rparr>) m) (\<lambda>m.
     bindR (pt_get sp m vaddr) (\<lambda>p.
     bindR (tlb_upd tableEntryToReplace (\<lambda>e. e\<lparr>virtualPage := virtualPage p, physicalPage := physicalPage p, valid := valid p\<rparr>) m) (\<lambda>m.
     mapR (Pair m) (IPT_updatePage t (physicalPage p) True))))))"

text \<open>\<open>AddrSpace::swap\<close>: the entry of the page is reset, TLB entries for it too, and the frame is written.\<close>

definition AddrSpace_swap :: "AddrSpace \<Rightarrow> int \<Rightarrow> int \<Rightarrow> Machine \<Rightarrow> Swap \<Rightarrow> (bool \<times> Machine \<times> Swap) res" where
  "AddrSpace_swap sp vpage ppage m s =
     bindR (pt_upd sp vpage (\<lambda>p. p\<lparr>physicalPage := -1, virtualPage := -1, valid := False\<rparr>) m) (\<lambda>m.
     case tlb m of None \<Rightarrow> Inl BadAccess | Some es \<Rightarrow>
     let m = m\<lparr>tlb := Some (map (\<lambda>e. if virtualPage e = vpage then e\<lparr>virtualPage := -1, physicalPage := -1, valid := False\<rparr> else e)
                      (take (nat TLBSize) es) @ drop (nat TLBSize) es)\<rparr>
     in mapR (\<lambda>(b, s). (b, m, s)) (writeSwapMemory s ppage vpage m))"

text \<open>\<open>getPhysicalPage\<close>. The frame to replace is passed to \<open>swap\<close> as its virtual page and conversely.\<close>

definition getPhysicalPage :: "AddrSpace \<Rightarrow> int \<Rightarrow> Machine \<Rightarrow> IPT \<Rightarrow> Swap \<Rightarrow> (int \<times> Machine \<times> IPT \<times> Swap) res" where
  "getPhysicalPage sp vpage m t s =
     bindR (BitMap_Find (physicalPagesBitmap t)) (\<lambda>(availablePage, bm).
     let t = t\<lparr>physicalPagesBitmap := bm\<rparr> in
     if availablePage = -1 then
       bindR (getEntryToReplace t) (\<lambda>(positionToSwap, t).
       bindR (ixR (virtualPageTable t) positionToSwap) (\<lambda>v.
       bindR (AddrSpace_swap sp positionToSwap v m s) (\<lambda>(b, m, s).
       if \<not> b then Inr (-1, m, t, s)
       else mapR (\<lambda>vs. (positionToSwap, m, t\<lparr>virtualPageTable := vs\<rparr>, s)) (updR (virtualPageTable t) positionToSwap vpage))))
     else mapR (\<lambda>vs. (availablePage, m, t\<lparr>virtualPageTable := vs, pageCounter := pageCounter t + 1\<rparr>, s))
            (updR (virtualPageTable t) availablePage vpage))"

definition loadFromSwap :: "AddrSpace \<Rightarrow> int \<Rightarrow> Machine \<Rightarrow> IPT \<Rightarrow> Swap \<Rightarrow> (Machine \<times> IPT \<times> Swap) res" where
  "loadFromSwap sp vpage m t s =
     bindR (getPhysicalPage sp vpage m t s) (\<lambda>(ppage, m, t, s).
     bindR (readSwapMemory s ppage vpage m) (\<lambda>(ok, s, m).
     if \<not> ok then Inr (m, t, s)
     else mapR (\<lambda>m. (m, t, s)) (pt_upd sp vpage
            (\<lambda>p. p\<lparr>physicalPage := ppage, virtualPage := vpage, valid := True, dirty := False\<rparr>) m)))"

text \<open>\<open>loadFromDisk\<close>; \<open>junk\<close> is what the uninitialised header on the stack holds.\<close>

definition loadFromDisk :: "byte list \<Rightarrow> AddrSpace \<Rightarrow> int \<Rightarrow> Machine \<Rightarrow> IPT \<Rightarrow> Swap \<Rightarrow> (int \<times> Machine \<times> IPT \<times> Swap) res" where
  "loadFromDisk junk sp addr m t s =
     (let vpage = addr sdiv PageSize in
      bindR (getPhysicalPage sp vpage m t s) (\<lambda>(ppage, m, t, s).
      bindR (pt_upd sp vpage (\<lambda>p. p\<lparr>physicalPage := ppage, virtualPage := vpage\<rparr>) m) (\<lambda>m.
      bindR (read_header junk (ownExecutable sp)) (\<lambda>noffH.
      let destination = ppage * PageSize;
          positionOnFile = inFileAddr (noff_code noffH) + vpage * PageSize;
          sizeExecutable = seg_size (noff_code noffH) + seg_size (initData noffH) + seg_size (uninitData noffH);
          sz = (if vpage = sint (as_numPages sp - 1) \<and> sizeExecutable smod PageSize \<noteq> 0
                then sizeExecutable smod PageSize else PageSize)
      in if addr \<ge> seg_size (initData noffH) + seg_size (uninitData noffH) + inFileAddr (noff_code noffH) + seg_size (noff_code noffH)
         then Inr (vpage, m, t, s)
         else
           bindR (Stub_ReadAt (ownExecutable sp) sz positionOnFile) (\<lambda>bs.
           mapR (\<lambda>mem. (vpage, m\<lparr>mainMemory := mem\<rparr>, t, s)) (poke (mainMemory m) destination bs))))))"

subsection \<open>The page fault handler\<close>

record VKer =
  vk_ipt :: IPT
  vk_swap :: Swap
  vk_space :: AddrSpace
  vk_faults :: int
  vk_mode :: MachineStatus

text \<open>The first invalid entry of the TLB, or the one the replacement algorithm gives up.\<close>

fun free_tlb :: "TranslationEntry list \<Rightarrow> int \<Rightarrow> int option" where
  "free_tlb [] i = None"
| "free_tlb (e # es) i = (if \<not> valid e then Some i else free_tlb es (i + 1))"

definition tlb_slot :: "Machine \<Rightarrow> IPT \<Rightarrow> (int \<times> IPT) res" where
  "tlb_slot m t = (case tlb m of None \<Rightarrow> Inl BadAccess | Some es \<Rightarrow>
     (case free_tlb (take (nat TLBSize) es) 0 of Some i \<Rightarrow> Inr (i, t) | None \<Rightarrow> getTLBEntryToReplace t m))"

definition NachOS_PageFaultException :: "byte list \<Rightarrow> Machine \<Rightarrow> VKer \<Rightarrow> (Machine \<times> VKer) res" where
  "NachOS_PageFaultException junk m k =
     (let k = k\<lparr>vk_faults := vk_faults k + 1\<rparr>; space = vk_space k in
      bindR (Machine_ReadRegister m (int BadVAddrReg)) (\<lambda>r.
      let badVAddr = sint r in
      bindR (isLoadedInPT space m badVAddr) (\<lambda>isInAddrSpacePT.
      bindR (getVirtualPage space m badVAddr) (\<lambda>vaddr.
      bindR (if isInAddrSpacePT then Inr (vaddr, m, vk_ipt k, vk_swap k)
             else if isLoadedInSwap (vk_swap k) vaddr then
               mapR (\<lambda>(m, t, s). (vaddr, m, t, s)) (loadFromSwap space vaddr m (vk_ipt k) (vk_swap k))
             else loadFromDisk junk space badVAddr m (vk_ipt k) (vk_swap k)) (\<lambda>(vaddr, m, t, s).
      bindR (tlb_slot m t) (\<lambda>(tableEntryToReplace, t).
      bindR (loadToTLB space tableEntryToReplace vaddr m t) (\<lambda>(m, t).
      Inr (m, k\<lparr>vk_ipt := t, vk_swap := s\<rparr>))))))))"

text \<open>The kernel of this build, with the handler of the other exceptions as a parameter.\<close>

definition VKern :: "byte list \<Rightarrow> (ExceptionType \<Rightarrow> Machine \<Rightarrow> VKer \<Rightarrow> (Machine \<times> VKer) res) \<Rightarrow> VKer Kernel" where
  "VKern junk others = \<lparr>k_VM = True,
     k_updatePage = (\<lambda>p k. mapR (\<lambda>t. k\<lparr>vk_ipt := t\<rparr>) (IPT_updatePage (vk_ipt k) p False)),
     k_setStatus = (\<lambda>st k. k\<lparr>vk_mode := st\<rparr>),
     k_ExceptionHandler = (\<lambda>e m k. if e = PageFaultException then NachOS_PageFaultException junk m k else others e m k)\<rparr>"

subsection \<open>Second chance\<close>

text \<open>
  The clock algorithm, without a loop: the first page that was not used since its last turn is
  the victim, the pages before it lose their mark and move behind; when all pages were used, the
  first one is the victim.
\<close>

definition unmark :: "int \<times> bool \<Rightarrow> int \<times> bool" where
  "unmark x = (fst x, False)"

definition clock :: "(int \<times> bool) list \<Rightarrow> int \<times> (int \<times> bool) list" where
  "clock q = (case dropWhile snd q of
     x # rest \<Rightarrow> (fst x, rest @ map unmark (takeWhile snd q) @ [(fst x, True)])
   | [] \<Rightarrow> (fst (hd q), map unmark (tl q) @ [(fst (hd q), True)]))"

lemma second_chance_rotate:
  "\<forall>x \<in> set ts. snd x \<Longrightarrow> second_chance (ts @ r) = second_chance (r @ map unmark ts)"
proof (induction ts arbitrary: r)
  case (Cons x ts)
  then show ?case using Cons.IH[of "r @ [unmark x]"] by (cases x) (simp add: unmark_def)
qed simp

lemma second_chance_clock:
  assumes "q \<noteq> []"
  shows "second_chance q = Inr (clock q)"
proof -
  have rot: "second_chance q = second_chance (dropWhile snd q @ map unmark (takeWhile snd q))"
    using second_chance_rotate[of "takeWhile snd q" "dropWhile snd q"] by (auto dest: set_takeWhileD)
  show ?thesis
  proof (cases "dropWhile snd q")
    case Nil
    then have "takeWhile snd q = q" by (simp add: dropWhile_eq_Nil_conv takeWhile_eq_all_conv)
    moreover obtain x qs where "q = x # qs" using assms by (cases q) auto
    ultimately show ?thesis using rot Nil by (simp add: clock_def unmark_def)
  next
    case (Cons x rest)
    then have "\<not> snd x" using hd_dropWhile[of snd q] by simp
    then show ?thesis using rot Cons by (cases x) (simp add: clock_def)
  qed
qed

lemma clock_pages: "q \<noteq> [] \<Longrightarrow> mset (map fst (snd (clock q))) = mset (map fst q)"
proof -
  assume q: "q \<noteq> []"
  have u: "map fst (map unmark xs) = map fst xs" for xs by (simp add: unmark_def o_def)
  have d: "mset (map fst q) = mset (map fst (takeWhile snd q)) + mset (map fst (dropWhile snd q))"
    unfolding mset_append[symmetric] map_append[symmetric] takeWhile_dropWhile_id by (rule refl)
  show ?thesis
  proof (cases "dropWhile snd q")
    case Nil
    then show ?thesis using q u by (cases q) (simp_all add: clock_def del: map_map)
  next
    case (Cons x rest)
    then show ?thesis using d u by (simp add: clock_def del: map_map)
  qed
qed

subsection \<open>Properties\<close>

text \<open>C38: Replacement by second chance. On a nonempty queue the loop ends, in \<open>getEntryToReplace\<close> as well as in
  \<open>getTLBEntryToReplace\<close>, and chooses what the clock algorithm chooses: the first page whose mark
  is clear, or the first page of all when every mark is set; the pages passed over lose their
  marks and their order stays. The victim is marked and last in the queue, and no page is
  lost. On an empty queue the behaviour is undefined.\<close>

theorem second_chance_is_clock:
  assumes "replacementAlgorithm t = 1"
  shows "(second_chance_queue t \<noteq> [] \<longrightarrow> (let (p, q) = clock (second_chance_queue t) in
      getEntryToReplace t = Inr (p, t\<lparr>second_chance_queue := q\<rparr>)
      \<and> getTLBEntryToReplace t m = Inr (p, t\<lparr>second_chance_queue := q\<rparr>)
      \<and> last q = (p, True) \<and> mset (map fst q) = mset (map fst (second_chance_queue t))))
    \<and> (second_chance_queue t = [] \<longrightarrow> getEntryToReplace t = Inl BadAccess \<and> getTLBEntryToReplace t m = Inl BadAccess)"
proof -
  have l: "last (snd (clock q)) = (fst (clock q), True)" for q by (simp add: clock_def split: list.splits)
  obtain p q where c: "clock (second_chance_queue t) = (p, q)" by (cases "clock (second_chance_queue t)")
  show ?thesis using assms second_chance_clock[of "second_chance_queue t"] clock_pages[of "second_chance_queue t"]
      l[of "second_chance_queue t"] unfolding c
    by (auto simp: getEntryToReplace_def getTLBEntryToReplace_def)
qed

definition demo_ipt :: IPT where
  "demo_ipt = \<lparr>uses = replicate 64 0, virtualPageTable = replicate 64 (-1), fifo_queue = [], pageCounter = 0,
     second_chance_queue = [(4, True), (2, False), (7, True)],
     physicalPagesBitmap = \<lparr>numBits = 64, numWords = 2, bm_map = [0, 0]\<rparr>, replacementAlgorithm = 1, NumPhysPages_IPT = 64\<rparr>"

theorem second_chance_is_clock_witness:
  "getEntryToReplace demo_ipt = Inr (2, demo_ipt\<lparr>second_chance_queue := [(7, True), (4, False), (2, True)]\<rparr>)"
  using second_chance_is_clock[of demo_ipt] by (simp add: demo_ipt_def clock_def unmark_def)

lemma find_slot_upd: "n < length xs \<Longrightarrow> v \<notin> set xs \<Longrightarrow> find_slot (xs[n := v]) v i = Some (i + int n)"
  by (induction xs arbitrary: n i) (auto simp: nth_Cons' list_update_append split: nat.splits)

lemma find_slot_None: "find_slot xs v i = None \<longleftrightarrow> v \<notin> set xs"
  by (induction xs arbitrary: i) auto

text \<open>A well-formed swap file: every slot in use is inside of the file.\<close>

definition Swap_ok :: "Swap \<Rightarrow> bool" where
  "Swap_ok s \<longleftrightarrow> BitMap_ok (swapBitMap s) \<and> numBits (swapBitMap s) = 64 \<and> length (virtualPages s) = 64
     \<and> (\<forall>j \<in> BitMap_marked (swapBitMap s). 128 * (j + 1) \<le> int (length (swapSegment s)))"

lemma Swap_new_ok:
  assumes "length heap = 2"
  shows "\<exists>s. Swap_new heap = Inr s \<and> Swap_ok s \<and> BitMap_marked (swapBitMap s) = {} \<and> set (virtualPages s) = {-1}"
proof -
  have "divRoundUp 64 32 = 2" by (simp add: divRoundUp_nonneg)
  then obtain bm where "BitMap_new heap 64 = Inr bm" "BitMap_ok bm" "numBits bm = 64" "BitMap_marked bm = {}"
    using BitMap_new_ok[of 64 heap] assms by auto
  then show ?thesis by (simp add: Swap_new_def SWAP_PAGES_QUANTITY_def NumPhysPages_def Swap_ok_def)
qed

lemma Stub_WriteAt_frame:
  assumes "0 \<le> j" "length bs = 128"
  shows "\<exists>f'. Stub_WriteAt f bs (j * 128) = Inr f' \<and> frame f' j = bs \<and> 128 * (j + 1) \<le> int (length f') \<and> length f \<le> length f'
     \<and> (\<forall>i. 0 \<le> i \<and> i \<noteq> j \<and> 128 * (i + 1) \<le> int (length f) \<longrightarrow> frame f' i = frame f i)"
proof -
  let ?p = "nat (j * 128)"
  let ?g = "f @ replicate (?p + length bs - length f) 0"
  let ?f = "overwrite ?g ?p bs"
  have l: "?p + length bs \<le> length ?g" "length ?f = length ?g" by simp_all
  have "Stub_WriteAt f bs (j * 128) = Inr ?f" using assms by (simp add: Stub_WriteAt_def)
  moreover have "frame ?f j = bs" using take_drop_overwrite[OF l(1)] assms(2) by (simp add: frame_def mult.commute)
  moreover have "frame ?f i = frame f i" if i: "0 \<le> i" "i \<noteq> j" "128 * (i + 1) \<le> int (length f)" for i
  proof (rule nth_equalityI)
    show len: "length (frame ?f i) = length (frame f i)" using i l by (simp add: frame_def)
    fix n assume n: "n < length (frame ?f i)"
    have b: "nat (128 * i) + n < length f" "n < 128" using n i l by (auto simp: frame_def)
    have "\<not> (?p \<le> nat (128 * i) + n \<and> nat (128 * i) + n < ?p + length bs)" using assms i b by linarith
    then have "?f ! (nat (128 * i) + n) = f ! (nat (128 * i) + n)"
      using nth_overwrite[OF l(1), of "nat (128 * i) + n"] b by (auto simp: nth_append)
    then show "frame ?f i ! n = frame f i ! n" using b l by (simp add: frame_def)
  qed
  ultimately show ?thesis using assms by (intro exI[of _ ?f]) auto
qed

lemma writeSwap_ok:
  assumes "Swap_ok s" "BitMap_marked (swapBitMap s) \<noteq> {0..<64}" "length (mainMemory m) = 4096" "0 \<le> p" "p < 32" "v \<notin> set (virtualPages s)"
  shows "\<exists>j s1. writeSwapMemory s p v m = Inr (True, s1) \<and> Swap_ok s1 \<and> 0 \<le> j \<and> j < 64 \<and> j \<notin> BitMap_marked (swapBitMap s)
     \<and> BitMap_marked (swapBitMap s1) = insert j (BitMap_marked (swapBitMap s))
     \<and> virtualPages s1 = (virtualPages s)[nat j := v] \<and> find_slot (virtualPages s1) v 0 = Some j \<and> frame (swapSegment s1) j = frame (mainMemory m) p
     \<and> (\<forall>i \<in> BitMap_marked (swapBitMap s). frame (swapSegment s1) i = frame (swapSegment s) i)"
proof -
  have ok: "BitMap_ok (swapBitMap s)" "numBits (swapBitMap s) = 64" "length (virtualPages s) = 64"
      "\<forall>j \<in> BitMap_marked (swapBitMap s). 128 * (j + 1) \<le> int (length (swapSegment s))"
    using assms(1) by (simp_all add: Swap_ok_def)
  from bitmap_alloc.find_free[OF ok(1)] assms(2) ok(2) obtain j bm where
    j: "BitMap_Find (swapBitMap s) = Inr (j, bm)" "0 \<le> j" "j < 64" "j \<notin> BitMap_marked (swapBitMap s)"
      "BitMap_ok bm" "numBits bm = 64" "BitMap_marked bm = insert j (BitMap_marked (swapBitMap s))" by auto
  have pg: "page_bytes (mainMemory m) (p * PageSize) = Inr (frame (mainMemory m) p)" "length (frame (mainMemory m) p) = 128"
    using assms(3-5) by (simp_all add: page_bytes_def frame_def mem_defs mult.commute)
  from Stub_WriteAt_frame[OF j(2) pg(2), of "swapSegment s"] obtain f where
    f: "Stub_WriteAt (swapSegment s) (frame (mainMemory m) p) (j * 128) = Inr f" "frame f j = frame (mainMemory m) p"
      "128 * (j + 1) \<le> int (length f)" "length (swapSegment s) \<le> length f"
      "\<forall>i. 0 \<le> i \<and> i \<noteq> j \<and> 128 * (i + 1) \<le> int (length (swapSegment s)) \<longrightarrow> frame f i = frame (swapSegment s) i" by blast
  let ?s = "s\<lparr>swapBitMap := bm, virtualPages := (virtualPages s)[nat j := v], swapSegment := f\<rparr>"
  have "writeSwapMemory s p v m = Inr (True, ?s)"
    using j pg f(1) ok(3) by (simp add: writeSwapMemory_def updR_def mem_defs)
  moreover have "Swap_ok ?s" using ok j f(3,4) by (fastforce simp: Swap_ok_def)
  moreover have "find_slot ((virtualPages s)[nat j := v]) v 0 = Some j" using find_slot_upd[of "nat j" "virtualPages s" v 0] j ok(3) assms(6) by simp
  moreover have "frame f i = frame (swapSegment s) i" if "i \<in> BitMap_marked (swapBitMap s)" for i
    using that f(5) ok(4) j(4) BitMap_marked_range[of "swapBitMap s"] by force
  ultimately show ?thesis using j f(2) by (intro exI[of _ j] exI[of _ ?s]) simp
qed

lemma readSwap_ok:
  assumes "Swap_ok s" "find_slot (virtualPages s) v 0 = Some j" "j \<in> BitMap_marked (swapBitMap s)" "length (mainMemory m) = 4096" "0 \<le> p" "p < 32"
  shows "\<exists>s2 m2. readSwapMemory s p v m = Inr (True, s2, m2) \<and> Swap_ok s2 \<and> BitMap_marked (swapBitMap s2) = BitMap_marked (swapBitMap s) - {j}
     \<and> virtualPages s2 = (virtualPages s)[nat j := 0] \<and> swapSegment s2 = swapSegment s \<and> frame (mainMemory m2) p = frame (swapSegment s) j
     \<and> (\<forall>y. 0 \<le> y \<and> y < 32 \<and> y \<noteq> p \<longrightarrow> frame (mainMemory m2) y = frame (mainMemory m) y) \<and> tables m2 = tables m \<and> tlb m2 = tlb m"
proof -
  have ok: "BitMap_ok (swapBitMap s)" "numBits (swapBitMap s) = 64" "length (virtualPages s) = 64"
      "128 * (j + 1) \<le> int (length (swapSegment s))" and j: "0 \<le> j" "j < 64"
    using assms(1,3) BitMap_marked_range[of "swapBitMap s"] by (auto simp: Swap_ok_def)
  from bitmap_alloc.clear_used[OF ok(1) assms(3)] ok(2) obtain bm where
    bm: "BitMap_Clear (swapBitMap s) j = Inr bm" "BitMap_ok bm" "numBits bm = 64" "BitMap_marked bm = BitMap_marked (swapBitMap s) - {j}" by auto
  have rd: "Stub_ReadAt (swapSegment s) PageSize (j * PageSize) = Inr (frame (swapSegment s) j)" "length (frame (swapSegment s) j) = 128"
    using j ok(4) by (simp_all add: Stub_ReadAt_def frame_def mem_defs mult.commute)
  from frame_poke[OF assms(4-6), of "frame (swapSegment s) j"] rd(2) obtain mem where
    mem: "poke (mainMemory m) (128 * p) (frame (swapSegment s) j) = Inr mem"
      "\<forall>y. 0 \<le> y \<and> y < 32 \<longrightarrow> frame mem y = (if y = p then overwrite (frame (mainMemory m) p) 0 (frame (swapSegment s) j) else frame (mainMemory m) y)"
    by auto
  have "length (frame (mainMemory m) p) = 128" using assms(4-6) by (simp add: frame_def)
  then have "frame mem p = frame (swapSegment s) j" using mem(2) assms(5,6) rd(2) by (simp add: overwrite_def)
  then show ?thesis using assms(1,2) ok j bm rd mem
    by (auto simp: readSwapMemory_def updR_def mem_defs mult.commute Swap_ok_def)
qed

text \<open>Slots that are free are labelled as the constructor or \<open>readSwapMemory\<close> left them.\<close>

definition free_labels :: "Swap \<Rightarrow> bool" where
  "free_labels s \<longleftrightarrow> (\<forall>i. 0 \<le> i \<and> i < 64 \<and> i \<notin> BitMap_marked (swapBitMap s) \<longrightarrow> virtualPages s ! nat i \<in> {0, -1})"

text \<open>The page is found in the same slot as before, if at all, the slot is as free as before, and it has the same bytes.\<close>

definition page_kept :: "Swap \<Rightarrow> Swap \<Rightarrow> int \<Rightarrow> bool" where
  "page_kept s s' w \<longleftrightarrow> find_slot (virtualPages s') w 0 = find_slot (virtualPages s) w 0
     \<and> (\<forall>i. find_slot (virtualPages s) w 0 = Some i \<longrightarrow> frame (swapSegment s') i = frame (swapSegment s) i
          \<and> (i \<in> BitMap_marked (swapBitMap s') \<longleftrightarrow> i \<in> BitMap_marked (swapBitMap s)))"

lemma find_slot_other: "n < length xs \<Longrightarrow> xs ! n \<noteq> w \<Longrightarrow> x \<noteq> w \<Longrightarrow> find_slot (xs[n := x]) w i = find_slot xs w i"
proof (induction xs arbitrary: n i)
  case (Cons y xs)
  then show ?case by (cases n) auto
qed simp

lemma find_slot_Some: "find_slot xs w i = Some j \<Longrightarrow> i \<le> j \<and> j < i + int (length xs) \<and> xs ! nat (j - i) = w"
proof (induction xs arbitrary: i)
  case (Cons y xs)
  show ?case
  proof (cases "y = w")
    case False
    then have "i + 1 \<le> j \<and> j < i + 1 + int (length xs) \<and> xs ! nat (j - (i + 1)) = w" using Cons by simp
    moreover then have "nat (j - i) = Suc (nat (j - (i + 1)))" by linarith
    ultimately show ?thesis by auto
  qed (use Cons.prems in simp)
qed simp

lemma page_keptI:
  assumes "Swap_ok s" "free_labels s" "0 \<le> j" "j < 64" "j \<notin> BitMap_marked (swapBitMap s)" "virtualPages s' = (virtualPages s)[nat j := x]"
    "BitMap_marked (swapBitMap s') - {j} = BitMap_marked (swapBitMap s)"
    "\<forall>i \<in> BitMap_marked (swapBitMap s). frame (swapSegment s') i = frame (swapSegment s) i" "w \<notin> {x, 0, -1}"
  shows "page_kept s s' w"
proof -
  have len: "length (virtualPages s) = 64" using assms(1) by (simp add: Swap_ok_def)
  have "virtualPages s ! nat j \<in> {0, -1}" using assms(2-5) by (auto simp: free_labels_def)
  then have f: "find_slot (virtualPages s') w 0 = find_slot (virtualPages s) w 0"
    unfolding assms(6) using assms(3,4,9) len by (intro find_slot_other) auto
  have "i \<in> BitMap_marked (swapBitMap s)" if "find_slot (virtualPages s) w 0 = Some i" for i
    using find_slot_Some[OF that] assms(2,9) len by (auto simp: free_labels_def)
  then show ?thesis using f assms(5,7,8) by (auto simp: page_kept_def)
qed

text \<open>C37: A page that is swapped out comes back. When a slot is free and the page is not in the swap file yet,
  \<open>writeSwapMemory\<close> stores the frame, and \<open>isLoadedInSwap\<close> finds it. Reading it back, into any
  frame and whatever happened to memory in between, restores its bytes there, changes no other frame,
  and frees the slot. Through both operations every other page except page 0 stays: it is found in the file in the same
  slot as before, if at all, and with the same bytes. Page 0 is the exception, because the freed slot is
  labelled 0 instead of \<open>-1\<close>: from then on page 0 counts as swapped out.\<close>

theorem swap_roundtrip:
  assumes "Swap_ok s" "free_labels s" "BitMap_marked (swapBitMap s) \<noteq> {0..<64}" "v \<notin> set (virtualPages s)"
    "length (mainMemory m) = 4096" "0 \<le> p" "p < 32" "length (mainMemory m') = 4096" "0 \<le> p'" "p' < 32"
  shows "\<exists>s1 s2 m2. writeSwapMemory s p v m = Inr (True, s1) \<and> Swap_ok s1 \<and> isLoadedInSwap s1 v
     \<and> readSwapMemory s1 p' v m' = Inr (True, s2, m2) \<and> Swap_ok s2 \<and> free_labels s2 \<and> frame (mainMemory m2) p' = frame (mainMemory m) p
     \<and> (\<forall>y. 0 \<le> y \<and> y < 32 \<and> y \<noteq> p' \<longrightarrow> frame (mainMemory m2) y = frame (mainMemory m') y)
     \<and> BitMap_marked (swapBitMap s2) = BitMap_marked (swapBitMap s)
     \<and> (\<forall>w. w \<notin> {v, 0, -1} \<longrightarrow> page_kept s s1 w \<and> page_kept s s2 w)
     \<and> isLoadedInSwap s2 0 \<and> (v \<noteq> 0 \<longrightarrow> \<not> isLoadedInSwap s2 v)"
proof -
  from writeSwap_ok[OF assms(1,3,5-7,4)] obtain j s1 where
    w: "writeSwapMemory s p v m = Inr (True, s1)" "Swap_ok s1" "0 \<le> j" "j < 64" "j \<notin> BitMap_marked (swapBitMap s)"
      "BitMap_marked (swapBitMap s1) = insert j (BitMap_marked (swapBitMap s))" "virtualPages s1 = (virtualPages s)[nat j := v]"
      "find_slot (virtualPages s1) v 0 = Some j" "frame (swapSegment s1) j = frame (mainMemory m) p"
      "\<forall>i \<in> BitMap_marked (swapBitMap s). frame (swapSegment s1) i = frame (swapSegment s) i" by blast
  have "j \<in> BitMap_marked (swapBitMap s1)" using w(6) by simp
  from readSwap_ok[OF w(2,8) this assms(8-10)] obtain s2 m2 where
    r: "readSwapMemory s1 p' v m' = Inr (True, s2, m2)" "Swap_ok s2" "BitMap_marked (swapBitMap s2) = BitMap_marked (swapBitMap s1) - {j}"
      "virtualPages s2 = (virtualPages s1)[nat j := 0]" "swapSegment s2 = swapSegment s1" "frame (mainMemory m2) p' = frame (swapSegment s1) j"
      "\<forall>y. 0 \<le> y \<and> y < 32 \<and> y \<noteq> p' \<longrightarrow> frame (mainMemory m2) y = frame (mainMemory m') y" by blast
  have len: "length (virtualPages s) = 64" using assms(1) by (simp add: Swap_ok_def)
  have v2: "virtualPages s2 = (virtualPages s)[nat j := 0]" using r(4) w(7) by simp
  have m2: "BitMap_marked (swapBitMap s2) = BitMap_marked (swapBitMap s)" using r(3) w(5,6) by auto
  have "0 \<in> set (virtualPages s2)" using v2 w(3,4) len by (simp add: set_update_memI)
  moreover have "v \<notin> set (virtualPages s2)" if "v \<noteq> 0" using that v2 assms(4) by (metis insertE set_update_subset_insert subset_iff)
  moreover have "free_labels s2" using assms(2) w(3,4) len unfolding free_labels_def m2 v2
    by (simp add: nth_list_update)
  moreover have "page_kept s s1 x" "page_kept s s2 x" if "x \<notin> {v, 0, -1}" for x
    using page_keptI[OF assms(1,2) w(3-5) w(7) _ w(10)] page_keptI[OF assms(1,2) w(3-5) v2] m2 w(5,6,10) r(5) that by auto
  moreover have "frame (mainMemory m2) p' = frame (mainMemory m) p" using r(6) w(9) by simp
  ultimately show ?thesis using w(1,2,8) r(1,2,7) m2 find_slot_None[of "virtualPages s2" 0 0] find_slot_None[of "virtualPages s2" v 0]
    unfolding isLoadedInSwap_def by (intro exI[of _ s1] exI[of _ s2] exI[of _ m2]) simp
qed

definition demo_mem :: "byte \<Rightarrow> Machine" where
  "demo_mem b = (Machine_new True (replicate 4 empty_entry) False)\<lparr>mainMemory := replicate 4096 b\<rparr>"

theorem swap_roundtrip_witness:
  "\<exists>s s1 s2 m2. Swap_new [7, 7] = Inr s \<and> writeSwapMemory s 5 9 (demo_mem 42) = Inr (True, s1) \<and> readSwapMemory s1 3 9 (demo_mem 0) = Inr (True, s2, m2)
     \<and> frame (mainMemory m2) 3 = replicate 128 42 \<and> frame (mainMemory m2) 5 = replicate 128 0"
proof -
  obtain s where s: "Swap_new [7, 7] = Inr s" "Swap_ok s" "BitMap_marked (swapBitMap s) = {}" "set (virtualPages s) = {-1}"
    using Swap_new_ok[of "[7, 7]"] by auto
  have l: "length (mainMemory (demo_mem b)) = 4096" "0 \<le> y \<Longrightarrow> y < 32 \<Longrightarrow> frame (mainMemory (demo_mem b)) y = replicate 128 b" for b y
    by (auto simp: demo_mem_def frame_def nat_mult_distrib)
  have "length (virtualPages s) = 64" using s(2) by (simp add: Swap_ok_def)
  then have f: "free_labels s" unfolding free_labels_def using s(4) by (metis insertCI nth_mem singletonD nat_less_iff of_nat_numeral)
  from swap_roundtrip[OF s(2) f _ _ l(1) _ _ l(1), of 9 5 3 42 0] s(3,4) l(2) show ?thesis
    by - (rule exI[of _ s], auto simp: s(1))
qed

subsection \<open>Demand paging\<close>

lemma trap_state:
  assumes "cpu_ok m"
  shows "\<exists>r. Machine_DelayedLoad 0 0 (set_reg BadVAddrReg v m) = Inr (m\<lparr>registers := r\<rparr>) \<and> length r = 40 \<and> r ! 39 = v"
proof -
  have len: "length (registers m) = 40" and l: "uint (registers m ! 37) < 32"
    using assms by (auto simp: cpu_ok_def cpu_mid_def Machine_ok_def reg_def reg_defs)
  have s: "sint (registers m ! 37) = uint (registers m ! 37)" using l by (simp add: sint_small)
  have "nat (uint (registers m ! 37)) < 32" using l by linarith
  then show ?thesis using len l s
    by (intro exI[of _ "(registers m)[39 := v, unat (registers m ! 37) := registers m ! 38, 37 := 0, 38 := 0, 0 := 0]"])
      (simp add: Machine_DelayedLoad_def set_reg_def reg_def reg_defs updR_def)
qed

lemma tlb_find_insert:
  "tlb_find es v j = None \<Longrightarrow> i < length es \<Longrightarrow> valid e \<Longrightarrow> virtualPage e = v \<Longrightarrow> tlb_find (es[i := e]) v j = Some (i + j)"
  by (induction es arbitrary: i j) (auto simp: nth_Cons' split: if_splits nat.splits)

lemma free_tlb_Some: "free_tlb es j = Some i \<Longrightarrow> j \<le> i \<and> i < j + int (length es) \<and> \<not> valid (es ! nat (i - j))"
proof (induction es arbitrary: j)
  case (Cons e es)
  show ?case
  proof (cases "valid e")
    case True
    then have "j + 1 \<le> i \<and> i < j + 1 + int (length es) \<and> \<not> valid (es ! nat (i - (j + 1)))" using Cons by simp
    moreover then have "nat (i - j) = Suc (nat (i - (j + 1)))" by linarith
    ultimately show ?thesis by auto
  qed (use Cons in auto)
qed simp

text \<open>The first steps of the handler when there is a free frame: it is taken for the page.\<close>

lemma getPhysicalPage_free:
  assumes "BitMap_ok (physicalPagesBitmap t)" "numBits (physicalPagesBitmap t) = 64" "length (virtualPageTable t) = 64"
    "\<not> {0..<32} \<subseteq> BitMap_marked (physicalPagesBitmap t)"
  shows "\<exists>f bm. 0 \<le> f \<and> f < 32 \<and> f \<notin> BitMap_marked (physicalPagesBitmap t) \<and> BitMap_marked bm = insert f (BitMap_marked (physicalPagesBitmap t))
     \<and> getPhysicalPage sp v m t s = Inr (f, m, t\<lparr>physicalPagesBitmap := bm, virtualPageTable := (virtualPageTable t)[nat f := v], pageCounter := pageCounter t + 1\<rparr>, s)"
proof -
  have "BitMap_marked (physicalPagesBitmap t) \<noteq> {0..<64}" using assms(4) by auto
  with bitmap_alloc.find_free[OF assms(1)] assms(2) obtain f bm where
    f: "BitMap_Find (physicalPagesBitmap t) = Inr (f, bm)" "0 \<le> f" "f < 64" "f \<notin> BitMap_marked (physicalPagesBitmap t)"
      "{0..<f} \<subseteq> BitMap_marked (physicalPagesBitmap t)" "BitMap_marked bm = insert f (BitMap_marked (physicalPagesBitmap t))" by auto
  have "f < 32" using f(5) assms(4) by (meson atLeastLessThan_iff dual_order.trans linorder_not_less subset_iff)
  then show ?thesis using f assms(3) by (auto simp: getPhysicalPage_def updR_def)
qed

text \<open>A fault on a page that is neither loaded nor swapped out and belongs to the program.\<close>

definition cold_page :: "byte list \<Rightarrow> NoffHeader \<Rightarrow> u32 \<Rightarrow> nat \<Rightarrow> Machine \<Rightarrow> VKer \<Rightarrow> bool" where
  "cold_page junk h addr i m k \<longleftrightarrow>
     (let sp = vk_space k; t = vk_ipt k; vp = uint addr div 128 in
      uint addr < 2147483648
      \<and> (\<exists>a pt. as_pageTable sp = Some a \<and> tables m a = Some pt \<and> vp + 1 < int (length pt) \<and> length pt = unat (as_numPages sp)
            \<and> length pt \<le> 33554432 \<and> virtualPage (pt ! nat vp) = -1)
      \<and> vp \<notin> set (virtualPages (vk_swap k))
      \<and> BitMap_ok (physicalPagesBitmap t) \<and> numBits (physicalPagesBitmap t) = 64 \<and> length (virtualPageTable t) = 64
      \<and> \<not> {0..<32} \<subseteq> BitMap_marked (physicalPagesBitmap t) \<and> replacementAlgorithm t = 1
      \<and> read_header junk (ownExecutable sp) = Inr h \<and> 0 \<le> inFileAddr (noff_code h)
      \<and> uint addr < seg_size (noff_code h) + seg_size (initData h) + seg_size (uninitData h) + inFileAddr (noff_code h)
      \<and> (\<exists>es. tlb m = Some es \<and> length es = 4 \<and> tlb_find es vp 0 = None \<and> free_tlb es 0 = Some (int i) \<and> \<not> readOnly (es ! i)))"

lemma PageFault_loads:
  assumes "cold_page junk h addr i m k" "length (mainMemory m) = 4096" "length (registers m) = 40" "registers m ! 39 = addr"
  shows "\<exists>f e mem m' k'. 0 \<le> f \<and> f < 32 \<and> f \<notin> BitMap_marked (physicalPagesBitmap (vk_ipt k))
     \<and> NachOS_PageFaultException junk m k = Inr (m', k')
     \<and> tlb m' = Some ((the (tlb m))[i := e]) \<and> virtualPage e = uint addr div 128 \<and> physicalPage e = f \<and> valid e \<and> \<not> readOnly e
     \<and> mainMemory m' = mem \<and> length mem = 4096 \<and> pageTable m' = pageTable m
     \<and> frame mem f = overwrite (frame (mainMemory m) f) 0 (take 128 (drop (nat (inFileAddr (noff_code h) + 128 * (uint addr div 128))) (ownExecutable (vk_space k))))
     \<and> (\<forall>y. 0 \<le> y \<and> y < 32 \<and> y \<noteq> f \<longrightarrow> frame mem y = frame (mainMemory m) y)
     \<and> replacementAlgorithm (vk_ipt k') = 1"
proof -
  let ?sp = "vk_space k" and ?t = "vk_ipt k" and ?vp = "uint addr div 128"
  from assms(1) obtain a pt es where
    c: "uint addr < 2147483648" "as_pageTable ?sp = Some a" "tables m a = Some pt" "?vp + 1 < int (length pt)"
      "length pt = unat (as_numPages ?sp)" "length pt \<le> 33554432" "virtualPage (pt ! nat ?vp) = -1"
      "?vp \<notin> set (virtualPages (vk_swap k))"
      "BitMap_ok (physicalPagesBitmap ?t)" "numBits (physicalPagesBitmap ?t) = 64" "length (virtualPageTable ?t) = 64"
      "\<not> {0..<32} \<subseteq> BitMap_marked (physicalPagesBitmap ?t)" "replacementAlgorithm ?t = 1"
      "read_header junk (ownExecutable ?sp) = Inr h" "0 \<le> inFileAddr (noff_code h)"
      "uint addr < seg_size (noff_code h) + seg_size (initData h) + seg_size (uninitData h) + inFileAddr (noff_code h)"
      "tlb m = Some es" "length es = 4" "tlb_find es ?vp 0 = None" "free_tlb es 0 = Some (int i)" "\<not> readOnly (es ! i)"
    unfolding cold_page_def Let_def by blast
  have s: "sint addr = uint addr" using c(1) by (simp add: sint_cases)
  have vp: "0 \<le> ?vp" "uint addr sdiv 128 = ?vp" by (simp_all add: sdiv_nonneg pos_imp_zdiv_nonneg_iff)
  from getPhysicalPage_free[OF c(9-12), of ?sp ?vp m "vk_swap k"] obtain f bm where
    f: "0 \<le> f" "f < 32" "f \<notin> BitMap_marked (physicalPagesBitmap ?t)"
      "getPhysicalPage ?sp ?vp m ?t (vk_swap k) = Inr (f, m, ?t\<lparr>physicalPagesBitmap := bm,
         virtualPageTable := (virtualPageTable ?t)[nat f := ?vp], pageCounter := pageCounter ?t + 1\<rparr>, vk_swap k)" by blast
  let ?t1 = "?t\<lparr>physicalPagesBitmap := bm, virtualPageTable := (virtualPageTable ?t)[nat f := ?vp], pageCounter := pageCounter ?t + 1\<rparr>"
  let ?bs = "take 128 (drop (nat (inFileAddr (noff_code h) + 128 * ?vp)) (ownExecutable ?sp))"
  have "length ?bs \<le> 128" by simp
  from frame_poke[OF assms(2) f(1,2) this] obtain mem where
    mem: "poke (mainMemory m) (128 * f) ?bs = Inr mem" "length mem = 4096"
      "\<forall>y. 0 \<le> y \<and> y < 32 \<longrightarrow> frame mem y = (if y = f then overwrite (frame (mainMemory m) f) 0 ?bs else frame (mainMemory m) y)" by blast
  let ?p1 = "(pt ! nat ?vp)\<lparr>physicalPage := f, virtualPage := ?vp\<rparr>"
  let ?m1 = "m\<lparr>tables := (tables m)(a \<mapsto> pt[nat ?vp := ?p1])\<rparr>"
  have notlast: "?vp \<noteq> sint (as_numPages ?sp - 1)"
  proof -
    have "uint (as_numPages ?sp) = int (length pt)" unfolding c(5) uint_nat by (rule refl)
    then have "uint (as_numPages ?sp - 1) = int (length pt) - 1" using c(4) vp(1) by (simp add: uint_sub_if')
    then have "sint (as_numPages ?sp - 1) = int (length pt) - 1" using c(6) by (simp add: sint_cases)
    then show ?thesis using c(4) by linarith
  qed
  have d: "loadFromDisk junk ?sp (uint addr) m ?t (vk_swap k) = Inr (?vp, ?m1\<lparr>mainMemory := mem\<rparr>, ?t1, vk_swap k)"
    using f(4) c vp mem(1) notlast
    by (simp add: loadFromDisk_def mem_defs pt_upd_def updR_def Stub_ReadAt_def mult.commute Let_def)
  let ?m2 = "?m1\<lparr>mainMemory := mem\<rparr>"
  let ?e = "(es ! i)\<lparr>virtualPage := ?vp, physicalPage := f, valid := True\<rparr>"
  have i: "i < 4" "\<not> valid (es ! i)" using free_tlb_Some[OF c(20)] c(18) by auto
  have slot: "tlb_slot ?m2 ?t1 = Inr (int i, ?t1)" using c(17,18,20) by (simp add: tlb_slot_def mem_defs)
  have tlb: "loadToTLB ?sp (int i) ?vp ?m2 ?t1 = Inr (?m2\<lparr>tables := (tables m)(a \<mapsto> pt[nat ?vp := ?p1\<lparr>valid := True\<rparr>]), tlb := Some (es[i := ?e])\<rparr>,
      ?t1\<lparr>second_chance_queue := second_chance_queue ?t @ [(f, True)]\<rparr>)"
    using c(2,4,13,17,18) i vp by (simp add: loadToTLB_def tlb_get_def tlb_upd_def pt_upd_def pt_get_def updR_def IPT_updatePage_def)
  have get: "pt_get ?sp m ?vp = Inr (pt ! nat ?vp)" using c(2-4) vp(1) by (simp add: pt_get_def)
  have "\<exists>k'. NachOS_PageFaultException junk m k =
      Inr (?m2\<lparr>tables := (tables m)(a \<mapsto> pt[nat ?vp := ?p1\<lparr>valid := True\<rparr>]), tlb := Some (es[i := ?e])\<rparr>, k') \<and> replacementAlgorithm (vk_ipt k') = 1"
    using get d slot tlb c(7,8,13) vp s assms(3,4) find_slot_None[of "virtualPages (vk_swap k)" ?vp 0]
    by (simp add: NachOS_PageFaultException_def Machine_ReadRegister_def reg_defs isLoadedInPT_def getVirtualPage_def mem_defs isLoadedInSwap_def Let_def)
  then obtain k' where k': "NachOS_PageFaultException junk m k =
      Inr (?m2\<lparr>tables := (tables m)(a \<mapsto> pt[nat ?vp := ?p1\<lparr>valid := True\<rparr>]), tlb := Some (es[i := ?e])\<rparr>, k')" "replacementAlgorithm (vk_ipt k') = 1" by blast
  show ?thesis
    by (rule exI[of _ f], rule exI[of _ ?e], rule exI[of _ mem], rule exI, rule exI[of _ k'])
      (use f k' mem c(17,21) in auto)
qed

lemma cold_page_trap [simp]: "cold_page junk h addr i (m\<lparr>registers := r\<rparr>) (k\<lparr>vk_mode := st\<rparr>) = cold_page junk h addr i m k"
  by (simp add: cold_page_def Let_def)

lemma cold_page_miss:
  assumes "cpu_ok m" "cold_page junk h addr i m k" "\<not> ((sz = 4 \<and> addr AND 3 \<noteq> 0) \<or> (sz = 2 \<and> addr AND 1 \<noteq> 0))"
  shows "Machine_Translate K addr 0 sz w m k = Inr (PageFaultException, 0, m, k)"
proof -
  obtain es where "tlb m = Some es" "length es = 4" "tlb_find es (uint addr div 128) 0 = None" "pageTable m = None"
    using assms(1,2) by (auto simp: cold_page_def Let_def cpu_ok_def cpu_mid_def Machine_ok_def)
  then show ?thesis using assms(3) unfolding Machine_Translate_def find_entry_def Let_def by (simp add: uint_vpn) (simp add: mem_defs)
qed

lemma VKern_simps [simp]:
  "k_VM (VKern junk others)" "k_setStatus (VKern junk others) st k = k\<lparr>vk_mode := st\<rparr>"
  "k_ExceptionHandler (VKern junk others) PageFaultException = NachOS_PageFaultException junk"
  "k_updatePage (VKern junk others) p k = mapR (\<lambda>t. k\<lparr>vk_ipt := t\<rparr>) (IPT_updatePage (vk_ipt k) p False)"
  by (simp_all add: VKern_def fun_eq_iff)

text \<open>Once the entry is in the TLB the address translates.\<close>

lemma tlb_hit:
  assumes "tlb m = Some (es[i := e])" "length es = 4" "i < 4" "tlb_find es (uint addr div 128) 0 = None" "pageTable m = None"
    "valid e" "virtualPage e = uint addr div 128" "physicalPage e = f" "0 \<le> f" "f < 32" "\<not> readOnly e" "sz \<in> {1, 2, 4}"
    "\<not> ((sz = 4 \<and> addr AND 3 \<noteq> 0) \<or> (sz = 2 \<and> addr AND 1 \<noteq> 0))" "replacementAlgorithm (vk_ipt k) = 1"
  shows "\<exists>k'. Machine_Translate (VKern junk others) addr pa sz True m k = Inr (NoException, f * 128 + uint addr mod 128,
     m\<lparr>tlb := Some (es[i := e\<lparr>use := True, dirty := True\<rparr>])\<rparr>, k')"
proof -
  have f: "tlb_find (es[i := e]) (uint addr div 128) 0 = Some i" using tlb_find_insert[of es "uint addr div 128" 0 i e] assms by simp
  have fr: "uint (word_of_int f :: u32) = f" using assms(9,10) by (simp add: uint_word_of_int)
  have b: "uint addr mod 128 + sz \<le> 128" "0 \<le> uint addr mod 128" using aligned_in_page[OF assms(12,13)] by auto
  have p: "0 \<le> f * 128 + uint addr mod 128" "f * 128 + uint addr mod 128 + sz \<le> 4096" using b assms(9,10) by auto
  obtain k' where "find_entry (VKern junk others) (addr div word_of_int PageSize) m k = Inr (Inr (InTLB i), k')"
    using assms(1-3,14) f unfolding find_entry_def uint_vpn by (auto simp: TLBSize_def IPT_updatePage_def)
  then show ?thesis using assms fr p unfolding Machine_Translate_def Let_def uint_vpn
    by (auto simp: mem_defs entry_at_def set_entry_def uint_vpn)
qed

text \<open>C36: Demand paging. A read of an address whose page was never loaded faults; when a frame of memory and a TLB
  entry are free, the handler takes the frame, fills it with the bytes of the executable at
  the position of the page, and enters it in page table and TLB, and the read then delivers
  what is in the frame: a program sees its own image. Frames of other pages keep their bytes.
  (The page is not the last one of the address space, the address is in the part of the file that
  is loaded, and the flag \<open>readOnly\<close> of the TLB entry, which nobody sets, happens to be false.)\<close>

theorem page_fault_resolved:
  assumes "cpu_ok m" "cold_page junk h addr i m k" "sz \<in> {1, 2, 4}" "uint addr mod sz = 0"
  shows "\<exists>f v m' k'. Machine_ReadMem (VKern junk others) addr sz m k = Inr (Some v, m', k')
     \<and> 0 \<le> f \<and> f < 32 \<and> f \<notin> BitMap_marked (physicalPagesBitmap (vk_ipt k))
     \<and> load_phys (mainMemory m') (f * 128 + uint addr mod 128) sz = Inr v
     \<and> frame (mainMemory m') f = overwrite (frame (mainMemory m) f) 0
          (take 128 (drop (nat (inFileAddr (noff_code h) + 128 * (uint addr div 128))) (ownExecutable (vk_space k))))
     \<and> (\<forall>y. 0 \<le> y \<and> y < 32 \<and> y \<noteq> f \<longrightarrow> frame (mainMemory m') y = frame (mainMemory m) y)
     \<and> (\<exists>e \<in> set (the (tlb m')). valid e \<and> virtualPage e = uint addr div 128 \<and> physicalPage e = f)"
proof -
  have al: "\<not> ((sz = 4 \<and> addr AND 3 \<noteq> 0) \<or> (sz = 2 \<and> addr AND 1 \<noteq> 0))" using assms(4) by (auto simp: aligned_iff)
  have mok: "length (mainMemory m) = 4096" "length (registers m) = 40" using assms(1) by (auto simp: cpu_ok_def cpu_mid_def Machine_ok_def)
  obtain es where es: "tlb m = Some es" "length es = 4" "tlb_find es (uint addr div 128) 0 = None" "free_tlb es 0 = Some (int i)" "pageTable m = None"
    using assms(1,2) by (auto simp: cold_page_def Let_def cpu_ok_def cpu_mid_def Machine_ok_def)
  have i: "i < 4" using free_tlb_Some[OF es(4)] es(2) by simp
  from trap_state[OF assms(1), of addr] obtain r where
    r: "Machine_DelayedLoad 0 0 (set_reg BadVAddrReg addr m) = Inr (m\<lparr>registers := r\<rparr>)" "length r = 40" "r ! 39 = addr" by blast
  from PageFault_loads[of junk h addr i "m\<lparr>registers := r\<rparr>" "k\<lparr>vk_mode := SystemMode\<rparr>"] assms(2) mok r(2,3) obtain f e m2 k2 where
    f: "0 \<le> f" "f < 32" "f \<notin> BitMap_marked (physicalPagesBitmap (vk_ipt k))"
      and h: "NachOS_PageFaultException junk (m\<lparr>registers := r\<rparr>) (k\<lparr>vk_mode := SystemMode\<rparr>) = Inr (m2, k2)"
      and t: "tlb m2 = Some (es[i := e])" "virtualPage e = uint addr div 128" "physicalPage e = f" "valid e" "\<not> readOnly e"
      and p: "length (mainMemory m2) = 4096" "pageTable m2 = None"
      and fr: "frame (mainMemory m2) f = overwrite (frame (mainMemory m) f) 0
          (take 128 (drop (nat (inFileAddr (noff_code h) + 128 * (uint addr div 128))) (ownExecutable (vk_space k))))"
        "\<forall>y. 0 \<le> y \<and> y < 32 \<and> y \<noteq> f \<longrightarrow> frame (mainMemory m2) y = frame (mainMemory m) y"
      and a: "replacementAlgorithm (vk_ipt k2) = 1"
    using es(1,5) by auto
  have "replacementAlgorithm (vk_ipt (k2\<lparr>vk_mode := UserMode\<rparr>)) = 1" using a by simp
  from tlb_hit[OF t(1) es(2) i es(3) p(2) t(4,2,3) f(1,2) t(5) assms(3) al this, of junk others 0] obtain k3 where
    hit: "Machine_Translate (VKern junk others) addr 0 sz True m2 (k2\<lparr>vk_mode := UserMode\<rparr>) = Inr (NoException, f * 128 + uint addr mod 128,
     m2\<lparr>tlb := Some (es[i := e\<lparr>use := True, dirty := True\<rparr>])\<rparr>, k3)" by blast
  have tr: "translate_or_trap (VKern junk others) addr sz False m k = Inr (Some (f * 128 + uint addr mod 128),
     m2\<lparr>tlb := Some (es[i := e\<lparr>use := True, dirty := True\<rparr>])\<rparr>, k3)"
    using cold_page_miss[OF assms(1,2) al] r(1) h hit by (simp add: translate_or_trap_def Machine_RaiseException_def)
  have "\<exists>v. load_phys (mainMemory m2) (f * 128 + uint addr mod 128) sz = Inr v"
  proof -
    have "uint addr mod 128 + sz \<le> 128" "0 \<le> uint addr mod 128" using aligned_in_page[OF assms(3) al] by auto
    then have "0 \<le> f * 128 + uint addr mod 128" "f * 128 + uint addr mod 128 + sz \<le> 4096" using f by auto
    then show ?thesis using p(1) assms(3) by (auto simp: load_phys_def ixR_def)
  qed
  then obtain v where v: "load_phys (mainMemory m2) (f * 128 + uint addr mod 128) sz = Inr v" by blast
  let ?m' = "m2\<lparr>tlb := Some (es[i := e\<lparr>use := True, dirty := True\<rparr>])\<rparr>"
  have "e\<lparr>use := True, dirty := True\<rparr> \<in> set (the (tlb ?m'))" using i es(2) by (simp add: set_update_memI)
  then have en: "\<exists>e \<in> set (the (tlb ?m')). valid e \<and> virtualPage e = uint addr div 128 \<and> physicalPage e = f"
    using t by (intro bexI[of _ "e\<lparr>use := True, dirty := True\<rparr>"]) simp_all
  show ?thesis
    by (rule exI[of _ f], rule exI[of _ v], rule exI[of _ ?m'], rule exI[of _ k3], intro conjI en)
      (use tr v f fr in \<open>simp_all add: Machine_ReadMem_def\<close>)
qed

definition demo_swap :: Swap where
  "demo_swap = \<lparr>swapSegment = [], swapBitMap = \<lparr>numBits = 64, numWords = 2, bm_map = [0, 0]\<rparr>, virtualPages = replicate 64 (-1)\<rparr>"

definition demo_vker :: VKer where
  "demo_vker = \<lparr>vk_ipt = demo_ipt, vk_swap = demo_swap, vk_space = demo_space, vk_faults = 0, vk_mode = UserMode\<rparr>"

definition demo_vm :: Machine where
  "demo_vm = (Machine_new True (replicate 4 empty_entry) False)\<lparr>tables := [5 \<mapsto> replicate 10 empty_entry]\<rparr>"

lemma demo_cold: "cold_page (sf_noff demo_fresh_space) demo_noff 4 0 demo_vm demo_vker"
proof -
  have b: "BitMap_ok (physicalPagesBitmap demo_ipt)" by (simp add: demo_ipt_def BitMap_ok_def divRoundUp_nonneg BitsInWord_def)
  have "31 \<notin> BitMap_marked (physicalPagesBitmap demo_ipt)" by (simp add: BitMap_marked_def bm_bit_def demo_ipt_def)
  then have f: "\<not> {0..<32} \<subseteq> BitMap_marked (physicalPagesBitmap demo_ipt)" by (auto simp: subset_iff intro!: exI[of _ 31])
  have t: "tlb demo_vm = Some [empty_entry, empty_entry, empty_entry, empty_entry]"
    by (simp add: demo_vm_def Machine_new_def mem_defs empty_entry_def) (simp add: numeral_eq_Suc)
  have p: "tables demo_vm 5 = Some (replicate 10 empty_entry)" by (simp add: demo_vm_def)
  have k: "vk_space demo_vker = demo_space" "vk_swap demo_vker = demo_swap" "vk_ipt demo_vker = demo_ipt"
      "as_pageTable demo_space = Some 5" "as_numPages demo_space = 10" "ownExecutable demo_space = demo_exe"
      "numBits (physicalPagesBitmap demo_ipt) = 64" "length (virtualPageTable demo_ipt) = 64" "replacementAlgorithm demo_ipt = 1"
      "set (virtualPages demo_swap) = {-1}"
    by (simp_all add: demo_vker_def demo_space_def demo_ipt_def demo_swap_def)
  show ?thesis unfolding cold_page_def Let_def k
    using b f demo_exe_ok(1) t p by (simp add: demo_noff_def empty_entry_def k)
qed

theorem page_fault_resolved_witness:
  "\<exists>f v m' k'. Machine_ReadMem (VKern (sf_noff demo_fresh_space) (\<lambda>e m k. Inl AssertFail)) 4 4 demo_vm demo_vker = Inr (Some v, m', k') \<and> f < 32
     \<and> frame (mainMemory m') f = overwrite (frame (mainMemory demo_vm) f) 0 (take 128 (drop 40 demo_exe))"
proof -
  have "cpu_ok demo_vm" by (simp add: cpu_ok_def cpu_mid_def Machine_ok_def demo_vm_def Machine_new_def mem_defs reg_def reg_defs)
  from page_fault_resolved[OF this demo_cold, of 4 "\<lambda>e m k. Inl AssertFail"] obtain f v m' k' where
    "Machine_ReadMem (VKern (sf_noff demo_fresh_space) (\<lambda>e m k. Inl AssertFail)) 4 4 demo_vm demo_vker = Inr (Some v, m', k')" "f < 32"
    "frame (mainMemory m') f = overwrite (frame (mainMemory demo_vm) f) 0
       (take 128 (drop (nat (inFileAddr (noff_code demo_noff) + 128 * (uint (4 :: u32) div 128))) (ownExecutable (vk_space demo_vker))))"
    by auto
  then show ?thesis by (intro exI[of _ f] exI[of _ v] exI[of _ m'] exI[of _ k']) (simp add: demo_noff_def demo_vker_def demo_space_def)
qed

text \<open>C40: Replacing a TLB entry. With the configured algorithm the victim in the TLB is selected by the number of a
  physical page. When all four entries are valid and the page whose turn it is lies in frame 4 or
  higher, a fault, even on a page that is in memory, makes the handler read and write behind
  the end of the TLB.\<close>

theorem TLB_replacement_out_of_range:
  assumes "replacementAlgorithm (vk_ipt k) = 1" "second_chance_queue (vk_ipt k) \<noteq> []" "4 \<le> fst (clock (second_chance_queue (vk_ipt k)))"
    "tlb m = Some es" "length es = 4" "\<forall>e \<in> set es. valid e" "length (registers m) = 40"
    "isLoadedInPT (vk_space k) m (sint (reg m BadVAddrReg)) = Inr True"
  shows "NachOS_PageFaultException junk m k = Inl BadAccess"
proof -
  obtain p q where c: "clock (second_chance_queue (vk_ipt k)) = (p, q)" "4 \<le> p"
    using assms(3) by (cases "clock (second_chance_queue (vk_ipt k))") simp
  have v: "free_tlb xs j = None" if "\<forall>e \<in> set xs. valid e" for xs j using that by (induction xs arbitrary: j) auto
  have slot: "tlb_slot m (vk_ipt k) = Inr (p, (vk_ipt k)\<lparr>second_chance_queue := q\<rparr>)"
    using assms(1,4,5) v[OF assms(6)] second_chance_clock[OF assms(2)] c(1) by (simp add: tlb_slot_def mem_defs getTLBEntryToReplace_def)
  obtain e where e: "pt_get (vk_space k) m (sint (reg m BadVAddrReg) sdiv PageSize) = Inr e" "virtualPage e \<noteq> -1"
    using assms(8) by (cases "pt_get (vk_space k) m (sint (reg m BadVAddrReg) sdiv PageSize)") (auto simp: isLoadedInPT_def)
  have "loadToTLB (vk_space k) p va m t = Inl BadAccess" for va t
    using assms(4,5) c(2) by (simp add: loadToTLB_def tlb_get_def ixR_def)
  then show ?thesis using assms(7,8) slot e
    by (simp add: NachOS_PageFaultException_def Machine_ReadRegister_def reg_def reg_defs getVirtualPage_def Let_def)
qed

definition demo_full :: Machine where
  "demo_full = demo_vm\<lparr>tlb := Some (map (\<lambda>i. new_entry i i) [1, 2, 3, 4]), tables := [5 \<mapsto> map (\<lambda>i. new_entry i i) [0 .. 9]]\<rparr>"

theorem TLB_replacement_out_of_range_witness:
  "NachOS_PageFaultException [] demo_full (demo_vker\<lparr>vk_ipt := demo_ipt\<lparr>second_chance_queue := [(4, False)]\<rparr>\<rparr>) = Inl BadAccess"
proof -
  have "isLoadedInPT demo_space demo_full (sint (reg demo_full BadVAddrReg)) = Inr True"
    by (simp add: isLoadedInPT_def pt_get_def demo_space_def demo_full_def demo_vm_def Machine_new_def reg_def reg_defs mem_defs sdiv_nonneg upto.simps new_entry_def)
  then show ?thesis
    by (intro TLB_replacement_out_of_range[where es = "map (\<lambda>i. new_entry i i) [1, 2, 3, 4]"])
      (simp_all add: demo_vker_def demo_ipt_def clock_def demo_full_def demo_vm_def Machine_new_def reg_defs new_entry_def)
qed

end
