(* ===== verification/Nachos_Network.thy ===== *)
theory Nachos_Network
  imports Nachos_Interrupt Complex_Main
begin

text \<open>
  \<open>machine/network.cc\<close> with the sockets of \<open>machine/sysdep.cc\<close>, and \<open>machine/console.cc\<close>: the two
  character and packet devices. Both are asynchronous: they poll their input from an interrupt
  handler that schedules itself again, and report the end of an output by an interrupt.

  The sockets of the host are a finite map from machine addresses (the number in the name
  \<open>SOCKET_<n>\<close>) to the queue of datagrams that wait there. Memory that \<open>new\<close> returns is a
  parameter, and so are the values of \<open>Random()\<close>. The probability \<open>chanceToWork\<close> is a real
  number. A device routine whose last statement calls the handler of its client returns
  whether it does.
\<close>

subsection \<open>Packets\<close>

record PacketHeader =
  pk_to :: u32
  pk_from :: u32
  pk_length :: u32

definition MaxWireSize :: nat where "MaxWireSize = 64"
definition sizeof_PacketHeader :: nat where "sizeof_PacketHeader = 12"
definition MaxPacketSize :: nat where "MaxPacketSize = MaxWireSize - sizeof_PacketHeader"

text \<open>The header in memory, and \<open>*(PacketHeader *)buffer\<close>.\<close>

definition PacketHeader_bytes :: "PacketHeader \<Rightarrow> byte list" where
  "PacketHeader_bytes h = word_bytes (pk_to h) @ word_bytes (pk_from h) @ word_bytes (pk_length h)"

definition PacketHeader_at :: "byte list \<Rightarrow> PacketHeader" where
  "PacketHeader_at buffer = \<lparr>pk_to = bytes_word (take 4 buffer), pk_from = bytes_word (take 4 (drop 4 buffer)),
     pk_length = bytes_word (take 4 (drop 8 buffer))\<rparr>"

subsection \<open>Sockets of the host\<close>

type_synonym Sockets = "u32 \<Rightarrow> byte list list option"

text \<open>\<open>unlink\<close> and \<open>bind\<close>: a new socket of this name.\<close>

definition AssignNameToSocket :: "u32 \<Rightarrow> Sockets \<Rightarrow> Sockets" where
  "AssignNameToSocket name socks = socks(name \<mapsto> [])"

definition DeAssignNameToSocket :: "u32 \<Rightarrow> Sockets \<Rightarrow> Sockets" where
  "DeAssignNameToSocket name socks = socks(name := None)"

definition PollSocket :: "u32 \<Rightarrow> Sockets \<Rightarrow> bool" where
  "PollSocket name socks = (case socks name of None \<Rightarrow> False | Some q \<Rightarrow> q \<noteq> [])"

text \<open>
  \<open>recvfrom\<close> takes the next datagram, cut at \<open>packetSize\<close>, and waits for one if there is none.
\<close>

definition ReadFromSocket :: "u32 \<Rightarrow> nat \<Rightarrow> Sockets \<Rightarrow> (byte list \<times> Sockets) res" where
  "ReadFromSocket name packetSize socks =
     (case socks name of
        None \<Rightarrow> Inl AssertFail
      | Some [] \<Rightarrow> Inl Diverges
      | Some (p # q) \<Rightarrow> assertR (min (length p) packetSize = packetSize)
          (Inr (take packetSize p, socks(name \<mapsto> q))))"

definition SendToSocket :: "byte list \<Rightarrow> u32 \<Rightarrow> Sockets \<Rightarrow> Sockets res" where
  "SendToSocket buffer toName socks =
     (case socks toName of None \<Rightarrow> Inl AssertFail | Some q \<Rightarrow> Inr (socks(toName \<mapsto> q @ [buffer])))"

subsection \<open>The network device\<close>

record Network =
  net_ident :: u32
  chanceToWork :: real
  sendBusy :: bool
  inHdr :: PacketHeader
  inbox :: "byte list"

text \<open>\<open>hdr0\<close> and \<open>box0\<close> are what the fields hold before they are set.\<close>

definition Network_new :: "'h \<Rightarrow> u32 \<Rightarrow> real \<Rightarrow> PacketHeader \<Rightarrow> byte list \<Rightarrow> Sockets \<Rightarrow> ('h, 'k) Hw
    \<Rightarrow> (Network \<times> Sockets \<times> ('h, 'k) Hw) res" where
  "Network_new NetworkReadPoll addr reliability hdr0 box0 socks s =
     (let net = \<lparr>net_ident = addr,
            chanceToWork = (if reliability < 0 then 0 else if reliability > 1 then 1 else reliability),
            sendBusy = False, inHdr = hdr0\<lparr>pk_length := 0\<rparr>, inbox = box0\<rparr>
      in mapR (\<lambda>s'. (net, AssignNameToSocket addr socks, s'))
           (Interrupt_Schedule NetworkReadPoll NetworkTime NetworkRecvInt s))"

definition Network_delete :: "Network \<Rightarrow> Sockets \<Rightarrow> Sockets" where
  "Network_delete net socks = DeAssignNameToSocket (net_ident net) socks"

text \<open>The result says whether \<open>readHandler\<close> is called.\<close>

definition Network_CheckPktAvail :: "'h \<Rightarrow> Network \<Rightarrow> Sockets \<Rightarrow> ('h, 'k) Hw
    \<Rightarrow> (bool \<times> Network \<times> Sockets \<times> ('h, 'k) Hw) res" where
  "Network_CheckPktAvail NetworkReadPoll net socks s =
     bindR (Interrupt_Schedule NetworkReadPoll NetworkTime NetworkRecvInt s) (\<lambda>s1.
     if pk_length (inHdr net) \<noteq> 0 then Inr (False, net, socks, s1)
     else if \<not> PollSocket (net_ident net) socks then Inr (False, net, socks, s1)
     else
       bindR (ReadFromSocket (net_ident net) MaxWireSize socks) (\<lambda>(buffer, socks').
       let hdr = PacketHeader_at buffer;
           n = unat (pk_length hdr)
       in assertR (pk_to hdr = net_ident net \<and> n \<le> MaxPacketSize)
            (Inr (True,
                  net\<lparr>inHdr := hdr, inbox := overwrite (inbox net) 0 (take n (drop sizeof_PacketHeader buffer))\<rparr>,
                  socks',
                  s1\<lparr>stats := (stats s1)\<lparr>numPacketsRecvd := numPacketsRecvd (stats s1) + 1\<rparr>\<rparr>))))"

text \<open>Followed by the call of \<open>writeHandler\<close>.\<close>

definition Network_SendDone :: "Network \<Rightarrow> ('h, 'k) Hw \<Rightarrow> Network \<times> ('h, 'k) Hw" where
  "Network_SendDone net s =
     (net\<lparr>sendBusy := False\<rparr>, s\<lparr>stats := (stats s)\<lparr>numPacketsSent := numPacketsSent (stats s) + 1\<rparr>\<rparr>)"

text \<open>
  \<open>rnd\<close> is the value of \<open>Random()\<close>, \<open>buffer\<close> the memory \<open>new char[MaxWireSize]\<close> returns; the
  packet is padded with what it holds. \<open>data\<close> are the bytes behind the pointer.
\<close>

definition Network_lost :: "nat \<Rightarrow> Network \<Rightarrow> bool" where
  "Network_lost rnd net \<longleftrightarrow> real (rnd mod 100) \<ge> chanceToWork net * 100"

definition Network_Send :: "'h \<Rightarrow> nat \<Rightarrow> byte list \<Rightarrow> PacketHeader \<Rightarrow> byte list \<Rightarrow> Network \<Rightarrow> Sockets
    \<Rightarrow> ('h, 'k) Hw \<Rightarrow> (Network \<times> Sockets \<times> ('h, 'k) Hw) res" where
  "Network_Send NetworkSendDone rnd buffer hdr data net socks s =
     assertR (sendBusy net = False \<and> pk_length hdr > 0 \<and> unat (pk_length hdr) \<le> MaxPacketSize
              \<and> pk_from hdr = net_ident net) (
     bindR (Interrupt_Schedule NetworkSendDone NetworkTime NetworkSendInt s) (\<lambda>s1.
     if Network_lost rnd net then Inr (net, socks, s1)
     else if length data < unat (pk_length hdr) then Inl BadAccess
     else
       let buffer1 = overwrite buffer 0 (PacketHeader_bytes hdr);
           buffer2 = overwrite buffer1 sizeof_PacketHeader (take (unat (pk_length hdr)) data)
       in mapR (\<lambda>socks'. (net, socks', s1)) (SendToSocket buffer2 (pk_to hdr) socks)))"

text \<open>\<open>Receive(data)\<close>: the header, the caller's buffer afterwards, the device.\<close>

definition Network_Receive :: "byte list \<Rightarrow> Network \<Rightarrow> PacketHeader \<times> byte list \<times> Network" where
  "Network_Receive data net =
     (let hdr = inHdr net
      in (hdr,
          if pk_length hdr \<noteq> 0 then overwrite data 0 (take (unat (pk_length hdr)) (inbox net)) else data,
          net\<lparr>inHdr := hdr\<lparr>pk_length := 0\<rparr>\<rparr>))"

subsection \<open>The console device\<close>

text \<open>
  \<open>display\<close> is what has been written to the file of the display. A \<open>char\<close> is a byte; the
  value \<open>EOF\<close> is -1, and so is the byte 255 as a \<open>char\<close>.
\<close>

definition EOF :: byte where "EOF = 255"

record Console =
  display :: "byte list"
  putBusy :: bool
  incoming :: byte

definition Console_new :: "'h \<Rightarrow> ('h, 'k) Hw \<Rightarrow> (Console \<times> ('h, 'k) Hw) res" where
  "Console_new ConsoleReadPoll s =
     mapR (Pair \<lparr>display = [], putBusy = False, incoming = EOF\<rparr>)
       (Interrupt_Schedule ConsoleReadPoll ConsoleTime ConsoleReadInt s)"

text \<open>
  \<open>ready\<close> is the answer of \<open>PollFile\<close> and \<open>c\<close> what \<open>read\<close> gives: no byte at the end of
  the input. The result says whether \<open>readHandler\<close> is called.
\<close>

definition Console_CheckCharAvail :: "'h \<Rightarrow> bool \<Rightarrow> byte option \<Rightarrow> Console \<Rightarrow> ('h, 'k) Hw
    \<Rightarrow> (bool \<times> Console \<times> ('h, 'k) Hw) res" where
  "Console_CheckCharAvail ConsoleReadPoll ready c con s =
     bindR (Interrupt_Schedule ConsoleReadPoll ConsoleTime ConsoleReadInt s) (\<lambda>s1.
     if incoming con \<noteq> EOF \<or> \<not> ready then Inr (False, con, s1)
     else case c of
       None \<Rightarrow> Inl AssertFail
     | Some ch \<Rightarrow> Inr (True, con\<lparr>incoming := ch\<rparr>,
         s1\<lparr>stats := (stats s1)\<lparr>numConsoleCharsRead := numConsoleCharsRead (stats s1) + 1\<rparr>\<rparr>))"

text \<open>Followed by the call of \<open>writeHandler\<close>.\<close>

definition Console_WriteDone :: "Console \<Rightarrow> ('h, 'k) Hw \<Rightarrow> Console \<times> ('h, 'k) Hw" where
  "Console_WriteDone con s =
     (con\<lparr>putBusy := False\<rparr>,
      s\<lparr>stats := (stats s)\<lparr>numConsoleCharsWritten := numConsoleCharsWritten (stats s) + 1\<rparr>\<rparr>)"

definition Console_GetChar :: "Console \<Rightarrow> byte \<times> Console" where
  "Console_GetChar con = (incoming con, con\<lparr>incoming := EOF\<rparr>)"

definition Console_PutChar :: "'h \<Rightarrow> byte \<Rightarrow> Console \<Rightarrow> ('h, 'k) Hw \<Rightarrow> (Console \<times> ('h, 'k) Hw) res" where
  "Console_PutChar ConsoleWriteDone ch con s =
     assertR (putBusy con = False)
       (mapR (Pair (con\<lparr>display := display con @ [ch], putBusy := True\<rparr>))
          (Interrupt_Schedule ConsoleWriteDone ConsoleTime ConsoleWriteInt s))"

subsection \<open>Packets on the wire\<close>

lemmas wire_sizes = MaxWireSize_def MaxPacketSize_def sizeof_PacketHeader_def

lemma length_PacketHeader_bytes [simp]: "length (PacketHeader_bytes h) = 12"
  by (simp add: PacketHeader_bytes_def)

lemma PacketHeader_at_bytes [simp]: "PacketHeader_at (PacketHeader_bytes h @ bs) = h"
  by (simp add: PacketHeader_at_def PacketHeader_bytes_def)

text \<open>What \<open>Send\<close> puts on the wire: the header, the data, and the padding.\<close>

lemma wire_packet:
  assumes "length buffer = MaxWireSize" "n \<le> MaxPacketSize" "n \<le> length data"
  shows "overwrite (overwrite buffer 0 (PacketHeader_bytes hdr)) sizeof_PacketHeader (take n data)
    = PacketHeader_bytes hdr @ take n data @ drop (12 + n) buffer"
  using assms by (simp add: overwrite_def wire_sizes min_def add.commute)

text \<open>A network of reliability 1 loses nothing, one of reliability 0 everything.\<close>

lemma Network_reliable: "chanceToWork net = 1 \<Longrightarrow> \<not> Network_lost rnd net"
proof -
  assume "chanceToWork net = 1"
  moreover have "rnd mod 100 < 100" by simp
  then have "real (rnd mod 100) < real 100" by (simp only: of_nat_less_iff)
  ultimately show ?thesis by (simp add: Network_lost_def)
qed

lemma Network_dead: "chanceToWork net = 0 \<Longrightarrow> Network_lost rnd net"
  by (simp add: Network_lost_def)

lemma Network_Send_ok:
  assumes "\<not> sendBusy net" "0 < pk_length hdr" "unat (pk_length hdr) \<le> MaxPacketSize"
    "pk_from hdr = net_ident net" "socks (pk_to hdr) = Some q" "unat (pk_length hdr) \<le> length data"
    "length buffer = MaxWireSize"
  shows "\<exists>s'. Interrupt_Schedule h NetworkTime NetworkSendInt s = Inr s' \<and>
    Network_Send h rnd buffer hdr data net socks s = Inr (net,
      if Network_lost rnd net then socks
      else socks(pk_to hdr \<mapsto> q @ [PacketHeader_bytes hdr @ take (unat (pk_length hdr)) data
             @ drop (12 + unat (pk_length hdr)) buffer]), s')"
  using assms wire_packet[OF assms(7,3,6), of hdr]
  by (simp add: Network_Send_def Interrupt_Schedule_def NetworkTime_def SendToSocket_def Let_def)

text \<open>
  \<open>sendBusy\<close> is never set, so that \<open>ASSERT(sendBusy == false)\<close> does not notice a second packet
  before the interrupt that ends the first.
\<close>

lemma Network_Send_not_busy:
  "Network_Send h rnd buffer hdr data net socks s = Inr (net', socks', s') \<Longrightarrow> sendBusy net' = sendBusy net"
  by (auto simp: Network_Send_def assertR_def Let_def bindR_def mapR_def split: if_splits sum.splits)

subsection \<open>Characters of the console\<close>

text \<open>A character that arrived waits until it is taken, except the character 255.\<close>

lemma Console_keeps_char:
  assumes "incoming con \<noteq> EOF"
  shows "\<exists>s'. Console_CheckCharAvail h ready c con s = Inr (False, con, s')"
  using assms by (simp add: Console_CheckCharAvail_def Interrupt_Schedule_def ConsoleTime_def Let_def)

lemma Console_loses_255:
  assumes "Console_CheckCharAvail h True (Some 255) con s = Inr (True, con1, s1)"
  shows "\<exists>con2 s2. Console_CheckCharAvail h True (Some ch) con1 s1 = Inr (True, con2, s2) \<and> incoming con2 = ch"
  using assms by (auto simp: Console_CheckCharAvail_def Interrupt_Schedule_def ConsoleTime_def Let_def EOF_def
      split: if_splits)

text \<open>At the end of the input \<open>PollFile\<close> says ready and \<open>Read\<close> fails its \<open>ASSERT\<close>.\<close>

lemma Console_end_of_input:
  "incoming con = EOF \<Longrightarrow> Console_CheckCharAvail h True None con s = Inl AssertFail"
  by (simp add: Console_CheckCharAvail_def Interrupt_Schedule_def ConsoleTime_def Let_def)

text \<open>The display gets every character in order; a second one has to wait for \<open>WriteDone\<close>.\<close>

lemma Console_PutChar_ok:
  assumes "\<not> putBusy con"
  shows "\<exists>con' s'. Console_PutChar h ch con s = Inr (con', s') \<and> display con' = display con @ [ch]
    \<and> Console_PutChar h ch' con' s' = Inl AssertFail
    \<and> (\<exists>con2 s2. Console_PutChar h ch' (fst (Console_WriteDone con' s')) s' = Inr (con2, s2)
         \<and> display con2 = display con @ [ch, ch'])"
  using assms by (simp add: Console_PutChar_def Console_WriteDone_def Interrupt_Schedule_def ConsoleTime_def Let_def)

end
