(* ===== verification/Nachos_Post.thy ===== *)
theory Nachos_Post
  imports Nachos_Network Nachos_Threads
begin

text \<open>
  \<open>threads/synchlist.h\<close> and \<open>network/post.cc\<close>: lists that threads share, mailboxes, and the post
  office that moves mail between the mailboxes of several machines over the network device.

  The threads of a machine run the scripts of theory \<open>Nachos_Threads\<close>. A statement of the post
  office between two calls of the kernel is an action \<open>A_user c\<close>, whose effect on the data is
  the function \<open>po_user c\<close>; the local variables of the threads are their frames. The scripts
  of \<open>Send\<close>, \<open>Receive\<close>, \<open>PostalDelivery\<close>, \<open>SynchList::Append\<close> and \<open>SynchList::Remove\<close> are in the order of
  their statements. The relation \<open>net_reach\<close> gives the states that any number of machines on
  the network can come to: the machines act in any order, the interrupts of the network
  device come at any of the points at which interrupts are served, packets get lost as
  \<open>Random()\<close> says.
\<close>

subsection \<open>Synchronised lists\<close>

text \<open>The numbers of the lock's semaphore, of the lock and of the condition variable.\<close>

record 'a SynchList =
  sl_list :: "'a List"
  sl_sem :: nat
  sl_lock :: nat
  sl_listEmpty :: nat

definition SynchList_new :: "nat \<Rightarrow> nat \<Rightarrow> nat \<Rightarrow> 'a SynchList" where
  "SynchList_new sm lk cd = \<lparr>sl_list = List_new, sl_sem = sm, sl_lock = lk, sl_listEmpty = cd\<rparr>"

definition SynchList_delete :: "'a SynchList \<Rightarrow> 'a List res option" where
  "SynchList_delete sl = List_delete (sl_list sl)"

text \<open>
  \<open>Append\<close>, \<open>Remove\<close> and \<open>Apply\<close>; the action \<open>c\<close> works on the list. In \<open>Remove\<close> it is the
  test of the loop, with \<open>SynchList_Wait\<close> as the body of the loop and the test again.
\<close>

definition SynchList_Append :: "'a SynchList \<Rightarrow> nat \<Rightarrow> Act list" where
  "SynchList_Append sl c = Lock_Acquire (sl_sem sl) (sl_lock sl) @ [A_user c]
     @ Condition_Signal (sl_listEmpty sl) @ Lock_Release (sl_sem sl) (sl_lock sl)"

definition SynchList_Wait :: "'a SynchList \<Rightarrow> nat \<Rightarrow> Act list" where
  "SynchList_Wait sl c = Condition_Wait (sl_listEmpty sl) (sl_sem sl) (sl_lock sl) @ [A_user c]"

definition SynchList_Remove :: "'a SynchList \<Rightarrow> nat \<Rightarrow> Act list" where
  "SynchList_Remove sl c = Lock_Acquire (sl_sem sl) (sl_lock sl) @ [A_user c]
     @ Lock_Release (sl_sem sl) (sl_lock sl)"

definition SynchList_Apply :: "'a SynchList \<Rightarrow> nat \<Rightarrow> Act list" where
  "SynchList_Apply sl c = Lock_Acquire (sl_sem sl) (sl_lock sl) @ [A_user c]
     @ Lock_Release (sl_sem sl) (sl_lock sl)"

subsection \<open>Mail\<close>

record MailHeader =
  ml_to :: u32
  ml_from :: u32
  ml_length :: u32

definition sizeof_MailHeader :: nat where "sizeof_MailHeader = 12"
definition MaxMailSize :: nat where "MaxMailSize = MaxPacketSize - sizeof_MailHeader"

definition MailHeader_bytes :: "MailHeader \<Rightarrow> byte list" where
  "MailHeader_bytes h = word_bytes (ml_to h) @ word_bytes (ml_from h) @ word_bytes (ml_length h)"

definition MailHeader_at :: "byte list \<Rightarrow> MailHeader" where
  "MailHeader_at buffer = \<lparr>ml_to = bytes_word (take 4 buffer), ml_from = bytes_word (take 4 (drop 4 buffer)),
     ml_length = bytes_word (take 4 (drop 8 buffer))\<rparr>"

text \<open>\<open>m_data\<close> holds the bytes that the constructor sets.\<close>

record Mail =
  m_pktHdr :: PacketHeader
  m_mailHdr :: MailHeader
  m_data :: "byte list"

definition Mail_new :: "PacketHeader \<Rightarrow> MailHeader \<Rightarrow> byte list \<Rightarrow> Mail res" where
  "Mail_new pktH mailH msgData =
     assertR (unat (ml_length mailH) \<le> MaxMailSize)
       (if length msgData < unat (ml_length mailH) then Inl BadAccess
        else Inr \<lparr>m_pktHdr = pktH, m_mailHdr = mailH, m_data = take (unat (ml_length mailH)) msgData\<rparr>)"

type_synonym MailBox = "Mail SynchList"

text \<open>Mailbox \<open>b\<close> has lock \<open>b + 1\<close> on semaphore \<open>b + 3\<close>, and condition \<open>b\<close>.\<close>

definition MailBox_new :: "nat \<Rightarrow> MailBox" where
  "MailBox_new b = SynchList_new (b + 3) (b + 1) b"

definition MailBox_delete :: "MailBox \<Rightarrow> Mail List res option" where
  "MailBox_delete mb = SynchList_delete mb"

subsection \<open>The post office of a machine\<close>

datatype NetIrq = NetworkReadPoll | NetworkSendDone

text \<open>The calls a client makes.\<close>

datatype PoCall = PoSend PacketHeader MailHeader "byte list" | PoReceive int

text \<open>
  The local variables of a thread: for a client the calls it has still to make, for all threads
  the variables of the routine they are in, and what the calls of \<open>Receive\<close> returned.
\<close>

record Frame =
  f_calls :: "PoCall list"
  f_pktHdr :: PacketHeader
  f_buffer :: "byte list"
  f_mail :: Mail
  f_box :: nat
  f_received :: "Mail list"

record Node =
  po_kst :: Kst
  po_hw :: "(NetIrq, unit) Hw"
  po_net :: Network
  po_netAddr :: u32
  po_numBoxes :: int
  po_boxes :: "MailBox list"
  po_frames :: "nat \<Rightarrow> Frame"

definition messageAvailable :: nat where "messageAvailable = 0"
definition messageSent :: nat where "messageSent = 1"
definition sendSem :: nat where "sendSem = 2"
definition sendLock :: nat where "sendLock = 0"

text \<open>
  The actions of the post office: a client makes its next call; \<open>network->Send\<close>; the body of
  \<open>PostalDelivery\<close> behind \<open>P\<close>; \<open>list->Append\<close>; the loop and \<open>list->Remove\<close>; the end of \<open>Get\<close> and \<open>Receive\<close>.
\<close>

definition c_call :: nat where "c_call = 0"
definition c_send :: nat where "c_send = 1"
definition c_deliver :: nat where "c_deliver = 2"
definition c_append :: nat where "c_append = 3"
definition c_remove :: nat where "c_remove = 4"
definition c_get :: nat where "c_get = 5"

definition PostalDelivery :: "Act list" where
  "PostalDelivery = Semaphore_P messageAvailable @ [A_user c_deliver]"

definition PostOffice_Send :: "Act list" where
  "PostOffice_Send = Lock_Acquire sendSem sendLock @ [A_user c_send] @ Semaphore_P messageSent
     @ Lock_Release sendSem sendLock"

definition PostOffice_Receive :: "MailBox \<Rightarrow> Act list" where
  "PostOffice_Receive mb = SynchList_Remove mb c_remove @ [A_user c_get]"

definition MailBox_Put :: "MailBox \<Rightarrow> Act list" where
  "MailBox_Put mb = SynchList_Append mb c_append"

definition push_node :: "Act list \<Rightarrow> Node \<Rightarrow> Node" where
  "push_node as n = n\<lparr>po_kst := push_acts as (po_kst n)\<rparr>"

definition cur_frame :: "Node \<Rightarrow> Frame" where
  "cur_frame n = po_frames n (currentThread (po_kst n))"

definition upd_frame :: "(Frame \<Rightarrow> Frame) \<Rightarrow> Node \<Rightarrow> Node" where
  "upd_frame f n = (let t = currentThread (po_kst n)
     in n\<lparr>po_frames := (po_frames n)(t := f (po_frames n t))\<rparr>)"

text \<open>\<open>Send\<close> up to \<open>sendLock->Acquire()\<close>, with \<open>MailHeader\<close> and data put together in \<open>buffer\<close>.\<close>

definition PostOffice_Send_begin :: "PacketHeader \<Rightarrow> MailHeader \<Rightarrow> byte list \<Rightarrow> Node \<Rightarrow> Node res" where
  "PostOffice_Send_begin pktHdr mailHdr data n =
     assertR (unat (ml_length mailHdr) \<le> MaxMailSize) (
     assertR (0 \<le> sint (ml_to mailHdr) \<and> sint (ml_to mailHdr) < po_numBoxes n) (
     if length data < unat (ml_length mailHdr) then Inl BadAccess
     else
       let hdr = pktHdr\<lparr>pk_from := po_netAddr n, pk_length := ml_length mailHdr + of_nat sizeof_MailHeader\<rparr>;
           buffer = MailHeader_bytes mailHdr @ take (unat (ml_length mailHdr)) data
       in Inr (push_node PostOffice_Send (upd_frame (\<lambda>f. f\<lparr>f_pktHdr := hdr, f_buffer := buffer\<rparr>) n))))"

definition PostOffice_Receive_begin :: "int \<Rightarrow> Node \<Rightarrow> Node res" where
  "PostOffice_Receive_begin box n =
     assertR (box \<ge> 0 \<and> box < po_numBoxes n)
       (bindR (ixR (po_boxes n) box) (\<lambda>mb.
        Inr (push_node (PostOffice_Receive mb) (upd_frame (\<lambda>f. f\<lparr>f_box := nat box\<rparr>) n))))"

definition client_call :: "Node \<Rightarrow> Node res" where
  "client_call n =
     (case f_calls (cur_frame n) of
        [] \<Rightarrow> Inr n
      | c # cs \<Rightarrow>
        let n1 = push_node [A_user c_call] (upd_frame (\<lambda>f. f\<lparr>f_calls := cs\<rparr>) n)
        in (case c of PoSend pktHdr mailHdr data \<Rightarrow> PostOffice_Send_begin pktHdr mailHdr data n1
            | PoReceive box \<Rightarrow> PostOffice_Receive_begin box n1))"

text \<open>\<open>PostalDelivery\<close> from \<open>Receive\<close> on; the loop goes on behind \<open>Put\<close>.\<close>

definition deliver :: "Node \<Rightarrow> Node res" where
  "deliver n =
     (let (pktHdr, buffer, net) = Network_Receive (f_buffer (cur_frame n)) (po_net n);
          mailHdr = MailHeader_at buffer
      in assertR (0 \<le> sint (ml_to mailHdr) \<and> sint (ml_to mailHdr) < po_numBoxes n) (
         assertR (unat (ml_length mailHdr) \<le> MaxMailSize) (
         bindR (ixR (po_boxes n) (sint (ml_to mailHdr))) (\<lambda>mb.
         bindR (Mail_new pktHdr mailHdr (drop sizeof_MailHeader buffer)) (\<lambda>mail.
         Inr (push_node (MailBox_Put mb @ PostalDelivery)
               (upd_frame (\<lambda>f. f\<lparr>f_buffer := buffer, f_mail := mail, f_box := nat (sint (ml_to mailHdr))\<rparr>)
                  (n\<lparr>po_net := net\<rparr>))))))))"

definition append_mail :: "Node \<Rightarrow> Node res" where
  "append_mail n =
     (let f = cur_frame n in
      bindR (ixR (po_boxes n) (int (f_box f))) (\<lambda>mb.
      bindR (List_Append (sl_list mb) (f_mail f)) (\<lambda>l.
      Inr (n\<lparr>po_boxes := (po_boxes n)[f_box f := mb\<lparr>sl_list := l\<rparr>]\<rparr>))))"

definition remove_mail :: "Node \<Rightarrow> Node res" where
  "remove_mail n =
     (let f = cur_frame n in
      bindR (ixR (po_boxes n) (int (f_box f))) (\<lambda>mb.
      if List_IsEmpty (sl_list mb) then Inr (push_node (SynchList_Wait mb c_remove) n)
      else bindR (List_Remove (sl_list mb)) (\<lambda>(item, l).
        case item of None \<Rightarrow> Inl BadAccess
        | Some mail \<Rightarrow> Inr (upd_frame (\<lambda>f. f\<lparr>f_mail := mail\<rparr>)
            (n\<lparr>po_boxes := (po_boxes n)[f_box f := mb\<lparr>sl_list := l\<rparr>]\<rparr>)))))"

definition get_mail :: "Node \<Rightarrow> Node res" where
  "get_mail n =
     (let mail = f_mail (cur_frame n)
      in if length (m_data mail) < unat (ml_length (m_mailHdr mail)) then Inl BadAccess
         else assertR (unat (ml_length (m_mailHdr mail)) \<le> MaxMailSize)
           (Inr (upd_frame (\<lambda>f. f\<lparr>f_received := f_received f @ [mail]\<rparr>) n)))"

definition network_send :: "nat \<Rightarrow> byte list \<Rightarrow> Node \<Rightarrow> Sockets \<Rightarrow> (Node \<times> Sockets) res" where
  "network_send rnd buffer n socks =
     (let f = cur_frame n
      in mapR (\<lambda>(net, socks', hw). (n\<lparr>po_net := net, po_hw := hw\<rparr>, socks'))
           (Network_Send NetworkSendDone rnd buffer (f_pktHdr f) (f_buffer f) (po_net n) socks (po_hw n)))"

definition po_user :: "nat \<Rightarrow> nat \<Rightarrow> byte list \<Rightarrow> Node \<Rightarrow> Sockets \<Rightarrow> (Node \<times> Sockets) res" where
  "po_user c rnd buffer n socks =
     (if c = c_send then network_send rnd buffer n socks
      else mapR (\<lambda>n'. (n', socks))
        (if c = c_call then client_call n
         else if c = c_deliver then deliver n
         else if c = c_append then append_mail n
         else if c = c_remove then remove_mail n
         else if c = c_get then get_mail n
         else Inl BadAccess))"

text \<open>The interrupt handlers, down to \<open>IncomingPacket\<close> and \<open>PacketSent\<close>.\<close>

definition PostOffice_IncomingPacket :: "Node \<Rightarrow> Node" where
  "PostOffice_IncomingPacket n = n\<lparr>po_kst := Semaphore_V_body messageAvailable (po_kst n)\<rparr>"

definition PostOffice_PacketSent :: "Node \<Rightarrow> Node" where
  "PostOffice_PacketSent n = n\<lparr>po_kst := Semaphore_V_body messageSent (po_kst n)\<rparr>"

definition net_handler :: "NetIrq \<Rightarrow> Node \<Rightarrow> Sockets \<Rightarrow> (Node \<times> Sockets) res" where
  "net_handler h n socks =
     (case h of
        NetworkReadPoll \<Rightarrow>
          mapR (\<lambda>(arrived, net, socks', hw).
              let n1 = n\<lparr>po_net := net, po_hw := hw\<rparr>
              in (if arrived then PostOffice_IncomingPacket n1 else n1, socks'))
            (Network_CheckPktAvail NetworkReadPoll (po_net n) socks (po_hw n))
      | NetworkSendDone \<Rightarrow>
          let (net, hw) = Network_SendDone (po_net n) (po_hw n)
          in Inr (PostOffice_PacketSent (n\<lparr>po_net := net, po_hw := hw\<rparr>), socks))"

text \<open>
  The constructor, called by the current thread of kernel \<open>k\<close>, with the new thread \<open>t\<close> as the
  postal worker. \<open>frs\<close> are the frames of the clients and of the worker, whose buffer is new.
\<close>

definition PostOffice_new :: "u32 \<Rightarrow> real \<Rightarrow> nat \<Rightarrow> nat \<Rightarrow> PacketHeader \<Rightarrow> byte list \<Rightarrow> (nat \<Rightarrow> Frame) \<Rightarrow> Kst
    \<Rightarrow> (NetIrq, unit) Hw \<Rightarrow> Sockets \<Rightarrow> (Node \<times> Sockets) res" where
  "PostOffice_new addr reliability nBoxes t hdr0 box0 frs k hw socks =
     (let k1 = k\<lparr>sems := (\<lambda>s. if s = messageAvailable \<or> s = messageSent then Semaphore_new 0
                   else if s < nBoxes + 3 then Semaphore_new 1 else sems k s),
                 locks := (\<lambda>l. if l < nBoxes + 1 then Lock_new (l + 2) else locks k l),
                 conds := (\<lambda>c. if c < nBoxes then [] else conds k c)\<rparr>;
          k2 = k1\<lparr>threads := (threads k1)(t \<mapsto> Thread_new),
                  script := (script k1)(t := ThreadRoot PostalDelivery)\<rparr>;
          k3 = push_acts (Thread_Fork t) k2
      in mapR (\<lambda>(net, socks', hw').
             (\<lparr>po_kst = k3, po_hw = hw', po_net = net, po_netAddr = addr, po_numBoxes = int nBoxes,
               po_boxes = map MailBox_new [0..<nBoxes], po_frames = frs\<rparr>, socks'))
           (Network_new NetworkReadPoll addr reliability hdr0 box0 socks hw))"

text \<open>The destructor: the network, then the mailboxes with the mail that is left.\<close>

definition PostOffice_delete :: "Node \<Rightarrow> Sockets \<Rightarrow> Mail List res option list \<times> Sockets" where
  "PostOffice_delete n socks = (map MailBox_delete (po_boxes n), Network_delete (po_net n) socks)"

subsection \<open>Machines on the network\<close>

text \<open>
  \<open>w_sent\<close> and \<open>w_taken\<close> record, for the statements of the properties, the packets put on the wire
  and the mail taken out of mailboxes.
\<close>

record World =
  w_nodes :: "u32 \<Rightarrow> Node option"
  w_socks :: Sockets
  w_sent :: "(u32 \<times> Mail) list"
  w_taken :: "(u32 \<times> nat \<times> Mail) list"

text \<open>
  What may happen on machine \<open>m\<close>: the next action of the current thread (for a \<open>SetLevel\<close> that
  enables interrupts also with the timer making it yield), or the \<open>i\<close>-th pending interrupt.
\<close>

datatype Ev = Ev_act u32 | Ev_yield u32 | Ev_user u32 nat "byte list" | Ev_irq u32 nat

definition is_user :: "Act \<Rightarrow> bool" where
  "is_user a = (case a of A_user c \<Rightarrow> True | _ \<Rightarrow> False)"

text \<open>The mail in a packet.\<close>

definition packet_mail :: "PacketHeader \<Rightarrow> byte list \<Rightarrow> Mail" where
  "packet_mail hdr data = (let mh = MailHeader_at data
     in \<lparr>m_pktHdr = hdr, m_mailHdr = mh, m_data = take (unat (ml_length mh)) (drop sizeof_MailHeader data)\<rparr>)"

definition serves_irq :: "Act \<Rightarrow> Kst \<Rightarrow> bool" where
  "serves_irq a k \<longleftrightarrow> enables a k \<or> a = A_next \<and> readyList k = []"

definition take_irq :: "nat \<Rightarrow> Node \<Rightarrow> Node" where
  "take_irq i n = n\<lparr>po_hw := upd_intr (\<lambda>it. it\<lparr>pending := take i (pending it) @ drop (Suc i) (pending it)\<rparr>) (po_hw n)\<rparr>"

definition node_act :: "Node \<Rightarrow> Node res" where
  "node_act n = (case script (po_kst n) (currentThread (po_kst n)) of [] \<Rightarrow> Inr n
     | a # as \<Rightarrow> mapR (\<lambda>k. n\<lparr>po_kst := k\<rparr>) (exec_act a (pop_act (po_kst n))))"

definition node_step :: "Ev \<Rightarrow> Node \<Rightarrow> Sockets \<Rightarrow> (Node \<times> Sockets) res option" where
  "node_step ev n socks =
     (let k = po_kst n in
      case script k (currentThread k) of [] \<Rightarrow> None
      | a # as \<Rightarrow>
        (case ev of
           Ev_act m \<Rightarrow> if is_user a then None else Some (mapR (\<lambda>n'. (n', socks)) (node_act n))
         | Ev_yield m \<Rightarrow> if enables a k
             then Some (mapR (\<lambda>n'. (push_node Thread_Yield n', socks)) (node_act n)) else None
         | Ev_user m rnd buffer \<Rightarrow>
             (case a of A_user c \<Rightarrow> if length buffer = MaxWireSize
                then Some (po_user c rnd buffer (n\<lparr>po_kst := pop_act k\<rparr>) socks) else None
              | _ \<Rightarrow> None)
         | Ev_irq m i \<Rightarrow>
             if serves_irq a k \<and> i < length (pending (intr (po_hw n)))
             then Some (net_handler (pi_handler (snd (pending (intr (po_hw n)) ! i))) (take_irq i n) socks)
             else None))"

definition ev_machine :: "Ev \<Rightarrow> u32" where
  "ev_machine ev = (case ev of Ev_act m \<Rightarrow> m | Ev_yield m \<Rightarrow> m | Ev_user m rnd buffer \<Rightarrow> m | Ev_irq m i \<Rightarrow> m)"

text \<open>What the event adds to the records.\<close>

definition next_act :: "Node \<Rightarrow> Act option" where
  "next_act n = (case script (po_kst n) (currentThread (po_kst n)) of [] \<Rightarrow> None | a # as \<Rightarrow> Some a)"

definition ev_sent :: "Ev \<Rightarrow> Node \<Rightarrow> (u32 \<times> Mail) list" where
  "ev_sent ev n = (case ev of
     Ev_user m rnd buffer \<Rightarrow> if next_act n = Some (A_user c_send) \<and> \<not> Network_lost rnd (po_net n)
       then [(pk_to (f_pktHdr (cur_frame n)), packet_mail (f_pktHdr (cur_frame n)) (f_buffer (cur_frame n)))] else []
   | _ \<Rightarrow> [])"

definition ev_taken :: "Ev \<Rightarrow> Node \<Rightarrow> Node \<Rightarrow> (u32 \<times> nat \<times> Mail) list" where
  "ev_taken ev n n' = (case ev of
     Ev_user m rnd buffer \<Rightarrow> if next_act n = Some (A_user c_remove)
          \<and> \<not> List_IsEmpty (sl_list (po_boxes n ! f_box (cur_frame n)))
       then [(m, f_box (cur_frame n), f_mail (cur_frame n'))] else []
   | _ \<Rightarrow> [])"

definition net_step :: "Ev \<Rightarrow> World \<Rightarrow> World res option" where
  "net_step ev w =
     (case w_nodes w (ev_machine ev) of None \<Rightarrow> None
      | Some n \<Rightarrow> map_option (mapR (\<lambda>(n', socks).
          w\<lparr>w_nodes := (w_nodes w)(ev_machine ev \<mapsto> n'), w_socks := socks,
            w_sent := w_sent w @ ev_sent ev n, w_taken := w_taken w @ ev_taken ev n n'\<rparr>))
        (node_step ev n (w_socks w)))"

inductive net_reach :: "World \<Rightarrow> World \<Rightarrow> bool" for w0 where
  init: "net_reach w0 w0"
| step: "net_reach w0 w \<Longrightarrow> net_step ev w = Some (Inr w') \<Longrightarrow> net_reach w0 w'"

text \<open>The event sequence as a function, for executions.\<close>

fun net_run :: "Ev list \<Rightarrow> World \<Rightarrow> World option" where
  "net_run [] w = Some w"
| "net_run (ev # evs) w = (case net_step ev w of Some (Inr w') \<Rightarrow> net_run evs w' | _ \<Rightarrow> None)"

subsection \<open>The relevant actions\<close>

text \<open>
  For the post office only the semaphores \<open>messageAvailable\<close>, \<open>messageSent\<close>, the one of \<open>sendLock\<close>, and
  its own actions matter. The rest of a script is the kernel's business.
\<close>

definition rel :: "Act \<Rightarrow> bool" where
  "rel a = (case a of A_P s \<Rightarrow> s < 3 | A_V s \<Rightarrow> s < 3 | A_user c \<Rightarrow> True | _ \<Rightarrow> False)"

definition pr :: "Act list \<Rightarrow> Act list" where
  "pr as = filter rel as"

lemma rel_simps [simp]:
  "rel (A_P s) = (s < 3)" "rel (A_V s) = (s < 3)" "rel (A_user c)"
  "\<not> rel A_off" "\<not> rel A_restore" "\<not> rel A_enable" "\<not> rel (A_destroy s)" "\<not> rel (A_setHeld l)"
  "\<not> rel (A_clearHeld l)" "\<not> rel (A_wait d)" "\<not> rel (A_signal d)" "\<not> rel (A_broadcast d)" "\<not> rel A_yield"
  "\<not> rel A_finish" "\<not> rel A_next" "\<not> rel A_resume" "\<not> rel (A_ready t)"
  by (simp_all add: rel_def)

lemma pr_simps [simp]:
  "pr [] = []" "pr (a # as) = (if rel a then a # pr as else pr as)" "pr (as @ bs) = pr as @ pr bs"
  by (simp_all add: pr_def)

lemmas script_defs = Lock_Acquire_def Lock_Release_def Semaphore_P_def Semaphore_V_def Condition_Signal_def
  Condition_Wait_def Thread_Yield_def Thread_Fork_def Thread_Finish_def ThreadRoot_def

lemma pr_kernel_calls [simp]:
  "pr (Lock_Acquire s l) = (if s < 3 then [A_P s] else [])"
  "pr (Lock_Release s l) = (if s < 3 then [A_V s] else [])"
  "pr (Semaphore_P s) = (if s < 3 then [A_P s] else [])"
  "pr (Condition_Signal d) = []" "pr Thread_Yield = []" "pr (Thread_Fork t) = []" "pr Thread_Finish = []"
  "pr (Condition_Wait d s l) = (if s < 3 then [A_V s, A_P s] else [])"
  "pr (ThreadRoot as) = pr as"
  by (simp_all add: script_defs)

text \<open>An action of the kernel takes itself off its script, unless it is a \<open>P\<close> that has to wait.\<close>

lemma exec_act_pr:
  assumes "script k (currentThread k) = a # as" "exec_act a (pop_act k) = Inr k'"
  shows "pr (script k' t) = (if t = currentThread k \<and> \<not> (\<exists>s. a = A_P s \<and> sem_value (sems k s) = 0)
      then pr as else pr (script k t))"
  using assms
  by (cases a) (auto simp: exec_act_def Let_def Semaphore_P_body_def Thread_Sleep_def res_simps
      Semaphore_Destroy_body_def Condition_Signal_body_def Condition_Broadcast_body_def
      Thread_Yield_body_def Scheduler_FindNextToRun_def Scheduler_resume_simps
      split: list.splits if_splits)

lemma exec_act_value:
  assumes "script k (currentThread k) = a # as" "exec_act a (pop_act k) = Inr k'"
  shows "sem_value (sems k' s) = sem_value (sems k s)
      + (if a = A_V s then 1 else if a = A_P s \<and> sem_value (sems k s) \<noteq> 0 then -1 else 0)"
  using assms
  by (cases a) (auto simp: exec_act_def Let_def Semaphore_P_body_def Thread_Sleep_def res_simps
      Semaphore_Destroy_body_def Condition_Signal_body_def Condition_Broadcast_body_def
      Thread_Yield_body_def Scheduler_FindNextToRun_def Scheduler_resume_simps
      split: list.splits if_splits)

lemma brackets_pr: "s < 3 \<Longrightarrow> brackets s h (pr as) = brackets s h as"
  by (induction as arbitrary: h) (auto split: if_splits)

lemma brackets_send: "brackets sendSem h (pr as) = brackets sendSem h as"
  by (rule brackets_pr) (simp add: sendSem_def)

subsection \<open>Mail in packets\<close>

lemmas mail_sizes = wire_sizes sizeof_MailHeader_def MaxMailSize_def

lemma length_MailHeader_bytes [simp]: "length (MailHeader_bytes h) = 12"
  by (simp add: MailHeader_bytes_def)

lemma MailHeader_at_bytes [simp]: "MailHeader_at (MailHeader_bytes h @ bs) = h"
  by (simp add: MailHeader_at_def MailHeader_bytes_def)

lemma MailHeader_at_take: "MailHeader_at (take 12 bs) = MailHeader_at bs"
  by (simp add: MailHeader_at_def drop_take min_def)

definition box_ok :: "nat \<Rightarrow> u32 \<Rightarrow> bool" where
  "box_ok nb b \<longleftrightarrow> 0 \<le> sint b \<and> sint b < int nb"

text \<open>A mail as the post office makes them.\<close>

definition mail_ok :: "nat \<Rightarrow> Mail \<Rightarrow> bool" where
  "mail_ok nb mail \<longleftrightarrow> box_ok nb (ml_to (m_mailHdr mail)) \<and> unat (ml_length (m_mailHdr mail)) \<le> MaxMailSize
     \<and> length (m_data mail) = unat (ml_length (m_mailHdr mail))"

text \<open>A packet whose header and data fit together.\<close>

definition packet_ok :: "nat \<Rightarrow> PacketHeader \<Rightarrow> byte list \<Rightarrow> bool" where
  "packet_ok nb hdr data \<longleftrightarrow> box_ok nb (ml_to (MailHeader_at data))
     \<and> unat (ml_length (MailHeader_at data)) \<le> MaxMailSize
     \<and> unat (pk_length hdr) = sizeof_MailHeader + unat (ml_length (MailHeader_at data))
     \<and> unat (pk_length hdr) \<le> length data"

lemma packet_okD:
  assumes "packet_ok nb hdr data"
  shows "pk_length hdr \<noteq> 0" "12 \<le> unat (pk_length hdr)" "unat (pk_length hdr) \<le> 52" "12 \<le> length data"
    "mail_ok nb (packet_mail hdr data)"
  using assms by (auto simp: packet_ok_def mail_sizes mail_ok_def packet_mail_def Let_def)

text \<open>Only the bytes that the header counts matter.\<close>

lemma packet_cong:
  assumes "take (unat (pk_length hdr)) data = take (unat (pk_length hdr)) data'" "packet_ok nb hdr data"
  shows "packet_ok nb hdr data'" "packet_mail hdr data' = packet_mail hdr data"
proof -
  let ?n = "unat (pk_length hdr)"
  have n: "12 \<le> ?n" "?n = 12 + unat (ml_length (MailHeader_at data))" "?n \<le> length data"
    using assms(2) by (auto simp: packet_ok_def mail_sizes)
  have "take 12 data = take 12 (take ?n data)" "take 12 data' = take 12 (take ?n data')" using n by (simp_all add: min_def)
  then have at: "MailHeader_at data' = MailHeader_at data" using assms(1) MailHeader_at_take by metis
  have len: "?n \<le> length data'" using arg_cong[OF assms(1), of length] n(3) by simp
  have "drop 12 (take ?n data) = drop 12 (take ?n data')" using assms(1) by simp
  then have "take (unat (ml_length (MailHeader_at data))) (drop 12 data)
      = take (unat (ml_length (MailHeader_at data))) (drop 12 data')"
    using n(2) by (simp add: drop_take)
  then show "packet_ok nb hdr data'" "packet_mail hdr data' = packet_mail hdr data"
    using assms(2) at len by (auto simp: packet_ok_def packet_mail_def Let_def mail_sizes)
qed

lemma packet_overwrite:
  assumes "packet_ok nb hdr data" "MaxPacketSize \<le> length buffer"
  shows "packet_ok nb hdr (overwrite buffer 0 (take (unat (pk_length hdr)) data))"
    "packet_mail hdr (overwrite buffer 0 (take (unat (pk_length hdr)) data)) = packet_mail hdr data"
    "length (overwrite buffer 0 (take (unat (pk_length hdr)) data)) = length buffer"
proof -
  have n: "unat (pk_length hdr) \<le> length data" "unat (pk_length hdr) \<le> length buffer"
    using assms packet_okD(3)[OF assms(1)] by (auto simp: packet_ok_def mail_sizes)
  then have "take (unat (pk_length hdr)) data
      = take (unat (pk_length hdr)) (overwrite buffer 0 (take (unat (pk_length hdr)) data))"
    by (simp add: overwrite_def)
  from packet_cong[OF this assms(1)] n
  show "packet_ok nb hdr (overwrite buffer 0 (take (unat (pk_length hdr)) data))"
    "packet_mail hdr (overwrite buffer 0 (take (unat (pk_length hdr)) data)) = packet_mail hdr data"
    "length (overwrite buffer 0 (take (unat (pk_length hdr)) data)) = length buffer"
    by (auto simp: overwrite_def)
qed

text \<open>Datagrams for machine \<open>m\<close>.\<close>

definition wire_mail :: "byte list \<Rightarrow> Mail" where
  "wire_mail p = packet_mail (PacketHeader_at p) (drop sizeof_PacketHeader p)"

definition wire_ok :: "u32 \<Rightarrow> nat \<Rightarrow> byte list \<Rightarrow> bool" where
  "wire_ok m nb p \<longleftrightarrow> length p = MaxWireSize \<and> pk_to (PacketHeader_at p) = m
     \<and> packet_ok nb (PacketHeader_at p) (drop sizeof_PacketHeader p)"

lemma wire_encode:
  assumes "packet_ok nb hdr data" "length buffer = MaxWireSize"
  defines "p \<equiv> PacketHeader_bytes hdr @ take (unat (pk_length hdr)) data @ drop (12 + unat (pk_length hdr)) buffer"
  shows "wire_ok (pk_to hdr) nb p" "wire_mail p = packet_mail hdr data"
proof -
  let ?n = "unat (pk_length hdr)"
  have n: "?n \<le> length data" "?n \<le> 52" using assms packet_okD(3) by (auto simp: packet_ok_def)
  have at: "PacketHeader_at p = hdr" by (simp add: p_def)
  have "take ?n data = take ?n (drop 12 p)" using n by (simp add: p_def)
  note c = packet_cong[OF this assms(1)]
  have "length p = 64" using n assms(2) by (simp add: p_def wire_sizes)
  then show "wire_ok (pk_to hdr) nb p" "wire_mail p = packet_mail hdr data"
    using c at by (auto simp: wire_ok_def wire_mail_def wire_sizes)
qed

end
