(* ===== verification/Nachos_Delivery.thy ===== *)
theory Nachos_Delivery
  imports Nachos_Post
begin

text \<open>
  The correctness of the post office of theory \<open>Nachos_Post\<close>. The invariant \<open>node_ok\<close> says of a
  machine where its threads are (the postal worker and the clients, by the actions left in
  their scripts), how the semaphores \<open>messageAvailable\<close> and \<open>messageSent\<close> count the packets in the device and in flight,
  and what the device and the mailboxes hold. Every action of the kernel, every action of the post
  office and every interrupt keeps it, and moves mail in one direction only: socket, device, worker,
  mailbox, client (\<open>pipe\<close>). \<open>world_ok\<close> is the invariant of all machines together.
\<close>

subsection \<open>The invariant of a machine\<close>

text \<open>Where a client can be: what is left of its script.\<close>

definition at_call :: "Act list" where "at_call = [A_user c_call]"
definition at_unlock :: "Act list" where "at_unlock = A_V sendSem # at_call"
definition at_sent :: "Act list" where "at_sent = A_P messageSent # at_unlock"
definition at_send :: "Act list" where "at_send = A_user c_send # at_sent"
definition at_lock :: "Act list" where "at_lock = A_P sendSem # at_send"
definition at_get :: "Act list" where "at_get = A_user c_get # at_call"
definition at_remove :: "Act list" where "at_remove = A_user c_remove # at_get"

text \<open>And the postal worker.\<close>

definition at_deliver :: "Act list" where "at_deliver = [A_user c_deliver]"
definition at_wait :: "Act list" where "at_wait = A_P messageAvailable # at_deliver"
definition at_append :: "Act list" where "at_append = A_user c_append # at_wait"

lemmas sem_names = messageAvailable_def messageSent_def sendSem_def
lemmas code_names = c_call_def c_send_def c_deliver_def c_append_def c_remove_def c_get_def
lemmas at_defs = at_call_def at_unlock_def at_sent_def at_send_def at_lock_def at_get_def at_remove_def
  at_deliver_def at_wait_def at_append_def sem_names code_names

text \<open>Calls that make sense on a network of the machines \<open>A\<close> with \<open>nb\<close> mailboxes each.\<close>

definition call_ok :: "nat \<Rightarrow> u32 set \<Rightarrow> PoCall \<Rightarrow> bool" where
  "call_ok nb A c = (case c of
     PoSend pktHdr mailHdr data \<Rightarrow> pk_to pktHdr \<in> A \<and> box_ok nb (ml_to mailHdr)
       \<and> unat (ml_length mailHdr) \<le> MaxMailSize \<and> unat (ml_length mailHdr) \<le> length data
   | PoReceive box \<Rightarrow> 0 \<le> box \<and> box < int nb)"

definition client_ok :: "u32 \<Rightarrow> nat \<Rightarrow> u32 set \<Rightarrow> Act list \<Rightarrow> Frame \<Rightarrow> bool" where
  "client_ok m nb A as f \<longleftrightarrow> list_all (call_ok nb A) (f_calls f)
     \<and> (as \<in> {[], at_call, at_sent, at_unlock}
        \<or> as \<in> {at_lock, at_send} \<and> pk_to (f_pktHdr f) \<in> A \<and> pk_from (f_pktHdr f) = m
            \<and> packet_ok nb (f_pktHdr f) (f_buffer f)
        \<or> as = at_remove \<and> f_box f < nb
        \<or> as = at_get \<and> mail_ok nb (f_mail f))"

definition worker_ok :: "nat \<Rightarrow> Act list \<Rightarrow> Frame \<Rightarrow> bool" where
  "worker_ok nb as f \<longleftrightarrow> length (f_buffer f) = MaxPacketSize
     \<and> (as = at_wait \<or> as = at_deliver
        \<or> as = at_append \<and> mail_ok nb (f_mail f) \<and> int (f_box f) = sint (ml_to (m_mailHdr (f_mail f))))"

definition threads_ok :: "u32 \<Rightarrow> nat \<Rightarrow> nat \<Rightarrow> u32 set \<Rightarrow> Node \<Rightarrow> bool" where
  "threads_ok m nb wk A n \<longleftrightarrow> worker_ok nb (pr (script (po_kst n) wk)) (po_frames n wk)
     \<and> (\<forall>t. t \<noteq> wk \<longrightarrow> client_ok m nb A (pr (script (po_kst n) t)) (po_frames n t))"

text \<open>Interrupts that are still to come for packets sent.\<close>

definition in_flight :: "Node \<Rightarrow> nat" where
  "in_flight n = length (filter (\<lambda>e. pi_handler (snd e) = NetworkSendDone) (pending (intr (po_hw n))))"

text \<open>
  A packet buffered by the device is announced by exactly one unit of \<open>messageAvailable\<close>, unless
  the worker is about to fetch it. A packet being sent is accounted for by one interrupt or one
  unit of \<open>messageSent\<close>, for the one thread that waits for it.
\<close>

definition tokens_ok :: "nat \<Rightarrow> Node \<Rightarrow> bool" where
  "tokens_ok wk n \<longleftrightarrow> (let k = po_kst n in
     mutex_inv sendSem k
     \<and> 0 \<le> sem_value (sems k messageAvailable) \<and> 0 \<le> sem_value (sems k messageSent)
     \<and> sem_value (sems k messageAvailable) + of_bool (pr (script k wk) = at_deliver)
         = of_bool (pk_length (inHdr (po_net n)) \<noteq> 0)
     \<and> sem_value (sems k messageSent) + int (in_flight n) = of_bool (\<exists>t. pr (script k t) = at_sent))"

definition box_rep :: "nat \<Rightarrow> MailBox \<Rightarrow> Mail list \<Rightarrow> bool" where
  "box_rep nb mb xs \<longleftrightarrow> 3 \<le> sl_sem mb \<and> List_items (sl_list mb) xs \<and> list_all (mail_ok nb) xs"

definition data_ok :: "u32 \<Rightarrow> nat \<Rightarrow> Node \<Rightarrow> bool" where
  "data_ok m nb n \<longleftrightarrow> po_netAddr n = m \<and> net_ident (po_net n) = m \<and> \<not> sendBusy (po_net n)
     \<and> po_numBoxes n = int nb \<and> length (po_boxes n) = nb \<and> length (inbox (po_net n)) = MaxPacketSize
     \<and> (pk_length (inHdr (po_net n)) \<noteq> 0 \<longrightarrow> packet_ok nb (inHdr (po_net n)) (inbox (po_net n)))
     \<and> (\<forall>b<nb. \<exists>xs. box_rep nb (po_boxes n ! b) xs)"

definition node_ok :: "u32 \<Rightarrow> nat \<Rightarrow> nat \<Rightarrow> u32 set \<Rightarrow> Node \<Rightarrow> bool" where
  "node_ok m nb wk A n \<longleftrightarrow> threads_ok m nb wk A n \<and> tokens_ok wk n \<and> data_ok m nb n"

text \<open>The mail on its way to mailbox \<open>b\<close>: in the mailbox, with the worker, in the device, in the socket.\<close>

definition to_box :: "nat \<Rightarrow> Mail \<Rightarrow> bool" where
  "to_box b mail \<longleftrightarrow> sint (ml_to (m_mailHdr mail)) = int b"

definition in_hand :: "nat \<Rightarrow> Node \<Rightarrow> Mail list" where
  "in_hand wk n = (if A_user c_append \<in> set (script (po_kst n) wk) then [f_mail (po_frames n wk)] else [])"

definition in_device :: "Node \<Rightarrow> Mail list" where
  "in_device n = (if pk_length (inHdr (po_net n)) \<noteq> 0
     then [packet_mail (inHdr (po_net n)) (inbox (po_net n))] else [])"

definition pipe :: "nat \<Rightarrow> Node \<Rightarrow> byte list list \<Rightarrow> nat \<Rightarrow> Mail list \<Rightarrow> bool" where
  "pipe wk n q b ms \<longleftrightarrow> (\<exists>xs. List_items (sl_list (po_boxes n ! b)) xs
     \<and> ms = xs @ filter (to_box b) (in_hand wk n @ in_device n @ map wire_mail q))"

lemma append_pr: "A_user c_append \<in> set as \<longleftrightarrow> A_user c_append \<in> set (pr as)"
  by (simp add: pr_def)

subsection \<open>Actions of the kernel\<close>

lemma holds_pr: "brackets sendSem True (pr (script k t)) \<Longrightarrow> t \<in> holds sendSem k"
  by (simp add: holds_def brackets_pr sendSem_def)

lemma sender_unique:
  assumes "mutex_inv sendSem k" "pr (script k t) \<in> {at_send, at_sent, at_unlock}"
    "pr (script k u) \<in> {at_send, at_sent, at_unlock}"
  shows "t = u"
proof -
  have "brackets sendSem True (pr (script k t))" "brackets sendSem True (pr (script k u))"
    using assms(2,3) by (auto simp: at_defs)
  then show ?thesis using mutex_inv_unique[OF assms(1)] holds_pr by blast
qed

lemma node_act_threads:
  assumes ok: "node_ok m nb wk A n" and sc: "script (po_kst n) (currentThread (po_kst n)) = a # as"
    and nu: "\<not> is_user a" and ex: "exec_act a (pop_act (po_kst n)) = Inr k'"
  shows "threads_ok m nb wk A (n\<lparr>po_kst := k'\<rparr>)"
proof -
  let ?k = "po_kst n" let ?c = "currentThread (po_kst n)"
  note p = exec_act_pr[OF sc ex]
  have c: "pr (script ?k ?c) = (if rel a then a # pr as else pr as)" using sc by simp
  have w: "worker_ok nb (pr (script ?k wk)) (po_frames n wk)"
    and cl: "\<And>t. t \<noteq> wk \<Longrightarrow> client_ok m nb A (pr (script ?k t)) (po_frames n t)"
    using ok by (auto simp: node_ok_def threads_ok_def)
  have "worker_ok nb (pr (script k' wk)) (po_frames n wk)"
    using w c p[of wk] nu by (cases "wk = ?c") (auto simp: worker_ok_def at_defs is_user_def split: if_splits)
  moreover have "client_ok m nb A (pr (script k' t)) (po_frames n t)" if "t \<noteq> wk" for t
    using cl[OF that] c p[of t] nu by (cases "t = ?c") (auto simp: client_ok_def at_defs is_user_def split: if_splits)
  ultimately show ?thesis by (simp add: threads_ok_def)
qed

text \<open>The actions of the kernel that matter, with what is behind them.\<close>

lemma kernel_act_cases:
  assumes "node_ok m nb wk A n" "script (po_kst n) (currentThread (po_kst n)) = a # as" "\<not> is_user a" "rel a"
  obtains (wait) "currentThread (po_kst n) = wk" "a = A_P 0" "pr as = at_deliver"
    | (sent) "currentThread (po_kst n) \<noteq> wk" "a = A_P 1" "pr as = at_unlock"
    | (lock) "currentThread (po_kst n) \<noteq> wk" "a = A_P 2" "pr as = at_send"
    | (unlock) "currentThread (po_kst n) \<noteq> wk" "a = A_V 2" "pr as = at_call"
proof (cases "currentThread (po_kst n) = wk")
  case True
  with assms have "worker_ok nb (a # pr as) (po_frames n wk)" by (simp add: node_ok_def threads_ok_def split: if_splits)
  with True assms(3) show ?thesis using that(1) by (auto simp: worker_ok_def at_defs is_user_def)
next
  case False
  with assms have "client_ok m nb A (a # pr as) (po_frames n (currentThread (po_kst n)))"
    by (auto simp: node_ok_def threads_ok_def dest: spec[of _ "currentThread (po_kst n)"])
  with False assms(3) show ?thesis using that(2-) by (auto simp: client_ok_def at_defs is_user_def)
qed

lemma node_act_tokens:
  assumes ok: "node_ok m nb wk A n" and sc: "script (po_kst n) (currentThread (po_kst n)) = a # as"
    and nu: "\<not> is_user a" and ex: "exec_act a (pop_act (po_kst n)) = Inr k'"
  shows "tokens_ok wk (n\<lparr>po_kst := k'\<rparr>)"
proof -
  let ?k = "po_kst n" let ?c = "currentThread (po_kst n)"
  let ?v = "\<lambda>s. sem_value (sems ?k s)"
  note p = exec_act_pr[OF sc ex] and v = exec_act_value[OF sc ex]
  have c: "pr (script ?k ?c) = (if rel a then a # pr as else pr as)" using sc by simp
  have mtx: "mutex_inv sendSem ?k" using ok by (simp add: node_ok_def tokens_ok_def Let_def)
  have tk: "0 \<le> ?v 0" "0 \<le> ?v 1" "?v 0 + of_bool (pr (script ?k wk) = at_deliver) = of_bool (pk_length (inHdr (po_net n)) \<noteq> 0)"
      "?v 1 + int (in_flight n) = of_bool (\<exists>t. pr (script ?k t) = at_sent)"
    using ok by (auto simp: node_ok_def tokens_ok_def Let_def sem_names)
  have inf: "in_flight (n\<lparr>po_kst := k'\<rparr>) = in_flight n" by (simp add: in_flight_def)
  let ?goal = "0 \<le> sem_value (sems k' 0) \<and> 0 \<le> sem_value (sems k' 1)
    \<and> sem_value (sems k' 0) + of_bool (pr (script k' wk) = at_deliver) = of_bool (pk_length (inHdr (po_net n)) \<noteq> 0)
    \<and> sem_value (sems k' 1) + int (in_flight n) = of_bool (\<exists>t. pr (script k' t) = at_sent)"
  have same: ?goal if "sem_value (sems k' 0) = ?v 0" "sem_value (sems k' 1) = ?v 1"
      "pr (script k' wk) = at_deliver \<longleftrightarrow> pr (script ?k wk) = at_deliver"
      "\<And>t. pr (script k' t) = at_sent \<longleftrightarrow> pr (script ?k t) = at_sent"
    using tk that by simp
  consider (skip) "rel a \<Longrightarrow> \<exists>s. a = A_P s \<and> ?v s = 0" | (go) "rel a" "\<not> (\<exists>s. a = A_P s \<and> ?v s = 0)" by blast
  then have ?goal
  proof cases
    case skip
    have "pr (script k' t) = pr (script ?k t)" for t using p[of t] c skip by (auto split: if_splits)
    moreover have "sem_value (sems k' 0) = ?v 0" "sem_value (sems k' 1) = ?v 1" using v[of 0] v[of 1] skip by auto
    ultimately show ?thesis by (intro same) simp_all
  next
    case go
    from ok sc nu go(1) show ?thesis
    proof (cases rule: kernel_act_cases)
      case wait
      have w: "pr (script ?k wk) = at_wait" "pr (script k' wk) = at_deliver" using c p[of wk] wait go by (auto simp: at_defs)
      have "pr (script k' t) = at_sent \<longleftrightarrow> pr (script ?k t) = at_sent" for t
        using p[of t] w wait(1) by (cases "t = wk") (auto simp: at_defs)
      moreover have "sem_value (sems k' 0) = ?v 0 - 1" "?v 0 \<noteq> 0" "sem_value (sems k' 1) = ?v 1"
        using v[of 0] v[of 1] wait go by auto
      ultimately show ?thesis using tk w by (auto simp: at_defs of_bool_def split: if_splits)
    next
      case sent
      have s: "pr (script ?k ?c) = at_sent" "pr (script k' ?c) = at_unlock" using c p[of ?c] sent go by (auto simp: at_defs)
      have "pr (script k' t) \<noteq> at_sent" for t
        using s p[of t] sender_unique[OF mtx, of t ?c] by (cases "t = ?c") (auto simp: at_defs)
      moreover have "pr (script k' wk) = pr (script ?k wk)" using p[of wk] sent by simp
      moreover have "sem_value (sems k' 1) = ?v 1 - 1" "?v 1 \<noteq> 0" "sem_value (sems k' 0) = ?v 0"
        using v[of 0] v[of 1] sent go by auto
      moreover have "\<exists>t. pr (script ?k t) = at_sent" using s by blast
      ultimately show ?thesis using tk by auto
    next
      case lock
      have "pr (script k' wk) = pr (script ?k wk)" using p[of wk] lock(1) by simp
      moreover have "pr (script k' t) = at_sent \<longleftrightarrow> pr (script ?k t) = at_sent" for t
        using p[of t] c go lock by (cases "t = ?c") (auto simp: at_defs)
      moreover have "sem_value (sems k' 0) = ?v 0" "sem_value (sems k' 1) = ?v 1" using v[of 0] v[of 1] lock by auto
      ultimately show ?thesis by (intro same) simp_all
    next
      case unlock
      have "pr (script k' wk) = pr (script ?k wk)" using p[of wk] unlock(1) by simp
      moreover have "pr (script k' t) = at_sent \<longleftrightarrow> pr (script ?k t) = at_sent" for t
        using p[of t] c go unlock by (cases "t = ?c") (auto simp: at_defs)
      moreover have "sem_value (sems k' 0) = ?v 0" "sem_value (sems k' 1) = ?v 1" using v[of 0] v[of 1] unlock by auto
      ultimately show ?thesis by (intro same) simp_all
    qed
  qed
  moreover have "mutex_inv sendSem k'" using exec_act_mutex[OF mtx sc ex] .
  ultimately show ?thesis by (simp add: tokens_ok_def Let_def sem_names inf)
qed

lemma node_act_hand:
  assumes sc: "script (po_kst n) (currentThread (po_kst n)) = a # as"
    and nu: "\<not> is_user a" and ex: "exec_act a (pop_act (po_kst n)) = Inr k'"
  shows "in_hand wk (n\<lparr>po_kst := k'\<rparr>) = in_hand wk n"
proof -
  have "A_user c_append \<in> set (pr (script k' wk)) \<longleftrightarrow> A_user c_append \<in> set (pr (script (po_kst n) wk))"
    using exec_act_pr[OF sc ex, of wk] sc nu by (auto simp: is_user_def split: if_splits)
  then have "A_user c_append \<in> set (script k' wk) \<longleftrightarrow> A_user c_append \<in> set (script (po_kst n) wk)"
    by (simp only: append_pr[symmetric])
  then show ?thesis by (simp add: in_hand_def)
qed

lemma pipe_cong:
  assumes "po_boxes n' = po_boxes n" "in_hand wk n' = in_hand wk n" "po_net n' = po_net n"
  shows "pipe wk n' q b ms = pipe wk n q b ms"
  using assms by (simp add: pipe_def in_device_def)

lemma data_ok_cong:
  assumes "po_netAddr n' = po_netAddr n" "po_net n' = po_net n" "po_numBoxes n' = po_numBoxes n" "po_boxes n' = po_boxes n"
  shows "data_ok m nb n' = data_ok m nb n"
  using assms by (simp add: data_ok_def)

lemma node_act_ok:
  assumes "node_ok m nb wk A n" "script (po_kst n) (currentThread (po_kst n)) = a # as" "\<not> is_user a"
    "node_act n = Inr n'"
  shows "node_ok m nb wk A n'" "pipe wk n' q b ms = pipe wk n q b ms"
proof -
  from assms(2,4) obtain k' where k: "exec_act a (pop_act (po_kst n)) = Inr k'" "n' = n\<lparr>po_kst := k'\<rparr>"
    by (cases "exec_act a (pop_act (po_kst n))") (auto simp: node_act_def)
  from node_act_threads[OF assms(1-3) k(1)] node_act_tokens[OF assms(1-3) k(1)] assms(1)
  show "node_ok m nb wk A n'" by (simp add: node_ok_def k data_ok_def)
  show "pipe wk n' q b ms = pipe wk n q b ms"
    using node_act_hand[OF assms(2,3) k(1)] by (intro pipe_cong) (simp_all add: k)
qed

text \<open>A push of irrelevant actions.\<close>

lemma mutex_inv_pr:
  assumes "\<And>t. pr (script k' t) = pr (script k t)" "sem_value (sems k' sendSem) = sem_value (sems k sendSem)"
    "mutex_inv sendSem k"
  shows "mutex_inv sendSem k'"
proof (rule mutex_inv_same[OF assms(3) _ assms(2)])
  fix t h
  show "brackets sendSem h (script k' t) = brackets sendSem h (script k t)"
    using assms(1)[of t] brackets_pr[of sendSem h "script k t"] brackets_pr[of sendSem h "script k' t"]
    by (simp add: sendSem_def)
qed

lemma push_irrelevant:
  assumes "pr as = []" "node_ok m nb wk A n"
  shows "node_ok m nb wk A (push_node as n)" "pipe wk (push_node as n) q b ms = pipe wk n q b ms"
proof -
  let ?k = "push_acts as (po_kst n)"
  have p: "pr (script ?k t) = pr (script (po_kst n) t)" for t using assms by simp
  have eqs: "threads_ok m nb wk A (push_node as n) = threads_ok m nb wk A n" "data_ok m nb (push_node as n) = data_ok m nb n"
    using p by (auto simp: threads_ok_def push_node_def data_ok_def simp del: push_acts_simps)
  have "mutex_inv sendSem (po_kst n)" using assms by (simp add: node_ok_def tokens_ok_def Let_def)
  from mutex_inv_pr[OF p _ this] have "mutex_inv sendSem ?k" by simp
  then have "tokens_ok wk (push_node as n)"
    using assms(2) p by (simp add: node_ok_def tokens_ok_def push_node_def in_flight_def Let_def del: push_acts_simps(10))
  with eqs assms(2) show "node_ok m nb wk A (push_node as n)" by (simp add: node_ok_def)
  have "in_hand wk (push_node as n) = in_hand wk n"
    using p[of wk] append_pr[of "script ?k wk"] append_pr[of "script (po_kst n) wk"]
    by (simp add: in_hand_def push_node_def del: push_acts_simps)
  then show "pipe wk (push_node as n) q b ms = pipe wk n q b ms"
    by (intro pipe_cong) (simp_all add: push_node_def)
qed

subsection \<open>Actions of the post office\<close>

text \<open>The state when action \<open>c\<close> runs: it has been taken off the script of the current thread.\<close>

definition popped :: "Node \<Rightarrow> Node" where
  "popped n = n\<lparr>po_kst := pop_act (po_kst n)\<rparr>"

lemma user_step_ok:
  assumes ok: "node_ok m nb wk A n" and sc: "script (po_kst n) t0 = A_user c # as"
    and k': "script (po_kst n') = (script (po_kst n))(t0 := bs @ as)" "sems (po_kst n') = sems (po_kst n)"
    and fr: "\<And>t. t \<noteq> t0 \<Longrightarrow> po_frames n' t = po_frames n t"
    and th: "if t0 = wk then worker_ok nb (pr bs @ pr as) (po_frames n' wk) else client_ok m nb A (pr bs @ pr as) (po_frames n' t0)"
    and br: "\<And>h. brackets sendSem h (pr bs @ pr as) = brackets sendSem h (pr as)"
    and tok: "sem_value (sems (po_kst n) 0) + of_bool (pr (script (po_kst n') wk) = at_deliver) = of_bool (pk_length (inHdr (po_net n')) \<noteq> 0)"
      "sem_value (sems (po_kst n) 1) + int (in_flight n') = of_bool (\<exists>t. pr (script (po_kst n') t) = at_sent)"
    and data: "data_ok m nb n'"
  shows "node_ok m nb wk A n'"
proof -
  have "threads_ok m nb wk A n'" using ok th fr by (auto simp: node_ok_def threads_ok_def k' split: if_splits)
  moreover have "brackets sendSem h (bs @ as) = brackets sendSem h as" for h
    using br[of h] by (simp only: pr_simps(3)[symmetric] brackets_send)
  then have b: "brackets sendSem h (script (po_kst n') t) = brackets sendSem h (script (po_kst n) t)" for t h
    using sc by (simp add: k')
  have "mutex_inv sendSem (po_kst n)" using ok by (simp add: node_ok_def tokens_ok_def Let_def)
  then have "mutex_inv sendSem (po_kst n')" using b by (rule mutex_inv_same) (simp add: k')
  then have "tokens_ok wk n'" using ok tok by (simp add: node_ok_def tokens_ok_def Let_def k' sem_names)
  ultimately show ?thesis using data by (simp add: node_ok_def)
qed

text \<open>Which thread runs which action.\<close>

lemma user_act_cases:
  assumes "node_ok m nb wk A n" "script (po_kst n) (currentThread (po_kst n)) = A_user c # as"
  obtains (call) "currentThread (po_kst n) \<noteq> wk" "c = c_call" "pr as = []"
    | (send) "currentThread (po_kst n) \<noteq> wk" "c = c_send" "pr as = at_sent"
        "pk_to (f_pktHdr (cur_frame n)) \<in> A" "pk_from (f_pktHdr (cur_frame n)) = m"
        "packet_ok nb (f_pktHdr (cur_frame n)) (f_buffer (cur_frame n))"
    | (remove) "currentThread (po_kst n) \<noteq> wk" "c = c_remove" "pr as = at_get" "f_box (cur_frame n) < nb"
    | (get) "currentThread (po_kst n) \<noteq> wk" "c = c_get" "pr as = at_call" "mail_ok nb (f_mail (cur_frame n))"
    | (deliver) "currentThread (po_kst n) = wk" "c = c_deliver" "pr as = []"
    | (append) "currentThread (po_kst n) = wk" "c = c_append" "pr as = at_wait"
        "mail_ok nb (f_mail (cur_frame n))" "int (f_box (cur_frame n)) = sint (ml_to (m_mailHdr (f_mail (cur_frame n))))"
proof (cases "currentThread (po_kst n) = wk")
  case True
  with assms have "worker_ok nb (A_user c # pr as) (po_frames n wk)" by (simp add: node_ok_def threads_ok_def)
  with True show ?thesis using that(5,6) by (auto simp: worker_ok_def at_deliver_def at_wait_def at_append_def cur_frame_def)
next
  case False
  with assms have "client_ok m nb A (A_user c # pr as) (cur_frame n)"
    by (auto simp: node_ok_def threads_ok_def cur_frame_def dest: spec[of _ "currentThread (po_kst n)"])
  with False show ?thesis using that(1-4)
    by (auto simp: client_ok_def at_call_def at_unlock_def at_sent_def at_send_def at_lock_def at_get_def at_remove_def)
qed

lemma node_okD:
  assumes "node_ok m nb wk A n"
  shows "worker_ok nb (pr (script (po_kst n) wk)) (po_frames n wk)" "data_ok m nb n" "mutex_inv sendSem (po_kst n)"
    "sem_value (sems (po_kst n) 0) + of_bool (pr (script (po_kst n) wk) = at_deliver) = of_bool (pk_length (inHdr (po_net n)) \<noteq> 0)"
    "sem_value (sems (po_kst n) 1) + int (in_flight n) = of_bool (\<exists>t. pr (script (po_kst n) t) = at_sent)"
    "0 \<le> sem_value (sems (po_kst n) 0)" "0 \<le> sem_value (sems (po_kst n) 1)"
    "t \<noteq> wk \<Longrightarrow> client_ok m nb A (pr (script (po_kst n) t)) (po_frames n t)"
  using assms by (auto simp: node_ok_def threads_ok_def tokens_ok_def Let_def sem_names)

lemma ex_sent_upd:
  assumes "script k' = (script k)(t0 := s)" "pr s \<noteq> at_sent" "pr (script k t0) \<noteq> at_sent"
  shows "(\<exists>t. pr (script k' t) = at_sent) \<longleftrightarrow> (\<exists>t. pr (script k t) = at_sent)"
  using assms by (metis fun_upd_apply)

text \<open>For an action of a client that does not send, the token equations stay as they are.\<close>

lemma client_step_ok:
  assumes ok: "node_ok m nb wk A n" and sc: "script (po_kst n) t0 = A_user c # as" "t0 \<noteq> wk"
    and k': "script (po_kst n') = (script (po_kst n))(t0 := bs @ as)" "sems (po_kst n') = sems (po_kst n)"
    and fr: "\<And>t. t \<noteq> t0 \<Longrightarrow> po_frames n' t = po_frames n t"
    and th: "client_ok m nb A (pr bs @ pr as) (po_frames n' t0)"
    and br: "\<And>h. brackets sendSem h (pr bs @ pr as) = brackets sendSem h (pr as)"
    and ns: "pr bs @ pr as \<noteq> at_sent"
    and eqs: "po_net n' = po_net n" "po_hw n' = po_hw n" "data_ok m nb n'"
  shows "node_ok m nb wk A n'"
proof (rule user_step_ok[OF ok sc(1) k' fr _ br _ _ eqs(3)])
  have "pr (script (po_kst n) t0) \<noteq> at_sent" using sc by (simp add: at_sent_def)
  then have "(\<exists>t. pr (script (po_kst n') t) = at_sent) \<longleftrightarrow> (\<exists>t. pr (script (po_kst n) t) = at_sent)"
    using ns by (intro ex_sent_upd[OF k'(1)]) simp_all
  then show "sem_value (sems (po_kst n) 1) + int (in_flight n') = of_bool (\<exists>t. pr (script (po_kst n') t) = at_sent)"
    using node_okD(5)[OF ok] by (simp add: in_flight_def eqs(2))
  show "sem_value (sems (po_kst n) 0) + of_bool (pr (script (po_kst n') wk) = at_deliver) = of_bool (pk_length (inHdr (po_net n')) \<noteq> 0)"
    using node_okD(4)[OF ok] sc(2) by (simp add: k' eqs(1))
qed (use sc(2) th in auto)

lemma worker_step_ok:
  assumes ok: "node_ok m nb wk A n" and sc: "script (po_kst n) wk = A_user c # as"
    and k': "script (po_kst n') = (script (po_kst n))(wk := bs @ as)" "sems (po_kst n') = sems (po_kst n)"
    and fr: "\<And>t. t \<noteq> wk \<Longrightarrow> po_frames n' t = po_frames n t"
    and th: "worker_ok nb (pr bs @ pr as) (po_frames n' wk)"
    and br: "\<And>h. brackets sendSem h (pr bs @ pr as) = brackets sendSem h (pr as)"
    and tok: "sem_value (sems (po_kst n) 0) + of_bool (pr bs @ pr as = at_deliver) = of_bool (pk_length (inHdr (po_net n')) \<noteq> 0)"
    and eqs: "po_hw n' = po_hw n" "data_ok m nb n'"
  shows "node_ok m nb wk A n'"
proof (rule user_step_ok[OF ok sc k' fr _ br _ _ eqs(2)])
  have "pr (bs @ as) \<noteq> at_sent" using th by (auto simp: worker_ok_def at_defs)
  moreover have "pr (script (po_kst n) wk) \<noteq> at_sent" using sc by (simp add: at_sent_def)
  ultimately have "(\<exists>t. pr (script (po_kst n') t) = at_sent) \<longleftrightarrow> (\<exists>t. pr (script (po_kst n) t) = at_sent)"
    by (rule ex_sent_upd[OF k'(1)])
  then show "sem_value (sems (po_kst n) 1) + int (in_flight n') = of_bool (\<exists>t. pr (script (po_kst n') t) = at_sent)"
    using node_okD(5)[OF ok] by (simp add: in_flight_def eqs(1))
  show "sem_value (sems (po_kst n) 0) + of_bool (pr (script (po_kst n') wk) = at_deliver) = of_bool (pk_length (inHdr (po_net n')) \<noteq> 0)"
    using tok by (simp add: k')
qed (use th in auto)

lemma in_hand_client:
  "script (po_kst n') wk = script (po_kst n) wk \<Longrightarrow> po_frames n' wk = po_frames n wk \<Longrightarrow> in_hand wk n' = in_hand wk n"
  by (simp add: in_hand_def)

lemma pr_post_office [simp]:
  "pr PostOffice_Send @ [A_user c_call] = at_lock" "pr PostalDelivery = at_wait"
  by (simp_all add: PostOffice_Send_def PostalDelivery_def at_defs)

lemma pr_mailbox:
  assumes "3 \<le> sl_sem mb"
  shows "pr (PostOffice_Receive mb) = [A_user c_remove, A_user c_get]" "pr (MailBox_Put mb) = [A_user c_append]"
    "pr (SynchList_Wait mb c) = [A_user c]"
  using assms by (simp_all add: PostOffice_Receive_def MailBox_Put_def SynchList_Remove_def SynchList_Append_def SynchList_Wait_def)

lemma unat_plus_12:
  assumes "unat (x :: u32) \<le> 40"
  shows "unat (x + 12) = 12 + unat x"
  using assms unat_add_lem[of x 12] by simp

text \<open>The packet that \<open>Send\<close> composes.\<close>

lemma send_packet_ok:
  assumes "call_ok nb A (PoSend pktHdr mailHdr data)"
  shows "packet_ok nb (pktHdr\<lparr>pk_from := m, pk_length := ml_length mailHdr + 12\<rparr>)
    (MailHeader_bytes mailHdr @ take (unat (ml_length mailHdr)) data)"
  using assms unat_plus_12[of "ml_length mailHdr"] by (simp add: call_ok_def packet_ok_def mail_sizes)

lemmas node_upds = popped_def push_node_def upd_frame_def cur_frame_def Let_def

lemma data_ok_box:
  assumes "data_ok m nb n" "b < nb"
  obtains xs where "3 \<le> sl_sem (po_boxes n ! b)" "List_items (sl_list (po_boxes n ! b)) xs" "list_all (mail_ok nb) xs"
    "ixR (po_boxes n) (int b) = Inr (po_boxes n ! b)"
  using assms by (auto simp: data_ok_def box_rep_def ixR_def)

text \<open>A client that has made a call, or has none left.\<close>

lemma client_after_call:
  assumes ok: "node_ok m nb wk A n" and sc: "script (po_kst n) (currentThread (po_kst n)) = A_user c # as"
    and cur: "currentThread (po_kst n) \<noteq> wk" "pr as = []"
    and n': "n' = n\<lparr>po_kst := push_acts bs (pop_act (po_kst n)), po_frames := (po_frames n)(currentThread (po_kst n) := g)\<rparr>"
    and g: "client_ok m nb A (pr bs) g" "pr bs \<in> {[], at_lock, at_remove}"
  shows "node_ok m nb wk A n' \<and> (\<forall>q b ms. pipe wk n' q b ms = pipe wk n q b ms)"
proof -
  have "node_ok m nb wk A n'"
    by (rule client_step_ok[OF ok sc cur(1), of _ bs])
      (use g sc cur node_okD(2)[OF ok] data_ok_cong[of n' n] in \<open>auto simp: at_defs n'\<close>)
  moreover have "pipe wk n' q b ms = pipe wk n q b ms" for q b ms
    by (intro pipe_cong in_hand_client) (use cur in \<open>auto simp: n'\<close>)
  ultimately show ?thesis by blast
qed

lemma client_call_ok:
  assumes ok: "node_ok m nb wk A n" and sc: "script (po_kst n) (currentThread (po_kst n)) = A_user c_call # as"
    and cur: "currentThread (po_kst n) \<noteq> wk" "pr as = []"
  shows "\<exists>n'. client_call (popped n) = Inr n' \<and> node_ok m nb wk A n' \<and> (\<forall>q b ms. pipe wk n' q b ms = pipe wk n q b ms)"
proof (cases "f_calls (cur_frame n)")
  note fin = client_after_call[OF ok sc cur refl]
  case Nil
  have eq: "popped n = n\<lparr>po_kst := push_acts [] (pop_act (po_kst n)), po_frames := (po_frames n)(currentThread (po_kst n) := cur_frame n)\<rparr>"
    by (simp add: popped_def push_acts_def cur_frame_def)
  show ?thesis unfolding eq using Nil fin[of "[]" "cur_frame n"]
    by (simp add: client_call_def cur_frame_def client_ok_def push_acts_def)
next
  note fin = client_after_call[OF ok sc cur refl]
  case (Cons x xs)
  then have x: "call_ok nb A x" "list_all (call_ok nb A) xs"
    using node_okD(8)[OF ok cur(1)] by (auto simp: client_ok_def cur_frame_def)
  note data = node_okD(2)[OF ok]
  have nb: "po_numBoxes n = int nb" "po_netAddr n = m" using data by (auto simp: data_ok_def)
  show ?thesis
  proof (cases x)
    case (PoSend pktHdr mailHdr data)
    let ?g = "(cur_frame n)\<lparr>f_calls := xs, f_pktHdr := pktHdr\<lparr>pk_from := m, pk_length := ml_length mailHdr + 12\<rparr>,
      f_buffer := MailHeader_bytes mailHdr @ take (unat (ml_length mailHdr)) data\<rparr>"
    have "client_ok m nb A at_lock ?g"
      using x send_packet_ok[of nb A pktHdr mailHdr data m] PoSend by (simp add: client_ok_def call_ok_def)
    moreover have "client_call (popped n) = Inr (n\<lparr>po_kst := push_acts (PostOffice_Send @ [A_user c_call]) (pop_act (po_kst n)),
        po_frames := (po_frames n)(currentThread (po_kst n) := ?g)\<rparr>)"
      using Cons PoSend x(1) nb
      by (simp add: client_call_def PostOffice_Send_begin_def node_upds call_ok_def box_ok_def mail_sizes push_acts_def)
    ultimately show ?thesis using fin[of "PostOffice_Send @ [A_user c_call]" ?g] by simp
  next
    case (PoReceive box)
    then have box: "0 \<le> box" "nat box < nb" "box < int nb" using x(1) by (auto simp: call_ok_def)
    let ?mb = "po_boxes n ! nat box"
    from data_ok_box[OF data box(2)] have mb: "3 \<le> sl_sem ?mb" "ixR (po_boxes n) box = Inr ?mb" using box by auto
    have "pr (PostOffice_Receive ?mb @ [A_user c_call]) = at_remove"
      using pr_mailbox(1)[OF mb(1)] by (simp add: at_remove_def at_get_def at_call_def)
    moreover have "client_call (popped n) = Inr (n\<lparr>po_kst := push_acts (PostOffice_Receive ?mb @ [A_user c_call]) (pop_act (po_kst n)),
        po_frames := (po_frames n)(currentThread (po_kst n) := (cur_frame n)\<lparr>f_calls := xs, f_box := nat box\<rparr>)\<rparr>)"
      using Cons PoReceive box mb(2) nb
      by (simp add: client_call_def PostOffice_Receive_begin_def node_upds push_acts_def)
    ultimately show ?thesis using x box
        fin[of "PostOffice_Receive ?mb @ [A_user c_call]" "(cur_frame n)\<lparr>f_calls := xs, f_box := nat box\<rparr>"]
      by (simp add: client_ok_def)
  qed
qed

text \<open>\<open>network->Send\<close>: the packet goes on the wire or is lost; no other one is on its way.\<close>

lemma filter_ins_key_length: "length (filter P (ins_key w x xs)) = length (filter P xs) + (if P (w, x) then 1 else 0)"
proof -
  have "length (filter P xs) = length (filter P (takeWhile (\<lambda>e. fst e \<le> w) xs @ dropWhile (\<lambda>e. fst e \<le> w) xs))" by simp
  then show ?thesis by (simp add: ins_key_def del: takeWhile_dropWhile_id)
qed

lemma network_send_ok:
  assumes ok: "node_ok m nb wk A n" and sc: "script (po_kst n) (currentThread (po_kst n)) = A_user c_send # as"
    and cur: "currentThread (po_kst n) \<noteq> wk" "pr as = at_sent" "pk_from (f_pktHdr (cur_frame n)) = m"
      "packet_ok nb (f_pktHdr (cur_frame n)) (f_buffer (cur_frame n))"
    and dest: "socks (pk_to (f_pktHdr (cur_frame n))) = Some q" and buf: "length buffer = MaxWireSize"
  shows "in_flight n = 0"
    "\<exists>n' p. network_send rnd buffer (popped n) socks = Inr (n',
        if Network_lost rnd (po_net n) then socks else socks(pk_to (f_pktHdr (cur_frame n)) \<mapsto> q @ [p]))
      \<and> wire_ok (pk_to (f_pktHdr (cur_frame n))) nb p \<and> wire_mail p = packet_mail (f_pktHdr (cur_frame n)) (f_buffer (cur_frame n))
      \<and> node_ok m nb wk A n' \<and> (\<forall>q b ms. pipe wk n' q b ms = pipe wk n q b ms)"
proof -
  let ?c = "currentThread (po_kst n)" let ?h = "f_pktHdr (cur_frame n)" let ?d = "f_buffer (cur_frame n)"
  let ?p = "PacketHeader_bytes ?h @ take (unat (pk_length ?h)) ?d @ drop (12 + unat (pk_length ?h)) buffer"
  have pc: "pr (script (po_kst n) ?c) = at_send" using sc cur by (simp add: at_send_def)
  have "pr (script (po_kst n) t) \<noteq> at_sent" for t
    using sender_unique[OF node_okD(3)[OF ok], of t ?c] pc by (cases "t = ?c") (auto simp: at_defs)
  then have fl: "sem_value (sems (po_kst n) 1) = 0" "in_flight n = 0" using node_okD(5,7)[OF ok] by auto
  then show "in_flight n = 0" by simp
  note data = node_okD(2)[OF ok]
  from Network_Send_ok[of "po_net n" ?h socks q ?d buffer NetworkSendDone "po_hw n" rnd] obtain hw where
    hw: "Interrupt_Schedule NetworkSendDone NetworkTime NetworkSendInt (po_hw n) = Inr hw"
      "Network_Send NetworkSendDone rnd buffer ?h ?d (po_net n) socks (po_hw n) = Inr (po_net n,
        if Network_lost rnd (po_net n) then socks else socks(pk_to ?h \<mapsto> q @ [?p]), hw)"
    using data cur dest buf packet_okD(1,3)[OF cur(4)]
    by (auto simp: data_ok_def mail_sizes packet_ok_def word_gt_0)
  let ?n' = "(popped n)\<lparr>po_net := po_net n, po_hw := hw\<rparr>"
  have run: "network_send rnd buffer (popped n) socks
      = Inr (?n', if Network_lost rnd (po_net n) then socks else socks(pk_to ?h \<mapsto> q @ [?p]))"
    using hw(2) by (simp add: network_send_def popped_def cur_frame_def)
  have "in_flight ?n' = 1" using fl(2) hw(1)
    by (auto simp: in_flight_def Interrupt_Schedule_def NetworkTime_def Let_def upd_intr_def filter_ins_key_length)
  moreover have "\<exists>t. pr (script (po_kst ?n') t) = at_sent" using sc cur by (intro exI[of _ ?c]) (simp add: popped_def)
  moreover have "client_ok m nb A at_sent (po_frames n ?c)"
    using node_okD(8)[OF ok cur(1)] by (simp add: client_ok_def)
  ultimately have "node_ok m nb wk A ?n'" using fl(1) node_okD(4)[OF ok] cur sc data
    by (intro user_step_ok[OF ok sc, of ?n' "[]"]) (auto simp: popped_def data_ok_def)
  moreover have "pipe wk ?n' q b ms = pipe wk n q b ms" for q b ms
    by (intro pipe_cong in_hand_client) (use cur in \<open>auto simp: popped_def\<close>)
  ultimately show "\<exists>n' p. network_send rnd buffer (popped n) socks = Inr (n',
        if Network_lost rnd (po_net n) then socks else socks(pk_to ?h \<mapsto> q @ [p]))
      \<and> wire_ok (pk_to ?h) nb p \<and> wire_mail p = packet_mail ?h ?d
      \<and> node_ok m nb wk A n' \<and> (\<forall>q b ms. pipe wk n' q b ms = pipe wk n q b ms)"
    using run wire_encode[OF cur(4) buf] by blast
qed

text \<open>Changing the list of one mailbox.\<close>

lemma data_ok_set_list:
  assumes "data_ok m nb n" "b < nb" "List_items l xs" "list_all (mail_ok nb) xs"
    "po_boxes n' = (po_boxes n)[b := (po_boxes n ! b)\<lparr>sl_list := l\<rparr>]"
    "po_netAddr n' = po_netAddr n" "po_net n' = po_net n" "po_numBoxes n' = po_numBoxes n"
  shows "data_ok m nb n'"
  using assms by (auto simp: data_ok_def box_rep_def nth_list_update)

lemma pipe_remove:
  assumes rm: "List_Remove (sl_list (po_boxes n ! b0)) = Inr (Some mail, l)" "\<not> List_IsEmpty (sl_list (po_boxes n ! b0))"
    and n': "po_boxes n' = (po_boxes n)[b0 := (po_boxes n ! b0)\<lparr>sl_list := l\<rparr>]" "b0 < length (po_boxes n)"
      "in_hand wk n' = in_hand wk n" "po_net n' = po_net n"
    and p: "pipe wk n q b ms"
  shows "\<exists>ms'. pipe wk n' q b ms' \<and> ms = (if b = b0 then [mail] else []) @ ms'"
proof (cases "b = b0")
  case True
  from p obtain zs where zs: "List_items (sl_list (po_boxes n ! b)) zs"
    "ms = zs @ filter (to_box b) (in_hand wk n @ in_device n @ map wire_mail q)" by (auto simp: pipe_def)
  with nachos_list.rem_nonempty[OF zs(1)] rm True obtain ws where c: "zs = mail # ws" "List_items l ws"
    by (metis Inr_inject Pair_inject option.inject)
  then have "pipe wk n' q b (tl ms)" "ms = mail # tl ms"
    using n' zs(2) True c by (auto simp: pipe_def in_device_def)
  then show ?thesis using True by auto
next
  case False
  moreover have "in_device n' = in_device n" using n' by (simp add: in_device_def)
  ultimately have "pipe wk n' q b ms" using p n' by (simp add: pipe_def)
  then show ?thesis using False by simp
qed

lemma remove_mail_ok:
  assumes ok: "node_ok m nb wk A n" and sc: "script (po_kst n) (currentThread (po_kst n)) = A_user c_remove # as"
    and cur: "currentThread (po_kst n) \<noteq> wk" "pr as = at_get" "f_box (cur_frame n) < nb"
  shows "\<exists>n'. remove_mail (popped n) = Inr n' \<and> node_ok m nb wk A n' \<and> (\<forall>q b ms. pipe wk n q b ms \<longrightarrow>
    (\<exists>ms'. pipe wk n' q b ms' \<and> ms = (if b = f_box (cur_frame n) \<and> \<not> List_IsEmpty (sl_list (po_boxes n ! b))
       then [f_mail (cur_frame n')] else []) @ ms'))"
proof -
  let ?c = "currentThread (po_kst n)" let ?b = "f_box (cur_frame n)" let ?mb = "po_boxes n ! ?b"
  note data = node_okD(2)[OF ok]
  from data_ok_box[OF data cur(3)] obtain xs where
    mb: "3 \<le> sl_sem ?mb" "List_items (sl_list ?mb) xs" "list_all (mail_ok nb) xs" "ixR (po_boxes n) (int ?b) = Inr ?mb" .
  have cl: "client_ok m nb A at_remove (po_frames n ?c)"
    using node_okD(8)[OF ok cur(1)] cur(3) by (simp add: client_ok_def cur_frame_def)
  show ?thesis
  proof (cases xs)
    case Nil
    then have e: "List_IsEmpty (sl_list ?mb)" using nachos_list.ise_ok[OF mb(2)] by simp
    let ?n' = "push_node (SynchList_Wait ?mb c_remove) (popped n)"
    have "node_ok m nb wk A ?n'"
      by (rule client_step_ok[OF ok sc cur(1), of _ "SynchList_Wait ?mb c_remove"])
        (use cur cl sc data data_ok_cong[of ?n' n] pr_mailbox(3)[OF mb(1)] in
          \<open>auto simp: popped_def push_node_def at_remove_def[symmetric]\<close>, auto simp: at_defs)
    moreover have "pipe wk ?n' q b ms = pipe wk n q b ms" for q b ms
      by (intro pipe_cong in_hand_client) (use cur in \<open>auto simp: popped_def push_node_def\<close>)
    moreover have "remove_mail (popped n) = Inr ?n'"
      using mb(4) e by (simp add: remove_mail_def cur_frame_def popped_def)
    ultimately show ?thesis using e by auto
  next
    case (Cons mail ys)
    have e: "\<not> List_IsEmpty (sl_list ?mb)" using nachos_list.ise_ok[OF mb(2)] Cons by simp
    from nachos_list.rem_Cons[OF mb(2)[unfolded Cons]] obtain l where l: "List_Remove (sl_list ?mb) = Inr (Some mail, l)" "List_items l ys"
      by blast
    let ?n' = "upd_frame (\<lambda>f. f\<lparr>f_mail := mail\<rparr>) ((popped n)\<lparr>po_boxes := (po_boxes n)[?b := ?mb\<lparr>sl_list := l\<rparr>]\<rparr>)"
    have run: "remove_mail (popped n) = Inr ?n'"
      using mb(4) e l(1) by (simp add: remove_mail_def cur_frame_def popped_def Let_def)
    have "client_ok m nb A at_get ((po_frames n ?c)\<lparr>f_mail := mail\<rparr>)" using cl mb(3) Cons by (simp add: client_ok_def)
    moreover have "data_ok m nb ?n'"
      by (rule data_ok_set_list[OF data cur(3) l(2)]) (use mb(3) Cons in \<open>auto simp: node_upds\<close>)
    ultimately have "node_ok m nb wk A ?n'" using sc cur
      by (intro client_step_ok[OF ok sc cur(1), of ?n' "[]"]) (auto simp: node_upds at_defs)
    moreover have "\<exists>ms'. pipe wk ?n' q b ms' \<and> ms = (if b = ?b then [mail] else []) @ ms'" if "pipe wk n q b ms" for q b ms
      by (rule pipe_remove[OF l(1) e _ _ _ _ that]) (use cur data in \<open>auto simp: node_upds in_hand_def data_ok_def\<close>)
    moreover have "f_mail (cur_frame ?n') = mail" by (simp add: node_upds)
    moreover have "(b = ?b \<and> \<not> List_IsEmpty (sl_list (po_boxes n ! b))) = (b = ?b)" for b using e by auto
    ultimately show ?thesis using run by (intro exI[of _ ?n']) presburger
  qed
qed

lemma get_mail_ok:
  assumes ok: "node_ok m nb wk A n" and sc: "script (po_kst n) (currentThread (po_kst n)) = A_user c_get # as"
    and cur: "currentThread (po_kst n) \<noteq> wk" "pr as = at_call" "mail_ok nb (f_mail (cur_frame n))"
  shows "\<exists>n'. get_mail (popped n) = Inr n' \<and> node_ok m nb wk A n' \<and> (\<forall>q b ms. pipe wk n' q b ms = pipe wk n q b ms)
    \<and> f_received (cur_frame n') = f_received (cur_frame n) @ [f_mail (cur_frame n)]"
proof -
  let ?n' = "upd_frame (\<lambda>f. f\<lparr>f_received := f_received f @ [f_mail (cur_frame n)]\<rparr>) (popped n)"
  have "client_ok m nb A at_call (po_frames n (currentThread (po_kst n)))"
    using node_okD(8)[OF ok cur(1)] by (simp add: client_ok_def)
  then have "node_ok m nb wk A ?n'" using sc cur node_okD(2)[OF ok]
    by (intro client_step_ok[OF ok sc cur(1), of ?n' "[]"])
      (auto simp: node_upds client_ok_def data_ok_def, auto simp: at_defs)
  moreover have "pipe wk ?n' q b ms = pipe wk n q b ms" for q b ms
    by (intro pipe_cong in_hand_client) (use cur in \<open>auto simp: node_upds\<close>)
  moreover have "get_mail (popped n) = Inr ?n'"
    using cur(3) by (simp add: get_mail_def mail_ok_def node_upds)
  ultimately show ?thesis by (auto simp: node_upds)
qed

lemma pipe_append:
  assumes ap: "List_Append (sl_list (po_boxes n ! b0)) mail = Inr l"
    and n': "po_boxes n' = (po_boxes n)[b0 := (po_boxes n ! b0)\<lparr>sl_list := l\<rparr>]" "b0 < length (po_boxes n)"
      "in_hand wk n = [mail]" "in_hand wk n' = []" "po_net n' = po_net n" "sint (ml_to (m_mailHdr mail)) = int b0"
    and p: "pipe wk n q b ms"
  shows "pipe wk n' q b ms"
proof (cases "b = b0")
  case True
  from p obtain zs where zs: "List_items (sl_list (po_boxes n ! b)) zs"
    "ms = zs @ filter (to_box b) ([mail] @ in_device n @ map wire_mail q)" by (auto simp: pipe_def n')
  with nachos_list.app_rep[OF zs(1)] ap True have "List_items l (zs @ [mail])" by auto
  then show ?thesis using zs(2) True n' by (auto simp: pipe_def in_device_def to_box_def intro!: exI[of _ "zs @ [mail]"])
next
  case False
  then show ?thesis using p n' by (auto simp: pipe_def in_device_def to_box_def)
qed

lemma append_mail_ok:
  assumes ok: "node_ok m nb wk A n" and sc: "script (po_kst n) (currentThread (po_kst n)) = A_user c_append # as"
    and cur: "currentThread (po_kst n) = wk" "pr as = at_wait" "mail_ok nb (f_mail (cur_frame n))"
      "int (f_box (cur_frame n)) = sint (ml_to (m_mailHdr (f_mail (cur_frame n))))"
  shows "\<exists>n'. append_mail (popped n) = Inr n' \<and> node_ok m nb wk A n' \<and> (\<forall>q b ms. pipe wk n q b ms \<longrightarrow> pipe wk n' q b ms)"
proof -
  let ?f = "cur_frame n" let ?b = "f_box ?f" let ?mb = "po_boxes n ! ?b"
  note data = node_okD(2)[OF ok]
  have b: "?b < nb" using cur(3,4) by (simp add: mail_ok_def box_ok_def)
  from data_ok_box[OF data b] obtain xs where
    mb: "3 \<le> sl_sem ?mb" "List_items (sl_list ?mb) xs" "list_all (mail_ok nb) xs" "ixR (po_boxes n) (int ?b) = Inr ?mb" .
  from nachos_list.app_ok[OF mb(2), of "f_mail ?f"] obtain l where
    l: "List_Append (sl_list ?mb) (f_mail ?f) = Inr l" "List_items l (xs @ [f_mail ?f])" by blast
  let ?n' = "(popped n)\<lparr>po_boxes := (po_boxes n)[?b := ?mb\<lparr>sl_list := l\<rparr>]\<rparr>"
  have run: "append_mail (popped n) = Inr ?n'"
    using mb(4) l(1) by (simp add: append_mail_def popped_def cur_frame_def Let_def)
  have "data_ok m nb ?n'" by (rule data_ok_set_list[OF data b l(2)]) (use mb(3) cur(3) in \<open>auto simp: popped_def\<close>)
  moreover have "worker_ok nb at_wait (po_frames n wk)"
    using node_okD(1)[OF ok] by (simp add: worker_ok_def)
  moreover have "pr (script (po_kst n) wk) = at_append" using sc cur by (simp add: at_append_def)
  then have "sem_value (sems (po_kst n) 0) = of_bool (pk_length (inHdr (po_net n)) \<noteq> 0)"
    using node_okD(4)[OF ok] by (simp add: at_defs)
  ultimately have "node_ok m nb wk A ?n'" using sc cur
    by (intro worker_step_ok[OF ok, of c_append as ?n' "[]"]) (auto simp: popped_def at_wait_def at_deliver_def)
  moreover have "A_user c_append \<notin> set as" using cur(2) append_pr[of as] by (simp add: at_defs)
  then have "in_hand wk n = [f_mail ?f]" "in_hand wk ?n' = []"
    using sc cur(1) by (auto simp: in_hand_def popped_def cur_frame_def)
  then have "pipe wk n q b ms \<longrightarrow> pipe wk ?n' q b ms" for q b ms
    using pipe_append[OF l(1), of ?n' wk] b cur(4) data by (auto simp: popped_def data_ok_def)
  ultimately show ?thesis using run by blast
qed

lemma deliver_ok:
  assumes ok: "node_ok m nb wk A n" and sc: "script (po_kst n) (currentThread (po_kst n)) = A_user c_deliver # as"
    and cur: "currentThread (po_kst n) = wk" "pr as = []"
  shows "\<exists>n'. deliver (popped n) = Inr n' \<and> node_ok m nb wk A n' \<and> (\<forall>q b ms. pipe wk n q b ms \<longrightarrow> pipe wk n' q b ms)"
proof -
  let ?net = "po_net n" let ?h = "inHdr ?net" let ?f = "po_frames n wk"
  note data = node_okD(2)[OF ok] and w = node_okD(1)[OF ok]
  have pw: "pr (script (po_kst n) wk) = at_deliver" using sc cur by (simp add: at_deliver_def)
  then have arrived: "sem_value (sems (po_kst n) 0) = 0" "pk_length ?h \<noteq> 0"
    using node_okD(4,6)[OF ok] by (auto simp: of_bool_def split: if_splits)
  then have pk: "packet_ok nb ?h (inbox ?net)" using data by (simp add: data_ok_def)
  let ?buf = "overwrite (f_buffer ?f) 0 (take (unat (pk_length ?h)) (inbox ?net))"
  have lb: "length (f_buffer ?f) = MaxPacketSize" using w by (simp add: worker_ok_def)
  then have pk': "packet_ok nb ?h ?buf" "packet_mail ?h ?buf = packet_mail ?h (inbox ?net)" "length ?buf = MaxPacketSize"
    using packet_overwrite[OF pk, of "f_buffer ?f"] by auto
  let ?mh = "MailHeader_at ?buf" let ?b = "nat (sint (ml_to ?mh))" let ?mail = "packet_mail ?h ?buf"
  have mh: "0 \<le> sint (ml_to ?mh)" "sint (ml_to ?mh) < int nb" "?b < nb" "unat (ml_length ?mh) \<le> MaxMailSize"
    using pk'(1) by (auto simp: packet_ok_def box_ok_def)
  from data_ok_box[OF data mh(3)] have mb: "3 \<le> sl_sem (po_boxes n ! ?b)" "ixR (po_boxes n) (sint (ml_to ?mh)) = Inr (po_boxes n ! ?b)"
    using mh(1) by auto
  let ?bs = "MailBox_Put (po_boxes n ! ?b) @ PostalDelivery"
  let ?n' = "n\<lparr>po_kst := push_acts ?bs (pop_act (po_kst n)), po_net := ?net\<lparr>inHdr := ?h\<lparr>pk_length := 0\<rparr>\<rparr>,
    po_frames := (po_frames n)(wk := ?f\<lparr>f_buffer := ?buf, f_mail := ?mail, f_box := ?b\<rparr>)\<rparr>"
  have "Mail_new ?h ?mh (drop sizeof_MailHeader ?buf) = Inr ?mail"
    using pk'(1,3) mh(4) by (simp add: Mail_new_def packet_mail_def packet_ok_def Let_def mail_sizes)
  then have run: "deliver (popped n) = Inr ?n'"
    using mh mb(2) arrived data cur(1)
    by (simp add: deliver_def Network_Receive_def node_upds data_ok_def)
  have pb: "pr ?bs @ pr as = at_append" using pr_mailbox(2)[OF mb(1)] cur(2) by (simp add: at_append_def)
  have "worker_ok nb at_append (po_frames ?n' wk)"
    using packet_okD(5)[OF pk'(1)] pk'(3) mh(1) by (simp add: worker_ok_def packet_mail_def Let_def)
  moreover have "data_ok m nb ?n'" using data by (simp add: data_ok_def)
  moreover have "brackets sendSem h (pr ?bs @ pr as) = brackets sendSem h (pr as)" for h
    unfolding pb by (simp add: cur(2) at_defs)
  ultimately have "node_ok m nb wk A ?n'" using arrived sc cur pb
    by (intro worker_step_ok[OF ok, of c_deliver as ?n' ?bs]) (auto simp: at_append_def at_wait_def at_deliver_def)
  moreover have "in_hand wk n = []" using append_pr[of "script (po_kst n) wk"] pw by (simp add: in_hand_def at_defs)
  moreover have "in_hand wk ?n' = [?mail]"
    using append_pr[of "?bs @ as"] pb cur sc by (simp add: in_hand_def at_append_def)
  then have "pipe wk n q b ms \<longrightarrow> pipe wk ?n' q b ms" for q b ms
    using calculation(2) arrived(2) pk'(2) by (simp add: pipe_def in_device_def)
  ultimately show ?thesis using run by blast
qed

subsection \<open>Interrupts\<close>

lemma irq_step_ok:
  assumes ok: "node_ok m nb wk A n"
    and n': "script (po_kst n') = script (po_kst n)" "po_frames n' = po_frames n"
      "sem_value (sems (po_kst n') 2) = sem_value (sems (po_kst n) 2)"
    and tok: "sem_value (sems (po_kst n') 0) + of_bool (pr (script (po_kst n) wk) = at_deliver) = of_bool (pk_length (inHdr (po_net n')) \<noteq> 0)"
      "sem_value (sems (po_kst n') 1) + int (in_flight n') = of_bool (\<exists>t. pr (script (po_kst n) t) = at_sent)"
      "0 \<le> sem_value (sems (po_kst n') 0)" "0 \<le> sem_value (sems (po_kst n') 1)"
    and data: "data_ok m nb n'"
  shows "node_ok m nb wk A n'"
proof -
  have "threads_ok m nb wk A n'" using ok n' by (simp add: node_ok_def threads_ok_def)
  moreover have "mutex_inv sendSem (po_kst n')"
    by (rule mutex_inv_pr[OF _ _ node_okD(3)[OF ok]]) (use n' in \<open>simp_all add: sendSem_def\<close>)
  then have "tokens_ok wk n'" using tok n' by (simp add: tokens_ok_def Let_def sem_names)
  ultimately show ?thesis using data by (simp add: node_ok_def)
qed

lemma filter_take_drop_length:
  assumes "i < length xs"
  shows "length (filter P xs) = length (filter P (take i xs @ drop (Suc i) xs)) + (if P (xs ! i) then 1 else 0)"
  using arg_cong[OF id_take_nth_drop[OF assms], of "\<lambda>ys. length (filter P ys)"] by simp

lemma take_irq_in_flight:
  assumes "i < length (pending (intr (po_hw n)))"
  shows "in_flight n = in_flight (take_irq i n)
    + (if pi_handler (snd (pending (intr (po_hw n)) ! i)) = NetworkSendDone then 1 else 0)"
  using filter_take_drop_length[OF assms, of "\<lambda>e. pi_handler (snd e) = NetworkSendDone"]
  by (simp add: in_flight_def take_irq_def upd_intr_def)

lemma take_irq_simps [simp]:
  "po_kst (take_irq i n) = po_kst n" "po_net (take_irq i n) = po_net n" "po_frames (take_irq i n) = po_frames n"
  "po_boxes (take_irq i n) = po_boxes n" "po_netAddr (take_irq i n) = po_netAddr n"
  "po_numBoxes (take_irq i n) = po_numBoxes n"
  by (simp_all add: take_irq_def)

lemma send_done_ok:
  assumes ok: "node_ok m nb wk A n" and i: "i < length (pending (intr (po_hw n)))"
    "pi_handler (snd (pending (intr (po_hw n)) ! i)) = NetworkSendDone"
  shows "\<exists>n'. net_handler NetworkSendDone (take_irq i n) socks = Inr (n', socks) \<and> node_ok m nb wk A n'
    \<and> (\<forall>q b ms. pipe wk n q b ms \<longrightarrow> pipe wk n' q b ms)"
proof -
  let ?n0 = "take_irq i n"
  let ?n' = "PostOffice_PacketSent (?n0\<lparr>po_net := fst (Network_SendDone (po_net n) (po_hw ?n0)),
    po_hw := snd (Network_SendDone (po_net n) (po_hw ?n0))\<rparr>)"
  have run: "net_handler NetworkSendDone ?n0 socks = Inr (?n', socks)"
    by (simp add: net_handler_def Let_def split_beta)
  have fl: "in_flight n = in_flight ?n' + 1"
    using take_irq_in_flight[OF i(1)] i(2) by (simp add: in_flight_def PostOffice_PacketSent_def Network_SendDone_def)
  have "node_ok m nb wk A ?n'"
    by (rule irq_step_ok[OF ok]) (use node_okD[OF ok] fl in \<open>auto simp: PostOffice_PacketSent_def Network_SendDone_def messageSent_def data_ok_def\<close>)
  moreover have "pipe wk n q b ms \<longrightarrow> pipe wk ?n' q b ms" for q b ms
    by (simp add: pipe_def in_hand_def in_device_def PostOffice_PacketSent_def Network_SendDone_def)
  ultimately show ?thesis using run by blast
qed

text \<open>
  A poll either leaves everything as it is or moves one datagram from the socket to the device.
\<close>

lemma read_poll_ok:
  assumes ok: "node_ok m nb wk A n" and i: "i < length (pending (intr (po_hw n)))"
    "pi_handler (snd (pending (intr (po_hw n)) ! i)) = NetworkReadPoll"
    and q: "socks m = Some q" "list_all (wire_ok m nb) q"
  shows "\<exists>n' q'. net_handler NetworkReadPoll (take_irq i n) socks = Inr (n', socks(m \<mapsto> q')) \<and> node_ok m nb wk A n'
    \<and> list_all (wire_ok m nb) q' \<and> (\<forall>b ms. pipe wk n q b ms \<longrightarrow> pipe wk n' q' b ms)"
proof -
  let ?n0 = "take_irq i n" let ?net = "po_net n"
  note data = node_okD(2)[OF ok]
  have id: "net_ident ?net = m" "length (inbox ?net) = MaxPacketSize" using data by (auto simp: data_ok_def)
  obtain hw where hw: "Interrupt_Schedule NetworkReadPoll NetworkTime NetworkRecvInt (po_hw ?n0) = Inr hw"
    by (simp add: Interrupt_Schedule_def NetworkTime_def Let_def)
  then have fl: "length (filter (\<lambda>e. pi_handler (snd e) = NetworkSendDone) (pending (intr hw))) = in_flight n"
    using take_irq_in_flight[OF i(1)] i(2)
    by (auto simp: in_flight_def Interrupt_Schedule_def NetworkTime_def Let_def upd_intr_def filter_ins_key_length)
  consider (busy) "pk_length (inHdr ?net) \<noteq> 0 \<or> q = []" | (read) p q' where "pk_length (inHdr ?net) = 0" "q = p # q'"
    by (cases q) auto
  then show ?thesis
  proof cases
    case busy
    let ?n' = "?n0\<lparr>po_net := ?net, po_hw := hw\<rparr>"
    have "net_handler NetworkReadPoll ?n0 socks = Inr (?n', socks(m \<mapsto> q))"
      using busy q(1) id(1) hw by (auto simp: net_handler_def Network_CheckPktAvail_def PollSocket_def fun_upd_idem)
    moreover have "node_ok m nb wk A ?n'"
      by (rule irq_step_ok[OF ok]) (use node_okD[OF ok] fl in \<open>auto simp: in_flight_def data_ok_def\<close>)
    moreover have "pipe wk n q b ms \<longrightarrow> pipe wk ?n' q b ms" for b ms by (simp add: pipe_def in_hand_def in_device_def)
    ultimately show ?thesis using q(2) by blast
  next
    case (read p q')
    let ?h = "PacketHeader_at p" let ?d = "drop sizeof_PacketHeader p"
    let ?box = "overwrite (inbox ?net) 0 (take (unat (pk_length ?h)) ?d)"
    let ?s = "hw\<lparr>stats := (stats hw)\<lparr>numPacketsRecvd := numPacketsRecvd (stats hw) + 1\<rparr>\<rparr>"
    let ?n' = "PostOffice_IncomingPacket (?n0\<lparr>po_net := ?net\<lparr>inHdr := ?h, inbox := ?box\<rparr>, po_hw := ?s\<rparr>)"
    have p: "length p = MaxWireSize" "pk_to ?h = m" "packet_ok nb ?h ?d" using q(2) read by (auto simp: wire_ok_def)
    have n: "unat (pk_length ?h) \<le> MaxPacketSize" "pk_length ?h \<noteq> 0" using packet_okD(1,3)[OF p(3)] by (auto simp: mail_sizes)
    have pk: "packet_ok nb ?h ?box" "packet_mail ?h ?box = wire_mail p" "length ?box = MaxPacketSize"
      using packet_overwrite[OF p(3), of "inbox ?net"] id(2) by (auto simp: wire_mail_def)
    have "net_handler NetworkReadPoll ?n0 socks = Inr (?n', socks(m \<mapsto> q'))"
      using read q(1) id(1) hw p n
      by (simp add: net_handler_def Network_CheckPktAvail_def PollSocket_def ReadFromSocket_def Let_def)
    moreover have tk: "sem_value (sems (po_kst n) 0) = 0" "pr (script (po_kst n) wk) \<noteq> at_deliver"
      using node_okD(4,6)[OF ok] read(1) by (auto simp: of_bool_def split: if_splits)
    have "node_ok m nb wk A ?n'"
      by (rule irq_step_ok[OF ok])
        (use node_okD[OF ok] tk fl n(2) pk data in \<open>auto simp: in_flight_def data_ok_def PostOffice_IncomingPacket_def messageAvailable_def\<close>)
    moreover have "pipe wk n q b ms \<longrightarrow> pipe wk ?n' q' b ms" for b ms
      using read n(2) pk(2) by (simp add: pipe_def in_hand_def in_device_def PostOffice_IncomingPacket_def)
    ultimately show ?thesis using q(2) read(2) by auto
  qed
qed

subsection \<open>One event\<close>

text \<open>A datagram that is put into the socket of its destination.\<close>

definition put_wire :: "(u32 \<times> byte list) option \<Rightarrow> Sockets \<Rightarrow> Sockets" where
  "put_wire out socks = (case out of None \<Rightarrow> socks | Some (d, p) \<Rightarrow> socks(d \<mapsto> the (socks d) @ [p]))"

definition out_mail :: "(u32 \<times> byte list) option \<Rightarrow> (u32 \<times> Mail) list" where
  "out_mail out = (case out of None \<Rightarrow> [] | Some (d, p) \<Rightarrow> [(d, wire_mail p)])"

definition out_ok :: "nat \<Rightarrow> u32 set \<Rightarrow> (u32 \<times> byte list) option \<Rightarrow> bool" where
  "out_ok nb A out \<longleftrightarrow> (case out of None \<Rightarrow> True | Some (d, p) \<Rightarrow> d \<in> A \<and> wire_ok d nb p)"

definition sent_to :: "u32 \<Rightarrow> nat \<Rightarrow> (u32 \<times> Mail) list \<Rightarrow> Mail list" where
  "sent_to m b xs = filter (to_box b) (map snd (filter (\<lambda>e. fst e = m) xs))"

definition taken_from :: "u32 \<Rightarrow> nat \<Rightarrow> (u32 \<times> nat \<times> Mail) list \<Rightarrow> Mail list" where
  "taken_from m b xs = map (snd \<circ> snd) (filter (\<lambda>e. fst e = m \<and> fst (snd e) = b) xs)"

lemma log_append [simp]:
  "sent_to m b (xs @ ys) = sent_to m b xs @ sent_to m b ys" "taken_from m b (us @ vs) = taken_from m b us @ taken_from m b vs"
  "sent_to m b [] = []" "taken_from m b [] = []"
  by (simp_all add: sent_to_def taken_from_def)

text \<open>
  What an event of machine \<open>m\<close> with socket queue \<open>q\<close> does: the machine stays in order, the
  pipe of every mailbox loses at its end what is taken and nothing else.
\<close>

definition step_effect :: "u32 \<Rightarrow> nat \<Rightarrow> nat \<Rightarrow> u32 set \<Rightarrow> Node \<Rightarrow> byte list list \<Rightarrow> Sockets \<Rightarrow> Node \<Rightarrow> Sockets
    \<Rightarrow> (u32 \<times> Mail) list \<Rightarrow> (u32 \<times> nat \<times> Mail) list \<Rightarrow> bool" where
  "step_effect m nb wk A n q socks n' socks' snt tkn \<longleftrightarrow> node_ok m nb wk A n' \<and> (\<forall>e\<in>set tkn. fst e = m) \<and>
     (\<exists>q' out. list_all (wire_ok m nb) q' \<and> socks' = put_wire out (socks(m \<mapsto> q')) \<and> snt = out_mail out \<and> out_ok nb A out
       \<and> (\<forall>b ms. pipe wk n q b ms \<longrightarrow> (\<exists>ms'. pipe wk n' q' b ms' \<and> ms = taken_from m b tkn @ ms')))"

lemma step_effect_quiet:
  assumes "node_ok m nb wk A n'" "socks m = Some q" "list_all (wire_ok m nb) q"
    "\<And>b ms. pipe wk n q b ms \<Longrightarrow> pipe wk n' q b ms"
  shows "step_effect m nb wk A n q socks n' socks [] []"
  using assms unfolding step_effect_def
  by (intro conjI exI[of _ q] exI[of _ None]) (auto simp: put_wire_def out_mail_def out_ok_def fun_upd_idem)

text \<open>The two actions that send and take mail.\<close>

lemma send_effect:
  assumes ok: "node_ok m nb wk A n" and sc: "script (po_kst n) (currentThread (po_kst n)) = A_user c_send # as"
    and send: "currentThread (po_kst n) \<noteq> wk" "pr as = at_sent" "pk_to (f_pktHdr (cur_frame n)) \<in> A"
      "pk_from (f_pktHdr (cur_frame n)) = m" "packet_ok nb (f_pktHdr (cur_frame n)) (f_buffer (cur_frame n))"
    and q: "socks m = Some q" "list_all (wire_ok m nb) q" "A \<subseteq> dom socks" and buf: "length buffer = MaxWireSize"
  shows "\<exists>n' socks'. network_send rnd buffer (popped n) socks = Inr (n', socks')
    \<and> step_effect m nb wk A n q socks n' socks' (ev_sent (Ev_user m rnd buffer) n) []"
proof -
  obtain qd where qd: "socks (pk_to (f_pktHdr (cur_frame n))) = Some qd" using q(3) send(3) by auto
  from network_send_ok(2)[where socks = socks and q = qd, OF ok sc send(1,2,4,5) qd buf] obtain n' p where
    n': "network_send rnd buffer (popped n) socks = Inr (n',
        if Network_lost rnd (po_net n) then socks else socks(pk_to (f_pktHdr (cur_frame n)) \<mapsto> qd @ [p]))"
      "wire_ok (pk_to (f_pktHdr (cur_frame n))) nb p" "wire_mail p = packet_mail (f_pktHdr (cur_frame n)) (f_buffer (cur_frame n))"
      "node_ok m nb wk A n'" "\<forall>q b ms. pipe wk n' q b ms = pipe wk n q b ms" by blast
  let ?out = "if Network_lost rnd (po_net n) then None else Some (pk_to (f_pktHdr (cur_frame n)), p)"
  have "step_effect m nb wk A n q socks n' (put_wire ?out socks) (out_mail ?out) []"
    using n'(2,4,5) q send(3) unfolding step_effect_def
    by (intro conjI exI[of _ q] exI[of _ ?out]) (auto simp: fun_upd_idem out_ok_def)
  then show ?thesis using n'(1,3) sc qd
    by (simp add: next_act_def ev_sent_def put_wire_def out_mail_def split: if_splits)
qed

lemma remove_effect:
  assumes ok: "node_ok m nb wk A n" and sc: "script (po_kst n) (currentThread (po_kst n)) = A_user c_remove # as"
    and remove: "currentThread (po_kst n) \<noteq> wk" "pr as = at_get" "f_box (cur_frame n) < nb"
    and q: "socks m = Some q" "list_all (wire_ok m nb) q"
  shows "\<exists>n'. remove_mail (popped n) = Inr n'
    \<and> step_effect m nb wk A n q socks n' socks [] (ev_taken (Ev_user m rnd buffer) n n')"
proof -
  from remove_mail_ok[OF ok sc remove] obtain n' where
    n': "remove_mail (popped n) = Inr n'" "node_ok m nb wk A n'" "\<And>q b ms. pipe wk n q b ms \<Longrightarrow>
      \<exists>ms'. pipe wk n' q b ms' \<and> ms = (if b = f_box (cur_frame n) \<and> \<not> List_IsEmpty (sl_list (po_boxes n ! b))
         then [f_mail (cur_frame n')] else []) @ ms'" by blast
  let ?t = "ev_taken (Ev_user m rnd buffer) n n'"
  have t: "taken_from m b ?t = (if b = f_box (cur_frame n) \<and> \<not> List_IsEmpty (sl_list (po_boxes n ! b))
         then [f_mail (cur_frame n')] else [])" for b
    using sc by (auto simp: ev_taken_def taken_from_def next_act_def)
  have "\<exists>ms'. pipe wk n' q b ms' \<and> ms = taken_from m b ?t @ ms'" if "pipe wk n q b ms" for b ms
    unfolding t by (rule n'(3)[OF that])
  moreover have "\<forall>e\<in>set ?t. fst e = m" by (simp add: ev_taken_def)
  ultimately have "step_effect m nb wk A n q socks n' socks [] ?t"
    using n'(2) q unfolding step_effect_def
    by (intro conjI exI[of _ q] exI[of _ None]) (simp_all add: fun_upd_idem put_wire_def out_mail_def out_ok_def)
  then show ?thesis using n'(1) by blast
qed

lemma user_effect:
  assumes ok: "node_ok m nb wk A n" and sc: "script (po_kst n) (currentThread (po_kst n)) = A_user c # as"
    and q: "socks m = Some q" "list_all (wire_ok m nb) q" "A \<subseteq> dom socks" and buf: "length buffer = MaxWireSize"
  shows "\<exists>n' socks'. po_user c rnd buffer (popped n) socks = Inr (n', socks')
    \<and> step_effect m nb wk A n q socks n' socks' (ev_sent (Ev_user m rnd buffer) n) (ev_taken (Ev_user m rnd buffer) n n')"
proof -
  have na: "next_act n = Some (A_user c)" using sc by (simp add: next_act_def)
  have quiet: "step_effect m nb wk A n q socks n' socks [] []"
    if "node_ok m nb wk A n'" "\<forall>b ms. pipe wk n q b ms \<longrightarrow> pipe wk n' q b ms" for n'
    using step_effect_quiet[where wk = wk and n = n, of m nb A n' socks q] that q by blast
  from ok sc show ?thesis
  proof (cases rule: user_act_cases)
    case call
    from client_call_ok[OF ok sc[unfolded call(2)] call(1,3)] obtain n' where "client_call (popped n) = Inr n'" "node_ok m nb wk A n'"
      "\<forall>q b ms. pipe wk n' q b ms = pipe wk n q b ms" by blast
    then show ?thesis using quiet[of n'] na call(2)
      by (simp add: po_user_def ev_sent_def ev_taken_def code_names)
  next
    case send
    then show ?thesis using send_effect[OF ok sc[unfolded send(2)] send(1,3-6) q buf, of rnd] na
      by (simp add: po_user_def ev_taken_def code_names)
  next
    case remove
    then show ?thesis using remove_effect[where socks = socks and q = q, OF ok sc[unfolded remove(2)] remove(1,3,4) q(1,2), of rnd buffer] na
      by (auto simp: po_user_def ev_sent_def code_names)
  next
    case get
    from get_mail_ok[OF ok sc[unfolded get(2)] get(1,3,4)] obtain n' where "get_mail (popped n) = Inr n'" "node_ok m nb wk A n'"
      "\<forall>q b ms. pipe wk n' q b ms = pipe wk n q b ms" by blast
    then show ?thesis using quiet[of n'] na get(2)
      by (simp add: po_user_def ev_sent_def ev_taken_def code_names)
  next
    case deliver
    from deliver_ok[OF ok sc[unfolded deliver(2)] deliver(1,3)] obtain n' where "deliver (popped n) = Inr n'" "node_ok m nb wk A n'"
      "\<forall>q b ms. pipe wk n q b ms \<longrightarrow> pipe wk n' q b ms" by blast
    then show ?thesis using quiet[of n'] na deliver(2)
      by (simp add: po_user_def ev_sent_def ev_taken_def code_names)
  next
    case append
    from append_mail_ok[OF ok sc[unfolded append(2)] append(1,3-5)] obtain n' where "append_mail (popped n) = Inr n'" "node_ok m nb wk A n'"
      "\<forall>q b ms. pipe wk n q b ms \<longrightarrow> pipe wk n' q b ms" by blast
    then show ?thesis using quiet[of n'] na append(2)
      by (simp add: po_user_def ev_sent_def ev_taken_def code_names)
  qed
qed

text \<open>The end of a kernel action may be a yield; an interrupt is one of the two of the device.\<close>

lemma act_effect:
  assumes ok: "node_ok m nb wk A n" and sc: "script (po_kst n) (currentThread (po_kst n)) = a # as" "\<not> is_user a"
    and q: "socks m = Some q" "list_all (wire_ok m nb) q" and run: "node_act n = Inr n'"
  shows "step_effect m nb wk A n q socks n' socks [] []"
    "step_effect m nb wk A n q socks (push_node Thread_Yield n') socks [] []"
proof -
  note n' = node_act_ok[OF ok sc run]
  note y = push_irrelevant[of Thread_Yield, OF _ n'(1)]
  show "step_effect m nb wk A n q socks n' socks [] []"
    by (rule step_effect_quiet) (use n' q in auto)
  show "step_effect m nb wk A n q socks (push_node Thread_Yield n') socks [] []"
    by (rule step_effect_quiet) (use n' y q in auto)
qed

lemma irq_effect:
  assumes ok: "node_ok m nb wk A n" and i: "i < length (pending (intr (po_hw n)))"
    and q: "socks m = Some q" "list_all (wire_ok m nb) q"
  shows "\<exists>n' socks'. net_handler (pi_handler (snd (pending (intr (po_hw n)) ! i))) (take_irq i n) socks = Inr (n', socks')
    \<and> step_effect m nb wk A n q socks n' socks' [] []"
proof (cases "pi_handler (snd (pending (intr (po_hw n)) ! i))")
  case NetworkReadPoll
  from read_poll_ok[where socks = socks and q = q, OF ok i NetworkReadPoll q] obtain n' q' where
    n': "net_handler NetworkReadPoll (take_irq i n) socks = Inr (n', socks(m \<mapsto> q'))" "node_ok m nb wk A n'"
      "list_all (wire_ok m nb) q'" "\<forall>b ms. pipe wk n q b ms \<longrightarrow> pipe wk n' q' b ms" by blast
  then have "step_effect m nb wk A n q socks n' (socks(m \<mapsto> q')) [] []" unfolding step_effect_def
    by (intro conjI exI[of _ q'] exI[of _ None]) (auto simp: put_wire_def out_mail_def out_ok_def)
  then show ?thesis using n'(1) NetworkReadPoll by auto
next
  case NetworkSendDone
  from send_done_ok[OF ok i NetworkSendDone, of socks] obtain n' where
    n': "net_handler NetworkSendDone (take_irq i n) socks = Inr (n', socks)" "node_ok m nb wk A n'"
      "\<forall>q b ms. pipe wk n q b ms \<longrightarrow> pipe wk n' q b ms" by blast
  then have "step_effect m nb wk A n q socks n' socks [] []"
    using step_effect_quiet[where wk = wk and n = n, of m nb A n' socks q] q by blast
  then show ?thesis using n'(1) NetworkSendDone by auto
qed

lemma node_step_effect:
  assumes ok: "node_ok m nb wk A n" and q: "socks m = Some q" "list_all (wire_ok m nb) q" "A \<subseteq> dom socks"
    and run: "node_step ev n socks = Some r" and ev: "ev_machine ev = m"
  shows "(case r of Inl e \<Rightarrow> ev = Ev_act m \<or> ev = Ev_yield m
    | Inr (n', socks') \<Rightarrow> step_effect m nb wk A n q socks n' socks' (ev_sent ev n) (ev_taken ev n n'))"
proof -
  from run obtain a as where sc: "script (po_kst n) (currentThread (po_kst n)) = a # as"
    by (auto simp: node_step_def Let_def split: list.splits)
  show ?thesis
  proof (cases ev)
    case (Ev_act m')
    then show ?thesis using run sc ev act_effect(1)[where socks = socks and q = q, OF ok sc _ q(1,2)]
      by (cases "node_act n") (auto simp: node_step_def Let_def ev_machine_def ev_sent_def ev_taken_def split: if_splits)
  next
    case (Ev_yield m')
    then have nu: "\<not> is_user a" using run sc by (auto simp: node_step_def is_user_def Let_def split: if_splits)
    then show ?thesis using Ev_yield run sc ev act_effect(2)[where socks = socks and q = q, OF ok sc nu q(1,2)]
      by (cases "node_act n") (auto simp: node_step_def Let_def ev_machine_def ev_sent_def ev_taken_def split: if_splits)
  next
    case (Ev_user m' rnd buffer)
    then obtain c where c: "a = A_user c" "length buffer = MaxWireSize" "r = po_user c rnd buffer (popped n) socks" "m' = m"
      using run sc ev by (auto simp: node_step_def Let_def popped_def ev_machine_def split: Act.splits if_splits)
    from user_effect[where socks = socks and q = q, OF ok sc[unfolded c(1)] q c(2), of rnd] show ?thesis
      using c Ev_user by auto
  next
    case (Ev_irq m' i)
    then show ?thesis using run sc ev irq_effect[where socks = socks and q = q, OF ok _ q(1,2), of i]
      by (auto simp: node_step_def Let_def ev_machine_def ev_sent_def ev_taken_def split: if_splits)
  qed
qed

subsection \<open>The network\<close>

text \<open>
  A machine in the network, after the packets \<open>s\<close> have been put on the wire and the mail \<open>t\<close> has been
  taken: for every mailbox, what was sent to it is what was taken from it and what is in its pipe.
\<close>

definition machine_ok :: "nat \<Rightarrow> nat \<Rightarrow> u32 set \<Rightarrow> u32 \<Rightarrow> Node \<Rightarrow> Sockets \<Rightarrow> (u32 \<times> Mail) list \<Rightarrow> (u32 \<times> nat \<times> Mail) list \<Rightarrow> bool" where
  "machine_ok nb wk A m n socks s t \<longleftrightarrow> node_ok m nb wk A n
     \<and> (\<exists>q. socks m = Some q \<and> list_all (wire_ok m nb) q
         \<and> (\<forall>b<nb. \<exists>ms. pipe wk n q b ms \<and> sent_to m b s = taken_from m b t @ ms))"

definition world_ok :: "nat \<Rightarrow> (u32 \<Rightarrow> nat) \<Rightarrow> World \<Rightarrow> bool" where
  "world_ok nb wk w \<longleftrightarrow> (\<forall>m n. w_nodes w m = Some n \<longrightarrow>
     machine_ok nb (wk m) (dom (w_nodes w)) m n (w_socks w) (w_sent w) (w_taken w))"

lemma pipe_snoc: "pipe wk n q b ms \<Longrightarrow> pipe wk n (q @ [p]) b (ms @ filter (to_box b) [wire_mail p])"
  by (auto simp: pipe_def)

lemma machine_put_wire:
  assumes "machine_ok nb wk A m n socks s t" "out_ok nb A' out"
  shows "machine_ok nb wk A m n (put_wire out socks) (s @ out_mail out) t"
proof -
  from assms obtain q where q: "socks m = Some q" "list_all (wire_ok m nb) q" "node_ok m nb wk A n"
    and p: "\<forall>b<nb. \<exists>ms. pipe wk n q b ms \<and> sent_to m b s = taken_from m b t @ ms" by (auto simp: machine_ok_def)
  show ?thesis
  proof (cases "\<exists>p. out = Some (m, p)")
    case True
    then obtain d where d: "out = Some (m, d)" by blast
    have "\<exists>ms. pipe wk n (q @ [d]) b ms \<and> sent_to m b (s @ out_mail out) = taken_from m b t @ ms" if "b < nb" for b
      using p that pipe_snoc[of wk n q b _ d] by (fastforce simp: d out_mail_def sent_to_def)
    then show ?thesis using q assms(2) d by (simp add: machine_ok_def put_wire_def out_ok_def)
  next
    case False
    then have "put_wire out socks m = Some q" "sent_to m b (out_mail out) = []" for b
      using q by (auto simp: put_wire_def out_mail_def sent_to_def split: option.splits)
    then show ?thesis using q p by (simp add: machine_ok_def)
  qed
qed

lemma machine_step:
  assumes ok: "machine_ok nb wk A m n socks s t" and q: "socks m = Some q"
    and e: "step_effect m nb wk A n q socks n' socks' snt tkn"
  shows "machine_ok nb wk A m n' socks' (s @ snt) (t @ tkn)"
proof -
  from e obtain q' out where n': "node_ok m nb wk A n'" "list_all (wire_ok m nb) q'" "socks' = put_wire out (socks(m \<mapsto> q'))"
      "snt = out_mail out" "out_ok nb A out"
      "\<forall>b ms. pipe wk n q b ms \<longrightarrow> (\<exists>ms'. pipe wk n' q' b ms' \<and> ms = taken_from m b tkn @ ms')"
    by (auto simp: step_effect_def)
  have "\<exists>ms. pipe wk n' q' b ms \<and> sent_to m b s = taken_from m b (t @ tkn) @ ms" if "b < nb" for b
    using ok q n'(6) that by (auto simp: machine_ok_def)
  then have "machine_ok nb wk A m n' (socks(m \<mapsto> q')) s (t @ tkn)" using n' by (simp add: machine_ok_def)
  from machine_put_wire[OF this n'(5)] show ?thesis by (simp add: n'(3,4))
qed

lemma machine_other:
  assumes ok: "machine_ok nb wk A m k socks s t" and "m \<noteq> m0"
    and e: "step_effect m0 nb wk0 A n q socks n' socks' snt tkn"
  shows "machine_ok nb wk A m k socks' (s @ snt) (t @ tkn)"
proof -
  from e obtain q' out where n': "\<forall>e\<in>set tkn. fst e = m0" "socks' = put_wire out (socks(m0 \<mapsto> q'))" "snt = out_mail out" "out_ok nb A out"
    by (auto simp: step_effect_def)
  have "taken_from m b tkn = []" for b using n'(1) assms(2) by (auto simp: taken_from_def filter_empty_conv)
  then have "machine_ok nb wk A m k (socks(m0 \<mapsto> q')) s (t @ tkn)" using ok assms(2) by (simp add: machine_ok_def)
  from machine_put_wire[OF this n'(4)] show ?thesis by (simp add: n')
qed

lemma net_step_ok:
  assumes ok: "world_ok nb wk w" and run: "net_step ev w = Some r"
  shows "case r of Inl e \<Rightarrow> (\<exists>m. ev = Ev_act m \<or> ev = Ev_yield m) | Inr w' \<Rightarrow> world_ok nb wk w'"
proof -
  let ?m = "ev_machine ev" let ?A = "dom (w_nodes w)"
  from run obtain n r' where n: "w_nodes w ?m = Some n" "node_step ev n (w_socks w) = Some r'"
    "r = mapR (\<lambda>(n', socks). w\<lparr>w_nodes := (w_nodes w)(?m \<mapsto> n'), w_socks := socks,
            w_sent := w_sent w @ ev_sent ev n, w_taken := w_taken w @ ev_taken ev n n'\<rparr>) r'"
    by (auto simp: net_step_def split: option.splits)
  note mk = ok[unfolded world_ok_def, rule_format]
  from mk[OF n(1)] obtain q where q: "node_ok ?m nb (wk ?m) ?A n" "w_socks w ?m = Some q" "list_all (wire_ok ?m nb) q"
    by (auto simp: machine_ok_def)
  have "?A \<subseteq> dom (w_socks w)" using mk by (fastforce simp: machine_ok_def)
  note e = node_step_effect[where socks = "w_socks w" and q = q, OF q this n(2) refl]
  show ?thesis
  proof (cases r')
    case (Inl err)
    then show ?thesis using e n(3) by auto
  next
    case (Inr x)
    obtain n' socks' where x: "x = (n', socks')" by (cases x)
    have se: "step_effect ?m nb (wk ?m) ?A n q (w_socks w) n' socks' (ev_sent ev n) (ev_taken ev n n')" using e Inr x by simp
    have dom: "dom ((w_nodes w)(?m \<mapsto> n')) = ?A" using n(1) by auto
    have "machine_ok nb (wk m) ?A m k socks' (w_sent w @ ev_sent ev n) (w_taken w @ ev_taken ev n n')"
      if "((w_nodes w)(?m \<mapsto> n')) m = Some k" for m k
      using that machine_step[OF mk[OF n(1)] q(2) se] machine_other[OF mk[of m k] _ se] by (auto split: if_splits)
    then have "world_ok nb wk (w\<lparr>w_nodes := (w_nodes w)(?m \<mapsto> n'), w_socks := socks',
            w_sent := w_sent w @ ev_sent ev n, w_taken := w_taken w @ ev_taken ev n n'\<rparr>)"
      using dom by (simp add: world_ok_def)
    then show ?thesis using n(3) Inr x by simp
  qed
qed

lemma net_reach_ok:
  assumes "net_reach w0 w" "world_ok nb wk w0"
  shows "world_ok nb wk w"
  using assms(1)
proof induction
  case (step w ev w')
  then show ?case using net_step_ok[OF step(3,2)] by simp
qed (rule assms(2))

subsection \<open>The post offices when they are new\<close>

text \<open>
  A kernel in which clients are ready to make their calls, and the memory given to the
  constructor; no device of the machine has sent yet.
\<close>

definition kernel_ready :: "nat \<Rightarrow> u32 set \<Rightarrow> nat \<Rightarrow> byte list \<Rightarrow> (nat \<Rightarrow> Frame) \<Rightarrow> Kst \<Rightarrow> (NetIrq, unit) Hw \<Rightarrow> bool" where
  "kernel_ready nb A t box0 frs k hw \<longleftrightarrow> currentThread k \<noteq> t \<and> length box0 = MaxPacketSize
     \<and> length (f_buffer (frs t)) = MaxPacketSize
     \<and> (\<forall>u. u \<noteq> t \<longrightarrow> pr (script k u) \<in> {[], at_call} \<and> list_all (call_ok nb A) (f_calls (frs u)))
     \<and> list_all (\<lambda>e. pi_handler (snd e) \<noteq> NetworkSendDone) (pending (intr hw))"

definition net_init :: "nat \<Rightarrow> (u32 \<Rightarrow> nat) \<Rightarrow> World \<Rightarrow> bool" where
  "net_init nb wk w \<longleftrightarrow> w_sent w = [] \<and> w_taken w = [] \<and> (\<forall>m n. w_nodes w m = Some n \<longrightarrow> w_socks w m = Some [] \<and>
     (\<exists>reliability hdr0 box0 frs k hw socks socks'. kernel_ready nb (dom (w_nodes w)) (wk m) box0 frs k hw
        \<and> PostOffice_new m reliability nb (wk m) hdr0 box0 frs k hw socks = Inr (n, socks')))"

lemma MailBox_new_rep: "3 \<le> sl_sem (MailBox_new b)" "List_items (sl_list (MailBox_new b)) []"
  by (simp_all add: MailBox_new_def SynchList_new_def nachos_list.rep_emp)

lemma PostOffice_new_ok:
  assumes rdy: "kernel_ready nb A t box0 frs k hw" and new: "PostOffice_new m rl nb t hdr0 box0 frs k hw socks = Inr (n, socks')"
  shows "node_ok m nb t A n" "b < nb \<Longrightarrow> pipe t n [] b []"
proof -
  from new obtain hw' where hw': "Interrupt_Schedule NetworkReadPoll NetworkTime NetworkRecvInt hw = Inr hw'"
      "po_hw n = hw'" by (auto simp: PostOffice_new_def Network_new_def Let_def res_simps Interrupt_Schedule_def NetworkTime_def)
  have n: "po_netAddr n = m" "net_ident (po_net n) = m" "\<not> sendBusy (po_net n)" "po_numBoxes n = int nb"
      "po_boxes n = map MailBox_new [0..<nb]" "inbox (po_net n) = box0" "pk_length (inHdr (po_net n)) = 0" "po_frames n = frs"
      "sem_value (sems (po_kst n) 0) = 0" "sem_value (sems (po_kst n) 1) = 0" "sem_value (sems (po_kst n) 2) = 1"
      "script (po_kst n) = (script k)(t := ThreadRoot PostalDelivery,
         currentThread k := Thread_Fork t @ script k (currentThread k))"
    using new rdy by (auto simp: PostOffice_new_def Network_new_def Let_def res_simps Interrupt_Schedule_def NetworkTime_def
        sem_names Semaphore_new_def kernel_ready_def)
  have p: "pr (script (po_kst n) t) = at_wait" "\<And>u. u \<noteq> t \<Longrightarrow> pr (script (po_kst n) u) \<in> {[], at_call}"
    using rdy by (auto simp: n kernel_ready_def)
  have "threads_ok m nb t A n" using p rdy by (auto simp: threads_ok_def worker_ok_def client_ok_def kernel_ready_def n)
  moreover have "data_ok m nb n" using rdy MailBox_new_rep
    by (auto simp: data_ok_def n box_rep_def kernel_ready_def intro!: exI[of _ "[]"])
  moreover have "\<not> brackets sendSem True (pr (script (po_kst n) u)) \<and> brackets sendSem False (pr (script (po_kst n) u))" for u
    using p(1) p(2)[of u] by (cases "u = t") (auto simp: at_defs)
  then have "\<not> brackets sendSem True (script (po_kst n) u) \<and> brackets sendSem False (script (po_kst n) u)" for u
    by (simp add: brackets_send)
  then have "mutex_inv sendSem (po_kst n)" by (simp add: mutex_inv_def holds_def n sendSem_def)
  moreover have "in_flight n = 0"
    using rdy hw' by (auto simp: in_flight_def kernel_ready_def Interrupt_Schedule_def NetworkTime_def Let_def upd_intr_def
        filter_ins_key_length list_all_iff filter_empty_conv)
  moreover have "pr (script (po_kst n) u) \<noteq> at_sent" for u using p(1) p(2)[of u] by (cases "u = t") (auto simp: at_defs)
  ultimately show "node_ok m nb t A n" using p(1) n(7,9,10) by (simp add: node_ok_def tokens_ok_def Let_def sem_names) (simp add: at_defs)
  have "in_hand t n = []" using append_pr[of "script (po_kst n) t"] p(1) by (simp add: in_hand_def at_defs)
  then show "b < nb \<Longrightarrow> pipe t n [] b []" using MailBox_new_rep(2)[of b] by (simp add: pipe_def in_device_def n)
qed

lemma net_init_ok:
  assumes "net_init nb wk w"
  shows "world_ok nb wk w"
  unfolding world_ok_def
proof (intro allI impI)
  fix m n
  assume "w_nodes w m = Some n"
  with assms obtain reliability hdr0 box0 frs k hw socks socks' where "w_socks w m = Some []"
    "kernel_ready nb (dom (w_nodes w)) (wk m) box0 frs k hw"
    "PostOffice_new m reliability nb (wk m) hdr0 box0 frs k hw socks = Inr (n, socks')"
    "w_sent w = []" "w_taken w = []"
    unfolding net_init_def by blast
  then show "machine_ok nb (wk m) (dom (w_nodes w)) m n (w_socks w) (w_sent w) (w_taken w)"
    using PostOffice_new_ok by (auto simp: machine_ok_def)
qed

subsection \<open>Two machines\<close>

text \<open>Machine 0 sends two bytes to mailbox 0 of machine 1, where a client waits for mail.\<close>

declare enables_code [code]

definition post_frame :: "PoCall list \<Rightarrow> Frame" where
  "post_frame calls = \<lparr>f_calls = calls, f_pktHdr = \<lparr>pk_to = 0, pk_from = 0, pk_length = 0\<rparr>,
     f_buffer = replicate MaxPacketSize 0,
     f_mail = \<lparr>m_pktHdr = \<lparr>pk_to = 0, pk_from = 0, pk_length = 0\<rparr>, m_mailHdr = \<lparr>ml_to = 0, ml_from = 0, ml_length = 0\<rparr>,
       m_data = []\<rparr>, f_box = 0, f_received = []\<rparr>"

definition post_kernel :: Kst where
  "post_kernel = \<lparr>threads = [0 \<mapsto> Thread_new\<lparr>th_status := RUNNING\<rparr>], currentThread = 0, readyList = [],
     threadToBeDestroyed = None, ilevel = IntOn, saved = (\<lambda>t. []),
     script = (\<lambda>t. if t = 0 then A_user c_call # Thread_Finish else []),
     sems = (\<lambda>s. Semaphore_new 0), locks = (\<lambda>l. Lock_new 0), conds = (\<lambda>c. []),
     kmach = \<lparr>mainMemory = [], registers = [], tlb = None, pageTable = None, pageTableSize = 0, tables = Map.empty,
       singleStep = False\<rparr>\<rparr>"

definition post_hw :: "(NetIrq, unit) Hw" where
  "post_hw = \<lparr>intr = Interrupt_new, stats = Statistics_new, kern = ()\<rparr>"

definition post_node :: "u32 \<Rightarrow> PoCall list \<Rightarrow> Node" where
  "post_node addr calls = (case PostOffice_new addr 1 1 1 \<lparr>pk_to = 0, pk_from = 0, pk_length = 0\<rparr>
     (replicate MaxPacketSize 0) (\<lambda>t. post_frame (if t = 0 then calls else [])) post_kernel post_hw Map.empty
     of Inr (n, socks) \<Rightarrow> n)"

definition post_call :: PoCall where
  "post_call = PoSend \<lparr>pk_to = 1, pk_from = 0, pk_length = 0\<rparr> \<lparr>ml_to = 0, ml_from = 0, ml_length = 2\<rparr> [72, 105]"

definition post_world :: World where
  "post_world = \<lparr>w_nodes = [0 \<mapsto> post_node 0 [post_call], 1 \<mapsto> post_node 1 [PoReceive 0]],
     w_socks = [0 \<mapsto> [], 1 \<mapsto> []], w_sent = [], w_taken = []\<rparr>"

definition post_events :: "Ev list" where
  "post_events = replicate 3 (Ev_act 0) @ [Ev_user 0 0 (replicate 64 0)] @ replicate 4 (Ev_act 0)
     @ [Ev_user 0 0 (replicate 64 0), Ev_act 1, Ev_act 1, Ev_irq 1 0]"

definition post_mail :: Mail where
  "post_mail = \<lparr>m_pktHdr = \<lparr>pk_to = 1, pk_from = 0, pk_length = 14\<rparr>,
     m_mailHdr = \<lparr>ml_to = 0, ml_from = 0, ml_length = 2\<rparr>, m_data = [72, 105]\<rparr>"

lemma net_run_reach_from: "net_reach w0 w \<Longrightarrow> net_run evs w = Some w' \<Longrightarrow> net_reach w0 w'"
  by (induction evs arbitrary: w) (auto intro: net_reach.step split: option.splits sum.splits)

lemma net_run_reach: "net_run evs w0 = Some w \<Longrightarrow> net_reach w0 w"
  by (rule net_run_reach_from[OF net_reach.init])

lemma post_world_init: "net_init 1 (\<lambda>m. 1) post_world"
proof -
  have new: "\<exists>socks'. PostOffice_new addr 1 1 1 \<lparr>pk_to = 0, pk_from = 0, pk_length = 0\<rparr> (replicate MaxPacketSize 0)
      (\<lambda>t. post_frame (if t = 0 then calls else [])) post_kernel post_hw Map.empty = Inr (post_node addr calls, socks')" for addr calls
    by (simp add: post_node_def PostOffice_new_def Network_new_def Interrupt_Schedule_def NetworkTime_def Let_def)
  have rdy: "kernel_ready 1 {0, 1} 1 (replicate MaxPacketSize 0) (\<lambda>t. post_frame (if t = 0 then calls else [])) post_kernel post_hw"
    if "list_all (call_ok 1 {0, 1}) calls" for calls
    using that by (simp add: kernel_ready_def post_kernel_def post_frame_def post_hw_def Interrupt_new_def at_call_def)
  have node: "\<exists>reliability hdr0 box0 frs k hw socks socks'. kernel_ready 1 {0, 1} 1 box0 frs k hw
      \<and> PostOffice_new addr reliability 1 1 hdr0 box0 frs k hw socks = Inr (post_node addr calls, socks')"
    if "list_all (call_ok 1 {0, 1}) calls" for addr calls
    using new[of addr calls] rdy[OF that] by blast
  have calls: "list_all (call_ok 1 {0, 1}) [post_call]" "list_all (call_ok 1 {0, 1}) [PoReceive 0]"
    by (simp_all add: call_ok_def post_call_def box_ok_def mail_sizes)
  have dom: "dom (w_nodes post_world) = {0, 1}" by (auto simp: post_world_def)
  have "w_socks post_world m = Some [] \<and> (\<exists>reliability hdr0 box0 frs k hw socks socks'. kernel_ready 1 {0, 1} 1 box0 frs k hw
      \<and> PostOffice_new m reliability 1 1 hdr0 box0 frs k hw socks = Inr (n, socks'))"
    if "w_nodes post_world m = Some n" for m n
    using that node[OF calls(1), of 0] node[OF calls(2), of 1]
    by (cases "m = 0"; cases "m = 1") (simp_all add: post_world_def)
  then show ?thesis unfolding net_init_def dom by (simp add: post_world_def)
qed

text \<open>The packet is sent, and a poll of machine 1 finds it.\<close>

lemma post_run: "\<exists>w n. net_run post_events post_world = Some w \<and> w_nodes w 1 = Some n \<and> sent_to 1 0 (w_sent w) = [post_mail]
    \<and> in_device n = [post_mail]"
proof -
  have "(case net_run post_events post_world of None \<Rightarrow> False
    | Some w \<Rightarrow> (case w_nodes w 1 of None \<Rightarrow> False | Some n \<Rightarrow> sent_to 1 0 (w_sent w) = [post_mail] \<and> in_device n = [post_mail]))"
    by code_simp
  then show ?thesis by (auto split: option.splits)
qed

subsection \<open>Properties\<close>

lemma node_in_flight:
  assumes n: "node_ok m nb wk A n"
  shows "in_flight n \<le> 1" "next_act n = Some (A_user c_send) \<Longrightarrow> in_flight n = 0"
proof -
  show "in_flight n \<le> 1" using node_okD(5,7)[OF n] by (auto simp: of_bool_def split: if_splits)
  assume "next_act n = Some (A_user c_send)"
  then obtain as where sc: "script (po_kst n) (currentThread (po_kst n)) = A_user c_send # as"
    by (auto simp: next_act_def split: list.splits)
  from n sc show "in_flight n = 0"
    by (cases rule: user_act_cases)
      (use network_send_ok(1)[OF n sc, where socks = "\<lambda>d. Some []" and buffer = "replicate 64 0" and q = "[]"] in
        \<open>auto simp: code_names wire_sizes\<close>)
qed

text \<open>C8: Mail is delivered exactly once, unchanged and in order. On any number of machines, with any
  interleaving of their threads, any preemption and any moment for the interrupts of the network
  device, from the start of their post offices on: for every mailbox, the mail put on the wire for
  it, in order, is the mail that \<open>Receive\<close> has taken out of it, followed by what is in the mailbox,
  what the postal worker has in hand, what the device has buffered and what waits in the socket.
  (A packet the unreliable network drops is never put on the wire.)\<close>

theorem mail_delivery:
  assumes "net_init nb wk w0" "net_reach w0 w" "w_nodes w m = Some n" "b < nb"
  shows "\<exists>q xs. w_socks w m = Some q \<and> List_items (sl_list (po_boxes n ! b)) xs
    \<and> sent_to m b (w_sent w) = taken_from m b (w_taken w)
        @ xs @ filter (to_box b) (in_hand (wk m) n @ in_device n @ map wire_mail q)"
proof -
  have "world_ok nb wk w" using net_reach_ok[OF assms(2) net_init_ok[OF assms(1)]] .
  then have "machine_ok nb (wk m) (dom (w_nodes w)) m n (w_socks w) (w_sent w) (w_taken w)"
    using assms(3) by (simp add: world_ok_def)
  then obtain q ms where "w_socks w m = Some q" "pipe (wk m) n q b ms" "sent_to m b (w_sent w) = taken_from m b (w_taken w) @ ms"
    using assms(4) unfolding machine_ok_def by blast
  then show ?thesis unfolding pipe_def by blast
qed

theorem mail_delivery_witness:
  "\<exists>w n q xs. net_reach post_world w \<and> w_nodes w 1 = Some n \<and> sent_to 1 0 (w_sent w) = [post_mail]
    \<and> in_device n = [post_mail] \<and> w_socks w 1 = Some q \<and> List_items (sl_list (po_boxes n ! 0)) xs
    \<and> sent_to 1 0 (w_sent w) = taken_from 1 0 (w_taken w)
        @ xs @ filter (to_box 0) (in_hand 1 n @ in_device n @ map wire_mail q)"
proof -
  from post_run obtain w n where w: "net_run post_events post_world = Some w" "w_nodes w 1 = Some n" "sent_to 1 0 (w_sent w) = [post_mail]"
      "in_device n = [post_mail]" by blast
  note r = net_run_reach[OF w(1)]
  from mail_delivery[OF post_world_init r w(2), of 0] obtain q xs where
    "w_socks w 1 = Some q" "List_items (sl_list (po_boxes n ! 0)) xs"
    "sent_to 1 0 (w_sent w) = taken_from 1 0 (w_taken w) @ xs @ filter (to_box 0) (in_hand 1 n @ in_device n @ map wire_mail q)"
    by auto
  with r w(2-4) show ?thesis by blast
qed

text \<open>C9: The post office keeps to the rules of the network device. In every reachable state, provided
  the clients' calls name machines and mailboxes that exist and data that fits in a packet, no
  statement of the post office, no call of the device and no interrupt handler fails an assertion or
  accesses memory out of bounds, and a thread that is about to call \<open>network->Send\<close> finds no packet of
  this machine in flight: the next packet is sent only after the interrupt for the last one.\<close>

theorem post_office_safe:
  assumes "net_init nb wk w0" "net_reach w0 w"
  shows "(\<forall>m rnd buffer e. net_step (Ev_user m rnd buffer) w \<noteq> Some (Inl e))
    \<and> (\<forall>m i e. net_step (Ev_irq m i) w \<noteq> Some (Inl e))
    \<and> (\<forall>m n. w_nodes w m = Some n \<longrightarrow> in_flight n \<le> 1 \<and> (next_act n = Some (A_user c_send) \<longrightarrow> in_flight n = 0))"
proof (intro conjI allI impI)
  have ok: "world_ok nb wk w" using net_reach_ok[OF assms(2) net_init_ok[OF assms(1)]] .
  show "net_step (Ev_user m rnd buffer) w \<noteq> Some (Inl e)" for m rnd buffer e
    using net_step_ok[OF ok, of "Ev_user m rnd buffer" "Inl e"] by auto
  show "net_step (Ev_irq m i) w \<noteq> Some (Inl e)" for m i e
    using net_step_ok[OF ok, of "Ev_irq m i" "Inl e"] by auto
  show "in_flight n \<le> 1" "next_act n = Some (A_user c_send) \<Longrightarrow> in_flight n = 0" if "w_nodes w m = Some n" for m n
    using node_in_flight[of m nb "wk m" _ n] ok that by (auto simp: world_ok_def machine_ok_def)
qed

theorem post_office_safe_witness:
  "\<exists>w. net_run post_events post_world = Some w \<and> (\<forall>rnd buffer e. net_step (Ev_user 0 rnd buffer) w \<noteq> Some (Inl e))
    \<and> (\<forall>i e. net_step (Ev_irq 1 i) w \<noteq> Some (Inl e)) \<and> (\<exists>n. w_nodes w 1 = Some n \<and> in_flight n \<le> 1)"
proof -
  from post_run obtain w n where w: "net_run post_events post_world = Some w" "w_nodes w 1 = Some n" by blast
  from post_office_safe[OF post_world_init net_run_reach[OF w(1)]] w show ?thesis by blast
qed

end
