(* ===== verification/Nachos_Dining.thy ===== *)
theory Nachos_Dining
  imports Nachos_Threads
begin

text \<open>
  \<open>threads/diningph.cc\<close> and the program of \<open>threads/threadtest.cc\<close> that uses it: the monitor of the
  dining philosophers, written with a \<open>Lock\<close> and five \<open>Condition\<close>s, and five threads that pick up and
  put down their sticks ten times. The methods are scripts over the kernel of theory
  \<open>Nachos_Threads\<close>; their own statements are actions \<open>A_user\<close> whose effect is \<open>dp_user\<close>. Philosopher
  \<open>i\<close> is thread \<open>i\<close> and waits on condition \<open>i\<close>, the lock \<open>dp\<close> is lock 0 on semaphore 0. Calls of the
  host (\<open>sleep\<close>, \<open>Random\<close>, \<open>printf\<close>) are left out.
\<close>

subsection \<open>The monitor\<close>

datatype PhState = Thinking | Hungry | Eating

record DiningPh =
  dk :: Kst
  ph_state :: "nat \<Rightarrow> PhState"

text \<open>The statements of the methods, as codes of user actions for philosopher \<open>i < 5\<close>.\<close>

definition a_hungry :: "nat \<Rightarrow> Act" where "a_hungry i = A_user i"
definition a_test :: "nat \<Rightarrow> Act" where "a_test i = A_user (5 + i)"
definition a_check :: "nat \<Rightarrow> Act" where "a_check i = A_user (10 + i)"
definition a_think :: "nat \<Rightarrow> Act" where "a_think i = A_user (15 + i)"
definition a_print :: Act where "a_print = A_user 20"

definition dp_lock :: nat where "dp_lock = 0"
definition dp_sem :: nat where "dp_sem = 0"

definition DiningPh_pickup :: "nat \<Rightarrow> Act list" where
  "DiningPh_pickup who = Lock_Acquire dp_sem dp_lock @ [a_hungry who, a_test who, a_check who] @ Lock_Release dp_sem dp_lock"

definition DiningPh_putdown :: "nat \<Rightarrow> Act list" where
  "DiningPh_putdown who = Lock_Acquire dp_sem dp_lock @ [a_think who, a_test ((who + 4) mod 5), a_test ((who + 1) mod 5)]
     @ Lock_Release dp_sem dp_lock"

definition push_dining :: "Act list \<Rightarrow> DiningPh \<Rightarrow> DiningPh" where
  "push_dining as d = d\<lparr>dk := push_acts as (dk d)\<rparr>"

definition DiningPh_test :: "nat \<Rightarrow> DiningPh \<Rightarrow> DiningPh" where
  "DiningPh_test i d =
     (if ph_state d ((i + 4) mod 5) \<noteq> Eating \<and> ph_state d i = Hungry \<and> ph_state d ((i + 1) mod 5) \<noteq> Eating
      then push_dining (Condition_Signal i) (d\<lparr>ph_state := (ph_state d)(i := Eating)\<rparr>)
      else d)"

text \<open>\<open>if (state[who] == Hungry) self[who]->Wait(dp);\<close>\<close>

definition DiningPh_check :: "nat \<Rightarrow> DiningPh \<Rightarrow> DiningPh" where
  "DiningPh_check i d =
     (if ph_state d i = Hungry then push_dining (Condition_Wait i dp_sem dp_lock) d else d)"

definition dp_user :: "nat \<Rightarrow> DiningPh \<Rightarrow> DiningPh" where
  "dp_user n d = (let i = n mod 5 in
     if n < 5 then d\<lparr>ph_state := (ph_state d)(i := Hungry)\<rparr>
     else if n < 10 then DiningPh_test i d
     else if n < 15 then DiningPh_check i d
     else if n < 20 then d\<lparr>ph_state := (ph_state d)(i := Thinking)\<rparr>
     else d)"

subsection \<open>The program\<close>

definition Philo_round :: "nat \<Rightarrow> Act list" where
  "Philo_round who = DiningPh_pickup who @ [a_print] @ Thread_Yield @ DiningPh_putdown who @ Thread_Yield"

definition Philo :: "nat \<Rightarrow> Act list" where
  "Philo who = Thread_Yield @ concat (replicate 10 (Philo_round who))"

text \<open>\<open>ThreadTest\<close>, called by \<open>main\<close>, which then finishes its thread.\<close>

definition ThreadTest :: "Act list" where
  "ThreadTest = concat (map Thread_Fork [0..<5])"

text \<open>
  The state behind the constructor \<open>DiningPh::DiningPh\<close> and the five calls of \<open>new Thread\<close>: thread 5
  is the one \<open>main\<close> runs in.
\<close>

definition DiningPh_new :: "Machine \<Rightarrow> DiningPh" where
  "DiningPh_new m = \<lparr>dk = \<lparr>
     threads = (\<lambda>t. if t < 5 then Some Thread_new else if t = 5 then Some (Thread_new\<lparr>th_status := RUNNING\<rparr>) else None),
     currentThread = 5, readyList = [], threadToBeDestroyed = None, ilevel = IntOn,
     saved = (\<lambda>t. []),
     script = (\<lambda>t. if t < 5 then ThreadRoot (Philo t) else if t = 5 then ThreadTest @ Thread_Finish else []),
     sems = (\<lambda>s. Semaphore_new 1), locks = (\<lambda>l. Lock_new l), conds = (\<lambda>c. []), kmach = m\<rparr>,
     ph_state = (\<lambda>i. Thinking)\<rparr>"

text \<open>Steps of the kernel, and of the threads' own code. \<open>D\<close> is as for \<open>kstep\<close>.\<close>

definition user_next :: "Kst \<Rightarrow> nat option" where
  "user_next k = (case script k (currentThread k) of A_user n # as \<Rightarrow> Some n | _ \<Rightarrow> None)"

inductive dstep :: "nat set \<Rightarrow> DiningPh \<Rightarrow> DiningPh \<Rightarrow> bool" for D where
  kern: "user_next (dk d) = None \<Longrightarrow> kstep D (dk d) k' \<Longrightarrow> dstep D d (d\<lparr>dk := k'\<rparr>)"
| user: "user_next (dk d) = Some n \<Longrightarrow> dstep D d (dp_user n (d\<lparr>dk := pop_act (dk d)\<rparr>))"

inductive dreach :: "nat set \<Rightarrow> DiningPh \<Rightarrow> DiningPh \<Rightarrow> bool" for D d0 where
  init: "dreach D d0 d0"
| step: "dreach D d0 d \<Longrightarrow> dstep D d d' \<Longrightarrow> dreach D d0 d'"

text \<open>
  A philosopher is at the table between the end of \<open>pickup\<close> and the statement
  \<open>state[who] = Thinking\<close> of \<open>putdown\<close>: what its thread does next with the lock and the monitor is
  to acquire the lock and put the sticks down.
\<close>

definition mon_act :: "Act \<Rightarrow> bool" where
  "mon_act a = (case a of A_P s \<Rightarrow> s = 0 | A_V s \<Rightarrow> s = 0 | A_wait c \<Rightarrow> True | A_signal c \<Rightarrow> True
     | A_broadcast c \<Rightarrow> True | A_user n \<Rightarrow> n < 20 | _ \<Rightarrow> False)"

definition mon :: "Act list \<Rightarrow> Act list" where
  "mon as = filter mon_act as"

definition at_table :: "nat \<Rightarrow> DiningPh \<Rightarrow> bool" where
  "at_table i d = (case mon (script (dk d) i) of
       a # as \<Rightarrow> a = a_think i \<or> a = A_P dp_sem \<and> as \<noteq> [] \<and> hd as = a_think i
     | [] \<Rightarrow> False)"

subsection \<open>The monitor's part of a script\<close>

lemma mon_act_simps [simp]:
  "mon_act (A_P s) = (s = 0)" "mon_act (A_V s) = (s = 0)" "mon_act (A_wait c)" "mon_act (A_signal c)"
  "mon_act (A_broadcast c)" "mon_act (A_user n) = (n < 20)"
  "\<not> mon_act A_off" "\<not> mon_act A_restore" "\<not> mon_act A_enable" "\<not> mon_act (A_destroy s)" "\<not> mon_act (A_setHeld l)"
  "\<not> mon_act (A_clearHeld l)" "\<not> mon_act A_yield" "\<not> mon_act A_finish" "\<not> mon_act A_next" "\<not> mon_act A_resume"
  "\<not> mon_act (A_ready t)"
  by (simp_all add: mon_act_def)

lemma mon_simps [simp]:
  "mon [] = []" "mon (a # as) = (if mon_act a then a # mon as else mon as)" "mon (as @ bs) = mon as @ mon bs"
  by (simp_all add: mon_def)

lemma brackets_mon: "brackets 0 h (mon as) = brackets 0 h as"
  by (induction as arbitrary: h) (auto split: if_splits)

lemmas dp_defs = dp_sem_def dp_lock_def a_hungry_def a_test_def a_check_def a_think_def a_print_def

text \<open>What an action does to the conditions.\<close>

definition act_conds :: "Act \<Rightarrow> nat \<Rightarrow> (nat \<Rightarrow> nat list) \<Rightarrow> nat \<Rightarrow> nat list" where
  "act_conds a t cs = (case a of A_wait c \<Rightarrow> cs(c := cs c @ [t]) | A_signal c \<Rightarrow> cs(c := tl (cs c))
     | A_broadcast c \<Rightarrow> cs(c := []) | _ \<Rightarrow> cs)"

lemma exec_act_mon:
  assumes "script k (currentThread k) = a # as" "exec_act a (pop_act k) = Inr k'"
  shows "mon (script k' t) = (if t = currentThread k \<and> \<not> (\<exists>s. a = A_P s \<and> sem_value (sems k s) = 0)
      then mon as else mon (script k t))"
    and "conds k' = act_conds a (currentThread k) (conds k)"
  using assms
  by (cases a; auto simp: exec_act_def Let_def Semaphore_P_body_def Thread_Sleep_def res_simps act_conds_def
      Semaphore_Destroy_body_def Condition_Signal_body_def Condition_Broadcast_body_def
      Thread_Yield_body_def Scheduler_FindNextToRun_def Scheduler_resume_simps
      split: list.splits if_splits)+

text \<open>A step of the kernel performs the monitor's next action of the running thread, or none.\<close>

lemma kstep_mon:
  assumes "kstep D k k'"
  shows "(\<forall>t. mon (script k' t) = mon (script k t)) \<and> conds k' = conds k
    \<or> (\<exists>a as. script k (currentThread k) = a # as \<and> mon_act a \<and> conds k' = act_conds a (currentThread k) (conds k)
         \<and> (\<forall>t. mon (script k' t) = (if t = currentThread k then mon as else mon (script k t))))"
  using assms
proof cases
  case (act a as)
  show ?thesis
  proof (cases "mon_act a \<and> \<not> (\<exists>s. a = A_P s \<and> sem_value (sems k s) = 0)")
    case True
    with act exec_act_mon[OF act] show ?thesis by simp
  next
    case False
    then have "conds k' = conds k" using exec_act_mon(2)[OF act] by (auto simp: act_conds_def split: Act.split)
    moreover have "mon (script k' t) = mon (script k t)" for t using exec_act_mon(1)[OF act] False act(1) by auto
    ultimately show ?thesis by blast
  qed
next
  case (tick_yield a as k1)
  then have "a = A_enable \<or> a = A_restore" by (auto simp: enables_def)
  with exec_act_mon[OF tick_yield(2,4)] tick_yield(1,2) show ?thesis
    by (auto simp: act_conds_def Thread_Yield_def)
qed (simp_all add: Semaphore_V_body_def Let_def split: list.split)

subsection \<open>The phases of a philosopher\<close>

definition leftN :: "nat \<Rightarrow> nat" where "leftN i = (i + 4) mod 5"
definition rightN :: "nat \<Rightarrow> nat" where "rightN i = (i + 1) mod 5"

text \<open>What is left of \<open>n\<close> rounds, before \<open>pickup\<close> and before \<open>putdown\<close>.\<close>

fun to_pick :: "nat \<Rightarrow> nat \<Rightarrow> Act list" where
  "to_pick i 0 = []"
| "to_pick i (Suc n) = [A_P 0, a_hungry i, a_test i, a_check i, A_V 0,
     A_P 0, a_think i, a_test (leftN i), a_test (rightN i), A_V 0] @ to_pick i n"

abbreviation to_put :: "nat \<Rightarrow> nat \<Rightarrow> Act list" where
  "to_put i n \<equiv> A_P 0 # a_think i # a_test (leftN i) # a_test (rightN i) # A_V 0 # to_pick i n"

text \<open>
  \<open>phil_ok i st w as\<close>: \<open>as\<close> is the monitor's part of what philosopher \<open>i\<close> has still to do, and the
  states agree with it; \<open>w\<close> says that the thread is in the queue of its condition. A signal still to be
  sent goes to a philosopher whose state is already \<open>Eating\<close>.
\<close>

inductive phil_ok :: "nat \<Rightarrow> (nat \<Rightarrow> PhState) \<Rightarrow> bool \<Rightarrow> Act list \<Rightarrow> bool" for i st w where
  outside: "phil_ok i st w (to_pick i n)"
| pick1: "phil_ok i st w (a_hungry i # a_test i # a_check i # A_V 0 # to_put i n)"
| pick2: "st i \<noteq> Thinking \<Longrightarrow> phil_ok i st w (a_test i # a_check i # A_V 0 # to_put i n)"
| pick_signal: "st i = Eating \<Longrightarrow> phil_ok i st w (A_signal i # a_check i # A_V 0 # to_put i n)"
| pick3: "st i \<noteq> Thinking \<Longrightarrow> phil_ok i st w (a_check i # A_V 0 # to_put i n)"
| wait1: "st i \<noteq> Thinking \<Longrightarrow> phil_ok i st w (A_V 0 # A_wait i # A_P 0 # A_V 0 # to_put i n)"
| wait2: "st i \<noteq> Thinking \<Longrightarrow> phil_ok i st w (A_wait i # A_P 0 # A_V 0 # to_put i n)"
| wait3: "st i \<noteq> Thinking \<Longrightarrow> w \<or> st i = Eating \<Longrightarrow> phil_ok i st w (A_P 0 # A_V 0 # to_put i n)"
| picked: "st i = Eating \<Longrightarrow> phil_ok i st w (A_V 0 # to_put i n)"
| table1: "st i = Eating \<Longrightarrow> phil_ok i st w (to_put i n)"
| table2: "st i = Eating \<Longrightarrow> phil_ok i st w (a_think i # a_test (leftN i) # a_test (rightN i) # A_V 0 # to_pick i n)"
| put1: "phil_ok i st w (a_test (leftN i) # a_test (rightN i) # A_V 0 # to_pick i n)"
| put_signal1: "st (leftN i) = Eating \<Longrightarrow> phil_ok i st w (A_signal (leftN i) # a_test (rightN i) # A_V 0 # to_pick i n)"
| put2: "phil_ok i st w (a_test (rightN i) # A_V 0 # to_pick i n)"
| put_signal2: "st (rightN i) = Eating \<Longrightarrow> phil_ok i st w (A_signal (rightN i) # A_V 0 # to_pick i n)"
| put3: "phil_ok i st w (A_V 0 # to_pick i n)"

lemma to_pick_Cons: "a # as = to_pick i n \<longleftrightarrow> (\<exists>m. n = Suc m \<and> a = A_P 0 \<and>
    as = a_hungry i # a_test i # a_check i # A_V 0 # to_put i m)"
  by (cases n) auto

lemma brackets_to_pick: "brackets 0 False (to_pick i n)"
  by (induction n) (simp_all add: dp_defs)

lemma mod5_simps [simp]:
  "i < 5 \<Longrightarrow> leftN (rightN i) = i" "i < 5 \<Longrightarrow> rightN (leftN i) = i" "leftN i \<noteq> i" "rightN i \<noteq> i"
  "leftN i < 5" "rightN i < 5" "leftN i \<noteq> rightN i"
  unfolding leftN_def rightN_def by presburger+

lemma phil_start: "mon (Philo i) = to_pick i 10" if "i < 5"
proof -
  have lt: "leftN i < 15" "rightN i < 15" using mod5_simps(5,6)[of i] by linarith+
  then have "mon (Philo_round i) = to_pick i 1"
    using that lt by (simp add: Philo_round_def DiningPh_pickup_def DiningPh_putdown_def Lock_Acquire_def Lock_Release_def
        Semaphore_P_def Semaphore_V_def Thread_Yield_def dp_defs leftN_def[symmetric] rightN_def[unfolded One_nat_def add_Suc_right add_0_right, symmetric])
  moreover have "mon (concat (replicate n xs)) = concat (replicate n (mon xs))" for n xs by (induction n) simp_all
  ultimately show ?thesis by (simp add: Philo_def Thread_Yield_def numeral_eq_Suc)
qed

text \<open>A philosopher's phase survives changes that keep it hungry or eating, and its signal due.\<close>

lemma phil_ok_mono:
  assumes "phil_ok i st w as" "st i \<noteq> Thinking \<Longrightarrow> st' i \<noteq> Thinking" "st i = Eating \<Longrightarrow> st' i = Eating"
    and "\<And>c bs. as = A_signal c # bs \<Longrightarrow> st c = Eating \<Longrightarrow> st' c = Eating" "w \<Longrightarrow> w' \<or> st' i = Eating"
  shows "phil_ok i st' w' as"
  using assms by (induction rule: phil_ok.induct) (auto intro: phil_ok.intros)

definition is_usr :: "Act \<Rightarrow> bool" where
  "is_usr a = (case a of A_user n \<Rightarrow> True | _ \<Rightarrow> False)"

lemma is_usr_simps [simp]:
  "is_usr (a_hungry i)" "is_usr (a_test i)" "is_usr (a_check i)" "is_usr (a_think i)"
  "\<not> is_usr (A_P s)" "\<not> is_usr (A_V s)" "\<not> is_usr (A_wait s)" "\<not> is_usr (A_signal s)"
  by (simp_all add: is_usr_def dp_defs)

text \<open>The actions of the kernel that belong to the monitor.\<close>

lemma phil_ok_kernel:
  assumes "phil_ok i st w (a # as)" "\<not> is_usr a" "\<not> w"
  shows "phil_ok i st (a = A_wait i) as"
  using assms(1)
  by cases (use assms(2,3) in \<open>auto simp: to_pick_Cons intro: phil_ok.intros\<close>)

lemma phil_ok_kernel_acts:
  assumes "phil_ok i st w (a # as)" "\<not> is_usr a"
  shows "a = A_P 0 \<or> a = A_V 0 \<or> a = A_wait i \<or> (\<exists>c. a = A_signal c \<and> st c = Eating)"
  using assms(1)
  by cases (use assms(2) in \<open>auto simp: to_pick_Cons\<close>)

lemma usr_distinct [simp]:
  "a_hungry i \<noteq> A_P s" "a_test i \<noteq> A_P s" "a_check i \<noteq> A_P s" "a_think i \<noteq> A_P s"
  "a_hungry i \<noteq> A_V s" "a_test i \<noteq> A_V s" "a_check i \<noteq> A_V s" "a_think i \<noteq> A_V s"
  "a_hungry i \<noteq> A_signal s" "a_test i \<noteq> A_signal s" "a_check i \<noteq> A_signal s" "a_think i \<noteq> A_signal s"
  by (simp_all add: dp_defs)

lemma far_codes [simp]: "leftN i \<noteq> 10 + i" "rightN i \<noteq> 10 + i"
  unfolding leftN_def rightN_def by presburger+

text \<open>The statements of the monitor.\<close>

lemma phil_ok_user:
  assumes "phil_ok i st w (a # as)" "is_usr a"
  obtains (hungry) "a = a_hungry i" "\<And>st' w'. st' i \<noteq> Thinking \<Longrightarrow> phil_ok i st' w' as" "brackets 0 True (a # as)"
  | (test) c where "a = a_test c" "c < 5 \<or> c = i" "\<And>st' w'. st' i = st i \<or> st' i = Eating \<Longrightarrow> phil_ok i st' w' as"
      "\<And>st' w'. st' c = Eating \<Longrightarrow> phil_ok i st' w' (A_signal c # as)"
  | (check) n where "a = a_check i" "st i \<noteq> Thinking" "as = A_V 0 # to_put i n"
  | (think) "a = a_think i" "\<And>st' w'. phil_ok i st' w' as" "brackets 0 True (a # as)"
  using assms(1)
proof cases
  case (outside n)
  then show ?thesis using assms(2) by (auto simp: to_pick_Cons)
next
  case (pick1 n)
  then show ?thesis by (intro hungry) (auto intro: phil_ok.intros simp: brackets_to_pick)
next
  case (pick2 n)
  then show ?thesis by (intro test[of i]) (auto intro: phil_ok.intros)
next
  case (pick3 n)
  then show ?thesis by (intro check) auto
next
  case (table2 n)
  then show ?thesis by (intro think) (auto intro: phil_ok.intros simp: brackets_to_pick)
next
  case (put1 n)
  then show ?thesis by (intro test[of "leftN i"]) (auto intro: phil_ok.intros)
next
  case (put2 n)
  then show ?thesis by (intro test[of "rightN i"]) (auto intro: phil_ok.intros)
qed (use assms(2) in auto)

lemma phil_ok_signal_holds: "phil_ok i st w (A_signal c # as) \<Longrightarrow> brackets 0 True (A_signal c # as)"
  by (cases rule: phil_ok.cases, assumption) (auto simp: brackets_to_pick to_pick_Cons)

lemma phil_ok_table: "phil_ok i st w (a_think i # as) \<or> phil_ok i st w (A_P 0 # a_think i # as) \<Longrightarrow> st i = Eating"
  by (auto elim!: phil_ok.cases simp: to_pick_Cons) (auto simp: dp_defs dest: sym)

subsection \<open>The invariant\<close>

definition neighbours_ok :: "(nat \<Rightarrow> PhState) \<Rightarrow> bool" where
  "neighbours_ok st \<longleftrightarrow> (\<forall>i<5. \<not> (st i = Eating \<and> st (rightN i) = Eating))"

definition phils :: "(nat \<Rightarrow> PhState) \<Rightarrow> (nat \<Rightarrow> nat list) \<Rightarrow> (nat \<Rightarrow> Act list) \<Rightarrow> bool" where
  "phils st cs ms \<longleftrightarrow> (\<forall>i<5. phil_ok i st (i \<in> set (cs i)) (ms i)) \<and> (\<forall>t\<ge>5. ms t = []) \<and> neighbours_ok st"

definition dining_inv :: "DiningPh \<Rightarrow> bool" where
  "dining_inv d \<longleftrightarrow> sched_ok (dk d) \<and> mutex_inv 0 (dk d) \<and>
     phils (ph_state d) (conds (dk d)) (\<lambda>t. mon (script (dk d) t))"

lemma phils_kernel:
  assumes "phils st cs ms" "ms t = a # as" "\<not> is_usr a" "t \<notin> set (cs t)"
  shows "phils st (act_conds a t cs) (ms(t := as))"
proof -
  have t: "t < 5" using assms(1,2) by (metis list.distinct(1) not_le phils_def)
  then have p: "phil_ok t st False (a # as)" using assms(1,2,4) by (auto simp: phils_def)
  note acts = phil_ok_kernel_acts[OF p assms(3)] and new = phil_ok_kernel[OF p assms(3)]
  have "phil_ok i st (i \<in> set (act_conds a t cs i)) ((ms(t := as)) i)" if i: "i < 5" for i
  proof (cases "i = t")
    case True
    have "(t \<in> set (act_conds a t cs t)) = (a = A_wait t)"
      using acts assms(4) by (cases "cs t") (auto simp: act_conds_def split: if_splits)
    with new True show ?thesis by simp
  next
    case False
    have "phil_ok i st (i \<in> set (cs i)) (ms i)" using assms(1) i by (simp add: phils_def)
    moreover have "i \<in> set (cs i) \<Longrightarrow> i \<in> set (act_conds a t cs i) \<or> st i = Eating"
      using acts by (auto simp: act_conds_def)
    ultimately show ?thesis using False by (auto intro: phil_ok_mono)
  qed
  with assms(1) t show ?thesis by (simp add: phils_def)
qed

text \<open>A statement of philosopher \<open>t\<close> that changes the states at \<open>c\<close>.\<close>

lemma phils_user:
  assumes "phils st cs ms" "t < 5" "phil_ok t (st(c := v)) (t \<in> set (cs t)) as" "neighbours_ok (st(c := v))"
    and "v = Eating \<or> c = t \<and> (\<forall>j\<noteq>t. \<forall>bs. ms j \<noteq> A_signal t # bs)"
  shows "phils (st(c := v)) cs (ms(t := as))"
proof -
  have "phil_ok i (st(c := v)) (i \<in> set (cs i)) (ms i)" if "i < 5" "i \<noteq> t" for i
    by (rule phil_ok_mono[of i st "i \<in> set (cs i)"]) (use assms(1,5) that in \<open>auto simp: phils_def\<close>)
  with assms show ?thesis by (auto simp: phils_def)
qed

lemma neighbours_eat:
  assumes "neighbours_ok st" "c < 5" "st (leftN c) \<noteq> Eating" "st (rightN c) \<noteq> Eating"
  shows "neighbours_ok (st(c := Eating))"
  using assms by (auto simp: neighbours_ok_def)

lemma neighbours_stop: "neighbours_ok st \<Longrightarrow> v \<noteq> Eating \<Longrightarrow> neighbours_ok (st(c := v))"
  by (auto simp: neighbours_ok_def)

lemma push_dining_simps [simp]:
  "ph_state (push_dining as d) = ph_state d" "dk (push_dining as d) = push_acts as (dk d)"
  by (simp_all add: push_dining_def)

lemma mon_calls [simp]: "mon (Condition_Signal c) = [A_signal c]" "mon (Condition_Wait c 0 l) = [A_V 0, A_wait c, A_P 0]"
  by (simp_all add: Condition_Signal_def Condition_Wait_def Lock_Acquire_def Lock_Release_def Semaphore_P_def Semaphore_V_def)

lemma dp_user_codes:
  "i < 5 \<Longrightarrow> a_hungry i = A_user n \<Longrightarrow> dp_user n d = d\<lparr>ph_state := (ph_state d)(i := Hungry)\<rparr>"
  "i < 5 \<Longrightarrow> a_test i = A_user n \<Longrightarrow> dp_user n d = DiningPh_test i d"
  "i < 5 \<Longrightarrow> a_check i = A_user n \<Longrightarrow> dp_user n d = DiningPh_check i d"
  "i < 5 \<Longrightarrow> a_think i = A_user n \<Longrightarrow> dp_user n d = d\<lparr>ph_state := (ph_state d)(i := Thinking)\<rparr>"
  "20 \<le> n \<Longrightarrow> dp_user n d = d"
proof -
  have "i < 5 \<Longrightarrow> (10 + i) mod 5 = i" "i < 5 \<Longrightarrow> (15 + i) mod 5 = i" by presburger+
  then show "i < 5 \<Longrightarrow> a_hungry i = A_user n \<Longrightarrow> dp_user n d = d\<lparr>ph_state := (ph_state d)(i := Hungry)\<rparr>"
    "i < 5 \<Longrightarrow> a_test i = A_user n \<Longrightarrow> dp_user n d = DiningPh_test i d"
    "i < 5 \<Longrightarrow> a_check i = A_user n \<Longrightarrow> dp_user n d = DiningPh_check i d"
    "i < 5 \<Longrightarrow> a_think i = A_user n \<Longrightarrow> dp_user n d = d\<lparr>ph_state := (ph_state d)(i := Thinking)\<rparr>"
    "20 \<le> n \<Longrightarrow> dp_user n d = d"
    by (auto simp: dp_user_def dp_defs Let_def)
qed

text \<open>A thread that is about to change its own state holds the lock, so nobody owes it a signal.\<close>

lemma no_signal_due:
  assumes "phils st (conds k) (\<lambda>t. mon (script k t))" "mutex_inv 0 k" "brackets 0 True (mon (script k t))" "j \<noteq> t"
  shows "mon (script k j) \<noteq> A_signal c # bs"
proof
  assume s: "mon (script k j) = A_signal c # bs"
  then have "j < 5" using assms(1) by (metis list.distinct(1) not_le phils_def)
  then have "brackets 0 True (mon (script k j))"
    using assms(1) s phil_ok_signal_holds[of j st "j \<in> set (conds k j)" c bs] by (auto simp: phils_def)
  then have "j \<in> holds 0 k" "t \<in> holds 0 k" using assms(3) by (simp_all add: holds_def brackets_mon)
  with mutex_inv_unique[OF assms(2)] assms(4) show False by blast
qed

text \<open>
  The statements of the monitor keep the phases. The kernel \<open>dk d\<close> has the statement already taken off
  the script of the running thread \<open>t\<close>; \<open>ms\<close> is the monitor's part of the scripts before.
\<close>

definition dining_view :: "DiningPh \<Rightarrow> (nat \<Rightarrow> PhState) \<times> (nat \<Rightarrow> nat list) \<times> (nat \<Rightarrow> Act list)" where
  "dining_view d = (ph_state d, conds (dk d), \<lambda>t. mon (script (dk d) t))"

definition phils_of :: "(nat \<Rightarrow> PhState) \<times> (nat \<Rightarrow> nat list) \<times> (nat \<Rightarrow> Act list) \<Rightarrow> bool" where
  "phils_of = (\<lambda>(st, cs, ms). phils st cs ms)"

lemma view_push:
  "dining_view d = (st, cs, ms) \<Longrightarrow> currentThread (dk d) = t \<Longrightarrow>
     dining_view (push_dining as d) = (st, cs, ms(t := mon as @ ms t))"
  "dining_view d = (st, cs, ms) \<Longrightarrow> dining_view (d\<lparr>ph_state := st'\<rparr>) = (st', cs, ms)"
  by (auto simp: dining_view_def)

lemma test_phils:
  assumes "phils st cs ms" "t < 5" "c < 5" "dining_view d = (st, cs, ms(t := p))" "currentThread (dk d) = t"
    and "\<And>st' w'. st' t = st t \<or> st' t = Eating \<Longrightarrow> phil_ok t st' w' p"
      "\<And>st' w'. st' c = Eating \<Longrightarrow> phil_ok t st' w' (A_signal c # p)"
  shows "phils_of (dining_view (DiningPh_test c d))"
proof -
  have st: "ph_state d = st" using assms(4) by (simp add: dining_view_def)
  have nb: "neighbours_ok st" using assms(1) by (simp add: phils_def)
  show ?thesis
  proof (cases "st (leftN c) \<noteq> Eating \<and> st c = Hungry \<and> st (rightN c) \<noteq> Eating")
    case True
    have "dining_view (DiningPh_test c d) = (st(c := Eating), cs, ms(t := A_signal c # p))"
      using True st view_push(1)[OF view_push(2)[OF assms(4)], of "st(c := Eating)" t] assms(5)
      by (simp add: DiningPh_test_def leftN_def rightN_def)
    moreover have "phils (st(c := Eating)) cs (ms(t := A_signal c # p))"
      using assms(7) True by (intro phils_user[OF assms(1,2)]) (auto intro: neighbours_eat nb assms(3))
    ultimately show ?thesis by (simp add: phils_of_def)
  next
    case False
    then have "DiningPh_test c d = d" using st by (auto simp: DiningPh_test_def leftN_def rightN_def)
    moreover have "phils st cs (ms(t := p))" using assms(1,2,6) by (auto simp: phils_def)
    ultimately show ?thesis using assms(4) by (simp add: phils_of_def)
  qed
qed

lemma check_phils:
  assumes "phils st cs ms" "t < 5" "dining_view d = (st, cs, ms(t := A_V 0 # to_put t n))" "currentThread (dk d) = t"
    and "st t \<noteq> Thinking"
  shows "phils_of (dining_view (DiningPh_check t d))"
proof -
  have st: "ph_state d = st" using assms(3) by (simp add: dining_view_def)
  show ?thesis
  proof (cases "st t = Hungry")
    case True
    have "dining_view (DiningPh_check t d) = (st, cs, ms(t := A_V 0 # A_wait t # A_P 0 # A_V 0 # to_put t n))"
      using True st view_push(1)[OF assms(3,4)] by (simp add: DiningPh_check_def dp_sem_def)
    moreover have "phils st cs (ms(t := A_V 0 # A_wait t # A_P 0 # A_V 0 # to_put t n))"
      using assms(1,2,5) by (auto simp: phils_def intro: phil_ok.wait1)
    ultimately show ?thesis by (simp add: phils_of_def)
  next
    case False
    then have "DiningPh_check t d = d" "st t = Eating" using st assms(5) by (cases "st t"; auto simp: DiningPh_check_def)+
    moreover from this(2) have "phils st cs (ms(t := A_V 0 # to_put t n))"
      using assms(1,2) by (auto simp: phils_def intro: phil_ok.picked)
    ultimately show ?thesis using assms(3) by (simp add: phils_of_def)
  qed
qed

lemma dp_user_phils:
  assumes ph: "phils st cs ms" and ms: "ms t = A_user n # p" and d: "dining_view d = (st, cs, ms(t := p))" "currentThread (dk d) = t"
    and mx: "\<And>j c bs. brackets 0 True (ms t) \<Longrightarrow> j \<noteq> t \<Longrightarrow> ms j \<noteq> A_signal c # bs"
  shows "phils_of (dining_view (dp_user n d))"
proof -
  have t: "t < 5" using ph ms by (metis list.distinct(1) not_le phils_def)
  have p: "phil_ok t st (t \<in> set (cs t)) (A_user n # p)" using ph t ms by (metis phils_def)
  have st: "ph_state d = st" using d by (simp add: dining_view_def)
  have own: "phils (st(t := v)) cs (ms(t := p))"
    if "\<And>w'. phil_ok t (st(t := v)) w' p" "v \<noteq> Eating" "brackets 0 True (A_user n # p)" for v
    using that ph mx ms by (intro phils_user[OF ph t]) (auto simp: phils_def intro: neighbours_stop)
  have "is_usr (A_user n)" by (simp add: is_usr_def)
  from p this show ?thesis
  proof (cases rule: phil_ok_user)
    case hungry
    then show ?thesis using own[of Hungry] view_push(2)[OF d(1)]
      by (simp add: dp_user_codes(1)[OF t hungry(1)[symmetric]] st phils_of_def)
  next
    case (test c)
    then have "c < 5" using t by auto
    from test_phils[OF ph t this d test(3,4)] show ?thesis
      by (simp add: dp_user_codes(2)[OF \<open>c < 5\<close> test(1)[symmetric]])
  next
    case (check m)
    then show ?thesis using check_phils[OF ph t _ d(2)] d(1) by (simp add: dp_user_codes(3)[OF t check(1)[symmetric]])
  next
    case think
    then show ?thesis using own[of Thinking] view_push(2)[OF d(1)]
      by (simp add: dp_user_codes(4)[OF t think(1)[symmetric]] st phils_of_def)
  qed
qed

lemma dp_user_script:
  "\<exists>as. dk (dp_user n d) = push_acts as (dk d) \<and> (\<forall>t. A_ready t \<notin> set as)
     \<and> (mon as = [] \<or> (\<exists>c. mon as = [A_signal c]) \<or> 10 \<le> n \<and> n < 15 \<and> (\<exists>c. mon as = [A_V 0, A_wait c, A_P 0]))"
proof -
  have nil: "push_acts [] k = k" for k by (simp add: push_acts_def)
  have rd: "A_ready t \<notin> set (Condition_Signal c)" "A_ready t \<notin> set (Condition_Wait c s l)" for t c s l
    by (simp_all add: Condition_Signal_def Condition_Wait_def Lock_Acquire_def Lock_Release_def Semaphore_P_def Semaphore_V_def)
  consider "dk (dp_user n d) = dk d" | c where "dk (dp_user n d) = push_acts (Condition_Signal c) (dk d)"
    | c where "10 \<le> n" "n < 15" "dk (dp_user n d) = push_acts (Condition_Wait c 0 0) (dk d)"
  proof -
    assume a: "dk (dp_user n d) = dk d \<Longrightarrow> thesis" "\<And>c. dk (dp_user n d) = push_acts (Condition_Signal c) (dk d) \<Longrightarrow> thesis"
      "\<And>c. 10 \<le> n \<Longrightarrow> n < 15 \<Longrightarrow> dk (dp_user n d) = push_acts (Condition_Wait c 0 0) (dk d) \<Longrightarrow> thesis"
    have "dk (DiningPh_test c d) = dk d \<or> dk (DiningPh_test c d) = push_acts (Condition_Signal c) (dk d)"
      "dk (DiningPh_check c d) = dk d \<or> dk (DiningPh_check c d) = push_acts (Condition_Wait c 0 0) (dk d)" for c
      by (simp_all add: DiningPh_test_def DiningPh_check_def dp_sem_def dp_lock_def)
    moreover have "dk (dp_user n d) = dk d \<or> dp_user n d = DiningPh_test (n mod 5) d
        \<or> 10 \<le> n \<and> n < 15 \<and> dp_user n d = DiningPh_check (n mod 5) d"
      by (simp add: dp_user_def Let_def)
    ultimately show thesis using a by metis
  qed
  then show ?thesis
  proof cases
    case 1
    then show ?thesis by (intro exI[of _ "[]"]) (simp add: nil)
  next
    case (2 c)
    then show ?thesis by (intro exI[of _ "Condition_Signal c"]) (simp add: rd)
  next
    case (3 c)
    then show ?thesis by (intro exI[of _ "Condition_Wait c 0 0"]) (simp add: rd)
  qed
qed

lemma dp_user_mutex:
  assumes "mutex_inv 0 (dk d)" "10 \<le> n \<and> n < 15 \<Longrightarrow> \<exists>q. mon (script (dk d) (currentThread (dk d))) = A_V 0 # q"
  shows "mutex_inv 0 (dk (dp_user n d))"
proof -
  obtain as where as: "dk (dp_user n d) = push_acts as (dk d)"
      "mon as = [] \<or> (\<exists>c. mon as = [A_signal c]) \<or> 10 \<le> n \<and> n < 15 \<and> (\<exists>c. mon as = [A_V 0, A_wait c, A_P 0])"
    using dp_user_script by blast
  have "brackets 0 h (mon as @ mon (script (dk d) (currentThread (dk d)))) = brackets 0 h (mon (script (dk d) (currentThread (dk d))))" for h
    using as(2) assms(2) by auto
  then have "brackets 0 h (mon (script (dk (dp_user n d)) t)) = brackets 0 h (mon (script (dk d) t))" for h t
    by (simp add: as(1) del: brackets.simps)
  then have "brackets 0 h (script (dk (dp_user n d)) t) = brackets 0 h (script (dk d) t)" for h t
    unfolding brackets_mon .
  then show ?thesis using assms(1) as(1) by (intro mutex_inv_same[OF assms(1)]) simp_all
qed

lemma user_step_inv:
  assumes "dining_inv d" "user_next (dk d) = Some n"
  shows "dining_inv (dp_user n (d\<lparr>dk := pop_act (dk d)\<rparr>))" (is "dining_inv (dp_user n ?d)")
proof -
  let ?t = "currentThread (dk d)" and ?ms = "\<lambda>t. mon (script (dk d) t)"
  obtain as where sc: "script (dk d) ?t = A_user n # as"
    using assms(2) by (auto simp: user_next_def split: list.splits Act.splits)
  have inv: "sched_ok (dk d)" "mutex_inv 0 (dk d)" "phils (ph_state d) (conds (dk d)) ?ms"
    using assms(1) by (simp_all add: dining_inv_def)
  have view: "dining_view ?d = (ph_state d, conds (dk d), ?ms(?t := mon as))"
    using sc by (auto simp: dining_view_def)
  have "running (dk ?d)" using pop_running[OF inv(1) sc] by simp
  moreover obtain bs where "dk (dp_user n ?d) = push_acts bs (dk ?d)" "\<forall>t. A_ready t \<notin> set bs" using dp_user_script by blast
  ultimately have sched: "sched_ok (dk (dp_user n ?d))" using push_running running_sched by metis
  have pop: "mutex_inv 0 (dk ?d)" using sc by (intro mutex_inv_same[OF inv(2)]) auto
  have "phils_of (dining_view (dp_user n ?d)) \<and> mutex_inv 0 (dk (dp_user n ?d))"
  proof (cases "n < 20")
    case False
    then have "?ms(?t := mon as) = ?ms" using sc by auto
    with False view inv pop show ?thesis by (simp add: dp_user_codes(5) phils_of_def)
  next
    case True
    then have ms: "?ms ?t = A_user n # mon as" using sc by simp
    have t: "?t < 5" using inv(3) ms by (metis list.distinct(1) not_le phils_def)
    have p: "phil_ok ?t (ph_state d) (?t \<in> set (conds (dk d) ?t)) (A_user n # mon as)" using inv(3) t ms by (metis phils_def)
    have "phils_of (dining_view (dp_user n ?d))"
      using no_signal_due[OF inv(3,2)] by (intro dp_user_phils[OF inv(3) ms view]) auto
    moreover have "\<exists>q. mon as = A_V 0 # q" if "10 \<le> n" "n < 15"
    proof -
      have "is_usr (A_user n)" by (simp add: is_usr_def)
      from p this show ?thesis by (cases rule: phil_ok_user) (use that t in \<open>auto simp: dp_defs\<close>)
    qed
    ultimately show ?thesis using sc pop by (intro conjI dp_user_mutex) auto
  qed
  with sched show ?thesis by (simp add: dining_inv_def phils_of_def dining_view_def)
qed

lemma kernel_step_inv:
  assumes "dining_inv d" "user_next (dk d) = None" "kstep D (dk d) k'" "0 \<notin> D"
  shows "dining_inv (d\<lparr>dk := k'\<rparr>)"
proof -
  let ?k = "dk d" and ?ms = "\<lambda>t. mon (script (dk d) t)"
  have inv: "sched_ok ?k" "mutex_inv 0 ?k" "phils (ph_state d) (conds ?k) ?ms"
    using assms(1) by (simp_all add: dining_inv_def)
  have "phils (ph_state d) (conds k') (\<lambda>t. mon (script k' t))"
    using kstep_mon[OF assms(3)]
  proof (elim disjE exE conjE)
    assume "\<forall>t. mon (script k' t) = ?ms t" "conds k' = conds ?k"
    with inv(3) show ?thesis by simp
  next
    fix a as
    assume a: "script ?k (currentThread ?k) = a # as" "mon_act a" "conds k' = act_conds a (currentThread ?k) (conds ?k)"
      "\<forall>t. mon (script k' t) = (if t = currentThread ?k then mon as else ?ms t)"
    have "\<not> is_usr a" using a(1) assms(2) by (auto simp: is_usr_def user_next_def split: Act.splits)
    moreover have "status_of ?k (currentThread ?k) = Some RUNNING"
      using inv(1) a(1,2) by (auto simp: sched_ok_def current_ok_def)
    then have "currentThread ?k \<notin> set (conds ?k (currentThread ?k))"
      using inv(1) by (fastforce simp: sched_ok_def queues_ok_def waitq_def dest: spec[of _ "Inr (currentThread ?k)"])
    ultimately have "phils (ph_state d) (conds k') (?ms(currentThread ?k := mon as))"
      using phils_kernel[OF inv(3), of "currentThread ?k" a "mon as"] a by simp
    moreover have "(\<lambda>t. mon (script k' t)) = ?ms(currentThread ?k := mon as)" using a(4) by auto
    ultimately show ?thesis by simp
  qed
  with kstep_sched[OF assms(3) inv(1)] kstep_mutex[OF assms(3,4) inv(2)] show ?thesis by (simp add: dining_inv_def)
qed

lemma dreach_inv:
  assumes "dreach D d0 d" "0 \<notin> D" "dining_inv d0"
  shows "dining_inv d"
  using assms(1)
proof induction
  case (step d d')
  from step(2) step.IH show ?case
    by cases (use assms(2) kernel_step_inv user_step_inv in blast)+
qed (rule assms(3))

lemma start_inv: "dining_inv (DiningPh_new m)"
proof -
  let ?k = "dk (DiningPh_new m)"
  have mon: "mon (script ?k t) = (if t < 5 then to_pick t 10 else [])" for t
    by (simp add: DiningPh_new_def ThreadRoot_def Thread_Finish_def phil_start ThreadTest_def Thread_Fork_def numeral_eq_Suc)
  then have br: "brackets 0 False (script ?k t)" for t
    by (subst brackets_mon[symmetric]) (simp add: brackets_to_pick)
  then have "holds 0 ?k = {}" using brackets_exclusive by (auto simp: holds_def)
  then have "mutex_inv 0 ?k" using br by (simp add: mutex_inv_def DiningPh_new_def Semaphore_new_def)
  moreover have "phils (ph_state (DiningPh_new m)) (conds ?k) (\<lambda>t. mon (script ?k t))"
    using phil_ok.outside by (auto simp: phils_def mon neighbours_ok_def) (simp_all add: DiningPh_new_def)
  moreover have "sched_ok ?k"
  proof -
    have rdy: "A_ready u \<notin> set (Philo t)" for t u
    proof
      assume "A_ready u \<in> set (Philo t)"
      then show False by (auto simp: Philo_def Philo_round_def DiningPh_pickup_def DiningPh_putdown_def Thread_Yield_def
          Lock_Acquire_def Lock_Release_def Semaphore_P_def Semaphore_V_def dp_defs split: if_splits)
    qed
    have "A_ready t \<in> set (script ?k u) \<Longrightarrow> u = 5 \<and> t < 5" for t u
      using rdy by (auto simp: DiningPh_new_def ThreadRoot_def Thread_Finish_def ThreadTest_def Thread_Fork_def split: if_splits)
    moreover have "count_list (script ?k 5) (A_ready t) = 1" if "t < 5" for t
      using that by (auto simp: DiningPh_new_def ThreadTest_def Thread_Fork_def Thread_Finish_def numeral_eq_Suc less_Suc_eq)
    moreover have st: "status_of ?k = (\<lambda>t. if t < 5 then Some JUST_CREATED else if t = 5 then Some RUNNING else None)"
      by (auto simp: status_of_def DiningPh_new_def Thread_new_def)
    ultimately have "forks_ok ?k" unfolding forks_ok_def by metis
    moreover have "waitq ?k = (\<lambda>q. [])"
      by (auto simp: waitq_def DiningPh_new_def Semaphore_new_def split: sum.split)
    moreover have "currentThread ?k = 5" "readyList ?k = []" "threadToBeDestroyed ?k = None"
      by (simp_all add: DiningPh_new_def)
    ultimately show ?thesis by (simp add: sched_ok_def queues_ok_def current_ok_def destroy_ok_def st)
  qed
  ultimately show ?thesis by (simp add: dining_inv_def)
qed

text \<open>C24: The dining philosophers. From the state in which \<open>ThreadTest\<close> has created the monitor and the
  five threads, under any interleaving and timer preemption and with any device handlers that leave
  the semaphore of the monitor's lock alone, a philosopher at the table is recorded as \<open>Eating\<close>, no two
  neighbours are recorded so, and two neighbours are never at the table at the same time.\<close>

theorem philosophers_exclude:
  assumes "dreach D (DiningPh_new m) d" "0 \<notin> D" "i < 5"
  shows "(at_table i d \<longrightarrow> ph_state d i = Eating)
    \<and> \<not> (ph_state d i = Eating \<and> ph_state d ((i + 1) mod 5) = Eating)
    \<and> \<not> (at_table i d \<and> at_table ((i + 1) mod 5) d)"
proof -
  have ph: "phils (ph_state d) (conds (dk d)) (\<lambda>t. mon (script (dk d) t))"
    using dreach_inv[OF assms(1,2) start_inv] by (simp add: dining_inv_def)
  have eat: "ph_state d j = Eating" if j: "at_table j d" "j < 5" for j
  proof -
    have p: "phil_ok j (ph_state d) (j \<in> set (conds (dk d) j)) (mon (script (dk d) j))" using ph j(2) by (simp add: phils_def)
    obtain as where "mon (script (dk d) j) = a_think j # as \<or> mon (script (dk d) j) = A_P 0 # a_think j # as"
      using j(1) by (auto simp: at_table_def dp_sem_def split: list.splits) (metis list.exhaust_sel)
    with p show ?thesis using phil_ok_table by metis
  qed
  have "\<not> (ph_state d i = Eating \<and> ph_state d ((i + 1) mod 5) = Eating)"
    using ph assms(3) by (auto simp: phils_def neighbours_ok_def rightN_def)
  with eat[of i] eat[of "(i + 1) mod 5"] assms(3) show ?thesis by auto
qed

text \<open>A chosen execution: \<open>True\<close> lets the timer make the thread yield behind the action.\<close>

fun drun :: "bool list \<Rightarrow> DiningPh \<Rightarrow> DiningPh option" where
  "drun [] d = Some d"
| "drun (b # bs) d =
     (case script (dk d) (currentThread (dk d)) of [] \<Rightarrow> None
      | a # as \<Rightarrow> (case user_next (dk d) of
          Some c \<Rightarrow> drun bs (dp_user c (d\<lparr>dk := pop_act (dk d)\<rparr>))
        | None \<Rightarrow> (case exec_act a (pop_act (dk d)) of Inl e \<Rightarrow> None
          | Inr k \<Rightarrow> if b then (if enables a (dk d) then drun bs (d\<lparr>dk := push_acts Thread_Yield k\<rparr>) else None)
                    else drun bs (d\<lparr>dk := k\<rparr>))))"

lemma drun_dreach: "dreach D d0 d \<Longrightarrow> drun bs d = Some d' \<Longrightarrow> dreach D d0 d'"
proof (induction bs arbitrary: d)
  case (Cons b bs)
  then obtain a as where sc: "script (dk d) (currentThread (dk d)) = a # as" by (auto split: list.splits)
  show ?case
  proof (cases "user_next (dk d)")
    case (Some c)
    with sc Cons dreach.step[OF Cons.prems(1) dstep.user[OF Some]] show ?thesis by simp
  next
    case None
    with Cons.prems(2) sc obtain k where k: "exec_act a (pop_act (dk d)) = Inr k"
        "if b then enables a (dk d) \<and> drun bs (d\<lparr>dk := push_acts Thread_Yield k\<rparr>) = Some d' else drun bs (d\<lparr>dk := k\<rparr>) = Some d'"
      by (auto split: sum.splits if_splits)
    show ?thesis
    proof (cases b)
      case True
      from dreach.step[OF Cons.prems(1) dstep.kern[OF None kstep.tick_yield[OF sc _ k(1)]]] k(2) True Cons.IH show ?thesis by simp
    next
      case False
      from dreach.step[OF Cons.prems(1) dstep.kern[OF None kstep.act[OF sc k(1)]]] k(2) False Cons.IH show ?thesis by simp
    qed
  qed
qed simp

text \<open>With two preemptions of the first thread philosopher 0 is at the table; the rest of the scripts does not matter for that.\<close>

definition dining_demo :: DiningPh where
  "dining_demo = DiningPh_new (Machine_new False [] False)"

definition Philo_rest :: "nat \<Rightarrow> Act list" where
  "Philo_rest i = [a_test ((i + 4) mod 5), a_test ((i + 1) mod 5)] @ Lock_Release dp_sem dp_lock @ Thread_Yield @ concat (replicate 9 (Philo_round i))"

lemma Philo_unfold: "Philo i = Thread_Yield @ DiningPh_pickup i @ [a_print] @ Thread_Yield @ Lock_Acquire dp_sem dp_lock @ [a_think i] @ Philo_rest i"
proof -
  have "replicate 10 xs = xs # replicate 9 xs" for xs :: "Act list" by (simp add: numeral_eq_Suc)
  then show ?thesis by (simp only: Philo_def Philo_rest_def concat.simps) (simp add: Philo_round_def DiningPh_putdown_def)
qed

definition dining_schedule :: "bool list" where
  "dining_schedule = [False, False, True, False, False, False, False, False, False, True,
     False, False, False, False, False, False, False, False, False, False, False, False, False, False, False, False]"

lemma ThreadTest_unfold: "ThreadTest = Thread_Fork 0 @ concat (map Thread_Fork [1, 2, 3, 4])"
  by (simp add: ThreadTest_def numeral_eq_Suc)

lemma dining_run: "\<exists>d. drun dining_schedule dining_demo = Some d \<and> at_table 0 d"
  by (simp add: dining_schedule_def dining_demo_def DiningPh_new_def ThreadTest_unfold Thread_Fork_def act_defs Philo_unfold DiningPh_pickup_def
     dp_defs dp_user_def DiningPh_test_def DiningPh_check_def push_dining_def at_table_def user_next_def
     Condition_Signal_def Condition_Signal_body_def)

theorem philosophers_exclude_witness:
  "\<exists>d. dreach {} dining_demo d \<and> at_table 0 d \<and> ph_state d 0 = Eating \<and> \<not> at_table 1 d \<and> ph_state d 1 \<noteq> Eating"
proof -
  obtain d where d: "drun dining_schedule dining_demo = Some d" "at_table 0 d"
    using dining_run by blast
  have r: "dreach {} (DiningPh_new (Machine_new False [] False)) d"
    using drun_dreach[OF dreach.init d(1)] by (simp add: dining_demo_def)
  show ?thesis using d(2) r philosophers_exclude[OF r, of 0] by (auto simp: dining_demo_def)
qed

end
