(* ===== verification/Nachos_Coff.thy ===== *)
theory Nachos_Coff
  imports Nachos_AddrSpace
begin

text \<open>
  \<open>bin/coff2noff.c\<close> and \<open>bin/coff2flat.c\<close>, the tools that turn the output of the MIPS linker (the
  COFF format of \<open>bin/coff.h\<close>) into the executables of Nachos. The state \<open>Conv\<close> holds the bytes
  and the position of the two descriptors; \<open>cv_room\<close> is how long the output can grow before
  \<open>write\<close> writes less than it was asked to, and \<open>cv_open\<close> says whether the output could be
  opened. A call of \<open>read\<close> or \<open>write\<close> with a negative count returns \<open>-1\<close>, a call of \<open>lseek\<close> with a
  negative offset changes nothing. Each \<open>exit(1)\<close> of the source is a constructor of \<open>coff_exit\<close>.
  The memory \<open>malloc\<close> returns is assumed to exist, and the messages printed are left out.
\<close>

subsection \<open>The COFF format\<close>

definition MIPSELMAGIC :: int where "MIPSELMAGIC = 0x0162"
definition OMAGIC :: int where "OMAGIC = 263"

record filehdr =
  f_magic :: u16
  f_nscns :: u16
  f_timdat :: int
  f_symptr :: int
  f_nsyms :: int
  f_opthdr :: u16
  f_flags :: u16

record aouthdr =
  a_magic :: int
  a_vstamp :: int
  a_tsize :: int
  a_dsize :: int
  a_bsize :: int
  a_entry :: int
  a_text_start :: int
  a_data_start :: int
  a_bss_start :: int
  a_gprmask :: int
  a_cprmask :: "int list"
  a_gp_value :: int

record scnhdr =
  s_name :: "byte list"
  s_paddr :: int
  s_vaddr :: int
  s_size :: int
  s_scnptr :: int
  s_relptr :: int
  s_lnnoptr :: int
  s_nreloc :: u16
  s_nlnno :: u16
  s_flags :: int

text \<open>Fields at an offset of a structure: two and four bytes, little-endian.\<close>

definition short_at :: "byte list \<Rightarrow> nat \<Rightarrow> u16" where
  "short_at bs i = ucast (bs ! i) OR push_bit 8 (ucast (bs ! (i + 1)))"

definition int_at :: "byte list \<Rightarrow> nat \<Rightarrow> int" where
  "int_at bs i = sint (bytes_word (take 4 (drop i bs)))"

definition filehdr_of :: "byte list \<Rightarrow> filehdr" where
  "filehdr_of bs = \<lparr>f_magic = short_at bs 0, f_nscns = short_at bs 2, f_timdat = int_at bs 4,
     f_symptr = int_at bs 8, f_nsyms = int_at bs 12, f_opthdr = short_at bs 16, f_flags = short_at bs 18\<rparr>"

definition aouthdr_of :: "byte list \<Rightarrow> aouthdr" where
  "aouthdr_of bs = \<lparr>a_magic = sint (short_at bs 0), a_vstamp = sint (short_at bs 2), a_tsize = int_at bs 4,
     a_dsize = int_at bs 8, a_bsize = int_at bs 12, a_entry = int_at bs 16, a_text_start = int_at bs 20,
     a_data_start = int_at bs 24, a_bss_start = int_at bs 28, a_gprmask = int_at bs 32,
     a_cprmask = map (int_at bs) [36, 40, 44, 48], a_gp_value = int_at bs 52\<rparr>"

definition scnhdr_of :: "byte list \<Rightarrow> scnhdr" where
  "scnhdr_of bs = \<lparr>s_name = take 8 bs, s_paddr = int_at bs 8, s_vaddr = int_at bs 12, s_size = int_at bs 16,
     s_scnptr = int_at bs 20, s_relptr = int_at bs 24, s_lnnoptr = int_at bs 28, s_nreloc = short_at bs 32,
     s_nlnno = short_at bs 34, s_flags = int_at bs 36\<rparr>"

text \<open>An array of \<open>n\<close> section headers, forty bytes each.\<close>

definition scnhdrs_of :: "nat \<Rightarrow> byte list \<Rightarrow> scnhdr list" where
  "scnhdrs_of n bs = map (\<lambda>i. scnhdr_of (take 40 (drop (40 * i) bs))) [0..<n]"

text \<open>The conversions of the little-endian build, and an \<open>int\<close> with its wrap-around.\<close>

definition Coff_WordToHost :: "int \<Rightarrow> int" where
  "Coff_WordToHost w = sint (word_of_int w :: u32)"

definition Coff_ShortToHost :: "u16 \<Rightarrow> u16" where
  "Coff_ShortToHost shortword = shortword"

definition i32 :: "int \<Rightarrow> int" where
  "i32 x = sint (word_of_int x :: u32)"

text \<open>\<open>!strcmp(s_name, lit)\<close> for a literal of at most seven characters.\<close>

definition name_is :: "scnhdr \<Rightarrow> string \<Rightarrow> bool" where
  "name_is s lit \<longleftrightarrow> take (length lit + 1) (s_name s) = map of_char lit @ [0]"

subsection \<open>The host's files\<close>

datatype coff_exit =
    Usage | CannotOpen | TooShort | UnableToWrite | NotMipsel | NotOmagic
  | DataAndRdata | BssAndSbss | UnknownSegment

record Conv =
  cv_in :: "byte list"
  cv_ipos :: nat
  cv_out :: "byte list"
  cv_opos :: nat
  cv_open :: bool
  cv_room :: nat

type_synonym 'a conv = "coff_exit \<times> Conv + 'a"

definition bindX :: "'a conv \<Rightarrow> ('a \<Rightarrow> 'b conv) \<Rightarrow> 'b conv" where
  "bindX m f = (case m of Inl e \<Rightarrow> Inl e | Inr x \<Rightarrow> f x)"

definition host_read :: "int \<Rightarrow> Conv \<Rightarrow> int \<times> byte list \<times> Conv" where
  "host_read n c =
     (if n < 0 then (-1, [], c)
      else let bs = take (nat n) (drop (cv_ipos c) (cv_in c))
           in (int (length bs), bs, c\<lparr>cv_ipos := cv_ipos c + length bs\<rparr>))"

text \<open>A write behind the end of the file fills the gap with zeros.\<close>

definition put_at :: "byte list \<Rightarrow> nat \<Rightarrow> byte list \<Rightarrow> byte list" where
  "put_at f p bs = (if bs = [] then f else overwrite (f @ replicate (p - length f) 0) p bs)"

definition host_write :: "byte list \<Rightarrow> int \<Rightarrow> Conv \<Rightarrow> int \<times> Conv" where
  "host_write buf n c =
     (if n < 0 \<or> \<not> cv_open c then (-1, c)
      else let bs = take (cv_room c - cv_opos c) (take (nat n) buf)
           in (int (length bs), c\<lparr>cv_out := put_at (cv_out c) (cv_opos c) bs, cv_opos := cv_opos c + length bs\<rparr>))"

definition seek_in :: "int \<Rightarrow> Conv \<Rightarrow> Conv" where
  "seek_in off c = (if off < 0 then c else c\<lparr>cv_ipos := nat off\<rparr>)"

definition seek_out :: "int \<Rightarrow> Conv \<Rightarrow> Conv" where
  "seek_out off c = (if off < 0 \<or> \<not> cv_open c then c else c\<lparr>cv_opos := nat off\<rparr>)"

definition Coff_Read :: "int \<Rightarrow> Conv \<Rightarrow> (byte list \<times> Conv) conv" where
  "Coff_Read nBytes c = (case host_read nBytes c of (r, bs, c') \<Rightarrow> if r \<noteq> nBytes then Inl (TooShort, c') else Inr (bs, c'))"

definition Coff_Write :: "byte list \<Rightarrow> int \<Rightarrow> Conv \<Rightarrow> Conv conv" where
  "Coff_Write buf nBytes c = (case host_write buf nBytes c of (r, c') \<Rightarrow> if r \<noteq> nBytes then Inl (UnableToWrite, c') else Inr c')"

subsection \<open>coff2noff\<close>

definition noff_bytes :: "NoffHeader \<Rightarrow> byte list" where
  "noff_bytes h = (let sg = (\<lambda>s. [virtualAddr s, inFileAddr s, seg_size s])
     in ints_bytes ([noffMagic h] @ sg (noff_code h) @ sg (initData h) @ sg (uninitData h)))"

definition host_section :: "scnhdr \<Rightarrow> scnhdr" where
  "host_section s = s\<lparr>s_paddr := Coff_WordToHost (s_paddr s), s_size := Coff_WordToHost (s_size s),
     s_scnptr := Coff_WordToHost (s_scnptr s)\<rparr>"

text \<open>The bytes of a section, copied from the input to the output.\<close>

definition copy_segment :: "scnhdr \<Rightarrow> Conv \<Rightarrow> Conv conv" where
  "copy_segment s c =
     bindX (Coff_Read (s_size s) (seek_in (s_scnptr s) c)) (\<lambda>(buffer, c).
     Coff_Write buffer (s_size s) c)"

text \<open>The body of the loop over the sections; \<open>pos\<close> is \<open>inNoffFile\<close>.\<close>

definition noff_section :: "scnhdr \<Rightarrow> NoffHeader \<times> int \<times> Conv \<Rightarrow> (NoffHeader \<times> int \<times> Conv) conv" where
  "noff_section s = (\<lambda>(noffH, pos, c).
     if s_size s = 0 then Inr (noffH, pos, c)
     else if name_is s ''.text'' then
       bindX (copy_segment s c) (\<lambda>c.
       Inr (noffH\<lparr>noff_code := \<lparr>virtualAddr = s_paddr s, inFileAddr = pos, seg_size = s_size s\<rparr>\<rparr>, i32 (pos + s_size s), c))
     else if name_is s ''.data'' \<or> name_is s ''.rdata'' then
       (if seg_size (initData noffH) \<noteq> 0 then Inl (DataAndRdata, c)
        else bindX (copy_segment s c) (\<lambda>c.
          Inr (noffH\<lparr>initData := \<lparr>virtualAddr = s_paddr s, inFileAddr = pos, seg_size = s_size s\<rparr>\<rparr>, i32 (pos + s_size s), c)))
     else if name_is s ''.bss'' \<or> name_is s ''.sbss'' then
       (let u = uninitData noffH in
        if seg_size u \<noteq> 0 then
          (if s_paddr s = i32 (virtualAddr u + seg_size u) then Inl (BssAndSbss, c)
           else Inr (noffH\<lparr>uninitData := u\<lparr>seg_size := i32 (seg_size u + s_size s)\<rparr>\<rparr>, pos, c))
        else Inr (noffH\<lparr>uninitData := u\<lparr>virtualAddr := s_paddr s, seg_size := s_size s\<rparr>\<rparr>, pos, c))
     else Inl (UnknownSegment, c))"

fun noff_sections :: "scnhdr list \<Rightarrow> NoffHeader \<times> int \<times> Conv \<Rightarrow> (NoffHeader \<times> int \<times> Conv) conv" where
  "noff_sections [] st = Inr st"
| "noff_sections (s # ss) st = bindX (noff_section s st) (noff_sections ss)"

text \<open>
  \<open>main\<close> behind the two calls of \<open>open\<close>. \<open>junk\<close> is what the local variable \<open>noffH\<close> holds
  before it is assigned.
\<close>

definition noff_convert :: "byte list \<Rightarrow> Conv \<Rightarrow> Conv conv" where
  "noff_convert junk c =
     bindX (Coff_Read 20 c) (\<lambda>(fb, c).
     let fileh = filehdr_of fb in
     if uint (Coff_ShortToHost (f_magic fileh)) \<noteq> MIPSELMAGIC then Inl (NotMipsel, c)
     else bindX (Coff_Read 56 c) (\<lambda>(ab, c).
     let systemh = aouthdr_of ab in
     if sint (Coff_ShortToHost (word_of_int (a_magic systemh))) \<noteq> OMAGIC then Inl (NotOmagic, c)
     else let numsections = uint (Coff_ShortToHost (f_nscns fileh)) in
     bindX (Coff_Read (numsections * 40) c) (\<lambda>(sb, c).
     let sections = map host_section (scnhdrs_of (nat numsections) sb);
         j = noff_of junk;
         noffH = j\<lparr>noffMagic := NOFFMAGIC, noff_code := (noff_code j)\<lparr>seg_size := 0\<rparr>,
           initData := (initData j)\<lparr>seg_size := 0\<rparr>, uninitData := (uninitData j)\<lparr>seg_size := 0\<rparr>\<rparr> in
     bindX (noff_sections sections (noffH, 40, seek_out 40 c)) (\<lambda>(noffH, pos, c).
     Coff_Write (noff_bytes noffH) 40 (seek_out 0 c)))))"

text \<open>
  The whole program, as what it makes of the host's files: its exit status and the output
  file, \<open>None\<close> when there is none afterwards. \<open>input\<close> is the file named by \<open>argv[1]\<close>, if it can be
  opened; \<open>old\<close> is the file named by \<open>argv[2]\<close>, if there is one, and \<open>can\<close> whether it can be
  opened for writing. After a failed conversion \<open>unlink\<close> removes it, \<open>del\<close> says whether it may.
\<close>

record HostFiles =
  hf_input :: "byte list option"
  hf_old :: "byte list option"
  hf_can :: bool
  hf_del :: bool
  hf_room :: nat

definition coff2noff :: "nat \<Rightarrow> byte list \<Rightarrow> HostFiles \<Rightarrow> coff_exit option \<times> byte list option" where
  "coff2noff argc junk w =
     (if argc < 2 then (Some Usage, hf_old w)
      else case hf_input w of None \<Rightarrow> (Some CannotOpen, hf_old w)
      | Some src \<Rightarrow>
        (let can = hf_can w \<and> 3 \<le> argc;
             c = \<lparr>cv_in = src, cv_ipos = 0, cv_out = [], cv_opos = 0, cv_open = can, cv_room = hf_room w\<rparr>
         in case noff_convert junk c of
              Inr c' \<Rightarrow> (None, Some (cv_out c'))
            | Inl (e, c') \<Rightarrow> (Some e, if 3 \<le> argc \<and> hf_del w then None
                                     else if can then Some (cv_out c') else hf_old w)))"

subsection \<open>coff2flat\<close>

text \<open>
  The body of the loop: the end of the image grows to cover the section, and the bytes of
  everything but \<open>.bss\<close> and \<open>.sbss\<close> go to the output.
\<close>

definition FlatStackSize :: int where "FlatStackSize = 1024"

fun flat_sections :: "scnhdr list \<Rightarrow> int \<Rightarrow> Conv \<Rightarrow> (int \<times> Conv) conv" where
  "flat_sections [] tp c = Inr (tp, c)"
| "flat_sections (s # ss) tp c =
     (let e = i32 (s_paddr s + s_size s); tp = (if e > tp then e else tp) in
      if \<not> name_is s ''.bss'' \<and> \<not> name_is s ''.sbss''
      then bindX (copy_segment s c) (flat_sections ss tp)
      else flat_sections ss tp c)"

definition flat_convert :: "Conv \<Rightarrow> Conv conv" where
  "flat_convert c =
     bindX (Coff_Read 20 c) (\<lambda>(fb, c).
     let fileh = filehdr_of fb in
     if uint (f_magic fileh) \<noteq> MIPSELMAGIC then Inl (NotMipsel, c)
     else bindX (Coff_Read 56 c) (\<lambda>(ab, c).
     if a_magic (aouthdr_of ab) \<noteq> OMAGIC then Inl (NotOmagic, c)
     else let numsections = uint (f_nscns fileh) in
     bindX (Coff_Read (numsections * 40) c) (\<lambda>(sb, c).
     bindX (flat_sections (scnhdrs_of (nat numsections) sb) 0 c) (\<lambda>(tp, c).
     Coff_Write (replicate 4 0) 4 (seek_out (i32 (tp + FlatStackSize - 4)) c)))))"

text \<open>The program; unlike \<open>coff2noff\<close> it leaves the output of a failed conversion in place.\<close>

definition coff2flat :: "nat \<Rightarrow> HostFiles \<Rightarrow> coff_exit option \<times> byte list option" where
  "coff2flat argc w =
     (if argc < 2 then (Some Usage, hf_old w)
      else case hf_input w of None \<Rightarrow> (Some CannotOpen, hf_old w)
      | Some src \<Rightarrow>
        (let can = hf_can w \<and> 3 \<le> argc;
             c = \<lparr>cv_in = src, cv_ipos = 0, cv_out = [], cv_opos = 0, cv_open = can, cv_room = hf_room w\<rparr>
         in case flat_convert c of
              Inr c' \<Rightarrow> (None, Some (cv_out c'))
            | Inl (e, c') \<Rightarrow> (Some e, if can then Some (cv_out c') else hf_old w)))"

subsection \<open>What the conversion promises\<close>

datatype scn_kind = K_empty | K_text | K_data | K_bss | K_unknown

definition scn_kind_of :: "scnhdr \<Rightarrow> scn_kind" where
  "scn_kind_of s =
     (if s_size s = 0 then K_empty
      else if name_is s ''.text'' then K_text
      else if name_is s ''.data'' \<or> name_is s ''.rdata'' then K_data
      else if name_is s ''.bss'' \<or> name_is s ''.sbss'' then K_bss
      else K_unknown)"

abbreviation of_kind :: "scn_kind \<Rightarrow> scnhdr list \<Rightarrow> scnhdr list" where
  "of_kind k \<equiv> filter (\<lambda>s. scn_kind_of s = k)"

abbreviation sizes :: "scnhdr list \<Rightarrow> int" where
  "sizes ss \<equiv> sum_list (map s_size ss)"

definition coff_sections :: "byte list \<Rightarrow> scnhdr list" where
  "coff_sections src = (let n = unat (f_nscns (filehdr_of (take 20 src)))
     in map host_section (scnhdrs_of n (take (40 * n) (drop 76 src))))"

definition section_bytes :: "byte list \<Rightarrow> scnhdr \<Rightarrow> byte list" where
  "section_bytes src s = take (nat (s_size s)) (drop (nat (s_scnptr s)) src)"

definition segment_bytes :: "byte list \<Rightarrow> Segment \<Rightarrow> byte list" where
  "segment_bytes f g = take (nat (seg_size g)) (drop (nat (inFileAddr g)) f)"

text \<open>\<open>.bss\<close> and \<open>.sbss\<close> sections none of which begins where the ones before it end.\<close>

definition bss_gaps :: "scnhdr list \<Rightarrow> bool" where
  "bss_gaps ss \<longleftrightarrow> (\<forall>i\<in>{1..<length ss}. s_paddr (ss ! i) \<noteq> i32 (s_paddr (hd ss) + sizes (take i ss)))"

definition section_ok :: "byte list \<Rightarrow> scnhdr \<Rightarrow> bool" where
  "section_ok src s \<longleftrightarrow> scn_kind_of s \<noteq> K_unknown \<and> 0 \<le> s_size s \<and> is_int (s_paddr s) \<and>
     (scn_kind_of s = K_text \<or> scn_kind_of s = K_data \<longrightarrow>
        0 \<le> s_scnptr s \<and> s_scnptr s + s_size s \<le> int (length src))"

text \<open>A well-formed file: the magic numbers, all section headers and the bytes of the sections are
  there, every section is of a known kind, and there is at most one section of code and one of data.\<close>

definition sections_wf :: "byte list \<Rightarrow> scnhdr list \<Rightarrow> bool" where
  "sections_wf src ss \<longleftrightarrow> list_all (section_ok src) ss \<and> length (of_kind K_text ss) \<le> 1 \<and> length (of_kind K_data ss) \<le> 1
     \<and> 40 + sizes ss \<le> 2147483647"

definition coff_ok :: "byte list \<Rightarrow> bool" where
  "coff_ok src \<longleftrightarrow> uint (f_magic (filehdr_of (take 20 src))) = MIPSELMAGIC \<and>
     a_magic (aouthdr_of (take 56 (drop 20 src))) = OMAGIC \<and>
     76 + 40 * unat (f_nscns (filehdr_of (take 20 src))) \<le> length src \<and>
     sections_wf src (coff_sections src)"

text \<open>A segment of the output is the only section of its kind, with its bytes; without such a section it is empty.\<close>

definition describes :: "byte list \<Rightarrow> byte list \<Rightarrow> scnhdr list \<Rightarrow> Segment \<Rightarrow> bool" where
  "describes src out ss g \<longleftrightarrow> (case ss of [] \<Rightarrow> seg_size g = 0
     | [s] \<Rightarrow> virtualAddr g = s_paddr s \<and> seg_size g = s_size s \<and> 40 \<le> inFileAddr g
         \<and> inFileAddr g + seg_size g \<le> int (length out) \<and> segment_bytes out g = section_bytes src s
     | _ \<Rightarrow> False)"

definition describes_bss :: "scnhdr list \<Rightarrow> Segment \<Rightarrow> bool" where
  "describes_bss ss g \<longleftrightarrow> (case ss of [] \<Rightarrow> seg_size g = 0
     | [s] \<Rightarrow> virtualAddr g = s_paddr s \<and> seg_size g = s_size s | _ \<Rightarrow> False)"

text \<open>The sections for which the loop does not exit, its test for \<open>.bss\<close> and \<open>.sbss\<close> taken as it is.\<close>

definition accepted :: "byte list \<Rightarrow> scnhdr list \<Rightarrow> bool" where
  "accepted src ss \<longleftrightarrow> list_all (section_ok src) ss \<and> length (of_kind K_data ss) \<le> 1 \<and>
     bss_gaps (of_kind K_bss ss) \<and> 40 + sizes ss \<le> 2147483647"

text \<open>A segment of the output holds the last of the sections \<open>ss\<close>; the uninitialised data is as
  long as all of its sections together.\<close>

definition holds_last :: "byte list \<Rightarrow> byte list \<Rightarrow> scnhdr list \<Rightarrow> Segment \<Rightarrow> bool" where
  "holds_last src out ss g \<longleftrightarrow>
     (if ss = [] then seg_size g = 0
      else virtualAddr g = s_paddr (last ss) \<and> seg_size g = s_size (last ss) \<and> 40 \<le> inFileAddr g \<and>
        inFileAddr g + seg_size g \<le> int (length out) \<and> segment_bytes out g = section_bytes src (last ss))"

definition holds_bss :: "scnhdr list \<Rightarrow> Segment \<Rightarrow> bool" where
  "holds_bss ss g \<longleftrightarrow> seg_size g = sizes ss \<and> (ss = [] \<or> virtualAddr g = s_paddr (hd ss))"

subsection \<open>Reading and writing\<close>

lemma bindX_simps [simp]: "bindX (Inl e) f = Inl e" "bindX (Inr x) f = f x"
  by (simp_all add: bindX_def)

lemma is_int_sint [simp]: "is_int (sint (w :: u32))"
  using sint_lt[of w] sint_ge[of w] by (simp add: is_int_def)

lemma is_int_i32 [simp]: "is_int (i32 x)" by (simp add: i32_def)

lemma is_int_NOFFMAGIC [simp]: "is_int NOFFMAGIC" by (simp add: is_int_def NOFFMAGIC_def)

lemma i32_id: "is_int x \<Longrightarrow> i32 x = x" by (simp add: i32_def sint_word_of_int_id)

lemma length_put_at: "length f \<le> p \<Longrightarrow> bs \<noteq> [] \<Longrightarrow> length (put_at f p bs) = p + length bs"
  by (simp add: put_at_def overwrite_def)

lemma put_at_before:
  assumes "length f \<le> p" "q + n \<le> length f"
  shows "take n (drop q (put_at f p bs)) = take n (drop q f)"
  using assms by (simp add: put_at_def overwrite_def)

lemma put_at_here: "length f \<le> p \<Longrightarrow> bs \<noteq> [] \<Longrightarrow> drop p (put_at f p bs) = bs"
  by (simp add: put_at_def overwrite_def)

lemma Coff_Read_ok:
  assumes "0 \<le> n" "int (cv_ipos c) + n \<le> int (length (cv_in c))"
  shows "Coff_Read n c = Inr (take (nat n) (drop (cv_ipos c) (cv_in c)), c\<lparr>cv_ipos := cv_ipos c + nat n\<rparr>)"
  using assms by (simp add: Coff_Read_def host_read_def Let_def)

lemma Coff_Write_ok:
  assumes "0 \<le> n" "cv_open c" "length buf = nat n" "cv_opos c + nat n \<le> cv_room c"
  shows "Coff_Write buf n c = Inr (c\<lparr>cv_out := put_at (cv_out c) (cv_opos c) buf, cv_opos := cv_opos c + nat n\<rparr>)"
  using assms by (simp add: Coff_Write_def host_write_def Let_def)

lemma copy_segment_ok:
  assumes "0 < s_size s" "0 \<le> s_scnptr s" "s_scnptr s + s_size s \<le> int (length (cv_in c))"
    and "cv_open c" "cv_opos c + nat (s_size s) \<le> cv_room c"
  shows "\<exists>q. copy_segment s c = Inr (c\<lparr>cv_ipos := q, cv_out := put_at (cv_out c) (cv_opos c) (section_bytes (cv_in c) s),
           cv_opos := cv_opos c + nat (s_size s)\<rparr>)"
proof -
  have "seek_in (s_scnptr s) c = c\<lparr>cv_ipos := nat (s_scnptr s)\<rparr>" using assms by (simp add: seek_in_def)
  moreover have "length (section_bytes (cv_in c) s) = nat (s_size s)" using assms by (simp add: section_bytes_def)
  ultimately show ?thesis using assms
    by (simp add: copy_segment_def Coff_Read_ok Coff_Write_ok flip: section_bytes_def) (rule exI, rule refl)
qed

subsection \<open>The loop over the sections\<close>

definition header_ints :: "NoffHeader \<Rightarrow> bool" where
  "header_ints h \<longleftrightarrow> (\<forall>g\<in>{noff_code h, initData h, uninitData h}.
     is_int (virtualAddr g) \<and> is_int (inFileAddr g) \<and> is_int (seg_size g))"

definition conv_inv :: "byte list \<Rightarrow> nat \<Rightarrow> scnhdr list \<Rightarrow> NoffHeader \<times> int \<times> Conv \<Rightarrow> bool" where
  "conv_inv src room pre = (\<lambda>(h, pos, c).
     cv_in c = src \<and> cv_open c \<and> cv_room c = room \<and> int (cv_opos c) = pos \<and> length (cv_out c) \<le> cv_opos c \<and>
     pos = 40 + sizes (of_kind K_text pre) + sizes (of_kind K_data pre) \<and>
     noffMagic h = NOFFMAGIC \<and> header_ints h \<and>
     holds_last src (cv_out c) (of_kind K_text pre) (noff_code h) \<and>
     holds_last src (cv_out c) (of_kind K_data pre) (initData h) \<and>
     holds_bss (of_kind K_bss pre) (uninitData h))"

lemma sizes_kinds:
  assumes "list_all (section_ok src) ss"
  shows "sizes ss = sizes (of_kind K_text ss) + sizes (of_kind K_data ss) + sizes (of_kind K_bss ss)"
    and "0 \<le> sizes (of_kind k ss)"
  using assms by (induction ss) (auto simp: section_ok_def scn_kind_of_def split: if_splits)

lemma holds_last_append:
  assumes "holds_last src f ss g" "length f \<le> p"
  shows "holds_last src (put_at f p bs) ss g"
proof (cases "ss = []")
  case False
  with assms have g: "40 \<le> inFileAddr g" "inFileAddr g + seg_size g \<le> int (length f)"
    "segment_bytes f g = section_bytes src (last ss)" by (simp_all add: holds_last_def)
  have l: "length f \<le> length (put_at f p bs)" using assms(2) by (simp add: put_at_def overwrite_def)
  have "segment_bytes (put_at f p bs) g = segment_bytes f g"
  proof (cases "0 \<le> seg_size g")
    case True
    then show ?thesis unfolding segment_bytes_def using g assms(2) by (intro put_at_before) auto
  qed (simp add: segment_bytes_def)
  with assms(1) False g l show ?thesis by (simp add: holds_last_def)
qed (use assms in \<open>simp add: holds_last_def\<close>)

lemma bss_gaps_prefix: "bss_gaps (ss @ ts) \<Longrightarrow> bss_gaps ss"
proof (cases "ss = []")
  case False
  assume "bss_gaps (ss @ ts)"
  with False show ?thesis by (force simp: bss_gaps_def nth_append)
qed (simp add: bss_gaps_def)

lemma bss_gaps_snoc: "bss_gaps (ss @ [s]) \<Longrightarrow> ss \<noteq> [] \<Longrightarrow> s_paddr s \<noteq> i32 (s_paddr (hd ss) + sizes ss)"
  by (auto simp: bss_gaps_def nth_append Suc_le_eq dest!: bspec[where x = "length ss"])

lemma accepted_prefix:
  assumes "accepted src (ss @ ts)"
  shows "accepted src ss"
proof -
  have "list_all (section_ok src) ts" using assms by (simp add: accepted_def)
  from sizes_kinds[OF this] have "0 \<le> sizes ts" by (metis add_nonneg_nonneg)
  with assms show ?thesis by (auto simp: accepted_def intro: bss_gaps_prefix)
qed

lemma conv_inv_bounds:
  assumes "conv_inv src room pre (h, pos, c)" "accepted src (pre @ [s])" "40 + sizes (pre @ [s]) \<le> int room"
  shows "40 \<le> pos" "pos + s_size s \<le> int room" "is_int pos" "is_int (pos + s_size s)" "is_int (s_size s)"
    "is_int (s_paddr s)" "0 \<le> s_size s" "is_int (sizes (of_kind K_bss pre) + s_size s)"
proof -
  have s: "section_ok src s" and al: "list_all (section_ok src) pre" and lim: "40 + sizes (pre @ [s]) \<le> 2147483647"
    using assms(2) by (simp_all add: accepted_def)
  note sk = sizes_kinds(1)[OF al] sizes_kinds(2)[OF al, of K_text] sizes_kinds(2)[OF al, of K_data] sizes_kinds(2)[OF al, of K_bss]
  have p: "pos = 40 + sizes (of_kind K_text pre) + sizes (of_kind K_data pre)" using assms(1) by (simp add: conv_inv_def)
  show "40 \<le> pos" "pos + s_size s \<le> int room" "is_int pos" "is_int (pos + s_size s)" "is_int (s_size s)"
    "is_int (s_paddr s)" "0 \<le> s_size s" "is_int (sizes (of_kind K_bss pre) + s_size s)"
    using p sk assms(3) lim s by (simp_all add: is_int_def section_ok_def)
qed

text \<open>A section whose bytes are copied ends up at the old end of the output.\<close>

lemma conv_copy:
  assumes "conv_inv src room pre (h, pos, c)" "section_ok src s" "scn_kind_of s = K_text \<or> scn_kind_of s = K_data"
    and "40 \<le> pos" "pos + s_size s \<le> int room"
  shows "\<exists>q out. copy_segment s c = Inr (c\<lparr>cv_ipos := q, cv_out := out, cv_opos := cv_opos c + nat (s_size s)\<rparr>)
    \<and> length out \<le> cv_opos c + nat (s_size s) \<and> (\<forall>ss g. holds_last src (cv_out c) ss g \<longrightarrow> holds_last src out ss g)
    \<and> (\<forall>ss. holds_last src out (ss @ [s]) \<lparr>virtualAddr = s_paddr s, inFileAddr = pos, seg_size = s_size s\<rparr>)"
proof -
  have c: "cv_in c = src" "cv_open c" "cv_room c = room" "int (cv_opos c) = pos" "length (cv_out c) \<le> cv_opos c"
    using assms(1) by (simp_all add: conv_inv_def)
  have b: "0 < s_size s" "0 \<le> s_scnptr s" "s_scnptr s + s_size s \<le> int (length src)"
    using assms(2,3) by (auto simp: section_ok_def scn_kind_of_def split: if_splits)
  then have l: "length (section_bytes src s) = nat (s_size s)" "section_bytes src s \<noteq> []"
    by (auto simp: section_bytes_def)
  have room: "cv_opos c + nat (s_size s) \<le> cv_room c" using b(1) c(3,4) assms(5) by simp
  let ?out = "put_at (cv_out c) (cv_opos c) (section_bytes src s)"
  obtain q where q: "copy_segment s c = Inr (c\<lparr>cv_ipos := q, cv_out := ?out, cv_opos := cv_opos c + nat (s_size s)\<rparr>)"
    using copy_segment_ok[of s c] b c(1,2) room by auto
  have p: "nat pos = cv_opos c" using c(4) by simp
  have "holds_last src ?out (ss @ [s]) \<lparr>virtualAddr = s_paddr s, inFileAddr = pos, seg_size = s_size s\<rparr>" for ss
    using b l assms(4) c p by (simp add: holds_last_def segment_bytes_def length_put_at put_at_here)
  with q l c(5) show ?thesis
    by (intro exI[of _ q] exI[of _ ?out]) (simp add: length_put_at holds_last_append)
qed

lemma bss_nonempty:
  assumes "list_all (section_ok src) pre" "of_kind K_bss pre \<noteq> []"
  shows "sizes (of_kind K_bss pre) \<noteq> 0"
proof -
  have "0 < s_size x" if "x \<in> set (of_kind K_bss pre)" for x
  proof -
    from that assms(1) have "section_ok src x" "scn_kind_of x = K_bss" by (auto simp: list_all_iff)
    then show ?thesis by (auto simp: section_ok_def scn_kind_of_def split: if_splits)
  qed
  moreover obtain t ts where t: "of_kind K_bss pre = t # ts" using assms(2) by (cases "of_kind K_bss pre") auto
  ultimately have "0 < s_size t" "\<forall>x\<in>set ts. 0 < s_size x" by simp_all
  moreover from this(2) have "0 \<le> sizes ts" by (intro sum_list_nonneg) (auto simp: less_imp_le)
  ultimately show ?thesis using t by simp
qed

lemma noff_section_bss:
  assumes inv: "conv_inv src room pre (h, pos, c)" and ok: "accepted src (pre @ [s])"
    and rm: "40 + sizes (pre @ [s]) \<le> int room" and k: "scn_kind_of s = K_bss"
  shows "\<exists>st'. noff_section s (h, pos, c) = Inr st' \<and> conv_inv src room (pre @ [s]) st'"
proof -
  note b = conv_inv_bounds[OF inv ok rm]
  have n: "s_size s \<noteq> 0" "\<not> name_is s ''.text''" "\<not> (name_is s ''.data'' \<or> name_is s ''.rdata'')"
      "name_is s ''.bss'' \<or> name_is s ''.sbss''"
    using k by (auto simp: scn_kind_of_def split: if_splits)
  have u: "seg_size (uninitData h) = sizes (of_kind K_bss pre)"
      "of_kind K_bss pre \<noteq> [] \<Longrightarrow> virtualAddr (uninitData h) = s_paddr (hd (of_kind K_bss pre))"
    using inv by (auto simp: conv_inv_def holds_bss_def)
  show ?thesis
  proof (cases "of_kind K_bss pre = []")
    case True
    with inv n k u b show ?thesis
      by (simp add: noff_section_def conv_inv_def header_ints_def holds_bss_def Let_def)
  next
    case False
    have "sizes (of_kind K_bss pre) \<noteq> 0"
      using ok False by (intro bss_nonempty) (auto simp: accepted_def)
    moreover have "s_paddr s \<noteq> i32 (s_paddr (hd (of_kind K_bss pre)) + sizes (of_kind K_bss pre))"
      using ok k False by (intro bss_gaps_snoc) (simp_all add: accepted_def)
    ultimately show ?thesis using inv n k u b False
      by (simp add: noff_section_def conv_inv_def header_ints_def holds_bss_def Let_def i32_id)
  qed
qed

lemma noff_section_step:
  assumes inv: "conv_inv src room pre (h, pos, c)" and ok: "accepted src (pre @ [s])"
    and rm: "40 + sizes (pre @ [s]) \<le> int room"
  shows "\<exists>st'. noff_section s (h, pos, c) = Inr st' \<and> conv_inv src room (pre @ [s]) st'"
proof -
  note b = conv_inv_bounds[OF inv ok rm]
  have s: "section_ok src s" using ok by (simp add: accepted_def)
  show ?thesis
  proof (cases "scn_kind_of s")
    case K_empty
    then have "s_size s = 0" by (auto simp: scn_kind_of_def split: if_splits)
    with K_empty inv show ?thesis by (simp add: noff_section_def conv_inv_def)
  next
    case K_text
    then have "s_size s \<noteq> 0" "name_is s ''.text''" by (auto simp: scn_kind_of_def split: if_splits)
    moreover from K_text conv_copy[OF inv s _ b(1,2)] obtain q out
      where "copy_segment s c = Inr (c\<lparr>cv_ipos := q, cv_out := out, cv_opos := cv_opos c + nat (s_size s)\<rparr>)"
        "length out \<le> cv_opos c + nat (s_size s)" "\<And>ss g. holds_last src (cv_out c) ss g \<Longrightarrow> holds_last src out ss g"
        "\<And>ss. holds_last src out (ss @ [s]) \<lparr>virtualAddr = s_paddr s, inFileAddr = pos, seg_size = s_size s\<rparr>"
      by blast
    ultimately show ?thesis using K_text inv b
      by (simp add: noff_section_def conv_inv_def i32_id header_ints_def)
  next
    case K_data
    then have "s_size s \<noteq> 0" "\<not> name_is s ''.text''" "name_is s ''.data'' \<or> name_is s ''.rdata''"
      by (auto simp: scn_kind_of_def split: if_splits)
    moreover have "of_kind K_data pre = []" using ok K_data by (simp add: accepted_def)
    moreover from this have "seg_size (initData h) = 0" using inv by (simp add: conv_inv_def holds_last_def)
    moreover from K_data conv_copy[OF inv s _ b(1,2)] obtain q out
      where "copy_segment s c = Inr (c\<lparr>cv_ipos := q, cv_out := out, cv_opos := cv_opos c + nat (s_size s)\<rparr>)"
        "length out \<le> cv_opos c + nat (s_size s)" "\<And>ss g. holds_last src (cv_out c) ss g \<Longrightarrow> holds_last src out ss g"
        "holds_last src out ([] @ [s]) \<lparr>virtualAddr = s_paddr s, inFileAddr = pos, seg_size = s_size s\<rparr>"
      by blast
    ultimately show ?thesis using K_data inv b
      by (simp add: noff_section_def conv_inv_def i32_id header_ints_def)
  qed (use s noff_section_bss[OF inv ok rm] in \<open>auto simp: section_ok_def\<close>)
qed

lemma noff_sections_ok:
  assumes "conv_inv src room pre st" "accepted src (pre @ ss)" "40 + sizes (pre @ ss) \<le> int room"
  shows "\<exists>st'. noff_sections ss st = Inr st' \<and> conv_inv src room (pre @ ss) st'"
  using assms
proof (induction ss arbitrary: pre st)
  case (Cons s ss)
  obtain h pos c where st: "st = (h, pos, c)" by (cases st) auto
  have ok: "accepted src (pre @ [s])" using Cons.prems(2) accepted_prefix[of src "pre @ [s]" ss] by simp
  have "list_all (section_ok src) ss" using Cons.prems(2) by (simp add: accepted_def)
  from sizes_kinds[OF this] have "0 \<le> sizes ss" by (metis add_nonneg_nonneg)
  with Cons.prems(3) have "40 + sizes (pre @ [s]) \<le> int room" by simp
  from noff_section_step[OF Cons.prems(1)[unfolded st] ok this] obtain st'
    where "noff_section s st = Inr st'" "conv_inv src room (pre @ [s]) st'" unfolding st by blast
  with Cons.IH[of "pre @ [s]" st'] Cons.prems show ?case by simp
qed simp

subsection \<open>The header\<close>

lemma noff_bytes_length [simp]: "length (noff_bytes h) = 40"
  by (simp add: noff_bytes_def Let_def)

lemma noff_of_bytes:
  assumes "header_ints h" "is_int (noffMagic h)"
  shows "noff_of (noff_bytes h @ rest) = h"
proof -
  have "bytes_ints (noff_bytes h @ rest) = [noffMagic h, virtualAddr (noff_code h), inFileAddr (noff_code h), seg_size (noff_code h),
      virtualAddr (initData h), inFileAddr (initData h), seg_size (initData h),
      virtualAddr (uninitData h), inFileAddr (uninitData h), seg_size (uninitData h)] @ bytes_ints rest"
    unfolding noff_bytes_def Let_def using assms by (subst bytes_ints_bytes) (simp_all add: header_ints_def)
  then show ?thesis by (simp add: noff_of_def Let_def)
qed

text \<open>The kernel accepts a file that begins with the image of a header, and finds that header.\<close>

lemma read_header_noff:
  assumes "header_ints h" "noffMagic h = NOFFMAGIC"
  shows "read_header junk (noff_bytes h @ rest) = Inr h"
  using assms noff_of_bytes[of h "drop 40 junk"]
  by (simp add: read_header_def Stub_ReadAt_def overwrite_def Let_def)

lemma noff_of_ints:
  assumes "length junk = 40"
  shows "header_ints (noff_of junk)"
proof -
  have "length (bytes_ints junk) = 10" using assms by (simp add: bytes_ints_def length_words_of)
  then have "is_int (bytes_ints junk ! i)" if "i < 10" for i
    using that by (simp add: bytes_ints_def)
  then show ?thesis by (simp add: header_ints_def noff_of_def Let_def)
qed

lemma holds_last_header:
  assumes "holds_last src out ss g"
  shows "holds_last src (noff_bytes h @ drop 40 out) ss g"
  using assms by (auto simp: holds_last_def segment_bytes_def nat_diff_distrib split: if_splits)

lemma host_section_id: "is_int (s_paddr s) \<Longrightarrow> is_int (s_size s) \<Longrightarrow> is_int (s_scnptr s) \<Longrightarrow> host_section s = s"
  by (simp add: host_section_def Coff_WordToHost_def sint_word_of_int_id)

definition start_header :: "byte list \<Rightarrow> NoffHeader" where
  "start_header junk = (let j = noff_of junk in j\<lparr>noffMagic := NOFFMAGIC, noff_code := (noff_code j)\<lparr>seg_size := 0\<rparr>,
     initData := (initData j)\<lparr>seg_size := 0\<rparr>, uninitData := (uninitData j)\<lparr>seg_size := 0\<rparr>\<rparr>)"

text \<open>With the right magic numbers, \<open>main\<close> gets to its loop with the sections of the file.\<close>

lemma noff_convert_reads:
  assumes "coff_ok src" "cv_in c = src" "cv_ipos c = 0" "cv_open c"
  shows "\<exists>q. noff_convert junk c = bindX (noff_sections (coff_sections src) (start_header junk, 40, c\<lparr>cv_ipos := q, cv_opos := 40\<rparr>))
           (\<lambda>(noffH, pos, c). Coff_Write (noff_bytes noffH) 40 (seek_out 0 c))"
proof -
  define n where "n = unat (f_nscns (filehdr_of (take 20 src)))"
  have src: "76 + 40 * n \<le> length src" "uint (f_magic (filehdr_of (take 20 src))) = MIPSELMAGIC"
    "a_magic (aouthdr_of (take 56 (drop 20 src))) = OMAGIC"
    using assms(1) by (simp_all add: coff_ok_def n_def)
  have nn: "nat (uint (f_nscns (filehdr_of (take 20 src)))) = n" "uint (f_nscns (filehdr_of (take 20 src))) = int n"
    unfolding n_def by (simp_all only: unat_eq_nat_uint[symmetric] uint_nat)
  have le: "76 + 40 * int n \<le> int (length src)" using src(1) by linarith
  have m: "sint (word_of_int OMAGIC :: u16) = OMAGIC" by (simp add: OMAGIC_def)
  have r1: "Coff_Read 20 c = Inr (take 20 src, c\<lparr>cv_ipos := 20\<rparr>)"
    using src assms by (subst Coff_Read_ok) auto
  have r2: "Coff_Read 56 (c\<lparr>cv_ipos := 20\<rparr>) = Inr (take 56 (drop 20 src), c\<lparr>cv_ipos := 76\<rparr>)"
    using src assms by (subst Coff_Read_ok) auto
  have r3: "Coff_Read (int n * 40) (c\<lparr>cv_ipos := 76\<rparr>) = Inr (take (40 * n) (drop 76 src), c\<lparr>cv_ipos := 76 + 40 * n\<rparr>)"
    using le assms by (subst Coff_Read_ok) (auto simp: nat_mult_distrib mult.commute)
  show ?thesis
    by (rule exI[of _ "76 + 40 * n"])
      (simp add: noff_convert_def r1 r2 r3 nn m src(2,3) Coff_ShortToHost_def Let_def coff_sections_def n_def[symmetric] start_header_def
        seek_out_def assms(4))
qed

lemma header_overwrites: "put_at out 0 (noff_bytes h) = noff_bytes h @ drop 40 out"
proof -
  have "noff_bytes h \<noteq> []" using noff_bytes_length[of h] by (metis list.size(3) zero_neq_numeral)
  then show ?thesis by (simp add: put_at_def overwrite_def)
qed

text \<open>A well-formed file is accepted when it has at most one section without data in the file.\<close>

lemma accepted_wf: "sections_wf src ss \<Longrightarrow> length (of_kind K_bss ss) \<le> 1 \<Longrightarrow> accepted src ss"
  by (simp add: sections_wf_def accepted_def bss_gaps_def)

lemma describes_last: "holds_last src out ss g \<Longrightarrow> length ss \<le> 1 \<Longrightarrow> describes src out ss g"
  by (cases ss) (auto simp: holds_last_def describes_def)

lemma describes_bss_sum: "holds_bss ss g \<Longrightarrow> length ss \<le> 1 \<Longrightarrow> describes_bss ss g"
  by (cases ss) (auto simp: holds_bss_def describes_bss_def)

lemma conv_start_inv:
  assumes "length junk = 40"
  shows "conv_inv src room [] (start_header junk, 40, \<lparr>cv_in = src, cv_ipos = q, cv_out = [], cv_opos = 40, cv_open = True, cv_room = room\<rparr>)"
  using noff_of_ints[OF assms]
  by (simp add: conv_inv_def holds_last_def holds_bss_def header_ints_def is_int_def start_header_def Let_def)

lemma coff2noff_writes:
  assumes "coff_ok src" "accepted src (coff_sections src)" "hf_input w = Some src" "hf_can w" "3 \<le> argc" "length junk = 40"
    and "40 + sizes (coff_sections src) \<le> int (hf_room w)"
  shows "\<exists>out h. coff2noff argc junk w = (None, Some out) \<and> read_header junk' out = Inr h
    \<and> holds_last src out (of_kind K_text (coff_sections src)) (noff_code h)
    \<and> holds_last src out (of_kind K_data (coff_sections src)) (initData h)
    \<and> holds_bss (of_kind K_bss (coff_sections src)) (uninitData h)"
proof -
  let ?ss = "coff_sections src"
  let ?c = "\<lparr>cv_in = src, cv_ipos = 0, cv_out = [], cv_opos = 0, cv_open = True, cv_room = hf_room w\<rparr>"
  obtain q where conv: "noff_convert junk ?c = bindX (noff_sections ?ss (start_header junk, 40, ?c\<lparr>cv_ipos := q, cv_opos := 40\<rparr>))
      (\<lambda>(noffH, pos, c). Coff_Write (noff_bytes noffH) 40 (seek_out 0 c))"
    using noff_convert_reads[OF assms(1), of ?c junk] by auto
  from noff_sections_ok[OF conv_start_inv[OF assms(6)], of src ?ss "hf_room w" q] assms(2,7) obtain h pos c
    where run: "noff_sections ?ss (start_header junk, 40, ?c\<lparr>cv_ipos := q, cv_opos := 40\<rparr>) = Inr (h, pos, c)"
      and inv: "conv_inv src (hf_room w) ?ss (h, pos, c)" by fastforce
  have "list_all (section_ok src) ?ss" using assms(2) by (simp add: accepted_def)
  from sizes_kinds[OF this] have "0 \<le> sizes ?ss" by (metis add_nonneg_nonneg)
  then have "40 \<le> cv_room c" using inv assms(7) by (simp add: conv_inv_def)
  then have wr: "Coff_Write (noff_bytes h) 40 (seek_out 0 c) = Inr (c\<lparr>cv_out := noff_bytes h @ drop 40 (cv_out c), cv_opos := 40\<rparr>)"
    using inv by (subst Coff_Write_ok) (auto simp: conv_inv_def seek_out_def header_overwrites)
  have "coff2noff argc junk w = (None, Some (noff_bytes h @ drop 40 (cv_out c)))"
    using assms(3-5) conv run wr by (simp add: coff2noff_def Let_def)
  moreover have "read_header junk' (noff_bytes h @ drop 40 (cv_out c)) = Inr h"
    using inv by (intro read_header_noff) (simp_all add: conv_inv_def)
  ultimately show ?thesis using inv by (auto simp: conv_inv_def intro!: holds_last_header)
qed

text \<open>Contiguous \<open>.bss\<close> and \<open>.sbss\<close>, which the comment at the test asks for, make the program exit.\<close>

lemma noff_sections_append: "noff_sections (xs @ ys) st = bindX (noff_sections xs st) (noff_sections ys)"
  by (induction xs arbitrary: st) (auto simp: bindX_def split: sum.splits)

lemma filter_first: "filter P xs = y # ys \<Longrightarrow> \<exists>us vs. xs = us @ y # vs \<and> filter P us = [] \<and> P y \<and> filter P vs = ys"
  by (auto simp: filter_eq_Cons_iff filter_empty_conv)

lemma contiguous_refused:
  assumes "coff_ok src" "of_kind K_bss (coff_sections src) = [a, b]" "s_paddr b = s_paddr a + s_size a"
    and "hf_input w = Some src" "hf_can w" "3 \<le> argc" "length junk = 40" "40 + sizes (coff_sections src) \<le> int (hf_room w)"
  shows "fst (coff2noff argc junk w) = Some BssAndSbss"
proof -
  let ?c = "\<lparr>cv_in = src, cv_ipos = 0, cv_out = [], cv_opos = 0, cv_open = True, cv_room = hf_room w\<rparr>"
  from assms(2) obtain us rest where us: "coff_sections src = us @ a # rest" "of_kind K_bss us = []" "scn_kind_of a = K_bss" "of_kind K_bss rest = [b]"
    by (blast dest: filter_first)
  from us(4) obtain vs ws where vs: "rest = vs @ b # ws" "of_kind K_bss vs = []" and k2: "scn_kind_of b = K_bss"
    by (blast dest: filter_first)
  have ss: "coff_sections src = (us @ a # vs) @ b # ws" and k: "of_kind K_bss (us @ a # vs) = [a]" "scn_kind_of b = K_bss"
    using us(1-3) vs k2 by simp_all
  let ?pre = "us @ a # vs"
  have wf: "sections_wf src (?pre @ b # ws)" using assms(1) ss by (simp add: coff_ok_def)
  have pos: "0 \<le> sizes (b # ws)" using wf sizes_kinds[of src "b # ws"] by (simp add: sections_wf_def)
  have acc: "accepted src ?pre" using wf k(1) pos by (auto simp: sections_wf_def intro!: accepted_wf)
  obtain q where conv: "noff_convert junk ?c = bindX (noff_sections (coff_sections src) (start_header junk, 40, ?c\<lparr>cv_ipos := q, cv_opos := 40\<rparr>))
      (\<lambda>(noffH, pos, c). Coff_Write (noff_bytes noffH) 40 (seek_out 0 c))"
    using noff_convert_reads[OF assms(1), of ?c junk] by auto
  have "40 + sizes ?pre \<le> int (hf_room w)" using assms(8) pos unfolding ss by simp
  with noff_sections_ok[OF conv_start_inv[OF assms(7)], of src ?pre "hf_room w" q] acc obtain h p c
    where run: "noff_sections ?pre (start_header junk, 40, ?c\<lparr>cv_ipos := q, cv_opos := 40\<rparr>) = Inr (h, p, c)"
      and inv: "conv_inv src (hf_room w) ?pre (h, p, c)" by fastforce
  have u: "seg_size (uninitData h) = s_size a" "virtualAddr (uninitData h) = s_paddr a"
    using inv us(2,3) vs(2) by (simp_all add: conv_inv_def holds_bss_def)
  have b: "s_size b \<noteq> 0" "\<not> name_is b ''.text''" "\<not> (name_is b ''.data'' \<or> name_is b ''.rdata'')"
      "name_is b ''.bss'' \<or> name_is b ''.sbss''"
    using k(2) by (auto simp: scn_kind_of_def split: if_splits)
  have "section_ok src b" using wf by (simp add: sections_wf_def)
  then have ib: "is_int (s_paddr b)" by (simp add: section_ok_def)
  have "a \<in> set (of_kind K_bss ?pre)" using k(1) by simp
  then have "s_size a \<noteq> 0" by (auto simp: scn_kind_of_def split: if_splits)
  then have "noff_section b (h, p, c) = Inl (BssAndSbss, c)"
    using b u assms(3) i32_id[OF ib] by (auto simp: noff_section_def Let_def)
  then have "noff_convert junk ?c = Inl (BssAndSbss, c)" unfolding conv ss noff_sections_append[of ?pre "b # ws"] run by simp
  then show ?thesis using assms(4-6) by (simp add: coff2noff_def Let_def)
qed

text \<open>C23: The converter and the loader. For every well-formed COFF file (at most one section of
  code, one of data and one of uninitialised data, none unknown), with room for the output,
  \<open>coff2noff\<close> succeeds, and what it writes is an executable the kernel accepts: the header that
  \<open>AddrSpace\<close> reads back describes a code segment with the address, the size and exactly the bytes
  of the \<open>.text\<close> section, an initialised segment with those of the \<open>.data\<close> or \<open>.rdata\<close> section, and
  an uninitialised segment with the address and the size of the \<open>.bss\<close> or \<open>.sbss\<close> section; a segment without a section has
  size zero. A file with both \<open>.bss\<close> and \<open>.sbss\<close> such that the second follows directly behind the first,
  which is what the comment at the test demands, is refused.\<close>

theorem coff2noff_correct:
  assumes "coff_ok src" "hf_input w = Some src" "hf_can w" "3 \<le> argc" "length junk = 40"
    and "40 + sizes (coff_sections src) \<le> int (hf_room w)"
  shows "(length (of_kind K_bss (coff_sections src)) \<le> 1 \<longrightarrow>
      (\<exists>out h. coff2noff argc junk w = (None, Some out) \<and> read_header junk' out = Inr h
        \<and> describes src out (of_kind K_text (coff_sections src)) (noff_code h)
        \<and> describes src out (of_kind K_data (coff_sections src)) (initData h)
        \<and> describes_bss (of_kind K_bss (coff_sections src)) (uninitData h)))
    \<and> (\<forall>a b. of_kind K_bss (coff_sections src) = [a, b] \<and> s_paddr b = s_paddr a + s_size a \<longrightarrow>
        fst (coff2noff argc junk w) = Some BssAndSbss)"
proof (intro conjI impI allI)
  assume one: "length (of_kind K_bss (coff_sections src)) \<le> 1"
  have wf: "sections_wf src (coff_sections src)" using assms(1) by (simp add: coff_ok_def)
  from coff2noff_writes[OF assms(1) accepted_wf[OF wf one] assms(2-6), of junk'] wf one
  show "\<exists>out h. coff2noff argc junk w = (None, Some out) \<and> read_header junk' out = Inr h
        \<and> describes src out (of_kind K_text (coff_sections src)) (noff_code h)
        \<and> describes src out (of_kind K_data (coff_sections src)) (initData h)
        \<and> describes_bss (of_kind K_bss (coff_sections src)) (uninitData h)"
    by (auto simp: sections_wf_def intro!: describes_last describes_bss_sum)
qed (use contiguous_refused[OF assms(1) _ _ assms(2-6)] in blast)

text \<open>A linker output with four bytes of code, two of data and a \<open>.bss\<close> section.\<close>

definition demo_scn :: "string \<Rightarrow> int \<Rightarrow> int \<Rightarrow> int \<Rightarrow> byte list" where
  "demo_scn nm paddr sz ptr = map of_char nm @ replicate (8 - length nm) 0 @ ints_bytes [paddr, paddr, sz, ptr, 0, 0, 0, 0]"

definition demo_coff :: "byte list" where
  "demo_coff = [0x62, 0x01, 3, 0] @ replicate 16 0 @ [0x07, 0x01] @ replicate 54 0
     @ demo_scn ''.text'' 0 4 196 @ demo_scn ''.data'' 128 2 200 @ demo_scn ''.bss'' 256 16 0 @ [8, 0, 0xe0, 3, 42, 43]"

definition demo_host :: HostFiles where
  "demo_host = \<lparr>hf_input = Some demo_coff, hf_old = None, hf_can = True, hf_del = True, hf_room = 4096\<rparr>"

lemma demo_coff_ok: "coff_ok demo_coff" "40 + sizes (coff_sections demo_coff) \<le> 4096"
  "length (of_kind K_bss (coff_sections demo_coff)) \<le> 1"
  by code_simp+

theorem coff2noff_correct_witness:
  "\<exists>out h. coff2noff 3 (replicate 40 7) demo_host = (None, Some out) \<and> read_header [] out = Inr h
    \<and> describes demo_coff out (of_kind K_text (coff_sections demo_coff)) (noff_code h)
    \<and> describes demo_coff out (of_kind K_data (coff_sections demo_coff)) (initData h)
    \<and> describes_bss (of_kind K_bss (coff_sections demo_coff)) (uninitData h)"
  using coff2noff_correct[OF demo_coff_ok(1), of demo_host 3 "replicate 40 7" "[]"] demo_coff_ok(2,3)
  by (simp add: demo_host_def)

subsection \<open>The flat image\<close>

text \<open>
  The sections are written one behind the other: the address \<open>s_paddr\<close>, which says where a section
  belongs in the flat image, only moves the end of the image.
\<close>

lemma flat_sections_image:
  assumes "list_all (\<lambda>s. 0 \<le> s_size s \<and> 0 \<le> s_scnptr s \<and> s_scnptr s + s_size s \<le> int (length (cv_in c))) ss"
    and "cv_open c" "cv_opos c = length (cv_out c)" "int (cv_opos c) + sizes ss \<le> int (cv_room c)"
  shows "\<exists>tp' q. flat_sections ss tp c = Inr (tp', c\<lparr>cv_ipos := q,
      cv_out := cv_out c @ concat (map (section_bytes (cv_in c)) (filter (\<lambda>s. \<not> name_is s ''.bss'' \<and> \<not> name_is s ''.sbss'') ss)),
      cv_opos := cv_opos c + length (concat (map (section_bytes (cv_in c)) (filter (\<lambda>s. \<not> name_is s ''.bss'' \<and> \<not> name_is s ''.sbss'') ss)))\<rparr>)"
  using assms
proof (induction ss arbitrary: tp c)
  case Nil
  show ?case by (auto intro!: exI[of _ "cv_ipos c"])
next
  case (Cons s ss)
  have nn: "0 \<le> sizes ss" using Cons.prems(1) by (intro sum_list_nonneg) (auto simp: list_all_iff)
  have s: "0 \<le> s_size s" "0 \<le> s_scnptr s" "s_scnptr s + s_size s \<le> int (length (cv_in c))"
    using Cons.prems(1) by simp_all
  have l: "length (section_bytes (cv_in c) s) = nat (s_size s)" using s by (simp add: section_bytes_def)
  have put: "put_at (cv_out c) (length (cv_out c)) bs = cv_out c @ bs" for bs
    by (simp add: put_at_def overwrite_def)
  have sk: "seek_in (s_scnptr s) c = c\<lparr>cv_ipos := nat (s_scnptr s)\<rparr>" using s by (simp add: seek_in_def)
  let ?c = "c\<lparr>cv_ipos := nat (s_scnptr s) + nat (s_size s), cv_out := cv_out c @ section_bytes (cv_in c) s,
              cv_opos := cv_opos c + nat (s_size s)\<rparr>"
  have cp: "copy_segment s c = Inr ?c"
    using s l Cons.prems nn put by (simp add: copy_segment_def sk Coff_Read_ok Coff_Write_ok flip: section_bytes_def)
  let ?tp = "if tp < i32 (s_paddr s + s_size s) then i32 (s_paddr s + s_size s) else tp"
  show ?case
  proof (cases "\<not> name_is s ''.bss'' \<and> \<not> name_is s ''.sbss''")
    case True
    then show ?thesis using Cons.IH[of ?c ?tp] Cons.prems nn cp l s by (auto simp: Let_def add.assoc)
  next
    case False
    then show ?thesis using Cons.IH[of c ?tp] Cons.prems nn s by (auto simp: Let_def)
  qed
qed

subsection \<open>Failures\<close>

lemma bindX_Inr: "bindX m f = Inr y \<longleftrightarrow> (\<exists>x. m = Inr x \<and> f x = Inr y)"
  by (cases m) auto

lemma Coff_Read_Inr:
  "Coff_Read n c = Inr (bs, c') \<Longrightarrow> cv_in c' = cv_in c \<and> cv_open c' = cv_open c \<and>
     (0 \<le> n \<longrightarrow> bs = take (nat n) (drop (cv_ipos c) (cv_in c)) \<and> cv_ipos c' = cv_ipos c + nat n \<and> length bs = nat n)"
  by (auto simp: Coff_Read_def host_read_def Let_def split: if_splits)

lemma Coff_Write_open: "Coff_Write buf n c = Inr c' \<Longrightarrow> cv_open c' = cv_open c \<and> (0 \<le> n \<longrightarrow> cv_open c)"
  by (auto simp: Coff_Write_def host_write_def Let_def split: if_splits)

lemma seek_simps [simp]: "cv_open (seek_in n c) = cv_open c" "cv_open (seek_out n c) = cv_open c"
  "cv_in (seek_in n c) = cv_in c" "cv_in (seek_out n c) = cv_in c"
  by (simp_all add: seek_in_def seek_out_def)

lemma copy_segment_open: "copy_segment s c = Inr c' \<Longrightarrow> cv_open c' = cv_open c"
  by (auto simp: copy_segment_def bindX_Inr dest!: Coff_Read_Inr Coff_Write_open)

lemma noff_section_open: "noff_section s (h, p, c) = Inr (h', p', c') \<Longrightarrow> cv_open c' = cv_open c"
  by (auto simp: noff_section_def bindX_Inr Let_def dest!: copy_segment_open split: if_splits)

lemma noff_sections_open: "noff_sections ss (h, p, c) = Inr (h', p', c') \<Longrightarrow> cv_open c' = cv_open c"
  by (induction ss arbitrary: h p c) (auto simp: bindX_Inr dest!: noff_section_open)

lemma noff_convert_success:
  assumes "noff_convert junk c = Inr c'" "cv_ipos c = 0"
  shows "cv_open c" "76 \<le> length (cv_in c)" "uint (f_magic (filehdr_of (take 20 (cv_in c)))) = MIPSELMAGIC"
    "sint (word_of_int (a_magic (aouthdr_of (take 56 (drop 20 (cv_in c))))) :: u16) = OMAGIC"
proof -
  from assms(1) obtain fb c1 ab c2 sb c3 h p c4
    where r: "Coff_Read 20 c = Inr (fb, c1)" "uint (f_magic (filehdr_of fb)) = MIPSELMAGIC"
      "Coff_Read 56 c1 = Inr (ab, c2)" "sint (word_of_int (a_magic (aouthdr_of ab)) :: u16) = OMAGIC"
      "Coff_Read (uint (f_nscns (filehdr_of fb)) * 40) c2 = Inr (sb, c3)"
      "noff_sections (map host_section (scnhdrs_of (nat (uint (f_nscns (filehdr_of fb)))) sb)) (start_header junk, 40, seek_out 40 c3) = Inr (h, p, c4)"
      "Coff_Write (noff_bytes h) 40 (seek_out 0 c4) = Inr c'"
    by (auto simp: noff_convert_def bindX_Inr Let_def Coff_ShortToHost_def start_header_def split: if_splits)
  note rd = Coff_Read_Inr[OF r(1)] Coff_Read_Inr[OF r(3)] Coff_Read_Inr[OF r(5)]
  show "cv_open c" using Coff_Write_open[OF r(7)] noff_sections_open[OF r(6)] rd by simp
  show "76 \<le> length (cv_in c)" "uint (f_magic (filehdr_of (take 20 (cv_in c)))) = MIPSELMAGIC"
    "sint (word_of_int (a_magic (aouthdr_of (take 56 (drop 20 (cv_in c))))) :: u16) = OMAGIC"
    using rd r(2,4) assms(2) by auto
qed

text \<open>
  A conversion leaves either a complete executable or no file; it succeeds only for an input with
  the two magic numbers and an output that could be opened.
\<close>

lemma coff2noff_all_or_nothing:
  assumes "3 \<le> argc" "hf_del w" "hf_input w = Some src"
  shows "(\<exists>out. coff2noff argc junk w = (None, Some out) \<and> hf_can w \<and> 76 \<le> length src
            \<and> uint (f_magic (filehdr_of (take 20 src))) = MIPSELMAGIC
            \<and> sint (word_of_int (a_magic (aouthdr_of (take 56 (drop 20 src)))) :: u16) = OMAGIC)
    \<or> (\<exists>e. coff2noff argc junk w = (Some e, None))"
proof -
  let ?c = "\<lparr>cv_in = src, cv_ipos = 0, cv_out = [], cv_opos = 0, cv_open = hf_can w, cv_room = hf_room w\<rparr>"
  show ?thesis
  proof (cases "noff_convert junk ?c")
    case (Inl e)
    with assms show ?thesis by (auto simp: coff2noff_def Let_def split: prod.split)
  next
    case (Inr c')
    with assms noff_convert_success[OF Inr] show ?thesis by (simp add: coff2noff_def Let_def)
  qed
qed

end
