(* ===== verification/Nachos_Stack.thy ===== *)
theory Nachos_Stack
  imports Nachos_Prelude
begin

text \<open>
  The classes of \<open>c++example\<close>, with which the course introduces the style of the kernel's code: a
  stack in an array (\<open>stack.cc\<close>, the template of \<open>templatestack.cc\<close>, the class \<open>ArrayStack\<close> of
  \<open>inheritstack.cc\<close>), a singly linked list of integers (\<open>list.cc\<close>) and a stack on top of it
  (\<open>ListStack\<close>). The virtual methods of the abstract class \<open>Stack\<close> are a record of functions, so that
  \<open>Stack::SelfTest\<close> is one definition for every derived class. The contract of a stack is the locale
  \<open>lifo_stack\<close>, in which the self test is verified once. Printed lines are values of type \<open>said\<close>.
\<close>

subsection \<open>The stack in an array\<close>

record 'a TStack =
  ts_size :: int
  ts_top :: int
  ts_stack :: "'a list"

text \<open>\<open>mem\<close> is the array that \<open>new T[size]\<close> returns.\<close>

definition TStack_new :: "int \<Rightarrow> 'a list \<Rightarrow> 'a TStack res" where
  "TStack_new sz mem = assertR (sz \<ge> 1) (Inr \<lparr>ts_size = sz, ts_top = 0, ts_stack = mem\<rparr>)"

definition TStack_Full :: "'a TStack \<Rightarrow> bool" where
  "TStack_Full s \<longleftrightarrow> ts_top s = ts_size s"

definition TStack_Empty :: "'a TStack \<Rightarrow> bool" where
  "TStack_Empty s \<longleftrightarrow> ts_top s = 0"

definition TStack_Push :: "'a \<Rightarrow> 'a TStack \<Rightarrow> 'a TStack res" where
  "TStack_Push v s = assertR (\<not> TStack_Full s)
     (bindR (updR (ts_stack s) (ts_top s) v) (\<lambda>a. Inr (s\<lparr>ts_stack := a, ts_top := ts_top s + 1\<rparr>)))"

definition TStack_Pop :: "'a TStack \<Rightarrow> ('a \<times> 'a TStack) res" where
  "TStack_Pop s = assertR (\<not> TStack_Empty s)
     (let t = ts_top s - 1 in bindR (ixR (ts_stack s) t) (\<lambda>v. Inr (v, s\<lparr>ts_top := t\<rparr>)))"

datatype 'a said = Pushing 'a | Popping 'a

text \<open>
  The two loops of \<open>SelfTest\<close>, over the operations they call. They need not end for arbitrary
  operations, so not ending is the value \<open>None\<close>. \<open>inc\<close> is \<open>count++\<close> at the type of the elements.
\<close>

partial_function (option) fill :: "('s \<Rightarrow> bool) \<Rightarrow> ('a \<Rightarrow> 's \<Rightarrow> 's res) \<Rightarrow> ('a \<Rightarrow> 'a) \<Rightarrow> 'a \<Rightarrow> 's \<Rightarrow> ('a said list \<times> 's) res option" where
  "fill full psh inc count s =
     (if full s then Some (Inr ([], s))
      else case psh count s of Inl e \<Rightarrow> Some (Inl e)
        | Inr s' \<Rightarrow> Option.bind (fill full psh inc (inc count) s')
            (\<lambda>r. Some (mapR (\<lambda>(out, t). (Pushing count # out, t)) r)))"

partial_function (option) drain :: "('s \<Rightarrow> bool) \<Rightarrow> ('s \<Rightarrow> ('a \<times> 's) res) \<Rightarrow> 's \<Rightarrow> ('a said list \<times> 's) res option" where
  "drain emp pp s =
     (if emp s then Some (Inr ([], s))
      else case pp s of Inl e \<Rightarrow> Some (Inl e)
        | Inr (v, s') \<Rightarrow> Option.bind (drain emp pp s')
            (\<lambda>r. Some (mapR (\<lambda>(out, t). (Popping v # out, t)) r)))"

definition fill_then_drain :: "('a said list \<times> 's) res option \<Rightarrow> ('s \<Rightarrow> ('a said list \<times> 's) res option) \<Rightarrow> ('a said list \<times> 's) res option" where
  "fill_then_drain m f = Option.bind m (\<lambda>r. case r of Inl e \<Rightarrow> Some (Inl e)
     | Inr (out, s) \<Rightarrow> Option.bind (f s) (\<lambda>q. Some (mapR (\<lambda>(out', t). (out @ out', t)) q)))"

definition TStack_SelfTest :: "('a \<Rightarrow> 'a) \<Rightarrow> 'a \<Rightarrow> 'a TStack \<Rightarrow> ('a said list \<times> 'a TStack) res option" where
  "TStack_SelfTest inc start s =
     fill_then_drain (fill TStack_Full TStack_Push inc start s) (drain TStack_Empty TStack_Pop)"

text \<open>\<open>main\<close> of \<open>templatestack.cc\<close>: a stack of integers from 17 on, one of characters from \<open>'a'\<close> on.\<close>

definition template_main :: "u32 list \<Rightarrow> byte list \<Rightarrow> (u32 said list \<times> byte said list) res option" where
  "template_main m1 m2 = (case (TStack_new 10 m1, TStack_new 10 m2) of
       (Inr s1, Inr s2) \<Rightarrow> Option.bind (TStack_SelfTest (\<lambda>n. n + 1) 17 s1) (\<lambda>r1.
         Option.bind (TStack_SelfTest (\<lambda>n. n + 1) 97 s2) (\<lambda>r2.
         Some (bindR r1 (\<lambda>(o1, t1). mapR (\<lambda>(o2, t2). (o1, o2)) r2))))
     | _ \<Rightarrow> Some (Inl AssertFail))"

subsection \<open>The stack of integers\<close>

text \<open>\<open>stack.cc\<close>: the same class written for \<open>int\<close>.\<close>

record IStack =
  st_size :: int
  st_top :: int
  st_stack :: "u32 list"

definition Stack_new :: "int \<Rightarrow> u32 list \<Rightarrow> IStack res" where
  "Stack_new sz mem = assertR (sz \<ge> 1) (Inr \<lparr>st_size = sz, st_top = 0, st_stack = mem\<rparr>)"

definition Stack_Full :: "IStack \<Rightarrow> bool" where
  "Stack_Full s \<longleftrightarrow> st_top s = st_size s"

definition Stack_Empty :: "IStack \<Rightarrow> bool" where
  "Stack_Empty s \<longleftrightarrow> st_top s = 0"

definition Stack_Push :: "u32 \<Rightarrow> IStack \<Rightarrow> IStack res" where
  "Stack_Push v s = assertR (\<not> Stack_Full s)
     (bindR (updR (st_stack s) (st_top s) v) (\<lambda>a. Inr (s\<lparr>st_stack := a, st_top := st_top s + 1\<rparr>)))"

definition Stack_Pop :: "IStack \<Rightarrow> (u32 \<times> IStack) res" where
  "Stack_Pop s = assertR (\<not> Stack_Empty s)
     (let t = st_top s - 1 in bindR (ixR (st_stack s) t) (\<lambda>v. Inr (v, s\<lparr>st_top := t\<rparr>)))"

definition Stack_SelfTest :: "IStack \<Rightarrow> (u32 said list \<times> IStack) res option" where
  "Stack_SelfTest s = fill_then_drain (fill Stack_Full Stack_Push (\<lambda>n. n + 1) 17 s) (drain Stack_Empty Stack_Pop)"

definition stack_main :: "u32 list \<Rightarrow> u32 said list res option" where
  "stack_main mem = (case Stack_new 10 mem of Inl e \<Rightarrow> Some (Inl e)
     | Inr s \<Rightarrow> Option.bind (Stack_SelfTest s) (\<lambda>r. Some (mapR fst r)))"

subsection \<open>The list of integers\<close>

record IElement =
  ie_next :: "nat option"
  ie_item :: u32

text \<open>The heap of the list elements; \<open>il_new\<close> is the address \<open>new\<close> returns next.\<close>

record IList =
  il_first :: "nat option"
  il_last :: "nat option"
  il_heap :: "nat \<rightharpoonup> IElement"
  il_new :: nat

definition IList_new :: IList where
  "IList_new = \<lparr>il_first = None, il_last = None, il_heap = Map.empty, il_new = 0\<rparr>"

definition IList_Empty :: "IList \<Rightarrow> bool" where
  "IList_Empty l \<longleftrightarrow> il_first l = None"

definition IList_Prepend :: "u32 \<Rightarrow> IList \<Rightarrow> IList" where
  "IList_Prepend v l =
     (let e = il_new l; l1 = l\<lparr>il_heap := (il_heap l)(e \<mapsto> \<lparr>ie_next = None, ie_item = v\<rparr>), il_new := e + 1\<rparr> in
      if IList_Empty l then l1\<lparr>il_first := Some e, il_last := Some e\<rparr>
      else l1\<lparr>il_heap := (il_heap l1)(e \<mapsto> \<lparr>ie_next = il_first l, ie_item = v\<rparr>), il_first := Some e\<rparr>)"

definition IList_Remove :: "IList \<Rightarrow> (u32 \<times> IList) res" where
  "IList_Remove l = assertR (\<not> IList_Empty l)
     (case il_first l of None \<Rightarrow> Inl BadAccess
      | Some e \<Rightarrow> (case il_heap l e of None \<Rightarrow> Inl BadAccess
        | Some el \<Rightarrow>
          (let l1 = (if il_first l = il_last l then l\<lparr>il_first := None, il_last := None\<rparr> else l\<lparr>il_first := ie_next el\<rparr>)
           in Inr (ie_item el, l1\<lparr>il_heap := (il_heap l1)(e := None)\<rparr>))))"

text \<open>\<open>~List\<close>: remove until the list is empty.\<close>

partial_function (option) IList_delete :: "IList \<Rightarrow> IList res option" where
  "IList_delete l =
     (if IList_Empty l then Some (Inr l)
      else case IList_Remove l of Inl e \<Rightarrow> Some (Inl e) | Inr (v, l') \<Rightarrow> IList_delete l')"

subsection \<open>The abstract class and its two implementations\<close>

record 's VStack =
  v_Push :: "u32 \<Rightarrow> 's \<Rightarrow> 's res"
  v_Pop :: "'s \<Rightarrow> (u32 \<times> 's) res"
  v_Full :: "'s \<Rightarrow> bool"
  v_Empty :: "'s \<Rightarrow> bool"

record ArrayStack =
  ar_size :: int
  ar_top :: int
  ar_stack :: "u32 list"

definition ArrayStack_new :: "int \<Rightarrow> u32 list \<Rightarrow> ArrayStack res" where
  "ArrayStack_new sz mem = assertR (sz \<ge> 1) (Inr \<lparr>ar_size = sz, ar_top = 0, ar_stack = mem\<rparr>)"

definition ArrayStack_Full :: "ArrayStack \<Rightarrow> bool" where
  "ArrayStack_Full s \<longleftrightarrow> ar_top s = ar_size s"

definition ArrayStack_Empty :: "ArrayStack \<Rightarrow> bool" where
  "ArrayStack_Empty s \<longleftrightarrow> ar_top s = 0"

definition ArrayStack_Push :: "u32 \<Rightarrow> ArrayStack \<Rightarrow> ArrayStack res" where
  "ArrayStack_Push v s = assertR (\<not> ArrayStack_Full s)
     (bindR (updR (ar_stack s) (ar_top s) v) (\<lambda>a. Inr (s\<lparr>ar_stack := a, ar_top := ar_top s + 1\<rparr>)))"

definition ArrayStack_Pop :: "ArrayStack \<Rightarrow> (u32 \<times> ArrayStack) res" where
  "ArrayStack_Pop s = assertR (\<not> ArrayStack_Empty s)
     (let t = ar_top s - 1 in bindR (ixR (ar_stack s) t) (\<lambda>v. Inr (v, s\<lparr>ar_top := t\<rparr>)))"

definition ArrayStack_class :: "ArrayStack VStack" where
  "ArrayStack_class = \<lparr>v_Push = ArrayStack_Push, v_Pop = ArrayStack_Pop, v_Full = ArrayStack_Full, v_Empty = ArrayStack_Empty\<rparr>"

definition ListStack_new :: IList where "ListStack_new = IList_new"

definition ListStack_Push :: "u32 \<Rightarrow> IList \<Rightarrow> IList res" where
  "ListStack_Push v l = Inr (IList_Prepend v l)"

definition ListStack_Full :: "IList \<Rightarrow> bool" where "ListStack_Full l = False"

definition ListStack_Empty :: "IList \<Rightarrow> bool" where "ListStack_Empty l = IList_Empty l"

definition ListStack_Pop :: "IList \<Rightarrow> (u32 \<times> IList) res" where
  "ListStack_Pop l = assertR (\<not> ListStack_Empty l) (IList_Remove l)"

definition ListStack_class :: "IList VStack" where
  "ListStack_class = \<lparr>v_Push = ListStack_Push, v_Pop = ListStack_Pop, v_Full = ListStack_Full, v_Empty = ListStack_Empty\<rparr>"

text \<open>\<open>Stack::SelfTest(numToPush)\<close>: the \<open>for\<close> loop, then the \<open>while\<close> loop.\<close>

fun push_loop :: "'s VStack \<Rightarrow> nat \<Rightarrow> u32 \<Rightarrow> 's \<Rightarrow> (u32 said list \<times> 's) res" where
  "push_loop V 0 count s = Inr ([], s)"
| "push_loop V (Suc n) count s = assertR (\<not> v_Full V s)
     (bindR (v_Push V count s) (\<lambda>s. mapR (\<lambda>(out, t). (Pushing count # out, t)) (push_loop V n (count + 1) s)))"

definition VStack_SelfTest :: "'s VStack \<Rightarrow> int \<Rightarrow> 's \<Rightarrow> (u32 said list \<times> 's) res option" where
  "VStack_SelfTest V numToPush s =
     fill_then_drain (Some (push_loop V (nat numToPush) 17 s)) (drain (v_Empty V) (v_Pop V))"

definition inherit_main :: "u32 list \<Rightarrow> (u32 said list \<times> u32 said list) res option" where
  "inherit_main mem = (case ArrayStack_new 10 mem of Inl e \<Rightarrow> Some (Inl e)
     | Inr s1 \<Rightarrow> Option.bind (VStack_SelfTest ArrayStack_class 10 s1) (\<lambda>r1.
         Option.bind (VStack_SelfTest ListStack_class 10 ListStack_new) (\<lambda>r2.
         Option.bind (case r2 of Inl e \<Rightarrow> Some (Inl e) | Inr (o2, l) \<Rightarrow> IList_delete l) (\<lambda>d.
         Some (bindR r1 (\<lambda>(o1, t1). bindR r2 (\<lambda>(o2, t2). mapR (\<lambda>_. (o1, o2)) d)))))))"

subsection \<open>The contract of a stack\<close>

text \<open>\<open>R s xs\<close>: the stack \<open>s\<close> holds \<open>xs\<close>, the top first. \<open>cap s\<close> is its capacity, if it has one.\<close>

locale lifo_stack =
  fixes psh :: "'a \<Rightarrow> 's \<Rightarrow> 's res" and pp :: "'s \<Rightarrow> ('a \<times> 's) res" and full :: "'s \<Rightarrow> bool" and emp :: "'s \<Rightarrow> bool"
    and R :: "'s \<Rightarrow> 'a list \<Rightarrow> bool" and cap :: "'s \<Rightarrow> nat option"
  assumes push_ok: "R s xs \<Longrightarrow> \<not> full s \<Longrightarrow> \<exists>s'. psh v s = Inr s' \<and> R s' (v # xs) \<and> cap s' = cap s"
    and pop_ok: "R s (v # xs) \<Longrightarrow> \<exists>s'. pp s = Inr (v, s') \<and> R s' xs \<and> cap s' = cap s"
    and push_full: "R s xs \<Longrightarrow> full s \<Longrightarrow> psh v s = Inl AssertFail"
    and pop_empty: "R s [] \<Longrightarrow> pp s = Inl AssertFail"
    and emp_iff: "R s xs \<Longrightarrow> emp s \<longleftrightarrow> xs = []"
    and full_iff: "R s xs \<Longrightarrow> full s \<longleftrightarrow> cap s = Some (length xs)"
begin

lemma drain_ok: "R s xs \<Longrightarrow> \<exists>s'. drain emp pp s = Some (Inr (map Popping xs, s')) \<and> R s' [] \<and> cap s' = cap s"
proof (induction xs arbitrary: s)
  case Nil
  then show ?case using emp_iff[OF Nil] by (subst drain.simps) auto
next
  case (Cons v xs)
  from pop_ok[OF Cons.prems] obtain s' where s': "pp s = Inr (v, s')" "R s' xs" "cap s' = cap s" by blast
  from Cons.IH[OF s'(2)] s' emp_iff[OF Cons.prems] show ?case by (subst drain.simps) auto
qed

end

text \<open>The values \<open>count++\<close> runs through.\<close>

primrec counts :: "('a \<Rightarrow> 'a) \<Rightarrow> nat \<Rightarrow> 'a \<Rightarrow> 'a list" where
  "counts inc 0 c = []"
| "counts inc (Suc n) c = c # counts inc n (inc c)"

definition selftest_output :: "('a \<Rightarrow> 'a) \<Rightarrow> nat \<Rightarrow> 'a \<Rightarrow> 'a said list" where
  "selftest_output inc n c = map Pushing (counts inc n c) @ map Popping (rev (counts inc n c))"

context lifo_stack
begin

lemma fill_ok:
  "R s xs \<Longrightarrow> cap s = Some (length xs + n) \<Longrightarrow>
     \<exists>s'. fill full psh inc c s = Some (Inr (map Pushing (counts inc n c), s')) \<and> R s' (rev (counts inc n c) @ xs) \<and> cap s' = cap s"
proof (induction n arbitrary: s xs c)
  case 0
  then show ?case using full_iff[OF 0(1)] by (subst fill.simps) auto
next
  case (Suc n)
  have nf: "\<not> full s" using full_iff[OF Suc.prems(1)] Suc.prems(2) by simp
  from push_ok[OF Suc.prems(1) nf, of c] obtain s'
    where s': "psh c s = Inr s'" "R s' (c # xs)" "cap s' = cap s" by blast
  with Suc.IH[OF s'(2), of "inc c"] Suc.prems nf show ?case by (subst fill.simps) auto
qed

text \<open>The self test that fills the stack.\<close>

lemma selftest_full:
  assumes "R s []" "cap s = Some n"
  shows "\<exists>s'. fill_then_drain (fill full psh inc c s) (drain emp pp) = Some (Inr (selftest_output inc n c, s')) \<and> R s' []"
proof -
  from fill_ok[OF assms(1), of n inc c] assms(2) obtain t
    where t: "fill full psh inc c s = Some (Inr (map Pushing (counts inc n c), t))" "R t (rev (counts inc n c))" by auto
  from drain_ok[OF t(2)] obtain s' where "drain emp pp t = Some (Inr (map Popping (rev (counts inc n c)), s'))" "R s' []" by blast
  with t(1) show ?thesis by (simp add: fill_then_drain_def selftest_output_def)
qed

end

text \<open>The same contract for the virtual methods of a class derived from \<open>Stack\<close>.\<close>

locale virtual_stack = lifo_stack "v_Push V" "v_Pop V" "v_Full V" "v_Empty V" R cap
  for V :: "'s VStack" and R cap
begin

lemma push_loop_ok:
  "R s xs \<Longrightarrow> (\<forall>k. cap s = Some k \<longrightarrow> length xs + n \<le> k) \<Longrightarrow>
     \<exists>s'. push_loop V n c s = Inr (map Pushing (counts (\<lambda>x. x + 1) n c), s') \<and> R s' (rev (counts (\<lambda>x. x + 1) n c) @ xs)"
proof (induction n arbitrary: s xs c)
  case (Suc n)
  have nf: "\<not> v_Full V s" using full_iff[OF Suc.prems(1)] Suc.prems(2) by fastforce
  from push_ok[OF Suc.prems(1) nf, of c] obtain s'
    where s': "v_Push V c s = Inr s'" "R s' (c # xs)" "cap s' = cap s" by blast
  with Suc.IH[OF s'(2), of "c + 1"] Suc.prems nf show ?case by fastforce
qed simp

lemma push_loop_overflow:
  "R s xs \<Longrightarrow> cap s = Some (length xs + m) \<Longrightarrow> m < n \<Longrightarrow> push_loop V n c s = Inl AssertFail"
proof (induction n arbitrary: s xs c m)
  case (Suc n)
  show ?case
  proof (cases m)
    case 0
    then show ?thesis using full_iff[OF Suc.prems(1)] Suc.prems(2) by simp
  next
    case (Suc k)
    have nf: "\<not> v_Full V s" using full_iff[OF Suc.prems(1)] Suc.prems(2) Suc by simp
    from push_ok[OF Suc.prems(1) nf, of c] obtain s'
      where s': "v_Push V c s = Inr s'" "R s' (c # xs)" "cap s' = cap s" by blast
    with Suc.IH[OF s'(2), of k "c + 1"] Suc.prems nf Suc show ?thesis by simp
  qed
qed simp

lemma SelfTest_ok:
  assumes "R s []" "\<forall>k. cap s = Some k \<longrightarrow> nat n \<le> k"
  shows "\<exists>s'. VStack_SelfTest V n s = Some (Inr (selftest_output (\<lambda>x. x + 1) (nat n) 17, s')) \<and> R s' []"
proof -
  from push_loop_ok[OF assms(1), of "nat n" 17] assms(2) obtain t
    where t: "push_loop V (nat n) 17 s = Inr (map Pushing (counts (\<lambda>x. x + 1) (nat n) 17), t)"
      "R t (rev (counts (\<lambda>x. x + 1) (nat n) 17))" by auto
  from drain_ok[OF t(2)] t(1) show ?thesis
    by (auto simp: VStack_SelfTest_def fill_then_drain_def selftest_output_def)
qed

lemma SelfTest_overflow:
  assumes "R s []" "cap s = Some k" "k < nat n"
  shows "VStack_SelfTest V n s = Some (Inl AssertFail)"
  using push_loop_overflow[of s "[]" k "nat n" 17] assms by (simp add: VStack_SelfTest_def fill_then_drain_def)

end

subsection \<open>Stacks in arrays keep the contract\<close>

definition array_rep :: "int \<Rightarrow> int \<Rightarrow> 'a list \<Rightarrow> 'a list \<Rightarrow> bool" where
  "array_rep sz t a xs \<longleftrightarrow> int (length a) = sz \<and> 0 \<le> t \<and> t \<le> sz \<and> xs = rev (take (nat t) a)"

lemma array_push:
  assumes "array_rep sz t a xs" "t \<noteq> sz"
  shows "\<exists>a'. updR a t v = Inr a' \<and> array_rep sz (t + 1) a' (v # xs)"
proof -
  have t: "0 \<le> t" "t < int (length a)" using assms by (auto simp: array_rep_def)
  have "take (nat (t + 1)) (a[nat t := v]) = take (nat t) a @ [v]"
    using t by (simp add: nat_add_distrib take_Suc_conv_app_nth)
  with assms t show ?thesis by (auto simp: array_rep_def)
qed

lemma array_pop:
  assumes "array_rep sz t a (v # xs)"
  shows "ixR a (t - 1) = Inr v" "array_rep sz (t - 1) a xs" "t \<noteq> 0"
proof -
  show t0: "t \<noteq> 0" using assms by (auto simp: array_rep_def)
  with assms have t: "0 \<le> t - 1" "t - 1 < int (length a)" by (auto simp: array_rep_def)
  have "nat t = Suc (nat (t - 1))" using t by simp
  then have "take (nat t) a = take (nat (t - 1)) a @ [a ! nat (t - 1)]"
    using t by (simp add: take_Suc_conv_app_nth)
  with assms t show "ixR a (t - 1) = Inr v" "array_rep sz (t - 1) a xs" by (auto simp: array_rep_def)
qed

lemma array_bounds:
  assumes "array_rep sz t a xs"
  shows "t = 0 \<longleftrightarrow> xs = []" "t = sz \<longleftrightarrow> nat sz = length xs"
  using assms by (auto simp: array_rep_def)

interpretation tstack: lifo_stack TStack_Push TStack_Pop TStack_Full TStack_Empty
  "\<lambda>s. array_rep (ts_size s) (ts_top s) (ts_stack s)" "\<lambda>s. Some (nat (ts_size s))"
proof
  fix s :: "'a TStack" and xs v
  assume r: "array_rep (ts_size s) (ts_top s) (ts_stack s) xs" "\<not> TStack_Full s"
  from array_push[OF r(1), of v] r(2)
  show "\<exists>s'. TStack_Push v s = Inr s' \<and> array_rep (ts_size s') (ts_top s') (ts_stack s') (v # xs) \<and> Some (nat (ts_size s')) = Some (nat (ts_size s))"
    by (auto simp: TStack_Push_def TStack_Full_def)
qed (auto simp: TStack_Push_def TStack_Pop_def TStack_Full_def TStack_Empty_def Let_def array_pop dest: array_bounds array_pop(3))

interpretation istack: lifo_stack Stack_Push Stack_Pop Stack_Full Stack_Empty
  "\<lambda>s. array_rep (st_size s) (st_top s) (st_stack s)" "\<lambda>s. Some (nat (st_size s))"
proof
  fix s xs v
  assume r: "array_rep (st_size s) (st_top s) (st_stack s) xs" "\<not> Stack_Full s"
  from array_push[OF r(1), of v] r(2)
  show "\<exists>s'. Stack_Push v s = Inr s' \<and> array_rep (st_size s') (st_top s') (st_stack s') (v # xs) \<and> Some (nat (st_size s')) = Some (nat (st_size s))"
    by (auto simp: Stack_Push_def Stack_Full_def)
qed (auto simp: Stack_Push_def Stack_Pop_def Stack_Full_def Stack_Empty_def Let_def array_pop dest: array_bounds array_pop(3))

abbreviation ArrayStack_rep :: "ArrayStack \<Rightarrow> u32 list \<Rightarrow> bool" where
  "ArrayStack_rep s \<equiv> array_rep (ar_size s) (ar_top s) (ar_stack s)"

interpretation arraystack: virtual_stack ArrayStack_class ArrayStack_rep "\<lambda>s. Some (nat (ar_size s))"
proof
  fix s xs v
  assume r: "ArrayStack_rep s xs" "\<not> v_Full ArrayStack_class s"
  from array_push[OF r(1), of v] r(2)
  show "\<exists>s'. v_Push ArrayStack_class v s = Inr s' \<and> ArrayStack_rep s' (v # xs) \<and> Some (nat (ar_size s')) = Some (nat (ar_size s))"
    by (auto simp: ArrayStack_class_def ArrayStack_Push_def ArrayStack_Full_def)
qed (auto simp: ArrayStack_class_def ArrayStack_Push_def ArrayStack_Pop_def ArrayStack_Full_def ArrayStack_Empty_def Let_def
      array_pop dest: array_bounds array_pop(3))

subsection \<open>The linked list keeps the contract\<close>

text \<open>The elements from a pointer on, with their addresses.\<close>

fun chain :: "(nat \<rightharpoonup> IElement) \<Rightarrow> nat option \<Rightarrow> (nat \<times> u32) list \<Rightarrow> bool" where
  "chain h p [] \<longleftrightarrow> p = None"
| "chain h p ((a, x) # ns) \<longleftrightarrow> p = Some a \<and> (\<exists>nx. h a = Some \<lparr>ie_next = nx, ie_item = x\<rparr> \<and> chain h nx ns)"

text \<open>The list holds \<open>xs\<close>; its elements are all there is on the heap, so nothing leaks.\<close>

definition IList_rep :: "IList \<Rightarrow> u32 list \<Rightarrow> bool" where
  "IList_rep l xs \<longleftrightarrow> (\<exists>ns. chain (il_heap l) (il_first l) ns \<and> map snd ns = xs \<and> distinct (map fst ns)
     \<and> dom (il_heap l) = fst ` set ns \<and> (\<forall>a\<in>dom (il_heap l). a < il_new l)
     \<and> il_last l = (if ns = [] then None else Some (fst (last ns))))"

lemma chain_upd: "a \<notin> fst ` set ns \<Longrightarrow> chain (h(a := e)) p ns = chain h p ns"
  by (induction h p ns rule: chain.induct) auto

lemma IList_Prepend_rep:
  assumes "IList_rep l xs"
  shows "IList_rep (IList_Prepend v l) (v # xs)"
proof -
  obtain ns where ns: "chain (il_heap l) (il_first l) ns" "map snd ns = xs" "distinct (map fst ns)"
      "dom (il_heap l) = fst ` set ns" "\<forall>a\<in>fst ` set ns. a < il_new l" "il_last l = (if ns = [] then None else Some (fst (last ns)))"
    using assms by (auto simp: IList_rep_def)
  then have fr: "il_new l \<notin> fst ` set ns" by blast
  have e: "IList_Empty l \<longleftrightarrow> ns = []" using ns(1) by (cases ns) (auto simp: IList_Empty_def)
  show ?thesis unfolding IList_rep_def
  proof (rule exI[of _ "(il_new l, v) # ns"], intro conjI)
    show "chain (il_heap (IList_Prepend v l)) (il_first (IList_Prepend v l)) ((il_new l, v) # ns)"
      using ns(1) e fr by (auto simp: IList_Prepend_def Let_def chain_upd)
    show "dom (il_heap (IList_Prepend v l)) = fst ` set ((il_new l, v) # ns)"
      using ns(4) by (auto simp: IList_Prepend_def Let_def)
    show "\<forall>a\<in>dom (il_heap (IList_Prepend v l)). a < il_new (IList_Prepend v l)"
      using ns(4,5) by (auto simp: IList_Prepend_def Let_def less_Suc_eq)
    show "il_last (IList_Prepend v l) = (if (il_new l, v) # ns = [] then None else Some (fst (last ((il_new l, v) # ns))))"
      using ns(6) e by (auto simp: IList_Prepend_def Let_def)
  qed (use ns fr in auto)
qed

lemma IList_Remove_rep:
  assumes "IList_rep l (v # xs)"
  shows "\<exists>l'. IList_Remove l = Inr (v, l') \<and> IList_rep l' xs"
proof -
  obtain a ns where ns: "chain (il_heap l) (il_first l) ((a, v) # ns)" "map snd ns = xs" "distinct (a # map fst ns)"
      "dom (il_heap l) = fst ` set ((a, v) # ns)" "\<forall>b\<in>dom (il_heap l). b < il_new l" "il_last l = Some (fst (last ((a, v) # ns)))"
    using assms by (auto simp: IList_rep_def map_eq_Cons_conv)
  then obtain nx where nx: "il_first l = Some a" "il_heap l a = Some \<lparr>ie_next = nx, ie_item = v\<rparr>" "chain (il_heap l) nx ns" by auto
  have one: "il_first l = il_last l \<longleftrightarrow> ns = []"
    using ns(3,6) nx(1) last_in_set[of ns] by (cases "ns = []") auto
  let ?l = "(if il_first l = il_last l then l\<lparr>il_first := None, il_last := None\<rparr> else l\<lparr>il_first := nx\<rparr>)\<lparr>il_heap := (il_heap l)(a := None)\<rparr>"
  have "IList_Remove l = Inr (v, ?l)"
    using nx by (auto simp: IList_Remove_def IList_Empty_def Let_def)
  moreover have "IList_rep ?l xs" unfolding IList_rep_def
    by (rule exI[of _ ns]) (use ns nx one in \<open>auto simp: chain_upd\<close>)
  ultimately show ?thesis by blast
qed

lemma IList_Empty_rep: "IList_rep l xs \<Longrightarrow> IList_Empty l \<longleftrightarrow> xs = []"
  by (auto simp: IList_rep_def IList_Empty_def elim: chain.elims)

interpretation liststack: virtual_stack ListStack_class IList_rep "\<lambda>s. None"
  by unfold_locales (auto simp: ListStack_class_def ListStack_Push_def ListStack_Pop_def ListStack_Full_def ListStack_Empty_def
      IList_Prepend_rep IList_Empty_rep dest: IList_Remove_rep)

text \<open>The destructor ends and frees every element.\<close>

lemma IList_delete_rep: "IList_rep l xs \<Longrightarrow> \<exists>l'. IList_delete l = Some (Inr l') \<and> il_heap l' = Map.empty"
proof (induction xs arbitrary: l)
  case Nil
  then show ?case using IList_Empty_rep[OF Nil] by (subst IList_delete.simps) (auto simp: IList_rep_def)
next
  case (Cons v xs)
  from IList_Remove_rep[OF Cons.prems] obtain l' where "IList_Remove l = Inr (v, l')" "IList_rep l' xs" by blast
  with Cons.IH[of l'] IList_Empty_rep[OF Cons.prems] show ?case by (subst IList_delete.simps) auto
qed

lemma IList_new_rep: "IList_rep IList_new []"
  by (auto simp: IList_rep_def IList_new_def)

subsection \<open>The programs\<close>

lemma new_array_rep: "length mem = nat sz \<Longrightarrow> 1 \<le> sz \<Longrightarrow> array_rep sz 0 mem []"
  by (simp add: array_rep_def)

text \<open>C39: \<open>Stack::SelfTest\<close> cannot tell the two implementations apart: on a new \<open>ArrayStack\<close> with enough
  room and on a new \<open>ListStack\<close> it ends and prints the same, the numbers from 17 on as they are pushed
  and then the same numbers in the opposite order as they are popped, and it leaves both stacks empty;
  on an \<open>ArrayStack\<close> that is too small it fails the assertion; deleting the list afterwards frees every
  element.\<close>

theorem Stack_SelfTest_same:
  assumes "1 \<le> sz" "length mem = nat sz"
  shows "(n \<le> sz \<longrightarrow> (\<exists>s a t d. ArrayStack_new sz mem = Inr s
      \<and> VStack_SelfTest ArrayStack_class n s = Some (Inr (selftest_output (\<lambda>x. x + 1) (nat n) 17, a)) \<and> ArrayStack_Empty a
      \<and> VStack_SelfTest ListStack_class n ListStack_new = Some (Inr (selftest_output (\<lambda>x. x + 1) (nat n) 17, t)) \<and> ListStack_Empty t
      \<and> IList_delete t = Some (Inr d) \<and> il_heap d = Map.empty))
    \<and> (sz < n \<longrightarrow> (\<exists>s. ArrayStack_new sz mem = Inr s \<and> VStack_SelfTest ArrayStack_class n s = Some (Inl AssertFail)))"
proof (intro conjI impI)
  let ?s = "\<lparr>ar_size = sz, ar_top = 0, ar_stack = mem\<rparr>"
  have new: "ArrayStack_new sz mem = Inr ?s" using assms by (simp add: ArrayStack_new_def)
  have r: "ArrayStack_rep ?s []" using new_array_rep[OF assms(2,1)] by simp
  show "\<exists>s. ArrayStack_new sz mem = Inr s \<and> VStack_SelfTest ArrayStack_class n s = Some (Inl AssertFail)" if "sz < n"
    using arraystack.SelfTest_overflow[OF r refl, of n] that assms new by simp
  assume n: "n \<le> sz"
  from arraystack.SelfTest_ok[OF r, of n] nat_mono[OF n] obtain a
    where a: "VStack_SelfTest ArrayStack_class n ?s = Some (Inr (selftest_output (\<lambda>x. x + 1) (nat n) 17, a))" "ArrayStack_rep a []" by auto
  from liststack.SelfTest_ok[OF IList_new_rep, of n] obtain t
    where t: "VStack_SelfTest ListStack_class n IList_new = Some (Inr (selftest_output (\<lambda>x. x + 1) (nat n) 17, t))" "IList_rep t []" by auto
  from IList_delete_rep[OF t(2)] obtain d where "IList_delete t = Some (Inr d)" "il_heap d = Map.empty" by blast
  with new a t array_bounds(1)[OF a(2)] IList_Empty_rep[OF t(2)]
  show "\<exists>s a t d. ArrayStack_new sz mem = Inr s
      \<and> VStack_SelfTest ArrayStack_class n s = Some (Inr (selftest_output (\<lambda>x. x + 1) (nat n) 17, a)) \<and> ArrayStack_Empty a
      \<and> VStack_SelfTest ListStack_class n ListStack_new = Some (Inr (selftest_output (\<lambda>x. x + 1) (nat n) 17, t)) \<and> ListStack_Empty t
      \<and> IList_delete t = Some (Inr d) \<and> il_heap d = Map.empty"
    by (auto simp: ListStack_new_def ListStack_Empty_def ArrayStack_Empty_def)
qed

theorem Stack_SelfTest_same_witness:
  "(\<exists>s a t d. ArrayStack_new 10 (replicate 10 0) = Inr s
      \<and> VStack_SelfTest ArrayStack_class 10 s = Some (Inr (selftest_output (\<lambda>x. x + 1) 10 17, a)) \<and> ArrayStack_Empty a
      \<and> VStack_SelfTest ListStack_class 10 ListStack_new = Some (Inr (selftest_output (\<lambda>x. x + 1) 10 17, t)) \<and> ListStack_Empty t
      \<and> IList_delete t = Some (Inr d) \<and> il_heap d = Map.empty)
    \<and> (\<exists>s. ArrayStack_new 10 (replicate 10 0) = Inr s \<and> VStack_SelfTest ArrayStack_class 11 s = Some (Inl AssertFail))"
  using Stack_SelfTest_same[of 10 "replicate 10 0" 10] Stack_SelfTest_same[of 10 "replicate 10 0" 11] by simp

lemma stack_main_prints:
  assumes "length mem = 10"
  shows "stack_main mem = Some (Inr (selftest_output (\<lambda>x. x + 1) 10 17))"
proof -
  have "array_rep 10 0 mem []" using assms by (simp add: array_rep_def)
  then have "\<exists>s'. Stack_SelfTest \<lparr>st_size = 10, st_top = 0, st_stack = mem\<rparr> = Some (Inr (selftest_output (\<lambda>x. x + 1) 10 17, s'))"
    unfolding Stack_SelfTest_def
    using istack.selftest_full[of "\<lparr>st_size = 10, st_top = 0, st_stack = mem\<rparr>" 10 "\<lambda>x. x + 1" 17] by auto
  then show ?thesis by (auto simp: stack_main_def Stack_new_def)
qed

lemma TStack_SelfTest_prints:
  assumes "TStack_new sz mem = Inr s" "length mem = nat sz"
  shows "\<exists>s'. TStack_SelfTest inc start s = Some (Inr (selftest_output inc (nat sz) start, s')) \<and> TStack_Empty s'"
proof -
  have s: "s = \<lparr>ts_size = sz, ts_top = 0, ts_stack = mem\<rparr>" "1 \<le> sz"
    using assms(1) by (simp_all add: TStack_new_def res_simps)
  have "array_rep (ts_size s) (ts_top s) (ts_stack s) []" using assms(2) s by (simp add: array_rep_def)
  from tstack.selftest_full[OF this, of "nat sz" inc start] s show ?thesis
    by (auto simp: TStack_SelfTest_def TStack_Empty_def dest: array_bounds(1))
qed

lemma template_main_prints:
  assumes "length m1 = 10" "length m2 = 10"
  shows "template_main m1 m2 = Some (Inr (selftest_output (\<lambda>n. n + 1) 10 17, selftest_output (\<lambda>n. n + 1) 10 97))"
  using TStack_SelfTest_prints[of 10 m1 _ "\<lambda>n. n + 1" 17] TStack_SelfTest_prints[of 10 m2 _ "\<lambda>n. n + 1" 97] assms
  by (fastforce simp: template_main_def TStack_new_def)

lemma inherit_main_prints:
  assumes "length mem = 10"
  shows "inherit_main mem = Some (Inr (selftest_output (\<lambda>x. x + 1) 10 17, selftest_output (\<lambda>x. x + 1) 10 17))"
proof -
  have "ArrayStack_rep \<lparr>ar_size = 10, ar_top = 0, ar_stack = mem\<rparr> []" using assms by (simp add: array_rep_def)
  from arraystack.SelfTest_ok[OF this, of 10] obtain a
    where a: "VStack_SelfTest ArrayStack_class 10 \<lparr>ar_size = 10, ar_top = 0, ar_stack = mem\<rparr> = Some (Inr (selftest_output (\<lambda>x. x + 1) 10 17, a))" by auto
  from liststack.SelfTest_ok[OF IList_new_rep, of 10] obtain t
    where t: "VStack_SelfTest ListStack_class 10 IList_new = Some (Inr (selftest_output (\<lambda>x. x + 1) 10 17, t))" "IList_rep t []" by auto
  from IList_delete_rep[OF t(2)] a t show ?thesis
    by (auto simp: inherit_main_def ArrayStack_new_def ListStack_new_def)
qed

end
