(* ===== verification/Nachos_Devices.thy ===== *)
theory Nachos_Devices
  imports Nachos_Disk Nachos_Network Nachos_Mipssim
begin

text \<open>
  All devices of the machine at once: the handlers that \<open>Interrupt::CheckIfDue\<close> can find in a pending
  interrupt (\<open>TimerHandler\<close> of \<open>machine/timer.cc\<close>, \<open>DiskDone\<close> of \<open>disk.cc\<close>, \<open>ConsoleReadPoll\<close> and
  \<open>ConsoleWriteDone\<close> of \<open>console.cc\<close>, \<open>NetworkReadPoll\<close> and \<open>NetworkSendDone\<close> of \<open>network.cc\<close>), each with the handler of the
  kernel behind it. The theorems say which handlers a tick and an idle period run, in which order,
  and what they leave. As in theory \<open>Nachos_Disk\<close>, a semaphore is its value: waking a thread that waits
  for it is the subject of theory \<open>Nachos_Threads\<close>.
\<close>

subsection \<open>The handlers\<close>

datatype Handler = TimerHandler | DiskDone_h | ConsoleReadPoll | ConsoleWriteDone | NetworkReadPoll | NetworkSendDone

text \<open>
  \<open>d_random n\<close> is the \<open>n\<close>-th value of \<open>Random()\<close>, and \<open>d_keys n\<close> what the \<open>n\<close>-th call of \<open>PollFile\<close> on
  the keyboard finds: a character that can be read, or nothing. The end of the input, at which
  \<open>Read\<close> fails, is not reached.
\<close>

record Devices =
  d_machine :: Machine
  d_timer :: Timer
  d_random :: "nat \<Rightarrow> nat"
  d_drawn :: nat
  d_disk :: SynchDisk
  d_console :: Console
  d_keys :: "nat \<Rightarrow> byte option"
  d_polled :: nat
  d_readAvail :: int
  d_writeDone :: int
  d_network :: Network
  d_sockets :: Sockets
  d_messageAvailable :: int
  d_messageSent :: int

type_synonym DevHw = "(Handler, Devices) Hw"

definition upd_kern :: "(Devices \<Rightarrow> Devices) \<Rightarrow> DevHw \<Rightarrow> DevHw" where
  "upd_kern f s = s\<lparr>kern := f (kern s)\<rparr>"

definition handle_TimerHandler :: "DevHw \<Rightarrow> DevHw res" where
  "handle_TimerHandler s =
     (let k = kern s in
      Timer_TimerExpired TimerHandler (d_timer k) (d_random k (d_drawn k)) TimerInterruptHandler
        (if tm_randomize (d_timer k) then upd_kern (\<lambda>k. k\<lparr>d_drawn := d_drawn k + 1\<rparr>) s else s))"

definition handle_DiskDone :: "DevHw \<Rightarrow> DevHw res" where
  "handle_DiskDone s = Inr (upd_kern (\<lambda>k. k\<lparr>d_disk := SynchDisk_RequestDone
     ((d_disk k)\<lparr>sd_disk := Disk_HandleInterrupt (sd_disk (d_disk k))\<rparr>)\<rparr>) s)"

text \<open>\<open>PollFile\<close> is called only when no character waits. \<open>ReadAvail\<close> is \<open>readAvail->V()\<close>.\<close>

definition handle_ConsoleReadPoll :: "DevHw \<Rightarrow> DevHw res" where
  "handle_ConsoleReadPoll s =
     (let k = kern s; key = d_keys k (d_polled k) in
      bindR (Console_CheckCharAvail ConsoleReadPoll (key \<noteq> None) key (d_console k)
          (if incoming (d_console k) = EOF then upd_kern (\<lambda>k. k\<lparr>d_polled := d_polled k + 1\<rparr>) s else s)) (\<lambda>(called, con, s').
      Inr (upd_kern (\<lambda>k. k\<lparr>d_console := con, d_readAvail := d_readAvail k + (if called then 1 else 0)\<rparr>) s')))"

definition handle_ConsoleWriteDone :: "DevHw \<Rightarrow> DevHw res" where
  "handle_ConsoleWriteDone s =
     (let (con, s') = Console_WriteDone (d_console (kern s)) s in
      Inr (upd_kern (\<lambda>k. k\<lparr>d_console := con, d_writeDone := d_writeDone k + 1\<rparr>) s'))"

text \<open>\<open>ReadAvail\<close> and \<open>WriteDone\<close> of the post office post \<open>messageAvailable\<close> and \<open>messageSent\<close>.\<close>

definition handle_NetworkReadPoll :: "DevHw \<Rightarrow> DevHw res" where
  "handle_NetworkReadPoll s =
     bindR (Network_CheckPktAvail NetworkReadPoll (d_network (kern s)) (d_sockets (kern s)) s) (\<lambda>(called, net, socks, s').
     Inr (upd_kern (\<lambda>k. k\<lparr>d_network := net, d_sockets := socks,
       d_messageAvailable := d_messageAvailable k + (if called then 1 else 0)\<rparr>) s'))"

definition handle_NetworkSendDone :: "DevHw \<Rightarrow> DevHw res" where
  "handle_NetworkSendDone s =
     (let (net, s') = Network_SendDone (d_network (kern s)) s in
      Inr (upd_kern (\<lambda>k. k\<lparr>d_network := net, d_messageSent := d_messageSent k + 1\<rparr>) s'))"

text \<open>\<open>(*(toOccur->handler))(toOccur->arg)\<close>; \<open>yld\<close> is \<open>currentThread->Yield()\<close>.\<close>

definition call_handler :: "Handler \<Rightarrow> DevHw \<Rightarrow> DevHw res" where
  "call_handler h = (case h of TimerHandler \<Rightarrow> handle_TimerHandler | DiskDone_h \<Rightarrow> handle_DiskDone
     | ConsoleReadPoll \<Rightarrow> handle_ConsoleReadPoll | ConsoleWriteDone \<Rightarrow> handle_ConsoleWriteDone
     | NetworkReadPoll \<Rightarrow> handle_NetworkReadPoll | NetworkSendDone \<Rightarrow> handle_NetworkSendDone)"

definition device_callbacks :: "(DevHw \<Rightarrow> DevHw res) \<Rightarrow> (Handler, Devices) Callbacks" where
  "device_callbacks yld = \<lparr>cb_handler = call_handler,
     cb_DelayedLoad = (\<lambda>k. mapR (\<lambda>m. k\<lparr>d_machine := m\<rparr>) (Machine_DelayedLoad 0 0 (d_machine k))),
     cb_Yield = yld\<rparr>"

subsection \<open>What the handlers promise\<close>

definition arrived :: "Devices \<Rightarrow> byte list option" where
  "arrived k = (if pk_length (inHdr (d_network k)) \<noteq> 0 then None
     else case d_sockets k (net_ident (d_network k)) of Some (p # _) \<Rightarrow> Some (take 64 p) | _ \<Rightarrow> None)"

definition typed :: "Devices \<Rightarrow> byte option" where
  "typed k = (if incoming (d_console k) = EOF then d_keys k (d_polled k) else None)"

definition device_effect :: "(Handler, Devices) effect" where
  "device_effect h x = (let (k, st) = x in case h of
     TimerHandler \<Rightarrow> ((if tm_randomize (d_timer k) then k\<lparr>d_drawn := d_drawn k + 1\<rparr> else k, st),
       Some (Timer_TimeOfNextInterrupt (d_timer k) (d_random k (d_drawn k)), TimerInt))
   | DiskDone_h \<Rightarrow> ((k\<lparr>d_disk := (d_disk k)\<lparr>sd_semaphore := sd_semaphore (d_disk k) + 1,
       sd_disk := (sd_disk (d_disk k))\<lparr>dk_active := False\<rparr>\<rparr>\<rparr>, st), None)
   | ConsoleReadPoll \<Rightarrow>
       (let k1 = (if incoming (d_console k) = EOF then k\<lparr>d_polled := d_polled k + 1\<rparr> else k) in
        (case typed k of None \<Rightarrow> (k1, st)
         | Some c \<Rightarrow> (k1\<lparr>d_console := (d_console k)\<lparr>incoming := c\<rparr>, d_readAvail := d_readAvail k + 1\<rparr>,
             st\<lparr>numConsoleCharsRead := numConsoleCharsRead st + 1\<rparr>),
         Some (ConsoleTime, ConsoleReadInt)))
   | ConsoleWriteDone \<Rightarrow> ((k\<lparr>d_console := (d_console k)\<lparr>putBusy := False\<rparr>, d_writeDone := d_writeDone k + 1\<rparr>,
       st\<lparr>numConsoleCharsWritten := numConsoleCharsWritten st + 1\<rparr>), None)
   | NetworkReadPoll \<Rightarrow>
       (case arrived k of None \<Rightarrow> (k, st)
        | Some p \<Rightarrow> (let hdr = PacketHeader_at p; n = net_ident (d_network k) in
            (k\<lparr>d_network := (d_network k)\<lparr>inHdr := hdr,
                 inbox := overwrite (inbox (d_network k)) 0 (take (unat (pk_length hdr)) (drop 12 p))\<rparr>,
               d_sockets := (d_sockets k)(n := map_option tl (d_sockets k n)),
               d_messageAvailable := d_messageAvailable k + 1\<rparr>,
             st\<lparr>numPacketsRecvd := numPacketsRecvd st + 1\<rparr>)),
        Some (NetworkTime, NetworkRecvInt))
   | NetworkSendDone \<Rightarrow> ((k\<lparr>d_network := (d_network k)\<lparr>sendBusy := False\<rparr>, d_messageSent := d_messageSent k + 1\<rparr>,
       st\<lparr>numPacketsSent := numPacketsSent st + 1\<rparr>), None))"

text \<open>\<open>DelayedLoad(0, 0)\<close>: the pending load is done and none is pending.\<close>

definition finish_load :: "Devices \<Rightarrow> Devices" where
  "finish_load k = (let m = d_machine k in
     k\<lparr>d_machine := set_reg 0 0 (set_reg LoadValueReg 0 (set_reg LoadReg 0
        (set_reg (unat (reg m LoadReg)) (reg m LoadValueReg) m)))\<rparr>)"

text \<open>
  What the devices rely on: the load register names a register, and the packets that wait on the
  machine's own socket have the size and the address that \<open>Network::Send\<close> gives them.
\<close>

definition packet_ok :: "u32 \<Rightarrow> byte list \<Rightarrow> bool" where
  "packet_ok n p \<longleftrightarrow> 64 \<le> length p \<and> pk_to (PacketHeader_at (take 64 p)) = n
     \<and> unat (pk_length (PacketHeader_at (take 64 p))) \<le> 52"

definition Devices_ok :: "Devices \<Rightarrow> bool" where
  "Devices_ok k \<longleftrightarrow> length (registers (d_machine k)) = 40 \<and> uint (reg (d_machine k) LoadReg) < 32
     \<and> (case d_sockets k (net_ident (d_network k)) of None \<Rightarrow> True | Some q \<Rightarrow> list_all (packet_ok (net_ident (d_network k))) q)"

subsection \<open>The handlers keep their promise\<close>

lemma Schedule_eq: "0 < d \<Longrightarrow> Interrupt_Schedule h d ty s =
    Inr (set_pending (reschedule (totalTicks (stats s)) h (Some (d, ty)) (pending (intr s))) s)"
  by (simp add: Interrupt_Schedule_def reschedule_def set_pending_def upd_intr_def Let_def)

lemma Timer_pos: "0 < Timer_TimeOfNextInterrupt t rnd"
  using Timer_TimeOfNextInterrupt_range[of t rnd] by simp

lemmas handler_defs = run_handler_def device_effect_def upd_kern_def set_pending_def upd_intr_def Let_def reschedule_def

lemma TimerHandler_runs:
  "status (intr s) = SystemMode \<Longrightarrow> handle_TimerHandler s = Inr (run_handler device_effect (\<lambda>k. k) (\<lambda>h. h = TimerHandler) TimerHandler s)"
  by (simp add: handle_TimerHandler_def Timer_TimerExpired_def Schedule_eq[OF Timer_pos] TimerInterruptHandler_def
      Interrupt_getStatus_def Interrupt_YieldOnReturn_def handler_defs)

lemma DiskDone_runs:
  "handle_DiskDone s = Inr (run_handler device_effect (\<lambda>k. k) (\<lambda>h. h = TimerHandler) DiskDone_h s)"
  by (simp add: handle_DiskDone_def SynchDisk_RequestDone_def Disk_HandleInterrupt_def handler_defs)

lemma ConsoleReadPoll_runs:
  "handle_ConsoleReadPoll s = Inr (run_handler device_effect (\<lambda>k. k) (\<lambda>h. h = TimerHandler) ConsoleReadPoll s)"
  by (auto simp add: handle_ConsoleReadPoll_def Console_CheckCharAvail_def Schedule_eq ConsoleTime_def typed_def handler_defs
      split: option.splits)

lemma ConsoleWriteDone_runs:
  "handle_ConsoleWriteDone s = Inr (run_handler device_effect (\<lambda>k. k) (\<lambda>h. h = TimerHandler) ConsoleWriteDone s)"
  by (simp add: handle_ConsoleWriteDone_def Console_WriteDone_def handler_defs)

lemma NetworkSendDone_runs:
  "handle_NetworkSendDone s = Inr (run_handler device_effect (\<lambda>k. k) (\<lambda>h. h = TimerHandler) NetworkSendDone s)"
  by (simp add: handle_NetworkSendDone_def Network_SendDone_def handler_defs)

lemma NetworkReadPoll_runs:
  assumes "Devices_ok (kern s)"
  shows "handle_NetworkReadPoll s = Inr (run_handler device_effect (\<lambda>k. k) (\<lambda>h. h = TimerHandler) NetworkReadPoll s)"
proof (cases "arrived (kern s)")
  case None
  then show ?thesis
    by (auto simp add: handle_NetworkReadPoll_def Network_CheckPktAvail_def Schedule_eq NetworkTime_def PollSocket_def
        arrived_def handler_defs split: if_splits option.splits list.splits)
next
  case (Some p)
  let ?k = "kern s"
  let ?n = "net_ident (d_network ?k)"
  from Some obtain d q where q: "pk_length (inHdr (d_network ?k)) = 0" "d_sockets ?k ?n = Some (d # q)" "p = take 64 d"
    by (auto simp: arrived_def split: if_splits option.splits list.splits)
  then have d: "64 \<le> length d" "pk_to (PacketHeader_at (take 64 d)) = ?n" "unat (pk_length (PacketHeader_at (take 64 d))) \<le> 52"
    using assms by (simp_all add: Devices_ok_def packet_ok_def)
  then show ?thesis using q
    by (simp add: handle_NetworkReadPoll_def Network_CheckPktAvail_def Schedule_eq NetworkTime_def PollSocket_def
        ReadFromSocket_def wire_sizes Some handler_defs)
qed

lemma finish_load_ok:
  assumes "Devices_ok k"
  shows "cb_DelayedLoad (device_callbacks yld) k = Inr (finish_load k) \<and> Devices_ok (finish_load k)"
proof -
  let ?m = "d_machine k"
  have u: "uint (reg ?m LoadReg) < 32" and n: "length (registers ?m) = 40" using assms by (simp_all add: Devices_ok_def)
  have l: "sint (reg ?m LoadReg) = int (unat (reg ?m LoadReg))" "unat (reg ?m LoadReg) < 40"
    using u by (simp_all only: sint_small[OF u] uint_nat)
  have "updR (registers ?m) (sint (reg ?m LoadReg)) (reg ?m LoadValueReg) = Inr ((registers ?m)[unat (reg ?m LoadReg) := reg ?m LoadValueReg])"
    unfolding l(1) using u n by (simp add: updR_def)
  then have "Machine_DelayedLoad 0 0 ?m = Inr (d_machine (finish_load k))"
    by (simp add: Machine_DelayedLoad_def finish_load_def Let_def set_reg_def)
  moreover have "reg (d_machine (finish_load k)) LoadReg = 0" using n by (simp add: finish_load_def Let_def reg_def set_reg_def reg_defs)
  ultimately show ?thesis using assms by (auto simp: device_callbacks_def finish_load_def Let_def Devices_ok_def set_reg_def split: option.splits)
qed

lemma device_effect_ok:
  assumes "Devices_ok k" "device_effect h (k, st) = ((k', st'), r)"
  shows "Devices_ok k' \<and> clock st' = clock st \<and> (case r of None \<Rightarrow> True | Some (d, ty) \<Rightarrow> 0 < d)"
  using assms Timer_pos[of "d_timer k" "d_random k (d_drawn k)"]
  by (cases h) (auto simp: device_effect_def Devices_ok_def clock_def Let_def ConsoleTime_def NetworkTime_def arrived_def
      split: option.splits if_splits list.splits)

interpretation devices: interrupt_devices "device_callbacks yld" Devices_ok device_effect finish_load "\<lambda>h. h = TimerHandler"
  for yld :: "DevHw \<Rightarrow> DevHw res"
proof
  fix s :: DevHw and h
  assume "Devices_ok (kern s)" "status (intr s) = SystemMode"
  then show "cb_handler (device_callbacks yld) h s = Inr (run_handler device_effect (\<lambda>k. k) (\<lambda>h. h = TimerHandler) h s)"
    by (cases h) (simp_all add: device_callbacks_def call_handler_def TimerHandler_runs DiskDone_runs ConsoleReadPoll_runs
        ConsoleWriteDone_runs NetworkReadPoll_runs NetworkSendDone_runs)
qed (use device_effect_ok finish_load_ok in blast)+

subsection \<open>Properties\<close>

abbreviation serve_devices :: "(int \<times> Handler PendingInterrupt) list \<Rightarrow> DevHw \<Rightarrow> DevHw" where
  "serve_devices \<equiv> serve device_effect finish_load (\<lambda>h. h = TimerHandler)"

lemma fold_yield:
  "yieldOnReturn (intr (fold (\<lambda>e. run_handler eff dl asks (pi_handler (snd e))) es s)) \<longleftrightarrow>
     yieldOnReturn (intr s) \<or> (\<exists>e \<in> set es. asks (pi_handler (snd e)))"
  by (induction es arbitrary: s) (auto simp: run_handler_def split: prod.splits)

lemma serve_yield:
  "yieldOnReturn (intr (serve eff dl asks es s)) \<longleftrightarrow> yieldOnReturn (intr s) \<or> (\<exists>e \<in> set es. asks (pi_handler (snd e)))"
  by (simp add: serve_def fold_yield)

text \<open>C29: The clock tick, with all devices. On a well-formed state outside of a handler, one tick
  advances the clock by 10 in system mode and by 1 in user mode, and the split of the total into idle,
  system and user ticks stays exact. Then the handlers of exactly the interrupts that are due
  run, in the order of the list, each with the effect on its device that \<open>device_effect\<close> gives
  (the disk becomes idle and its semaphore is posted, a character or a packet is stored and announced,
  the polling devices and the timer schedule their next interrupt), after the delayed load. None is due then; interrupts are on, and the running thread yields if
  the timer was among them (or a switch was already asked for).\<close>

theorem OneTick_serves_all_due:
  assumes "Interrupt_ok s" "Devices_ok (kern s)" "\<not> inHandler (intr s)" "status (intr s) \<noteq> IdleMode"
  defines "s0 \<equiv> advance_tick s"
  defines "s' \<equiv> Interrupt_ChangeLevel IntOn (requeue (serve_devices (due s0) s0))"
  shows "Interrupt_OneTick (device_callbacks yld) s =
      Some (if yieldOnReturn (intr s) \<or> TimerHandler \<in> (\<lambda>e. pi_handler (snd e)) ` set (due s0)
        then mapR (Interrupt_setStatus (status (intr s)))
          (yld (upd_intr (\<lambda>i. i\<lparr>yieldOnReturn := False, status := SystemMode\<rparr>) s'))
        else Inr s')
    \<and> due s' = [] \<and> Interrupt_ok s' \<and> Devices_ok (kern s')
    \<and> totalTicks (stats s') = totalTicks (stats s) + (if status (intr s) = SystemMode then 10 else 1)
    \<and> ticks_ok (stats s') = ticks_ok (stats s)"
proof -
  note o1 = devices.OneTick_serves(1)[OF assms(1-4), where yld = yld, folded s0_def, folded s'_def]
  note o = devices.OneTick_serves(2-5)[OF assms(1-4), folded s0_def, folded s'_def]
  have "yieldOnReturn (intr s') \<longleftrightarrow> yieldOnReturn (intr s) \<or> TimerHandler \<in> (\<lambda>e. pi_handler (snd e)) ` set (due s0)"
  proof -
    have "yieldOnReturn (intr s0) = yieldOnReturn (intr s)" by (simp add: s0_def advance_tick_def Let_def)
    then show ?thesis by (simp add: s'_def serve_yield image_iff eq_commute[of TimerHandler])
  qed
  moreover have "cb_Yield (device_callbacks yld) = yld" by (simp add: device_callbacks_def)
  moreover note clock_eqD[OF o(4)] advance_tick_clock[of s, folded s0_def]
  ultimately show ?thesis using o1 o(1-3) by simp
qed

definition demo_devices :: Devices where
  "demo_devices = \<lparr>d_machine = demo_cpu, d_timer = \<lparr>tm_randomize = False\<rparr>, d_random = (\<lambda>n. n), d_drawn = 0,
     d_disk = \<lparr>sd_semaphore = 0, sd_lock = 0, sd_isHeld = True, sd_disk = demo_disk\<lparr>dk_active := True\<rparr>\<rparr>,
     d_console = \<lparr>display = [], putBusy = False, incoming = EOF\<rparr>, d_keys = (\<lambda>n. Some 65), d_polled = 0,
     d_readAvail = 0, d_writeDone = 0,
     d_network = \<lparr>net_ident = 0, chanceToWork = 1, sendBusy = False, inHdr = \<lparr>pk_to = 0, pk_from = 0, pk_length = 0\<rparr>, inbox = []\<rparr>,
     d_sockets = (\<lambda>_. None), d_messageAvailable = 0, d_messageSent = 0\<rparr>"

definition demo_pending :: "(int \<times> Handler PendingInterrupt) list" where
  "demo_pending = [(5, \<lparr>pi_handler = DiskDone_h, pi_when = 5, pi_type = DiskInt\<rparr>),
     (7, \<lparr>pi_handler = ConsoleReadPoll, pi_when = 7, pi_type = ConsoleReadInt\<rparr>),
     (100, \<lparr>pi_handler = TimerHandler, pi_when = 100, pi_type = TimerInt\<rparr>)]"

definition demo_devhw :: DevHw where
  "demo_devhw = \<lparr>intr = Interrupt_new\<lparr>pending := demo_pending\<rparr>, stats = Statistics_new, kern = demo_devices\<rparr>"

lemma demo_devhw_ok: "Interrupt_ok demo_devhw" "Devices_ok (kern demo_devhw)" "\<not> inHandler (intr demo_devhw)"
  "status (intr demo_devhw) = SystemMode" "level (intr demo_devhw) = IntOff" "pending (intr demo_devhw) = demo_pending"
  using demo_cpu_ok
  by (simp_all add: demo_devhw_def Interrupt_ok_def Interrupt_new_def demo_pending_def Devices_ok_def demo_devices_def
      cpu_ok_def cpu_mid_def Machine_ok_def)

lemmas demo_eval = serve_def device_effect_def run_handler_def typed_def finish_load_def requeue_def ins_key_def
  reschedule_def demo_devices_def ConsoleTime_def Statistics_new_def set_pending_def upd_intr_def Interrupt_new_def Let_def

theorem OneTick_serves_all_due_witness:
  "\<exists>s'. Interrupt_OneTick (device_callbacks Inr) demo_devhw = Some (Inr s') \<and> totalTicks (stats s') = 10
     \<and> sd_semaphore (d_disk (kern s')) = 1 \<and> \<not> dk_active (sd_disk (d_disk (kern s'))) \<and> incoming (d_console (kern s')) = 65
     \<and> d_readAvail (kern s') = 1 \<and> map (\<lambda>e. (fst e, pi_handler (snd e))) (pending (intr s')) = [(100, TimerHandler), (110, ConsoleReadPoll)]"
proof -
  have t: "advance_tick demo_devhw = demo_devhw\<lparr>stats := Statistics_new\<lparr>totalTicks := 10, systemTicks := 10\<rparr>\<rparr>"
    by (simp add: advance_tick_def demo_devhw_def Interrupt_new_def Statistics_new_def SystemTick_def)
  have d: "due (advance_tick demo_devhw) = take 2 demo_pending"
    unfolding t by (simp add: due_def demo_devhw_def Interrupt_new_def demo_pending_def)
  let ?s' = "Interrupt_ChangeLevel IntOn (requeue (serve_devices (take 2 demo_pending) (advance_tick demo_devhw)))"
  have "\<not> (yieldOnReturn (intr demo_devhw) \<or> TimerHandler \<in> (\<lambda>e. pi_handler (snd e)) ` set (take 2 demo_pending))"
    by (simp add: demo_devhw_def Interrupt_new_def demo_pending_def)
  then have "Interrupt_OneTick (device_callbacks Inr) demo_devhw = Some (Inr ?s')"
    using OneTick_serves_all_due[OF demo_devhw_ok(1-3), of Inr, unfolded d] demo_devhw_ok(4)
    by (simp only: if_False) simp
  then show ?thesis
    by (intro exI[of _ ?s'] conjI) (assumption, simp_all add: t, simp_all add: demo_devhw_def demo_pending_def demo_eval)
qed

text \<open>C30: Idling, with all devices. When no thread is ready, \<open>Idle\<close> halts the machine if nothing is
  pending or only a timer interrupt is. Otherwise it advances the clock to the first pending
  interrupt (never backwards), charging the difference to the idle ticks only, runs the handler of
  this interrupt and then those of all others that are due, in the order of the list and each with its effect on the device, and returns in
  system mode with no switch asked for. Nothing is due then; the one exception is a timer interrupt that is due
  with nothing else pending, which stays for the next call, which will halt.\<close>

theorem Idle_serves_or_halts:
  assumes "Interrupt_ok s" "Devices_ok (kern s)" "\<not> inHandler (intr s)" "level (intr s) = IntOff"
  shows "if pending (intr s) = [] \<or> map (pi_type \<circ> snd) (pending (intr s)) = [TimerInt]
    then Interrupt_Idle (device_callbacks yld) s = Some (Inl Halted)
    else (let e = hd (pending (intr s)); s0 = idle_until (fst e) s in
      \<exists>es s'. s' = requeue (serve_devices (e # es) s0)
        \<and> Interrupt_Idle (device_callbacks yld) s = Some (Inr (upd_intr (\<lambda>i. i\<lparr>yieldOnReturn := False, status := SystemMode\<rparr>) s'))
        \<and> (e # es = due s0 \<and> due s' = []
           \<or> map (pi_type \<circ> snd) (pending (intr s')) = [TimerInt] \<and> due s0 = e # es @ pending (intr s'))
        \<and> Interrupt_ok s' \<and> Devices_ok (kern s')
        \<and> totalTicks (stats s') = max (fst e) (totalTicks (stats s)) \<and> ticks_ok (stats s') = ticks_ok (stats s)
        \<and> systemTicks (stats s') = systemTicks (stats s) \<and> userTicks (stats s') = userTicks (stats s))"
proof (cases "pending (intr s) = [] \<or> map (pi_type \<circ> snd) (pending (intr s)) = [TimerInt]")
  case True
  then show ?thesis using Idle_halts[OF assms(4) True] by simp
next
  case False
  then obtain e rest where e: "pending (intr s) = e # rest" "\<not> (pi_type (snd e) = TimerInt \<and> rest = [])"
    by (cases "pending (intr s)") auto
  from devices.Idle_serves[OF assms e, where yld = yld] obtain es s' where es: "s' = requeue (serve_devices (e # es) (idle_until (fst e) s))"
    "Interrupt_Idle (device_callbacks yld) s = Some (Inr (upd_intr (\<lambda>i. i\<lparr>yieldOnReturn := False, status := SystemMode\<rparr>) s'))"
    "e # es = due (idle_until (fst e) s) \<and> due s' = []
       \<or> map (pi_type \<circ> snd) (pending (intr s')) = [TimerInt] \<and> due (idle_until (fst e) s) = e # es @ pending (intr s')"
    "Interrupt_ok s'" "Devices_ok (kern s')" "clock (stats s') = clock (stats (idle_until (fst e) s))"
    by (elim exE conjE) (rule that; assumption)
  have "totalTicks (stats s') = max (fst e) (totalTicks (stats s))" "ticks_ok (stats s') = ticks_ok (stats s)"
    "systemTicks (stats s') = systemTicks (stats s)" "userTicks (stats s') = userTicks (stats s)"
    using es(6) by (auto simp: clock_def ticks_ok_def idle_until_def)
  with es show ?thesis unfolding Let_def e(1) list.sel(1) if_not_P[OF False[unfolded e(1)]]
    by (intro exI[of _ es] exI[of _ s'] conjI) assumption+
qed

theorem Idle_serves_or_halts_witness:
  "\<exists>s'. Interrupt_Idle (device_callbacks Inr) demo_devhw = Some (Inr s') \<and> totalTicks (stats s') = 5
     \<and> sd_semaphore (d_disk (kern s')) = 1 \<and> \<not> dk_active (sd_disk (d_disk (kern s')))"
proof -
  have d: "due (idle_until 5 demo_devhw) = take 1 demo_pending"
    by (simp add: due_def idle_until_def demo_devhw_def Interrupt_new_def demo_pending_def Statistics_new_def)
  obtain es s' where s': "s' = requeue (serve_devices (hd demo_pending # es) (idle_until 5 demo_devhw))"
    "Interrupt_Idle (device_callbacks Inr) demo_devhw = Some (Inr (upd_intr (\<lambda>i. i\<lparr>yieldOnReturn := False, status := SystemMode\<rparr>) s'))"
    "hd demo_pending # es = take 1 demo_pending \<or> map (pi_type \<circ> snd) (pending (intr s')) = [TimerInt]
      \<and> take 1 demo_pending = hd demo_pending # es @ pending (intr s')" "totalTicks (stats s') = 5"
    using Idle_serves_or_halts[OF demo_devhw_ok(1-3,5), of Inr, unfolded demo_devhw_ok(6)] d
    by (auto simp: demo_pending_def Let_def demo_devhw_def Statistics_new_def)
  then have "es = []" by (auto simp: demo_pending_def)
  then show ?thesis using s'(2,4) unfolding s'(1)
    by (simp add: demo_devhw_def demo_pending_def idle_until_def demo_eval)
qed

end
