(* ===== verification/Spec2Isabelle.thy ===== *)
theory Spec2Isabelle
  imports Nachos_List Nachos_Mipssim Nachos_FsTest Nachos_Main Nachos_Interp Nachos_VM Nachos_Delivery Nachos_Dining Nachos_Coff Nachos_Stack Nachos_Devices
begin

text \<open>
  \<^bold>\<open>Nachos: a verification development.\<close>

  Nachos is an instructional operating system kernel that runs on a simulated machine inside one
  host process. Its sources are in \<open>src/NachOSx64/code\<close>; all paths below are relative to this
  directory. The machine (\<open>machine/\<close>) interprets MIPS instructions, translates addresses, keeps
  simulated time and delivers interrupts from a timer, a disk, a console and a network. The kernel
  schedules threads and synchronises them (\<open>threads/\<close>), runs user programs in address spaces and
  serves their system calls (\<open>userprog/\<close>), and keeps files on the simulated disk (\<open>filesys/\<close>).
  Compile-time flags choose between the builds: \<open>userprog\<close> (files are those of the host),
  \<open>vm\<close> (the same with a TLB, demand paging and a swap file), \<open>filesys\<close> (the Nachos file system).

  \<^bold>\<open>Conventions.\<close> A failed \<open>ASSERT\<close>, an access outside of an object and the end of the
  simulation are values of the type \<open>err\<close>, and every operation that can fail returns \<open>err + 'a\<close>
  (\<open>'a res\<close>, theory \<open>Nachos_Prelude\<close>); no operation is assumed to succeed. Machine words that
  wrap are \<open>32 word\<close>s; C++ \<open>int\<close>s that overflow only in a run of 2147483648 ticks or on a file of
  as many bytes (clocks, counters, positions in a file) are HOL integers with the truncating
  division of C. Pointers into arrays are indices, pointers to objects that are shared
  or freed are keys of a finite store. Addresses and uninitialised memory that \<open>new\<close> returns are
  parameters. Loops are total recursive functions with a termination proof; loops
  that may never end (reading a file name in \<open>NachOS_Create\<close>, loops over the operations of an arbitrary
  class, printing a file) are partial functions with value \<open>None\<close> then. \<open>Machine::Run\<close> and the loop of the
  stand-alone interpreter, which never return, are the state after \<open>n\<close> rounds, for every \<open>n\<close>; the loop of the
  postal worker is a script that puts itself back.

  \<^bold>\<open>Theories.\<close>

  \<^item> \<open>Nachos_Prelude\<close>: results, array access, C division, \<open>divRoundUp\<close> of \<open>threads/utility.h\<close>,
    and the generic lemmas.
  \<^item> \<open>Nachos_List\<close> (\<open>threads/list.h\<close>): the linked list over an explicit store of elements. It
    implements a sequence; insertion by key is stable insertion into a sorted list.
  \<^item> \<open>Nachos_Bitmap\<close> (\<open>userprog/bitmap.cc\<close>): the bit map on 32-bit words. It implements a set;
    allocation yields the least clear bit. Its locale is the interface of the allocators.
  \<^item> \<open>Nachos_Interrupt\<close> (\<open>machine/interrupt.cc\<close>, \<open>stats.cc\<close>, \<open>timer.cc\<close>): simulated time, the
    queue of pending interrupts, firing and idling. The locale \<open>interrupt_devices\<close> states what a handler may do to
    the clock and the queue, and proves which handlers a tick and an idle period run.
  \<^item> \<open>Nachos_Machine\<close> (\<open>machine/machine.cc\<close>, \<open>translate.cc\<close>): registers, memory, TLB and page table,
    \<open>Translate\<close>, \<open>ReadMem\<close>, \<open>WriteMem\<close>. Translation stays in its tables, writes stay in the frames
    of the page table, and what is written is read back. Page tables are shared objects: they
    live in a store, and the machine and the address spaces refer to them.
  \<^item> \<open>Nachos_Mipssim\<close> (\<open>machine/mipssim.cc\<close>): decoding, the whole instruction switch, delayed
    loads, multiplication. The locale \<open>exception_kernel\<close> states what the processor relies on
    from the kernel it traps into, and proves that the processor state stays in order.
  \<^item> \<open>Nachos_Threads\<close> (\<open>threads/thread.cc\<close>, \<open>scheduler.cc\<close>, \<open>synch.cc\<close>): the scheduler, sleeping,
    semaphores, locks, condition variables, as a step relation in which each thread runs a
    script of kernel calls and may be preempted wherever interrupts are enabled. Mutual exclusion,
    consistency of the queues, and the context switch.
  \<^item> \<open>Nachos_Disk\<close> (\<open>machine/disk.cc\<close>, \<open>filesys/synchdisk.cc\<close>): the latency of the simulated disk,
    exactly and with the track buffer, and the synchronous disk, which implements an array of sectors.
  \<^item> \<open>Nachos_Files\<close> (\<open>filesys/filehdr.cc\<close>, \<open>openfile.cc\<close>), \<open>Nachos_Directory\<close>
    (\<open>filesys/directory.cc\<close>), \<open>Nachos_FileSys\<close> (\<open>filesys/filesys.cc\<close>): the file system on that disk.
    Files implement byte sequences, the directory a map, and sessions of operations on the file
    system refine a map from names to contents, also across a restart.
  \<^item> \<open>Nachos_OpenFiles\<close> and \<open>Nachos_AddrSpace\<close> (\<open>userprog/addrspace.h\<close>, \<open>addrspace.cc\<close>,
    \<open>bin/noff.h\<close>): the table of open files as a map, loading and forking of address spaces.
  \<^item> \<open>Nachos_Exception\<close> (\<open>userprog/exception.cc\<close>): the system calls and the exception handler, the
    kernel of the machine. The calls of the host are parameters (record \<open>Host\<close>). The theory
    shows that this kernel is one the processor can rely on (locale \<open>exception_kernel\<close>).
  \<^item> \<open>Nachos_Syscalls\<close>: what the calls do for programs: what \<open>Write\<close> delivers and when it overflows its buffer, the switch of
    processes by \<open>Yield\<close>, and the processor in order after any number of instructions.
  \<^item> \<open>Nachos_VM\<close> (\<open>userprog/invertedpagetables.h\<close>, \<open>memoryswap.h\<close>, the functions under \<open>#ifdef VM\<close> of
    \<open>addrspace.cc\<close> and \<open>exception.cc\<close>): replacement, the swap file and the page fault handler. Second
    chance is the clock algorithm, swapped pages come back, a fault on a page never loaded is
    resolved from the executable.
  \<^item> \<open>Nachos_Network\<close> (\<open>machine/network.cc\<close>, \<open>machine/console.cc\<close>, the sockets of \<open>machine/sysdep.cc\<close>): the
    network device, which sends packets over the datagram sockets of the host and loses some, and the
    console device.
  \<^item> \<open>Nachos_Devices\<close>: all devices of a machine at once, with the handlers of the timer, the disk, the console and
    the network and the kernel's handlers behind them. They satisfy the locale \<open>interrupt_devices\<close>; a tick runs the
    handlers of exactly the interrupts that are due, and idling halts or serves the next interrupt.
  \<^item> \<open>Nachos_Post\<close> (\<open>threads/synchlist.h\<close>, \<open>network/post.cc\<close>): synchronised lists, mailboxes and the post
    office, with its threads as scripts of theory \<open>Nachos_Threads\<close> and its statements as actions on the
    data, and the step relation of any number of machines that share the network.
  \<^item> \<open>Nachos_Delivery\<close>: mail is delivered exactly once, in order and unchanged, through semaphores, locks,
    condition variables, interrupts and packets, and the post office never violates the rules of the device.
  \<^item> \<open>Nachos_Dining\<close> (\<open>threads/diningph.cc\<close>, \<open>threadtest.cc\<close>): the monitor of the dining philosophers over locks and
    conditions, and the program with five threads; neighbours never eat at the same time.
  \<^item> \<open>Nachos_FsTest\<close> (\<open>filesys/fstest.cc\<close>): copying a file of the host into the file system and printing it,
    which gives back its bytes, and the performance test.
  \<^item> \<open>Nachos_Coff\<close> (\<open>bin/coff2noff.c\<close>, \<open>bin/coff2flat.c\<close>): the tools that make the executables of Nachos from the
    output of the linker. With one section of each kind, what \<open>coff2noff\<close> writes is what the loader of theory
    \<open>Nachos_AddrSpace\<close> reads; contiguous \<open>.bss\<close> and \<open>.sbss\<close> are refused.
  \<^item> \<open>Nachos_Stack\<close> (\<open>c++example/\<close>, beside the directory of the kernel): the stacks and the list of the introduction to the
    style of the code. The contract of a stack is a locale with four implementations as interpretations.
  \<^item> \<open>Nachos_Main\<close> (\<open>threads/main.cc\<close>, \<open>system.cc\<close>, \<open>utility.cc\<close>, \<open>preemptive.cc\<close>, \<open>userprog/progtest.cc\<close>): the two passes over the
    command line, which objects each build makes and deletes, the preemptive monitor, and the start of a user
    program: the processor then reads the words of the program file.
  \<^item> \<open>Nachos_Disasm\<close> (\<open>bin/encode.h\<close>, \<open>instr.h\<close>, \<open>opstrings.c\<close>, \<open>d.c\<close>, \<open>out.c\<close>, the table \<open>opStrings\<close> of
    \<open>machine/mipssim.h\<close>): the disassembler and the debug output of the simulator. But for the no-op and eight
    operations they show the same name and the same operands, each in its own syntax.
  \<^item> \<open>Nachos_Interp\<close> (\<open>bin/int.h\<close>, \<open>execute.c\<close>, \<open>system.c\<close>, \<open>main.c\<close>, \<open>disasm.c\<close>): the stand-alone interpreter, its
    loaders and its system calls. The interpreter and the simulator of theory \<open>Nachos_Mipssim\<close> agree on every instruction
    outside an explicit list of differences.

  \<^bold>\<open>Not modelled.\<close> Printing and debugging output apart from the two disassemblers, the rest of the host interface
  (\<open>machine/sysdep.cc\<close>), the debugger, host stacks and \<open>switch.s\<close>; the console test in \<open>userprog/progtest.cc\<close> and
  the demonstration of the network in \<open>network/nettest.cc\<close>; the programs under \<open>test/\<close>; the option loops and the
  histograms of the stand-alone interpreter; and the code the build does not use (\<open>userprog/openfilestable.cc\<close>,
  \<open>Mutex\<close> and \<open>Barrier\<close>, whose bodies are empty).
\<close>

end
